(* ===== verification/Prelude.thy ===== *)
theory Prelude
  imports Main "HOL-Library.Word" "HOL-Library.Signed_Division" "HOL-Library.Multiset"
    "HOL-Library.Sublist"
begin

text \<open>
  What every component of the development shares: names for the C++ integer types, the
  truncating division of C++, the loops that push events while threading an engine state,
  \<open>std::sort\<close> as an interface, and the string operations the rule-based text components use.

  Conventions. An unsigned \<open>std::uintN_t\<close> is an \<open>N word\<close>, so its arithmetic wraps as in C++.
  A C++ \<open>int\<close> is an \<open>int\<close> of HOL: signed overflow is undefined behaviour in C++, and the
  quantities held in an \<open>int\<close> here (notes, bars, ticks of a bar) stay far from its limits.
  Division and remainder of \<open>int\<close> truncate towards zero (\<open>sdiv\<close> and \<open>smod\<close> of
  \<open>HOL-Library.Signed_Division\<close>).
\<close>

unbundle bit_operations_syntax

type_synonym u8 = "8 word"
type_synonym u16 = "16 word"
type_synonym u32 = "32 word"
type_synonym u64 = "64 word"

named_theorems loop_rules "rules for the pushing loops \<open>for_each\<close>"
named_theorems word_cast "casts between C++ integer types, read as naturals"

subsection \<open>Casts\<close>

lemma unat_u8_of_nat [word_cast]: "unat (of_nat n :: u8) = n mod 256"
  by (simp add: unat_of_nat)

lemma unat_u32_of_nat [word_cast]: "unat (of_nat n :: u32) = n mod 4294967296"
  by (simp add: unat_of_nat)

lemma unat_u8_of_nat_small [word_cast]: "n < 256 \<Longrightarrow> unat (of_nat n :: u8) = n"
  by (simp add: unat_of_nat)

lemma unat_u8_of_int_small [word_cast]:
  "0 \<le> n \<Longrightarrow> n < 256 \<Longrightarrow> unat (word_of_int n :: u8) = nat n"
  by (simp add: unat_eq_nat_uint uint_word_of_int)

lemma unat_u8_less [simp]: "unat (x :: u8) < 256"
  using unsigned_less [of x, where ?'a = nat] by simp

lemma sint_small: "unat (p :: u32) < 2 ^ 31 \<Longrightarrow> sint p = uint p"
proof -
  assume "unat p < 2 ^ 31"
  then have "int (unat p) < int (2 ^ 31)" by (simp only: of_nat_less_iff)
  then have "uint p < 2 ^ 31" by simp
  moreover have "0 \<le> uint p" by simp
  ultimately show ?thesis
    using int_word_sint [of "uint p", where ?'a = 32] by (simp add: mod_pos_pos_trivial)
qed

lemma unat_u32_of_int_small [word_cast]:
  "0 \<le> n \<Longrightarrow> n < 2 ^ 32 \<Longrightarrow> unat (word_of_int n :: u32) = nat n"
  by (simp add: unat_eq_nat_uint uint_word_of_int)

text \<open>\<open>static_cast<int>\<close> of a 64-bit seed keeps its low 32 bits as a signed value.\<close>

definition seed_to_int :: "u64 \<Rightarrow> int" where
  "seed_to_int s = sint (ucast s :: u32)"

subsection \<open>Truncating remainder\<close>

lemma smod_nonneg_eq: "0 \<le> a \<Longrightarrow> 0 < b \<Longrightarrow> a smod b = a mod (b :: int)"
  by (simp add: signed_modulo_int_def signed_divide_int_def minus_mult_div_eq_mod sgn_if)

lemma sdiv_nonneg_eq: "0 \<le> a \<Longrightarrow> 0 < b \<Longrightarrow> a sdiv b = a div (b :: int)"
  by (simp add: signed_divide_int_def sgn_if)

lemma smod_int_range_lower: "0 < n \<Longrightarrow> - n < a smod (n :: int)"
  by (auto simp: signed_modulo_int_def sgn_if intro: order.strict_trans2 [of "- n" 0])

text \<open>The C++ idiom \<open>((a % n) + n) % n\<close> is the mathematical remainder.\<close>

lemma norm_mod_idiom:
  assumes "0 < n"
  shows "(a smod n + n) smod n = a mod (n :: int)"
proof -
  have eq: "(a smod n) mod n = a mod n"
    using assms by (auto simp: signed_modulo_int_def sgn_if mod_minus_eq)
  have gt: "- n < a smod n"
    using assms by (rule smod_int_range_lower)
  have "(a smod n + n) smod n = (a smod n + n) mod n"
    using gt assms by (intro smod_nonneg_eq) auto
  also have "\<dots> = a mod n"
    by (simp add: eq)
  finally show ?thesis .
qed

subsection \<open>Pushing loops\<close>

text \<open>
  \<open>for_each f xs s\<close> is the C++ loop \<open>for (x : xs) { ... out.push_back(...); }\<close>: the body
  \<open>f\<close> gets the loop variable and the state the loop mutates besides \<open>out\<close> (the random
  engine, a previous note) and returns what it pushes and the state it leaves.
\<close>

fun for_each :: "('a \<Rightarrow> 's \<Rightarrow> 'b list \<times> 's) \<Rightarrow> 'a list \<Rightarrow> 's \<Rightarrow> 'b list \<times> 's" where
  "for_each f [] s = ([], s)"
| "for_each f (x # xs) s =
     (let (ys, s1) = f x s; (zs, s2) = for_each f xs s1 in (ys @ zs, s2))"

lemma for_each_all [loop_rules]:
  "(\<And>x s. x \<in> set xs \<Longrightarrow> list_all P (fst (f x s))) \<Longrightarrow> list_all P (fst (for_each f xs s))"
  by (induction xs arbitrary: s) (auto simp: split_beta Let_def)

lemma for_each_length:
  "(\<And>x s. x \<in> set xs \<Longrightarrow> length (fst (f x s)) = n) \<Longrightarrow>
   length (fst (for_each f xs s)) = n * length xs"
  by (induction xs arbitrary: s) (auto simp: split_beta Let_def)

lemma for_each_mem:
  "e \<in> set (fst (for_each f xs s)) \<Longrightarrow> \<exists>x \<in> set xs. \<exists>t. e \<in> set (fst (f x t))"
  by (induction xs arbitrary: s) (auto simp: split_beta Let_def)

lemma for_each_memI:
  "x \<in> set xs \<Longrightarrow> (\<And>t. e \<in> set (fst (f x t))) \<Longrightarrow> e \<in> set (fst (for_each f xs s))"
  by (induction xs arbitrary: s) (auto simp: split_beta Let_def)

lemma for_each_append:
  "for_each f (xs @ ys) s =
     (let (as, s1) = for_each f xs s; (bs, s2) = for_each f ys s1 in (as @ bs, s2))"
  by (induction xs arbitrary: s) (auto simp: split_beta Let_def)

text \<open>The pushed list is the concatenation of what each iteration pushed.\<close>

lemma for_each_blocks:
  "(\<And>x s. x \<in> set xs \<Longrightarrow> R x (fst (f x s))) \<Longrightarrow>
   \<exists>blocks. fst (for_each f xs s) = concat blocks \<and> list_all2 R xs blocks"
proof (induction xs arbitrary: s)
  case (Cons x xs)
  then obtain bs where "fst (for_each f xs (snd (f x s))) = concat bs" "list_all2 R xs bs"
    by (metis list.set_intros(2))
  then show ?case
    using Cons.prems [of x s] by (intro exI [of _ "fst (f x s) # bs"]) (simp add: split_beta Let_def)
qed simp

text \<open>A loop that pushes one element per iteration is a map through the state.\<close>

lemma for_each_list_all2:
  "(\<And>x s. x \<in> set xs \<Longrightarrow> \<exists>y. fst (f x s) = [y] \<and> R x y) \<Longrightarrow> list_all2 R xs (fst (for_each f xs s))"
proof (induction xs arbitrary: s)
  case (Cons x xs)
  then obtain y where "fst (f x s) = [y]" "R x y" by (metis list.set_intros(1))
  moreover have "list_all2 R xs (fst (for_each f xs (snd (f x s))))" using Cons by simp
  ultimately show ?case by (simp add: split_beta Let_def)
qed simp

text \<open>An invariant of the threaded state, with what each iteration pushes under it.\<close>

lemma for_each_inv:
  assumes "I s"
    and "\<And>x s. x \<in> set xs \<Longrightarrow> I s \<Longrightarrow> I (snd (f x s)) \<and> list_all P (fst (f x s))"
  shows "I (snd (for_each f xs s)) \<and> list_all P (fst (for_each f xs s))"
  using assms by (induction xs arbitrary: s) (auto simp: split_beta Let_def)

text \<open>An iteration that does not touch the state pushes the same on every pass.\<close>

lemma for_each_pure: "fst (for_each (\<lambda>x s. (f x, s)) xs s) = concat (map f xs)"
  by (induction xs arbitrary: s) (auto simp: split_beta Let_def)

subsection \<open>Sorting with a comparator\<close>

text \<open>
  \<open>std::sort\<close> returns some ordered permutation and does not say which: elements the
  comparator does not distinguish may come in any order. A client is proved against this
  interface; \<open>isort\<close> is the stable order that \<open>std::stable_sort\<close> guarantees.
\<close>

locale std_sort =
  fixes lt :: "'a \<Rightarrow> 'a \<Rightarrow> bool"
    and srt :: "'a list \<Rightarrow> 'a list"
  assumes sort_mset: "mset (srt xs) = mset xs"
    and sort_ordered: "sorted_wrt (\<lambda>a b. \<not> lt b a) (srt xs)"
begin

lemma sort_set: "set (srt xs) = set xs"
  by (metis set_mset_mset sort_mset)

lemma sort_length: "length (srt xs) = length xs"
  by (metis size_mset sort_mset)

lemma sort_list_all: "list_all P (srt xs) = list_all P xs"
  by (simp add: list_all_iff sort_set)

end

fun insert_by :: "('a \<Rightarrow> 'a \<Rightarrow> bool) \<Rightarrow> 'a \<Rightarrow> 'a list \<Rightarrow> 'a list" where
  "insert_by lt x [] = [x]"
| "insert_by lt x (y # ys) = (if lt y x then y # insert_by lt x ys else x # y # ys)"

definition isort :: "('a \<Rightarrow> 'a \<Rightarrow> bool) \<Rightarrow> 'a list \<Rightarrow> 'a list" where
  "isort lt xs = foldr (insert_by lt) xs []"

lemma mset_insert_by: "mset (insert_by lt x ys) = add_mset x (mset ys)"
  by (induction ys) auto

lemma set_insert_by [simp]: "set (insert_by lt x ys) = insert x (set ys)"
  by (induction ys) auto

lemma mset_isort: "mset (isort lt xs) = mset xs"
  unfolding isort_def by (induction xs) (auto simp: mset_insert_by)

locale strict_weak_order =
  fixes lt :: "'a \<Rightarrow> 'a \<Rightarrow> bool"
  assumes asym: "lt a b \<Longrightarrow> \<not> lt b a"
    and neg_trans: "\<not> lt a b \<Longrightarrow> \<not> lt b c \<Longrightarrow> \<not> lt a c"
begin

lemma insert_by_ordered:
  "sorted_wrt (\<lambda>a b. \<not> lt b a) ys \<Longrightarrow> sorted_wrt (\<lambda>a b. \<not> lt b a) (insert_by lt x ys)"
  by (induction ys) (auto dest: asym neg_trans)

lemma isort_ordered: "sorted_wrt (\<lambda>a b. \<not> lt b a) (isort lt xs)"
  unfolding isort_def by (induction xs) (auto intro: insert_by_ordered)

end

sublocale strict_weak_order \<subseteq> stable: std_sort lt "isort lt"
  by unfold_locales (simp_all add: mset_isort isort_ordered)

subsection \<open>Strings\<close>

text \<open>\<open>std::string_view::find\<close>: the least position where the needle starts, \<open>None\<close> for \<open>npos\<close>.\<close>

fun str_find :: "string \<Rightarrow> string \<Rightarrow> nat option" where
  "str_find nd [] = (if nd = [] then Some 0 else None)"
| "str_find nd (c # cs) =
     (if prefix nd (c # cs) then Some 0 else map_option Suc (str_find nd cs))"

definition str_find_at :: "string \<Rightarrow> string \<Rightarrow> nat \<Rightarrow> nat option" where
  "str_find_at nd s pos = map_option (\<lambda>i. i + pos) (str_find nd (drop pos s))"

definition contains :: "string \<Rightarrow> string \<Rightarrow> bool" where
  "contains s nd \<longleftrightarrow> str_find nd s \<noteq> None"

lemma str_find_Some:
  "str_find nd s = Some i \<Longrightarrow> i \<le> length s \<and> prefix nd (drop i s)"
proof (induction s arbitrary: i)
  case (Cons c cs)
  then show ?case
  proof (cases "prefix nd (c # cs)")
    case False
    with Cons.prems obtain j where "str_find nd cs = Some j" and "i = Suc j" by auto
    with Cons.IH show ?thesis by simp
  qed simp
qed (simp split: if_splits)

lemma str_find_at_Some:
  "str_find_at nd s p = Some i \<Longrightarrow> p \<le> length s \<Longrightarrow> p \<le> i \<and> i + length nd \<le> length s"
proof -
  assume *: "str_find_at nd s p = Some i" "p \<le> length s"
  then obtain j where j: "str_find nd (drop p s) = Some j" and i: "i = j + p"
    by (auto simp: str_find_at_def)
  from str_find_Some [OF j] have "length nd \<le> length s - p - j" and "j \<le> length s - p"
    using prefix_length_le by fastforce+
  with i \<open>p \<le> length s\<close> show ?thesis by simp
qed

lemma contains_iff_sublist: "contains s nd \<longleftrightarrow> sublist nd s"
  unfolding contains_def by (induction s) (auto simp: sublist_Cons_right)

lemma contains_trans: "contains s t \<Longrightarrow> contains t u \<Longrightarrow> contains s u"
  unfolding contains_iff_sublist by (rule sublist_order.order.trans)

text \<open>\<open>std::to_string\<close> of an \<open>int\<close>.\<close>

fun nat_digits :: "nat \<Rightarrow> string" where
  "nat_digits n = (if n < 10 then [char_of (48 + n)] else nat_digits (n div 10) @ [char_of (48 + n mod 10)])"

declare nat_digits.simps [simp del]

definition to_string :: "int \<Rightarrow> string" where
  "to_string i = (if i < 0 then CHR ''-'' # nat_digits (nat (- i)) else nat_digits (nat i))"

text \<open>\<open>std::tolower\<close> and \<open>std::toupper\<close> in the C locale, byte by byte.\<close>

definition tolower :: "char \<Rightarrow> char" where
  "tolower c = (let n = (of_char c :: nat) in if 65 \<le> n \<and> n \<le> 90 then char_of (n + 32) else c)"

definition toupper :: "char \<Rightarrow> char" where
  "toupper c = (let n = (of_char c :: nat) in if 97 \<le> n \<and> n \<le> 122 then char_of (n - 32) else c)"

definition to_lower :: "string \<Rightarrow> string" where
  "to_lower s = map tolower s"

lemma tolower_idem [simp]: "tolower (tolower c) = tolower c"
  by (simp add: tolower_def Let_def)

lemma to_lower_idem: "to_lower (to_lower s) = to_lower s"
  by (simp add: to_lower_def)

lemma length_to_lower [simp]: "length (to_lower s) = length s"
  by (simp add: to_lower_def)

end
