(* ===== verification/Midi_Fifo.thy ===== *)
theory Midi_Fifo
  imports Prelude
begin

text \<open>
  The single-producer single-consumer ring buffer between the message thread and the audio
  thread (\<open>plugin/src/engine/MidiFifo.hpp\<close>). The first part models each operation as one
  atomic step and refines it to a bounded list queue; the second part splits \<open>push\<close> and
  \<open>pop\<close> into their loads, slot accesses and stores and lets the two threads interleave.

  \<open>std::size_t\<close> is 64 bits wide, so the positions wrap at \<open>2 ^ 64\<close>; the template parameter
  \<open>Capacity\<close> is an argument constrained by the two static assertions. Loads and stores are
  taken in one order: each position is written by one side only, with release, and read by
  the other with acquire, which is what the ordering comments of the file establish.
\<close>

record fifo_midi_event =
  sample_position :: u32
  fe_channel :: u8
  fe_note :: u8
  fe_velocity :: u8
  is_note_on :: bool

record fifo =
  buffer :: "fifo_midi_event list"
  write_pos :: u64
  read_pos :: u64

definition capacity_ok :: "u64 \<Rightarrow> bool" where
  "capacity_ok cap \<longleftrightarrow> cap AND (cap - 1) = 0 \<and> 2 \<le> cap"

definition zero_event :: fifo_midi_event where
  "zero_event = \<lparr>sample_position = 0, fe_channel = 0, fe_note = 0, fe_velocity = 0, is_note_on = False\<rparr>"

definition MidiFifo :: "u64 \<Rightarrow> fifo" where
  "MidiFifo cap = \<lparr>buffer = replicate (unat cap) zero_event, write_pos = 0, read_pos = 0\<rparr>"

definition slot :: "u64 \<Rightarrow> u64 \<Rightarrow> nat" where
  "slot cap p = unat (p AND (cap - 1))"

definition push :: "u64 \<Rightarrow> fifo_midi_event \<Rightarrow> fifo \<Rightarrow> bool \<times> fifo" where
  "push cap ev q =
     (let w = write_pos q; r = read_pos q
      in if w - r \<ge> cap then (False, q)
         else (True, q\<lparr>buffer := (buffer q)[slot cap w := ev], write_pos := w + 1\<rparr>))"

definition pop :: "u64 \<Rightarrow> fifo \<Rightarrow> fifo_midi_event option \<times> fifo" where
  "pop cap q =
     (let r = read_pos q; w = write_pos q
      in if r = w then (None, q)
         else (Some (buffer q ! slot cap r), q\<lparr>read_pos := r + 1\<rparr>))"

definition fifo_size :: "fifo \<Rightarrow> u64" where
  "fifo_size q = write_pos q - read_pos q"

definition fifo_empty :: "fifo \<Rightarrow> bool" where
  "fifo_empty q \<longleftrightarrow> fifo_size q = 0"

definition fifo_clear :: "fifo \<Rightarrow> fifo" where
  "fifo_clear q = q\<lparr>read_pos := write_pos q\<rparr>"

subsection \<open>Capacities are powers of two, and masking is the remainder\<close>

lemma and_pred_eq_0_power:
  "0 < n \<Longrightarrow> n AND (n - 1) = 0 \<Longrightarrow> \<exists>k. n = 2 ^ k" for n :: nat
proof (induction n rule: less_induct)
  case (less n)
  show ?case
  proof (cases "even n")
    case True
    then obtain m where n: "n = 2 * m" by blast
    with less.prems have m: "0 < m" by simp
    have "n - 1 = 2 * (m - 1) + 1" using n m by simp
    then have "n AND (n - 1) = 2 * (m AND (m - 1))"
      by (simp only: n and_nat_rec [of "2 * m"]) simp
    with less.prems(2) have "m AND (m - 1) = 0" by simp
    with less.IH [of m] m n obtain k where "m = 2 ^ k" by auto
    with n have "n = 2 ^ Suc k" by simp
    then show ?thesis by blast
  next
    case False
    then obtain m where n: "n = 2 * m + 1" by (metis oddE)
    then have "n AND (n - 1) = 2 * m"
      by (subst and_nat_rec) simp
    with less.prems(2) n have "n = 2 ^ 0" by simp
    then show ?thesis by blast
  qed
qed

lemma capacity_power:
  assumes "capacity_ok cap"
  obtains k where "unat cap = 2 ^ k" and "0 < k" and "k < 64"
proof -
  have ge: "2 \<le> unat cap"
    using assms by (simp add: capacity_ok_def word_le_nat_alt)
  have "unat (cap - 1) = unat cap - 1"
    using ge by (subst unat_minus_one) auto
  moreover have "unat (cap AND (cap - 1)) = unat cap AND unat (cap - 1)"
    by (rule unsigned_and_eq)
  ultimately have "unat cap AND (unat cap - 1) = 0"
    using assms by (simp add: capacity_ok_def)
  with ge obtain k where k: "unat cap = 2 ^ k"
    using and_pred_eq_0_power [of "unat cap"] by auto
  moreover have "(2::nat) ^ k < 2 ^ 64"
    using unsigned_less [of cap, where ?'a = nat] k by simp
  then have "k < 64" by (rule power_less_imp_less_exp [rotated]) simp
  moreover have "0 < k" using ge k by (cases k) auto
  ultimately show ?thesis using that by blast
qed

lemma slot_mod:
  assumes "capacity_ok cap"
  shows "slot cap p = unat p mod unat cap"
proof -
  obtain k where k: "unat cap = 2 ^ k" "k < 64"
    using assms by (rule capacity_power)
  have "of_nat (unat cap) = cap" by simp
  then have "cap = 2 ^ k" unfolding k(1) by simp
  then have "p AND (cap - 1) = take_bit k p"
    by (simp add: take_bit_eq_mask mask_eq_exp_minus_1)
  then have "slot cap p = take_bit k (unat p)"
    by (simp add: slot_def unsigned_take_bit_eq)
  then show ?thesis by (simp add: take_bit_eq_mod k)
qed

lemma slot_less: "capacity_ok cap \<Longrightarrow> slot cap p < unat cap"
  by (auto simp: slot_mod capacity_ok_def word_le_nat_alt)

text \<open>Wrapping at \<open>2 ^ 64\<close> does not disturb the slots, because the capacity divides \<open>2 ^ 64\<close>.\<close>

lemma slot_plus:
  assumes "capacity_ok cap"
  shows "slot cap (p + of_nat i) = (unat p + i) mod unat cap"
proof -
  obtain k where k: "unat cap = 2 ^ k" "k < 64"
    using assms by (rule capacity_power)
  have "slot cap (p + of_nat i) = (unat p + i) mod 2 ^ 64 mod 2 ^ k"
    by (simp add: slot_mod [OF assms] k unat_word_ariths unat_of_nat mod_simps)
  also have "\<dots> = (unat p + i) mod 2 ^ k"
    using k(2) by (intro mod_mod_cancel le_imp_power_dvd) simp
  finally show ?thesis by (simp add: k)
qed

lemma mod_offset_inj:
  "(a + i) mod n = (a + j) mod n \<Longrightarrow> i < n \<Longrightarrow> j < n \<Longrightarrow> i = j" for a :: nat
proof (induction i j rule: linorder_wlog)
  case (le i j)
  from le.prems(1) have "n dvd (a + j) - (a + i)"
    using le.hyps mod_eq_dvd_iff_nat [of "a + i" "a + j" n] by simp
  with le show ?case by (auto dest!: dvd_imp_le)
qed (simp add: eq_commute)

lemma slot_inj:
  assumes "capacity_ok cap" and "i < unat cap" and "j < unat cap"
    and "slot cap (p + of_nat i) = slot cap (p + of_nat j)"
  shows "i = j"
  using assms by (auto simp: slot_plus dest: mod_offset_inj)

subsection \<open>The queue the ring holds\<close>

definition contents :: "u64 \<Rightarrow> fifo \<Rightarrow> fifo_midi_event list" where
  "contents cap q =
     map (\<lambda>i. buffer q ! slot cap (read_pos q + of_nat i)) [0..<unat (fifo_size q)]"

definition fifo_inv :: "u64 \<Rightarrow> fifo \<Rightarrow> bool" where
  "fifo_inv cap q \<longleftrightarrow> length (buffer q) = unat cap \<and> fifo_size q \<le> cap"

lemma length_contents: "length (contents cap q) = unat (fifo_size q)"
  by (simp add: contents_def)

lemma write_pos_eq: "read_pos q + fifo_size q = write_pos q"
  by (simp add: fifo_size_def)

text \<open>Writing the free slot at \<open>write_pos\<close> leaves the queued events alone.\<close>

lemma write_slot_fresh:
  assumes "capacity_ok cap" and "fifo_size q < cap" and "i < unat (fifo_size q)"
  shows "slot cap (read_pos q + of_nat i) \<noteq> slot cap (write_pos q)"
proof
  assume "slot cap (read_pos q + of_nat i) = slot cap (write_pos q)"
  then have "i = unat (fifo_size q)"
    using assms by (intro slot_inj [of cap i _ "read_pos q"])
      (auto simp: write_pos_eq word_less_nat_alt)
  with assms(3) show False by simp
qed

lemma size_after_push:
  assumes "fifo_size q < cap"
  shows "unat (write_pos q + 1 - read_pos q) = Suc (unat (fifo_size q))"
proof -
  have "write_pos q + 1 - read_pos q = fifo_size q + 1"
    by (simp add: fifo_size_def)
  moreover have "unat (fifo_size q + 1) = Suc (unat (fifo_size q))"
    using assms unsigned_less [of cap, where ?'a = nat]
    by (simp add: unat_word_ariths word_less_nat_alt)
  ultimately show ?thesis by (simp only:)
qed

lemma contents_push:
  assumes "capacity_ok cap" and "fifo_inv cap q" and "fifo_size q < cap"
  shows "contents cap (q\<lparr>buffer := (buffer q)[slot cap (write_pos q) := ev],
                        write_pos := write_pos q + 1\<rparr>) = contents cap q @ [ev]"
proof -
  let ?q = "q\<lparr>buffer := (buffer q)[slot cap (write_pos q) := ev], write_pos := write_pos q + 1\<rparr>"
  have "buffer ?q ! slot cap (read_pos q + of_nat i) = buffer q ! slot cap (read_pos q + of_nat i)"
    if "i < unat (fifo_size q)" for i
    using write_slot_fresh [OF assms(1,3) that] by simp
  moreover have "buffer ?q ! slot cap (write_pos q) = ev"
    using slot_less [OF assms(1)] assms(2) by (simp add: fifo_inv_def)
  moreover have "unat (fifo_size ?q) = Suc (unat (fifo_size q))"
    using size_after_push [OF assms(3)] by (simp add: fifo_size_def)
  ultimately show ?thesis by (simp add: contents_def write_pos_eq)
qed

lemma size_pos: "read_pos q \<noteq> write_pos q \<Longrightarrow> 0 < unat (fifo_size q)"
  by (simp add: fifo_size_def unat_gt_0)

lemma size_after_pop:
  assumes "read_pos q \<noteq> write_pos q"
  shows "unat (write_pos q - (read_pos q + 1)) = unat (fifo_size q) - 1"
proof -
  have "write_pos q - (read_pos q + 1) = fifo_size q - 1"
    by (simp add: fifo_size_def)
  moreover have "unat (fifo_size q - 1) = unat (fifo_size q) - 1"
    using size_pos [OF assms] by (subst unat_minus_one) auto
  ultimately show ?thesis by (simp only:)
qed

lemma contents_pop:
  assumes "read_pos q \<noteq> write_pos q"
  shows "contents cap q =
    buffer q ! slot cap (read_pos q) # contents cap (q\<lparr>read_pos := read_pos q + 1\<rparr>)"
proof -
  obtain n where n: "unat (fifo_size q) = Suc n"
    using size_pos [OF assms] by (cases "unat (fifo_size q)") auto
  then have "unat (fifo_size (q\<lparr>read_pos := read_pos q + 1\<rparr>)) = n"
    using size_after_pop [OF assms] by (simp add: fifo_size_def)
  then show ?thesis
    by (simp add: contents_def n upt_conv_Cons map_Suc_upt [symmetric] comp_def add.assoc
        del: upt_Suc)
qed

subsection \<open>Bounded queues as an interface, and the ring as one\<close>

locale bounded_queue =
  fixes enq :: "'a \<Rightarrow> 'q \<Rightarrow> bool \<times> 'q"
    and deq :: "'q \<Rightarrow> 'a option \<times> 'q"
    and flush :: "'q \<Rightarrow> 'q"
    and elems :: "'q \<Rightarrow> 'a list"
    and bound :: nat
    and invar :: "'q \<Rightarrow> bool"
  assumes elems_bound: "invar q \<Longrightarrow> length (elems q) \<le> bound"
    and enq_full: "invar q \<Longrightarrow> length (elems q) = bound \<Longrightarrow> enq x q = (False, q)"
    and enq_room: "invar q \<Longrightarrow> length (elems q) < bound \<Longrightarrow>
      fst (enq x q) \<and> invar (snd (enq x q)) \<and> elems (snd (enq x q)) = elems q @ [x]"
    and deq_empty: "invar q \<Longrightarrow> elems q = [] \<Longrightarrow> deq q = (None, q)"
    and deq_cons: "invar q \<Longrightarrow> elems q = x # xs \<Longrightarrow>
      fst (deq q) = Some x \<and> invar (snd (deq q)) \<and> elems (snd (deq q)) = xs"
    and flush_elems: "invar q \<Longrightarrow> invar (flush q) \<and> elems (flush q) = []"
begin

lemma enq_accepts_iff: "invar q \<Longrightarrow> fst (enq x q) \<longleftrightarrow> length (elems q) < bound"
  using enq_full [of q x] enq_room [of q x] elems_bound [of q] by (cases "length (elems q) = bound") auto

lemma enq_invar: "invar q \<Longrightarrow> invar (snd (enq x q))"
  using enq_full [of q x] enq_room [of q x] elems_bound [of q] by (cases "length (elems q) = bound") auto

lemma deq_invar: "invar q \<Longrightarrow> invar (snd (deq q))"
  using deq_empty [of q] deq_cons [of q] by (cases "elems q") auto

text \<open>What goes in comes out: an accepted element of an empty queue is the next one out.\<close>

lemma enq_deq:
  assumes "invar q" and "elems q = []" and "0 < bound"
  shows "fst (deq (snd (enq x q))) = Some x \<and> elems (snd (deq (snd (enq x q)))) = []"
proof -
  have "invar (snd (enq x q))" and "elems (snd (enq x q)) = [x]"
    using enq_room [of q x] assms by auto
  then show ?thesis using deq_cons by blast
qed

end

lemma push_full:
  "fifo_inv cap q \<Longrightarrow> length (contents cap q) = unat cap \<Longrightarrow> push cap ev q = (False, q)"
  by (simp add: push_def Let_def length_contents fifo_size_def word_le_nat_alt)

lemma push_room:
  assumes "capacity_ok cap" and "fifo_inv cap q" and "length (contents cap q) < unat cap"
  shows "fst (push cap ev q) \<and> fifo_inv cap (snd (push cap ev q)) \<and>
    contents cap (snd (push cap ev q)) = contents cap q @ [ev]"
proof -
  have lt: "fifo_size q < cap"
    using assms(3) by (simp add: length_contents word_less_nat_alt)
  then have "\<not> cap \<le> write_pos q - read_pos q" by (simp add: fifo_size_def)
  moreover have "unat (write_pos q + 1 - read_pos q) \<le> unat cap"
    using size_after_push [OF lt] lt by (simp add: word_less_nat_alt)
  ultimately show ?thesis
    using contents_push [OF assms(1,2) lt] assms(2)
    by (simp add: push_def Let_def fifo_inv_def fifo_size_def word_le_nat_alt)
qed

lemma pop_nonempty:
  assumes "fifo_inv cap q" and "contents cap q = x # xs"
  shows "fst (pop cap q) = Some x \<and> fifo_inv cap (snd (pop cap q)) \<and> contents cap (snd (pop cap q)) = xs"
proof -
  have ne: "read_pos q \<noteq> write_pos q"
    using assms(2) length_contents [of cap q] by (auto simp: fifo_size_def)
  have "unat (write_pos q - (read_pos q + 1)) \<le> unat cap"
    using size_after_pop [OF ne] assms(1) by (auto simp: fifo_inv_def word_le_nat_alt)
  then show ?thesis
    using contents_pop [OF ne, of cap] assms ne
    by (simp add: pop_def Let_def fifo_inv_def fifo_size_def word_le_nat_alt)
qed

lemma pop_empty: "fifo_inv cap q \<Longrightarrow> contents cap q = [] \<Longrightarrow> pop cap q = (None, q)"
  using size_pos [of q] by (auto simp: pop_def Let_def length_contents [of cap, symmetric])

lemma clear_spec: "fifo_inv cap q \<Longrightarrow> fifo_inv cap (fifo_clear q) \<and> contents cap (fifo_clear q) = []"
  by (simp add: fifo_clear_def fifo_inv_def fifo_size_def contents_def)

lemma contents_bound: "fifo_inv cap q \<Longrightarrow> length (contents cap q) \<le> unat cap"
  by (simp add: length_contents fifo_inv_def word_le_nat_alt)

lemma ring_bounded_queue:
  "capacity_ok cap \<Longrightarrow>
   bounded_queue (push cap) (pop cap) fifo_clear (contents cap) (unat cap) (fifo_inv cap)"
  by unfold_locales
    (simp_all add: contents_bound push_full push_room pop_empty pop_nonempty clear_spec)

text \<open>The production alias \<open>StandardMidiFifo = MidiFifo<4096>\<close>.\<close>

definition standard_capacity :: u64 where "standard_capacity = 4096"

lemma standard_capacity_ok: "capacity_ok standard_capacity"
  by (simp add: capacity_ok_def standard_capacity_def)

interpretation standard_fifo: bounded_queue "push standard_capacity" "pop standard_capacity"
  fifo_clear "contents standard_capacity" "unat standard_capacity" "fifo_inv standard_capacity"
  by (rule ring_bounded_queue [OF standard_capacity_ok])

lemma MidiFifo_inv: "fifo_inv cap (MidiFifo cap) \<and> contents cap (MidiFifo cap) = []"
  by (simp add: fifo_inv_def MidiFifo_def contents_def fifo_size_def)

subsection \<open>Two threads, one access at a time\<close>

text \<open>
  Where each side stands inside \<open>push\<close> and \<open>pop\<close>, with the values it has loaded so far.
\<close>

datatype producer =
    P_Idle
  | P_LoadedW fifo_midi_event u64
  | P_LoadedR fifo_midi_event u64 u64
  | P_Written fifo_midi_event u64

datatype consumer =
    C_Idle
  | C_LoadedR u64
  | C_LoadedW u64 u64
  | C_Read u64 fifo_midi_event

text \<open>\<open>pushed\<close> and \<open>popped\<close> record what the accepted calls were given and returned.\<close>

record spsc =
  ring :: fifo
  prod_pc :: producer
  cons_pc :: consumer
  pushed :: "fifo_midi_event list"
  popped :: "fifo_midi_event list"

definition spsc_init :: "u64 \<Rightarrow> spsc" where
  "spsc_init cap = \<lparr>ring = MidiFifo cap, prod_pc = P_Idle, cons_pc = C_Idle, pushed = [], popped = []\<rparr>"

inductive spsc_step :: "u64 \<Rightarrow> spsc \<Rightarrow> spsc \<Rightarrow> bool" for cap :: u64 where
  push_load_w: "prod_pc s = P_Idle \<Longrightarrow>
    spsc_step cap s (s\<lparr>prod_pc := P_LoadedW ev (write_pos (ring s))\<rparr>)"
| push_load_r: "prod_pc s = P_LoadedW ev w \<Longrightarrow>
    spsc_step cap s (s\<lparr>prod_pc := P_LoadedR ev w (read_pos (ring s))\<rparr>)"
| push_full_return: "prod_pc s = P_LoadedR ev w r \<Longrightarrow> w - r \<ge> cap \<Longrightarrow>
    spsc_step cap s (s\<lparr>prod_pc := P_Idle\<rparr>)"
| push_write_slot: "prod_pc s = P_LoadedR ev w r \<Longrightarrow> \<not> w - r \<ge> cap \<Longrightarrow>
    spsc_step cap s (s\<lparr>ring := (ring s)\<lparr>buffer := (buffer (ring s))[slot cap w := ev]\<rparr>,
                       prod_pc := P_Written ev w\<rparr>)"
| push_store_w: "prod_pc s = P_Written ev w \<Longrightarrow>
    spsc_step cap s (s\<lparr>ring := (ring s)\<lparr>write_pos := w + 1\<rparr>, prod_pc := P_Idle,
                       pushed := pushed s @ [ev]\<rparr>)"
| pop_load_r: "cons_pc s = C_Idle \<Longrightarrow>
    spsc_step cap s (s\<lparr>cons_pc := C_LoadedR (read_pos (ring s))\<rparr>)"
| pop_load_w: "cons_pc s = C_LoadedR r \<Longrightarrow>
    spsc_step cap s (s\<lparr>cons_pc := C_LoadedW r (write_pos (ring s))\<rparr>)"
| pop_empty_return: "cons_pc s = C_LoadedW r w \<Longrightarrow> r = w \<Longrightarrow>
    spsc_step cap s (s\<lparr>cons_pc := C_Idle\<rparr>)"
| pop_read_slot: "cons_pc s = C_LoadedW r w \<Longrightarrow> r \<noteq> w \<Longrightarrow>
    spsc_step cap s (s\<lparr>cons_pc := C_Read r (buffer (ring s) ! slot cap r)\<rparr>)"
| pop_store_r: "cons_pc s = C_Read r ev \<Longrightarrow>
    spsc_step cap s (s\<lparr>ring := (ring s)\<lparr>read_pos := r + 1\<rparr>, cons_pc := C_Idle,
                       popped := popped s @ [ev]\<rparr>)"

inductive spsc_reachable :: "u64 \<Rightarrow> spsc \<Rightarrow> bool" for cap :: u64 where
  start: "spsc_reachable cap (spsc_init cap)"
| step: "spsc_reachable cap s \<Longrightarrow> spsc_step cap s t \<Longrightarrow> spsc_reachable cap t"

fun producer_inv :: "u64 \<Rightarrow> fifo \<Rightarrow> producer \<Rightarrow> bool" where
  "producer_inv cap q P_Idle = True"
| "producer_inv cap q (P_LoadedW ev w) = (w = write_pos q)"
| "producer_inv cap q (P_LoadedR ev w r) = (w = write_pos q \<and> fifo_size q \<le> w - r)"
| "producer_inv cap q (P_Written ev w) =
     (w = write_pos q \<and> fifo_size q < cap \<and> buffer q ! slot cap w = ev)"

fun consumer_inv :: "u64 \<Rightarrow> fifo \<Rightarrow> consumer \<Rightarrow> bool" where
  "consumer_inv cap q C_Idle = True"
| "consumer_inv cap q (C_LoadedR r) = (r = read_pos q)"
| "consumer_inv cap q (C_LoadedW r w) = (r = read_pos q \<and> w - r \<le> fifo_size q)"
| "consumer_inv cap q (C_Read r ev) =
     (r = read_pos q \<and> r \<noteq> write_pos q \<and> ev = buffer q ! slot cap r)"

definition spsc_inv :: "u64 \<Rightarrow> spsc \<Rightarrow> bool" where
  "spsc_inv cap s \<longleftrightarrow>
     fifo_inv cap (ring s) \<and> popped s @ contents cap (ring s) = pushed s \<and>
     producer_inv cap (ring s) (prod_pc s) \<and> consumer_inv cap (ring s) (cons_pc s)"

lemma spsc_inv_init: "spsc_inv cap (spsc_init cap)"
  by (simp add: spsc_inv_def spsc_init_def MidiFifo_inv)

text \<open>Each kind of access keeps what the other side relies on.\<close>

lemma contents_write_slot:
  assumes "capacity_ok cap" and "fifo_size q < cap"
  shows "contents cap (q\<lparr>buffer := (buffer q)[slot cap (write_pos q) := ev]\<rparr>) = contents cap q"
  using write_slot_fresh [OF assms, THEN not_sym] by (simp add: contents_def fifo_size_def)

lemma consumer_keeps_write_slot:
  assumes "capacity_ok cap" and "fifo_size q < cap" and "consumer_inv cap q c"
  shows "consumer_inv cap (q\<lparr>buffer := (buffer q)[slot cap (write_pos q) := ev]\<rparr>) c"
proof (cases c)
  case (C_Read r x)
  with assms(3) have "0 < unat (fifo_size q)" by (auto intro: size_pos)
  with write_slot_fresh [OF assms(1,2), of 0] C_Read assms(3) show ?thesis by auto
qed (use assms(3) in \<open>simp_all add: fifo_size_def\<close>)

lemma fifo_size_store_w:
  "fifo_size q < cap \<Longrightarrow> fifo_size q \<le> fifo_size (q\<lparr>write_pos := write_pos q + 1\<rparr>) \<and>
   write_pos q + 1 \<noteq> read_pos q"
  using size_after_push [of q cap] by (auto simp: fifo_size_def word_le_nat_alt)

lemma consumer_keeps_store_w:
  assumes "fifo_size q < cap" and "consumer_inv cap q c"
  shows "consumer_inv cap (q\<lparr>write_pos := write_pos q + 1\<rparr>) c"
  using assms fifo_size_store_w [OF assms(1)] by (cases c) (auto intro: order.trans)

lemma fifo_size_store_r:
  "read_pos q \<noteq> write_pos q \<Longrightarrow> fifo_size (q\<lparr>read_pos := read_pos q + 1\<rparr>) < fifo_size q"
  using size_after_pop [of q] size_pos [of q] by (auto simp: fifo_size_def word_less_nat_alt)

lemma producer_keeps_store_r:
  assumes "read_pos q \<noteq> write_pos q" and "producer_inv cap q p"
  shows "producer_inv cap (q\<lparr>read_pos := read_pos q + 1\<rparr>) p"
  using assms fifo_size_store_r [OF assms(1)] by (cases p) auto

lemma contents_store_w:
  assumes "capacity_ok cap" and "fifo_inv cap q" and "fifo_size q < cap"
    and "buffer q ! slot cap (write_pos q) = ev"
  shows "contents cap (q\<lparr>write_pos := write_pos q + 1\<rparr>) = contents cap q @ [ev]"
proof -
  have "(buffer q)[slot cap (write_pos q) := ev] = buffer q"
    using assms(4) by (metis list_update_id)
  with contents_push [OF assms(1-3), of ev] show ?thesis by simp
qed

lemma spsc_step_inv:
  assumes cap: "capacity_ok cap" and step: "spsc_step cap s t" and inv: "spsc_inv cap s"
  shows "spsc_inv cap t"
  using step inv
proof (induction rule: spsc_step.induct)
  case (push_write_slot s ev w r)
  then have w: "w = write_pos (ring s)" and lt: "fifo_size (ring s) < cap"
    by (auto simp: spsc_inv_def)
  with push_write_slot.prems cap show ?case
    using slot_less [OF cap, of w]
    by (auto simp: spsc_inv_def contents_write_slot consumer_keeps_write_slot fifo_inv_def fifo_size_def)
next
  case (push_store_w s ev w)
  then have w: "w = write_pos (ring s)" and lt: "fifo_size (ring s) < cap"
    and ev: "buffer (ring s) ! slot cap (write_pos (ring s)) = ev"
    by (auto simp: spsc_inv_def)
  have "fifo_inv cap ((ring s)\<lparr>write_pos := write_pos (ring s) + 1\<rparr>)"
    using push_store_w.prems size_after_push [OF lt] lt
    by (simp add: spsc_inv_def fifo_inv_def fifo_size_def word_le_nat_alt word_less_nat_alt)
  with push_store_w.prems w show ?case
    using contents_store_w [OF cap _ lt ev] consumer_keeps_store_w [OF lt]
    by (auto simp: spsc_inv_def)
next
  case (pop_store_r s r ev)
  then have r: "r = read_pos (ring s)" and ne: "read_pos (ring s) \<noteq> write_pos (ring s)"
    and ev: "ev = buffer (ring s) ! slot cap (read_pos (ring s))"
    by (auto simp: spsc_inv_def)
  have "fifo_inv cap ((ring s)\<lparr>read_pos := read_pos (ring s) + 1\<rparr>)"
    using pop_store_r.prems fifo_size_store_r [OF ne] by (auto simp: spsc_inv_def fifo_inv_def)
  with pop_store_r.prems r ev show ?case
    using contents_pop [OF ne, of cap] producer_keeps_store_r [OF ne] by (auto simp: spsc_inv_def)
qed (auto simp: spsc_inv_def fifo_size_def)

lemma spsc_reachable_inv:
  assumes "capacity_ok cap" and "spsc_reachable cap s"
  shows "spsc_inv cap s"
  using assms(2)
  by (induction rule: spsc_reachable.induct) (auto intro: spsc_inv_init spsc_step_inv [OF assms(1)])

subsection \<open>Properties\<close>

text \<open>
  C1. However the message thread's \<open>push\<close> and the audio thread's \<open>pop\<close> interleave, access by
  access, the events popped so far followed by the events in the ring are exactly the events
  of the accepted pushes, in order: none lost, duplicated, torn or reordered, and the ring
  never holds more than its capacity.
\<close>

theorem spsc_fifo_order:
  assumes "capacity_ok cap" and "spsc_reachable cap s"
  shows "popped s @ contents cap (ring s) = pushed s \<and> length (contents cap (ring s)) \<le> unat cap"
  using spsc_reachable_inv [OF assms] by (simp add: spsc_inv_def contents_bound)

definition one_push_state :: spsc where
  "one_push_state = (spsc_init 4)\<lparr>prod_pc := P_LoadedR zero_event 0 0, cons_pc := C_LoadedR 0\<rparr>"

lemma one_push_reachable: "spsc_reachable 4 one_push_state"
proof -
  let ?s1 = "(spsc_init 4)\<lparr>prod_pc := P_LoadedW zero_event 0\<rparr>"
  let ?s2 = "?s1\<lparr>prod_pc := P_LoadedR zero_event 0 0\<rparr>"
  have "spsc_step 4 (spsc_init 4) ?s1"
    using spsc_step.push_load_w [of "spsc_init 4" 4 zero_event] by (simp add: spsc_init_def MidiFifo_def)
  moreover have "spsc_step 4 ?s1 ?s2"
    using spsc_step.push_load_r [of ?s1 zero_event 0 4] by (simp add: spsc_init_def MidiFifo_def)
  moreover have "spsc_step 4 ?s2 one_push_state"
    using spsc_step.pop_load_r [of ?s2 4]
    by (simp add: spsc_init_def MidiFifo_def one_push_state_def)
  ultimately show ?thesis by (meson spsc_reachable.intros)
qed

theorem spsc_fifo_order_witness:
  "popped one_push_state @ contents 4 (ring one_push_state) = pushed one_push_state"
proof -
  have "capacity_ok 4" by (simp add: capacity_ok_def)
  from spsc_fifo_order [OF this one_push_reachable] show ?thesis by blast
qed

text \<open>
  C7. The two threads never touch the same slot at once: whenever the producer is about to
  write its slot and the consumer is about to read its own, the slots differ. The buffer
  needs no lock.
\<close>

theorem spsc_no_data_race:
  assumes "capacity_ok cap" and "spsc_reachable cap s"
    and "prod_pc s = P_LoadedR ev w r" and "\<not> cap \<le> w - r"
    and "cons_pc s = C_LoadedW r' w'" and "r' \<noteq> w'"
  shows "slot cap w \<noteq> slot cap r'"
proof -
  let ?q = "ring s"
  have "w = write_pos ?q" "fifo_size ?q < cap" "r' = read_pos ?q" "w' - r' \<le> fifo_size ?q"
    using spsc_reachable_inv [OF assms(1,2)] assms(3-5) by (auto simp: spsc_inv_def)
  moreover from this assms(6) have "0 < unat (fifo_size ?q)"
    by (metis diff_eq_diff_eq diff_self unat_gt_0 word_le_0_iff)
  ultimately show ?thesis
    using write_slot_fresh [OF assms(1), of ?q 0] by auto
qed

text \<open>A run with one event in the ring and both sides about to access a slot.\<close>

lemmas spsc_reach = spsc_reachable.step [OF _ spsc_step.push_load_w]
  spsc_reachable.step [OF _ spsc_step.push_load_r] spsc_reachable.step [OF _ spsc_step.push_write_slot]
  spsc_reachable.step [OF _ spsc_step.push_store_w] spsc_reachable.step [OF _ spsc_step.pop_load_r]
  spsc_reachable.step [OF _ spsc_step.pop_load_w]

definition both_accessing :: spsc where
  "both_accessing =
     \<lparr>ring = \<lparr>buffer = replicate 4 zero_event, write_pos = 1, read_pos = 0\<rparr>,
      prod_pc = P_LoadedR zero_event 1 0, cons_pc = C_LoadedW 0 1,
      pushed = [zero_event], popped = []\<rparr>"

lemma both_accessing_reachable: "spsc_reachable 4 both_accessing"
proof -
  have upd: "(replicate 4 zero_event)[0 := zero_event] = replicate 4 zero_event"
    by (metis list_update_id nth_replicate zero_less_numeral)
  have r3: "spsc_reachable 4 (one_push_state\<lparr>cons_pc := C_Idle\<rparr>)"
    using spsc_reach(2) [OF spsc_reach(1) [OF spsc_reachable.start, of 4 zero_event], of zero_event 0]
    by (simp add: spsc_init_def MidiFifo_def one_push_state_def)
  have r5: "spsc_reachable 4 (both_accessing\<lparr>prod_pc := P_Idle, cons_pc := C_Idle\<rparr>)"
    using spsc_reach(4) [OF spsc_reach(3) [OF r3, of zero_event 0 0], of zero_event 0]
    by (simp add: spsc_init_def MidiFifo_def one_push_state_def both_accessing_def slot_def
        upd word_le_nat_alt)
  have r7: "spsc_reachable 4 (both_accessing\<lparr>cons_pc := C_Idle\<rparr>)"
    using spsc_reach(2) [OF spsc_reach(1) [OF r5, of zero_event], of zero_event 1]
    by (simp add: both_accessing_def)
  show ?thesis
    using spsc_reach(6) [OF spsc_reach(5) [OF r7], of 0] by (simp add: both_accessing_def)
qed

theorem spsc_no_data_race_witness: "slot 4 1 \<noteq> slot 4 0"
proof -
  have "capacity_ok 4" by (simp add: capacity_ok_def)
  then show ?thesis
    by (rule spsc_no_data_race [OF _ both_accessing_reachable, of zero_event 1 0 0 1])
      (simp_all add: both_accessing_def word_le_nat_alt)
qed

lemma ring_ops_spec:
  assumes "capacity_ok cap" and "fifo_inv cap q"
  shows "contents cap (snd (push cap ev q)) =
      (if length (contents cap q) < unat cap then contents cap q @ [ev] else contents cap q)"
    and "fst (push cap ev q) \<longleftrightarrow> length (contents cap q) < unat cap"
    and "fst (pop cap q) = (case contents cap q of [] \<Rightarrow> None | x # _ \<Rightarrow> Some x)"
    and "contents cap (snd (pop cap q)) = tl (contents cap q)"
    and "fifo_inv cap (snd (push cap ev q))" and "fifo_inv cap (snd (pop cap q))"
  using assms contents_bound [OF assms(2)] push_full [OF assms(2), of ev] push_room [OF assms, of ev]
    pop_empty [OF assms(2)] pop_nonempty [OF assms(2)]
  by (cases "length (contents cap q) = unat cap"; cases "contents cap q"; auto)+

text \<open>
  A client that calls the five operations one after the other, and what it is told: by the ring, and by
  the queue the ring promises to be, a list of at most \<open>Capacity\<close> events. \<open>size\<close> is a 64-bit count.
\<close>

datatype fifo_call = Call_push fifo_midi_event | Call_pop | Call_size | Call_empty | Call_clear

datatype fifo_reply = Pushed bool | Popped "fifo_midi_event option" | Sized u64 | Emptied bool | Cleared

fun ring_call :: "u64 \<Rightarrow> fifo_call \<Rightarrow> fifo \<Rightarrow> fifo_reply \<times> fifo" where
  "ring_call cap (Call_push ev) q = (let (ok, q') = push cap ev q in (Pushed ok, q'))"
| "ring_call cap Call_pop q = (let (x, q') = pop cap q in (Popped x, q'))"
| "ring_call cap Call_size q = (Sized (fifo_size q), q)"
| "ring_call cap Call_empty q = (Emptied (fifo_empty q), q)"
| "ring_call cap Call_clear q = (Cleared, fifo_clear q)"

fun queue_call :: "u64 \<Rightarrow> fifo_call \<Rightarrow> fifo_midi_event list \<Rightarrow> fifo_reply \<times> fifo_midi_event list" where
  "queue_call cap (Call_push ev) xs =
     (if length xs < unat cap then (Pushed True, xs @ [ev]) else (Pushed False, xs))"
| "queue_call cap Call_pop [] = (Popped None, [])"
| "queue_call cap Call_pop (x # xs) = (Popped (Some x), xs)"
| "queue_call cap Call_size xs = (Sized (of_nat (length xs)), xs)"
| "queue_call cap Call_empty xs = (Emptied (xs = []), xs)"
| "queue_call cap Call_clear xs = (Cleared, [])"

fun replies :: "('c \<Rightarrow> 's \<Rightarrow> 'r \<times> 's) \<Rightarrow> 'c list \<Rightarrow> 's \<Rightarrow> 'r list" where
  "replies f [] s = []"
| "replies f (c # cs) s = fst (f c s) # replies f cs (snd (f c s))"

lemma replies_simulated:
  assumes "\<And>c s. I s \<Longrightarrow> fst (f c s) = fst (g c (h s)) \<and> h (snd (f c s)) = snd (g c (h s)) \<and> I (snd (f c s))"
  shows "I s \<Longrightarrow> replies f cs s = replies g cs (h s)"
  using assms by (induction cs arbitrary: s) simp_all

lemma ring_call_refines:
  assumes "capacity_ok cap" and "fifo_inv cap q"
  shows "fst (ring_call cap c q) = fst (queue_call cap c (contents cap q)) \<and>
    contents cap (snd (ring_call cap c q)) = snd (queue_call cap c (contents cap q)) \<and>
    fifo_inv cap (snd (ring_call cap c q))"
proof (cases c)
  case (Call_push ev)
  then show ?thesis using ring_ops_spec(1,2,5) [OF assms, of ev] by (simp add: split_beta)
next
  case Call_pop
  then show ?thesis
    using ring_ops_spec(3,4,6) [OF assms] by (cases "contents cap q") (simp_all add: split_beta)
next
  case Call_size
  then show ?thesis using assms(2) by (simp add: length_contents)
next
  case Call_empty
  have "fifo_empty q \<longleftrightarrow> length (contents cap q) = 0"
    by (simp only: fifo_empty_def length_contents unsigned_eq_0_iff)
  then show ?thesis using Call_empty assms(2) by simp
next
  case Call_clear
  then show ?thesis using clear_spec [OF assms(2)] by simp
qed

text \<open>
  C12. The ring is a bounded queue to a client that uses it from one thread. Whatever sequence of
  \<open>push\<close>, \<open>pop\<close>, \<open>size\<close>, \<open>empty\<close> and \<open>clear\<close> is called on a new ring, every reply is that of a list of at
  most \<open>Capacity\<close> events: a push is accepted exactly when there is room, a pop gives the oldest event
  or none, the size is the length of the list and the ring is empty exactly when the list is. The same
  holds from every well-formed ring, at any position of the 64-bit counters, with the events it holds.
\<close>

theorem ring_refines_bounded_list:
  assumes "capacity_ok cap"
  shows "replies (ring_call cap) calls (MidiFifo cap) = replies (queue_call cap) calls [] \<and>
    (\<forall>q. fifo_inv cap q \<longrightarrow>
      replies (ring_call cap) calls q = replies (queue_call cap) calls (contents cap q))"
proof -
  have *: "replies (ring_call cap) calls q = replies (queue_call cap) calls (contents cap q)" if "fifo_inv cap q" for q
    by (rule replies_simulated [where I = "fifo_inv cap"]) (use ring_call_refines [OF assms] that in auto)
  then show ?thesis using * [of "MidiFifo cap"] MidiFifo_inv [of cap] by simp
qed

definition wrapped_fifo :: fifo where
  "wrapped_fifo = \<lparr>buffer = replicate 4 zero_event, write_pos = 1, read_pos = - 2\<rparr>"

theorem ring_refines_bounded_list_witness:
  "replies (ring_call 4) [Call_size, Call_push zero_event, Call_push zero_event, Call_size, Call_empty] wrapped_fifo =
     [Sized 3, Pushed True, Pushed False, Sized 4, Emptied False]"
proof -
  have ok: "capacity_ok 4" and inv: "fifo_inv 4 wrapped_fifo"
    by (simp_all add: capacity_ok_def fifo_inv_def wrapped_fifo_def fifo_size_def)
  have "length (contents 4 wrapped_fifo) = 3"
    by (simp add: length_contents wrapped_fifo_def fifo_size_def)
  then obtain a b c where "contents 4 wrapped_fifo = [a, b, c]" by (auto simp: eval_nat_numeral length_Suc_conv)
  then show ?thesis
    using ring_refines_bounded_list [OF ok, of "[Call_size, Call_push zero_event, Call_push zero_event, Call_size, Call_empty]"]
      inv by simp
qed

end
