(* ===== verification/Plugin_Processor.thy ===== *)
theory Plugin_Processor
  imports Midi_Fifo
begin

text \<open>
  The two ends of the ring in the plugin (\<open>PluginProcessor.cpp\<close>): \<open>enqueueMidiEvents\<close> on the
  message thread pushes until the ring refuses, \<open>processBlock\<close> on the audio thread drains the
  ring into the host's buffer. JUCE's \<open>MidiBuffer\<close> is the list of the messages added to it,
  each with its sample position.
\<close>

datatype midi_message = NoteOn int int u8 | NoteOff int int

fun enqueueMidiEvents :: "u64 \<Rightarrow> fifo_midi_event list \<Rightarrow> fifo \<Rightarrow> fifo" where
  "enqueueMidiEvents cap [] q = q"
| "enqueueMidiEvents cap (ev # evs) q =
     (let (ok, q') = push cap ev q in if \<not> ok then q' else enqueueMidiEvents cap evs q')"

definition block_message :: "nat \<Rightarrow> fifo_midi_event \<Rightarrow> midi_message \<times> nat" where
  "block_message num_samples ev =
     (let pos = min (unat (sample_position ev)) (num_samples - 1);
          juce_channel = int (unat (fe_channel ev)) + 1
      in (if is_note_on ev then NoteOn juce_channel (int (unat (fe_note ev))) (fe_velocity ev)
          else NoteOff juce_channel (int (unat (fe_note ev))), pos))"

function processBlock :: "u64 \<Rightarrow> nat \<Rightarrow> fifo \<Rightarrow> (midi_message \<times> nat) list \<times> fifo" where
  "processBlock cap num_samples q =
     (case pop cap q of
        (None, q') \<Rightarrow> ([], q')
      | (Some ev, q') \<Rightarrow>
          if num_samples = 0 then ([], q')
          else let (ms, q'') = processBlock cap num_samples q'
               in (block_message num_samples ev # ms, q''))"
  by pat_completeness auto
termination
proof (relation "measure (\<lambda>(cap, n, q). unat (fifo_size q))")
  fix cap :: u64 and n :: nat and q q' :: fifo and x :: "fifo_midi_event option" and ev
  assume "(x, q') = pop cap q" and "x = Some ev"
  then have ne: "read_pos q \<noteq> write_pos q" and q': "q' = q\<lparr>read_pos := read_pos q + 1\<rparr>"
    by (auto simp: pop_def Let_def split: if_splits)
  with fifo_size_store_r [OF ne]
  show "((cap, n, q'), cap, n, q) \<in> measure (\<lambda>(cap, n, q). unat (fifo_size q))"
    by (simp add: word_less_nat_alt)
qed simp

declare processBlock.simps [simp del]

definition prepareToPlay :: "fifo \<Rightarrow> fifo" where
  "prepareToPlay q = fifo_clear q"

definition releaseResources :: "fifo \<Rightarrow> fifo" where
  "releaseResources q = fifo_clear q"

subsection \<open>What reaches the ring and what reaches the host\<close>

lemma enqueue_spec:
  assumes "capacity_ok cap"
  shows "fifo_inv cap q \<Longrightarrow> fifo_inv cap (enqueueMidiEvents cap evs q) \<and>
    contents cap (enqueueMidiEvents cap evs q) =
      contents cap q @ take (unat cap - length (contents cap q)) evs"
proof (induction evs arbitrary: q)
  case (Cons ev evs)
  show ?case
  proof (cases "length (contents cap q) = unat cap")
    case True
    then show ?thesis using push_full [OF Cons.prems True, of ev] Cons.prems by simp
  next
    case False
    then have lt: "length (contents cap q) < unat cap"
      using contents_bound [OF Cons.prems] by simp
    from push_room [OF assms Cons.prems lt, of ev] Cons.IH [of "snd (push cap ev q)"] lt
    show ?thesis by (simp add: split_beta Let_def take_Cons' Suc_diff_Suc)
  qed
qed simp

lemma processBlock_spec:
  assumes "0 < n"
  shows "fifo_inv cap q \<Longrightarrow> fst (processBlock cap n q) = map (block_message n) (contents cap q) \<and>
    contents cap (snd (processBlock cap n q)) = [] \<and> fifo_inv cap (snd (processBlock cap n q))"
proof (induction "contents cap q" arbitrary: q)
  case Nil
  then show ?case by (subst (1 2 3) processBlock.simps) (simp add: pop_empty)
next
  case (Cons x xs)
  then have p: "pop cap q = (Some x, snd (pop cap q))" "fifo_inv cap (snd (pop cap q))"
    "contents cap (snd (pop cap q)) = xs"
    using pop_nonempty [of cap q x xs] by (auto simp: prod_eq_iff)
  have "processBlock cap n q =
      (let (ms, q'') = processBlock cap n (snd (pop cap q)) in (block_message n x # ms, q''))"
    using assms by (subst processBlock.simps, subst p(1)) simp
  with Cons.hyps(1) [of "snd (pop cap q)"] p(2,3) Cons.hyps(2) [symmetric] show ?case
    by (simp add: split_beta Let_def)
qed

lemma block_message_pos: "0 < n \<Longrightarrow> snd (block_message n ev) < n"
  by (auto simp: block_message_def Let_def)

text \<open>
  C8. From enqueueing to the host: after the message thread enqueues a batch, one non-empty
  audio block delivers, in order, the events that were queued followed by the longest prefix
  of the batch that fits, each at a sample position inside the block, and leaves the ring
  empty; the block always returns.
\<close>

theorem enqueue_then_block_delivers:
  assumes "capacity_ok cap" and "fifo_inv cap q" and "0 < n"
  shows "fst (processBlock cap n (enqueueMidiEvents cap evs q)) =
      map (block_message n) (contents cap q @ take (unat cap - length (contents cap q)) evs) \<and>
    contents cap (snd (processBlock cap n (enqueueMidiEvents cap evs q))) = [] \<and>
    list_all (\<lambda>m. snd m < n) (fst (processBlock cap n (enqueueMidiEvents cap evs q)))"
  using enqueue_spec [OF assms(1,2), of evs] processBlock_spec [OF assms(3), of cap]
  by (auto simp: list_all_iff block_message_pos [OF assms(3)])

theorem enqueue_then_block_delivers_witness:
  "fst (processBlock 4 64 (enqueueMidiEvents 4 (replicate 6 zero_event) (MidiFifo 4))) =
   map (block_message 64) (replicate 4 zero_event)"
proof -
  have "capacity_ok 4" and "(0::nat) < 64" by (simp_all add: capacity_ok_def)
  with enqueue_then_block_delivers [of 4 "MidiFifo 4" 64 "replicate 6 zero_event"] MidiFifo_inv [of 4]
  show ?thesis by simp
qed

text \<open>
  An empty block is not harmless: \<open>processBlock\<close> pops before it looks at the block size, so a
  call with no samples discards the oldest queued event without delivering it.
\<close>

theorem empty_block_drops_event:
  assumes "fifo_inv cap q" and "contents cap q = x # xs"
  shows "fst (processBlock cap 0 q) = [] \<and> contents cap (snd (processBlock cap 0 q)) = xs"
proof -
  have "pop cap q = (Some x, snd (pop cap q))" "contents cap (snd (pop cap q)) = xs"
    using pop_nonempty [OF assms] by (auto simp: prod_eq_iff)
  then show ?thesis by (subst (1 2) processBlock.simps) (auto split: prod.splits option.splits)
qed

theorem empty_block_drops_event_witness:
  "contents 4 (snd (processBlock 4 0 (enqueueMidiEvents 4 [zero_event] (MidiFifo 4)))) = []"
proof -
  have ok: "capacity_ok 4" by (simp add: capacity_ok_def)
  let ?q = "enqueueMidiEvents 4 [zero_event] (MidiFifo 4)"
  have "fifo_inv 4 ?q" and "contents 4 ?q = zero_event # []"
    using enqueue_spec [OF ok, of "MidiFifo 4" "[zero_event]"] MidiFifo_inv [of 4] by auto
  from empty_block_drops_event [OF this] show ?thesis by blast
qed

end
