(* ===== verification/Mt19937_64.thy ===== *)
theory Mt19937_64
  imports Prelude
begin

text \<open>
  The random engine \<open>std::mt19937_64\<close> every generator of the Music Theory Engine seeds and
  draws from, as the C++ standard defines it ([rand.eng.mers], word size 64, state size 312,
  shift size 156, mask bits 31). The state is the window of the last 312 values of the
  sequence; a draw computes the next value, shifts the window and tempers the new value.

  The generators only use a draw through a remainder, \<open>rng() % n\<close>; \<open>rng_mod\<close> is that draw
  and its bound is the fact the components rest on.
\<close>

record mt19937_64 =
  window :: "u64 list"

definition mt_n :: nat where "mt_n = 312"
definition mt_m :: nat where "mt_m = 156"

definition mt_upper_mask :: u64 where "mt_upper_mask = 0xFFFFFFFF80000000"
definition mt_lower_mask :: u64 where "mt_lower_mask = 0x7FFFFFFF"
definition mt_matrix :: u64 where "mt_matrix = 0xB5026F5AA96619E9"

text \<open>\<open>mt_init k i x\<close>: the values \<open>X_i, \<dots>, X_(i+k-1)\<close> of the seeding recurrence, \<open>x = X_(i-1)\<close>.\<close>

fun mt_init :: "nat \<Rightarrow> nat \<Rightarrow> u64 \<Rightarrow> u64 list" where
  "mt_init 0 i x = []"
| "mt_init (Suc k) i x =
     (let y = 6364136223846793005 * (x XOR drop_bit 62 x) + of_nat i in y # mt_init k (Suc i) y)"

definition mt_seed :: "u64 \<Rightarrow> mt19937_64" where
  "mt_seed s = \<lparr>window = s # mt_init (mt_n - 1) 1 s\<rparr>"

definition mt_twist :: "u64 \<Rightarrow> u64 \<Rightarrow> u64 \<Rightarrow> u64" where
  "mt_twist x0 x1 xm =
     (let y = (x0 AND mt_upper_mask) OR (x1 AND mt_lower_mask)
      in xm XOR drop_bit 1 y XOR (if bit y 0 then mt_matrix else 0))"

definition mt_temper :: "u64 \<Rightarrow> u64" where
  "mt_temper x0 =
     (let x1 = x0 XOR (drop_bit 29 x0 AND 0x5555555555555555);
          x2 = x1 XOR (push_bit 17 x1 AND 0x71D67FFFEDA60000);
          x3 = x2 XOR (push_bit 37 x2 AND 0xFFF7EEE000000000)
      in x3 XOR drop_bit 43 x3)"

definition rng :: "mt19937_64 \<Rightarrow> u64 \<times> mt19937_64" where
  "rng g = (let xs = window g; y = mt_twist (xs ! 0) (xs ! 1) (xs ! mt_m)
            in (mt_temper y, g\<lparr>window := tl xs @ [y]\<rparr>))"

definition rng_mod :: "nat \<Rightarrow> mt19937_64 \<Rightarrow> nat \<times> mt19937_64" where
  "rng_mod n g = (let (w, g') = rng g in (unat w mod n, g'))"

subsection \<open>The window keeps its size\<close>

text \<open>Every read of \<open>rng\<close> is inside the window: all states reached from a seed have 312 values.\<close>

definition mt_ok :: "mt19937_64 \<Rightarrow> bool" where
  "mt_ok g \<longleftrightarrow> length (window g) = mt_n"

lemma length_mt_init [simp]: "length (mt_init k i x) = k"
  by (induction k i x rule: mt_init.induct) (simp_all add: Let_def)

lemma mt_seed_ok: "mt_ok (mt_seed s)"
  by (simp add: mt_ok_def mt_seed_def mt_n_def)

lemma rng_ok: "mt_ok g \<Longrightarrow> mt_ok (snd (rng g))"
  by (simp add: mt_ok_def rng_def Let_def mt_n_def)

subsection \<open>Random engines as an interface\<close>

text \<open>
  What a generator relies on: the engine can be seeded and drawn from for ever, and a
  draw modulo \<open>n\<close> is below \<open>n\<close>.
\<close>

locale random_engine =
  fixes seed :: "u64 \<Rightarrow> 'g"
    and draw :: "nat \<Rightarrow> 'g \<Rightarrow> nat \<times> 'g"
    and ok :: "'g \<Rightarrow> bool"
  assumes seed_ok: "ok (seed s)"
    and draw_ok: "ok g \<Longrightarrow> ok (snd (draw n g))"
    and draw_less: "0 < n \<Longrightarrow> fst (draw n g) < n"
begin

lemma draw_offset_bounds:
  "0 < n \<Longrightarrow> a \<le> a + fst (draw n g) \<and> a + fst (draw n g) < a + n"
  by (simp add: draw_less)

text \<open>\<open>static_cast<std::uint8_t>(a + rng() % n)\<close> does not wrap while \<open>a + n \<le> 256\<close>.\<close>

lemma draw_byte:
  assumes "0 < n" and "a + n \<le> 256"
  shows "unat (of_nat (a + fst (draw n g)) :: u8) = a + fst (draw n g)"
  using draw_less [OF assms(1), of g] assms(2) by (intro unat_u8_of_nat_small) simp

lemma draw_byte_bounds:
  assumes "0 < n" and "a + n \<le> 256"
  shows "a \<le> unat (of_nat (a + fst (draw n g)) :: u8)"
    and "unat (of_nat (a + fst (draw n g)) :: u8) < a + n"
  using draw_byte [OF assms, of g] draw_less [OF assms(1), of g] by simp_all

text \<open>\<open>candidates[rng() % candidates.size()]\<close> picks an element.\<close>

lemma draw_nth: "xs \<noteq> [] \<Longrightarrow> xs ! fst (draw (length xs) g) \<in> set xs"
  by (simp add: draw_less)

end

interpretation mt: random_engine mt_seed rng_mod mt_ok
  by unfold_locales (auto simp: mt_seed_ok rng_mod_def split_beta rng_ok)

lemmas rng_mod_less = mt.draw_less

text \<open>
  The first value drawn from the default seed 5489, as reference implementations print it:
  a check of the constants and shifts above.
\<close>

lemma mt_first_draw_of_default_seed: "fst (rng (mt_seed 5489)) = 14514284786278117030"
  by code_simp

end
