(* ===== verification/Midi_Types.thy ===== *)
theory Midi_Types
  imports Mt19937_64
begin

text \<open>
  The data types every engine exchanges (\<open>Types.hpp\<close>, \<open>IChordEngine.hpp\<close>): the MIDI event in
  ticks of 480 per quarter note, the chord symbol and the chord request, with the
  predicates that say what a well-formed event is.
\<close>

definition kPpq :: nat where "kPpq = 480"

record midi_event =
  tick_on :: u32
  tick_off :: u32
  channel :: u8
  note_no :: u8
  velocity :: u8
  articulation :: u8

record chord_spec =
  start_tick :: u32
  duration_ticks :: u32
  root_pc :: int
  quality :: string
  cs_channel :: u8

record chord_request =
  chords :: "chord_spec list"
  req_seed :: u64
  req_ppq :: u32

text \<open>
  A generator fills an event field by field from a zeroed struct; \<open>make_event\<close> is that
  block, with articulation 0 as every generator leaves it.
\<close>

definition make_event :: "u32 \<Rightarrow> u32 \<Rightarrow> u8 \<Rightarrow> u8 \<Rightarrow> u8 \<Rightarrow> midi_event" where
  "make_event on off n v ch =
     \<lparr>tick_on = on, tick_off = off, channel = ch, note_no = n, velocity = v, articulation = 0\<rparr>"

lemma make_event_simps [simp]:
  "tick_on (make_event on off n v ch) = on" "tick_off (make_event on off n v ch) = off"
  "channel (make_event on off n v ch) = ch" "note_no (make_event on off n v ch) = n"
  "velocity (make_event on off n v ch) = v" "articulation (make_event on off n v ch) = 0"
  by (simp_all add: make_event_def)

subsection \<open>Well-formed events\<close>

definition note_in :: "nat \<Rightarrow> nat \<Rightarrow> midi_event \<Rightarrow> bool" where
  "note_in lo hi e \<longleftrightarrow> lo \<le> unat (note_no e) \<and> unat (note_no e) \<le> hi"

definition vel_in :: "nat \<Rightarrow> nat \<Rightarrow> midi_event \<Rightarrow> bool" where
  "vel_in lo hi e \<longleftrightarrow> lo \<le> unat (velocity e) \<and> unat (velocity e) \<le> hi"

definition sounding :: "midi_event \<Rightarrow> bool" where
  "sounding e \<longleftrightarrow> tick_on e < tick_off e"

text \<open>What the wire format can carry: 7-bit data bytes and a 4-bit channel.\<close>

definition midi_ok :: "midi_event \<Rightarrow> bool" where
  "midi_ok e \<longleftrightarrow> note_in 0 127 e \<and> vel_in 0 127 e \<and> unat (channel e) < 16"

lemma note_in_mono: "note_in lo hi e \<Longrightarrow> lo' \<le> lo \<Longrightarrow> hi \<le> hi' \<Longrightarrow> note_in lo' hi' e"
  by (auto simp: note_in_def)

lemma vel_in_mono: "vel_in lo hi e \<Longrightarrow> lo' \<le> lo \<Longrightarrow> hi \<le> hi' \<Longrightarrow> vel_in lo' hi' e"
  by (auto simp: vel_in_def)

lemma make_event_note_in [simp]:
  "note_in lo hi (make_event on off n v ch) \<longleftrightarrow> lo \<le> unat n \<and> unat n \<le> hi"
  by (simp add: note_in_def)

lemma make_event_vel_in [simp]:
  "vel_in lo hi (make_event on off n v ch) \<longleftrightarrow> lo \<le> unat v \<and> unat v \<le> hi"
  by (simp add: vel_in_def)

lemma make_event_sounding [simp]: "sounding (make_event on off n v ch) \<longleftrightarrow> on < off"
  by (simp add: sounding_def)

end
