(* ===== verification/Midi_Renderer.thy ===== *)
theory Midi_Renderer
  imports Midi_Types
begin

text \<open>
  The MIDI renderer (\<open>midi_renderer.cpp\<close>): a composition of tick-based events becomes the bytes
  of a Standard MIDI File of type 1. The output vector is the list of bytes, in order.

  \<open>std::sort\<close> of the wire events is the argument \<open>srt\<close>: the comparator does not order a
  note-on against another note-on of the same tick, so the library is free there, and the
  theorems hold for every sort. The tempo division traps when the tempo, converted to
  unsigned, is 0; \<open>render\<close> is then \<open>None\<close>.
\<close>

record midi_track =
  track_name :: string
  track_events :: "midi_event list"

record smf_composition =
  smf_ppq :: int
  smf_bpm :: int
  smf_key :: string
  smf_scale :: string
  time_sig_num :: int
  time_sig_den :: int
  smf_tracks :: "midi_track list"

record wire_event =
  we_tick :: u32
  is_note_off :: bool
  we_status :: u8
  data1 :: u8
  data2 :: u8

subsection \<open>Byte helpers\<close>

definition write_be16 :: "u16 \<Rightarrow> u8 list" where
  "write_be16 v = [ucast (drop_bit 8 v AND 0xFF), ucast (v AND 0xFF)]"

definition write_be32 :: "u32 \<Rightarrow> u8 list" where
  "write_be32 v = [ucast (drop_bit 24 v AND 0xFF), ucast (drop_bit 16 v AND 0xFF),
                   ucast (drop_bit 8 v AND 0xFF), ucast (v AND 0xFF)]"

lemma unat_drop_bit_7: "unat (drop_bit 7 v) = unat v div 128" for v :: u32
  by (simp add: drop_bit_eq_div unat_div)

lemma unat_drop_bit_less: "v \<noteq> 0 \<Longrightarrow> unat (drop_bit 7 v) < unat v" for v :: u32
proof -
  assume "v \<noteq> 0"
  then have "0 < unat v" by (simp add: unat_gt_0)
  then show ?thesis by (simp add: unat_drop_bit_7)
qed

function vlq_loop :: "u32 \<Rightarrow> u8 list \<Rightarrow> u8 list" where
  "vlq_loop v bytes =
     (if v > 0 then vlq_loop (drop_bit 7 v) (bytes @ [ucast ((v AND 0x7F) OR 0x80)]) else bytes)"
  by pat_completeness auto
termination
  by (relation "measure (\<lambda>(v, _). unat v)") (auto simp: unat_drop_bit_less)

declare vlq_loop.simps [simp del]

definition encode_vlq :: "u32 \<Rightarrow> u8 list" where
  "encode_vlq v = rev (vlq_loop (drop_bit 7 v) [ucast (v AND 0x7F)])"

definition kKeyMap :: "(string \<times> int) list" where
  "kKeyMap =
     [(''Cb'', -7), (''Gb'', -6), (''Db'', -5), (''Ab'', -4), (''Eb'', -3),
      (''Bb'', -2), (''F'', -1), (''C'', 0), (''G'', 1), (''D'', 2),
      (''A'', 3), (''E'', 4), (''B'', 5), (''F#'', 6), (''C#'', 7)]"

definition key_sharps :: "string \<Rightarrow> int" where
  "key_sharps key = (case map_of kKeyMap key of Some n \<Rightarrow> n | None \<Rightarrow> 0)"

text \<open>The loop \<open>while (den > 1) { den >>= 1; ++dd; }\<close>.\<close>

function den_power :: "int \<Rightarrow> int \<Rightarrow> int" where
  "den_power den dd = (if den > 1 then den_power (den div 2) (dd + 1) else dd)"
  by pat_completeness auto
termination
  by (relation "measure (\<lambda>(den, _). nat den)") auto

declare den_power.simps [simp del]

subsection \<open>Chunks\<close>

definition bytes_of :: "string \<Rightarrow> u8 list" where
  "bytes_of s = map of_char s"

definition mtrk_chunk :: "u8 list \<Rightarrow> u8 list" where
  "mtrk_chunk events = bytes_of ''MTrk'' @ write_be32 (of_nat (length events)) @ events"

definition tempo_us :: "int \<Rightarrow> u32" where
  "tempo_us bpm = 60000000 div (word_of_int bpm)"

definition tempo_events :: "smf_composition \<Rightarrow> u8 list" where
  "tempo_events smf =
     [0x00, 0xFF, 0x51, 0x03,
      ucast (drop_bit 16 (tempo_us (smf_bpm smf)) AND 0xFF),
      ucast (drop_bit 8 (tempo_us (smf_bpm smf)) AND 0xFF),
      ucast (tempo_us (smf_bpm smf) AND 0xFF),
      0x00, 0xFF, 0x58, 0x04,
      word_of_int (time_sig_num smf), word_of_int (den_power (time_sig_den smf) 0), 24, 8,
      0x00, 0xFF, 0x59, 0x02,
      word_of_int (key_sharps (smf_key smf)),
      (if smf_scale smf = ''minor'' \<or> smf_scale smf = ''min'' then 1 else 0),
      0x00, 0xFF, 0x2F, 0x00]"

definition build_tempo_track :: "smf_composition \<Rightarrow> u8 list option" where
  "build_tempo_track smf =
     (if (word_of_int (smf_bpm smf) :: u32) = 0 then None else Some (mtrk_chunk (tempo_events smf)))"

definition name_event :: "string \<Rightarrow> u8 list" where
  "name_event name = encode_vlq 0 @ [0xFF, 0x03, of_nat (length name)] @ bytes_of name"

definition note_pair :: "midi_event \<Rightarrow> wire_event list" where
  "note_pair ev =
     (if note_no ev > 127 then []
      else [\<lparr>we_tick = tick_on ev, is_note_off = False, we_status = 0x90 OR (channel ev AND 0x0F),
             data1 = note_no ev, data2 = velocity ev\<rparr>,
            \<lparr>we_tick = tick_off ev, is_note_off = True, we_status = 0x80 OR (channel ev AND 0x0F),
             data1 = note_no ev, data2 = velocity ev\<rparr>])"

definition wire_lt :: "wire_event \<Rightarrow> wire_event \<Rightarrow> bool" where
  "wire_lt a b =
     (if we_tick a \<noteq> we_tick b then we_tick a < we_tick b else is_note_off a \<and> \<not> is_note_off b)"

fun wire_bytes :: "u32 \<Rightarrow> u8 \<Rightarrow> wire_event list \<Rightarrow> u8 list" where
  "wire_bytes last_tick last_status [] = []"
| "wire_bytes last_tick last_status (we # wes) =
     (let fresh = (we_status we \<noteq> last_status \<or> last_status = 0)
      in encode_vlq (we_tick we - last_tick) @ (if fresh then [we_status we] else []) @
         [data1 we, data2 we] @
         wire_bytes (we_tick we) (if fresh then we_status we else last_status) wes)"

definition end_of_track :: "u8 list" where
  "end_of_track = encode_vlq 0 @ [0xFF, 0x2F, 0x00]"

definition build_instrument_track ::
  "(wire_event list \<Rightarrow> wire_event list) \<Rightarrow> midi_track \<Rightarrow> u8 list" where
  "build_instrument_track srt track =
     (let wire = srt (concat (map note_pair (track_events track)))
      in mtrk_chunk (name_event (track_name track) @ wire_bytes 0 0 wire @ end_of_track))"

definition render ::
  "(wire_event list \<Rightarrow> wire_event list) \<Rightarrow> smf_composition \<Rightarrow> u8 list option" where
  "render srt smf =
     (let total_tracks = int (length (smf_tracks smf)) + 1;
          header = bytes_of ''MThd'' @ write_be32 6 @ write_be16 1 @
                   write_be16 (word_of_int total_tracks) @ write_be16 (word_of_int (smf_ppq smf))
      in case build_tempo_track smf of
           None \<Rightarrow> None
         | Some tempo \<Rightarrow>
             Some (header @ tempo @ concat (map (build_instrument_track srt) (smf_tracks smf))))"

subsection \<open>The comparator\<close>

interpretation wire: strict_weak_order wire_lt
  by unfold_locales (auto simp: wire_lt_def split: if_splits)

subsection \<open>Variable-length quantities\<close>

text \<open>The reader of the format's specification: seven bits per byte, the last byte below 128.\<close>

fun read_vlq :: "nat \<Rightarrow> u8 list \<Rightarrow> (nat \<times> u8 list) option" where
  "read_vlq acc [] = None"
| "read_vlq acc (b # bs) =
     (if b < 0x80 then Some (acc * 128 + unat b, bs)
      else read_vlq (acc * 128 + (unat b - 128)) bs)"

lemma and_7F: "v AND 0x7F = take_bit 7 v" for v :: u32
  by (simp add: take_bit_eq_mask mask_eq_exp_minus_1)

lemma low_seven: "unat (ucast (v AND 0x7F) :: u8) = unat v mod 128" for v :: u32
  by (simp add: and_7F unsigned_ucast_eq unsigned_take_bit_eq take_bit_eq_mod unat_mod)

lemma continuation_byte:
  "unat (ucast ((v AND 0x7F) OR 0x80) :: u8) = unat v mod 128 + 128" for v :: u32
proof -
  have "take_bit 7 v OR 2 ^ 7 = take_bit 7 v + 2 ^ 7"
    by (rule disjunctive_add [symmetric]) (simp only: bit_take_bit_iff bit_exp_iff, auto)
  then have or: "(v AND 0x7F) OR 0x80 = v mod 128 + 128"
    by (simp add: and_7F take_bit_eq_mod)
  have "unat v mod 128 < 128" by simp
  then have "unat (v mod 128 + 128) = unat v mod 128 + 128"
    by (simp add: unat_word_ariths unat_mod)
  with or show ?thesis
    by (simp add: unsigned_ucast_eq take_bit_eq_mod)
qed

lemma read_vlq_continue:
  assumes "list_all (\<lambda>b. 0x80 \<le> b) hs"
  shows "read_vlq acc (hs @ b # bs) =
         read_vlq (foldl (\<lambda>a h. a * 128 + (unat h - 128)) acc hs) (b # bs)"
  using assms by (induction hs arbitrary: acc) (auto simp: word_less_nat_alt word_le_nat_alt)

lemma vlq_loop_eq:
  "\<exists>hs. vlq_loop v bs = bs @ rev hs \<and> list_all (\<lambda>b. 0x80 \<le> b) hs \<and>
        foldl (\<lambda>a h. a * 128 + (unat h - 128)) 0 hs = unat v \<and>
        (\<forall>k. unat v < 128 ^ k \<longrightarrow> length hs \<le> k)"
proof (induction v bs rule: vlq_loop.induct)
  case (1 v bs)
  show ?case
  proof (cases "v > 0")
    case False
    then have "v = 0" using word_neq_0_conv by blast
    then show ?thesis by (auto simp: vlq_loop.simps)
  next
    case True
    define b where "b = (ucast ((v AND 0x7F) OR 0x80) :: u8)"
    have b: "unat b = unat v mod 128 + 128"
      by (simp add: b_def continuation_byte)
    obtain hs where hs: "vlq_loop (drop_bit 7 v) (bs @ [b]) = (bs @ [b]) @ rev hs"
      "list_all (\<lambda>b. 0x80 \<le> b) hs"
      "foldl (\<lambda>a h. a * 128 + (unat h - 128)) 0 hs = unat (drop_bit 7 v)"
      "\<forall>k. unat (drop_bit 7 v) < 128 ^ k \<longrightarrow> length hs \<le> k"
      using "1.IH" [OF True] unfolding b_def by blast
    have len: "length hs + 1 \<le> k" if "unat v < 128 ^ k" for k
    proof (cases k)
      case 0
      with that True show ?thesis by (simp add: word_gt_0_no unat_eq_zero)
    next
      case (Suc j)
      with that have "unat (drop_bit 7 v) < 128 ^ j"
        by (simp add: unat_drop_bit_7 less_mult_imp_div_less mult.commute)
      with hs(4) Suc show ?thesis by simp
    qed
    have "vlq_loop v bs = bs @ rev (hs @ [b])"
      using True hs(1) by (subst vlq_loop.simps) (simp add: b_def)
    moreover have "0x80 \<le> b" by (simp add: word_le_nat_alt b)
    moreover have "unat v div 128 * 128 + unat v mod 128 = unat v" by (rule div_mult_mod_eq)
    ultimately show ?thesis
      using hs(2,3) len by (intro exI [of _ "hs @ [b]"]) (simp add: b unat_drop_bit_7)
  qed
qed

lemma read_encode_vlq: "read_vlq 0 (encode_vlq v @ rest) = Some (unat v, rest)"
  and length_encode_vlq: "length (encode_vlq v) \<le> 5"
proof -
  define b where "b = (ucast (v AND 0x7F) :: u8)"
  obtain hs where hs: "vlq_loop (drop_bit 7 v) [b] = [b] @ rev hs"
    "list_all (\<lambda>b. 0x80 \<le> b) hs"
    "foldl (\<lambda>a h. a * 128 + (unat h - 128)) 0 hs = unat (drop_bit 7 v)"
    "\<forall>k. unat (drop_bit 7 v) < 128 ^ k \<longrightarrow> length hs \<le> k"
    using vlq_loop_eq [of "drop_bit 7 v" "[b]"] by blast
  have enc: "encode_vlq v = hs @ [b]" by (simp add: encode_vlq_def hs(1) flip: b_def)
  have b: "unat b = unat v mod 128" by (simp add: b_def low_seven)
  then have "b < 0x80" by (simp add: word_less_nat_alt)
  moreover have "unat v div 128 * 128 + unat v mod 128 = unat v" by (rule div_mult_mod_eq)
  ultimately show "read_vlq 0 (encode_vlq v @ rest) = Some (unat v, rest)"
    using hs(2,3) by (simp add: enc read_vlq_continue b unat_drop_bit_7)
  have "unat v < 2 ^ 32" using unsigned_less [of v, where ?'a = nat] by simp
  then have "unat (drop_bit 7 v) < 128 ^ 4" by (simp add: unat_drop_bit_7)
  then show "length (encode_vlq v) \<le> 5" using hs(4) by (fastforce simp: enc)
qed

end
