(* ===== verification/Smf_Reader.thy ===== *)
theory Smf_Reader
  imports Midi_Renderer
begin

text \<open>
  A reader of Standard MIDI Files written from the format's specification (chunks, delta
  times, meta events, channel messages with running status), and the theorem that it reads
  back from the output of \<open>render\<close> what the composition holds.
\<close>

subsection \<open>The reader\<close>

datatype smf_msg = Meta u8 "u8 list" | Note_msg u8 u8 u8

definition read_be :: "nat \<Rightarrow> u8 list \<Rightarrow> (nat \<times> u8 list) option" where
  "read_be n bs = (if length bs < n then None
                   else Some (foldl (\<lambda>a b. a * 256 + unat b) 0 (take n bs), drop n bs))"

definition emit :: "'a \<Rightarrow> 'a list option \<Rightarrow> 'a list option" where
  "emit x r = map_option (Cons x) r"

text \<open>
  One track: a delta time, then a meta event (which cancels running status; type \<open>2F\<close> ends
  the track), a note message with its status byte, or data bytes under running status.
  Each message takes at least two bytes, so fuel of the number of bytes is enough.
\<close>

fun read_events :: "nat \<Rightarrow> nat \<Rightarrow> u8 option \<Rightarrow> u8 list \<Rightarrow> (nat \<times> smf_msg) list option" where
  "read_events 0 tick status bytes = None"
| "read_events (Suc fuel) tick status bytes =
     (case read_vlq 0 bytes of
        None \<Rightarrow> None
      | Some (delta, []) \<Rightarrow> None
      | Some (delta, b # bs) \<Rightarrow>
          (let now = tick + delta in
           if b = 0xFF then
             (case bs of
                [] \<Rightarrow> None
              | ty # bs1 \<Rightarrow>
                  (case read_vlq 0 bs1 of
                     None \<Rightarrow> None
                   | Some (len, body) \<Rightarrow>
                       if length body < len then None
                       else if ty = 0x2F then
                         (if body = [] then Some [(now, Meta ty [])] else None)
                       else emit (now, Meta ty (take len body))
                              (read_events fuel now None (drop len body))))
           else if 0x80 \<le> b then
             (case bs of
                d1 # d2 # rest \<Rightarrow>
                  if b < 0xA0 \<and> d1 < 0x80 \<and> d2 < 0x80
                  then emit (now, Note_msg b d1 d2) (read_events fuel now (Some b) rest) else None
              | _ \<Rightarrow> None)
           else
             (case (status, bs) of
                (Some s, d2 # rest) \<Rightarrow>
                  if d2 < 0x80
                  then emit (now, Note_msg s b d2) (read_events fuel now (Some s) rest) else None
              | _ \<Rightarrow> None)))"

definition read_tag :: "string \<Rightarrow> u8 list \<Rightarrow> u8 list option" where
  "read_tag tag bs = (if take 4 bs = bytes_of tag then Some (drop 4 bs) else None)"

definition read_track :: "u8 list \<Rightarrow> ((nat \<times> smf_msg) list \<times> u8 list) option" where
  "read_track bs =
     (case read_tag ''MTrk'' bs of
        None \<Rightarrow> None
      | Some bs1 \<Rightarrow>
          (case read_be 4 bs1 of
             None \<Rightarrow> None
           | Some (len, bs2) \<Rightarrow>
               if length bs2 < len then None
               else map_option (\<lambda>ms. (ms, drop len bs2)) (read_events len 0 None (take len bs2))))"

fun read_tracks :: "nat \<Rightarrow> u8 list \<Rightarrow> (nat \<times> smf_msg) list list option" where
  "read_tracks 0 bs = (if bs = [] then Some [] else None)"
| "read_tracks (Suc n) bs =
     (case read_track bs of
        None \<Rightarrow> None
      | Some (ms, rest) \<Rightarrow> emit ms (read_tracks n rest))"

text \<open>The header chunk: format, number of tracks, division; then exactly that many tracks.\<close>

definition read_smf :: "u8 list \<Rightarrow> (nat \<times> nat \<times> (nat \<times> smf_msg) list list) option" where
  "read_smf bs =
     (case read_tag ''MThd'' bs of
        None \<Rightarrow> None
      | Some bs1 \<Rightarrow>
          (case read_be 4 bs1 of
             None \<Rightarrow> None
           | Some (hlen, bs2) \<Rightarrow>
          (case read_be 2 bs2 of
             None \<Rightarrow> None
           | Some (fmt, bs3) \<Rightarrow>
          (case read_be 2 bs3 of
             None \<Rightarrow> None
           | Some (ntrks, bs4) \<Rightarrow>
          (case read_be 2 bs4 of
             None \<Rightarrow> None
           | Some (division, bs5) \<Rightarrow>
               if hlen = 6 then map_option (\<lambda>ts. (fmt, division, ts)) (read_tracks ntrks bs5)
               else None)))))"

subsection \<open>What the renderer means to write\<close>

definition wire_msg :: "wire_event \<Rightarrow> nat \<times> smf_msg" where
  "wire_msg we = (unat (we_tick we), Note_msg (we_status we) (data1 we) (data2 we))"

definition end_msg :: "u32 \<Rightarrow> wire_event list \<Rightarrow> nat \<times> smf_msg" where
  "end_msg t wes = (unat (if wes = [] then t else we_tick (last wes)), Meta 0x2F [])"

definition track_wire :: "(wire_event list \<Rightarrow> wire_event list) \<Rightarrow> midi_track \<Rightarrow> wire_event list" where
  "track_wire srt track = srt (concat (map note_pair (track_events track)))"

definition track_msgs ::
  "(wire_event list \<Rightarrow> wire_event list) \<Rightarrow> midi_track \<Rightarrow> (nat \<times> smf_msg) list" where
  "track_msgs srt track =
     (0, Meta 0x03 (bytes_of (track_name track))) #
     map wire_msg (track_wire srt track) @ [end_msg 0 (track_wire srt track)]"

definition tempo_msgs :: "smf_composition \<Rightarrow> (nat \<times> smf_msg) list" where
  "tempo_msgs smf =
     [(0, Meta 0x51 (map of_nat [unat (tempo_us (smf_bpm smf)) div 65536 mod 256,
                                 unat (tempo_us (smf_bpm smf)) div 256 mod 256,
                                 unat (tempo_us (smf_bpm smf)) mod 256])),
      (0, Meta 0x58 [word_of_int (time_sig_num smf),
                     word_of_int (den_power (time_sig_den smf) 0), 24, 8]),
      (0, Meta 0x59 [word_of_int (key_sharps (smf_key smf)),
                     if smf_scale smf = ''minor'' \<or> smf_scale smf = ''min'' then 1 else 0]),
      (0, Meta 0x2F [])]"

subsection \<open>Fields\<close>

lemma length_write_be [simp]: "length (write_be16 v) = 2" "length (write_be32 w) = 4"
  by (simp_all add: write_be16_def write_be32_def)

lemma byte_of_u32: "unat (ucast (drop_bit k v AND 0xFF) :: u8) = unat v div 2 ^ k mod 256"
  for v :: u32
proof -
  have "drop_bit k v AND 0xFF = take_bit 8 (drop_bit k v)"
    by (simp add: take_bit_eq_mask mask_eq_exp_minus_1)
  moreover have "unat (drop_bit k v) = unat v div 2 ^ k"
    by (simp only: unat_drop_bit_eq) (simp only: drop_bit_eq_div)
  ultimately show ?thesis
    by (simp add: unsigned_ucast_eq take_bit_eq_mod unat_mod del: drop_bit_eq_div)
qed

lemma byte_of_u16: "unat (ucast (drop_bit k v AND 0xFF) :: u8) = unat v div 2 ^ k mod 256"
  for v :: u16
proof -
  have "drop_bit k v AND 0xFF = take_bit 8 (drop_bit k v)"
    by (simp add: take_bit_eq_mask mask_eq_exp_minus_1)
  moreover have "unat (drop_bit k v) = unat v div 2 ^ k"
    by (simp only: unat_drop_bit_eq) (simp only: drop_bit_eq_div)
  ultimately show ?thesis
    by (simp add: unsigned_ucast_eq take_bit_eq_mod unat_mod del: drop_bit_eq_div)
qed

lemma be_step: "n div (k * 256) * 256 + n div k mod 256 = n div k" for n :: nat
  by (simp add: div_mult2_eq)

lemma read_be_bytes:
  "read_be 4 (a # b # c # d # rest) =
     Some (((unat a * 256 + unat b) * 256 + unat c) * 256 + unat d, rest)"
  "read_be 2 (a # b # rest) = Some (unat a * 256 + unat b, rest)"
  by (simp_all add: read_be_def)

lemma read_be32: "read_be 4 (write_be32 v @ rest) = Some (unat v, rest)"
proof -
  have "unat v < 4294967296" using unsigned_less [of v, where ?'a = nat] by simp
  then have top: "unat v div 2 ^ 24 mod 256 = unat v div 16777216"
    by (simp add: less_mult_imp_div_less)
  then have "((unat v div 2 ^ 24 mod 256 * 256 + unat v div 2 ^ 16 mod 256) * 256 +
      unat v div 2 ^ 8 mod 256) * 256 + unat v div 2 ^ 0 mod 256 = unat v"
    using be_step [of "unat v" 65536] be_step [of "unat v" 256] be_step [of "unat v" 1] by simp
  then show ?thesis
    unfolding write_be32_def append_Cons append_Nil read_be_bytes byte_of_u32
    using byte_of_u32 [of 0 v] top by simp
qed

lemma read_be16: "read_be 2 (write_be16 v @ rest) = Some (unat v, rest)"
proof -
  have "unat v < 65536" using unsigned_less [of v, where ?'a = nat] by simp
  then have "unat v div 2 ^ 8 mod 256 = unat v div 256"
    by (simp add: less_mult_imp_div_less)
  then have "unat v div 2 ^ 8 mod 256 * 256 + unat v div 2 ^ 0 mod 256 = unat v"
    using be_step [of "unat v" 1] by simp
  then show ?thesis
    unfolding write_be16_def append_Cons append_Nil read_be_bytes byte_of_u16
    using byte_of_u16 [of 0 v] by simp
qed

lemma read_tag_bytes [simp]: "length tag = 4 \<Longrightarrow> read_tag tag (bytes_of tag @ bs) = Some bs"
  by (simp add: read_tag_def bytes_of_def)


subsection \<open>Note messages\<close>

definition wire_ok :: "wire_event \<Rightarrow> bool" where
  "wire_ok we \<longleftrightarrow> 0x80 \<le> we_status we \<and> we_status we < 0xA0 \<and> data1 we < 0x80 \<and> data2 we < 0x80"

lemma status_or: "s OR (ch AND 0x0F) = s + ch mod 16" if "s = 0x80 \<or> s = 0x90" for s ch :: u8
proof -
  have "\<not> bit s n" if "n < 4" for n
  proof -
    from \<open>n < 4\<close> consider "n = 0" | "n = 1" | "n = 2" | "n = 3" by linarith
    then show ?thesis using \<open>s = 0x80 \<or> s = 0x90\<close> by cases auto
  qed
  then have "s OR take_bit 4 ch = s + take_bit 4 ch"
    by (intro disjunctive_add [symmetric]) (auto simp: bit_take_bit_iff)
  moreover have "ch AND 0x0F = take_bit 4 ch" by (simp add: take_bit_eq_mask mask_eq_exp_minus_1)
  ultimately show ?thesis by (simp add: take_bit_eq_mod)
qed

lemma status_range:
  "0x80 \<le> 0x80 OR (ch AND 0x0F) \<and> 0x80 OR (ch AND 0x0F) < 0xA0"
  "0x80 \<le> 0x90 OR (ch AND 0x0F) \<and> 0x90 OR (ch AND 0x0F) < 0xA0" for ch :: u8
proof -
  have m: "unat ch mod 16 < 16" by simp
  then show "0x80 \<le> 0x80 OR (ch AND 0x0F) \<and> 0x80 OR (ch AND 0x0F) < 0xA0"
    by (simp add: status_or word_le_nat_alt word_less_nat_alt unat_word_ariths unat_mod)
  from m show "0x80 \<le> 0x90 OR (ch AND 0x0F) \<and> 0x90 OR (ch AND 0x0F) < 0xA0"
    by (simp add: status_or word_le_nat_alt word_less_nat_alt unat_word_ariths unat_mod)
qed

lemma note_pair_ok:
  "unat (velocity ev) < 128 \<Longrightarrow> list_all wire_ok (note_pair ev)"
  by (auto simp: note_pair_def wire_ok_def status_range) (simp_all add: word_less_nat_alt)

text \<open>
  Reading one note message, with and without its status byte, then everything after it.
\<close>

lemma read_events_note:
  assumes "wire_ok we"
  shows "read_events (Suc fuel) tick status
           (encode_vlq v @ we_status we # data1 we # data2 we # rest) =
         emit (tick + unat v, Note_msg (we_status we) (data1 we) (data2 we))
           (read_events fuel (tick + unat v) (Some (we_status we)) rest)"
proof -
  have "we_status we \<noteq> 0xFF" using assms by (auto simp: wire_ok_def)
  then show ?thesis using assms by (simp add: read_encode_vlq wire_ok_def Let_def)
qed

lemma read_events_running:
  assumes "wire_ok we"
  shows "read_events (Suc fuel) tick (Some (we_status we))
           (encode_vlq v @ data1 we # data2 we # rest) =
         emit (tick + unat v, Note_msg (we_status we) (data1 we) (data2 we))
           (read_events fuel (tick + unat v) (Some (we_status we)) rest)"
proof -
  have "data1 we \<noteq> 0xFF" and "\<not> 0x80 \<le> data1 we" using assms by (auto simp: wire_ok_def)
  then show ?thesis using assms by (simp add: read_encode_vlq wire_ok_def Let_def)
qed

lemma read_events_end:
  "read_events (Suc fuel) tick status end_of_track = Some [(tick, Meta 0x2F [])]"
  by (simp add: end_of_track_def read_encode_vlq)

lemma wire_lt_tick: "\<not> wire_lt b a \<Longrightarrow> we_tick a \<le> we_tick b"
  by (auto simp: wire_lt_def split: if_splits)

text \<open>
  The delta times add up to the absolute ticks because the events are in tick order, and the
  omitted status bytes are the ones running status restores.
\<close>

lemma read_wire_bytes:
  assumes "sorted_wrt (\<lambda>a b. we_tick a \<le> we_tick b) wes" and "\<forall>we \<in> set wes. t \<le> we_tick we"
    and "list_all wire_ok wes"
    and "length wes < fuel"
    and "ls \<noteq> 0 \<longrightarrow> status = Some ls"
  shows "read_events fuel (unat t) status (wire_bytes t ls wes @ end_of_track) =
         Some (map wire_msg wes @ [end_msg t wes])"
  using assms
proof (induction wes arbitrary: fuel t ls status)
  case Nil
  then show ?case by (cases fuel) (simp_all add: read_events_end end_msg_def del: read_events.simps(2))
next
  case (Cons we wes)
  obtain f where fuel: "fuel = Suc f" and f: "length wes < f"
    using Cons.prems(4) by (cases fuel) auto
  have le: "t \<le> we_tick we" and ok: "wire_ok we" using Cons.prems by auto
  then have tick: "unat t + unat (we_tick we - t) = unat (we_tick we)"
    by (simp add: unat_sub word_le_nat_alt)
  have nz: "we_status we \<noteq> 0" using ok by (auto simp: wire_ok_def word_le_nat_alt)
  have IH: "read_events f (unat (we_tick we)) (Some (we_status we))
        (wire_bytes (we_tick we) (we_status we) wes @ end_of_track) =
      Some (map wire_msg wes @ [end_msg (we_tick we) wes])"
    using Cons.prems f by (intro Cons.IH) auto
  have fin: "end_msg (we_tick we) wes = end_msg t (we # wes)"
    by (simp add: end_msg_def)
  show ?case
  proof (cases "we_status we \<noteq> ls \<or> ls = 0")
    case True
    then show ?thesis
      using IH fin tick by (simp add: fuel read_events_note [OF ok] emit_def wire_msg_def Let_def
          del: read_events.simps)
  next
    case False
    then have "ls = we_status we" and "status = Some (we_status we)" using Cons.prems(5) nz by auto
    then show ?thesis
      using IH fin tick nz by (simp add: fuel read_events_running [OF ok] emit_def wire_msg_def Let_def
          del: read_events.simps)
  qed
qed

lemma length_wire_bytes: "length (wire_bytes t ls wes) \<le> 8 * length wes"
proof (induction wes arbitrary: t ls)
  case (Cons we wes)
  have "length (encode_vlq (we_tick we - t)) \<le> 5" by (rule length_encode_vlq)
  moreover have "length (wire_bytes (we_tick we) s wes) \<le> 8 * length wes" for s by (rule Cons.IH)
  ultimately show ?case by (auto simp: Let_def intro: add_le_mono le_trans [OF add_le_mono])
qed simp

lemma length_wire_bytes_ge: "length wes \<le> length (wire_bytes t ls wes)"
proof (induction wes arbitrary: t ls)
  case (Cons we wes)
  have "length wes \<le> length (wire_bytes (we_tick we) s wes)" for s by (rule Cons.IH)
  then show ?case by (simp add: Let_def trans_le_add2 le_SucI)
qed simp

subsection \<open>Tracks\<close>

lemma read_track_chunk:
  assumes "length data < 2 ^ 32" and "read_events (length data) 0 None data = Some ms"
  shows "read_track (mtrk_chunk data @ rest) = Some (ms, rest)"
proof -
  have "unat (of_nat (length data) :: u32) = length data"
    using assms(1) by (simp add: unat_of_nat)
  then show ?thesis
    using assms(2) by (simp add: read_track_def mtrk_chunk_def read_be32)
qed

lemma read_name_event:
  assumes "length name < 128"
  shows "read_events (Suc fuel) tick status (name_event name @ rest) =
         emit (tick, Meta 0x03 (bytes_of name)) (read_events fuel tick None rest)"
proof -
  have "(of_nat (length name) :: u8) < 0x80" and "unat (of_nat (length name) :: u8) = length name"
    using assms by (simp_all add: word_less_nat_alt unat_of_nat)
  then show ?thesis
    by (simp add: name_event_def read_encode_vlq bytes_of_def)
qed

definition track_fits :: "midi_track \<Rightarrow> bool" where
  "track_fits track \<longleftrightarrow>
     length (track_name track) < 128 \<and> length (track_events track) < 2 ^ 27 \<and>
     list_all (\<lambda>ev. unat (velocity ev) < 128) (track_events track)"

lemma length_note_pairs: "length (concat (map note_pair evs)) \<le> 2 * length evs"
  by (induction evs) (auto simp: note_pair_def)

lemma read_instrument_track:
  assumes "std_sort wire_lt srt" and "track_fits track"
  shows "read_track (build_instrument_track srt track @ rest) = Some (track_msgs srt track, rest)"
proof -
  define wes where "wes = track_wire srt track"
  define body where "body = wire_bytes 0 0 wes @ end_of_track"
  define data where "data = name_event (track_name track) @ body"
  have ordered: "sorted_wrt (\<lambda>a b. we_tick a \<le> we_tick b) wes"
    using std_sort.sort_ordered [OF assms(1)] unfolding wes_def track_wire_def
    by (rule sorted_wrt_mono_rel [rotated]) (simp add: wire_lt_tick)
  have ok: "list_all wire_ok wes"
    using assms(2) note_pair_ok
    unfolding wes_def track_wire_def std_sort.sort_list_all [OF assms(1)]
    by (fastforce simp: track_fits_def list_all_iff)
  have n: "length wes < 2 ^ 28"
    using assms(2) length_note_pairs [of "track_events track"] unfolding wes_def track_wire_def
    by (simp add: std_sort.sort_length [OF assms(1)] track_fits_def)
  have e: "length end_of_track \<le> 8" "0 < length end_of_track"
    using length_encode_vlq [of 0] by (simp_all add: end_of_track_def)
  have nm: "length (name_event (track_name track)) \<le> 136" "1 < length (name_event (track_name track))"
    using length_encode_vlq [of 0] assms(2) by (simp_all add: name_event_def bytes_of_def track_fits_def)
  have "length data < 2 ^ 32"
    using n e nm length_wire_bytes [of 0 0 wes] by (simp add: data_def body_def)
  moreover obtain f where f: "length data = Suc f" "length wes < f"
    using nm e length_wire_bytes_ge [of wes 0 0]
    by (cases "length data") (simp_all add: data_def body_def)
  moreover have "read_events f 0 None body = Some (map wire_msg wes @ [end_msg 0 wes])"
    using read_wire_bytes [OF ordered _ ok f(2), of 0 0 None] by (simp add: body_def)
  ultimately have "read_track (mtrk_chunk data @ rest) = Some (track_msgs srt track, rest)"
    using assms(2) by (intro read_track_chunk)
      (simp_all add: data_def read_name_event emit_def track_fits_def track_msgs_def wes_def del: read_events.simps)
  then show ?thesis
    by (simp add: build_instrument_track_def data_def body_def wes_def track_wire_def Let_def)
qed

lemma read_instrument_tracks:
  assumes "std_sort wire_lt srt" and "list_all track_fits tracks"
  shows "read_tracks (length tracks) (concat (map (build_instrument_track srt) tracks)) =
         Some (map (track_msgs srt) tracks)"
  using assms(2) by (induction tracks) (simp_all add: read_instrument_track [OF assms(1)] emit_def)

lemma tempo_bytes:
  "ucast (drop_bit k v AND 0xFF) = (of_nat (unat v div 2 ^ k mod 256) :: u8)" for v :: u32
  unfolding word_unat_eq_iff byte_of_u32 by (simp add: unat_of_nat)

lemma read_tempo_track:
  "read_track (mtrk_chunk (tempo_events smf) @ rest) = Some (tempo_msgs smf, rest)"
proof (rule read_track_chunk)
  show "length (tempo_events smf) < 2 ^ 32" by (simp add: tempo_events_def)
  have "length (tempo_events smf) = Suc (Suc (Suc (Suc 21)))" by (simp add: tempo_events_def)
  then show "read_events (length (tempo_events smf)) 0 None (tempo_events smf) = Some (tempo_msgs smf)"
    using tempo_bytes [of 16 "tempo_us (smf_bpm smf)"] tempo_bytes [of 8 "tempo_us (smf_bpm smf)"]
      tempo_bytes [of 0 "tempo_us (smf_bpm smf)"]
    by (simp add: tempo_events_def tempo_msgs_def emit_def)
qed

subsection \<open>Files\<close>

lemma render_Some:
  "(word_of_int (smf_bpm smf) :: u32) \<noteq> 0 \<Longrightarrow>
   render srt smf =
     Some (bytes_of ''MThd'' @ write_be32 6 @ write_be16 1 @
           write_be16 (word_of_int (int (length (smf_tracks smf)) + 1)) @
           write_be16 (word_of_int (smf_ppq smf)) @ mtrk_chunk (tempo_events smf) @
           concat (map (build_instrument_track srt) (smf_tracks smf)))"
  by (simp add: render_def build_tempo_track_def Let_def)

lemma unat_u16_of_int_small: "0 \<le> n \<Longrightarrow> n < 65536 \<Longrightarrow> unat (word_of_int n :: u16) = nat n"
  by (simp add: unat_eq_nat_uint uint_word_of_int)

lemma word_of_int_pos: "0 < b \<Longrightarrow> b < 2 ^ 32 \<Longrightarrow> (word_of_int b :: u32) \<noteq> 0"
  by (simp add: word_of_int_eq_0_iff zdvd_not_zless)

lemma render_reads_back:
  assumes "std_sort wire_lt srt"
    and "0 < smf_bpm smf" "smf_bpm smf < 2 ^ 32" "0 \<le> smf_ppq smf" "smf_ppq smf < 2 ^ 16"
    and "length (smf_tracks smf) < 2 ^ 16 - 1" and "list_all track_fits (smf_tracks smf)"
  shows "\<exists>bytes. render srt smf = Some bytes \<and>
           read_smf bytes = Some (1, nat (smf_ppq smf),
                                  tempo_msgs smf # map (track_msgs srt) (smf_tracks smf))"
proof -
  have n: "unat (word_of_int (int (length (smf_tracks smf)) + 1) :: u16) = Suc (length (smf_tracks smf))"
    using assms(6) by (subst unat_u16_of_int_small) auto
  then have "unat (word_of_nat (length (smf_tracks smf)) + 1 :: u16) = Suc (length (smf_tracks smf))"
    by simp
  then show ?thesis
    using assms
    by (simp add: render_Some word_of_int_pos read_smf_def read_be32 read_be16
        unat_u16_of_int_small read_tempo_track read_instrument_tracks emit_def)
qed

text \<open>
  C3. Every composition that fits the format (a tempo, names under 128 characters, 7-bit
  velocities, a 16-bit division and track count) renders, and a reader of the SMF
  specification gets back from the bytes the format 1 header, the division, the tempo, time
  and key signature track, and for every track its name, all its note messages at their
  absolute ticks in the sorted order, and the end of track. Delta times, variable-length
  quantities, running status, chunk lengths and the track count are therefore all right, for
  whatever order \<open>std::sort\<close> gives to events the comparator does not distinguish.
\<close>

theorem render_roundtrip:
  assumes "std_sort wire_lt srt"
    and "0 < smf_bpm smf" "smf_bpm smf < 2 ^ 32" "0 \<le> smf_ppq smf" "smf_ppq smf < 2 ^ 16"
    and "length (smf_tracks smf) < 2 ^ 16 - 1" and "list_all track_fits (smf_tracks smf)"
  shows "\<exists>bytes. render srt smf = Some bytes \<and>
           read_smf bytes = Some (1, nat (smf_ppq smf),
                                  tempo_msgs smf # map (track_msgs srt) (smf_tracks smf))"
  by (rule render_reads_back [OF assms])

definition waltz :: smf_composition where
  "waltz = \<lparr>smf_ppq = 480, smf_bpm = 120, smf_key = ''G'', smf_scale = ''major'',
            time_sig_num = 3, time_sig_den = 4,
            smf_tracks = [\<lparr>track_name = ''Bass'',
              track_events = [make_event 0 480 40 90 1, make_event 480 960 43 80 1]\<rparr>]\<rparr>"

theorem render_roundtrip_witness:
  "\<exists>bytes. render (isort wire_lt) waltz = Some bytes \<and>
     read_smf bytes = Some (1, nat (smf_ppq waltz),
       tempo_msgs waltz # map (track_msgs (isort wire_lt)) (smf_tracks waltz))"
  by (rule render_roundtrip [OF wire.stable.std_sort_axioms])
    (simp_all add: waltz_def track_fits_def)

text \<open>
  The only composition that does not render is one whose tempo is 0 as an unsigned
  32-bit number: the division by the tempo traps there. Every other tempo gives a file.
\<close>

theorem render_traps_iff: "render srt smf = None \<longleftrightarrow> 2 ^ 32 dvd smf_bpm smf"
  by (simp add: render_def build_tempo_track_def Let_def word_of_int_eq_0_iff)

lemma unat_tempo_us:
  assumes "0 < b" "b < 2 ^ 31"
  shows "unat (tempo_us b) = nat (60000000 div b)"
proof -
  have "uint (word_of_int b :: u32) = b"
    using assms by (simp add: uint_word_of_int)
  then show ?thesis
    by (simp add: tempo_us_def unat_eq_nat_uint uint_div)
qed

text \<open>
  The tempo meta event carries the 60,000,000 / bpm microseconds of a quarter note
  exactly for tempi of at least 4; below, the quotient needs more than the three bytes
  written and the file plays at another tempo.
\<close>

theorem tempo_field_exact_iff:
  assumes "0 < smf_bpm smf" "smf_bpm smf < 2 ^ 31"
  shows "\<exists>body ms. tempo_msgs smf = (0, Meta 0x51 body) # ms \<and>
           (read_be 3 body = Some (nat (60000000 div smf_bpm smf), []) \<longleftrightarrow> 4 \<le> smf_bpm smf)"
proof -
  define q where "q = nat (60000000 div smf_bpm smf)"
  have "q < 16777216 \<longleftrightarrow> 4 \<le> smf_bpm smf"
  proof
    assume "4 \<le> smf_bpm smf"
    then have "60000000 div smf_bpm smf \<le> 60000000 div 4" by (intro zdiv_mono2) auto
    then show "q < 16777216" by (simp add: q_def)
  next
    assume "q < 16777216"
    moreover have "60000000 div 3 \<le> 60000000 div smf_bpm smf" if "smf_bpm smf \<le> 3"
      using that assms by (intro zdiv_mono2) auto
    ultimately show "4 \<le> smf_bpm smf" by (fastforce simp: q_def)
  qed
  moreover have "(q div 65536 mod 256 * 256 + q div 256 mod 256) * 256 + q mod 256 = q mod 16777216"
    using mod_mult2_eq [of q 256 65536] mod_mult2_eq [of "q div 256" 256 256]
    by (simp add: div_mult2_eq [symmetric])
  moreover have "q mod 16777216 = q \<longleftrightarrow> q < 16777216"
    by (metis mod_less mod_less_divisor zero_less_numeral)
  ultimately show ?thesis
    using assms by (simp add: tempo_msgs_def unat_tempo_us read_be_def unat_of_nat flip: q_def)
qed

theorem tempo_field_exact_iff_witness:
  "let smf = \<lparr>smf_ppq = 480, smf_bpm = 3, smf_key = ''C'', smf_scale = ''major'',
               time_sig_num = 4, time_sig_den = 4, smf_tracks = []\<rparr>
   in \<exists>body ms. tempo_msgs smf = (0, Meta 0x51 body) # ms \<and>
        read_be 3 body \<noteq> Some (20000000, [])"
  unfolding Let_def
  by (rule exE [OF tempo_field_exact_iff
        [of "\<lparr>smf_ppq = 480, smf_bpm = 3, smf_key = ''C'', smf_scale = ''major'',
               time_sig_num = 4, time_sig_den = 4, smf_tracks = []\<rparr>"]]) auto

text \<open>
  A note of no length is written with its note-off before its note-on, at the same tick:
  the comparator puts every note-off of a tick first, its own included, so the note is
  never released.
\<close>

theorem zero_length_note_reversed:
  assumes "std_sort wire_lt srt" and "tick_on ev = tick_off ev" and "unat (note_no ev) \<le> 127"
    and "track_events track = [ev]"
  shows "map is_note_off (track_wire srt track) = [True, False]"
proof -
  define w where "w = track_wire srt track"
  have pair: "note_pair ev = [hd (note_pair ev), last (note_pair ev)]"
    "\<not> is_note_off (hd (note_pair ev))" "is_note_off (last (note_pair ev))"
    "we_tick (hd (note_pair ev)) = tick_on ev" "we_tick (last (note_pair ev)) = tick_on ev"
    using assms(2,3) by (auto simp: note_pair_def word_less_nat_alt)
  then obtain x y where xy: "note_pair ev = [x, y]" "\<not> is_note_off x" "is_note_off y"
    "we_tick x = we_tick y" by metis
  have "mset w = {#x, y#}"
    using std_sort.sort_mset [OF assms(1)] by (simp add: w_def track_wire_def assms(4) xy(1))
  then have "w = [x, y] \<or> w = [y, x]"
    by (cases w; cases "tl w") (auto simp: add_eq_conv_diff split: if_splits)
  moreover have "w \<noteq> [x, y]"
    using std_sort.sort_ordered [OF assms(1), of "[x, y]"] xy
    by (auto simp: w_def track_wire_def assms(4) wire_lt_def)
  ultimately show ?thesis using xy by (auto simp: w_def)
qed

theorem zero_length_note_reversed_witness:
  "map is_note_off (track_wire (isort wire_lt)
     \<lparr>track_name = ''Lead'', track_events = [make_event 480 480 60 100 0]\<rparr>) = [True, False]"
  by (rule zero_length_note_reversed [OF wire.stable.std_sort_axioms,
        where ev = "make_event 480 480 60 100 0"]) simp_all

end
