(* ===== verification/Scale_Provider.thy ===== *)
theory Scale_Provider
  imports Prelude
begin

text \<open>
  Scales and modes (\<open>scales.cpp\<close>) and the interface \<open>IScaleProvider\<close> other engines receive: a
  lookup of interval tables by name and their transposition to a root.
\<close>

definition kMajor :: "int list" where "kMajor = [0, 2, 4, 5, 7, 9, 11]"
definition kMinor :: "int list" where "kMinor = [0, 2, 3, 5, 7, 8, 10]"
definition kHarmMinor :: "int list" where "kHarmMinor = [0, 2, 3, 5, 7, 8, 11]"
definition kMelMinor :: "int list" where "kMelMinor = [0, 2, 3, 5, 7, 9, 11]"
definition kPentMaj :: "int list" where "kPentMaj = [0, 2, 4, 7, 9]"
definition kPentMin :: "int list" where "kPentMin = [0, 3, 5, 7, 10]"
definition kBlues :: "int list" where "kBlues = [0, 3, 5, 6, 7, 10]"
definition kIonian :: "int list" where "kIonian = [0, 2, 4, 5, 7, 9, 11]"
definition kDorian :: "int list" where "kDorian = [0, 2, 3, 5, 7, 9, 10]"
definition kPhrygian :: "int list" where "kPhrygian = [0, 1, 3, 5, 7, 8, 10]"
definition kLydian :: "int list" where "kLydian = [0, 2, 4, 6, 7, 9, 11]"
definition kMixolydian :: "int list" where "kMixolydian = [0, 2, 4, 5, 7, 9, 10]"
definition kAeolian :: "int list" where "kAeolian = [0, 2, 3, 5, 7, 8, 10]"
definition kLocrian :: "int list" where "kLocrian = [0, 1, 3, 5, 6, 8, 10]"

lemmas scale_tables =
  kMajor_def kMinor_def kHarmMinor_def kMelMinor_def kPentMaj_def kPentMin_def kBlues_def
  kIonian_def kDorian_def kPhrygian_def kLydian_def kMixolydian_def kAeolian_def kLocrian_def

definition kScales :: "(string \<times> int list) list" where
  "kScales =
     [(''major'', kMajor), (''minor'', kMinor), (''harmonic_minor'', kHarmMinor),
      (''melodic_minor'', kMelMinor), (''pentatonic_major'', kPentMaj),
      (''pentatonic_minor'', kPentMin), (''blues'', kBlues),
      (''ionian'', kIonian), (''dorian'', kDorian), (''phrygian'', kPhrygian),
      (''lydian'', kLydian), (''mixolydian'', kMixolydian), (''aeolian'', kAeolian),
      (''locrian'', kLocrian)]"

definition intervals_of :: "string \<Rightarrow> int list" where
  "intervals_of name = (case map_of kScales name of Some ivs \<Rightarrow> ivs | None \<Rightarrow> [])"

definition intervals_for :: "string \<Rightarrow> int \<Rightarrow> int list" where
  "intervals_for name root_pc =
     (let base = intervals_of name in
      if base = [] then []
      else let pc = (root_pc smod 12 + 12) smod 12
           in map (\<lambda>iv. (iv + pc) smod 12) base)"

definition knows :: "string \<Rightarrow> bool" where
  "knows name \<longleftrightarrow> map_of kScales name \<noteq> None"

subsection \<open>The interface\<close>

text \<open>
  What a client of \<open>IScaleProvider\<close> may rely on: a scale is an ascending list of semitones
  from 0 within the octave, the transposed form is each interval plus the root modulo 12, and
  an unknown name gives the empty list in both.
\<close>

locale scale_provider =
  fixes of_name :: "string \<Rightarrow> int list"
    and for_root :: "string \<Rightarrow> int \<Rightarrow> int list"
    and known :: "string \<Rightarrow> bool"
  assumes unknown_empty: "known s \<longleftrightarrow> of_name s \<noteq> []"
    and ascending: "sorted_wrt (<) (of_name s)"
    and octave: "x \<in> set (of_name s) \<Longrightarrow> 0 \<le> x \<and> x < 12"
    and tonic: "known s \<Longrightarrow> hd (of_name s) = 0"
    and transposed: "for_root s r = map (\<lambda>iv. (iv + r) mod 12) (of_name s)"
begin

lemma root_first: "known s \<Longrightarrow> for_root s r \<noteq> [] \<and> hd (for_root s r) = r mod 12"
  using tonic unknown_empty by (simp add: transposed hd_map)

lemma pitch_classes: "x \<in> set (for_root s r) \<Longrightarrow> 0 \<le> x \<and> x < 12"
  by (auto simp: transposed)

lemma octave_invariant: "for_root s (r + 12 * k) = for_root s r"
proof -
  have "(x + (r + 12 * k)) mod 12 = (x + r) mod 12" for x
    using mod_mult_self1 [of "x + r" k 12] by (simp add: algebra_simps)
  then show ?thesis by (simp add: transposed)
qed

lemma distinct_degrees: "distinct (for_root s r)"
proof -
  have "inj_on (\<lambda>iv. (iv + r) mod 12) (set (of_name s))"
  proof (rule inj_onI)
    fix x y assume "x \<in> set (of_name s)" "y \<in> set (of_name s)" "(x + r) mod 12 = (y + r) mod 12"
    then have "x mod 12 = x" "y mod 12 = y" "12 dvd x - y"
      using octave by (auto simp: mod_eq_dvd_iff)
    then show "x = y" by (metis mod_eq_dvd_iff)
  qed
  moreover have "distinct (of_name s)" using ascending [of s] by (simp add: strict_sorted_iff)
  ultimately show ?thesis by (simp add: transposed distinct_map)
qed

end

lemma intervals_of_cases:
  "intervals_of s = [] \<and> \<not> knows s \<or> intervals_of s \<in> snd ` set kScales \<and> knows s"
  by (auto simp: intervals_of_def knows_def split: option.splits dest!: map_of_SomeD intro: rev_image_eqI)

lemma tables_ok:
  "ivs \<in> snd ` set kScales \<Longrightarrow>
   ivs \<noteq> [] \<and> hd ivs = 0 \<and> sorted_wrt (<) ivs \<and> (\<forall>x \<in> set ivs. 0 \<le> x \<and> x < 12)"
  by (auto simp: kScales_def scale_tables)

lemma intervals_for_eq: "intervals_for s r = map (\<lambda>iv. (iv + r) mod 12) (intervals_of s)"
proof -
  have "(iv + r mod 12) smod 12 = (iv + r) mod 12" if "iv \<in> set (intervals_of s)" for iv
  proof -
    have "0 \<le> iv" using that intervals_of_cases [of s] tables_ok [of "intervals_of s"] by auto
    then show ?thesis by (simp add: smod_nonneg_eq mod_add_right_eq)
  qed
  then show ?thesis by (simp add: intervals_for_def norm_mod_idiom Let_def)
qed

interpretation scales: scale_provider intervals_of intervals_for knows
proof
  fix s r x
  show "knows s \<longleftrightarrow> intervals_of s \<noteq> []"
    and "sorted_wrt (<) (intervals_of s)"
    and "x \<in> set (intervals_of s) \<Longrightarrow> 0 \<le> x \<and> x < 12"
    and "knows s \<Longrightarrow> hd (intervals_of s) = 0"
    using intervals_of_cases [of s] tables_ok [of "intervals_of s"] by auto
  show "intervals_for s r = map (\<lambda>iv. (iv + r) mod 12) (intervals_of s)"
    by (rule intervals_for_eq)
qed

text \<open>
  The transposed scale, for every root (negative ones and roots above 11 included): it is
  empty exactly for an unknown name; otherwise it starts at the root's pitch class, has the
  length of the table, and its degrees are distinct pitch classes in 0..11, each the
  interval plus the root modulo 12.
\<close>

theorem intervals_for_correct:
  "(intervals_for s r = [] \<longleftrightarrow> \<not> knows s) \<and>
   (knows s \<longrightarrow> hd (intervals_for s r) = r mod 12) \<and>
   intervals_for s r = map (\<lambda>iv. (iv + r) mod 12) (intervals_of s) \<and>
   distinct (intervals_for s r) \<and> set (intervals_for s r) \<subseteq> {0..<12} \<and>
   intervals_for s (r + 12 * k) = intervals_for s r"
proof (intro conjI)
  show "intervals_for s r = map (\<lambda>iv. (iv + r) mod 12) (intervals_of s)"
    by (rule intervals_for_eq)
  then show "intervals_for s r = [] \<longleftrightarrow> \<not> knows s"
    by (simp add: scales.unknown_empty)
  show "knows s \<longrightarrow> hd (intervals_for s r) = r mod 12"
    using scales.root_first by blast
  show "set (intervals_for s r) \<subseteq> {0..<12}"
    using scales.pitch_classes by fastforce
qed (rule scales.distinct_degrees scales.octave_invariant)+

theorem intervals_for_correct_witness:
  "knows ''major'' \<and> hd (intervals_for ''major'' (-5)) = 7 \<and>
   intervals_for ''major'' (-5) = [7, 9, 11, 0, 2, 4, 6]"
  using intervals_for_correct [of "''major''" "-5" 0]
  by (simp add: knows_def intervals_of_def kScales_def scale_tables)

definition church_modes :: "string list" where
  "church_modes = [''ionian'', ''dorian'', ''phrygian'', ''lydian'', ''mixolydian'', ''aeolian'', ''locrian'']"

text \<open>
  The church modes are what the source says they are, the rotations of the major scale:
  the \<open>i\<close>-th mode lists the major scale from its \<open>i\<close>-th degree, measured from that degree.
\<close>

theorem modes_are_rotations:
  "map intervals_of church_modes =
   map (\<lambda>i. map (\<lambda>x. (x - kMajor ! i) mod 12) (rotate i kMajor)) [0..<7]"
  by (simp add: church_modes_def intervals_of_def kScales_def scale_tables upt_rec rotate_def)

end
