(* ===== verification/Chord_Engine.thy ===== *)
theory Chord_Engine
  imports Midi_Types Scale_Provider
begin

text \<open>
  The chord engine (\<open>chord_engine.cpp\<close>): chord symbols become voiced ns with an inversion and
  a velocity drawn per chord. \<open>chord_voicer\<close> is the contract of \<open>IChordEngine\<close> that the
  harmony engine is proved against.
\<close>

definition kMaj :: "int list" where "kMaj = [0, 4, 7]"
definition kMin :: "int list" where "kMin = [0, 3, 7]"
definition kDom7 :: "int list" where "kDom7 = [0, 4, 7, 10]"
definition kMin7 :: "int list" where "kMin7 = [0, 3, 7, 10]"
definition kMaj7 :: "int list" where "kMaj7 = [0, 4, 7, 11]"
definition kHalfDim :: "int list" where "kHalfDim = [0, 3, 6, 10]"
definition kDim :: "int list" where "kDim = [0, 3, 6]"
definition kDim7 :: "int list" where "kDim7 = [0, 3, 6, 9]"

lemmas chord_tables = kMaj_def kMin_def kDom7_def kMin7_def kMaj7_def kHalfDim_def kDim_def kDim7_def

definition offsets_for :: "string \<Rightarrow> int list" where
  "offsets_for q =
     (if q = ''maj'' then kMaj
      else if q = ''min'' then kMin
      else if q = ''7'' then kDom7
      else if q = ''m7'' then kMin7
      else if q = ''maj7'' then kMaj7
      else if q = ''m7b5'' then kHalfDim
      else if q = ''dim'' then kDim
      else if q = ''dim7'' then kDim7
      else kMaj)"

definition apply_inversion :: "int list \<Rightarrow> int \<Rightarrow> int list" where
  "apply_inversion ns inv0 =
     (if ns = [] then []
      else let cnt = int (length ns);
               inv = (inv0 smod cnt + cnt) smod cnt
           in if inv = 0 then ns
              else let rotated = rotate (nat inv) ns;
                       pivot = length ns - nat inv
                   in take pivot rotated @ map (\<lambda>n. n - 12) (drop pivot rotated))"

definition voice_chord :: "chord_spec \<Rightarrow> mt19937_64 \<Rightarrow> midi_event list \<times> mt19937_64" where
  "voice_chord cs g =
     (let ns = map (\<lambda>off. 48 + (root_pc cs smod 12 + 12) smod 12 + off) (offsets_for (quality cs));
          (r, g1) = rng_mod 3 g;
          inverted = apply_inversion ns (int r);
          (v, g2) = rng_mod 51 g1;
          vel = (of_nat (50 + v) :: u8)
      in (map (\<lambda>n. make_event (start_tick cs) (start_tick cs + duration_ticks cs)
                    (word_of_int n) vel (cs_channel cs))
            (filter (\<lambda>n. \<not> (n < 0 \<or> n > 127)) inverted), g2))"

definition voicing :: "chord_request \<Rightarrow> midi_event list" where
  "voicing req = fst (for_each voice_chord (chords req) (mt_seed (req_seed req)))"

subsection \<open>Chord tables and inversions\<close>

lemma offsets_ok:
  "offsets_for q \<noteq> [] \<and> hd (offsets_for q) = 0 \<and> sorted_wrt (<) (offsets_for q) \<and>
   (\<forall>x \<in> set (offsets_for q). 0 \<le> x \<and> x \<le> 11) \<and> length (offsets_for q) \<in> {3, 4}"
  by (simp add: offsets_for_def chord_tables)

lemma apply_inversion_eq:
  fixes ns :: "int list" and inv0 :: int
  assumes "ns \<noteq> []"
  defines "k \<equiv> nat (inv0 mod int (length ns))"
  shows "apply_inversion ns inv0 = drop k ns @ map (\<lambda>n. n - 12) (take k ns)"
proof -
  have k: "k < length ns" and kk: "int k = inv0 mod int (length ns)"
    using assms by (simp_all add: nat_less_iff)
  have m: "k mod length ns = k" using k by simp
  show ?thesis
  proof (cases "k = 0")
    case True
    then show ?thesis using kk assms(1) by (simp add: apply_inversion_def norm_mod_idiom Let_def)
  next
    case False
    then show ?thesis
      using kk k assms(1)
      by (simp add: apply_inversion_def norm_mod_idiom Let_def rotate_drop_take m flip: kk)
  qed
qed

lemma pc_of_note: "(48 + r mod 12 + x) mod 12 = (r + x) mod (12 :: int)"
proof -
  have "(48 + r mod 12 + x) mod 12 = (r mod 12 + x + 4 * 12) mod 12" by (simp add: ac_simps)
  also have "\<dots> = (r + x) mod 12" by (simp only: mod_mult_self1 mod_add_left_eq)
  finally show ?thesis .
qed

lemma mset_inversion_pcs:
  "mset (map (\<lambda>n. n mod 12) (apply_inversion ns i)) = mset (map (\<lambda>n. n mod 12) ns)"
proof (cases "ns = []")
  case True
  then show ?thesis by (simp add: apply_inversion_def)
next
  case False
  define k where "k = nat (i mod int (length ns))"
  have "(n - 12) mod 12 = n mod 12" for n :: int by presburger
  then have "mset (map (\<lambda>n. n mod 12) (apply_inversion ns i)) =
      mset (map (\<lambda>n. n mod 12) (take k ns)) + mset (map (\<lambda>n. n mod 12) (drop k ns))"
    by (simp add: apply_inversion_eq [OF False] comp_def flip: k_def)
  also have "\<dots> = mset (map (\<lambda>n. n mod 12) (take k ns @ drop k ns))"
    by (simp only: map_append mset_append)
  finally show ?thesis by simp
qed

lemma inversion_range:
  "n \<in> set (apply_inversion ns i) \<Longrightarrow> n \<in> set ns \<or> n + 12 \<in> set ns"
  by (cases "ns = []")
    (auto simp: apply_inversion_def [of "[]"] apply_inversion_eq dest: in_set_takeD in_set_dropD)

subsection \<open>The contract of a voiced chord\<close>

definition chord_pcs :: "chord_spec \<Rightarrow> int multiset" where
  "chord_pcs cs = mset (map (\<lambda>off. (root_pc cs + off) mod 12) (offsets_for (quality cs)))"

definition chord_block :: "chord_spec \<Rightarrow> midi_event list \<Rightarrow> bool" where
  "chord_block cs blk \<longleftrightarrow>
     mset (map (\<lambda>e. int (unat (note_no e)) mod 12) blk) = chord_pcs cs \<and>
     (\<exists>v. 50 \<le> v \<and> v \<le> 100 \<and>
        list_all (\<lambda>e. unat (velocity e) = v \<and> tick_on e = start_tick cs \<and>
                      tick_off e = start_tick cs + duration_ticks cs \<and>
                      channel e = cs_channel cs \<and> note_in 36 70 e) blk)"

locale chord_voicer =
  fixes voice :: "chord_request \<Rightarrow> midi_event list"
  assumes voice_blocks:
    "\<exists>blocks. voice req = concat blocks \<and> list_all2 chord_block (chords req) blocks"
begin

lemma voice_events:
  "e \<in> set (voice req) \<Longrightarrow> \<exists>cs \<in> set (chords req). note_in 36 70 e \<and> vel_in 50 100 e \<and>
     tick_on e = start_tick cs \<and> tick_off e = start_tick cs + duration_ticks cs"
proof -
  assume e: "e \<in> set (voice req)"
  obtain blocks where b: "voice req = concat blocks" "list_all2 chord_block (chords req) blocks"
    using voice_blocks by blast
  with e obtain blk where "blk \<in> set blocks" "e \<in> set blk" by auto
  moreover from b(2) \<open>blk \<in> set blocks\<close> obtain cs where "cs \<in> set (chords req)" "chord_block cs blk"
    by (metis in_set_conv_nth list_all2_conv_all_nth)
  ultimately show ?thesis by (auto simp: chord_block_def list_all_iff vel_in_def)
qed

lemma voice_empty: "chords req = [] \<Longrightarrow> voice req = []"
  using voice_blocks [of req] by auto

end

lemma voice_chord_block: "chord_block cs (fst (voice_chord cs g))"
proof -
  obtain r g1 where r: "rng_mod 3 g = (r, g1)" by fastforce
  obtain v g2 where v: "rng_mod 51 g1 = (v, g2)" by fastforce
  have vb: "v < 51" using rng_mod_less [of 51 g1] v by simp
  define ns where "ns = map (\<lambda>off. 48 + root_pc cs mod 12 + off) (offsets_for (quality cs))"
  have nb: "48 \<le> n \<and> n \<le> 70" if "n \<in> set ns" for n
  proof -
    have "0 \<le> root_pc cs mod 12" "root_pc cs mod 12 \<le> 11" by simp_all
    then show ?thesis using that offsets_ok [of "quality cs"] unfolding ns_def by fastforce
  qed
  have ib: "36 \<le> n \<and> n \<le> 70" if "n \<in> set (apply_inversion ns i)" for n i
    using inversion_range [OF that] nb by fastforce
  have flt: "filter (\<lambda>n. \<not> (n < 0 \<or> n > 127)) (apply_inversion ns i) = apply_inversion ns i" for i
    using ib by (intro filter_True) fastforce
  have evs: "fst (voice_chord cs g) =
      map (\<lambda>n. make_event (start_tick cs) (start_tick cs + duration_ticks cs) (word_of_int n)
        (of_nat (50 + v)) (cs_channel cs)) (apply_inversion ns (int r))"
    using flt by (simp add: voice_chord_def norm_mod_idiom r v ns_def Let_def)
  have cast: "int (unat (word_of_int n :: u8)) = n" if "n \<in> set (apply_inversion ns (int r))" for n
    using ib [OF that] by (simp add: unat_u8_of_int_small)
  have "map (\<lambda>e. int (unat (note_no e)) mod 12) (fst (voice_chord cs g)) =
      map (\<lambda>n. n mod 12) (apply_inversion ns (int r))"
    using cast by (simp add: evs)
  moreover have "map (\<lambda>n. n mod 12) ns = map (\<lambda>off. (root_pc cs + off) mod 12) (offsets_for (quality cs))"
    by (simp add: ns_def pc_of_note)
  ultimately have "mset (map (\<lambda>e. int (unat (note_no e)) mod 12) (fst (voice_chord cs g))) = chord_pcs cs"
    by (simp add: mset_inversion_pcs chord_pcs_def del: mset_map)
  moreover have "note_in 36 70 e" if "e \<in> set (fst (voice_chord cs g))" for e
    using that ib cast unfolding evs by (fastforce simp: note_in_def unat_u8_of_int_small nat_le_iff)
  moreover have "unat (50 + word_of_nat v :: u8) = 50 + v"
    using unat_u8_of_nat_small [of "50 + v"] vb by simp
  ultimately show ?thesis
    unfolding chord_block_def list_all_iff using vb
    by (auto simp: evs intro!: exI [of _ "50 + v"])
qed

interpretation default_chords: chord_voicer voicing
  by unfold_locales (unfold voicing_def, rule for_each_blocks, rule voice_chord_block)

subsection \<open>Properties\<close>

text \<open>
  C6. Voicing a request: the events are one block per chord, in the order of the request.
  The pitch classes of a block are exactly those of the chord symbol (root plus the offsets of
  its quality, a major triad for an unknown quality), whatever inversion was drawn and
  whatever integer the root is; every note lies between MIDI 36 and 70, sounds exactly the
  chord's span on the chord's channel, and the block shares one velocity in 50..100. No
  note is dropped by the range test.
\<close>

theorem voicing_correct:
  "\<exists>blocks. voicing req = concat blocks \<and> list_all2 chord_block (chords req) blocks"
  by (rule default_chords.voice_blocks)

text \<open>
  What the inversions do to the lowest note. For a root-position chord, an inversion other than 0 moves the tones below the pivot down an octave, so the lowest
  note is again the root, an octave lower: no draw puts the third or the fifth in the bass.
\<close>

theorem inversion_keeps_root_in_bass:
  assumes "sorted ns" and "ns \<noteq> []"
  shows "Min (set (apply_inversion ns i)) =
         (if i mod int (length ns) = 0 then hd ns else hd ns - 12)"
proof -
  define k where "k = nat (i mod int (length ns))"
  have hd_le: "hd ns \<le> x" if "x \<in> set ns" for x
    using that assms(1) by (cases ns) auto
  have k0: "k = 0 \<longleftrightarrow> i mod int (length ns) = 0"
    using assms(2) by (simp add: k_def nat_eq_iff)
  have eq: "apply_inversion ns i = drop k ns @ map (\<lambda>n. n - 12) (take k ns)"
    unfolding k_def by (rule apply_inversion_eq [OF assms(2)])
  show ?thesis
  proof (cases "k = 0")
    case True
    then have "Min (set ns) = hd ns" using hd_le assms(2) by (intro Min_eqI) auto
    then show ?thesis using True k0 by (simp add: eq)
  next
    case False
    have "Min (set (apply_inversion ns i)) = hd ns - 12"
    proof (rule Min_eqI)
      show "hd ns - 12 \<in> set (apply_inversion ns i)"
        using False assms(2) unfolding eq by (cases ns; cases k) auto
      show "hd ns - 12 \<le> y" if "y \<in> set (apply_inversion ns i)" for y
        using that hd_le by (fastforce simp: eq dest: in_set_takeD in_set_dropD)
    qed simp
    then show ?thesis using False k0 by simp
  qed
qed

theorem inversion_keeps_root_in_bass_witness:
  "sorted [48, 52, 55 :: int] \<and> Min (set (apply_inversion [48, 52, 55] 1)) = 36"
  using inversion_keeps_root_in_bass [of "[48, 52, 55]" 1] by simp

end
