(* ===== verification/Harmony_Engine.thy ===== *)
theory Harmony_Engine
  imports Chord_Engine
begin

text \<open>
  The harmony engine (\<open>harmony.cpp\<close>): a II-V-I-I progression, one chord per bar, voiced by the
  chord engine it was given. The two injected engines are arguments; a null pointer is \<open>None\<close>.
\<close>

record harmony_request =
  hr_root_key :: string
  hr_scale :: string
  hr_bars :: int
  hr_seed :: u64

definition key_table :: "(string \<times> int) list" where
  "key_table =
     [(''C'', 0), (''C#'', 1), (''Db'', 1), (''D'', 2), (''D#'', 3), (''Eb'', 3),
      (''E'', 4), (''F'', 5), (''F#'', 6), (''Gb'', 6), (''G'', 7), (''G#'', 8),
      (''Ab'', 8), (''A'', 9), (''A#'', 10), (''Bb'', 10), (''B'', 11)]"

definition parse_root_pc :: "string \<Rightarrow> int" where
  "parse_root_pc root_key = (case map_of key_table root_key of Some pc \<Rightarrow> pc | None \<Rightarrow> 0)"

definition kIIVIPattern :: "(int \<times> string) list" where
  "kIIVIPattern = [(2, ''m7''), (7, ''7''), (0, ''maj7''), (0, ''maj7'')]"

definition harmony_spec :: "int \<Rightarrow> chord_spec" where
  "harmony_spec bar =
     (let ticks_per_bar = (of_nat kPpq :: u32) * 4;
          slot = kIIVIPattern ! nat (bar smod 4)
      in \<lparr>start_tick = word_of_int bar * ticks_per_bar, duration_ticks = ticks_per_bar,
          root_pc = fst slot, quality = snd slot, cs_channel = 0\<rparr>)"

text \<open>The root and the scale (major as the fallback) are looked up and not used further.\<close>

definition harmony_generate ::
  "(string \<Rightarrow> int list) option \<Rightarrow> (chord_request \<Rightarrow> midi_event list) option \<Rightarrow>
   harmony_request \<Rightarrow> midi_event list" where
  "harmony_generate sp ce req =
     (if hr_bars req < 1 then []
      else let root = parse_root_pc (hr_root_key req);
               ivs = (case sp of None \<Rightarrow> []
                      | Some look \<Rightarrow> if look (hr_scale req) = [] then look ''major'' else look (hr_scale req));
               specs = map harmony_spec [0 .. hr_bars req - 1]
           in case ce of
                None \<Rightarrow> []
              | Some voice \<Rightarrow>
                  voice \<lparr>chords = specs, req_seed = hr_seed req, req_ppq = of_nat kPpq\<rparr>)"

definition make_harmony_engine ::
  "(string \<Rightarrow> int list) option \<Rightarrow> (chord_request \<Rightarrow> midi_event list) option \<Rightarrow>
   harmony_request \<Rightarrow> midi_event list" where
  "make_harmony_engine sp ce =
     harmony_generate sp (Some (case ce of None \<Rightarrow> voicing | Some voice \<Rightarrow> voice))"

subsection \<open>The progression\<close>

lemma harmony_spec_bar:
  "start_tick (harmony_spec b) = word_of_int b * 1920" "duration_ticks (harmony_spec b) = 1920"
  "cs_channel (harmony_spec b) = 0"
  by (simp_all add: harmony_spec_def kPpq_def Let_def)

definition bar_block :: "int \<Rightarrow> midi_event list \<Rightarrow> bool" where
  "bar_block b blk \<longleftrightarrow>
     mset (map (\<lambda>e. int (unat (note_no e)) mod 12) blk) =
       (if b mod 4 = 0 then {#2, 5, 9, 0#} else if b mod 4 = 1 then {#7, 11, 2, 5#}
        else {#0, 4, 7, 11#}) \<and>
     list_all (\<lambda>e. tick_on e = word_of_int b * 1920 \<and> tick_off e = word_of_int (b + 1) * 1920 \<and>
                   channel e = 0 \<and> note_in 36 70 e \<and> vel_in 50 100 e) blk"

lemma chord_block_bar:
  assumes "0 \<le> b" and "chord_block (harmony_spec b) blk"
  shows "bar_block b blk"
proof -
  have "0 \<le> b mod 4" "b mod 4 < 4" by simp_all
  then consider "b mod 4 = 0" | "b mod 4 = 1" | "b mod 4 = 2" | "b mod 4 = 3" by linarith
  then have "chord_pcs (harmony_spec b) =
      (if b mod 4 = 0 then {#2, 5, 9, 0#} else if b mod 4 = 1 then {#7, 11, 2, 5#}
       else {#0, 4, 7, 11#})"
    using assms(1)
    by cases (simp_all add: chord_pcs_def harmony_spec_def kIIVIPattern_def smod_nonneg_eq
        offsets_for_def chord_tables Let_def)
  moreover have "word_of_int b * 1920 + 1920 = (word_of_int (b + 1) * 1920 :: u32)"
    by (simp add: algebra_simps)
  ultimately show ?thesis
    using assms(2) unfolding chord_block_def bar_block_def list_all_iff vel_in_def
    by (auto simp: harmony_spec_bar)
qed

context chord_voicer
begin

text \<open>Whatever voicer is injected, its contract gives the progression.\<close>

lemma harmony_bars:
  assumes "1 \<le> hr_bars req"
  shows "\<exists>blocks. harmony_generate sp (Some voice) req = concat blocks \<and>
           list_all2 bar_block [0 .. hr_bars req - 1] blocks"
proof -
  define creq where "creq = \<lparr>chords = map harmony_spec [0 .. hr_bars req - 1],
    req_seed = hr_seed req, req_ppq = of_nat kPpq\<rparr>"
  obtain blocks where b: "voice creq = concat blocks" "list_all2 chord_block (chords creq) blocks"
    using voice_blocks by blast
  have "list_all2 bar_block [0 .. hr_bars req - 1] blocks"
    using b(2) unfolding creq_def
    by (auto simp: list_all2_map1 list_all2_conv_all_nth intro!: chord_block_bar)
  then show ?thesis
    using b(1) assms by (auto simp: harmony_generate_def creq_def Let_def)
qed

end

text \<open>
  Harmony for any number of bars: no bars give no events; otherwise there is one block per
  bar, and bar \<open>b\<close> holds exactly the four chord tones of its slot of II-V-I-I (Dm7, G7, Cmaj7,
  Cmaj7), every note sounding from the start of bar \<open>b\<close> to the start of bar \<open>b + 1\<close> on
  channel 0. The default chord engine is used when none is given.
\<close>

theorem harmony_two_five_one:
  "\<exists>blocks. make_harmony_engine sp None req = concat blocks \<and>
     list_all2 bar_block [0 .. hr_bars req - 1] blocks"
proof (cases "1 \<le> hr_bars req")
  case True
  then show ?thesis using default_chords.harmony_bars by (simp add: make_harmony_engine_def)
next
  case False
  then show ?thesis by (simp add: make_harmony_engine_def harmony_generate_def)
qed

end
