(* ===== verification/Drum_Engine.thy ===== *)
theory Drum_Engine
  imports Midi_Types
begin

text \<open>
  The drum engine (\<open>drum_engine.cpp\<close>): one bar per chord, every fourth bar a fill, otherwise one
  of four grooves drawn from a random engine seeded with the style's seed and the bar's
  number. A groove is the sequence of calls the source makes to its local lambdas.
\<close>

record drum_style =
  ds_seed :: int
  use_ghosts :: bool
  use_open_hh :: bool

definition kKick :: u8 where "kKick = 36"
definition kSnare :: u8 where "kSnare = 38"
definition kClosedHH :: u8 where "kClosedHH = 42"
definition kOpenHH :: u8 where "kOpenHH = 46"
definition kDrumChannel :: u8 where "kDrumChannel = 9"
definition kNoteDuration :: u32 where "kNoteDuration = 60"

lemmas drum_consts = kKick_def kSnare_def kClosedHH_def kOpenHH_def kDrumChannel_def kNoteDuration_def

definition make_drum :: "u32 \<Rightarrow> u8 \<Rightarrow> u8 \<Rightarrow> midi_event" where
  "make_drum tick n vel = make_event tick (tick + kNoteDuration) n vel kDrumChannel"

datatype drum_call = AddKick u32 u8 | AddSnare u32 u8 | AddHH u32 bool | AddGhostSnare u32

fun run_drum_call ::
  "drum_style \<Rightarrow> u32 \<Rightarrow> drum_call \<Rightarrow> mt19937_64 \<Rightarrow> midi_event list \<times> mt19937_64" where
  "run_drum_call style bar_start (AddKick t vel) g = ([make_drum (bar_start + t) kKick vel], g)"
| "run_drum_call style bar_start (AddSnare t vel) g = ([make_drum (bar_start + t) kSnare vel], g)"
| "run_drum_call style bar_start (AddHH t op) g =
     (let (r, g1) = rng_mod 20 g
      in ([make_drum (bar_start + t) (if op then kOpenHH else kClosedHH) (of_nat (60 + r))], g1))"
| "run_drum_call style bar_start (AddGhostSnare t) g =
     (if use_ghosts style then
        let (r, g1) = rng_mod 2 g
        in if r = 0 then
             let (r', g2) = rng_mod 11 g1
             in ([make_drum (bar_start + t) kSnare (of_nat (25 + r'))], g2)
           else ([], g1)
      else ([], g))"

definition drum_fill :: "u32 \<Rightarrow> midi_event list" where
  "drum_fill bar_start =
     [make_drum (bar_start + 1440) kKick 80, make_drum (bar_start + 1560) kSnare 75,
      make_drum (bar_start + 1680) kKick 80, make_drum (bar_start + 1800) kSnare 75]"

definition drum_groove :: "drum_style \<Rightarrow> nat \<Rightarrow> drum_call list" where
  "drum_groove style variation =
     (if variation = 0 then
        [AddKick 0 100, AddHH 0 False, AddSnare 480 90, AddHH 480 False, AddGhostSnare 600,
         AddKick 960 95, AddHH 960 False, AddSnare 1440 90, AddHH 1440 False, AddGhostSnare 1560]
      else if variation = 1 then
        [AddKick 0 100, AddHH 0 False, AddSnare 480 90, AddHH 480 False, AddGhostSnare 600,
         AddKick 960 95, AddHH 960 False, AddKick 1200 80, AddSnare 1440 90, AddHH 1440 False,
         AddGhostSnare 1560]
      else if variation = 2 then
        [AddKick 0 100, AddHH 0 False, AddSnare 480 90, AddHH 480 False, AddGhostSnare 600,
         AddKick 960 95, AddSnare 720 70, AddHH 960 False, AddSnare 1440 90, AddHH 1440 False,
         AddGhostSnare 1560]
      else if variation = 3 then
        [AddKick 0 100, AddHH 0 False, AddSnare 480 90, AddHH 480 False, AddGhostSnare 600,
         AddKick 960 95, AddHH 960 False, AddSnare 1440 90, AddHH 1440 (use_open_hh style),
         AddGhostSnare 1560]
      else [])"

definition drum_bar :: "drum_style \<Rightarrow> nat \<Rightarrow> chord_spec \<Rightarrow> midi_event list" where
  "drum_bar style bar_idx chord =
     (let bar_start = start_tick chord;
          (variation, g) = rng_mod 4 (mt_seed (word_of_int (ds_seed style) XOR of_nat bar_idx))
      in if bar_idx mod 4 = 3 then drum_fill bar_start
         else fst (for_each (run_drum_call style bar_start) (drum_groove style variation) g))"

definition drum_generate :: "chord_request \<Rightarrow> drum_style \<Rightarrow> midi_event list" where
  "drum_generate req style =
     concat (map (\<lambda>(bar_idx, chord). drum_bar style bar_idx chord) (enumerate 0 (chords req)))"

subsection \<open>What a call of a groove can push\<close>

definition drum_ok :: "drum_style \<Rightarrow> u32 \<Rightarrow> midi_event \<Rightarrow> bool" where
  "drum_ok style bar_start e \<longleftrightarrow>
     channel e = 9 \<and> note_no e \<in> {36, 38, 42, 46} \<and> vel_in 25 100 e \<and>
     tick_off e = tick_on e + 60 \<and>
     (\<exists>t. unat t \<le> 1800 \<and> 120 dvd unat t \<and> tick_on e = bar_start + t) \<and>
     (note_no e = 46 \<longrightarrow> use_open_hh style) \<and>
     (unat (velocity e) < 60 \<longrightarrow> use_ghosts style \<and> note_no e = 38)"

fun call_ok :: "drum_style \<Rightarrow> drum_call \<Rightarrow> bool" where
  "call_ok style (AddKick t v) = (unat t \<le> 1800 \<and> 120 dvd unat t \<and> 60 \<le> unat v \<and> unat v \<le> 100)"
| "call_ok style (AddSnare t v) = (unat t \<le> 1800 \<and> 120 dvd unat t \<and> 60 \<le> unat v \<and> unat v \<le> 100)"
| "call_ok style (AddHH t op) = (unat t \<le> 1800 \<and> 120 dvd unat t \<and> (op \<longrightarrow> use_open_hh style))"
| "call_ok style (AddGhostSnare t) = (unat t \<le> 1800 \<and> 120 dvd unat t)"

lemma drum_draw:
  fixes g :: mt19937_64
  defines "hh \<equiv> unat (60 + word_of_nat (fst (rng_mod 20 g)) :: u8)"
    and "ghost \<equiv> unat (25 + word_of_nat (fst (rng_mod 11 g)) :: u8)"
  shows "25 \<le> hh" "hh \<le> 100" "\<not> hh < 60" "25 \<le> ghost" "ghost \<le> 100"
  using mt.draw_byte_bounds [of 20 60 g] mt.draw_byte_bounds [of 11 25 g]
  by (simp_all add: hh_def ghost_def)

lemma run_drum_call_ok:
  "call_ok style c \<Longrightarrow> list_all (drum_ok style bs) (fst (run_drum_call style bs c g))"
  by (cases "(style, bs, c, g)" rule: run_drum_call.cases)
    (auto simp: drum_ok_def make_drum_def drum_consts split_beta Let_def vel_in_def drum_draw)

lemma drum_groove_ok: "list_all (call_ok style) (drum_groove style v)"
  by (simp add: drum_groove_def)

lemma drum_bar_ok: "list_all (drum_ok style (start_tick chord)) (drum_bar style i chord)"
proof (cases "i mod 4 = 3")
  case True
  have "\<exists>t. unat t \<le> 1800 \<and> 120 dvd unat t \<and> bs + c = bs + t" if "unat c \<le> 1800" "120 dvd unat c"
    for bs c :: u32 using that by blast
  then show ?thesis
    using True by (simp add: drum_bar_def drum_fill_def drum_ok_def make_drum_def drum_consts
        vel_in_def split_beta Let_def)
next
  case False
  then show ?thesis
    using drum_groove_ok unfolding drum_bar_def
    by (auto simp: split_beta Let_def list_all_iff intro!: for_each_all [unfolded list_all_iff]
        run_drum_call_ok [unfolded list_all_iff, rule_format])
qed

lemma in_drum_generate:
  "e \<in> set (drum_generate req style) \<longleftrightarrow>
   (\<exists>i < length (chords req). e \<in> set (drum_bar style i (chords req ! i)))"
  by (force simp: drum_generate_def in_set_enumerate_eq)

text \<open>
  Every drum event is playable on the drum channel: it is a kick, snare, closed or open
  hi-hat on channel 9 lasting 60 ticks, it starts on the 120-tick grid of the bar of some
  chord, its velocity is in 25..100; an open hi-hat only comes with \<open>use_open_hh\<close>, and a
  velocity under 60 only as a ghost snare with \<open>use_ghosts\<close>.
\<close>

theorem drum_events_ok:
  "\<forall>e \<in> set (drum_generate req style). \<exists>i < length (chords req).
     drum_ok style (start_tick (chords req ! i)) e"
proof
  fix e assume "e \<in> set (drum_generate req style)"
  then obtain i where i: "i < length (chords req)" and "e \<in> set (drum_bar style i (chords req ! i))"
    unfolding in_drum_generate by blast
  then have "drum_ok style (start_tick (chords req ! i)) e"
    using drum_bar_ok by (auto simp: list_all_iff)
  with i show "\<exists>i < length (chords req). drum_ok style (start_tick (chords req ! i)) e" by blast
qed

definition two_bars :: chord_request where
  "two_bars = \<lparr>chords = [\<lparr>start_tick = 0, duration_ticks = 1920, root_pc = 0, quality = ''maj'', cs_channel = 0\<rparr>,
                        \<lparr>start_tick = 1920, duration_ticks = 1920, root_pc = 7, quality = ''7'', cs_channel = 0\<rparr>],
              req_seed = 0, req_ppq = 480\<rparr>"

lemma groove_kick: "v < 4 \<Longrightarrow> AddKick 0 100 \<in> set (drum_groove style v)"
  and groove_snares: "v < 4 \<Longrightarrow> AddSnare 480 90 \<in> set (drum_groove style v)"
    "v < 4 \<Longrightarrow> AddSnare 1440 90 \<in> set (drum_groove style v)"
  by (auto simp: drum_groove_def)

lemma groove_plays:
  assumes "i mod 4 \<noteq> 3" and "\<And>v. v < 4 \<Longrightarrow> c \<in> set (drum_groove style v)"
    and "\<And>g. e \<in> set (fst (run_drum_call style (start_tick chord) c g))"
  shows "e \<in> set (drum_bar style i chord)"
  using assms rng_mod_less [of 4]
  by (auto simp: drum_bar_def split_beta Let_def intro!: for_each_memI [of c])

text \<open>
  The shape of a bar. Three bars out of four have the backbeat, whatever was drawn: a kick
  of velocity 100 on the first beat and snares of velocity 90 on the second and the fourth;
  every fourth bar is the fill of two kicks and two snares in its last beat and nothing else.
\<close>

theorem drum_backbeat:
  "(i mod 4 \<noteq> 3 \<longrightarrow>
      make_drum (start_tick chord) 36 100 \<in> set (drum_bar style i chord) \<and>
      make_drum (start_tick chord + 480) 38 90 \<in> set (drum_bar style i chord) \<and>
      make_drum (start_tick chord + 1440) 38 90 \<in> set (drum_bar style i chord)) \<and>
   (i mod 4 = 3 \<longrightarrow> drum_bar style i chord = drum_fill (start_tick chord))"
proof (intro conjI impI)
  assume i: "i mod 4 \<noteq> 3"
  show "make_drum (start_tick chord) 36 100 \<in> set (drum_bar style i chord)"
    by (rule groove_plays [OF i groove_kick]) (simp_all add: drum_consts)
  show "make_drum (start_tick chord + 480) 38 90 \<in> set (drum_bar style i chord)"
    by (rule groove_plays [OF i groove_snares(1)]) (simp_all add: drum_consts)
  show "make_drum (start_tick chord + 1440) 38 90 \<in> set (drum_bar style i chord)"
    by (rule groove_plays [OF i groove_snares(2)]) (simp_all add: drum_consts)
qed (simp add: drum_bar_def split_beta Let_def)

theorem drum_backbeat_witness:
  "(1::nat) mod 4 \<noteq> 3 \<and>
   make_drum (1920 + 480) 38 90 \<in>
     set (drum_bar \<lparr>ds_seed = 7, use_ghosts = True, use_open_hh = False\<rparr> 1 (chords two_bars ! 1))"
  using drum_backbeat [of 1 "chords two_bars ! 1" "\<lparr>ds_seed = 7, use_ghosts = True, use_open_hh = False\<rparr>"]
  by (simp add: two_bars_def)

theorem drum_events_ok_witness:
  "make_drum (0 + 480) 38 90 \<in> set (drum_generate two_bars \<lparr>ds_seed = 7, use_ghosts = True, use_open_hh = False\<rparr>) \<and>
   (\<exists>i < length (chords two_bars). drum_ok \<lparr>ds_seed = 7, use_ghosts = True, use_open_hh = False\<rparr>
      (start_tick (chords two_bars ! i)) (make_drum (0 + 480) 38 90))"
proof -
  have "make_drum (0 + 480) 38 90 \<in> set (drum_bar \<lparr>ds_seed = 7, use_ghosts = True, use_open_hh = False\<rparr> 0 (chords two_bars ! 0))"
    by (rule groove_plays [OF _ groove_snares(1)]) (simp_all add: drum_consts two_bars_def)
  then have "make_drum (0 + 480) 38 90 \<in> set (drum_generate two_bars \<lparr>ds_seed = 7, use_ghosts = True, use_open_hh = False\<rparr>)"
    unfolding in_drum_generate by (intro exI [of _ 0]) (simp add: two_bars_def)
  then show ?thesis using drum_events_ok by blast
qed

end
