(* ===== verification/Bass_Engine.thy ===== *)
theory Bass_Engine
  imports Midi_Types
begin

text \<open>
  The bass engine (\<open>bass_engine.cpp\<close>): per chord one of four patterns drawn from a random engine
  seeded with the request's seed and the chord's number.
\<close>

record bass_style =
  bs_seed :: int
  use_octave_jump :: bool

definition kBassRootMidi :: int where "kBassRootMidi = 24"
definition kBassMaxMidi :: int where "kBassMaxMidi = 60"

definition root_midi :: "int \<Rightarrow> int" where
  "root_midi root = kBassRootMidi + root smod 12"

definition fifth_midi :: "int \<Rightarrow> int" where
  "fifth_midi root = min (kBassRootMidi + root + 7) kBassMaxMidi"

definition walking_note :: "int \<Rightarrow> nat \<Rightarrow> int" where
  "walking_note root choice =
     (let base = kBassRootMidi + root smod 12;
          n0 = (if choice = 0 then base else if choice = 1 then base + 2
                else if choice = 2 then base + 3 else base + 7);
          n = (if n0 < kBassRootMidi then n0 + 12 else n0)
      in min n kBassMaxMidi)"

text \<open>
  \<open>beat_note\<close> is one \<open>make_note\<close> of a pattern: start \<open>beat\<close> quarters after the chord's start, in
  32-bit unsigned arithmetic, channel 0.
\<close>

definition beat_note :: "u32 \<Rightarrow> int \<Rightarrow> int \<Rightarrow> int \<Rightarrow> int \<Rightarrow> u8 \<Rightarrow> midi_event" where
  "beat_note start ppq beat dur n vel =
     (let on = start + word_of_int (ppq * beat)
      in make_event on (on + word_of_int dur) (word_of_int n) vel 0)"

definition bass_bar :: "u64 \<Rightarrow> u32 \<Rightarrow> nat \<Rightarrow> chord_spec \<Rightarrow> midi_event list" where
  "bass_bar seed ppq_u i cs =
     (let (pat, g1) = rng_mod 4 (mt_seed (seed XOR of_nat i));
          ppq = sint ppq_u;
          root_dur = ppq - 10;
          fifth_dur = ppq sdiv 2 - 5;
          (rv, g2) = rng_mod 51 g1;
          root_vel = (of_nat (50 + rv) :: u8);
          (fv, g3) = rng_mod 26 g2;
          fifth_vel = (of_nat (50 + fv) :: u8);
          at = beat_note (start_tick cs) ppq;
          root = root_midi (root_pc cs);
          fifth = fifth_midi (root_pc cs)
      in if pat = 0 then map (\<lambda>beat. at beat root_dur root root_vel) [0, 1, 2, 3]
         else if pat = 1 then
           [at 0 root_dur root root_vel, at 1 fifth_dur fifth fifth_vel,
            at 2 root_dur root root_vel, at 3 root_dur root root_vel]
         else if pat = 2 then
           (let (c1, g4) = rng_mod 4 g3;
                w1 = walking_note (root_pc cs) c1;
                (c3, g5) = rng_mod 4 g4;
                w3 = walking_note (root_pc cs) c3
            in [at 0 root_dur root root_vel, at 1 root_dur w1 root_vel,
                at 2 root_dur root root_vel, at 3 root_dur w3 root_vel])
         else
           [at 0 root_dur root root_vel, at 1 fifth_dur fifth fifth_vel,
            at 2 root_dur root root_vel])"

definition bass_generate :: "chord_request \<Rightarrow> bass_style \<Rightarrow> midi_event list" where
  "bass_generate req style =
     concat (map (\<lambda>(i, cs). bass_bar (req_seed req) (req_ppq req) i cs) (enumerate 0 (chords req)))"

subsection \<open>Bounds\<close>

lemma root_midi_bounds: "0 \<le> r \<Longrightarrow> r < 12 \<Longrightarrow> root_midi r = 24 + r"
  by (simp add: root_midi_def kBassRootMidi_def smod_nonneg_eq)

lemma fifth_midi_bounds: "0 \<le> r \<Longrightarrow> r < 12 \<Longrightarrow> fifth_midi r = 31 + r"
  by (simp add: fifth_midi_def kBassRootMidi_def kBassMaxMidi_def)

lemma walking_note_bounds:
  "0 \<le> r \<Longrightarrow> r < 12 \<Longrightarrow> 24 + r \<le> walking_note r c \<and> walking_note r c \<le> 31 + r"
  by (simp add: walking_note_def kBassRootMidi_def kBassMaxMidi_def smod_nonneg_eq Let_def)

text \<open>The contract of one note of the line, the \<open>k\<close>-th of its bar.\<close>

definition bass_note_ok :: "u32 \<Rightarrow> chord_spec \<Rightarrow> nat \<Rightarrow> midi_event \<Rightarrow> bool" where
  "bass_note_ok ppq cs k e \<longleftrightarrow>
     tick_on e = start_tick cs + of_nat k * ppq \<and>
     tick_off e - tick_on e \<in> {ppq - 10, ppq div 2 - 5} \<and>
     note_in 24 42 e \<and> vel_in 50 100 e \<and> channel e = 0 \<and>
     (even k \<longrightarrow> unat (note_no e) = nat (24 + root_pc cs))"

lemma beat_note_ok:
  assumes "unat p < 2 ^ 31" "0 \<le> n" "n < 256"
  shows "tick_on (beat_note s (sint p) (int k) d n v) = s + of_nat k * p"
    and "tick_off (beat_note s (sint p) (int k) d n v) =
         tick_on (beat_note s (sint p) (int k) d n v) + word_of_int d"
    and "unat (note_no (beat_note s (sint p) (int k) d n v)) = nat n"
    and "velocity (beat_note s (sint p) (int k) d n v) = v"
    and "channel (beat_note s (sint p) (int k) d n v) = 0"
  using assms by (simp_all add: beat_note_def Let_def unat_u8_of_int_small mult.commute)

lemma bass_durations:
  assumes "unat (p :: u32) < 2 ^ 31"
  shows "word_of_int (sint p - 10) = p - 10" and "word_of_int (sint p sdiv 2) = p div 2"
proof -
  have "word_of_int (uint p div 2) = p div 2" by (simp add: word_div_def)
  then show "word_of_int (sint p sdiv 2) = p div 2"
    using assms by (simp add: sint_small sdiv_nonneg_eq)
qed simp

lemma all_beats:
  "(\<forall>k < Suc (Suc (Suc (Suc 0))). Q k) \<longleftrightarrow> Q 0 \<and> Q (Suc 0) \<and> Q 2 \<and> Q 3"
  "(\<forall>k < Suc (Suc (Suc 0)). Q k) \<longleftrightarrow> Q 0 \<and> Q (Suc 0) \<and> Q 2"
  by (auto simp: less_Suc_eq numeral_eq_Suc)

lemma bass_bar_ok:
  assumes "unat p < 2 ^ 31" and "0 \<le> root_pc cs" "root_pc cs < 12"
  shows "length (bass_bar seed p i cs) \<in> {3, 4} \<and>
         (\<forall>k < length (bass_bar seed p i cs). bass_note_ok p cs k (bass_bar seed p i cs ! k))"
proof -
  have step: "bass_note_ok p cs k (beat_note (start_tick cs) (sint p) (int k) d n v)"
    if "word_of_int d \<in> {p - 10, p div 2 - 5}" "24 \<le> n" "n \<le> 42" "even k \<longrightarrow> n = 24 + root_pc cs"
      "50 \<le> unat v" "unat v \<le> 100" for k d n v
    using that beat_note_ok [OF assms(1), of n "start_tick cs" k d v]
    unfolding bass_note_ok_def note_in_def vel_in_def by auto
  obtain pat g1 where pat: "rng_mod 4 (mt_seed (seed XOR of_nat i)) = (pat, g1)" by fastforce
  obtain rv g2 where rv: "rng_mod 51 g1 = (rv, g2)" by fastforce
  obtain fv g3 where fv: "rng_mod 26 g2 = (fv, g3)" by fastforce
  obtain c1 g4 where c1: "rng_mod 4 g3 = (c1, g4)" by fastforce
  obtain c3 g5 where c3: "rng_mod 4 g4 = (c3, g5)" by fastforce
  have rb: "50 \<le> unat (of_nat (50 + rv) :: u8)" "unat (of_nat (50 + rv) :: u8) \<le> 100"
    using mt.draw_byte_bounds [of 51 50 g1] rv by simp_all
  have fb: "50 \<le> unat (of_nat (50 + fv) :: u8)" "unat (of_nat (50 + fv) :: u8) \<le> 100"
    using mt.draw_byte_bounds [of 26 50 g2] fv by simp_all
  note bounds = root_midi_bounds [OF assms(2,3)] fifth_midi_bounds [OF assms(2,3)]
    bass_durations [OF assms(1)]
  have w: "24 \<le> walking_note (root_pc cs) c \<and> walking_note (root_pc cs) c \<le> 42" for c
    using walking_note_bounds [OF assms(2,3), of c] assms(2,3) by simp
  define rn where "rn = (\<lambda>k. beat_note (start_tick cs) (sint p) (int k) (sint p - 10)
    (root_midi (root_pc cs)) (of_nat (50 + rv)))"
  have root: "bass_note_ok p cs k (rn k)" for k
    unfolding rn_def using rb assms(2,3) by (intro step) (simp_all add: bounds)
  have fifth: "bass_note_ok p cs 1 (beat_note (start_tick cs) (sint p) (int 1) (sint p sdiv 2 - 5)
    (fifth_midi (root_pc cs)) (of_nat (50 + fv)))"
    using fb assms(2,3) by (intro step) (simp_all add: bounds)
  have walk: "bass_note_ok p cs k (beat_note (start_tick cs) (sint p) (int k) (sint p - 10)
    (walking_note (root_pc cs) c) (of_nat (50 + rv)))" if "odd k" for k c
    using rb w that by (intro step) (simp_all add: bounds)
  show ?thesis
    using root [of 0] root [of 1] root [of 2] root [of 3] fifth walk [of 1 c1] walk [of 3 c3]
    by (simp add: bass_bar_def pat rv fv c1 c3 Let_def all_beats rn_def)
qed

text \<open>
  The bass line, for chord roots given as pitch classes 0..11 and a division below 2^31:
  every bar has three or four notes, the \<open>k\<close>-th starting on beat \<open>k\<close> and ending before the next
  beat (a gap of 10 ticks, or an eighth less 5 for a fifth), between MIDI 24 and 42, velocity
  50..100, on channel 0, and the first and third beat carry the chord's root.
\<close>

theorem bass_line_ok:
  assumes "unat (req_ppq req) < 2 ^ 31" and "list_all (\<lambda>cs. 0 \<le> root_pc cs \<and> root_pc cs < 12) (chords req)"
  shows "\<exists>bars. bass_generate req style = concat bars \<and>
           list_all2 (\<lambda>cs bar. length bar \<in> {3, 4} \<and>
             (\<forall>k < length bar. bass_note_ok (req_ppq req) cs k (bar ! k))) (chords req) bars"
  using assms bass_bar_ok
  by (intro exI [of _ "map (\<lambda>(i, cs). bass_bar (req_seed req) (req_ppq req) i cs) (enumerate 0 (chords req))"])
    (simp add: bass_generate_def list_all2_conv_all_nth nth_enumerate_eq list_all_length)

theorem bass_line_ok_witness:
  "let req = \<lparr>chords = [\<lparr>start_tick = 0, duration_ticks = 1920, root_pc = 9, quality = ''min'', cs_channel = 0\<rparr>],
              req_seed = 1, req_ppq = 480\<rparr>
   in \<exists>bar. bass_generate req \<lparr>bs_seed = 0, use_octave_jump = False\<rparr> = bar \<and> length bar \<in> {3, 4} \<and>
        (\<forall>k < length bar. bass_note_ok 480 (chords req ! 0) k (bar ! k))"
  using bass_line_ok [of "\<lparr>chords = [\<lparr>start_tick = 0, duration_ticks = 1920, root_pc = 9,
      quality = ''min'', cs_channel = 0\<rparr>], req_seed = 1, req_ppq = 480\<rparr>"
      "\<lparr>bs_seed = 0, use_octave_jump = False\<rparr>"]
  by (auto simp: list_all2_Cons1)

text \<open>
  The fifth is a fifth above the root exactly when the root is a pitch class 0..11 (among
  roots from 0): \<open>root_midi\<close> reduces the root modulo 12 and \<open>fifth_midi\<close> does not, so a root of
  12 or more puts the "fifth" at another interval.
\<close>

theorem fifth_interval_iff:
  assumes "0 \<le> r"
  shows "fifth_midi r - root_midi r = 7 \<longleftrightarrow> r < 12"
proof -
  have "r mod 12 < 12" and "r = 12 * (r div 12) + r mod 12" by simp_all
  then show ?thesis
    using assms by (auto simp: fifth_midi_def root_midi_def kBassRootMidi_def kBassMaxMidi_def smod_nonneg_eq)
qed

theorem fifth_interval_iff_witness:
  "fifth_midi 7 - root_midi 7 = 7 \<and> fifth_midi 12 - root_midi 12 \<noteq> 7"
  using fifth_interval_iff [of 7] fifth_interval_iff [of 12] by simp

end
