(* ===== verification/F32.thy ===== *)
theory F32
  imports Complex_Main "HOL-Library.Log_Nat"
begin

text \<open>
  The C++ \<open>float\<close> and \<open>double\<close> as IEEE binary32 and binary64 with round to nearest, ties to
  even: a finite value is the rational it stands for, and an operation is the exact result
  rounded to 24 (53) significant bits. Overflow to infinity, NaN and subnormals are outside: the quantities the engines
  compute (swing, humanization amounts, fractions of a width) stay between \<open>2^-126\<close> and \<open>2^24\<close> or are 0.
\<close>

text \<open>The exponent of a positive rational: \<open>2^e \<le> x < 2^(e+1)\<close>.\<close>

definition f32_exponent :: "rat \<Rightarrow> int" where
  "f32_exponent x =
     (let (p, q) = quotient_of x;
          e = int (floorlog 2 (nat p)) - int (floorlog 2 (nat q))
      in if 2 powi e \<le> x then e else e - 1)"

definition round_even :: "rat \<Rightarrow> int" where
  "round_even y =
     (let f = \<lfloor>y\<rfloor>; d = y - of_int f
      in if d < 1/2 then f else if d > 1/2 then f + 1 else if even f then f else f + 1)"

text \<open>Rounding to \<open>p\<close> significant bits.\<close>

definition float_round :: "nat \<Rightarrow> rat \<Rightarrow> rat" where
  "float_round p x =
     (if x = 0 then 0
      else let u = 2 powi (f32_exponent \<bar>x\<bar> + 1 - int p) in of_int (round_even (x / u)) * u)"

definition f32_round :: "rat \<Rightarrow> rat" where "f32_round x = float_round 24 x"
definition f64_round :: "rat \<Rightarrow> rat" where "f64_round x = float_round 53 x"

definition f32_mul :: "rat \<Rightarrow> rat \<Rightarrow> rat" where "f32_mul x y = f32_round (x * y)"
definition f32_div :: "rat \<Rightarrow> rat \<Rightarrow> rat" where "f32_div x y = f32_round (x / y)"
definition f32_add :: "rat \<Rightarrow> rat \<Rightarrow> rat" where "f32_add x y = f32_round (x + y)"
definition f32_sub :: "rat \<Rightarrow> rat \<Rightarrow> rat" where "f32_sub x y = f32_round (x - y)"

definition f64_mul :: "rat \<Rightarrow> rat \<Rightarrow> rat" where "f64_mul x y = f64_round (x * y)"
definition f64_div :: "rat \<Rightarrow> rat \<Rightarrow> rat" where "f64_div x y = f64_round (x / y)"
definition f64_add :: "rat \<Rightarrow> rat \<Rightarrow> rat" where "f64_add x y = f64_round (x + y)"

text \<open>The conversion of a float to an integer type discards the fraction.\<close>

definition f32_trunc :: "rat \<Rightarrow> int" where
  "f32_trunc x = (if 0 \<le> x then \<lfloor>x\<rfloor> else \<lceil>x\<rceil>)"

subsection \<open>Rounding respects integer bounds\<close>

lemma round_even_le: "y \<le> of_int k \<Longrightarrow> round_even y \<le> k"
  by (auto simp: round_even_def Let_def) linarith+

lemma round_even_ge: "of_int k \<le> y \<Longrightarrow> k \<le> round_even y"
  by (auto simp: round_even_def Let_def le_floor_iff) linarith+

lemma f32_exponent_le:
  assumes "0 < x"
  shows "2 powi f32_exponent x \<le> x"
proof -
  obtain p q where pq: "quotient_of x = (p, q)" by fastforce
  have x: "x = of_int p / of_int q" and q: "0 < q"
    using quotient_of_div [OF pq] quotient_of_denom_pos [OF pq] by auto
  then have p: "0 < p" using assms by (simp add: zero_less_divide_iff)
  define a b where "a = floorlog 2 (nat p)" and "b = floorlog 2 (nat q)"
  have "2 ^ (a - 1) \<le> nat p" "0 < a"
    using p floorlog_bounds [of "nat p" 2] by (simp_all add: a_def floorlog_def)
  then have pa: "2 powi (int a - 1) \<le> (of_int p :: rat)"
  proof -
    have "(2 :: rat) powi (int a - 1) = of_nat (2 ^ (a - 1))"
      using \<open>0 < a\<close> by (simp add: power_int_def nat_diff_distrib)
    also have "\<dots> \<le> of_nat (nat p)" using \<open>2 ^ (a - 1) \<le> nat p\<close> by (simp only: of_nat_le_iff)
    also have "\<dots> = of_int p" using p by simp
    finally show ?thesis .
  qed
  have qb: "(of_int q :: rat) \<le> 2 powi int b"
  proof -
    have "nat q < 2 ^ b" using q floorlog_bounds [of "nat q" 2] by (simp add: b_def)
    then have "(of_nat (nat q) :: rat) \<le> of_nat (2 ^ b)" by simp
    then show ?thesis using q by (simp add: power_int_def)
  qed
  have "2 powi (int a - int b - 1) \<le> x"
  proof -
    have "(2 :: rat) powi (int a - int b - 1) = 2 powi (int a - 1) / 2 powi int b"
      using power_int_diff [of "2 :: rat" "int a - 1" "int b"] by (simp add: algebra_simps)
    also have "\<dots> \<le> of_int p / of_int q"
      using pa qb q p by (intro frac_le) auto
    finally show ?thesis by (simp add: x)
  qed
  then show ?thesis by (simp add: f32_exponent_def pq a_def b_def Let_def algebra_simps)
qed

lemma f32_exponent_gt:
  assumes "0 < x"
  shows "x < 2 powi (f32_exponent x + 1)"
proof -
  obtain p q where pq: "quotient_of x = (p, q)" by fastforce
  have x: "x = of_int p / of_int q" and q: "0 < q"
    using quotient_of_div [OF pq] quotient_of_denom_pos [OF pq] by auto
  then have p: "0 < p" using assms by (simp add: zero_less_divide_iff)
  define a b where "a = floorlog 2 (nat p)" and "b = floorlog 2 (nat q)"
  have pa: "(of_int p :: rat) < 2 powi int a"
  proof -
    have "nat p < 2 ^ a" using p floorlog_bounds [of "nat p" 2] by (simp add: a_def)
    then have "(of_nat (nat p) :: rat) < of_nat (2 ^ a)" by (simp only: of_nat_less_iff)
    then show ?thesis using p by (simp add: power_int_def)
  qed
  have "2 ^ (b - 1) \<le> nat q" "0 < b"
    using q floorlog_bounds [of "nat q" 2] by (simp_all add: b_def floorlog_def)
  then have qb: "2 powi (int b - 1) \<le> (of_int q :: rat)"
  proof -
    have "(2 :: rat) powi (int b - 1) = of_nat (2 ^ (b - 1))"
      using \<open>0 < b\<close> by (simp add: power_int_def nat_diff_distrib)
    also have "\<dots> \<le> of_nat (nat q)" using \<open>2 ^ (b - 1) \<le> nat q\<close> by (simp only: of_nat_le_iff)
    also have "\<dots> = of_int q" using q by simp
    finally show ?thesis .
  qed
  have "x < 2 powi int a / 2 powi (int b - 1)"
    unfolding x using pa qb q p by (intro frac_less) auto
  also have "\<dots> = 2 powi (int a - int b + 1)"
    using power_int_diff [of "2 :: rat" "int a" "int b - 1"] by (simp add: algebra_simps)
  finally have "x < 2 powi (int a - int b + 1)" .
  then show ?thesis by (auto simp: f32_exponent_def pq a_def b_def Let_def not_le)
qed

text \<open>
  A value between two integers of at most \<open>p\<close> bits rounds to a value between them: such integers
  are floats.
\<close>

lemma float_round_between:
  assumes "of_int a \<le> x" and "x \<le> of_int b" and "\<bar>a\<bar> < 2 ^ p" and "\<bar>b\<bar> < 2 ^ p"
  shows "of_int a \<le> float_round p x \<and> float_round p x \<le> of_int b"
proof (cases "x = 0")
  case False
  define s where "s = f32_exponent \<bar>x\<bar> + 1 - int p"
  define u where "u = (2 :: rat) powi s"
  have u: "0 < u" by (simp add: u_def)
  have lo: "2 powi (s + int p - 1) \<le> \<bar>x\<bar>" using f32_exponent_le [of "\<bar>x\<bar>"] False by (simp add: s_def)
  have pw: "(of_int (2 ^ p) :: rat) = 2 powi int p" by (simp add: power_int_def)
  have "of_int \<bar>a\<bar> < (of_int (2 ^ p) :: rat)" and "of_int \<bar>b\<bar> < (of_int (2 ^ p) :: rat)"
    using assms(3,4) by (simp_all only: of_int_less_iff)
  then have "\<bar>x\<bar> < 2 powi int p" using assms(1,2) unfolding pw by auto
  with lo have "(2 :: rat) powi (s + int p - 1) < 2 powi int p" by (rule order.strict_trans1)
  then have "s \<le> 0"
    using power_int_increasing [of "int p" "s + int p - 1" "2 :: rat"] by (cases "0 < s") auto
  have int_quot: "\<exists>m. of_int k / u = of_int m" for k :: int
    using \<open>s \<le> 0\<close>
    by (intro exI [of _ "k * 2 ^ nat (- s)"]) (auto simp: u_def power_int_def divide_simps)
  obtain a' b' where ab: "of_int a / u = of_int a'" "of_int b / u = of_int b'"
    using int_quot by blast
  have "a' \<le> round_even (x / u)" and "round_even (x / u) \<le> b'"
    using assms(1,2) u
    by (intro round_even_ge round_even_le; simp add: ab [symmetric] divide_right_mono)+
  then have "of_int a' * u \<le> of_int (round_even (x / u)) * u"
    and "of_int (round_even (x / u)) * u \<le> of_int b' * u" using u by simp_all
  with ab False u show ?thesis
    by (simp add: float_round_def u_def [symmetric] s_def [symmetric] Let_def
        ab [symmetric])
qed (use assms in \<open>simp add: float_round_def\<close>)

lemma f32_round_bounds:
  assumes "0 \<le> x" and "x \<le> of_nat K" and "K < 2 ^ 24"
  shows "0 \<le> f32_round x \<and> f32_round x \<le> of_nat K"
proof -
  have "\<bar>int K\<bar> < 2 ^ 24" using assms(3) by simp
  then show ?thesis
    using float_round_between [of 0 x "int K" 24] assms(1,2) by (simp add: f32_round_def)
qed

lemma f64_round_between:
  "of_int a \<le> x \<Longrightarrow> x \<le> of_int b \<Longrightarrow> \<bar>a\<bar> < 2 ^ 53 \<Longrightarrow> \<bar>b\<bar> < 2 ^ 53 \<Longrightarrow>
    of_int a \<le> f64_round x \<and> f64_round x \<le> of_int b"
  unfolding f64_round_def by (rule float_round_between)

text \<open>An integer of at most 53 bits is a double.\<close>

lemma f64_round_int: "\<bar>a\<bar> < 2 ^ 53 \<Longrightarrow> f64_round (of_int a) = of_int a"
  using f64_round_between [of a "of_int a" a] by auto

text \<open>Rounding is monotone.\<close>

lemma round_even_mono:
  assumes "x \<le> y"
  shows "round_even x \<le> round_even y"
proof (cases "\<lfloor>x\<rfloor> = \<lfloor>y\<rfloor>")
  case True
  then show ?thesis using assms by (auto simp: round_even_def Let_def)
next
  case False
  then have "\<lfloor>x\<rfloor> + 1 \<le> \<lfloor>y\<rfloor>" using floor_mono [OF assms] by simp
  moreover have "round_even x \<le> \<lfloor>x\<rfloor> + 1" and "\<lfloor>y\<rfloor> \<le> round_even y"
    by (auto simp: round_even_def Let_def)
  ultimately show ?thesis by simp
qed

lemma f32_exponent_mono:
  assumes "0 < x" and "x \<le> y"
  shows "f32_exponent x \<le> f32_exponent y"
proof (rule ccontr)
  assume "\<not> ?thesis"
  then have "(2 :: rat) powi (f32_exponent y + 1) \<le> 2 powi f32_exponent x"
    by (intro power_int_increasing) auto
  then show False
    using f32_exponent_le [OF assms(1)] f32_exponent_gt [of y] assms by linarith
qed

lemma float_round_mono_pos:
  assumes "0 < x" and "x \<le> y" and "0 < p"
  shows "float_round p x \<le> float_round p y"
proof (cases "f32_exponent x = f32_exponent y")
  case True
  then show ?thesis
    using assms by (auto simp: float_round_def Let_def intro!: mult_right_mono round_even_mono
        divide_right_mono)
next
  case False
  define e f where "e = f32_exponent x" and "f = f32_exponent y"
  have ef: "e + 1 \<le> f" using False f32_exponent_mono [OF assms(1,2)] by (simp add: e_def f_def)
  have pw: "(2 :: rat) powi (e + 1) = of_int (2 ^ p) * 2 powi (e + 1 - int p)"
    "(2 :: rat) powi f = of_int (2 ^ (p - 1)) * 2 powi (f + 1 - int p)" for e f :: int
    using power_int_add [of "2 :: rat" "int p" "e + 1 - int p"]
      power_int_add [of "2 :: rat" "int p - 1" "f + 1 - int p"] assms(3)
    by (simp_all add: power_int_def nat_diff_distrib)
  have "x \<le> of_int (2 ^ p) * 2 powi (e + 1 - int p)"
    using f32_exponent_gt [OF assms(1)] pw(1) [of e] by (simp add: e_def)
  then have "round_even (x / 2 powi (e + 1 - int p)) \<le> 2 ^ p"
    by (intro round_even_le) (simp add: divide_simps)
  then have "(of_int (round_even (x / 2 powi (e + 1 - int p))) :: rat) \<le> of_int (2 ^ p)"
    by (simp only: of_int_le_iff)
  then have "of_int (round_even (x / 2 powi (e + 1 - int p))) * 2 powi (e + 1 - int p) \<le>
      (of_int (2 ^ p) :: rat) * 2 powi (e + 1 - int p)"
    by (rule mult_right_mono) simp
  then have "float_round p x \<le> 2 powi (e + 1)"
    using assms(1) by (simp add: float_round_def Let_def e_def pw(1) [of "f32_exponent x"])
  also have "\<dots> \<le> 2 powi f" using ef by (intro power_int_increasing) auto
  also have "2 powi f \<le> float_round p y"
  proof -
    have "of_int (2 ^ (p - 1)) * 2 powi (f + 1 - int p) \<le> y"
      using f32_exponent_le [of y] assms pw(2) [of f] by (simp add: f_def)
    then have "2 ^ (p - 1) \<le> round_even (y / 2 powi (f + 1 - int p))"
      by (intro round_even_ge) (simp add: divide_simps)
    then have "(of_int (2 ^ (p - 1)) :: rat) \<le> of_int (round_even (y / 2 powi (f + 1 - int p)))"
      by (simp only: of_int_le_iff)
    then have "(of_int (2 ^ (p - 1)) :: rat) * 2 powi (f + 1 - int p) \<le>
        of_int (round_even (y / 2 powi (f + 1 - int p))) * 2 powi (f + 1 - int p)"
      by (rule mult_right_mono) simp
    then show ?thesis
      using assms(1,2) by (simp add: float_round_def Let_def f_def pw(2) [of "f32_exponent y"])
  qed
  finally show ?thesis .
qed

lemma float_round_nonneg: "0 \<le> x \<Longrightarrow> 0 \<le> float_round p x"
  by (auto simp: float_round_def Let_def intro!: mult_nonneg_nonneg round_even_ge)

lemma round_even_minus: "round_even (- y) = - round_even y"
proof (cases "y = of_int \<lfloor>y\<rfloor>")
  case True
  then obtain k :: int where "y = of_int k" by blast
  then show ?thesis by (simp add: round_even_def flip: of_int_minus)
next
  case False
  have f: "\<lfloor>- y\<rfloor> = - \<lfloor>y\<rfloor> - 1"
    using False by (intro floor_unique) (auto, linarith+)
  show ?thesis by (auto simp: round_even_def f Let_def algebra_simps)
qed

lemma float_round_minus: "float_round p (- x) = - float_round p x"
  by (simp add: float_round_def Let_def round_even_minus)

lemma float_round_mono:
  assumes "x \<le> y" and "0 < p"
  shows "float_round p x \<le> float_round p y"
proof (cases "0 < x")
  case True
  then show ?thesis using float_round_mono_pos assms by blast
next
  case False
  then have x: "float_round p x \<le> 0"
    using float_round_nonneg [of "- x" p] by (simp add: float_round_minus)
  show ?thesis
  proof (cases "y < 0")
    case True
    then show ?thesis
      using float_round_mono_pos [of "- y" "- x" p] assms by (simp add: float_round_minus)
  next
    case False
    then show ?thesis using x float_round_nonneg [of y p] by simp
  qed
qed

lemma f64_round_mono: "x \<le> y \<Longrightarrow> f64_round x \<le> f64_round y"
  unfolding f64_round_def by (rule float_round_mono) simp_all

lemma f32_trunc_bounds: "0 \<le> x \<Longrightarrow> x \<le> of_int k \<Longrightarrow> 0 \<le> f32_trunc x \<and> f32_trunc x \<le> k"
  by (simp add: f32_trunc_def) (simp add: floor_le_iff)

lemma f32_trunc_mono: "x \<le> y \<Longrightarrow> f32_trunc x \<le> f32_trunc y"
  by (auto simp: f32_trunc_def floor_mono ceiling_mono) (metis ceiling_le_zero floor_mono
      le_cases order.trans zero_le_floor not_le)

lemma f32_trunc_of_int [simp]: "f32_trunc (of_int a) = a"
  by (simp add: f32_trunc_def)

lemma f32_trunc_between: "of_int a \<le> x \<Longrightarrow> x \<le> of_int b \<Longrightarrow> a \<le> f32_trunc x \<and> f32_trunc x \<le> b"
  using f32_trunc_mono [of "of_int a" x] f32_trunc_mono [of x "of_int b"] by simp

end
