(* ===== verification/Rhythm_Engine.thy ===== *)
theory Rhythm_Engine
  imports Midi_Types F32
begin

text \<open>
  The rhythm engine (\<open>rhythm_engine.cpp\<close>): hi-hat, kick and snare on an eighth or sixteenth grid
  with swing, one bar per chord, and a fill in a chosen bar. The swing is a \<open>float\<close>: a
  rational with the arithmetic of theory \<open>F32\<close>.
\<close>

datatype rhythm_resolution = Eighth | Sixteenth

record rhythm_style =
  resolution :: rhythm_resolution
  swing :: rat
  rs_seed :: u64

record fill_spec =
  start_bar :: int
  strength :: int

definition rKick :: u8 where "rKick = 36"
definition rSnare :: u8 where "rSnare = 38"
definition rClosedHH :: u8 where "rClosedHH = 42"
definition rOpenHH :: u8 where "rOpenHH = 46"
definition rDrumChannel :: u8 where "rDrumChannel = 9"
definition kBarTicks :: u32 where "kBarTicks = of_nat kPpq * 4"

lemmas rhythm_consts =
  rKick_def rSnare_def rClosedHH_def rOpenHH_def rDrumChannel_def kBarTicks_def kPpq_def

definition humanized_velocity :: "int \<Rightarrow> int \<Rightarrow> mt19937_64 \<Rightarrow> u8 \<times> mt19937_64" where
  "humanized_velocity lo hi g =
     (let (r, g') = rng_mod (nat (hi - lo + 1)) g
      in (word_of_int (max lo (min hi (lo + int r))), g'))"

definition eighth_beats_straight :: "nat list" where
  "eighth_beats_straight = [0, kPpq div 2]"

definition sixteenth_beats :: "nat list" where
  "sixteenth_beats = [0, kPpq div 4, kPpq div 2, 3 * kPpq div 4]"

definition eighth_bar_ticks_straight :: "nat list" where
  "eighth_bar_ticks_straight =
     concat (map (\<lambda>beat. map (\<lambda>off. beat * kPpq + off) eighth_beats_straight) [0..<4])"

definition sixteenth_bar_ticks :: "nat list" where
  "sixteenth_bar_ticks =
     concat (map (\<lambda>beat. map (\<lambda>off. beat * kPpq + off) sixteenth_beats) [0..<4])"

definition swing_delta :: "rat \<Rightarrow> int" where
  "swing_delta s = f32_trunc (f32_div (f32_mul s (of_nat kPpq)) 4)"

definition apply_swing :: "u32 list \<Rightarrow> rat \<Rightarrow> u32 list" where
  "apply_swing base s =
     (if s \<le> 0 then base
      else map (\<lambda>(i, t). if i mod 4 = 1 \<or> i mod 4 = 3 then t + word_of_int (swing_delta s) else t)
             (enumerate 0 base))"

definition make_drum_event :: "u32 \<Rightarrow> u8 \<Rightarrow> int \<Rightarrow> int \<Rightarrow> mt19937_64 \<Rightarrow> midi_event list \<times> mt19937_64" where
  "make_drum_event t n lo hi g =
     (let (v, g') = humanized_velocity lo hi g in ([make_event t (t + 1) n v rDrumChannel], g'))"

fun push_drums :: "(u32 \<times> u8 \<times> int \<times> int) list \<Rightarrow> mt19937_64 \<Rightarrow> midi_event list \<times> mt19937_64" where
  "push_drums hits g = for_each (\<lambda>(t, n, lo, hi). make_drum_event t n lo hi) hits g"

definition fill_eighth_pattern :: "u32 \<Rightarrow> u32 list \<Rightarrow> mt19937_64 \<Rightarrow> midi_event list \<times> mt19937_64" where
  "fill_eighth_pattern bar_start ticks =
     for_each (\<lambda>(i, tk). let t = bar_start + tk in
         push_drums ((t, rClosedHH, 60, 85) #
           (if i mod 2 = 0 then [(t, rKick, 80, 100)] else [(t, rSnare, 80, 100)])))
       (enumerate 0 ticks)"

definition fill_sixteenth_pattern :: "u32 \<Rightarrow> u32 list \<Rightarrow> mt19937_64 \<Rightarrow> midi_event list \<times> mt19937_64" where
  "fill_sixteenth_pattern bar_start ticks =
     for_each (\<lambda>(i, tk). let t = bar_start + tk in
         push_drums ((t, rClosedHH, 60, 85) #
           (if i mod 4 = 0 \<or> i mod 4 = 2 then [(t, rKick, 80, 100)] else []) @
           (if i mod 4 = 1 \<or> i mod 4 = 3 then [(t, rSnare, 80, 100)] else [])))
       (enumerate 0 ticks)"

definition fill_bar_fill :: "u32 \<Rightarrow> int \<Rightarrow> mt19937_64 \<Rightarrow> midi_event list \<times> mt19937_64" where
  "fill_bar_fill bar_start strn =
     (let beat4_start = bar_start + 3 * of_nat kPpq;
          beat3_start = bar_start + 2 * of_nat kPpq
      in push_drums
        (if strn = 1 then [(beat4_start, rKick, 85, 100), (beat4_start, rSnare, 85, 100)]
         else if strn = 2 then
           [(beat3_start, rKick, 90, 105), (beat4_start, rSnare, 90, 105), (beat4_start, rOpenHH, 75, 90)]
         else if strn \<ge> 3 then
           [(beat3_start, rKick, 95, 110), (beat4_start, rKick, 95, 110),
            (beat4_start, rSnare, 95, 110), (beat4_start, rOpenHH, 85, 100)]
         else []))"

definition swung_ticks :: "rhythm_style \<Rightarrow> u32 list" where
  "swung_ticks style =
     apply_swing (map of_nat (if resolution style = Sixteenth then sixteenth_bar_ticks
                              else eighth_bar_ticks_straight)) (swing style)"

definition rhythm_bar ::
  "u64 \<Rightarrow> rhythm_style \<Rightarrow> fill_spec \<Rightarrow> chord_spec \<Rightarrow> midi_event list" where
  "rhythm_bar seed style fill cs =
     (let is_sixteenth = (resolution style = Sixteenth);
          bar_index = start_tick cs div kBarTicks;
          g = mt_seed (seed XOR ucast bar_index XOR (if is_sixteenth then 0xDEADBEEF else 0xCAFEBABE));
          bar_start = bar_index * kBarTicks;
          (evs, g1) = (if is_sixteenth then fill_sixteenth_pattern bar_start (swung_ticks style) g
                       else fill_eighth_pattern bar_start (swung_ticks style) g)
      in evs @ (if start_bar fill \<ge> 0 \<and> word_of_int (start_bar fill) = bar_index
                then fst (fill_bar_fill bar_start (strength fill) g1) else []))"

definition rhythm_generate ::
  "chord_request \<Rightarrow> rhythm_style \<Rightarrow> fill_spec \<Rightarrow> midi_event list" where
  "rhythm_generate req style fill = concat (map (rhythm_bar (req_seed req) style fill) (chords req))"

subsection \<open>Swing\<close>

lemma swing_delta_bounds:
  assumes "0 \<le> s" "s \<le> 1"
  shows "0 \<le> swing_delta s \<and> swing_delta s \<le> 120"
proof -
  have m: "0 \<le> f32_mul s 480" "f32_mul s 480 \<le> 480"
    using f32_round_bounds [of "s * 480" 480] assms by (simp_all add: f32_mul_def)
  then have "0 \<le> f32_div (f32_mul s 480) 4" "f32_div (f32_mul s 480) 4 \<le> 120"
    using f32_round_bounds [of "f32_mul s 480 / 4" 120] by (simp_all add: f32_div_def)
  then show ?thesis
    using f32_trunc_bounds [of _ 120] by (simp add: swing_delta_def kPpq_def)
qed

lemma grid_ticks:
  "eighth_bar_ticks_straight = map (\<lambda>i. i * 240) [0..<8]"
  "sixteenth_bar_ticks = map (\<lambda>i. i * 120) [0..<16]"
  by (simp_all add: eighth_bar_ticks_straight_def sixteenth_bar_ticks_def eighth_beats_straight_def
      sixteenth_beats_def kPpq_def upt_rec)

definition grid :: "rhythm_style \<Rightarrow> nat" where
  "grid style = (if resolution style = Sixteenth then 120 else 240)"

definition positions :: "rhythm_style \<Rightarrow> nat" where
  "positions style = (if resolution style = Sixteenth then 16 else 8)"

lemma length_swung_ticks [simp]: "length (swung_ticks style) = positions style"
  by (simp add: swung_ticks_def apply_swing_def grid_ticks positions_def)

lemma nth_apply_swing:
  assumes "i < length base"
  shows "apply_swing base s ! i = base ! i + (if 0 < s \<and> odd i then word_of_int (swing_delta s) else 0)"
proof -
  have "(i mod 4 = 1 \<or> i mod 4 = 3) = odd i" by presburger
  then show ?thesis using assms by (simp add: apply_swing_def nth_enumerate_eq)
qed

lemma swung_tick:
  assumes "i < positions style"
  shows "swung_ticks style ! i = of_nat (i * grid style) +
           (if 0 < swing style \<and> odd i then word_of_int (swing_delta (swing style)) else 0)"
  using assms unfolding swung_ticks_def
  by (cases "resolution style = Sixteenth")
    (simp_all add: nth_apply_swing grid_ticks positions_def grid_def)

lemma unat_swung_tick:
  assumes "i < positions style" "swing style \<le> 1"
  shows "unat (swung_ticks style ! i) =
         i * grid style + (if 0 < swing style \<and> odd i then nat (swing_delta (swing style)) else 0)"
proof -
  define d where "d = (if 0 < swing style \<and> odd i then nat (swing_delta (swing style)) else 0)"
  have d: "d \<le> 120" using swing_delta_bounds [of "swing style"] assms(2) by (auto simp: d_def)
  have "i * grid style \<le> 1920" using assms(1) by (simp add: grid_def positions_def split: if_splits)
  moreover have "swung_ticks style ! i = of_nat (i * grid style + d)"
    using swing_delta_bounds [of "swing style"] assms by (auto simp: swung_tick d_def)
  ultimately show ?thesis
    using d unfolding d_def [symmetric] by (simp only: unat_u32_of_nat) simp
qed

lemma grid_step: "i < j \<Longrightarrow> i * grid style + 120 \<le> j * grid style"
proof -
  assume "i < j"
  then have "(i + 1) * grid style \<le> j * grid style" by (intro mult_le_mono1) simp
  then show ?thesis by (simp add: grid_def split: if_splits)
qed

text \<open>
  Swing up to 1 delays each off-beat by at most a quarter of a beat (120 ticks) and never
  moves a position past the next one: the swung grid stays in order. On the eighth grid all
  positions stay apart and inside the bar of 1920 ticks.
\<close>

theorem swing_keeps_order:
  assumes "swing style \<le> 1"
  shows "sorted (map unat (swung_ticks style)) \<and>
         (resolution style = Eighth \<longrightarrow> distinct (swung_ticks style) \<and>
            (\<forall>t \<in> set (swung_ticks style). unat t < 1920))"
proof -
  define d where "d = (\<lambda>i :: nat. if 0 < swing style \<and> odd i then nat (swing_delta (swing style)) else 0)"
  have d: "d i \<le> 120" for i
    using swing_delta_bounds [of "swing style"] assms by (auto simp: d_def)
  have tick: "unat (swung_ticks style ! i) = i * grid style + d i" if "i < positions style" for i
    using unat_swung_tick [OF that assms] by (simp add: d_def)
  have "sorted (map unat (swung_ticks style))"
    unfolding sorted_iff_nth_mono_less
  proof (intro allI impI)
    fix i j assume "i < j" "j < length (map unat (swung_ticks style))"
    then show "map unat (swung_ticks style) ! i \<le> map unat (swung_ticks style) ! j"
      using grid_step [of i j style] d [of i] by (simp add: tick)
  qed
  moreover have "distinct (swung_ticks style)" if "resolution style = Eighth"
  proof (subst distinct_conv_nth, intro allI impI)
    fix i j assume "i < length (swung_ticks style)" "j < length (swung_ticks style)" "i \<noteq> j"
    then have "unat (swung_ticks style ! i) \<noteq> unat (swung_ticks style ! j)"
      using that d [of i] d [of j] by (cases i j rule: linorder_cases) (auto simp: tick grid_def)
    then show "swung_ticks style ! i \<noteq> swung_ticks style ! j" by auto
  qed
  moreover have "unat t < 1920" if e: "resolution style = Eighth" and t: "t \<in> set (swung_ticks style)" for t
  proof -
    obtain i where "t = swung_ticks style ! i" "i < positions style"
      using t by (auto simp: in_set_conv_nth)
    then show ?thesis using e d [of i] by (simp add: tick grid_def positions_def)
  qed
  ultimately show ?thesis by blast
qed

theorem swing_keeps_order_witness:
  "swing \<lparr>resolution = Eighth, swing = 1/3, rs_seed = 0\<rparr> \<le> 1 \<and>
   sorted (map unat (swung_ticks \<lparr>resolution = Eighth, swing = 1/3, rs_seed = 0\<rparr>)) \<and>
   distinct (swung_ticks \<lparr>resolution = Eighth, swing = 1/3, rs_seed = 0\<rparr>)"
  using swing_keeps_order [of "\<lparr>resolution = Eighth, swing = 1/3, rs_seed = 0\<rparr>"] by simp

subsection \<open>Events\<close>

lemma humanized_velocity_bounds:
  assumes "0 \<le> lo" "lo \<le> hi" "hi < 256"
  shows "nat lo \<le> unat (fst (humanized_velocity lo hi g))"
    and "unat (fst (humanized_velocity lo hi g)) \<le> nat hi"
  using assms by (simp_all add: humanized_velocity_def split_beta Let_def unat_u8_of_int_small)

text \<open>What every hit of the track is, whatever its place.\<close>

definition hit_sound :: "midi_event \<Rightarrow> bool" where
  "hit_sound e \<longleftrightarrow> channel e = 9 \<and> tick_off e = tick_on e + 1 \<and>
     (note_no e = 42 \<and> vel_in 60 85 e \<or> note_no e = 46 \<and> vel_in 75 100 e \<or>
      note_no e \<in> {36, 38} \<and> vel_in 80 110 e)"

definition hit_of :: "midi_event \<Rightarrow> u32 \<times> u8" where
  "hit_of e = (tick_on e, note_no e)"

text \<open>
  The hits a bar should have: on grid position \<open>i\<close>, delayed by the swing when \<open>i\<close> is odd, a closed
  hi-hat (42) with a kick (36) on the even and a snare (38) on the odd positions; in the fill
  bar the hits on beats 3 (tick 960) and 4 (tick 1440) that the strength asks for.
\<close>

definition pattern_hits :: "rhythm_style \<Rightarrow> u32 \<Rightarrow> (u32 \<times> u8) list" where
  "pattern_hits style bs =
     concat (map (\<lambda>i.
         let t = bs + of_nat (i * grid style + (if 0 < swing style \<and> odd i then nat (swing_delta (swing style)) else 0))
         in [(t, 42), (t, if even i then 36 else 38)])
       [0..<positions style])"

definition fill_hits :: "int \<Rightarrow> u32 \<Rightarrow> (u32 \<times> u8) list" where
  "fill_hits strn bs =
     (if strn = 1 then [(bs + 1440, 36), (bs + 1440, 38)]
      else if strn = 2 then [(bs + 960, 36), (bs + 1440, 38), (bs + 1440, 46)]
      else if strn \<ge> 3 then [(bs + 960, 36), (bs + 1440, 36), (bs + 1440, 38), (bs + 1440, 46)]
      else [])"

lemma for_each_map:
  "(\<And>x s. x \<in> set xs \<Longrightarrow> map h (fst (f x s)) = k x) \<Longrightarrow>
   map h (fst (for_each f xs s)) = concat (map k xs)"
  by (induction xs arbitrary: s) (simp_all add: split_beta Let_def)

lemma push_drums_hits: "map hit_of (fst (push_drums hits g)) = map (\<lambda>(t, n, lo, hi). (t, n)) hits"
proof -
  have "map hit_of (fst (push_drums hits g)) = concat (map (\<lambda>(t, n, lo, hi). [(t, n)]) hits)"
    unfolding push_drums.simps
    by (rule for_each_map) (auto simp: make_drum_event_def split_beta hit_of_def)
  also have "\<dots> = map (\<lambda>(t, n, lo, hi). (t, n)) hits" by (induction hits) auto
  finally show ?thesis .
qed

lemma push_drums_all:
  assumes "\<And>t n lo hi v. (t, n, lo, hi) \<in> set hits \<Longrightarrow>
      0 \<le> lo \<and> lo \<le> hi \<and> hi < 256 \<and>
      (nat lo \<le> unat v \<longrightarrow> unat v \<le> nat hi \<longrightarrow> P (make_event t (t + 1) n v 9))"
  shows "list_all P (fst (push_drums hits g))"
  unfolding push_drums.simps
proof (rule for_each_all)
  fix x g' assume "x \<in> set hits"
  moreover obtain t n lo hi where "x = (t, n, lo, hi)" by (cases x) auto
  ultimately show "list_all P (fst ((case x of (t, n, lo, hi) \<Rightarrow> make_drum_event t n lo hi) g'))"
    using assms [of t n lo hi "fst (humanized_velocity lo hi g')"] humanized_velocity_bounds [of lo hi g']
    by (simp add: make_drum_event_def split_beta rDrumChannel_def)
qed

lemma pattern_sound:
  assumes "set hits \<subseteq> {(t, 42, 60, 85), (t, 36, 80, 100), (t, 38, 80, 100)}"
  shows "list_all hit_sound (fst (push_drums hits g))"
  by (rule push_drums_all) (use assms in \<open>fastforce simp: hit_sound_def vel_in_def\<close>)

lemma fill_sound: "list_all hit_sound (fst (fill_bar_fill bs strn g))"
  unfolding fill_bar_fill_def Let_def
  by (rule push_drums_all) (auto simp: hit_sound_def vel_in_def rhythm_consts split: if_splits)

lemma fill_bar_fill_hits: "map hit_of (fst (fill_bar_fill bs strn g)) = fill_hits strn bs"
  unfolding fill_bar_fill_def Let_def push_drums_hits by (simp add: fill_hits_def rhythm_consts)

lemma rhythm_bar_sound: "list_all hit_sound (rhythm_bar seed style fill cs)"
proof -
  have "list_all hit_sound (fst (fill_eighth_pattern bs ticks g))" for bs ticks g
    unfolding fill_eighth_pattern_def
  proof (rule for_each_all)
    fix x :: "nat \<times> u32" and g'
    show "list_all hit_sound (fst ((case x of (i, tk) \<Rightarrow> let t = bs + tk in
        push_drums ((t, rClosedHH, 60, 85) #
          (if i mod 2 = 0 then [(t, rKick, 80, 100)] else [(t, rSnare, 80, 100)]))) g'))"
      unfolding split_beta Let_def
      by (rule pattern_sound [of _ "bs + snd x"]) (auto simp: rhythm_consts)
  qed
  moreover have "list_all hit_sound (fst (fill_sixteenth_pattern bs ticks g))" for bs ticks g
    unfolding fill_sixteenth_pattern_def
  proof (rule for_each_all)
    fix x :: "nat \<times> u32" and g'
    show "list_all hit_sound (fst ((case x of (i, tk) \<Rightarrow> let t = bs + tk in
        push_drums ((t, rClosedHH, 60, 85) #
          (if i mod 4 = 0 \<or> i mod 4 = 2 then [(t, rKick, 80, 100)] else []) @
          (if i mod 4 = 1 \<or> i mod 4 = 3 then [(t, rSnare, 80, 100)] else []))) g'))"
      unfolding split_beta Let_def
      by (rule pattern_sound [of _ "bs + snd x"]) (auto simp: rhythm_consts)
  qed
  ultimately show ?thesis
    using fill_sound by (auto simp: rhythm_bar_def split_beta Let_def)
qed

lemma enumerate_swung_ticks:
  assumes "swing style \<le> 1"
  shows "enumerate 0 (swung_ticks style) =
     map (\<lambda>i. (i, of_nat (i * grid style +
       (if 0 < swing style \<and> odd i then nat (swing_delta (swing style)) else 0)))) [0..<positions style]"
proof (rule nth_equalityI)
  fix i assume "i < length (enumerate 0 (swung_ticks style))"
  then show "enumerate 0 (swung_ticks style) ! i =
      map (\<lambda>i. (i, of_nat (i * grid style +
        (if 0 < swing style \<and> odd i then nat (swing_delta (swing style)) else 0)))) [0..<positions style] ! i"
    using swing_delta_bounds [of "swing style"] assms by (auto simp: nth_enumerate_eq swung_tick)
qed simp

lemma pattern_hits_eighth:
  assumes "swing style \<le> 1"
  shows "map hit_of (fst (fill_eighth_pattern bs (swung_ticks style) g)) = pattern_hits style bs"
  unfolding fill_eighth_pattern_def
  by (subst for_each_map [where k = "\<lambda>(i, tk). [(bs + tk, 42), (bs + tk, if even i then 36 else 38)]"])
    (auto simp: push_drums_hits Let_def rhythm_consts enumerate_swung_ticks [OF assms] pattern_hits_def
      comp_def even_iff_mod_2_eq_zero simp del: push_drums.simps)

lemma pattern_hits_sixteenth:
  assumes "swing style \<le> 1"
  shows "map hit_of (fst (fill_sixteenth_pattern bs (swung_ticks style) g)) = pattern_hits style bs"
proof -
  have m: "(i mod 4 = 0 \<or> i mod 4 = 2) = even i" "(i mod 4 = 1 \<or> i mod 4 = 3) = odd i" for i :: nat
    by presburger+
  show ?thesis
    unfolding fill_sixteenth_pattern_def m
    by (subst for_each_map [where k = "\<lambda>(i, tk). [(bs + tk, 42), (bs + tk, if even i then 36 else 38)]"])
      (auto simp: push_drums_hits Let_def rhythm_consts enumerate_swung_ticks [OF assms] pattern_hits_def
        comp_def simp del: push_drums.simps)
qed

lemma rhythm_bar_hits:
  assumes "swing style \<le> 1"
  shows "map hit_of (rhythm_bar seed style fill cs) =
     pattern_hits style (start_tick cs div 1920 * 1920) @
     (if start_bar fill \<ge> 0 \<and> word_of_int (start_bar fill) = start_tick cs div 1920
      then fill_hits (strength fill) (start_tick cs div 1920 * 1920) else [])"
  using pattern_hits_eighth [OF assms] pattern_hits_sixteenth [OF assms]
  by (simp add: rhythm_bar_def split_beta Let_def fill_bar_fill_hits rhythm_consts(6,7))

text \<open>A bar without a fill: two hits per position, none of them an open hi-hat.\<close>

lemma length_pattern_hits: "length (pattern_hits style bs) = 2 * positions style"
proof -
  have "length (concat (map (\<lambda>i. let t = f i in [(t, a), (t, g i)]) xs)) = 2 * length xs"
    for f :: "nat \<Rightarrow> u32" and a :: u8 and g xs by (induction xs) (simp_all add: Let_def)
  then show ?thesis by (simp add: pattern_hits_def)
qed

lemma pattern_hits_notes: "(t, n) \<in> set (pattern_hits style bs) \<Longrightarrow> n \<in> {36, 38, 42}"
  by (auto simp: pattern_hits_def Let_def split: if_splits)

lemma plain_rhythm_bar:
  assumes "swing style \<le> 1" "start_bar fill < 0"
  shows "length (rhythm_bar seed style fill cs) = 2 * positions style"
    and "e \<in> set (rhythm_bar seed style fill cs) \<Longrightarrow> hit_sound e \<and> note_no e \<in> {36, 38, 42}"
proof -
  have hits: "map hit_of (rhythm_bar seed style fill cs) = pattern_hits style (start_tick cs div 1920 * 1920)"
    using rhythm_bar_hits [OF assms(1), of seed fill cs] assms(2) by simp
  then show "length (rhythm_bar seed style fill cs) = 2 * positions style"
    using length_pattern_hits by (metis length_map)
  assume e: "e \<in> set (rhythm_bar seed style fill cs)"
  then have "hit_of e \<in> set (pattern_hits style (start_tick cs div 1920 * 1920))"
    unfolding hits [symmetric] by simp
  then show "hit_sound e \<and> note_no e \<in> {36, 38, 42}"
    using rhythm_bar_sound [of seed style fill cs] e pattern_hits_notes by (auto simp: hit_of_def list_all_iff)
qed

text \<open>The delay is the swing's share of a sixteenth (120 ticks), rounded to a whole tick.\<close>

lemma swing_delta_between:
  assumes "0 \<le> s" "s \<le> 1"
  shows "\<lfloor>120 * s\<rfloor> \<le> swing_delta s \<and> swing_delta s \<le> \<lceil>120 * s\<rceil>"
proof -
  define a b where "a = \<lfloor>120 * s\<rfloor>" and "b = \<lceil>120 * s\<rceil>"
  have ab: "0 \<le> a" "a \<le> 120" "0 \<le> b" "b \<le> 120"
    using assms by (auto simp: a_def b_def le_floor_iff floor_le_iff ceiling_le_iff le_ceiling_iff)
  have "of_int a \<le> 120 * s" "120 * s \<le> of_int b" by (simp_all add: a_def b_def)
  then have "of_int (4 * a) \<le> s * 480" "s * 480 \<le> of_int (4 * b)" by simp_all
  then have m: "of_int (4 * a) \<le> f32_mul s 480" "f32_mul s 480 \<le> of_int (4 * b)"
    using float_round_between [of "4 * a" "s * 480" "4 * b" 24] ab by (simp_all add: f32_mul_def f32_round_def)
  then have "of_int a \<le> f32_mul s 480 / 4" "f32_mul s 480 / 4 \<le> of_int b" by simp_all
  then have "of_int a \<le> f32_div (f32_mul s 480) 4" "f32_div (f32_mul s 480) 4 \<le> of_int b"
    using float_round_between [of a "f32_mul s 480 / 4" b 24] ab by (simp_all add: f32_div_def f32_round_def)
  then show ?thesis
    using f32_trunc_between [of a _ b] by (simp add: swing_delta_def kPpq_def a_def b_def)
qed

text \<open>
  C23. The rhythm track for swing up to 1, hit by hit. Every chord gives one bar, the bar that
  contains the chord's start (so two chords in one bar give its pattern twice). On each of its 8 or
  16 grid positions, 240 or 120 ticks apart, stand two hits at the same tick: a closed hi-hat,
  and a kick on the even or a snare on the odd positions; then come the hits of the fill where the bar
  asks for one. A positive swing \<open>s\<close> delays the odd positions by \<open>120 s\<close> ticks, up or down to a
  whole tick. Every hit is on channel 9 and lasts one tick, with velocity 60..85 for the closed hi-hat,
  75..100 for the open one and 80..110 for kick and snare. The ticks are those of the code
  modulo \<open>2 ^ 32\<close>; a bar does not always stay inside its 1920 ticks, see \<open>full_swing_spills\<close>.
\<close>

theorem rhythm_track_ok:
  assumes "swing style \<le> 1"
  shows "(\<exists>bars. rhythm_generate req style fill = concat bars \<and>
           list_all2 (\<lambda>cs bar.
               list_all hit_sound bar \<and>
               map hit_of bar = pattern_hits style (start_tick cs div 1920 * 1920) @
                 (if start_bar fill \<ge> 0 \<and> word_of_int (start_bar fill) = start_tick cs div 1920
                  then fill_hits (strength fill) (start_tick cs div 1920 * 1920) else []))
             (chords req) bars) \<and>
         (0 < swing style \<longrightarrow>
            \<lfloor>120 * swing style\<rfloor> \<le> swing_delta (swing style) \<and>
            swing_delta (swing style) \<le> \<lceil>120 * swing style\<rceil>)"
  using rhythm_bar_sound rhythm_bar_hits [OF assms] swing_delta_between [of "swing style"] assms
  by (intro conjI impI exI [of _ "map (rhythm_bar (req_seed req) style fill) (chords req)"])
    (simp_all add: rhythm_generate_def list_all2_conv_all_nth)

theorem rhythm_track_ok_witness:
  "\<exists>bar. rhythm_generate
       \<lparr>chords = [\<lparr>start_tick = 2000, duration_ticks = 1920, root_pc = 0, quality = ''maj'', cs_channel = 0\<rparr>],
        req_seed = 3, req_ppq = 480\<rparr>
       \<lparr>resolution = Eighth, swing = 0, rs_seed = 0\<rparr> \<lparr>start_bar = 1, strength = 2\<rparr> = bar \<and>
     map hit_of bar =
       [(1920, 42), (1920, 36), (2160, 42), (2160, 38), (2400, 42), (2400, 36), (2640, 42), (2640, 38),
        (2880, 42), (2880, 36), (3120, 42), (3120, 38), (3360, 42), (3360, 36), (3600, 42), (3600, 38),
        (2880, 36), (3360, 38), (3360, 46)]"
  using rhythm_track_ok [of "\<lparr>resolution = Eighth, swing = 0, rs_seed = 0\<rparr>"
      "\<lparr>chords = [\<lparr>start_tick = 2000, duration_ticks = 1920, root_pc = 0, quality = ''maj'', cs_channel = 0\<rparr>],
        req_seed = 3, req_ppq = 480\<rparr>" "\<lparr>start_bar = 1, strength = 2\<rparr>"]
  by (auto simp: list_all2_Cons1 positions_def grid_def pattern_hits_def fill_hits_def upt_rec)

text \<open>
  At full swing on the sixteenth grid the delay is a whole sixteenth: every off-beat lands
  on the following position, and the last one of the bar on the first tick of the next bar.
\<close>

theorem full_swing_spills:
  "map unat (swung_ticks \<lparr>resolution = Sixteenth, swing = 1, rs_seed = s\<rparr>) =
   [0, 240, 240, 480, 480, 720, 720, 960, 960, 1200, 1200, 1440, 1440, 1680, 1680, 1920]"
proof -
  have d: "swing_delta 1 = 120" by code_simp
  have "map unat (swung_ticks \<lparr>resolution = Sixteenth, swing = 1, rs_seed = s\<rparr>) =
      map (\<lambda>i. i * 120 + (if odd i then 120 else 0)) [0..<16]"
    by (rule nth_equalityI) (simp_all add: unat_swung_tick positions_def grid_def d)
  then show ?thesis by (simp add: upt_rec)
qed

end
