(* ===== verification/Piano_Engine.thy ===== *)
theory Piano_Engine
  imports Chord_Engine
begin

text \<open>
  The piano engine (\<open>piano_engine.cpp\<close>): both hands on channel 0 in three styles. Velocities are
  drawn from an engine seeded with the request's seed and the chord's number.
\<close>

datatype piano_style = block_chords | arpeggio | comping

record pedal_style =
  sustain_on :: bool
  half_pedal_ticks :: int

record piano_request =
  chord_req :: chord_request
  pr_style :: piano_style
  pedal :: pedal_style
  bass_octave :: int
  treble_octave :: int

definition piano_offsets_for :: "string \<Rightarrow> int list" where
  "piano_offsets_for q =
     (if q = ''maj'' then [0, 4, 7]
      else if q = ''min'' then [0, 3, 7]
      else if q = ''7'' then [0, 4, 7, 10]
      else if q = ''m7'' then [0, 3, 7, 10]
      else if q = ''maj7'' then [0, 4, 7, 11]
      else if q = ''m7b5'' then [0, 3, 6, 10]
      else if q = ''dim'' then [0, 3, 6]
      else if q = ''dim7'' then [0, 3, 6, 9]
      else [0, 4, 7])"

definition piano_note :: "u32 \<Rightarrow> u32 \<Rightarrow> u8 \<Rightarrow> u8 \<Rightarrow> midi_event" where
  "piano_note on off n v = make_event on off n v 0"

definition in_piano_range :: "int \<Rightarrow> bool" where
  "in_piano_range n \<longleftrightarrow> n \<ge> 21 \<and> n \<le> 108"

text \<open>\<open>if (in_piano_range(n)) out.push_back(make_note(...))\<close>\<close>

definition push_in_range :: "u32 \<Rightarrow> u32 \<Rightarrow> int \<Rightarrow> u8 \<Rightarrow> midi_event list" where
  "push_in_range on off n v = (if in_piano_range n then [piano_note on off (word_of_int n) v] else [])"

definition piano_block :: "int \<Rightarrow> int \<Rightarrow> u64 \<Rightarrow> chord_spec \<Rightarrow> midi_event list" where
  "piano_block bass_base treble_base vel_seed cs =
     (let chord_on = start_tick cs;
          chord_off = start_tick cs + duration_ticks cs;
          (l, g1) = rng_mod 21 (mt_seed vel_seed);
          lv = (of_nat (60 + l) :: u8);
          root = bass_base + root_pc cs smod 12;
          fifth = bass_base + root_pc cs smod 12 + 7;
          (r, g2) = rng_mod 26 g1;
          rv = (of_nat (50 + r) :: u8)
      in push_in_range chord_on (chord_off - 10) root lv @
         push_in_range chord_on (chord_off - 10) fifth lv @
         concat (map (\<lambda>off. push_in_range chord_on (chord_off - 10)
                              (treble_base + root_pc cs smod 12 + off) rv)
                   (piano_offsets_for (quality cs))))"

definition piano_arpeggio :: "int \<Rightarrow> int \<Rightarrow> u64 \<Rightarrow> chord_spec \<Rightarrow> midi_event list" where
  "piano_arpeggio bass_base treble_base vel_seed cs =
     (let offsets = piano_offsets_for (quality cs);
          chord_on = start_tick cs;
          chord_off = start_tick cs + duration_ticks cs;
          chord_dur = sint (duration_ticks cs);
          (l, g1) = rng_mod 21 (mt_seed vel_seed);
          lv = (of_nat (60 + l) :: u8);
          root = bass_base + root_pc cs smod 12;
          fifth = bass_base + root_pc cs smod 12 + 7;
          half_dur = chord_dur sdiv 2;
          (r, g2) = rng_mod 26 g1;
          rv = (of_nat (50 + r) :: u8);
          n_notes = int (length offsets)
      in push_in_range chord_on (chord_on + word_of_int half_dur - 5) root lv @
         push_in_range (chord_on + word_of_int half_dur) (chord_off - 5) fifth lv @
         concat (map (\<lambda>(j, off).
             let on_tick = sint chord_on + (int j * chord_dur) sdiv n_notes;
                 off_tick = on_tick + chord_dur sdiv n_notes - 5
             in push_in_range (word_of_int on_tick) (word_of_int off_tick)
                  (treble_base + root_pc cs smod 12 + off) rv)
           (enumerate 0 offsets)))"

definition piano_comping :: "int \<Rightarrow> int \<Rightarrow> u32 \<Rightarrow> u64 \<Rightarrow> chord_spec \<Rightarrow> midi_event list" where
  "piano_comping bass_base treble_base ppq_u vel_seed cs =
     (let chord_on = start_tick cs;
          ppq = sint ppq_u;
          (r, g1) = rng_mod 26 (mt_seed vel_seed);
          rv = (of_nat (50 + r) :: u8);
          (l, g2) = rng_mod 21 g1;
          lv = (of_nat (60 + l) :: u8)
      in concat (map (\<lambda>beat.
             let bt = chord_on + word_of_int (beat * ppq)
             in concat (map (\<lambda>off. push_in_range bt (bt + word_of_int ppq - 10)
                                     (treble_base + root_pc cs smod 12 + off) rv)
                          (piano_offsets_for (quality cs)))) [0, 2]) @
         concat (map (\<lambda>beat.
             let bt = chord_on + word_of_int (beat * ppq)
             in push_in_range bt (bt + word_of_int ppq - 10) (bass_base + root_pc cs smod 12) lv) [1, 3]))"

definition piano_chord :: "piano_request \<Rightarrow> nat \<Rightarrow> chord_spec \<Rightarrow> midi_event list" where
  "piano_chord req i cs =
     (let bass_base = (bass_octave req + 1) * 12;
          treble_base = (treble_octave req + 1) * 12;
          vel_seed = req_seed (chord_req req) XOR of_nat i
      in case pr_style req of
           block_chords \<Rightarrow> piano_block bass_base treble_base vel_seed cs
         | arpeggio \<Rightarrow> piano_arpeggio bass_base treble_base vel_seed cs
         | comping \<Rightarrow> piano_comping bass_base treble_base (req_ppq (chord_req req)) vel_seed cs)"

definition piano_generate :: "piano_request \<Rightarrow> midi_event list" where
  "piano_generate req =
     concat (map (\<lambda>(i, cs). piano_chord req i cs) (enumerate 0 (chords (chord_req req))))"

subsection \<open>Range and velocity\<close>

lemma piano_offsets_for_eq: "piano_offsets_for q = offsets_for q"
  by (simp add: piano_offsets_for_def offsets_for_def chord_tables)

definition piano_ok :: "midi_event \<Rightarrow> bool" where
  "piano_ok e \<longleftrightarrow> note_in 21 108 e \<and> vel_in 50 80 e \<and> channel e = 0"

lemma push_in_range_ok:
  "50 \<le> unat v \<Longrightarrow> unat v \<le> 80 \<Longrightarrow> list_all piano_ok (push_in_range on off n v)"
  by (auto simp: push_in_range_def piano_note_def piano_ok_def in_piano_range_def note_in_def vel_in_def
      unat_u8_of_int_small)

lemma piano_draws:
  fixes g :: mt19937_64
  defines "l \<equiv> unat (60 + word_of_nat (fst (rng_mod 21 g)) :: u8)"
    and "r \<equiv> unat (50 + word_of_nat (fst (rng_mod 26 g)) :: u8)"
  shows "50 \<le> l" "l \<le> 80" "50 \<le> r" "r \<le> 80"
  using mt.draw_byte_bounds [of 21 60 g] mt.draw_byte_bounds [of 26 50 g]
  by (simp_all add: l_def r_def)

lemma list_all_concat_map: "(\<And>x. x \<in> set xs \<Longrightarrow> list_all P (f x)) \<Longrightarrow> list_all P (concat (map f xs))"
  by (auto simp: list_all_iff)

lemma piano_chord_ok: "list_all piano_ok (piano_chord req i cs)"
  unfolding piano_chord_def piano_block_def piano_arpeggio_def piano_comping_def
  by (auto simp: split_beta Let_def piano_draws split: piano_style.split
      intro!: push_in_range_ok list_all_concat_map)

text \<open>
  Whatever the octaves, the chords and the style, every piano event is a key of the piano
  (MIDI 21 to 108), has a velocity in 50..80 and is on channel 0.
\<close>

theorem piano_events_ok: "list_all piano_ok (piano_generate req)"
  unfolding piano_generate_def
  by (rule list_all_concat_map) (simp add: split_beta piano_chord_ok)

lemma push_in_range_in: "21 \<le> n \<Longrightarrow> n \<le> 108 \<Longrightarrow> push_in_range on off n v = [piano_note on off (word_of_int n) v]"
  by (simp add: push_in_range_def in_piano_range_def)

text \<open>
  With the default octaves (3 and 4) and a root given as a pitch class no note is lost to
  the range test: block chords and arpeggios have the chord's tones and a root and fifth in
  the left hand, comping has the chord's tones on beats 1 and 3 and the root on 2 and 4.
\<close>

theorem piano_default_octaves_complete:
  assumes "bass_octave req = 3" "treble_octave req = 4" "0 \<le> root_pc cs" "root_pc cs < 12"
  shows "length (piano_chord req i cs) =
           (if pr_style req = comping then 2 * length (offsets_for (quality cs)) + 2
            else length (offsets_for (quality cs)) + 2)"
proof -
  define offs where "offs = offsets_for (quality cs)"
  have o: "push_in_range a b (60 + root_pc cs + x) v = [piano_note a b (word_of_int (60 + root_pc cs + x)) v]"
    if "x \<in> set offs" for a b x v
    using offsets_ok [of "quality cs"] that assms(3,4) by (intro push_in_range_in) (auto simp: offs_def)
  have one: "length (concat (map (\<lambda>off. push_in_range (on off) (fin off) (60 + root_pc cs + off) v) offs)) = length offs"
    for on fin v
  proof -
    have "map length (map (\<lambda>off. push_in_range (on off) (fin off) (60 + root_pc cs + off) v) offs) =
        map (\<lambda>_. 1) offs"
      using o by simp
    then show ?thesis by (simp only: length_concat) (simp add: sum_list_triv)
  qed
  have two: "length (concat (map (\<lambda>(j, off). push_in_range (on j) (fin j) (60 + root_pc cs + off) v) (enumerate 0 offs))) = length offs"
    for on fin v
  proof -
    have "map length (map (\<lambda>(j, off). push_in_range (on j) (fin j) (60 + root_pc cs + off) v) (enumerate 0 offs)) =
        map (\<lambda>_. 1) (enumerate 0 offs)"
      using o by (auto simp: in_set_enumerate_eq)
    then show ?thesis by (simp only: length_concat) (simp add: sum_list_triv)
  qed
  show ?thesis
    using one two assms
    by (cases "pr_style req")
      (simp_all add: piano_chord_def piano_block_def piano_arpeggio_def piano_comping_def split_beta
        Let_def piano_offsets_for_eq smod_nonneg_eq push_in_range_in flip: offs_def)
qed

theorem piano_default_octaves_complete_witness:
  "length (piano_chord \<lparr>chord_req = \<lparr>chords = [], req_seed = 5, req_ppq = 480\<rparr>, pr_style = comping,
       pedal = \<lparr>sustain_on = True, half_pedal_ticks = 0\<rparr>, bass_octave = 3, treble_octave = 4\<rparr> 0
     \<lparr>start_tick = 0, duration_ticks = 960, root_pc = 2, quality = ''m7'', cs_channel = 0\<rparr>) = 10"
  using piano_default_octaves_complete [of
      "\<lparr>chord_req = \<lparr>chords = [], req_seed = 5, req_ppq = 480\<rparr>, pr_style = comping,
       pedal = \<lparr>sustain_on = True, half_pedal_ticks = 0\<rparr>, bass_octave = 3, treble_octave = 4\<rparr>"
      "\<lparr>start_tick = 0, duration_ticks = 960, root_pc = 2, quality = ''m7'', cs_channel = 0\<rparr>" 0]
  by (simp add: offsets_for_def chord_tables)

end
