(* ===== verification/Humanization_Engine.thy ===== *)
theory Humanization_Engine
  imports Midi_Types F32
begin

text \<open>
  The humanization engine (\<open>humanization_engine.cpp\<close>): micro-timing, velocity variation, swing and
  grid snap, all driven by one seeded random engine. Ticks are 32-bit unsigned in the event
  and are taken through \<open>int\<close> where the source does, so negative results wrap on the way back.
\<close>

datatype humanization_style = standard | swing_feel | laid_back | pushed | snap_grid

record humanization_params =
  hp_seed :: u64
  timing_jitter_ticks :: int
  velocity_variation :: int
  groove_swing :: rat
  snap_to_grid :: bool
  grid_resolution :: int

definition clamp :: "int \<Rightarrow> int \<Rightarrow> int \<Rightarrow> int" where
  "clamp v lo hi = max lo (min v hi)"

definition snap_tick :: "u32 \<Rightarrow> int \<Rightarrow> u32" where
  "snap_tick tick res =
     (if res \<le> 0 then tick
      else let half = res sdiv 2 in word_of_int ((sint tick + half) sdiv res * res))"

definition swing_delay_of :: "humanization_params \<Rightarrow> int" where
  "swing_delay_of p =
     (if groove_swing p > 0 then f32_trunc (f32_div (f32_mul (groove_swing p) (of_nat kPpq)) 4) else 0)"

text \<open>\<open>static_cast<int>(rng() % (2u * n + 1u)) - n\<close>\<close>

definition rng_spread :: "int \<Rightarrow> mt19937_64 \<Rightarrow> int \<times> mt19937_64" where
  "rng_spread n g =
     (let (r, g') = rng_mod (unat (2 * word_of_int n + 1 :: u32)) g
      in (sint (of_nat r :: u32) - n, g'))"

definition apply_groove :: "int \<Rightarrow> midi_event \<Rightarrow> midi_event" where
  "apply_groove swing_delay ev =
     (if swing_delay > 0 \<and> tick_on ev mod of_nat kPpq = of_nat (kPpq div 2)
      then ev\<lparr>tick_on := tick_on ev + word_of_int swing_delay,
              tick_off := tick_off ev + word_of_int swing_delay\<rparr>
      else ev)"

definition apply_jitter :: "int \<Rightarrow> midi_event \<Rightarrow> midi_event" where
  "apply_jitter jitter ev =
     (if jitter \<noteq> 0
      then let new_on = sint (tick_on ev) + jitter; new_off = sint (tick_off ev) + jitter
           in ev\<lparr>tick_on := word_of_int (max 0 new_on), tick_off := word_of_int (max (new_on + 1) new_off)\<rparr>
      else ev)"

definition ensure_length :: "u32 \<Rightarrow> midi_event \<Rightarrow> midi_event" where
  "ensure_length n ev = (if tick_off ev \<le> tick_on ev then ev\<lparr>tick_off := tick_on ev + n\<rparr> else ev)"

definition humanize_event ::
  "humanization_params \<Rightarrow> int \<Rightarrow> midi_event \<Rightarrow> mt19937_64 \<Rightarrow> midi_event \<times> mt19937_64" where
  "humanize_event p swing_delay ev g =
     (let ev1 = apply_groove swing_delay ev;
          (jitter, g1) = rng_spread (timing_jitter_ticks p) g;
          ev2 = apply_jitter jitter ev1;
          (v_delta, g2) = rng_spread (velocity_variation p) g1;
          ev3 = ev2\<lparr>velocity := word_of_int (clamp (int (unat (velocity ev2)) + v_delta) 1 127)\<rparr>
      in (ensure_length 1 ev3, g2))"

definition snap_event :: "int \<Rightarrow> midi_event \<Rightarrow> midi_event" where
  "snap_event res ev =
     ensure_length (word_of_int res)
       (ev\<lparr>tick_on := snap_tick (tick_on ev) res, tick_off := snap_tick (tick_off ev) res\<rparr>)"

definition humanize_apply :: "midi_event list \<Rightarrow> humanization_params \<Rightarrow> midi_event list" where
  "humanize_apply events p =
     (if events = [] then []
      else let swing_delay = swing_delay_of p;
               out = fst (for_each (\<lambda>ev g. let (e, g') = humanize_event p swing_delay ev g in ([e], g'))
                            events (mt_seed (hp_seed p)))
           in if snap_to_grid p \<and> grid_resolution p > 0
              then map (snap_event (grid_resolution p)) out else out)"

definition style_params :: "humanization_style \<Rightarrow> u64 \<Rightarrow> humanization_params" where
  "style_params st sd =
     (let p = \<lparr>hp_seed = sd, timing_jitter_ticks = 0, velocity_variation = 0, groove_swing = 0,
               snap_to_grid = False, grid_resolution = 120\<rparr>
      in case st of
           standard \<Rightarrow> p\<lparr>timing_jitter_ticks := 5, velocity_variation := 10\<rparr>
         | swing_feel \<Rightarrow> p\<lparr>timing_jitter_ticks := 3, velocity_variation := 8, groove_swing := f32_round (3/10)\<rparr>
         | laid_back \<Rightarrow> p\<lparr>timing_jitter_ticks := 5, velocity_variation := 8\<rparr>
         | pushed \<Rightarrow> p\<lparr>timing_jitter_ticks := 5, velocity_variation := 8\<rparr>
         | snap_grid \<Rightarrow> p\<lparr>snap_to_grid := True, grid_resolution := 120,
                          timing_jitter_ticks := 0, velocity_variation := 0\<rparr>)"

definition shift_event :: "int \<Rightarrow> midi_event \<Rightarrow> midi_event" where
  "shift_event d ev =
     (let new_on = sint (tick_on ev) + d; new_off = sint (tick_off ev) + d;
          on = (word_of_int (max 0 new_on) :: u32)
      in ev\<lparr>tick_on := on, tick_off := word_of_int (max (sint on + 1) new_off)\<rparr>)"

definition lay_back :: "midi_event \<Rightarrow> midi_event" where
  "lay_back ev =
     (let e = shift_event 10 ev
      in e\<lparr>velocity := word_of_int (max 1 (int (unat (velocity ev)) * 9 sdiv 10))\<rparr>)"

definition push_ahead :: "midi_event \<Rightarrow> midi_event" where
  "push_ahead ev =
     (let e = shift_event (- 5) ev
      in e\<lparr>velocity := word_of_int (min 127 (int (unat (velocity ev)) * 11 sdiv 10))\<rparr>)"

definition humanize_by_style ::
  "midi_event list \<Rightarrow> humanization_style \<Rightarrow> int \<Rightarrow> u64 \<Rightarrow> midi_event list" where
  "humanize_by_style input st bpm sd =
     (if input = [] then []
      else let out = humanize_apply input (style_params st sd)
           in case st of
                laid_back \<Rightarrow> map lay_back out
              | pushed \<Rightarrow> map push_ahead out
              | _ \<Rightarrow> out)"

subsection \<open>Draws\<close>

lemma rng_spread_bounds:
  assumes "0 \<le> n" "n < 2 ^ 20"
  shows "- n \<le> fst (rng_spread n g) \<and> fst (rng_spread n g) \<le> n"
proof -
  have m: "unat (2 * word_of_int n + 1 :: u32) = nat (2 * n + 1)"
    using unat_u32_of_int_small [of "2 * n + 1"] assms by simp
  define r where "r = fst (rng_mod (nat (2 * n + 1)) g)"
  have r: "r < nat (2 * n + 1)" using rng_mod_less [of "nat (2 * n + 1)" g] assms by (simp add: r_def)
  then have "r < 2 ^ 31" using assms by (auto simp: zless_nat_eq_int_zless)
  then have "unat (of_nat r :: u32) = r" by (simp add: unat_of_nat)
  then have "sint (of_nat r :: u32) = int r"
    using sint_small [of "of_nat r"] \<open>r < 2 ^ 31\<close> by (simp add: uint_nat)
  then show ?thesis
    using r assms by (simp add: rng_spread_def m split_beta flip: r_def)
qed

lemma rng_spread_0: "fst (rng_spread 0 g) = 0"
  using rng_spread_bounds [of 0 g] by simp

lemma swing_delay_bounds:
  assumes "groove_swing p \<le> 1"
  shows "0 \<le> swing_delay_of p \<and> swing_delay_of p \<le> 120"
proof (cases "groove_swing p > 0")
  case True
  then have m: "0 \<le> f32_mul (groove_swing p) 480" "f32_mul (groove_swing p) 480 \<le> 480"
    using f32_round_bounds [of "groove_swing p * 480" 480] assms by (simp_all add: f32_mul_def)
  then have "0 \<le> f32_div (f32_mul (groove_swing p) 480) 4" "f32_div (f32_mul (groove_swing p) 480) 4 \<le> 120"
    using f32_round_bounds [of "f32_mul (groove_swing p) 480 / 4" 120] by (simp_all add: f32_div_def)
  then show ?thesis
    using True f32_trunc_bounds [of _ 120] by (simp add: swing_delay_of_def kPpq_def)
qed (simp add: swing_delay_of_def)

subsection \<open>Every step keeps a note a note\<close>

text \<open>How far a note may have moved: both ends by at most \<open>d\<close>, everything else as it was.\<close>

definition moved :: "nat \<Rightarrow> midi_event \<Rightarrow> midi_event \<Rightarrow> bool" where
  "moved d ev e \<longleftrightarrow>
     unat (tick_on e) \<le> unat (tick_on ev) + d \<and> unat (tick_on ev) \<le> unat (tick_on e) + d \<and>
     unat (tick_off e) \<le> unat (tick_off ev) + d \<and> unat (tick_off ev) \<le> unat (tick_off e) + d \<and>
     note_no e = note_no ev \<and> channel e = channel ev \<and> articulation e = articulation ev"

lemma apply_groove_moved:
  assumes "0 \<le> sd" "sd \<le> 120" "unat (tick_on ev) < 2 ^ 30" "unat (tick_off ev) < 2 ^ 30" "sounding ev"
  shows "moved 120 ev (apply_groove sd ev)" "sounding (apply_groove sd ev)"
    "unat (tick_off ev) \<le> unat (tick_off (apply_groove sd ev))"
    "velocity (apply_groove sd ev) = velocity ev"
proof -
  have "unat (word_of_int sd :: u32) = nat sd" using assms(1,2) by (simp add: unat_u32_of_int_small)
  then have "unat (tick_on ev + word_of_int sd) = unat (tick_on ev) + nat sd"
    "unat (tick_off ev + word_of_int sd) = unat (tick_off ev) + nat sd"
    using assms by (simp_all add: unat_word_ariths)
  then show "moved 120 ev (apply_groove sd ev)" "sounding (apply_groove sd ev)"
    "unat (tick_off ev) \<le> unat (tick_off (apply_groove sd ev))"
    "velocity (apply_groove sd ev) = velocity ev"
    using assms by (auto simp: apply_groove_def moved_def sounding_def word_less_nat_alt)
qed

lemma apply_jitter_moved:
  assumes "- int n \<le> j" "j \<le> int n" "n < 2 ^ 20"
    and "unat (tick_on ev) < 2 ^ 31 - 2 ^ 20" "unat (tick_off ev) < 2 ^ 31 - 2 ^ 20" "sounding ev"
    and "n < unat (tick_off ev)"
  shows "moved n ev (apply_jitter j ev)" "sounding (apply_jitter j ev)"
    "velocity (apply_jitter j ev) = velocity ev"
proof -
  define a b where "a = unat (tick_on ev)" and "b = unat (tick_off ev)"
  have ab: "a < b" "b < 2 ^ 31 - 2 ^ 20" "unat (tick_on ev) = a" "unat (tick_off ev) = b" "n < b"
    using assms(4-7) by (simp_all add: a_def b_def sounding_def word_less_nat_alt)
  have s: "sint (tick_on ev) = int a" "sint (tick_off ev) = int b"
    using assms(4,5) by (simp_all add: a_def b_def sint_small)
  have "unat (word_of_int (max 0 (int a + j)) :: u32) = nat (max 0 (int a + j))"
    using assms(1-3) ab(1,2,5) by (intro unat_u32_of_int_small) simp_all
  moreover have "unat (word_of_int (max (int a + j + 1) (int b + j)) :: u32) = nat (int b + j)"
    using assms(1-3) ab(1,2,5) by (subst unat_u32_of_int_small) simp_all
  ultimately have new: "unat (tick_on (apply_jitter j ev)) = nat (max 0 (int a + j))"
    "unat (tick_off (apply_jitter j ev)) = nat (int b + j)"
    by (simp_all add: apply_jitter_def s ab(3,4) Let_def del: of_int_add of_int_max)
  have rest: "note_no (apply_jitter j ev) = note_no ev" "channel (apply_jitter j ev) = channel ev"
    "articulation (apply_jitter j ev) = articulation ev" "velocity (apply_jitter j ev) = velocity ev"
    by (simp_all add: apply_jitter_def Let_def)
  show "moved n ev (apply_jitter j ev)"
    unfolding moved_def new rest ab(3,4) using assms(1-3) ab(1,2,5) by auto
  show "sounding (apply_jitter j ev)"
    unfolding sounding_def word_less_nat_alt new using assms(1-3) ab(1,2,5) by auto
  show "velocity (apply_jitter j ev) = velocity ev" by (rule rest)
qed

lemma moved_trans: "moved c x y \<Longrightarrow> moved d y z \<Longrightarrow> moved (c + d) x z"
  by (auto simp: moved_def)

lemma ensure_length_sounding: "sounding ev \<Longrightarrow> ensure_length n ev = ev"
  by (auto simp: sounding_def ensure_length_def)

lemma clamp_velocity: "1 \<le> unat (word_of_int (clamp v 1 127) :: u8) \<and> unat (word_of_int (clamp v 1 127) :: u8) \<le> 127"
  by (auto simp: clamp_def unat_u8_of_int_small)

lemma moved_velocity [simp]: "moved d ev (e\<lparr>velocity := v\<rparr>) = moved d ev e"
  by (simp add: moved_def)

lemma sounding_velocity [simp]: "sounding (e\<lparr>velocity := v\<rparr>) = sounding e"
  by (simp add: sounding_def)

lemma ensure_length_velocity [simp]: "velocity (ensure_length n e) = velocity e"
  by (simp add: ensure_length_def)

lemma humanize_event_velocity: "vel_in 1 127 (fst (humanize_event p sd ev g))"
  using clamp_velocity by (simp add: humanize_event_def split_beta Let_def vel_in_def)

lemma humanize_event_moved:
  assumes "0 \<le> timing_jitter_ticks p" "timing_jitter_ticks p < 2 ^ 20" "0 \<le> sd" "sd \<le> 120"
    and "unat (tick_off ev) < 2 ^ 30" "sounding ev" "nat (timing_jitter_ticks p) < unat (tick_off ev)"
  shows "sounding (fst (humanize_event p sd ev g))"
    and "moved (120 + nat (timing_jitter_ticks p)) ev (fst (humanize_event p sd ev g))"
proof -
  define ev1 where "ev1 = apply_groove sd ev"
  define ev2 where "ev2 = apply_jitter (fst (rng_spread (timing_jitter_ticks p) g)) ev1"
  have on: "unat (tick_on ev) < 2 ^ 30"
    using assms(5,6) by (simp add: sounding_def word_less_nat_alt)
  note g1 = apply_groove_moved [OF assms(3,4) on assms(5,6), folded ev1_def]
  have bounds: "unat (tick_on ev1) < 2 ^ 31 - 2 ^ 20" "unat (tick_off ev1) < 2 ^ 31 - 2 ^ 20"
    "nat (timing_jitter_ticks p) < unat (tick_off ev1)" "nat (timing_jitter_ticks p) < 2 ^ 20"
    using g1(1,3) assms(1,2,5,7) on by (simp_all add: moved_def)
  have j: "- int (nat (timing_jitter_ticks p)) \<le> fst (rng_spread (timing_jitter_ticks p) g)"
    "fst (rng_spread (timing_jitter_ticks p) g) \<le> int (nat (timing_jitter_ticks p))"
    using rng_spread_bounds [OF assms(1,2), of g] assms(1) by simp_all
  note g2 = apply_jitter_moved [OF j bounds(4,1,2) g1(2) bounds(3), folded ev2_def]
  then have "moved (120 + nat (timing_jitter_ticks p)) ev ev2" "sounding ev2"
    using moved_trans [OF g1(1) g2(1)] by blast+
  then show "sounding (fst (humanize_event p sd ev g))"
    and "moved (120 + nat (timing_jitter_ticks p)) ev (fst (humanize_event p sd ev g))"
    by (simp_all add: humanize_event_def split_beta Let_def ensure_length_sounding flip: ev1_def ev2_def)
qed

text \<open>
  C20. Humanizing without the grid keeps a performance a performance, under these conditions: a jitter from 0 to
  below 2^20, a groove swing of at most 1, and notes that sound (end after they start), end
  below tick 2^30 and end after more ticks than the jitter. Then the
  result has one note per note, in order, each still with its end after its start, moved at
  both ends by at most the jitter plus the swing delay (120 ticks), with its pitch, channel
  and articulation, and with a velocity in 1..127. A note that ends within the jitter can be moved before
  tick 0, and then its end wraps around to almost 2^32: see \<open>jitter_wraps_short_note\<close>.
\<close>

theorem humanize_keeps_notes:
  assumes "0 \<le> timing_jitter_ticks p" "timing_jitter_ticks p < 2 ^ 20" "groove_swing p \<le> 1" "\<not> snap_to_grid p"
    and "list_all (\<lambda>ev. sounding ev \<and> unat (tick_off ev) < 2 ^ 30 \<and>
                       nat (timing_jitter_ticks p) < unat (tick_off ev)) events"
  shows "list_all2 (\<lambda>ev e. sounding e \<and> moved (120 + nat (timing_jitter_ticks p)) ev e \<and> vel_in 1 127 e)
           events (humanize_apply events p)"
proof -
  have "list_all2 (\<lambda>ev e. sounding e \<and> moved (120 + nat (timing_jitter_ticks p)) ev e \<and> vel_in 1 127 e) events
      (fst (for_each (\<lambda>ev g. let (e, g') = humanize_event p (swing_delay_of p) ev g in ([e], g'))
         events (mt_seed (hp_seed p))))"
    using assms swing_delay_bounds [OF assms(3)] humanize_event_velocity
    by (intro for_each_list_all2) (auto simp: split_beta list_all_iff intro!: humanize_event_moved)
  then show ?thesis using assms(4) by (simp add: humanize_apply_def Let_def)
qed

theorem humanize_keeps_notes_witness:
  "list_all2 (\<lambda>ev e. sounding e \<and> moved 125 ev e \<and> vel_in 1 127 e)
     [make_event 0 480 60 100 0, make_event 240 470 64 90 0]
     (humanize_apply [make_event 0 480 60 100 0, make_event 240 470 64 90 0]
        \<lparr>hp_seed = 9, timing_jitter_ticks = 5, velocity_variation = 10, groove_swing = 1/2,
         snap_to_grid = False, grid_resolution = 120\<rparr>)"
  using humanize_keeps_notes [of "\<lparr>hp_seed = 9, timing_jitter_ticks = 5, velocity_variation = 10,
      groove_swing = 1/2, snap_to_grid = False, grid_resolution = 120\<rparr>"
      "[make_event 0 480 60 100 0, make_event 240 470 64 90 0]"]
  by (simp add: sounding_def)

text \<open>
  The end of a short note at the start of the piece can wrap around: when the drawn jitter
  moves the end of the note below tick 0, the negative tick is stored unsigned, and the note
  lasts until the end of the 32-bit time line. The later test \<open>tick_off <= tick_on\<close> does not
  see it.
\<close>

theorem jitter_wraps_short_note:
  assumes "unat (tick_on ev) < unat (tick_off ev)" "int (unat (tick_off ev)) < - j" "- j < 2 ^ 20"
  shows "tick_on (ensure_length 1 (apply_jitter j ev)) = 0 \<and>
         2 ^ 32 - 2 ^ 20 < unat (tick_off (ensure_length 1 (apply_jitter j ev)))"
proof -
  define a b where "a = unat (tick_on ev)" and "b = unat (tick_off ev)"
  have ab: "a < b" "int b < - j" using assms by (simp_all add: a_def b_def)
  then have "int b < 2 ^ 20" using assms(3) by linarith
  then have "b < 2 ^ 31" by simp
  then have "unat (tick_on ev) < 2 ^ 31" "unat (tick_off ev) < 2 ^ 31"
    using ab(1) by (simp_all add: a_def b_def)
  then have s: "sint (tick_on ev) = int a" "sint (tick_off ev) = int b"
    by (simp_all add: a_def b_def sint_small)
  have "(word_of_int (int b + j) :: u32) = word_of_int (int b + j + 2 ^ 32)"
    by (rule word_of_int_eq_iff [THEN iffD2]) (simp add: take_bit_eq_mod)
  moreover have "unat (word_of_int (int b + j + 2 ^ 32) :: u32) = nat (int b + j + 2 ^ 32)"
    using ab assms(3) by (intro unat_u32_of_int_small) simp_all
  ultimately have "unat (word_of_int (int b + j) :: u32) = nat (int b + j + 2 ^ 32)"
    by (simp only:)
  moreover have "tick_on (apply_jitter j ev) = 0" "tick_off (apply_jitter j ev) = word_of_int (int b + j)"
    using ab by (simp_all add: apply_jitter_def s Let_def)
  ultimately show ?thesis
    using ab assms(3) by (simp add: ensure_length_def word_le_nat_alt)
qed

theorem jitter_wraps_short_note_witness:
  "tick_on (ensure_length 1 (apply_jitter (- 5) (make_event 0 3 60 100 0))) = 0 \<and>
   2 ^ 32 - 2 ^ 20 < unat (tick_off (ensure_length 1 (apply_jitter (- 5) (make_event 0 3 60 100 0))))"
  by (rule jitter_wraps_short_note) simp_all

subsection \<open>Styles\<close>

lemma humanize_apply_velocity: "list_all (vel_in 1 127) (humanize_apply events p)"
proof -
  have v: "list_all (vel_in 1 127)
      (fst (for_each (\<lambda>ev g. let (e, g') = humanize_event p (swing_delay_of p) ev g in ([e], g')) events g))" for g
    using humanize_event_velocity by (intro for_each_all) (simp add: split_beta)
  then show ?thesis
    by (auto simp: humanize_apply_def Let_def list_all_iff snap_event_def vel_in_def)
qed

lemma scaled_velocity:
  assumes "1 \<le> unat (v :: u8)" "unat v \<le> 127"
  shows "1 \<le> unat (word_of_int (max 1 (int (unat v) * 9 sdiv 10)) :: u8)"
    and "unat (word_of_int (max 1 (int (unat v) * 9 sdiv 10)) :: u8) \<le> 127"
    and "1 \<le> unat (word_of_int (min 127 (int (unat v) * 11 sdiv 10)) :: u8)"
    and "unat (word_of_int (min 127 (int (unat v) * 11 sdiv 10)) :: u8) \<le> 127"
proof -
  obtain n where n: "int (unat v) = int n" "1 \<le> n" "n \<le> 127" using assms by blast
  then have "int n * 9 div 10 \<le> 127" "1 \<le> int n * 11 div 10" by linarith+
  then have "1 \<le> max 1 (int n * 9 sdiv 10)" "max 1 (int n * 9 sdiv 10) \<le> 127"
    "1 \<le> min 127 (int n * 11 sdiv 10)" "min 127 (int n * 11 sdiv 10) \<le> 127"
    by (simp_all add: sdiv_nonneg_eq)
  then show "1 \<le> unat (word_of_int (max 1 (int (unat v) * 9 sdiv 10)) :: u8)"
    and "unat (word_of_int (max 1 (int (unat v) * 9 sdiv 10)) :: u8) \<le> 127"
    and "1 \<le> unat (word_of_int (min 127 (int (unat v) * 11 sdiv 10)) :: u8)"
    and "unat (word_of_int (min 127 (int (unat v) * 11 sdiv 10)) :: u8) \<le> 127"
    unfolding n(1) by (simp_all only: unat_u8_of_int_small)
qed

text \<open>
  Every style leaves every velocity in 1..127, for any input, tempo and seed: the clamp of
  the base pass and the 9/10 and 11/10 scalings of the laid-back and pushed passes do not
  leave the range or reach 0.
\<close>

theorem style_velocities: "list_all (vel_in 1 127) (humanize_by_style input st bpm sd)"
proof -
  have v: "velocity (lay_back e) = word_of_int (max 1 (int (unat (velocity e)) * 9 sdiv 10))"
    "velocity (push_ahead e) = word_of_int (min 127 (int (unat (velocity e)) * 11 sdiv 10))" for e
    by (simp_all add: lay_back_def push_ahead_def Let_def)
  have "vel_in 1 127 (lay_back e) \<and> vel_in 1 127 (push_ahead e)" if "vel_in 1 127 e" for e
    using that scaled_velocity [of "velocity e"] unfolding vel_in_def v by blast
  then show ?thesis
    using humanize_apply_velocity [of input "style_params st sd"]
    by (auto simp: humanize_by_style_def Let_def list_all_iff split: humanization_style.split)
qed

lemma snap_tick_120:
  assumes "unat t < 2 ^ 30"
  shows "unat (snap_tick t 120) = (unat t + 60) div 120 * 120"
proof -
  define a where "a = unat t"
  have "sint t = int a" using assms by (simp add: a_def sint_small)
  then have "snap_tick t 120 = word_of_int (int ((a + 60) div 120 * 120))"
    by (simp add: snap_tick_def Let_def sdiv_nonneg_eq zdiv_int)
  moreover have "(a + 60) div 120 * 120 < 2 ^ 32" using assms by (simp add: a_def)
  ultimately show ?thesis
    using unat_u32_of_int_small [of "int ((a + 60) div 120 * 120)"] by (simp add: a_def)
qed

lemma snap_event_grid:
  assumes "sounding ev" "unat (tick_off ev) < 2 ^ 30"
  shows "unat (tick_on (snap_event 120 ev)) = (unat (tick_on ev) + 60) div 120 * 120"
    and "120 dvd unat (tick_off (snap_event 120 ev))"
    and "tick_on (snap_event 120 ev) < tick_off (snap_event 120 ev)"
    and "note_no (snap_event 120 ev) = note_no ev" "channel (snap_event 120 ev) = channel ev"
      "velocity (snap_event 120 ev) = velocity ev"
proof -
  define a where "a = (unat (tick_on ev) + 60) div 120"
  have on: "unat (tick_on ev) < 2 ^ 30" using assms by (simp add: sounding_def word_less_nat_alt)
  have sa: "unat (snap_tick (tick_on ev) 120) = a * 120" unfolding a_def by (rule snap_tick_120 [OF on])
  have "a * 120 \<le> 2 ^ 30 + 60" unfolding a_def using on div_times_less_eq_dividend [of "unat (tick_on ev) + 60" 120] by simp
  then have sum: "unat (snap_tick (tick_on ev) 120 + 120) = a * 120 + 120"
    using sa by (simp add: unat_word_ariths)
  show "unat (tick_on (snap_event 120 ev)) = (unat (tick_on ev) + 60) div 120 * 120"
    using sa by (simp add: snap_event_def ensure_length_def a_def)
  show "120 dvd unat (tick_off (snap_event 120 ev))"
    using sum snap_tick_120 [OF assms(2)] by (simp add: snap_event_def ensure_length_def)
  show "tick_on (snap_event 120 ev) < tick_off (snap_event 120 ev)"
    using sum sa by (simp add: snap_event_def ensure_length_def word_less_nat_alt word_le_nat_alt)
qed (simp_all add: snap_event_def ensure_length_def)

text \<open>
  The snap style quantizes and nothing else: every note starts and ends on the 120-tick
  grid, starts at the grid point nearest to its old start (ties upwards), is at least one
  grid step long, and keeps pitch, channel and, when it was in 1..127, velocity.
\<close>

theorem snap_style_quantizes:
  assumes "list_all (\<lambda>ev. sounding ev \<and> unat (tick_off ev) < 2 ^ 30) input"
  shows "list_all2 (\<lambda>ev e. unat (tick_on e) = (unat (tick_on ev) + 60) div 120 * 120 \<and>
             120 dvd unat (tick_off e) \<and> tick_on e < tick_off e \<and>
             note_no e = note_no ev \<and> channel e = channel ev \<and>
             (vel_in 1 127 ev \<longrightarrow> velocity e = velocity ev))
           input (humanize_by_style input snap_grid bpm sd)"
proof -
  define p where "p = style_params snap_grid sd"
  have p: "timing_jitter_ticks p = 0" "velocity_variation p = 0" "swing_delay_of p = 0"
    "snap_to_grid p" "grid_resolution p = 120"
    by (simp_all add: p_def style_params_def swing_delay_of_def Let_def)
  have ev: "fst (humanize_event p 0 ev g) = ev\<lparr>velocity := word_of_int (clamp (int (unat (velocity ev))) 1 127)\<rparr>"
    if "sounding ev" for ev g
    using that by (simp add: humanize_event_def p rng_spread_0 apply_groove_def apply_jitter_def split_beta
        Let_def ensure_length_sounding)
  have vel: "word_of_int (clamp (int (unat (velocity ev))) 1 127) = velocity ev" if "vel_in 1 127 ev" for ev
  proof -
    have "clamp (int (unat (velocity ev))) 1 127 = int (unat (velocity ev))"
      using that unfolding vel_in_def clamp_def by linarith
    then show ?thesis by (simp only:) simp
  qed
  define R where "R = (\<lambda>ev e. e = snap_event 120 (ev\<lparr>velocity := word_of_int (clamp (int (unat (velocity ev))) 1 127)\<rparr>))"
  have "list_all2 (\<lambda>ev e. e = ev\<lparr>velocity := word_of_int (clamp (int (unat (velocity ev))) 1 127)\<rparr>) input
      (fst (for_each (\<lambda>ev g. let (e, g') = humanize_event p 0 ev g in ([e], g')) input (mt_seed (hp_seed p))))"
    using assms ev by (intro for_each_list_all2) (auto simp: split_beta list_all_iff)
  then have "list_all2 R input (humanize_apply input p)"
    by (auto simp: humanize_apply_def p Let_def R_def list_all2_map2 elim!: list_all2_mono)
  then have "list_all2 R input (humanize_by_style input snap_grid bpm sd)"
    by (auto simp: humanize_by_style_def p_def)
  then show ?thesis
  proof (rule list.rel_mono_strong, goal_cases)
    case (1 ev e)
    then have ev: "sounding ev" "unat (tick_off ev) < 2 ^ 30"
      using assms by (auto simp: list_all_iff)
    define w where "w = (word_of_int (clamp (int (unat (velocity ev))) 1 127) :: u8)"
    have e: "e = snap_event 120 (ev\<lparr>velocity := w\<rparr>)" using 1(3) unfolding R_def w_def .
    have w: "velocity e = w" using ev snap_event_grid(6) [of "ev\<lparr>velocity := w\<rparr>"] by (simp add: e)
    have "vel_in 1 127 ev \<longrightarrow> velocity e = velocity ev" using vel unfolding w w_def by blast
    then show ?case
      using ev snap_event_grid(1-5) [of "ev\<lparr>velocity := w\<rparr>"] by (simp add: e [symmetric])
  qed
qed

theorem snap_style_quantizes_witness:
  "list_all2 (\<lambda>ev e. unat (tick_on e) = (unat (tick_on ev) + 60) div 120 * 120 \<and>
       120 dvd unat (tick_off e) \<and> tick_on e < tick_off e \<and>
       note_no e = note_no ev \<and> channel e = channel ev \<and>
       (vel_in 1 127 ev \<longrightarrow> velocity e = velocity ev))
     [make_event 55 170 60 100 0, make_event 61 90 64 90 0]
     (humanize_by_style [make_event 55 170 60 100 0, make_event 61 90 64 90 0] snap_grid 120 7)"
  by (rule snap_style_quantizes) simp

end
