(* ===== verification/Blueprint_Types.thy ===== *)
theory Blueprint_Types
  imports Midi_Types F32
begin

text \<open>
  The blueprint that flows from the prompt interpreter through the generator to the planners
  (\<open>IPromptInterpreter.hpp\<close>). A \<open>float\<close> field is the rational it stands for.
\<close>

datatype energy_level = Unspecified | Low | Mid | High

record emotion =
  valence :: rat
  arousal :: rat
  dominance :: rat

record blueprint_section =
  sec_name :: string
  sec_bars :: int
  sec_energy :: energy_level
  sec_density :: rat
  sec_complexity :: rat

record blueprint_instrument =
  inst_name :: string
  inst_role :: string
  inst_channel :: int
  inst_program :: int

record music_blueprint =
  bp_seed :: u64
  root_key :: string
  bp_scale :: string
  bp_bpm :: int
  bp_ppq :: int
  genres :: "string list"
  bp_emotion :: emotion
  bp_energy :: energy_level
  sections :: "blueprint_section list"
  instruments :: "blueprint_instrument list"

definition default_emotion :: emotion where
  "default_emotion = \<lparr>valence = 1/2, arousal = 1/2, dominance = 1/2\<rparr>"

definition default_blueprint :: music_blueprint where
  "default_blueprint =
     \<lparr>bp_seed = 0, root_key = ''C'', bp_scale = ''major'', bp_bpm = 120, bp_ppq = 480, genres = [],
      bp_emotion = default_emotion, bp_energy = Mid, sections = [], instruments = []\<rparr>"

text \<open>\<open>static_cast<int>(e)\<close> of the enumeration, which is also its order.\<close>

fun energy_to_int :: "energy_level \<Rightarrow> int" where
  "energy_to_int Unspecified = 0"
| "energy_to_int Low = 1"
| "energy_to_int Mid = 2"
| "energy_to_int High = 3"

instantiation energy_level :: linorder
begin

definition less_eq_energy_level :: "energy_level \<Rightarrow> energy_level \<Rightarrow> bool" where
  "less_eq_energy_level a b \<longleftrightarrow> energy_to_int a \<le> energy_to_int b"

definition less_energy_level :: "energy_level \<Rightarrow> energy_level \<Rightarrow> bool" where
  "less_energy_level a b \<longleftrightarrow> energy_to_int a < energy_to_int b"

instance
proof
  fix x y :: energy_level
  show "x \<le> y \<Longrightarrow> y \<le> x \<Longrightarrow> x = y"
    by (cases x; cases y) (simp_all add: less_eq_energy_level_def)
qed (auto simp: less_eq_energy_level_def less_energy_level_def)

end

lemma energy_to_int_le [simp]: "energy_to_int a \<le> energy_to_int b \<longleftrightarrow> a \<le> b"
  and energy_to_int_less [simp]: "energy_to_int a < energy_to_int b \<longleftrightarrow> a < b"
  by (simp_all add: less_eq_energy_level_def less_energy_level_def)

lemma energy_to_int_inj [simp]: "energy_to_int a = energy_to_int b \<longleftrightarrow> a = b"
  by (cases a; cases b) simp_all

end
