(* ===== verification/Timeline_Planner.thy ===== *)
theory Timeline_Planner
  imports Blueprint_Types
begin

text \<open>
  The timeline planner (\<open>timeline_planner.cpp\<close>): sections laid out bar after bar, with one-bar
  fills between some of them.
\<close>

record planned_section =
  ps_name :: string
  ps_start_bar :: int
  ps_end_bar :: int
  ps_bars :: int
  ps_energy :: energy_level
  ps_density :: rat
  ps_complexity :: rat

record section_transition =
  from_section_index :: int
  to_section_index :: int
  transition_bars :: int
  transition_type :: string

record timeline =
  tl_sections :: "planned_section list"
  tl_transitions :: "section_transition list"
  total_bars :: int
  total_ticks :: int

definition has_energy_increased :: "blueprint_section \<Rightarrow> blueprint_section \<Rightarrow> bool" where
  "has_energy_increased prev nxt \<longleftrightarrow> energy_to_int (sec_energy nxt) > energy_to_int (sec_energy prev)"

definition make_transition :: "int \<Rightarrow> int \<Rightarrow> int \<Rightarrow> string \<Rightarrow> section_transition" where
  "make_transition from to bars ty =
     \<lparr>from_section_index = from, to_section_index = to, transition_bars = bars, transition_type = ty\<rparr>"

fun density_for_energy :: "energy_level \<Rightarrow> rat" where
  "density_for_energy Low = f32_round (3/10)"
| "density_for_energy High = f32_round (8/10)"
| "density_for_energy _ = 1/2"

fun complexity_for_energy :: "energy_level \<Rightarrow> rat" where
  "complexity_for_energy Low = f32_round (2/10)"
| "complexity_for_energy High = f32_round (6/10)"
| "complexity_for_energy _ = f32_round (4/10)"

definition make_planned :: "blueprint_section \<Rightarrow> int \<Rightarrow> planned_section" where
  "make_planned s start =
     (let dens = (if sec_density s > 0 then sec_density s else density_for_energy (sec_energy s));
          cplx = (if sec_complexity s > 0 then sec_complexity s else complexity_for_energy (sec_energy s));
          bars = (if sec_bars s > 0 then sec_bars s else 4)
      in \<lparr>ps_name = sec_name s, ps_start_bar = start, ps_end_bar = start + bars, ps_bars = bars,
          ps_energy = sec_energy s, ps_density = dens, ps_complexity = cplx\<rparr>)"

definition determine_transition ::
  "int \<Rightarrow> blueprint_section \<Rightarrow> blueprint_section \<Rightarrow> section_transition" where
  "determine_transition i prev nxt =
     (if sec_name nxt = ''outro'' then make_transition i (i + 1) 0 ''direct''
      else if sec_name prev = ''intro'' \<and> sec_name nxt = ''verse'' then make_transition i (i + 1) 0 ''direct''
      else if sec_name prev = ''chorus'' \<and> sec_name nxt = ''verse'' then make_transition i (i + 1) 0 ''direct''
      else if sec_name prev = ''chorus'' \<and> sec_name nxt = ''bridge'' then make_transition i (i + 1) 1 ''fill''
      else if sec_name prev = ''bridge'' \<and> sec_name nxt = ''chorus'' then make_transition i (i + 1) 1 ''fill''
      else if sec_name prev = ''verse'' \<and> sec_name nxt = ''chorus'' then
        (if has_energy_increased prev nxt then make_transition i (i + 1) 1 ''fill''
         else make_transition i (i + 1) 0 ''direct'')
      else if energy_to_int (sec_energy prev) \<noteq> energy_to_int (sec_energy nxt) then
        make_transition i (i + 1) 1 ''fill''
      else make_transition i (i + 1) 0 ''direct'')"

text \<open>The loop over the sections from index \<open>i\<close> on, with \<open>current_bar\<close>.\<close>

fun plan_loop ::
  "int \<Rightarrow> int \<Rightarrow> blueprint_section list \<Rightarrow> planned_section list \<times> section_transition list \<times> int" where
  "plan_loop i current_bar [] = ([], [], current_bar)"
| "plan_loop i current_bar [s] = ([make_planned s current_bar], [], ps_end_bar (make_planned s current_bar))"
| "plan_loop i current_bar (s # s' # rest) =
     (let ps = make_planned s current_bar;
          tr = determine_transition i s s';
          (pss, trs, bar) = plan_loop (i + 1) (ps_end_bar ps + transition_bars tr) (s' # rest)
      in (ps # pss, tr # trs, bar))"

definition timeline_plan :: "music_blueprint \<Rightarrow> timeline" where
  "timeline_plan bp =
     (let (pss, trs, bar) = plan_loop 0 0 (sections bp)
      in \<lparr>tl_sections = pss, tl_transitions = trs, total_bars = bar, total_ticks = bar * 4 * int kPpq\<rparr>)"

subsection \<open>Transitions\<close>

lemma transition_cases:
  "from_section_index (determine_transition i a b) = i"
  "to_section_index (determine_transition i a b) = i + 1"
  "transition_bars (determine_transition i a b) = 0 \<and> transition_type (determine_transition i a b) = ''direct'' \<or>
   transition_bars (determine_transition i a b) = 1 \<and> transition_type (determine_transition i a b) = ''fill''"
  by (simp_all add: determine_transition_def make_transition_def)

text \<open>
  When a fill bar is inserted: never before an outro, always between chorus and bridge (both
  ways), never from the intro or a chorus into a verse, from verse to chorus exactly when the
  energy rises, and between any other two sections exactly when their energies differ.
\<close>

theorem fill_rule:
  "transition_bars (determine_transition i a b) = 1 \<longleftrightarrow>
     sec_name b \<noteq> ''outro'' \<and>
     (sec_name a = ''chorus'' \<and> sec_name b = ''bridge'' \<or>
      sec_name a = ''bridge'' \<and> sec_name b = ''chorus'' \<or>
      sec_name a = ''verse'' \<and> sec_name b = ''chorus'' \<and> sec_energy a < sec_energy b \<or>
      \<not> (sec_name b = ''verse'' \<and> (sec_name a = ''intro'' \<or> sec_name a = ''chorus'')) \<and>
      \<not> (sec_name a = ''verse'' \<and> sec_name b = ''chorus'') \<and> sec_energy a \<noteq> sec_energy b)"
  by (auto simp: determine_transition_def make_transition_def has_energy_increased_def)

subsection \<open>Layout\<close>

text \<open>The layout from a start bar: each section directly follows the one before and its fill.\<close>

fun laid_out :: "int \<Rightarrow> planned_section list \<Rightarrow> section_transition list \<Rightarrow> int \<Rightarrow> bool" where
  "laid_out start [] trs fin \<longleftrightarrow> trs = [] \<and> fin = start"
| "laid_out start [ps] trs fin \<longleftrightarrow>
     trs = [] \<and> ps_start_bar ps = start \<and> ps_end_bar ps = start + ps_bars ps \<and> fin = ps_end_bar ps"
| "laid_out start (ps # ps' # pss) [] fin \<longleftrightarrow> False"
| "laid_out start (ps # ps' # pss) (tr # trs) fin \<longleftrightarrow>
     ps_start_bar ps = start \<and> ps_end_bar ps = start + ps_bars ps \<and>
     laid_out (ps_end_bar ps + transition_bars tr) (ps' # pss) trs fin"

lemma plan_loop_nonempty: "fst (plan_loop i c (s # r)) = make_planned s c # tl (fst (plan_loop i c (s # r)))"
  by (cases r) (simp_all add: split_beta Let_def)

lemma plan_loop_laid_out:
  "laid_out c (fst (plan_loop i c ss)) (fst (snd (plan_loop i c ss))) (snd (snd (plan_loop i c ss)))"
proof (induction i c ss rule: plan_loop.induct)
  case (3 i c s s' rest)
  define ps tr where "ps = make_planned s c" and "tr = determine_transition i s s'"
  define nxt where "nxt = plan_loop (i + 1) (ps_end_bar ps + transition_bars tr) (s' # rest)"
  have IH: "laid_out (ps_end_bar ps + transition_bars tr) (fst nxt) (fst (snd nxt)) (snd (snd nxt))"
    unfolding nxt_def by (rule "3.IH" [OF ps_def tr_def])
  moreover have "fst nxt = make_planned s' (ps_end_bar ps + transition_bars tr) # tl (fst nxt)"
    unfolding nxt_def by (rule plan_loop_nonempty)
  then obtain q qs where "fst nxt = q # qs" by blast
  moreover have "ps_start_bar ps = c" "ps_end_bar ps = c + ps_bars ps"
    by (simp_all add: ps_def make_planned_def Let_def)
  moreover have "plan_loop i c (s # s' # rest) = (ps # fst nxt, tr # fst (snd nxt), snd (snd nxt))"
    by (simp add: split_beta Let_def ps_def tr_def nxt_def)
  ultimately show ?case by (simp only: fst_conv snd_conv) simp
qed (simp_all add: make_planned_def Let_def)

lemma plan_loop_sections:
  "list_all2 (\<lambda>s ps. ps_name ps = sec_name s \<and> ps_energy ps = sec_energy s \<and> ps_bars ps = (if 0 < sec_bars s then sec_bars s else 4))
     ss (fst (plan_loop i c ss))"
  by (induction i c ss rule: plan_loop.induct) (auto simp: make_planned_def Let_def split_beta)

lemma plan_loop_transitions:
  "length (fst (snd (plan_loop i c ss))) = length ss - 1 \<and>
   (\<forall>k < length ss - 1. fst (snd (plan_loop i c ss)) ! k =
      determine_transition (i + int k) (ss ! k) (ss ! Suc k))"
proof (induction i c ss rule: plan_loop.induct)
  case (3 i c s s' rest)
  then show ?case
    by (auto simp: split_beta Let_def less_Suc_eq_0_disj algebra_simps)
qed simp_all

lemma laid_out_total:
  "laid_out c pss trs fin \<Longrightarrow>
   fin = c + sum_list (map ps_bars pss) + sum_list (map transition_bars trs)"
  by (induction c pss trs fin rule: laid_out.induct) auto

lemma laid_out_nth:
  "laid_out c pss trs fin \<Longrightarrow> k < length pss \<Longrightarrow>
   ps_end_bar (pss ! k) = ps_start_bar (pss ! k) + ps_bars (pss ! k) \<and>
   ps_start_bar (pss ! k) =
     (if k = 0 then c else ps_end_bar (pss ! (k - 1)) + transition_bars (trs ! (k - 1)))"
proof (induction c pss trs fin arbitrary: k rule: laid_out.induct)
  case (4 start ps ps' pss tr trs fin)
  show ?case
  proof (cases k)
    case (Suc j)
    have "laid_out (ps_end_bar ps + transition_bars tr) (ps' # pss) trs fin"
      using "4.prems"(1) unfolding laid_out.simps by (elim conjE)
    from "4.IH" [OF this, of j] show ?thesis using "4.prems"(2) Suc by (cases j) simp_all
  qed (use "4.prems" in simp)
qed simp_all

lemma laid_out_end: "laid_out c pss trs fin \<Longrightarrow> fin = (if pss = [] then c else ps_end_bar (last pss))"
  by (induction c pss trs fin rule: laid_out.induct) auto

text \<open>When a fill is due between two sections, by their names and energies.\<close>

definition fill_due :: "blueprint_section \<Rightarrow> blueprint_section \<Rightarrow> bool" where
  "fill_due a b \<longleftrightarrow> sec_name b \<noteq> ''outro'' \<and>
     ((sec_name a, sec_name b) \<in> {(''chorus'', ''bridge''), (''bridge'', ''chorus'')} \<or>
      (sec_name a, sec_name b) = (''verse'', ''chorus'') \<and> sec_energy a < sec_energy b \<or>
      (sec_name a, sec_name b) \<notin> {(''intro'', ''verse''), (''chorus'', ''verse''), (''verse'', ''chorus'')} \<and>
        sec_energy a \<noteq> sec_energy b)"

lemma determine_transition_eq:
  "determine_transition i a b =
     \<lparr>from_section_index = i, to_section_index = i + 1,
      transition_bars = (if fill_due a b then 1 else 0),
      transition_type = (if fill_due a b then ''fill'' else ''direct'')\<rparr>"
  by (auto simp: determine_transition_def make_transition_def has_energy_increased_def fill_due_def)

lemma timeline_sections_nth:
  assumes "k < length (sections bp)"
  shows "ps_name (tl_sections (timeline_plan bp) ! k) = sec_name (sections bp ! k) \<and>
     ps_energy (tl_sections (timeline_plan bp) ! k) = sec_energy (sections bp ! k) \<and>
     ps_bars (tl_sections (timeline_plan bp) ! k) =
       (if 0 < sec_bars (sections bp ! k) then sec_bars (sections bp ! k) else 4)"
  using list_all2_nthD [OF plan_loop_sections [of "sections bp" 0 0] assms]
  by (auto simp: timeline_plan_def split_beta)

text \<open>
  C19. The timeline of a blueprint, position by position. Section \<open>k\<close> has the name and energy of
  section \<open>k\<close> of the blueprint and its bar count (4 where none was given); it ends that many bars
  after its start; the first starts at bar 0, every other exactly where the section before it
  and the transition between them end, so nothing overlaps and nothing is left out. Transition
  \<open>k\<close> leads from section \<open>k\<close> to section \<open>k + 1\<close> and is a one-bar fill where a fill is due, else direct
  and without bars. The total is the end of the last section, which is the sum of all sections
  and fills, and the ticks are 1920 per bar. The integers are unbounded: the \<open>int\<close> of the code
  holds these values for totals up to 1118481 bars.
\<close>

theorem timeline_layout:
  "length (tl_sections (timeline_plan bp)) = length (sections bp) \<and>
   length (tl_transitions (timeline_plan bp)) = length (sections bp) - 1 \<and>
   (\<forall>k < length (sections bp).
      ps_name (tl_sections (timeline_plan bp) ! k) = sec_name (sections bp ! k) \<and>
      ps_energy (tl_sections (timeline_plan bp) ! k) = sec_energy (sections bp ! k) \<and>
      ps_bars (tl_sections (timeline_plan bp) ! k) =
        (if 0 < sec_bars (sections bp ! k) then sec_bars (sections bp ! k) else 4) \<and>
      ps_end_bar (tl_sections (timeline_plan bp) ! k) =
        ps_start_bar (tl_sections (timeline_plan bp) ! k) + ps_bars (tl_sections (timeline_plan bp) ! k) \<and>
      ps_start_bar (tl_sections (timeline_plan bp) ! k) =
        (if k = 0 then 0
         else ps_end_bar (tl_sections (timeline_plan bp) ! (k - 1)) +
              transition_bars (tl_transitions (timeline_plan bp) ! (k - 1)))) \<and>
   (\<forall>k < length (sections bp) - 1.
      tl_transitions (timeline_plan bp) ! k =
        \<lparr>from_section_index = int k, to_section_index = int k + 1,
         transition_bars = (if fill_due (sections bp ! k) (sections bp ! Suc k) then 1 else 0),
         transition_type = (if fill_due (sections bp ! k) (sections bp ! Suc k) then ''fill'' else ''direct'')\<rparr>) \<and>
   total_bars (timeline_plan bp) =
     (if sections bp = [] then 0 else ps_end_bar (last (tl_sections (timeline_plan bp)))) \<and>
   total_bars (timeline_plan bp) = sum_list (map ps_bars (tl_sections (timeline_plan bp))) +
     sum_list (map transition_bars (tl_transitions (timeline_plan bp))) \<and>
   total_ticks (timeline_plan bp) = 1920 * total_bars (timeline_plan bp)"
proof -
  let ?t = "timeline_plan bp"
  have laid: "laid_out 0 (tl_sections ?t) (tl_transitions ?t) (total_bars ?t)"
    using plan_loop_laid_out [of 0 0 "sections bp"] by (simp add: timeline_plan_def split_beta)
  have len: "length (tl_sections ?t) = length (sections bp)"
    using list_all2_lengthD [OF plan_loop_sections [of "sections bp" 0 0]]
    by (simp add: timeline_plan_def split_beta)
  have trs: "length (tl_transitions ?t) = length (sections bp) - 1"
    "\<forall>k < length (sections bp) - 1. tl_transitions ?t ! k = determine_transition (int k) (sections bp ! k) (sections bp ! Suc k)"
    using plan_loop_transitions [of 0 0 "sections bp"] by (simp_all add: timeline_plan_def split_beta)
  have "total_ticks ?t = 1920 * total_bars ?t" by (simp add: timeline_plan_def split_beta kPpq_def)
  moreover have "tl_sections ?t = [] \<longleftrightarrow> sections bp = []" using len by auto
  ultimately show ?thesis
    using len trs(1) laid_out_total [OF laid] laid_out_end [OF laid]
      laid_out_nth [OF laid] timeline_sections_nth [of _ bp] trs(2) [unfolded determine_transition_eq]
    by (intro conjI allI impI) simp_all
qed

theorem timeline_layout_witness:
  "total_bars (timeline_plan (default_blueprint\<lparr>sections :=
       [\<lparr>sec_name = ''verse'', sec_bars = 4, sec_energy = Low, sec_density = 0, sec_complexity = 0\<rparr>,
        \<lparr>sec_name = ''chorus'', sec_bars = 0, sec_energy = High, sec_density = 0, sec_complexity = 0\<rparr>]\<rparr>)) = 9"
  using timeline_layout [of "default_blueprint\<lparr>sections :=
       [\<lparr>sec_name = ''verse'', sec_bars = 4, sec_energy = Low, sec_density = 0, sec_complexity = 0\<rparr>,
        \<lparr>sec_name = ''chorus'', sec_bars = 0, sec_energy = High, sec_density = 0, sec_complexity = 0\<rparr>]\<rparr>"]
  by (simp add: timeline_plan_def make_planned_def determine_transition_def make_transition_def
      has_energy_increased_def less_energy_level_def Let_def split_beta)

end
