(* ===== verification/Arrangement_Planner.thy ===== *)
theory Arrangement_Planner
  imports Timeline_Planner
begin

text \<open>
  The arrangement planner (\<open>arrangement_planner.cpp\<close>): which instruments play in which section. The
  active set is a vector of indices into the blueprint's instruments that changes by one
  index when the energy rises or falls.
\<close>

record section_instruments =
  section_name :: string
  section_index :: int
  active_instruments :: "blueprint_instrument list"

record arrangement =
  arr_sections :: "section_instruments list"
  all_instruments :: "blueprint_instrument list"

definition role_plays_at_energy :: "string \<Rightarrow> energy_level \<Rightarrow> bool" where
  "role_plays_at_energy role e =
     (if role = ''drum'' then True
      else if role = ''lead'' then energy_to_int e \<ge> energy_to_int High
      else if role = ''bass'' \<or> role = ''rhythm'' then energy_to_int e \<ge> energy_to_int Mid
      else True)"

definition target_indices :: "music_blueprint \<Rightarrow> energy_level \<Rightarrow> nat list" where
  "target_indices bp e =
     filter (\<lambda>i. role_plays_at_energy (inst_role (instruments bp ! i)) e) [0..<length (instruments bp)]"

fun add_one :: "nat list \<Rightarrow> nat list \<Rightarrow> nat list" where
  "add_one active [] = active"
| "add_one active (idx # target) =
     (if idx \<notin> set active then sort (active @ [idx]) else add_one active target)"

fun remove_one :: "nat list \<Rightarrow> nat list \<Rightarrow> nat list" where
  "remove_one [] target = []"
| "remove_one (x # active) target =
     (if x \<notin> set target then active else x # remove_one active target)"

text \<open>One step of the loop: the new active set for section \<open>i\<close>.\<close>

definition next_active ::
  "music_blueprint \<Rightarrow> planned_section option \<Rightarrow> planned_section \<Rightarrow> nat list \<Rightarrow> nat list" where
  "next_active bp prev sec active =
     (let ideal = target_indices bp (ps_energy sec)
      in case prev of
           None \<Rightarrow> ideal
         | Some p \<Rightarrow>
             if energy_to_int (ps_energy sec) > energy_to_int (ps_energy p) then add_one active ideal
             else if energy_to_int (ps_energy sec) < energy_to_int (ps_energy p) then remove_one active ideal
             else ideal)"

fun arrange_loop ::
  "music_blueprint \<Rightarrow> int \<Rightarrow> planned_section option \<Rightarrow> nat list \<Rightarrow> planned_section list \<Rightarrow>
   section_instruments list" where
  "arrange_loop bp i prev active [] = []"
| "arrange_loop bp i prev active (sec # secs) =
     (let act = next_active bp prev sec active
      in \<lparr>section_name = ps_name sec, section_index = i,
          active_instruments = map (\<lambda>idx. instruments bp ! idx) act\<rparr> #
         arrange_loop bp (i + 1) (Some sec) act secs)"

definition arrangement_plan :: "music_blueprint \<Rightarrow> timeline \<Rightarrow> arrangement" where
  "arrangement_plan bp tline =
     \<lparr>arr_sections = arrange_loop bp 0 None [] (tl_sections tline), all_instruments = instruments bp\<rparr>"

subsection \<open>The active set\<close>

text \<open>
  Indices in range, in ascending order, and every instrument that plays at every energy
  (drums, pads, comping) among them.
\<close>

definition always_plays :: "string \<Rightarrow> bool" where
  "always_plays role \<longleftrightarrow> role \<notin> {''lead'', ''bass'', ''rhythm''}"

definition active_ok :: "music_blueprint \<Rightarrow> nat list \<Rightarrow> bool" where
  "active_ok bp active \<longleftrightarrow>
     sorted active \<and> distinct active \<and> set active \<subseteq> {..<length (instruments bp)} \<and>
     (\<forall>i < length (instruments bp). always_plays (inst_role (instruments bp ! i)) \<longrightarrow> i \<in> set active)"

lemma always_plays_at: "always_plays role \<Longrightarrow> role_plays_at_energy role e"
  by (simp add: always_plays_def role_plays_at_energy_def)

lemma target_ok: "active_ok bp (target_indices bp e)"
  by (auto simp: active_ok_def target_indices_def always_plays_at intro!: sorted_wrt_filter)

lemma add_one_ok:
  "active_ok bp active \<Longrightarrow> set target \<subseteq> {..<length (instruments bp)} \<Longrightarrow> active_ok bp (add_one active target)"
  by (induction active target rule: add_one.induct) (auto simp: active_ok_def)

lemma set_remove_one_subset: "set (remove_one active target) \<subseteq> set active"
  by (induction active target rule: remove_one.induct) auto

lemma remove_one_keeps: "x \<in> set active \<Longrightarrow> x \<in> set target \<Longrightarrow> x \<in> set (remove_one active target)"
  by (induction active target rule: remove_one.induct) auto

lemma remove_one_sorted: "sorted active \<Longrightarrow> distinct active \<Longrightarrow>
   sorted (remove_one active target) \<and> distinct (remove_one active target)"
  using set_remove_one_subset by (induction active target rule: remove_one.induct) fastforce+

lemma remove_one_ok:
  assumes "active_ok bp active" "active_ok bp target"
  shows "active_ok bp (remove_one active target)"
  using assms remove_one_sorted [of active target] set_remove_one_subset [of active target]
    remove_one_keeps [of _ active target]
  unfolding active_ok_def by blast

lemma next_active_ok:
  assumes "prev \<noteq> None \<Longrightarrow> active_ok bp active"
  shows "active_ok bp (next_active bp prev sec active)"
proof (cases prev)
  case None
  then show ?thesis by (simp add: next_active_def target_ok)
next
  case (Some p)
  have t: "set (target_indices bp e) \<subseteq> {..<length (instruments bp)}" for e
    using target_ok [of bp e] by (simp add: active_ok_def)
  show ?thesis
    using Some assms t target_ok by (simp add: next_active_def Let_def add_one_ok remove_one_ok)
qed

text \<open>At most one instrument enters when the energy rises, and at most one leaves when it falls.\<close>

lemma add_one_grows: "set active \<subseteq> set (add_one active target) \<and>
    length (add_one active target) \<le> Suc (length active)"
  by (induction active target rule: add_one.induct) auto

lemma remove_one_shrinks: "length active \<le> Suc (length (remove_one active target))"
  by (induction active target rule: remove_one.induct) auto

lemma arrange_loop_ok:
  "(prev \<noteq> None \<Longrightarrow> active_ok bp active) \<Longrightarrow>
   list_all2 (\<lambda>sec si. section_name si = ps_name sec \<and>
       (\<exists>act. active_ok bp act \<and> active_instruments si = map ((!) (instruments bp)) act))
     secs (arrange_loop bp i prev active secs)"
proof (induction bp i prev active secs rule: arrange_loop.induct)
  case (2 bp i prev active sec secs)
  have "active_ok bp (next_active bp prev sec active)"
    using "2.prems" by (rule next_active_ok)
  then show ?case using "2.IH" by (auto simp: Let_def)
qed simp

lemma arrange_loop_index: "map section_index (arrange_loop bp i prev active secs) = map (\<lambda>k. i + int k) [0..<length secs]"
proof (induction bp i prev active secs rule: arrange_loop.induct)
  case (2 bp i prev active sec secs)
  then show ?case by (simp add: Let_def upt_conv_Cons map_Suc_upt [symmetric] del: upt_Suc add: algebra_simps)
qed simp

text \<open>
  C21. The arrangement has one entry per section of the timeline, in order and with its name and
  index. The instruments of an entry are those at a strictly ascending list of valid indices
  (no index out of range is read, no instrument doubled), and every instrument whose role is
  not lead, bass or rhythm, the drums among them, plays in every section.
\<close>

theorem arrangement_sections_ok:
  "list_all2 (\<lambda>sec si. section_name si = ps_name sec \<and>
       (\<exists>act. active_ok bp act \<and> active_instruments si = map ((!) (instruments bp)) act))
     (tl_sections tline) (arr_sections (arrangement_plan bp tline)) \<and>
   map section_index (arr_sections (arrangement_plan bp tline)) = map int [0..<length (tl_sections tline)] \<and>
   all_instruments (arrangement_plan bp tline) = instruments bp"
  using arrange_loop_ok [of None bp "[]" "tl_sections tline" 0] arrange_loop_index [of bp 0 None "[]" "tl_sections tline"]
  by (simp add: arrangement_plan_def)

text \<open>
  Energy changes are gradual: rising energy adds at most one instrument and keeps the
  others, falling energy removes at most one and adds none, however far the energy jumps.
\<close>

theorem arrangement_gradual:
  "(ps_energy p < ps_energy sec \<longrightarrow>
      set active \<subseteq> set (next_active bp (Some p) sec active) \<and>
      length (next_active bp (Some p) sec active) \<le> length active + 1) \<and>
   (ps_energy sec < ps_energy p \<longrightarrow>
      set (next_active bp (Some p) sec active) \<subseteq> set active \<and>
      length active \<le> length (next_active bp (Some p) sec active) + 1)"
  using add_one_grows [of active "target_indices bp (ps_energy sec)"]
    remove_one_shrinks [of active "target_indices bp (ps_energy sec)"]
    set_remove_one_subset [of active "target_indices bp (ps_energy sec)"]
  by (auto simp: next_active_def Let_def)

definition low_intro :: planned_section where
  "low_intro = \<lparr>ps_name = ''intro'', ps_start_bar = 0, ps_end_bar = 4, ps_bars = 4, ps_energy = Low,
                ps_density = 1/2, ps_complexity = 1/2\<rparr>"

theorem arrangement_gradual_witness:
  "length (next_active default_blueprint (Some low_intro) (low_intro\<lparr>ps_energy := High\<rparr>) [2]) \<le> 2"
  using arrangement_gradual [of low_intro "low_intro\<lparr>ps_energy := High\<rparr>" "[2]" default_blueprint]
  by (simp add: low_intro_def less_energy_level_def)

end
