(* ===== verification/Blueprint_Generator.thy ===== *)
theory Blueprint_Generator
  imports Blueprint_Types
begin

text \<open>
  The blueprint generator (\<open>blueprint_generator.cpp\<close>): defaults, validation and normalization of
  a blueprint. A blueprint that fails validation is replaced by the default-constructed one.
\<close>

subsection \<open>Seed\<close>

fun fnv1a_loop :: "u64 \<Rightarrow> string \<Rightarrow> u64" where
  "fnv1a_loop hash [] = hash"
| "fnv1a_loop hash (c # cs) = fnv1a_loop ((hash XOR of_char c) * 1099511628211) cs"

definition fnv1a :: "string \<Rightarrow> u64" where
  "fnv1a s = fnv1a_loop 14695981039346656037 s"

subsection \<open>Tables\<close>

definition kValidKeys :: "string list" where
  "kValidKeys = [''C'', ''C#'', ''Db'', ''D'', ''D#'', ''Eb'', ''E'',
     ''F'', ''F#'', ''Gb'', ''G'', ''G#'', ''Ab'', ''A'', ''A#'', ''Bb'', ''B'']"

definition kValidScales :: "string list" where
  "kValidScales = [''major'', ''minor'', ''dorian'', ''phrygian'', ''lydian'', ''mixolydian'',
     ''aeolian'', ''locrian'', ''harmonic_minor'', ''melodic_minor'',
     ''pentatonic_major'', ''pentatonic_minor'', ''blues'', ''chromatic'']"

definition is_valid_root :: "string \<Rightarrow> bool" where "is_valid_root key \<longleftrightarrow> key \<in> set kValidKeys"
definition is_valid_scale :: "string \<Rightarrow> bool" where "is_valid_scale sc \<longleftrightarrow> sc \<in> set kValidScales"

fun gen_density_for_energy :: "energy_level \<Rightarrow> rat" where
  "gen_density_for_energy Low = f32_round (3/10)"
| "gen_density_for_energy Mid = 1/2"
| "gen_density_for_energy High = f32_round (8/10)"
| "gen_density_for_energy Unspecified = 1/2"

fun gen_complexity_for_energy :: "energy_level \<Rightarrow> rat" where
  "gen_complexity_for_energy Low = f32_round (2/10)"
| "gen_complexity_for_energy Mid = f32_round (4/10)"
| "gen_complexity_for_energy High = f32_round (6/10)"
| "gen_complexity_for_energy Unspecified = f32_round (4/10)"

fun emotion_from_energy :: "energy_level \<Rightarrow> emotion" where
  "emotion_from_energy Low = \<lparr>valence = f32_round (3/10), arousal = f32_round (2/10), dominance = f32_round (4/10)\<rparr>"
| "emotion_from_energy Mid = \<lparr>valence = 1/2, arousal = 1/2, dominance = 1/2\<rparr>"
| "emotion_from_energy High = \<lparr>valence = f32_round (8/10), arousal = f32_round (7/10), dominance = f32_round (6/10)\<rparr>"
| "emotion_from_energy Unspecified = default_emotion"

definition is_all_default_emotion :: "emotion \<Rightarrow> bool" where
  "is_all_default_emotion e \<longleftrightarrow> valence e = 1/2 \<and> arousal e = 1/2 \<and> dominance e = 1/2"

definition make_default_sections :: "blueprint_section list" where
  "make_default_sections =
     [\<lparr>sec_name = ''intro'', sec_bars = 2, sec_energy = Unspecified, sec_density = 1/2, sec_complexity = 1/2\<rparr>,
      \<lparr>sec_name = ''verse'', sec_bars = 4, sec_energy = Unspecified, sec_density = 1/2, sec_complexity = 1/2\<rparr>,
      \<lparr>sec_name = ''chorus'', sec_bars = 4, sec_energy = Unspecified, sec_density = 1/2, sec_complexity = 1/2\<rparr>,
      \<lparr>sec_name = ''outro'', sec_bars = 2, sec_energy = Unspecified, sec_density = 1/2, sec_complexity = 1/2\<rparr>]"

definition make_default_instruments :: "blueprint_instrument list" where
  "make_default_instruments =
     [\<lparr>inst_name = ''piano'', inst_role = ''comping'', inst_channel = 0, inst_program = 1\<rparr>,
      \<lparr>inst_name = ''bass'', inst_role = ''bass'', inst_channel = 1, inst_program = 34\<rparr>,
      \<lparr>inst_name = ''drums'', inst_role = ''drum'', inst_channel = 9, inst_program = 1\<rparr>]"

subsection \<open>The three passes\<close>

definition fill_defaults :: "music_blueprint \<Rightarrow> music_blueprint" where
  "fill_defaults bp0 =
     (let bp1 = (if bp_ppq bp0 = 0 then bp0\<lparr>bp_ppq := 480\<rparr> else bp0);
          bp2 = (if sections bp1 = [] then bp1\<lparr>sections := make_default_sections\<rparr> else bp1);
          bp3 = (if instruments bp2 = [] then bp2\<lparr>instruments := make_default_instruments\<rparr> else bp2);
          bp4 = (if bp_seed bp3 = 0
                 then bp3\<lparr>bp_seed := fnv1a (root_key bp3 @ bp_scale bp3 @ to_string (bp_bpm bp3))\<rparr> else bp3)
      in if is_all_default_emotion (bp_emotion bp4)
         then bp4\<lparr>bp_emotion := emotion_from_energy (bp_energy bp4)\<rparr> else bp4)"

definition blueprint_valid :: "music_blueprint \<Rightarrow> bool" where
  "blueprint_valid bp \<longleftrightarrow>
     \<not> (\<not> is_valid_root (root_key bp) \<or> \<not> is_valid_scale (bp_scale bp)) \<and>
     \<not> (bp_bpm bp < 40 \<or> bp_bpm bp > 300) \<and>
     \<not> (sections bp = [] \<or> instruments bp = []) \<and>
     list_all (\<lambda>sec. \<not> (sec_bars sec < 1 \<or> sec_bars sec > 256)) (sections bp)"

definition normalize_section :: "energy_level \<Rightarrow> blueprint_section \<Rightarrow> blueprint_section" where
  "normalize_section global sec =
     (let s = (if sec_energy sec = Unspecified then sec\<lparr>sec_energy := global\<rparr> else sec)
      in s\<lparr>sec_density := gen_density_for_energy (sec_energy s),
           sec_complexity := gen_complexity_for_energy (sec_energy s)\<rparr>)"

definition assign_channel :: "int list \<Rightarrow> blueprint_instrument \<Rightarrow> blueprint_instrument" where
  "assign_channel used inst0 =
     (let inst = (if inst_role inst0 = ''drum'' then inst0\<lparr>inst_channel := 9\<rparr> else inst0)
      in if inst_channel inst \<in> set used
         then let limit = (if inst_role inst = ''drum'' then 10 else 9)
              in case find (\<lambda>ch. ch \<notin> set used) [0..limit - 1] of
                   Some ch \<Rightarrow> inst\<lparr>inst_channel := ch\<rparr>
                 | None \<Rightarrow> inst
         else inst)"

fun assign_channels :: "int list \<Rightarrow> blueprint_instrument list \<Rightarrow> blueprint_instrument list" where
  "assign_channels used [] = []"
| "assign_channels used (inst # insts) =
     (let inst' = assign_channel used inst
      in inst' # assign_channels (used @ [inst_channel inst']) insts)"

definition blueprint_generate :: "music_blueprint \<Rightarrow> music_blueprint" where
  "blueprint_generate input =
     (let bp = fill_defaults input
      in if \<not> blueprint_valid bp then default_blueprint
         else bp\<lparr>sections := map (normalize_section (bp_energy bp)) (sections bp),
                 instruments := assign_channels [] (instruments bp)\<rparr>)"

subsection \<open>Channels\<close>

lemma length_assign_channels [simp]: "length (assign_channels used insts) = length insts"
  by (induction used insts rule: assign_channels.induct) (simp_all add: Let_def)

lemma find_free:
  fixes limit :: int
  assumes "length used < 9" "9 \<le> limit"
  shows "\<exists>ch. find (\<lambda>ch. ch \<notin> set used) [0..limit - 1] = Some ch"
proof -
  have "\<exists>ch \<in> {0..8}. ch \<notin> set used"
  proof (rule ccontr)
    assume "\<not> ?thesis"
    then have "{0..8 :: int} \<subseteq> set used" by blast
    then have "card {0..8 :: int} \<le> card (set used)" by (intro card_mono) auto
    also have "\<dots> \<le> length used" by (rule card_length)
    finally show False using assms(1) by simp
  qed
  then obtain ch where ch: "ch \<in> {0..8}" "ch \<notin> set used" by blast
  then have "ch \<in> set [0..limit - 1]" using assms(2) by simp
  then have "find (\<lambda>ch. ch \<notin> set used) [0..limit - 1] \<noteq> None"
    using ch(2) unfolding find_None_iff by blast
  then show ?thesis by blast
qed

lemma assign_channel_free:
  assumes "length used < 9"
  shows "inst_channel (assign_channel used inst) \<notin> set used"
proof -
  obtain a b where a: "find (\<lambda>ch. ch \<notin> set used) [0..9] = Some a"
    and b: "find (\<lambda>ch. ch \<notin> set used) [0..8] = Some b"
    using find_free [OF assms, of 10] find_free [OF assms, of 9] by auto
  then have "a \<notin> set used" "b \<notin> set used" by (auto simp: find_Some_iff)
  then show ?thesis
    by (auto simp: assign_channel_def a b Let_def)
qed

lemma assign_channels_distinct:
  "length used + length insts \<le> 9 \<Longrightarrow>
   distinct (map inst_channel (assign_channels used insts)) \<and>
   set (map inst_channel (assign_channels used insts)) \<inter> set used = {}"
proof (induction used insts rule: assign_channels.induct)
  case (2 used inst insts)
  define i where "i = assign_channel used inst"
  have "inst_channel i \<notin> set used"
    unfolding i_def using "2.prems" by (intro assign_channel_free) simp
  moreover have "distinct (map inst_channel (assign_channels (used @ [inst_channel i]) insts)) \<and>
      set (map inst_channel (assign_channels (used @ [inst_channel i]) insts)) \<inter> set (used @ [inst_channel i]) = {}"
    unfolding i_def using "2.prems" by (intro "2.IH") auto
  ultimately show ?case by (auto simp: Let_def simp flip: i_def)
qed simp

subsection \<open>Generated blueprints\<close>

lemma fill_defaults_simps [simp]:
  "root_key (fill_defaults bp) = root_key bp" "bp_scale (fill_defaults bp) = bp_scale bp"
  "bp_bpm (fill_defaults bp) = bp_bpm bp" "bp_energy (fill_defaults bp) = bp_energy bp"
  "sections (fill_defaults bp) = (if sections bp = [] then make_default_sections else sections bp)"
  "instruments (fill_defaults bp) = (if instruments bp = [] then make_default_instruments else instruments bp)"
  by (simp_all add: fill_defaults_def Let_def)

text \<open>What a client may rely on in a blueprint that passed.\<close>

definition blueprint_ok :: "music_blueprint \<Rightarrow> bool" where
  "blueprint_ok bp \<longleftrightarrow>
     root_key bp \<in> set kValidKeys \<and> bp_scale bp \<in> set kValidScales \<and>
     40 \<le> bp_bpm bp \<and> bp_bpm bp \<le> 300 \<and> bp_ppq bp \<noteq> 0 \<and>
     sections bp \<noteq> [] \<and> instruments bp \<noteq> [] \<and>
     list_all (\<lambda>s. 1 \<le> sec_bars s \<and> sec_bars s \<le> 256 \<and>
        sec_density s = gen_density_for_energy (sec_energy s) \<and>
        sec_complexity s = gen_complexity_for_energy (sec_energy s) \<and>
        (bp_energy bp \<noteq> Unspecified \<longrightarrow> sec_energy s \<noteq> Unspecified)) (sections bp)"

lemma normalize_section_simps [simp]:
  "sec_bars (normalize_section e s) = sec_bars s" "sec_name (normalize_section e s) = sec_name s"
  "sec_energy (normalize_section e s) = (if sec_energy s = Unspecified then e else sec_energy s)"
  "sec_density (normalize_section e s) = gen_density_for_energy (sec_energy (normalize_section e s))"
  "sec_complexity (normalize_section e s) = gen_complexity_for_energy (sec_energy (normalize_section e s))"
  by (simp_all add: normalize_section_def Let_def)

lemma default_sections_valid:
  "make_default_sections \<noteq> []" "list_all (\<lambda>sec. 1 \<le> sec_bars sec \<and> sec_bars sec \<le> 256) make_default_sections"
  "make_default_instruments \<noteq> []"
  by (simp_all add: make_default_sections_def make_default_instruments_def)

lemma valid_after_defaults:
  "blueprint_valid (fill_defaults bp) \<longleftrightarrow>
     root_key bp \<in> set kValidKeys \<and> bp_scale bp \<in> set kValidScales \<and> 40 \<le> bp_bpm bp \<and> bp_bpm bp \<le> 300 \<and>
     list_all (\<lambda>s. 1 \<le> sec_bars s \<and> sec_bars s \<le> 256) (sections bp)"
  using default_sections_valid
  by (auto simp: blueprint_valid_def is_valid_root_def is_valid_scale_def not_less)

lemma generate_cases:
  "if root_key bp \<in> set kValidKeys \<and> bp_scale bp \<in> set kValidScales \<and> 40 \<le> bp_bpm bp \<and> bp_bpm bp \<le> 300 \<and>
      list_all (\<lambda>s. 1 \<le> sec_bars s \<and> sec_bars s \<le> 256) (sections bp)
   then blueprint_ok (blueprint_generate bp) \<and>
        map sec_name (sections (blueprint_generate bp)) =
          (if sections bp = [] then [''intro'', ''verse'', ''chorus'', ''outro''] else map sec_name (sections bp))
   else blueprint_generate bp = default_blueprint \<and> sections (blueprint_generate bp) = []"
proof (cases "blueprint_valid (fill_defaults bp)")
  case False
  then show ?thesis
    by (auto simp: blueprint_generate_def Let_def default_blueprint_def simp flip: valid_after_defaults)
next
  case True
  have ppq: "bp_ppq (fill_defaults bp) \<noteq> 0" by (simp add: fill_defaults_def Let_def)
  have gen: "blueprint_generate bp = (fill_defaults bp)\<lparr>
      sections := map (normalize_section (bp_energy bp)) (sections (fill_defaults bp)),
      instruments := assign_channels [] (instruments (fill_defaults bp))\<rparr>"
    using True by (simp add: blueprint_generate_def Let_def)
  have ne: "assign_channels [] (instruments (fill_defaults bp)) \<noteq> []"
    using default_sections_valid(3) by (metis fill_defaults_simps(6) length_0_conv length_assign_channels)
  have "blueprint_ok (blueprint_generate bp)"
    using True ppq ne default_sections_valid
    unfolding gen blueprint_ok_def by (auto simp: valid_after_defaults list_all_iff)
  moreover have "map sec_name make_default_sections = [''intro'', ''verse'', ''chorus'', ''outro'']"
    by (simp add: make_default_sections_def)
  ultimately show ?thesis
    using True by (simp add: valid_after_defaults gen comp_def)
qed

text \<open>
  C22. The generator accepts a blueprint exactly when its key and scale are in the tables, its
  tempo is in 40..300 and each of its sections has 1..256 bars; missing sections and
  instruments are never a reason to reject. An accepted blueprint comes out complete:
  non-empty sections and instruments, a division, every section's density and complexity
  those of its energy, and no section without an energy unless the global one is missing too.
  A rejected one becomes the default-constructed blueprint, which has no sections.
\<close>

theorem generate_validates:
  "if root_key bp \<in> set kValidKeys \<and> bp_scale bp \<in> set kValidScales \<and> 40 \<le> bp_bpm bp \<and> bp_bpm bp \<le> 300 \<and>
      list_all (\<lambda>s. 1 \<le> sec_bars s \<and> sec_bars s \<le> 256) (sections bp)
   then blueprint_ok (blueprint_generate bp) \<and>
        map sec_name (sections (blueprint_generate bp)) =
          (if sections bp = [] then [''intro'', ''verse'', ''chorus'', ''outro''] else map sec_name (sections bp))
   else blueprint_generate bp = default_blueprint \<and> sections (blueprint_generate bp) = []"
  by (rule generate_cases)

text \<open>
  With at most nine instruments no two share a MIDI channel, whatever channels they ask
  for.
\<close>

theorem channels_distinct:
  assumes "length (instruments bp) \<le> 9"
  shows "distinct (map inst_channel (instruments (blueprint_generate bp)))"
proof -
  have "length (instruments (fill_defaults bp)) \<le> 9"
    using assms by (simp add: make_default_instruments_def)
  then have "distinct (map inst_channel (assign_channels [] (instruments (fill_defaults bp))))"
    using assign_channels_distinct [of "[]" "instruments (fill_defaults bp)"] by simp
  then show ?thesis by (simp add: blueprint_generate_def default_blueprint_def Let_def)
qed

theorem channels_distinct_witness:
  "let bp = default_blueprint\<lparr>instruments :=
       [\<lparr>inst_name = ''piano'', inst_role = ''comping'', inst_channel = 3, inst_program = 0\<rparr>,
        \<lparr>inst_name = ''pad'', inst_role = ''pad'', inst_channel = 3, inst_program = 88\<rparr>]\<rparr>
   in distinct (map inst_channel (instruments (blueprint_generate bp)))"
  unfolding Let_def by (rule channels_distinct) simp

text \<open>
  The drums do not always get channel 9: an instrument listed before them that asks for
  channel 9 keeps it, and the drums are moved to the first free channel, a melodic one.
\<close>

theorem drums_lose_channel_9:
  assumes "inst_role a \<noteq> ''drum''" "inst_channel a = 9" "inst_role d = ''drum''"
  shows "map inst_channel (assign_channels [] [a, d]) = [9, 0]"
  using assms by (simp add: assign_channel_def Let_def upto_rec1)

theorem drums_lose_channel_9_witness:
  "map inst_channel (assign_channels []
     [\<lparr>inst_name = ''lead'', inst_role = ''lead'', inst_channel = 9, inst_program = 80\<rparr>,
      \<lparr>inst_name = ''drums'', inst_role = ''drum'', inst_channel = 9, inst_program = 1\<rparr>]) = [9, 0]"
  by (rule drums_lose_channel_9) simp_all

end
