(* ===== verification/Prompt_Interpreter.thy ===== *)
theory Prompt_Interpreter
  imports Blueprint_Generator
begin

text \<open>
  The rule-based prompt interpreter (\<open>prompt_interpreter.cpp\<close>): tempo, bars, key, genre, energy,
  sections and instruments read off a lower-cased prompt. Indices into the text are \<open>nat\<close>; every
  read is guarded by the source's own bound.
\<close>

subsection \<open>Scanning\<close>

definition is_digit :: "char \<Rightarrow> bool" where
  "is_digit c \<longleftrightarrow> 48 \<le> (of_char c :: nat) \<and> (of_char c :: nat) \<le> 57"

definition is_space :: "char \<Rightarrow> bool" where "is_space c \<longleftrightarrow> c = CHR '' ''"

text \<open>\<open>while (k > 0 && p(s[k - 1])) --k;\<close>\<close>

fun scan_back :: "(char \<Rightarrow> bool) \<Rightarrow> string \<Rightarrow> nat \<Rightarrow> nat" where
  "scan_back p s 0 = 0"
| "scan_back p s (Suc k) = (if p (s ! k) then scan_back p s k else Suc k)"

text \<open>\<open>while (end > start && s[end - 1] == ' ') --end;\<close>\<close>

fun trim_end :: "string \<Rightarrow> nat \<Rightarrow> nat \<Rightarrow> nat" where
  "trim_end s start 0 = 0"
| "trim_end s start (Suc k) = (if Suc k > start \<and> is_space (s ! k) then trim_end s start k else Suc k)"

text \<open>\<open>while (k < s.size() && p(s[k])) ++k;\<close>\<close>

function scan_fwd :: "(char \<Rightarrow> bool) \<Rightarrow> string \<Rightarrow> nat \<Rightarrow> nat" where
  "scan_fwd p s k = (if k < length s \<and> p (s ! k) then scan_fwd p s (Suc k) else k)"
  by pat_completeness auto
termination by (relation "measure (\<lambda>(p, s, k). length s - k)") auto

declare scan_fwd.simps [simp del]

definition substr :: "string \<Rightarrow> nat \<Rightarrow> nat \<Rightarrow> string" where
  "substr s start fin = take (fin - start) (drop start s)"

text \<open>
  \<open>std::from_chars\<close> into an \<open>int\<close>: the value of the leading digits; no digits or a value beyond
  \<open>INT_MAX\<close> is an error. A sign cannot occur in the ranges the source passes.
\<close>

definition digits_value :: "string \<Rightarrow> int" where
  "digits_value ds = foldl (\<lambda>n c. n * 10 + (of_char c - 48)) 0 ds"

definition from_chars :: "string \<Rightarrow> int option" where
  "from_chars s =
     (let ds = takeWhile is_digit s
      in if ds = [] \<or> digits_value ds > 2147483647 then None else Some (digits_value ds))"

definition in_limits :: "int \<Rightarrow> int \<Rightarrow> int option \<Rightarrow> int option" where
  "in_limits lo hi r = (case r of Some v \<Rightarrow> if v \<ge> lo \<and> v \<le> hi then Some v else None | None \<Rightarrow> None)"

text \<open>The number written before position \<open>p\<close>, spaces between allowed.\<close>

definition number_before :: "string \<Rightarrow> nat \<Rightarrow> int \<Rightarrow> int \<Rightarrow> int option" where
  "number_before s p lo hi =
     (let start = scan_back is_digit s (scan_back is_space s p)
      in if start < p then
           let fin = trim_end s start p
           in if start < fin then in_limits lo hi (from_chars (substr s start fin)) else None
         else None)"

text \<open>The number written at or after position \<open>k\<close>, spaces before it allowed.\<close>

definition number_after :: "string \<Rightarrow> nat \<Rightarrow> int \<Rightarrow> int \<Rightarrow> int option" where
  "number_after s k lo hi =
     (let after = scan_fwd is_space s k;
          n_end = scan_fwd is_digit s after
      in if after < n_end then in_limits lo hi (from_chars (substr s after n_end)) else None)"

subsection \<open>Numbers in the prompt\<close>

lemma str_find_at_bound:
  "str_find_at nd s i = Some p \<Longrightarrow> i < length s \<Longrightarrow> nd \<noteq> [] \<Longrightarrow> i < p + length nd \<and> p < length s"
  using str_find_at_Some [of nd s i p] by (cases nd) auto

function detect_bpm_from :: "string \<Rightarrow> nat \<Rightarrow> int" where
  "detect_bpm_from lower i =
     (if i < length lower then
        (case str_find_at ''bpm'' lower i of
           None \<Rightarrow> 120
         | Some p \<Rightarrow>
             (case number_before lower p 20 300 of
                Some v \<Rightarrow> v
              | None \<Rightarrow>
                  (case number_after lower (p + 3) 20 300 of
                     Some v \<Rightarrow> v
                   | None \<Rightarrow> detect_bpm_from lower (p + 3))))
      else 120)"
  by pat_completeness auto
termination
proof (relation "measure (\<lambda>(s, i). length s - i)", goal_cases)
  case (2 lower i p)
  then have "i < p + 3" "i < length lower"
    using str_find_at_bound [of "''bpm''" lower i p] by simp_all
  then have "length lower - (p + 3) < length lower - i" by arith
  then show ?case by simp
qed simp

declare detect_bpm_from.simps [simp del]

definition detect_bpm :: "string \<Rightarrow> int" where "detect_bpm lower = detect_bpm_from lower 0"

function extract_total_bars_from :: "string \<Rightarrow> nat \<Rightarrow> int" where
  "extract_total_bars_from lower i =
     (if i < length lower then
        (case str_find_at '' bar'' lower i of
           None \<Rightarrow> - 1
         | Some p \<Rightarrow>
             (case number_before lower p 1 256 of
                Some v \<Rightarrow> v
              | None \<Rightarrow> extract_total_bars_from lower (p + 4)))
      else - 1)"
  by pat_completeness auto
termination
proof (relation "measure (\<lambda>(s, i). length s - i)", goal_cases)
  case (2 lower i p)
  then have "i < p + 4" "i < length lower"
    using str_find_at_bound [of "'' bar''" lower i p] by simp_all
  then have "length lower - (p + 4) < length lower - i" by arith
  then show ?case by simp
qed simp

declare extract_total_bars_from.simps [simp del]

definition extract_total_bars :: "string \<Rightarrow> int" where
  "extract_total_bars lower = extract_total_bars_from lower 0"

fun str_rfind :: "string \<Rightarrow> string \<Rightarrow> nat option" where
  "str_rfind nd [] = (if nd = [] then Some 0 else None)"
| "str_rfind nd (c # cs) =
     (case str_rfind nd cs of
        Some i \<Rightarrow> Some (Suc i)
      | None \<Rightarrow> if prefix nd (c # cs) then Some 0 else None)"

definition extract_bars_for_section :: "string \<Rightarrow> string \<Rightarrow> int \<Rightarrow> int" where
  "extract_bars_for_section lower name default_bars =
     (let nlow = to_lower name
      in case str_find nlow lower of
           None \<Rightarrow> default_bars
         | Some pos \<Rightarrow>
             (case number_after lower (pos + length nlow) 1 256 of
                Some v \<Rightarrow> v
              | None \<Rightarrow>
                  let search_start = (if pos > 20 then pos - 20 else 0);
                      window = substr lower search_start pos
                  in case str_rfind '' bar'' window of
                       None \<Rightarrow> default_bars
                     | Some bar_p \<Rightarrow>
                         (case number_before window bar_p 1 256 of
                            Some v \<Rightarrow> v
                          | None \<Rightarrow> default_bars)))"

subsection \<open>Keywords\<close>

definition literal_note_patterns :: "string list" where
  "literal_note_patterns =
     [''note c4'', ''note d4'', ''note e4'', ''note f4'', ''note g4'',
      ''notes c'', ''notes d'', ''notes e'', ''notes f'', ''notes g'',
      ''notes a'', ''notes b'', ''midi notes'', ''write notes'']"

definition has_literal_notes :: "string \<Rightarrow> bool" where
  "has_literal_notes lower = list_ex (\<lambda>p. contains lower p) literal_note_patterns"

definition genre_map :: "(string \<times> string) list" where
  "genre_map =
     [(''pop'', ''pop''), (''rock'', ''rock''), (''jazz'', ''jazz''), (''blues'', ''blues''),
      (''electronic'', ''electronic''), (''edm'', ''electronic''), (''techno'', ''electronic''),
      (''hip hop'', ''hip_hop''), (''rap'', ''hip_hop''), (''rnb'', ''rnb''), (''r&b'', ''rnb''),
      (''funk'', ''funk''), (''soul'', ''soul''), (''classical'', ''classical''),
      (''latin'', ''latin''), (''salsa'', ''latin''), (''bossa'', ''latin''),
      (''country'', ''country''), (''metal'', ''metal''), (''folk'', ''folk''), (''pop'', ''pop'')]"

definition detect_genre :: "string \<Rightarrow> string list" where
  "detect_genre lower =
     (case find (\<lambda>(kw, g). contains lower kw) genre_map of Some (kw, g) \<Rightarrow> [g] | None \<Rightarrow> [])"

definition ucfirst :: "string \<Rightarrow> string" where
  "ucfirst s = (case s of [] \<Rightarrow> [] | c # cs \<Rightarrow> toupper c # cs)"

definition natural_notes :: "string list" where
  "natural_notes = [''c'', ''d'', ''e'', ''f'', ''g'', ''a'', ''b'']"

definition accidentals :: "(string \<times> string) list" where
  "accidentals =
     [(''f#'', ''F#''), (''c#'', ''C#''), (''g#'', ''G#''), (''d#'', ''D#''), (''a#'', ''A#''), (''e#'', ''E#''),
      (''bb'', ''Bb''), (''eb'', ''Eb''), (''ab'', ''Ab''), (''db'', ''Db''), (''gb'', ''Gb'')]"

text \<open>The first result a loop over a table returns, if any iteration returns.\<close>

fun first_hit :: "('a \<Rightarrow> 'b option) \<Rightarrow> 'a list \<Rightarrow> 'b option" where
  "first_hit f [] = None"
| "first_hit f (x # xs) = (case f x of Some y \<Rightarrow> Some y | None \<Rightarrow> first_hit f xs)"

definition key_of_natural :: "string \<Rightarrow> string \<Rightarrow> (string \<times> string) option" where
  "key_of_natural lower n =
     (let k = ''key of '' @ n
      in if contains lower k then Some (ucfirst n, ''major'')
         else if contains lower (k @ ''m'') then Some (ucfirst n, ''minor'') else None)"

definition named_natural :: "string \<Rightarrow> string \<Rightarrow> (string \<times> string) option" where
  "named_natural lower n =
     (if contains lower (n @ '' minor'') then Some (ucfirst n, ''minor'')
      else if contains lower (n @ '' major'') then Some (ucfirst n, ''major'') else None)"

definition named_accidental :: "string \<Rightarrow> string \<times> string \<Rightarrow> (string \<times> string) option" where
  "named_accidental lower ad =
     (if contains lower (fst ad @ '' minor'') then Some (snd ad, ''minor'')
      else if contains lower (fst ad @ '' major'') then Some (snd ad, ''major'') else None)"

definition in_natural_minor :: "string \<Rightarrow> string \<Rightarrow> (string \<times> string) option" where
  "in_natural_minor lower n =
     (if contains lower (''in '' @ n @ ''m'') then Some (ucfirst n, ''minor'') else None)"

definition in_natural_major :: "string \<Rightarrow> string \<Rightarrow> (string \<times> string) option" where
  "in_natural_major lower n =
     (if contains lower (''in '' @ n) then Some (ucfirst n, ''major'') else None)"

definition key_of_accidental :: "string \<Rightarrow> string \<times> string \<Rightarrow> (string \<times> string) option" where
  "key_of_accidental lower ad =
     (if contains lower (''key of '' @ fst ad) then Some (snd ad, ''major'')
      else if contains lower (''in '' @ fst ad @ ''m'') then Some (snd ad, ''minor'')
      else if contains lower (''in '' @ fst ad) then Some (snd ad, ''major'') else None)"

definition detect_key_and_scale :: "string \<Rightarrow> string \<times> string" where
  "detect_key_and_scale lower =
     (case first_hit (key_of_natural lower) natural_notes of Some r \<Rightarrow> r | None \<Rightarrow>
     (case first_hit (named_natural lower) natural_notes of Some r \<Rightarrow> r | None \<Rightarrow>
     (case first_hit (named_accidental lower) accidentals of Some r \<Rightarrow> r | None \<Rightarrow>
     (case first_hit (in_natural_minor lower) natural_notes of Some r \<Rightarrow> r | None \<Rightarrow>
     (case first_hit (in_natural_major lower) natural_notes of Some r \<Rightarrow> r | None \<Rightarrow>
     (case first_hit (key_of_accidental lower) accidentals of Some r \<Rightarrow> r | None \<Rightarrow>
        (''C'', ''major'')))))))"

definition detect_energy :: "string \<Rightarrow> energy_level" where
  "detect_energy lower =
     (if list_ex (contains lower) [''upbeat'', ''energetic'', ''lively'', ''fast''] then High
      else if list_ex (contains lower) [''calm'', ''relaxed'', ''relaxing'', ''chill'', ''slow'', ''mellow''] then Low
      else if list_ex (contains lower) [''moderate'', ''medium'', ''neutral''] then Mid
      else Mid)"

fun pi_emotion_from_energy :: "energy_level \<Rightarrow> emotion" where
  "pi_emotion_from_energy High = \<lparr>valence = f32_round (8/10), arousal = f32_round (7/10), dominance = f32_round (6/10)\<rparr>"
| "pi_emotion_from_energy Mid = \<lparr>valence = 1/2, arousal = 1/2, dominance = 1/2\<rparr>"
| "pi_emotion_from_energy Low = \<lparr>valence = f32_round (3/10), arousal = f32_round (2/10), dominance = f32_round (4/10)\<rparr>"
| "pi_emotion_from_energy Unspecified = \<lparr>valence = 1/2, arousal = 1/2, dominance = 1/2\<rparr>"

subsection \<open>Sections and instruments\<close>

definition mk_section :: "string \<Rightarrow> int \<Rightarrow> energy_level \<Rightarrow> rat \<Rightarrow> rat \<Rightarrow> blueprint_section" where
  "mk_section name bars e d c =
     \<lparr>sec_name = name, sec_bars = bars, sec_energy = e, sec_density = d, sec_complexity = c\<rparr>"

definition add_section :: "string \<Rightarrow> bool \<Rightarrow> string \<Rightarrow> int \<Rightarrow> energy_level \<Rightarrow> blueprint_section list" where
  "add_section lower cond name default_bars e =
     (if cond then
        let bars = extract_bars_for_section lower name default_bars;
            dc = (if e = High then (f32_round (8/10), f32_round (6/10))
                  else if e = Low then (f32_round (3/10), f32_round (2/10))
                  else (1/2, f32_round (3/10)))
        in [mk_section name bars e (fst dc) (snd dc)]
      else [])"

definition standard_form :: "blueprint_section list" where
  "standard_form =
     [mk_section ''intro'' 2 Low (f32_round (3/10)) (f32_round (2/10)),
      mk_section ''verse'' 4 Mid (1/2) (f32_round (3/10)),
      mk_section ''chorus'' 4 High (f32_round (8/10)) (1/2),
      mk_section ''outro'' 2 Low (f32_round (3/10)) (f32_round (2/10))]"

definition build_sections :: "string \<Rightarrow> energy_level \<Rightarrow> blueprint_section list" where
  "build_sections lower default_energy =
     (let has_intro = contains lower ''intro'';
          has_verse = contains lower ''verse'';
          has_chorus = contains lower ''chorus'';
          has_bridge = contains lower ''bridge'';
          has_outro = contains lower ''outro''
      in if has_intro \<or> has_verse \<or> has_chorus \<or> has_bridge \<or> has_outro then
           add_section lower has_intro ''intro'' 2 Low @ add_section lower has_verse ''verse'' 4 Mid @
           add_section lower has_chorus ''chorus'' 4 High @ add_section lower has_bridge ''bridge'' 4 Mid @
           add_section lower has_outro ''outro'' 2 Low
         else
           let bars = extract_total_bars lower
           in if bars < 0 then standard_form
              else if bars \<le> 4 then [mk_section ''verse'' bars default_energy (1/2) (f32_round (3/10))]
              else if bars \<ge> 12 then standard_form
              else if bars \<ge> 8 then
                [mk_section ''verse'' 4 Mid (1/2) (f32_round (3/10)),
                 mk_section ''chorus'' 4 High (f32_round (8/10)) (1/2)]
              else [mk_section ''verse'' bars default_energy (1/2) (f32_round (3/10))])"

definition mk_instrument :: "string \<Rightarrow> string \<Rightarrow> int \<Rightarrow> int \<Rightarrow> blueprint_instrument" where
  "mk_instrument name role ch prog =
     \<lparr>inst_name = name, inst_role = role, inst_channel = ch, inst_program = prog\<rparr>"

text \<open>The guarded calls of the local \<open>add\<close>, in order.\<close>

definition instrument_calls :: "string \<Rightarrow> (bool \<times> blueprint_instrument) list" where
  "instrument_calls lower =
     [(contains lower ''piano'' \<or> contains lower ''keys'', mk_instrument ''piano'' ''comping'' 0 1),
      (contains lower ''bass'', mk_instrument ''bass'' ''bass'' 1 34),
      (contains lower ''drums'' \<or> contains lower ''drum'', mk_instrument ''drums'' ''drum'' 9 1),
      (contains lower ''guitar'', mk_instrument ''guitar'' ''rhythm'' 2 27),
      (contains lower ''strings'', mk_instrument ''strings'' ''pad'' 3 49),
      (contains lower ''synth'', mk_instrument ''synth'' ''pad'' 4 81),
      (contains lower ''brass'', mk_instrument ''brass'' ''lead'' 5 57),
      (contains lower ''sax'', mk_instrument ''sax'' ''lead'' 6 66)]"

definition default_trio :: "blueprint_instrument list" where
  "default_trio = [mk_instrument ''piano'' ''comping'' 0 1, mk_instrument ''bass'' ''bass'' 1 34,
                   mk_instrument ''drums'' ''drum'' 9 1]"

definition detect_instruments :: "string \<Rightarrow> blueprint_instrument list" where
  "detect_instruments lower =
     (let calls = instrument_calls lower
      in if list_ex fst calls then map snd (filter fst calls) else default_trio)"

definition interpret_prompt :: "string \<Rightarrow> u64 \<Rightarrow> music_blueprint" where
  "interpret_prompt prompt seed0 =
     (let sd = (if seed0 = 0 then fnv1a prompt else seed0);
          lower = to_lower prompt
      in if has_literal_notes lower then default_blueprint\<lparr>bp_seed := sd\<rparr>
         else
           let g = detect_genre lower;
               (key, sc) = detect_key_and_scale lower;
               e = detect_energy lower
           in \<lparr>bp_seed = sd, root_key = key, bp_scale = sc, bp_bpm = detect_bpm lower, bp_ppq = 480,
               genres = (if g = [] then [''pop''] else g), bp_emotion = pi_emotion_from_energy e,
               bp_energy = e, sections = build_sections lower e, instruments = detect_instruments lower\<rparr>)"

subsection \<open>Numbers stay in their limits\<close>

lemma in_limits_Some: "in_limits lo hi r = Some v \<Longrightarrow> lo \<le> v \<and> v \<le> hi"
  by (auto simp: in_limits_def split: option.splits if_splits)

lemma number_before_limits: "number_before s p lo hi = Some v \<Longrightarrow> lo \<le> v \<and> v \<le> hi"
  by (auto simp: number_before_def Let_def dest: in_limits_Some split: if_splits)

lemma number_after_limits: "number_after s k lo hi = Some v \<Longrightarrow> lo \<le> v \<and> v \<le> hi"
  by (auto simp: number_after_def Let_def dest: in_limits_Some split: if_splits)

lemma detect_bpm_limits: "20 \<le> detect_bpm_from s i \<and> detect_bpm_from s i \<le> 300"
proof (induction s i rule: detect_bpm_from.induct)
  case (1 lower i)
  show ?case
    using number_before_limits [of lower _ 20 300] number_after_limits [of lower _ 20 300] "1.IH"
    by (subst (1 2) detect_bpm_from.simps) (auto split: option.split)
qed

lemma extract_total_bars_limits:
  "extract_total_bars_from s i = - 1 \<or> 1 \<le> extract_total_bars_from s i \<and> extract_total_bars_from s i \<le> 256"
proof (induction s i rule: extract_total_bars_from.induct)
  case (1 lower i)
  show ?case
    using number_before_limits [of lower _ 1 256] "1.IH"
    by (subst (1 2 3) extract_total_bars_from.simps) (auto split: option.split)
qed

lemma extract_bars_for_section_limits:
  assumes "1 \<le> d" "d \<le> 256"
  shows "1 \<le> extract_bars_for_section s name d \<and> extract_bars_for_section s name d \<le> 256"
  using assms number_before_limits [of _ _ 1 256] number_after_limits [of _ _ 1 256]
  by (auto simp: extract_bars_for_section_def Let_def split: option.split)

lemma first_hit_Some: "first_hit f xs = Some y \<Longrightarrow> \<exists>x \<in> set xs. f x = Some y"
  by (induction xs) (auto split: option.splits)

lemma first_hit_None: "first_hit f xs = None \<longleftrightarrow> (\<forall>x \<in> set xs. f x = None)"
  by (induction xs) (auto split: option.splits)

subsection \<open>Keys\<close>

lemma contains_prefix: "contains s (a @ b) \<Longrightarrow> contains s a"
  by (simp add: contains_iff_sublist) (meson sublist_append_leftI sublist_append_rightI sublist_order.order.trans)

lemma contains_suffix: "contains s (a @ b) \<Longrightarrow> contains s b"
  by (simp add: contains_iff_sublist) (meson sublist_append_leftI sublist_order.order.trans)

lemma key_of_natural_major: "key_of_natural lower n = Some r \<Longrightarrow> snd r = ''major'' \<and> fst r = ucfirst n"
  using contains_prefix [of lower "''key of '' @ n" "''m''"]
  by (auto simp: key_of_natural_def Let_def split: if_splits)

text \<open>
  A prompt that names its key as "key of X" for a natural note X always gets a major scale:
  the test for "key of X" comes before the test for "key of Xm" and is implied by it, so the
  minor branch never runs, and "key of A minor" is read as A major.
\<close>

theorem key_of_always_major:
  assumes "n \<in> set natural_notes" "contains lower (''key of '' @ n)"
  shows "snd (detect_key_and_scale lower) = ''major''"
proof -
  have "key_of_natural lower n \<noteq> None" using assms(2) by (simp add: key_of_natural_def Let_def)
  then obtain r where r: "first_hit (key_of_natural lower) natural_notes = Some r"
    using assms(1) first_hit_None [of "key_of_natural lower" natural_notes] by fastforce
  then obtain x where "key_of_natural lower x = Some r" using first_hit_Some [OF r] by blast
  then show ?thesis using r key_of_natural_major by (simp add: detect_key_and_scale_def)
qed

theorem key_of_always_major_witness:
  "contains ''a ballad in the key of a minor'' (''key of '' @ ''a'') \<and>
   snd (detect_key_and_scale ''a ballad in the key of a minor'') = ''major''"
proof -
  have "contains ''a ballad in the key of a minor'' (''key of '' @ ''a'')" by code_simp
  then show ?thesis
    using key_of_always_major [of "''a''" "''a ballad in the key of a minor''"] by (simp add: natural_notes_def)
qed

lemma flat_not_named:
  assumes "ad \<in> set (drop 6 accidentals)" "first_hit (named_natural lower) natural_notes = None"
  shows "named_accidental lower ad = None"
proof -
  have "\<not> contains lower (''b'' @ '' minor'')" "\<not> contains lower (''b'' @ '' major'')"
    using assms(2) by (auto simp: first_hit_None natural_notes_def named_natural_def split: if_splits)
  moreover obtain c where "fst ad = [c] @ ''b''" using assms(1) by (auto simp: accidentals_def)
  ultimately show ?thesis
    using contains_suffix [of lower "[c]"] by (auto simp: named_accidental_def)
qed

lemma flat_not_in:
  assumes "ad \<in> set (drop 6 accidentals)" "first_hit (key_of_natural lower) natural_notes = None"
    "first_hit (in_natural_major lower) natural_notes = None"
  shows "key_of_accidental lower ad = None"
proof -
  have "fst ad \<in> {''bb'', ''eb'', ''ab'', ''db'', ''gb''}"
    using assms(1) by (auto simp: accidentals_def)
  then have "take 1 (fst ad) \<in> set natural_notes \<and> fst ad = take 1 (fst ad) @ ''b''"
    by (auto simp: natural_notes_def)
  then obtain n where n: "n \<in> set natural_notes" "fst ad = n @ ''b''" by blast
  then have "\<not> contains lower (''key of '' @ n)" "\<not> contains lower (''in '' @ n)"
    using assms(2,3) by (auto simp: first_hit_None key_of_natural_def in_natural_major_def Let_def split: if_splits)
  then show ?thesis
    using contains_prefix [of lower "''key of '' @ n" "''b''"] contains_prefix [of lower "''in '' @ n" "''bm''"]
      contains_prefix [of lower "''in '' @ n" "''b''"]
    by (auto simp: key_of_accidental_def n(2))
qed

lemma natural_results:
  "n \<in> set natural_notes \<Longrightarrow> ucfirst n \<in> {''C'', ''D'', ''E'', ''F'', ''G'', ''A'', ''B''}"
proof -
  have "map ucfirst natural_notes = [''C'', ''D'', ''E'', ''F'', ''G'', ''A'', ''B'']" by code_simp
  then have "set (map ucfirst natural_notes) = set [''C'', ''D'', ''E'', ''F'', ''G'', ''A'', ''B'']"
    by (rule arg_cong)
  then show "n \<in> set natural_notes \<Longrightarrow> ucfirst n \<in> {''C'', ''D'', ''E'', ''F'', ''G'', ''A'', ''B''}"
    unfolding set_map by (simp only: set_simps) blast
qed

lemma accidental_split: "set accidentals = set (take 6 accidentals) \<union> set (drop 6 accidentals)"
  by (simp only: set_append [symmetric] append_take_drop_id)

lemma sharp_results: "ad \<in> set (take 6 accidentals) \<Longrightarrow> snd ad \<in> {''F#'', ''C#'', ''G#'', ''D#'', ''A#'', ''E#''}"
  by (auto simp: accidentals_def)

lemma detect_key_range:
  "fst (detect_key_and_scale lower) \<in>
     {''C'', ''D'', ''E'', ''F'', ''G'', ''A'', ''B''} \<union> {''F#'', ''C#'', ''G#'', ''D#'', ''A#'', ''E#''} \<and>
   snd (detect_key_and_scale lower) \<in> {''major'', ''minor''}"
proof -
  define K where "K = {''C'', ''D'', ''E'', ''F'', ''G'', ''A'', ''B''} \<union> {''F#'', ''C#'', ''G#'', ''D#'', ''A#'', ''E#''}"
  have K: "''C'' \<in> K" "n \<in> set natural_notes \<Longrightarrow> ucfirst n \<in> K" "ad \<in> set (take 6 accidentals) \<Longrightarrow> snd ad \<in> K" for n ad
    using natural_results [of n] sharp_results [of ad] unfolding K_def by blast+
  have nat: "fst r \<in> K \<and> snd r \<in> {''major'', ''minor''}"
    if hit: "first_hit f natural_notes = Some r"
      and f: "f \<in> {key_of_natural lower, named_natural lower, in_natural_minor lower, in_natural_major lower}"
    for r f
    using first_hit_Some [OF hit] f K(2)
    by (auto simp: key_of_natural_def named_natural_def in_natural_minor_def in_natural_major_def Let_def split: if_splits)
  have acc: "fst r \<in> K \<and> snd r \<in> {''major'', ''minor''}"
    if hit: "first_hit f accidentals = Some r" and f: "f \<in> {named_accidental lower, key_of_accidental lower}"
      and flat: "\<And>ad. ad \<in> set (drop 6 accidentals) \<Longrightarrow> f ad = None" for r f
  proof -
    obtain ad where ad: "ad \<in> set accidentals" "f ad = Some r" using first_hit_Some [OF hit] by blast
    then have "ad \<in> set (take 6 accidentals)" using flat accidental_split by fastforce
    then have "snd ad \<in> K" by (rule K(3))
    then show ?thesis
      using ad(2) f by (auto simp: named_accidental_def key_of_accidental_def split: if_splits)
  qed
  show ?thesis
    unfolding K_def [symmetric] detect_key_and_scale_def
    using K(1) nat [of "key_of_natural lower"] nat [of "named_natural lower"] nat [of "in_natural_minor lower"]
      nat [of "in_natural_major lower"] acc [of "named_accidental lower"] acc [of "key_of_accidental lower"]
      flat_not_named [of _ lower] flat_not_in [of _ lower]
    by (simp split: option.split)
qed

text \<open>
  No prompt is ever given a flat key. A flat's spelling ends or starts with the letter of a
  natural note, and every test for a flat is preceded by the test for that natural note, so
  "Bb minor" is read as B minor and "in Eb" as E major.
\<close>

theorem flat_keys_unreachable:
  "fst (detect_key_and_scale lower) \<notin> {''Bb'', ''Eb'', ''Ab'', ''Db'', ''Gb''}"
  using detect_key_range [of lower] by auto

subsection \<open>The blueprint of a prompt\<close>

lemma add_section_ok:
  assumes "1 \<le> d" "d \<le> 256" "e \<noteq> Unspecified"
  shows "list_all (\<lambda>s. 1 \<le> sec_bars s \<and> sec_bars s \<le> 256 \<and> sec_energy s \<noteq> Unspecified) (add_section lower c name d e)"
  using extract_bars_for_section_limits [OF assms(1,2)] assms(3)
  by (auto simp: add_section_def Let_def mk_section_def)

lemma build_sections_ok:
  assumes "e \<noteq> Unspecified"
  shows "build_sections lower e \<noteq> [] \<and>
     list_all (\<lambda>s. 1 \<le> sec_bars s \<and> sec_bars s \<le> 256 \<and> sec_energy s \<noteq> Unspecified) (build_sections lower e)"
proof (cases "contains lower ''intro'' \<or> contains lower ''verse'' \<or> contains lower ''chorus'' \<or>
    contains lower ''bridge'' \<or> contains lower ''outro''")
  case True
  then have "build_sections lower e \<noteq> []" by (auto simp: build_sections_def add_section_def Let_def)
  then show ?thesis using True by (simp add: build_sections_def Let_def add_section_ok)
next
  case False
  then show ?thesis
    using extract_total_bars_limits [of lower 0] assms
    by (auto simp: build_sections_def Let_def mk_section_def standard_form_def extract_total_bars_def)
qed

lemma detect_energy_specified: "detect_energy lower \<noteq> Unspecified"
  by (simp add: detect_energy_def)

definition instrument_ok :: "blueprint_instrument \<Rightarrow> bool" where
  "instrument_ok i \<longleftrightarrow> (inst_role i = ''drum'') = (inst_channel i = 9) \<and> 0 \<le> inst_channel i \<and> inst_channel i \<le> 9"

lemma instrument_calls_ok:
  "distinct (map (inst_channel \<circ> snd) (instrument_calls lower))" "list_all (instrument_ok \<circ> snd) (instrument_calls lower)"
  "distinct (map inst_channel default_trio)" "list_all instrument_ok default_trio"
  by (simp_all add: instrument_calls_def default_trio_def mk_instrument_def instrument_ok_def)

lemma detect_instruments_ok:
  "detect_instruments lower \<noteq> [] \<and> length (detect_instruments lower) \<le> 8 \<and>
   distinct (map inst_channel (detect_instruments lower)) \<and> list_all instrument_ok (detect_instruments lower)"
proof -
  define calls where "calls = instrument_calls lower"
  have "length calls = 8" by (simp add: calls_def instrument_calls_def)
  then have "length (filter fst calls) \<le> 8" using length_filter_le [of fst calls] by simp
  moreover have "list_ex fst calls \<Longrightarrow> filter fst calls \<noteq> []" by (auto simp: list_ex_iff filter_empty_conv)
  ultimately show ?thesis
    using distinct_map_filter [OF instrument_calls_ok(1) [of lower], of fst] instrument_calls_ok(2) [of lower]
      instrument_calls_ok(3,4)
    unfolding detect_instruments_def Let_def calls_def [symmetric]
    by (auto simp: list_all_iff default_trio_def)
qed

lemma interpret_wf:
  assumes "\<not> has_literal_notes (to_lower prompt)"
  shows "20 \<le> bp_bpm (interpret_prompt prompt sd) \<and> bp_bpm (interpret_prompt prompt sd) \<le> 300 \<and>
         length (genres (interpret_prompt prompt sd)) = 1 \<and>
         bp_scale (interpret_prompt prompt sd) \<in> {''major'', ''minor''} \<and>
         sections (interpret_prompt prompt sd) \<noteq> [] \<and>
         list_all (\<lambda>s. 1 \<le> sec_bars s \<and> sec_bars s \<le> 256 \<and> sec_energy s \<noteq> Unspecified)
           (sections (interpret_prompt prompt sd)) \<and>
         instruments (interpret_prompt prompt sd) \<noteq> [] \<and>
         distinct (map inst_channel (instruments (interpret_prompt prompt sd))) \<and>
         list_all instrument_ok (instruments (interpret_prompt prompt sd))"
proof -
  define lower where "lower = to_lower prompt"
  have "length (if detect_genre lower = [] then [''pop''] else detect_genre lower) = 1"
    by (auto simp: detect_genre_def split: option.split)
  then show ?thesis
    using assms detect_bpm_limits [of lower 0] detect_key_range [of lower]
      build_sections_ok [OF detect_energy_specified, of lower lower] detect_instruments_ok [of lower]
    unfolding interpret_prompt_def lower_def [symmetric] Let_def
    by (simp add: split_beta detect_bpm_def)
qed

text \<open>
  A prompt that is not rejected gives a usable blueprint: a tempo in 20..300, one genre, a
  major or minor scale, at least one section, each with 1..256 bars and an energy, and one to
  eight instruments on distinct channels 0..9 with the drums, and only they, on channel 9.
\<close>

theorem interpret_wellformed:
  assumes "\<not> has_literal_notes (to_lower prompt)"
  shows "20 \<le> bp_bpm (interpret_prompt prompt sd) \<and> bp_bpm (interpret_prompt prompt sd) \<le> 300 \<and>
         length (genres (interpret_prompt prompt sd)) = 1 \<and>
         bp_scale (interpret_prompt prompt sd) \<in> {''major'', ''minor''} \<and>
         sections (interpret_prompt prompt sd) \<noteq> [] \<and>
         list_all (\<lambda>s. 1 \<le> sec_bars s \<and> sec_bars s \<le> 256 \<and> sec_energy s \<noteq> Unspecified)
           (sections (interpret_prompt prompt sd)) \<and>
         instruments (interpret_prompt prompt sd) \<noteq> [] \<and>
         distinct (map inst_channel (instruments (interpret_prompt prompt sd))) \<and>
         list_all instrument_ok (instruments (interpret_prompt prompt sd))"
  by (rule interpret_wf [OF assms])

definition demo_prompt :: string where "demo_prompt = ''Calm jazz with piano and bass''"

lemma demo_prompt_accepted: "\<not> has_literal_notes (to_lower demo_prompt)"
  by code_simp

theorem interpret_wellformed_witness:
  "20 \<le> bp_bpm (interpret_prompt demo_prompt 0) \<and> sections (interpret_prompt demo_prompt 0) \<noteq> [] \<and>
   distinct (map inst_channel (instruments (interpret_prompt demo_prompt 0)))"
  using interpret_wellformed [OF demo_prompt_accepted, of 0] by blast

lemma accepted_prompt_generates:
  assumes "\<not> has_literal_notes (to_lower prompt)"
  shows "if 40 \<le> detect_bpm (to_lower prompt) \<and> fst (detect_key_and_scale (to_lower prompt)) \<noteq> ''E#''
         then blueprint_ok (blueprint_generate (interpret_prompt prompt sd)) \<and>
              map sec_name (sections (blueprint_generate (interpret_prompt prompt sd))) =
                map sec_name (sections (interpret_prompt prompt sd))
         else blueprint_generate (interpret_prompt prompt sd) = default_blueprint"
proof -
  define bp where "bp = interpret_prompt prompt sd"
  have f: "bp_bpm bp = detect_bpm (to_lower prompt)" "root_key bp = fst (detect_key_and_scale (to_lower prompt))"
    using assms by (simp_all add: bp_def interpret_prompt_def Let_def split_beta)
  have w: "bp_bpm bp \<le> 300" "bp_scale bp \<in> {''major'', ''minor''}" "sections bp \<noteq> []"
    "list_all (\<lambda>s. 1 \<le> sec_bars s \<and> sec_bars s \<le> 256) (sections bp)"
    using interpret_wf [OF assms, of sd] unfolding bp_def by (auto simp: list_all_iff)
  have k: "root_key bp \<in> set kValidKeys \<longleftrightarrow> root_key bp \<noteq> ''E#''"
    using detect_key_range [of "to_lower prompt"] unfolding f(2) by (auto simp: kValidKeys_def)
  have s: "bp_scale bp \<in> set kValidScales" using w(2) by (auto simp: kValidScales_def)
  show ?thesis
    using generate_cases [of bp] w k s
    unfolding bp_def [symmetric] f(1) [symmetric] f(2) [symmetric] by (auto split: if_splits)
qed

text \<open>
  C4. From the prompt to the generator: the generator rejects the blueprint of an accepted
  prompt exactly when the tempo read is below 40 (the interpreter accepts 20..300, the
  generator 40..300) or the key read is E sharp (which the generator's table lacks);
  otherwise the result is complete, with the sections the prompt named.
\<close>

theorem prompt_through_generator:
  assumes "\<not> has_literal_notes (to_lower prompt)"
  shows "if 40 \<le> detect_bpm (to_lower prompt) \<and> fst (detect_key_and_scale (to_lower prompt)) \<noteq> ''E#''
         then blueprint_ok (blueprint_generate (interpret_prompt prompt sd)) \<and>
              map sec_name (sections (blueprint_generate (interpret_prompt prompt sd))) =
                map sec_name (sections (interpret_prompt prompt sd))
         else blueprint_generate (interpret_prompt prompt sd) = default_blueprint"
  by (rule accepted_prompt_generates [OF assms])

theorem prompt_through_generator_witness:
  "blueprint_ok (blueprint_generate (interpret_prompt demo_prompt 0))"
proof -
  have "40 \<le> detect_bpm (to_lower demo_prompt) \<and> fst (detect_key_and_scale (to_lower demo_prompt)) \<noteq> ''E#''"
    by code_simp
  then show ?thesis using prompt_through_generator [OF demo_prompt_accepted, of 0] by simp
qed

lemma literal_prompt_generates:
  assumes "has_literal_notes (to_lower prompt)"
  shows "blueprint_ok (blueprint_generate (interpret_prompt prompt sd)) \<and>
         map sec_name (sections (blueprint_generate (interpret_prompt prompt sd))) =
           [''intro'', ''verse'', ''chorus'', ''outro'']"
proof -
  have "interpret_prompt prompt sd = default_blueprint\<lparr>bp_seed := (if sd = 0 then fnv1a prompt else sd)\<rparr>"
    using assms by (simp add: interpret_prompt_def Let_def)
  then show ?thesis
    using generate_cases [of "interpret_prompt prompt sd"]
    by (simp add: default_blueprint_def kValidKeys_def kValidScales_def)
qed

text \<open>
  A prompt rejected for asking for literal notes is composed all the same: the blank
  blueprint the interpreter returns is completed by the generator to the default song of four
  sections and three instruments.
\<close>

theorem rejected_prompt_still_composed:
  assumes "has_literal_notes (to_lower prompt)"
  shows "blueprint_ok (blueprint_generate (interpret_prompt prompt sd)) \<and>
         map sec_name (sections (blueprint_generate (interpret_prompt prompt sd))) =
           [''intro'', ''verse'', ''chorus'', ''outro'']"
  by (rule literal_prompt_generates [OF assms])

theorem rejected_prompt_still_composed_witness:
  "has_literal_notes (to_lower ''Write notes for me'') \<and>
   blueprint_ok (blueprint_generate (interpret_prompt ''Write notes for me'' 1))"
proof -
  have "has_literal_notes (to_lower ''Write notes for me'')" by code_simp
  then show ?thesis using rejected_prompt_still_composed [of "''Write notes for me''" 1] by blast
qed

end
