(* ===== verification/Input_Validation.thy ===== *)
theory Input_Validation
  imports Prelude
begin

text \<open>
  Validation of user prompts (\<open>input_validation.cpp\<close>): length limits and the patterns that ask
  for literal MIDI notes.
\<close>

record validation_result =
  valid :: bool
  verror :: string
  sanitized :: string

definition kMaxPromptLength :: nat where "kMaxPromptLength = 4096"

definition forbidden_patterns :: "string list" where
  "forbidden_patterns =
     [''note c'', ''note d'', ''note e'', ''note f'', ''note g'', ''note a'', ''note b'',
      ''notes c'', ''notes d'', ''notes e'', ''notes f'', ''notes g'', ''notes a'', ''notes b'',
      ''midi note'', ''midi notes'',
      ''write note'', ''write notes'',
      ''generate note'', ''generate notes'',
      ''play note'', ''play notes'',
      ''create note'', ''create notes'',
      ''c4 '', ''d4 '', ''e4 '', ''f4 '', ''g4 '', ''a4 '', ''b4 '',
      '' c4'', '' d4'', '' e4'', '' f4'', '' g4'', '' a4'', '' b4'',
      ''midi number'', ''midi value'',
      ''note number'', ''note value'',
      ''pitch 6'', ''pitch 7'', ''pitch 8'', ''pitch 9'',
      ''velocity 12'', ''velocity 6'', ''velocity 8'',
      ''c e g'', ''c e g '', ''c e g b'', ''d f a'', ''e g b'',
      ''c major chord notes'', ''c minor chord notes'']"

definition contains_forbidden_patterns :: "string \<Rightarrow> bool" where
  "contains_forbidden_patterns prompt =
     (let lower = to_lower prompt in list_ex (\<lambda>pat. contains lower pat) forbidden_patterns)"

definition sanitize :: "string \<Rightarrow> string" where
  "sanitize prompt = take kMaxPromptLength prompt"

definition validate_prompt :: "string \<Rightarrow> validation_result" where
  "validate_prompt prompt =
     (if prompt = [] then
        \<lparr>valid = False, verror = ''Prompt cannot be empty'', sanitized = []\<rparr>
      else if length prompt > kMaxPromptLength then
        \<lparr>valid = False, verror = ''Prompt exceeds maximum length of 4096 characters'', sanitized = []\<rparr>
      else if contains_forbidden_patterns prompt then
        \<lparr>valid = False,
         verror = ''Prompt contains forbidden patterns: asking for literal MIDI notes is not supported. '' @
                  ''Describe the musical style, mood, and structure instead.'',
         sanitized = []\<rparr>
      else \<lparr>valid = True, verror = [], sanitized = sanitize prompt\<rparr>)"

text \<open>
  A prompt is accepted exactly when it is not empty, has at most 4096 characters and
  contains none of the forbidden patterns in any mixture of cases; an accepted prompt is
  passed on unchanged with no error, and a rejected one has an error text and nothing to pass
  on.
\<close>

theorem validate_prompt_iff:
  "(valid (validate_prompt s) \<longleftrightarrow>
      s \<noteq> [] \<and> length s \<le> 4096 \<and> \<not> (\<exists>pat \<in> set forbidden_patterns. sublist pat (to_lower s))) \<and>
   (valid (validate_prompt s) \<longleftrightarrow> verror (validate_prompt s) = []) \<and>
   sanitized (validate_prompt s) = (if valid (validate_prompt s) then s else [])"
  by (auto simp: validate_prompt_def kMaxPromptLength_def contains_forbidden_patterns_def Let_def
      list_ex_iff contains_iff_sublist sanitize_def)

text \<open>
  The check cannot be escaped by adding text: every prompt that contains a rejected prompt
  is itself rejected, whatever stands around it.
\<close>

theorem forbidden_in_context:
  assumes "contains_forbidden_patterns s"
  shows "\<not> valid (validate_prompt (before @ s @ after))"
proof -
  have "sublist (to_lower s) (to_lower (before @ s @ after))"
    by (simp add: to_lower_def sublist_appendI)
  then have "contains_forbidden_patterns (before @ s @ after)"
    using assms sublist_order.order.trans
    by (fastforce simp: contains_forbidden_patterns_def Let_def list_ex_iff contains_iff_sublist)
  then show ?thesis by (simp add: validate_prompt_def)
qed

theorem forbidden_in_context_witness:
  "contains_forbidden_patterns ''Play NOTE c'' \<and> \<not> valid (validate_prompt (''Please: '' @ ''Play NOTE c'' @ '' now''))"
proof -
  have "contains_forbidden_patterns ''Play NOTE c''" by code_simp
  then show ?thesis using forbidden_in_context [of "''Play NOTE c''" "''Please: ''" "'' now''"] by blast
qed

end
