(* ===== verification/Style_Detection.thy ===== *)
theory Style_Detection
  imports Prelude F32
begin

text \<open>
  The keyword-based style detection (\<open>style_detection.cpp\<close>): the first keyword of the table that
  occurs in the lower-cased prompt decides genre, mood and tempo.
\<close>

record style_info =
  genre :: string
  subgenres :: "string list"
  confidence :: rat
  mood :: string
  tempo_guess :: rat
  key_guess :: string

definition genre_matches :: "(string \<times> string \<times> string \<times> rat) list" where
  "genre_matches =
     [(''rock'', ''rock'', ''energetic'', 130),
      (''jazz'', ''jazz'', ''sophisticated'', 110),
      (''blues'', ''blues'', ''melancholic'', 100),
      (''electronic'', ''electronic'', ''energetic'', 128),
      (''edm'', ''electronic'', ''energetic'', 128),
      (''techno'', ''electronic'', ''intense'', 140),
      (''hip hop'', ''hip_hop'', ''confident'', 95),
      (''rap'', ''hip_hop'', ''confident'', 95),
      (''rnb'', ''rnb'', ''smooth'', 90),
      (''funk'', ''funk'', ''groovy'', 110),
      (''soul'', ''soul'', ''emotional'', 100),
      (''classical'', ''classical'', ''serene'', 80),
      (''latin'', ''latin'', ''passionate'', 120),
      (''bossa'', ''latin'', ''relaxed'', 120),
      (''country'', ''country'', ''nostalgic'', 100),
      (''metal'', ''metal'', ''aggressive'', 160),
      (''folk'', ''folk'', ''earthy'', 100)]"

definition analyze_text :: "string \<Rightarrow> u64 \<Rightarrow> style_info" where
  "analyze_text prompt sd =
     (let info = \<lparr>genre = ''pop'', subgenres = [''pop'', ''catchy''], confidence = 1/2, mood = ''neutral'',
                  tempo_guess = 120, key_guess = ''C''\<rparr>;
          lower = to_lower prompt
      in case find (\<lambda>(kw, g, m, t). contains lower kw) genre_matches of
           None \<Rightarrow> info
         | Some (kw, g, m, t) \<Rightarrow>
             info\<lparr>genre := g, mood := m, tempo_guess := t, confidence := f32_round (7/10)\<rparr>)"

definition analyze_audio :: "rat list \<Rightarrow> u64 \<Rightarrow> style_info" where
  "analyze_audio features sd =
     \<lparr>genre = ''pop'', subgenres = [''pop''], confidence = f32_round (3/10), mood = ''neutral'',
      tempo_guess = 120, key_guess = ''C''\<rparr>"

text \<open>
  The genre found for a text is the one of the first table keyword that occurs in it, ignoring
  case, and pop when none does.
\<close>

lemma analyze_text_first_match:
  "(\<exists>i < length genre_matches. \<exists>kw g m t. genre_matches ! i = (kw, g, m, t) \<and> sublist kw (to_lower s) \<and>
      (\<forall>j < i. \<not> sublist (fst (genre_matches ! j)) (to_lower s)) \<and>
      genre (analyze_text s sd) = g \<and> mood (analyze_text s sd) = m \<and> tempo_guess (analyze_text s sd) = t) \<or>
   (\<forall>e \<in> set genre_matches. \<not> sublist (fst e) (to_lower s)) \<and> genre (analyze_text s sd) = ''pop'' \<and>
     tempo_guess (analyze_text s sd) = 120"
proof (cases "find (\<lambda>(kw, g, m, t). contains (to_lower s) kw) genre_matches")
  case None
  then have "\<forall>e \<in> set genre_matches. \<not> sublist (fst e) (to_lower s)"
    by (fastforce simp: find_None_iff contains_iff_sublist)
  then show ?thesis using None by (simp add: analyze_text_def Let_def)
next
  case (Some e)
  then obtain i where i: "i < length genre_matches" "genre_matches ! i = e" "(\<lambda>(kw, g, m, t). contains (to_lower s) kw) e"
    "\<forall>j < i. \<not> (\<lambda>(kw, g, m, t). contains (to_lower s) kw) (genre_matches ! j)"
    by (auto simp: find_Some_iff)
  obtain kw g m t where e: "e = (kw, g, m, t)" by (cases e) auto
  show ?thesis
  proof (rule disjI1, rule exI [of _ i], rule conjI [OF i(1)], rule exI [of _ kw], rule exI [of _ g],
      rule exI [of _ m], rule exI [of _ t], intro conjI)
    show "sublist kw (to_lower s)" using i(3) by (simp add: e contains_iff_sublist)
    show "\<forall>j < i. \<not> sublist (fst (genre_matches ! j)) (to_lower s)"
      using i(4) by (auto simp: contains_iff_sublist split_beta)
  qed (use i(1,2) e Some in \<open>simp_all add: analyze_text_def Let_def\<close>)
qed

end
