(* ===== verification/Midi_Event_Arena.thy ===== *)
theory Midi_Event_Arena
  imports Midi_Types
begin

text \<open>
  The pool of events (\<open>MidiEventArena.hpp\<close>): a bump allocator over one block, the vector-like
  wrapper that fills it and the STL allocator on top. A pointer into the block is its index,
  a null pointer is \<open>None\<close>; \<open>std::size_t\<close> is a 64-bit word, so sums of sizes wrap.
\<close>

record midi_event_arena =
  arena_capacity :: u64
  arena_buffer :: "midi_event list"
  arena_used :: u64

definition MidiEventArena :: "u64 \<Rightarrow> midi_event_arena" where
  "MidiEventArena cap =
     \<lparr>arena_capacity = cap, arena_buffer = replicate (unat cap) (make_event 0 0 0 0 0), arena_used = 0\<rparr>"

definition arena_reset :: "midi_event_arena \<Rightarrow> midi_event_arena" where
  "arena_reset a = a\<lparr>arena_used := 0\<rparr>"

definition arena_allocate :: "midi_event_arena \<Rightarrow> nat option \<times> midi_event_arena" where
  "arena_allocate a =
     (if arena_used a \<ge> arena_capacity a then (None, a)
      else (Some (unat (arena_used a)), a\<lparr>arena_used := arena_used a + 1\<rparr>))"

definition arena_allocate_n :: "u64 \<Rightarrow> midi_event_arena \<Rightarrow> nat option \<times> midi_event_arena" where
  "arena_allocate_n n a =
     (if arena_used a + n > arena_capacity a then (None, a)
      else (Some (unat (arena_used a)), a\<lparr>arena_used := arena_used a + n\<rparr>))"

definition arena_remaining :: "midi_event_arena \<Rightarrow> u64" where
  "arena_remaining a = arena_capacity a - arena_used a"

record arena_event_vector =
  vec_data :: "nat option"
  vec_size :: u64

definition ArenaEventVector :: arena_event_vector where
  "ArenaEventVector = \<lparr>vec_data = None, vec_size = 0\<rparr>"

definition vec_push_back ::
  "midi_event \<Rightarrow> arena_event_vector \<Rightarrow> midi_event_arena \<Rightarrow> bool \<times> arena_event_vector \<times> midi_event_arena" where
  "vec_push_back ev v a =
     (case arena_allocate a of
        (None, a1) \<Rightarrow> (False, v, a1)
      | (Some sl, a1) \<Rightarrow>
          (True, \<lparr>vec_data = (if vec_size v = 0 then Some sl else vec_data v), vec_size = vec_size v + 1\<rparr>,
           a1\<lparr>arena_buffer := (arena_buffer a1)[sl := ev]\<rparr>))"

definition vec_at :: "arena_event_vector \<Rightarrow> midi_event_arena \<Rightarrow> nat \<Rightarrow> midi_event" where
  "vec_at v a i = arena_buffer a ! (the (vec_data v) + i)"

definition vec_empty :: "arena_event_vector \<Rightarrow> bool" where "vec_empty v \<longleftrightarrow> vec_size v = 0"

definition vec_clear :: "arena_event_vector \<Rightarrow> arena_event_vector" where
  "vec_clear v = v\<lparr>vec_size := 0\<rparr>"

text \<open>
  \<open>MidiEventArenaAllocator<T>::allocate\<close> for an element type of \<open>sz\<close> bytes; an event has 12. \<open>None\<close> is
  \<open>std::bad_alloc\<close>.
\<close>

definition sizeof_MidiEvent :: u64 where "sizeof_MidiEvent = 12"

definition allocator_allocate :: "u64 \<Rightarrow> u64 \<Rightarrow> midi_event_arena \<Rightarrow> nat option \<times> midi_event_arena" where
  "allocator_allocate sz n a = arena_allocate_n (n * sz div sizeof_MidiEvent) a"

fun push_all :: "midi_event list \<Rightarrow> arena_event_vector \<Rightarrow> midi_event_arena \<Rightarrow> arena_event_vector \<times> midi_event_arena" where
  "push_all [] v a = (v, a)"
| "push_all (e # es) v a = (let (_, v', a') = vec_push_back e v a in push_all es v' a')"

subsection \<open>Invariant\<close>

definition arena_inv :: "midi_event_arena \<Rightarrow> bool" where
  "arena_inv a \<longleftrightarrow> length (arena_buffer a) = unat (arena_capacity a) \<and> arena_used a \<le> arena_capacity a"

lemma arena_init_inv: "arena_inv (MidiEventArena cap)"
  by (simp add: arena_inv_def MidiEventArena_def)

lemma u64_inc: "x < y \<Longrightarrow> unat (x + 1) = unat x + 1" for x y :: u64
  using unsigned_less [of y, where ?'a = nat] by (simp add: word_less_nat_alt unat_word_ariths)

lemma arena_allocate_inv: "arena_inv a \<Longrightarrow> arena_inv (snd (arena_allocate a))"
  using u64_inc [of "arena_used a" "arena_capacity a"]
  by (auto simp: arena_inv_def arena_allocate_def not_le word_le_nat_alt word_less_nat_alt)

text \<open>
  \<open>allocate_n\<close> hands out a run of slots inside the block, after everything handed out
  before, exactly when that many are left, provided the sum of sizes fits in 64 bits; the
  invariant that the used count is within the block is kept.
\<close>

theorem allocate_n_in_bounds:
  assumes "arena_inv a" "unat (arena_used a) + unat n < 2 ^ 64"
  shows "(fst (arena_allocate_n n a) = Some (unat (arena_used a)) \<longleftrightarrow> unat n \<le> unat (arena_remaining a)) \<and>
         (fst (arena_allocate_n n a) = None \<longleftrightarrow> unat (arena_remaining a) < unat n) \<and>
         arena_inv (snd (arena_allocate_n n a)) \<and>
         (\<forall>p. fst (arena_allocate_n n a) = Some p \<longrightarrow> p + unat n \<le> length (arena_buffer a) \<and>
              unat (arena_used (snd (arena_allocate_n n a))) = p + unat n)"
proof -
  have sum: "unat (arena_used a + n) = unat (arena_used a) + unat n"
    using assms(2) by (simp add: unat_word_ariths)
  have rem: "unat (arena_remaining a) = unat (arena_capacity a) - unat (arena_used a)"
    using assms(1) by (simp add: arena_remaining_def arena_inv_def unat_sub)
  show ?thesis
    using assms(1) sum rem
    by (auto simp: arena_allocate_n_def arena_inv_def word_le_nat_alt word_less_nat_alt not_less)
qed

theorem allocate_n_in_bounds_witness:
  "fst (arena_allocate_n 3 (MidiEventArena 4)) = Some 0 \<and> fst (arena_allocate_n 5 (MidiEventArena 4)) = None"
  using allocate_n_in_bounds [OF arena_init_inv, of 4 3] allocate_n_in_bounds [OF arena_init_inv, of 4 5]
  by (simp add: MidiEventArena_def arena_remaining_def)

text \<open>
  When the sum wraps, \<open>allocate_n\<close> does not refuse: a request of \<open>2^64 - used\<close> events is
  granted, and the used count goes back to 0, so the next allocation hands out slots that are
  already in use.
\<close>

theorem allocate_n_wraps:
  assumes "arena_used a \<noteq> 0"
  shows "unat (- arena_used a) + unat (arena_used a) = 2 ^ 64 \<and>
         fst (arena_allocate_n (- arena_used a) a) = Some (unat (arena_used a)) \<and>
         arena_used (snd (arena_allocate_n (- arena_used a) a)) = 0"
proof -
  have "unat (- arena_used a) = 2 ^ 64 - unat (arena_used a)"
    using assms unat_sub_if' [of 0 "arena_used a"] by (simp add: unat_gt_0)
  moreover have "unat (arena_used a) < 2 ^ 64" using unsigned_less [of "arena_used a", where ?'a = nat] by simp
  ultimately show ?thesis by (simp add: arena_allocate_n_def)
qed

theorem allocate_n_wraps_witness:
  "fst (arena_allocate_n (- 1) (snd (arena_allocate (MidiEventArena 4)))) = Some 1 \<and>
   arena_used (snd (arena_allocate_n (- 1) (snd (arena_allocate (MidiEventArena 4))))) = 0"
  using allocate_n_wraps [of "snd (arena_allocate (MidiEventArena 4))"]
  by (simp add: arena_allocate_def MidiEventArena_def)

subsection \<open>Vectors\<close>

text \<open>A vector whose elements are the last slots handed out: no one else has allocated since.\<close>

definition vec_holds :: "arena_event_vector \<Rightarrow> midi_event_arena \<Rightarrow> midi_event list \<Rightarrow> bool" where
  "vec_holds v a xs \<longleftrightarrow>
     unat (vec_size v) = length xs \<and> length xs \<le> unat (arena_used a) \<and>
     (xs \<noteq> [] \<longrightarrow> vec_data v = Some (unat (arena_used a) - length xs)) \<and>
     (\<forall>i < length xs. arena_buffer a ! (unat (arena_used a) - length xs + i) = xs ! i)"

lemma vec_push_step:
  assumes "arena_inv a" "vec_holds v a xs" "unat (arena_used a) < unat (arena_capacity a)"
  shows "\<exists>v' a'. vec_push_back e v a = (True, v', a') \<and> arena_inv a' \<and> vec_holds v' a' (xs @ [e]) \<and>
           unat (arena_used a') = unat (arena_used a) + 1 \<and> arena_capacity a' = arena_capacity a"
proof -
  define u where "u = unat (arena_used a)"
  define v' where "v' = \<lparr>vec_data = (if vec_size v = 0 then Some u else vec_data v), vec_size = vec_size v + 1\<rparr>"
  define a' where "a' = a\<lparr>arena_used := arena_used a + 1, arena_buffer := (arena_buffer a)[u := e]\<rparr>"
  have lt: "arena_used a < arena_capacity a" using assms(3) by (simp add: word_less_nat_alt)
  have inc: "unat (arena_used a + 1) = u + 1" using u64_inc [OF lt] by (simp add: u_def)
  have len: "u < length (arena_buffer a)" using assms(1,3) by (simp add: arena_inv_def u_def)
  have sz: "unat (vec_size v) = length xs" "length xs \<le> u" using assms(2) by (simp_all add: vec_holds_def u_def)
  then have "vec_size v < arena_capacity a" using assms(3) by (simp add: word_less_nat_alt u_def)
  then have szinc: "unat (vec_size v + 1) = length xs + 1" using u64_inc sz(1) by metis
  have push: "vec_push_back e v a = (True, v', a')"
    using lt by (simp add: vec_push_back_def arena_allocate_def v'_def a'_def u_def)
  have inv: "arena_inv a'"
    using assms(1,3) inc by (simp add: arena_inv_def a'_def word_le_nat_alt u_def)
  have zero: "vec_size v = 0 \<longleftrightarrow> xs = []" using sz(1) by (simp add: unat_eq_0 [symmetric])
  have "arena_buffer a' ! (u - length xs + i) = (xs @ [e]) ! i" if "i < length xs + 1" for i
    using that sz(2) len assms(2) by (auto simp: a'_def vec_holds_def nth_append nth_list_update u_def less_Suc_eq)
  then have "vec_holds v' a' (xs @ [e])"
    using szinc inc sz assms(2) zero
    by (auto simp: vec_holds_def v'_def a'_def u_def [symmetric])
  then show ?thesis using push inv inc by (auto simp: a'_def u_def)
qed

lemma push_all_holds:
  "arena_inv a \<Longrightarrow> vec_holds v a xs \<Longrightarrow> unat (arena_used a) + length es \<le> unat (arena_capacity a) \<Longrightarrow>
   vec_holds (fst (push_all es v a)) (snd (push_all es v a)) (xs @ es)"
proof (induction es arbitrary: v a xs)
  case (Cons e es)
  then obtain v' a' where "vec_push_back e v a = (True, v', a')" "arena_inv a'" "vec_holds v' a' (xs @ [e])"
    "unat (arena_used a') = unat (arena_used a) + 1" "arena_capacity a' = arena_capacity a"
    using vec_push_step [of a v xs e] by auto
  then show ?case using Cons.IH [of a' v' "xs @ [e]"] Cons.prems by simp
qed simp

text \<open>
  A vector that has the arena to itself is a vector: after pushing events that fit, its
  size is their number and its elements are the events, in order.
\<close>

theorem arena_vector_roundtrip:
  assumes "arena_inv a" "unat (arena_used a) + length es \<le> unat (arena_capacity a)"
  shows "unat (vec_size (fst (push_all es ArenaEventVector a))) = length es \<and>
         (\<forall>i < length es. vec_at (fst (push_all es ArenaEventVector a)) (snd (push_all es ArenaEventVector a)) i = es ! i)"
proof -
  have "vec_holds ArenaEventVector a []" by (simp add: vec_holds_def ArenaEventVector_def)
  then have "vec_holds (fst (push_all es ArenaEventVector a)) (snd (push_all es ArenaEventVector a)) es"
    using push_all_holds [OF assms(1) _ assms(2)] by fastforce
  then show ?thesis by (auto simp: vec_holds_def vec_at_def)
qed

theorem arena_vector_roundtrip_witness:
  "let (v, a) = push_all [make_event 0 1 60 1 0, make_event 1 2 61 1 0] ArenaEventVector (MidiEventArena 4)
   in vec_at v a 1 = make_event 1 2 61 1 0"
  using arena_vector_roundtrip [OF arena_init_inv, of 4 "[make_event 0 1 60 1 0, make_event 1 2 61 1 0]"]
  by (simp add: MidiEventArena_def split_beta)

text \<open>
  Two vectors on one arena interfere: when the second vector pushes between two pushes of
  the first, element 1 of the first vector is the other vector's event, and its own second
  event is out of its reach.
\<close>

theorem interleaved_vectors_alias:
  assumes "arena_inv a" "unat (arena_used a) + 3 \<le> unat (arena_capacity a)"
  shows "let s1 = push_all [x] ArenaEventVector a;
             s2 = push_all [y] ArenaEventVector (snd s1);
             s3 = push_all [z] (fst s1) (snd s2)
         in unat (vec_size (fst s3)) = 2 \<and> vec_at (fst s3) (snd s3) 0 = x \<and> vec_at (fst s3) (snd s3) 1 = y"
proof -
  define u where "u = unat (arena_used a)"
  have lt: "arena_used a < arena_capacity a" using assms(2) by (simp add: word_less_nat_alt)
  then have i1: "unat (arena_used a + 1) = u + 1" by (simp add: u64_inc u_def)
  then have lt2: "arena_used a + 1 < arena_capacity a" using assms(2) by (simp add: word_less_nat_alt u_def)
  then have i2: "unat (arena_used a + 1 + 1) = u + 2" using i1 u64_inc [OF lt2] by simp
  then have lt3: "arena_used a + 1 + 1 < arena_capacity a" using assms(2) by (simp add: word_less_nat_alt u_def)
  have len: "u + 2 < length (arena_buffer a)" using assms(1,2) by (simp add: arena_inv_def u_def)
  show ?thesis
    using lt lt2 lt3 len i1 i2
    by (simp add: Let_def vec_push_back_def arena_allocate_def ArenaEventVector_def vec_at_def
        not_le nth_list_update flip: u_def)
qed

theorem interleaved_vectors_alias_witness:
  "let s1 = push_all [make_event 0 1 60 1 0] ArenaEventVector (MidiEventArena 4);
       s2 = push_all [make_event 1 2 61 1 0] ArenaEventVector (snd s1);
       s3 = push_all [make_event 2 3 62 1 0] (fst s1) (snd s2)
   in vec_at (fst s3) (snd s3) 1 = make_event 1 2 61 1 0"
  using interleaved_vectors_alias [OF arena_init_inv, of 4 "make_event 0 1 60 1 0" "make_event 1 2 61 1 0" "make_event 2 3 62 1 0"]
  by (simp add: Let_def MidiEventArena_def)

end
