(* ===== verification/GM_Programs.thy ===== *)
theory GM_Programs
  imports Prelude
begin

text \<open>
  The General MIDI tables of \<open>GMPrograms.hpp\<close>: the 128 programs with their category and playable
  range, the percussion key map, and the three look-ups. The look-ups index fixed arrays, so the
  facts that matter are about the tables: that entry \<open>i\<close> describes program \<open>i\<close>, and that each
  category is the block of eight that \<open>kCategoryStarts\<close> announces.
\<close>

datatype gm_category =
  GM_piano | GM_chromatic_percussion | GM_organ | GM_guitar | GM_bass | GM_strings | GM_ensemble |
  GM_brass | GM_reed | GM_pipe | GM_synth_lead | GM_synth_pad | GM_synth_effects | GM_ethnic |
  GM_percussion | GM_sound_effects

record gm_program =
  gm_prog :: int
  gm_name :: string
  gm_cat :: gm_category
  min_note :: int
  max_note :: int
  is_drum :: bool

record drum_note =
  dn_note :: int
  dn_name :: string

text \<open>\<open>static_cast<int>(cat)\<close>.\<close>

fun category_to_int :: "gm_category \<Rightarrow> nat" where
  "category_to_int GM_piano = 0"
| "category_to_int GM_chromatic_percussion = 1"
| "category_to_int GM_organ = 2"
| "category_to_int GM_guitar = 3"
| "category_to_int GM_bass = 4"
| "category_to_int GM_strings = 5"
| "category_to_int GM_ensemble = 6"
| "category_to_int GM_brass = 7"
| "category_to_int GM_reed = 8"
| "category_to_int GM_pipe = 9"
| "category_to_int GM_synth_lead = 10"
| "category_to_int GM_synth_pad = 11"
| "category_to_int GM_synth_effects = 12"
| "category_to_int GM_ethnic = 13"
| "category_to_int GM_percussion = 14"
| "category_to_int GM_sound_effects = 15"

definition kCategoryStarts :: "nat list" where
  "kCategoryStarts = [0, 8, 16, 24, 32, 40, 48, 56, 64, 72, 80, 88, 96, 104, 112, 120]"

definition kProgramsPerCategory :: nat where
  "kProgramsPerCategory = 8"

definition kGmPrograms :: "gm_program list" where
  "kGmPrograms =
     [gm_program.make 0 ''Acoustic Grand Piano'' GM_piano 21 108 False,
      gm_program.make 1 ''Bright Acoustic Piano'' GM_piano 21 108 False,
      gm_program.make 2 ''Electric Grand Piano'' GM_piano 21 108 False,
      gm_program.make 3 ''Honky-tonk Piano'' GM_piano 21 108 False,
      gm_program.make 4 ''Electric Piano 1'' GM_piano 21 108 False,
      gm_program.make 5 ''Electric Piano 2'' GM_piano 21 108 False,
      gm_program.make 6 ''Harpsichord'' GM_piano 21 108 False,
      gm_program.make 7 ''Clavinet'' GM_piano 21 108 False,
      gm_program.make 8 ''Celesta'' GM_chromatic_percussion 60 84 False,
      gm_program.make 9 ''Glockenspiel'' GM_chromatic_percussion 60 84 False,
      gm_program.make 10 ''Music Box'' GM_chromatic_percussion 60 84 False,
      gm_program.make 11 ''Vibraphone'' GM_chromatic_percussion 53 89 False,
      gm_program.make 12 ''Marimba'' GM_chromatic_percussion 48 84 False,
      gm_program.make 13 ''Xylophone'' GM_chromatic_percussion 60 96 False,
      gm_program.make 14 ''Tubular Bells'' GM_chromatic_percussion 48 84 False,
      gm_program.make 15 ''Dulcimer'' GM_chromatic_percussion 48 84 False,
      gm_program.make 16 ''Drawbar Organ'' GM_organ 36 96 False,
      gm_program.make 17 ''Percussive Organ'' GM_organ 36 96 False,
      gm_program.make 18 ''Rock Organ'' GM_organ 36 96 False,
      gm_program.make 19 ''Church Organ'' GM_organ 36 96 False,
      gm_program.make 20 ''Reed Organ'' GM_organ 36 96 False,
      gm_program.make 21 ''Accordion'' GM_organ 24 96 False,
      gm_program.make 22 ''Harmonica'' GM_organ 48 84 False,
      gm_program.make 23 ''Tango Accordion'' GM_organ 24 96 False,
      gm_program.make 24 ''Nylon String Guitar'' GM_guitar 40 88 False,
      gm_program.make 25 ''Steel String Guitar'' GM_guitar 40 88 False,
      gm_program.make 26 ''Electric Jazz Guitar'' GM_guitar 40 88 False,
      gm_program.make 27 ''Electric Clean Guitar'' GM_guitar 40 88 False,
      gm_program.make 28 ''Electric Muted Guitar'' GM_guitar 40 88 False,
      gm_program.make 29 ''Overdriven Guitar'' GM_guitar 40 88 False,
      gm_program.make 30 ''Distortion Guitar'' GM_guitar 40 88 False,
      gm_program.make 31 ''Guitar Harmonics'' GM_guitar 40 88 False,
      gm_program.make 32 ''Acoustic Bass'' GM_bass 28 60 False,
      gm_program.make 33 ''Electric Bass (Finger)'' GM_bass 28 60 False,
      gm_program.make 34 ''Electric Bass (Pick)'' GM_bass 28 60 False,
      gm_program.make 35 ''Fretless Bass'' GM_bass 28 60 False,
      gm_program.make 36 ''Slap Bass 1'' GM_bass 28 60 False,
      gm_program.make 37 ''Slap Bass 2'' GM_bass 28 60 False,
      gm_program.make 38 ''Synth Bass 1'' GM_bass 28 72 False,
      gm_program.make 39 ''Synth Bass 2'' GM_bass 28 72 False,
      gm_program.make 40 ''Violin'' GM_strings 48 100 False,
      gm_program.make 41 ''Viola'' GM_strings 36 88 False,
      gm_program.make 42 ''Cello'' GM_strings 36 84 False,
      gm_program.make 43 ''Contrabass'' GM_strings 28 60 False,
      gm_program.make 44 ''Tremolo Strings'' GM_strings 36 96 False,
      gm_program.make 45 ''Pizzicato Strings'' GM_strings 36 96 False,
      gm_program.make 46 ''Orchestral Harp'' GM_strings 36 96 False,
      gm_program.make 47 ''Timpani'' GM_strings 36 60 False,
      gm_program.make 48 ''String Ensemble 1'' GM_ensemble 36 96 False,
      gm_program.make 49 ''String Ensemble 2'' GM_ensemble 36 96 False,
      gm_program.make 50 ''Synth Strings 1'' GM_ensemble 36 96 False,
      gm_program.make 51 ''Synth Strings 2'' GM_ensemble 36 96 False,
      gm_program.make 52 ''Choir Aahs'' GM_ensemble 48 84 False,
      gm_program.make 53 ''Voice Oohs'' GM_ensemble 48 84 False,
      gm_program.make 54 ''Synth Voice'' GM_ensemble 36 96 False,
      gm_program.make 55 ''Orchestra Hit'' GM_ensemble 36 96 False,
      gm_program.make 56 ''Trumpet'' GM_brass 58 84 False,
      gm_program.make 57 ''Trombone'' GM_brass 40 72 False,
      gm_program.make 58 ''Tuba'' GM_brass 28 60 False,
      gm_program.make 59 ''Muted Trumpet'' GM_brass 58 84 False,
      gm_program.make 60 ''French Horn'' GM_brass 36 72 False,
      gm_program.make 61 ''Brass Section'' GM_brass 40 84 False,
      gm_program.make 62 ''Synth Brass 1'' GM_brass 36 84 False,
      gm_program.make 63 ''Synth Brass 2'' GM_brass 36 84 False,
      gm_program.make 64 ''Soprano Sax'' GM_reed 54 84 False,
      gm_program.make 65 ''Alto Sax'' GM_reed 42 78 False,
      gm_program.make 66 ''Tenor Sax'' GM_reed 36 72 False,
      gm_program.make 67 ''Baritone Sax'' GM_reed 28 66 False,
      gm_program.make 68 ''Oboe'' GM_reed 55 84 False,
      gm_program.make 69 ''English Horn'' GM_reed 54 78 False,
      gm_program.make 70 ''Bassoon'' GM_reed 34 66 False,
      gm_program.make 71 ''Clarinet'' GM_reed 50 84 False,
      gm_program.make 72 ''Piccolo'' GM_pipe 60 96 False,
      gm_program.make 73 ''Flute'' GM_pipe 60 96 False,
      gm_program.make 74 ''Recorder'' GM_pipe 60 84 False,
      gm_program.make 75 ''Pan Flute'' GM_pipe 60 96 False,
      gm_program.make 76 ''Blown Bottle'' GM_pipe 48 84 False,
      gm_program.make 77 ''Shakuhachi'' GM_pipe 60 84 False,
      gm_program.make 78 ''Whistle'' GM_pipe 72 96 False,
      gm_program.make 79 ''Ocarina'' GM_pipe 60 84 False,
      gm_program.make 80 ''Lead 1 (Square)'' GM_synth_lead 36 96 False,
      gm_program.make 81 ''Lead 2 (Sawtooth)'' GM_synth_lead 36 96 False,
      gm_program.make 82 ''Lead 3 (Calliope)'' GM_synth_lead 36 96 False,
      gm_program.make 83 ''Lead 4 (Chiff)'' GM_synth_lead 36 96 False,
      gm_program.make 84 ''Lead 5 (Charang)'' GM_synth_lead 36 96 False,
      gm_program.make 85 ''Lead 6 (Voice)'' GM_synth_lead 36 96 False,
      gm_program.make 86 ''Lead 7 (Fifths)'' GM_synth_lead 36 96 False,
      gm_program.make 87 ''Lead 8 (Bass + Lead)'' GM_synth_lead 36 96 False,
      gm_program.make 88 ''Pad 1 (New Age)'' GM_synth_pad 24 96 False,
      gm_program.make 89 ''Pad 2 (Warm)'' GM_synth_pad 24 96 False,
      gm_program.make 90 ''Pad 3 (Polysynth)'' GM_synth_pad 24 96 False,
      gm_program.make 91 ''Pad 4 (Choir)'' GM_synth_pad 24 96 False,
      gm_program.make 92 ''Pad 5 (Bowed)'' GM_synth_pad 24 96 False,
      gm_program.make 93 ''Pad 6 (Metallic)'' GM_synth_pad 24 96 False,
      gm_program.make 94 ''Pad 7 (Halo)'' GM_synth_pad 24 96 False,
      gm_program.make 95 ''Pad 8 (Sweep)'' GM_synth_pad 24 96 False,
      gm_program.make 96 ''FX 1 (Rain)'' GM_synth_effects 24 96 False,
      gm_program.make 97 ''FX 2 (Soundtrack)'' GM_synth_effects 24 96 False,
      gm_program.make 98 ''FX 3 (Crystal)'' GM_synth_effects 24 96 False,
      gm_program.make 99 ''FX 4 (Atmosphere)'' GM_synth_effects 24 96 False,
      gm_program.make 100 ''FX 5 (Brightness)'' GM_synth_effects 24 96 False,
      gm_program.make 101 ''FX 6 (Goblins)'' GM_synth_effects 24 96 False,
      gm_program.make 102 ''FX 7 (Echoes)'' GM_synth_effects 24 96 False,
      gm_program.make 103 ''FX 8 (Sci-Fi)'' GM_synth_effects 24 96 False,
      gm_program.make 104 ''Sitar'' GM_ethnic 48 96 False,
      gm_program.make 105 ''Banjo'' GM_ethnic 48 84 False,
      gm_program.make 106 ''Shamisen'' GM_ethnic 48 84 False,
      gm_program.make 107 ''Koto'' GM_ethnic 48 84 False,
      gm_program.make 108 ''Kalimba'' GM_ethnic 48 84 False,
      gm_program.make 109 ''Bagpipe'' GM_ethnic 48 84 False,
      gm_program.make 110 ''Fiddle'' GM_ethnic 36 96 False,
      gm_program.make 111 ''Shanai'' GM_ethnic 48 84 False,
      gm_program.make 112 ''Tinkle Bell'' GM_percussion 60 96 False,
      gm_program.make 113 ''Agogo'' GM_percussion 60 84 False,
      gm_program.make 114 ''Steel Drums'' GM_percussion 48 84 False,
      gm_program.make 115 ''Woodblock'' GM_percussion 60 84 False,
      gm_program.make 116 ''Taiko Drum'' GM_percussion 36 60 False,
      gm_program.make 117 ''Melodic Tom'' GM_percussion 48 72 False,
      gm_program.make 118 ''Synth Drum'' GM_percussion 36 72 False,
      gm_program.make 119 ''Reverse Cymbal'' GM_percussion 36 72 False,
      gm_program.make 120 ''Guitar Fret Noise'' GM_sound_effects 0 0 False,
      gm_program.make 121 ''Breath Noise'' GM_sound_effects 0 0 False,
      gm_program.make 122 ''Seashore'' GM_sound_effects 0 0 False,
      gm_program.make 123 ''Bird Tweet'' GM_sound_effects 0 0 False,
      gm_program.make 124 ''Telephone Ring'' GM_sound_effects 0 0 False,
      gm_program.make 125 ''Helicopter'' GM_sound_effects 0 0 False,
      gm_program.make 126 ''Applause'' GM_sound_effects 0 0 False,
      gm_program.make 127 ''Gunshot'' GM_sound_effects 0 0 False]"

definition kDrumNotes :: "drum_note list" where
  "kDrumNotes =
     [drum_note.make 35 ''Acoustic Bass Drum'',
      drum_note.make 36 ''Bass Drum 1'',
      drum_note.make 37 ''Side Stick'',
      drum_note.make 38 ''Acoustic Snare'',
      drum_note.make 39 ''Hand Clap'',
      drum_note.make 40 ''Electric Snare'',
      drum_note.make 41 ''Low Floor Tom'',
      drum_note.make 42 ''Closed Hi-Hat'',
      drum_note.make 43 ''High Floor Tom'',
      drum_note.make 44 ''Pedal Hi-Hat'',
      drum_note.make 45 ''Low Tom'',
      drum_note.make 46 ''Open Hi-Hat'',
      drum_note.make 47 ''Low-Mid Tom'',
      drum_note.make 48 ''Hi-Mid Tom'',
      drum_note.make 49 ''Crash Cymbal 1'',
      drum_note.make 50 ''High Tom'',
      drum_note.make 51 ''Ride Cymbal 1'',
      drum_note.make 52 ''Chinese Cymbal'',
      drum_note.make 53 ''Ride Bell'',
      drum_note.make 54 ''Tambourine'',
      drum_note.make 55 ''Splash Cymbal'',
      drum_note.make 56 ''Cowbell'',
      drum_note.make 57 ''Crash Cymbal 2'',
      drum_note.make 58 ''Vibraslap'',
      drum_note.make 59 ''Ride Cymbal 2'',
      drum_note.make 60 ''Hi Bongo'',
      drum_note.make 61 ''Low Bongo'',
      drum_note.make 62 ''Mute Hi Conga'',
      drum_note.make 63 ''Open Hi Conga'',
      drum_note.make 64 ''Low Conga'',
      drum_note.make 65 ''High Timbale'',
      drum_note.make 66 ''Low Timbale'',
      drum_note.make 67 ''High Agogo'',
      drum_note.make 68 ''Low Agogo'',
      drum_note.make 69 ''Cabasa'',
      drum_note.make 70 ''Maracas'',
      drum_note.make 71 ''Short Whistle'',
      drum_note.make 72 ''Long Whistle'',
      drum_note.make 73 ''Short Guiro'',
      drum_note.make 74 ''Long Guiro'',
      drum_note.make 75 ''Claves'',
      drum_note.make 76 ''Hi Wood Block'',
      drum_note.make 77 ''Low Wood Block'',
      drum_note.make 78 ''Mute Cuica'',
      drum_note.make 79 ''Open Cuica'',
      drum_note.make 80 ''Mute Triangle'',
      drum_note.make 81 ''Open Triangle'']"

definition get_gm_program :: "int \<Rightarrow> gm_program" where
  "get_gm_program p = (if p < 0 \<or> p > 127 then kGmPrograms ! 0 else kGmPrograms ! nat p)"

definition get_gm_programs_by_category :: "gm_category \<Rightarrow> gm_program list" where
  "get_gm_programs_by_category cat =
     (let idx = category_to_int cat;
          start = kCategoryStarts ! idx;
          cnt = kProgramsPerCategory
      in take cnt (drop start kGmPrograms))"

definition get_gm_drum_name :: "int \<Rightarrow> string" where
  "get_gm_drum_name n =
     (case find (\<lambda>dn. dn_note dn = n) kDrumNotes of Some dn \<Rightarrow> dn_name dn | None \<Rightarrow> [])"

subsection \<open>The tables\<close>

lemma gm_make_sel:
  "gm_prog (gm_program.make p nm c lo hi d) = p" "gm_cat (gm_program.make p nm c lo hi d) = c"
  "min_note (gm_program.make p nm c lo hi d) = lo" "max_note (gm_program.make p nm c lo hi d) = hi"
  "is_drum (gm_program.make p nm c lo hi d) = d"
  "dn_note (drum_note.make p nm) = p" "dn_name (drum_note.make p nm) = nm"
  by (simp_all add: gm_program.defs drum_note.defs)

lemma map_gm_prog: "map gm_prog kGmPrograms = [0..127]"
  by (simp only: kGmPrograms_def list.map gm_make_sel) (simp add: upto.simps)

lemma map_gm_cat:
  "map gm_cat kGmPrograms =
     concat (map (replicate 8)
       [GM_piano, GM_chromatic_percussion, GM_organ, GM_guitar, GM_bass, GM_strings, GM_ensemble,
        GM_brass, GM_reed, GM_pipe, GM_synth_lead, GM_synth_pad, GM_synth_effects,
        GM_ethnic, GM_percussion, GM_sound_effects])"
  by (simp only: kGmPrograms_def list.map gm_make_sel) (simp add: numeral_eq_Suc)

lemma map_gm_ranges:
  "list_all (\<lambda>(lo, hi, d). 0 \<le> lo \<and> lo \<le> hi \<and> hi \<le> 127 \<and> \<not> d)
     (map (\<lambda>g. (min_note g, max_note g, is_drum g)) kGmPrograms)"
  by (simp only: kGmPrograms_def list.map gm_make_sel) simp

lemma map_dn_note: "map dn_note kDrumNotes = [35..81]"
  by (simp only: kDrumNotes_def list.map gm_make_sel) (simp add: upto.simps)

lemma dn_name_nonempty: "list_all (\<lambda>dn. dn_name dn \<noteq> []) kDrumNotes"
  by (simp only: kDrumNotes_def list.pred_inject gm_make_sel list.distinct(2) HOL.simp_thms)

lemma length_kGmPrograms: "length kGmPrograms = 128"
  using arg_cong [OF map_gm_prog, of length] by simp

lemma length_kDrumNotes: "length kDrumNotes = 47"
  using arg_cong [OF map_dn_note, of length] by simp

lemma gm_prog_nth: "i < 128 \<Longrightarrow> gm_prog (kGmPrograms ! i) = int i"
  using arg_cong [OF map_gm_prog, of "\<lambda>xs. xs ! i"] by (simp add: length_kGmPrograms)

lemma dn_note_set: "dn_note ` set kDrumNotes = {35..81}"
  using arg_cong [OF map_dn_note, of set] by (simp only: set_map set_upto)

lemma kCategoryStarts_eq: "kCategoryStarts ! category_to_int c = kProgramsPerCategory * category_to_int c"
  by (cases c) (simp_all add: kCategoryStarts_def kProgramsPerCategory_def)

text \<open>
  A block of a table, cut out by position, is what a filter on the key selects, when the key
  column is a concatenation of constant blocks.
\<close>

lemma block_is_filter:
  assumes "map f xs = us @ replicate n c @ vs" "c \<notin> set us" "c \<notin> set vs" "length us = s"
  shows "take n (drop s xs) = filter (\<lambda>x. f x = c) xs"
proof -
  obtain as bs where xs: "xs = as @ bs" and as: "map f as = us" and "map f bs = replicate n c @ vs"
    using assms(1) by (metis map_eq_append_conv)
  then obtain ms ds where bs: "bs = ms @ ds" and ms: "map f ms = replicate n c" and ds: "map f ds = vs"
    by (metis map_eq_append_conv)
  have len: "length as = s" "length ms = n"
    using as assms(4) arg_cong [OF ms, of length] by auto
  have "filter (\<lambda>x. f x = c) as = []" "filter (\<lambda>x. f x = c) ds = []"
    using as ds assms(2,3) by (auto simp: filter_empty_conv)
  moreover have "filter (\<lambda>x. f x = c) ms = ms"
    using arg_cong [OF ms, of set] by (auto simp: filter_id_conv split: if_splits)
  ultimately show ?thesis by (simp add: xs bs len)
qed

text \<open>
  The program table is indexed by program number: the entry fetched for a number from 0 to 127
  carries that number, any other number fetches program 0, every entry has an ordered note range
  within MIDI's and none claims to be a drum kit.
\<close>

lemma get_gm_program_correct:
  "gm_prog (get_gm_program p) = (if 0 \<le> p \<and> p \<le> 127 then p else 0) \<and>
   0 \<le> min_note (get_gm_program p) \<and> min_note (get_gm_program p) \<le> max_note (get_gm_program p) \<and>
   max_note (get_gm_program p) \<le> 127 \<and> \<not> is_drum (get_gm_program p)"
proof -
  have "get_gm_program p \<in> set kGmPrograms"
    by (auto simp: get_gm_program_def length_kGmPrograms)
  then have "0 \<le> min_note (get_gm_program p) \<and> min_note (get_gm_program p) \<le> max_note (get_gm_program p) \<and>
     max_note (get_gm_program p) \<le> 127 \<and> \<not> is_drum (get_gm_program p)"
    using map_gm_ranges by (auto simp: list_all_iff)
  then show ?thesis by (auto simp: get_gm_program_def gm_prog_nth gm_prog_nth [of 0, simplified])
qed

text \<open>
  The block a category look-up cuts out of the table by position holds exactly the programs the
  table tags with that category, in program order, and there are eight of them.
\<close>

lemma category_block_correct:
  "get_gm_programs_by_category c = filter (\<lambda>g. gm_cat g = c) kGmPrograms \<and>
   length (get_gm_programs_by_category c) = 8"
proof -
  have len: "length (get_gm_programs_by_category c) = 8"
    by (cases c) (simp_all add: get_gm_programs_by_category_def length_kGmPrograms kCategoryStarts_def
      kProgramsPerCategory_def Let_def)
  define cs where "cs = [GM_piano, GM_chromatic_percussion, GM_organ, GM_guitar, GM_bass, GM_strings,
    GM_ensemble, GM_brass, GM_reed, GM_pipe, GM_synth_lead, GM_synth_pad, GM_synth_effects, GM_ethnic,
    GM_percussion, GM_sound_effects]"
  let ?i = "category_to_int c"
  have i: "?i < 16" "cs ! ?i = c" "c \<notin> set (take ?i cs)" "c \<notin> set (drop (Suc ?i) cs)" and "length cs = 16"
    by (cases c; simp add: cs_def)+
  then have split: "cs = take ?i cs @ c # drop (Suc ?i) cs" by (metis id_take_nth_drop)
  have "map gm_cat kGmPrograms = concat (map (replicate 8) (take ?i cs @ c # drop (Suc ?i) cs))"
    unfolding split [symmetric] by (simp only: cs_def map_gm_cat)
  then have "map gm_cat kGmPrograms = concat (map (replicate 8) (take ?i cs)) @ replicate 8 c @
      concat (map (replicate 8) (drop (Suc ?i) cs))" by simp
  moreover have "c \<notin> set (concat (map (replicate 8) (take ?i cs)))"
      "c \<notin> set (concat (map (replicate 8) (drop (Suc ?i) cs)))"
    using i by auto
  moreover have "length (concat (map (replicate 8) (take ?i cs))) = 8 * ?i"
    using i \<open>length cs = 16\<close> by (simp add: length_concat sum_list_triv comp_def)
  ultimately have "take 8 (drop (8 * ?i) kGmPrograms) = filter (\<lambda>g. gm_cat g = c) kGmPrograms"
    by (rule block_is_filter)
  then show ?thesis using len kCategoryStarts_eq [of c]
    by (simp add: get_gm_programs_by_category_def kProgramsPerCategory_def Let_def)
qed

text \<open>The percussion key map names exactly the notes 35 to 81; any other note has the empty name.\<close>

lemma drum_names_exactly_35_81:
  "get_gm_drum_name n \<noteq> [] \<longleftrightarrow> 35 \<le> n \<and> n \<le> 81"
proof (cases "find (\<lambda>dn. dn_note dn = n) kDrumNotes")
  case None
  then have "n \<notin> dn_note ` set kDrumNotes" by (auto simp: find_None_iff)
  then show ?thesis using None by (auto simp: dn_note_set get_gm_drum_name_def)
next
  case (Some d)
  then have d: "d \<in> set kDrumNotes" "dn_note d = n" by (auto simp: find_Some_iff)
  then have "n \<in> {35..81}" using dn_note_set by blast
  moreover have "dn_name d \<noteq> []" using d(1) dn_name_nonempty by (auto simp: list_all_iff)
  ultimately show ?thesis using Some by (simp add: get_gm_drum_name_def)
qed

end
