(* ===== verification/Instrument_Mapper.thy ===== *)
theory Instrument_Mapper
  imports GM_Programs Blueprint_Types
begin

text \<open>
  The instrument mapper (\<open>instrument_mapper.cpp\<close>): its own General MIDI table, numbered from 1, the
  keyword rules that map an instrument name and role to a program of it, the replacement of an
  instrument, and the look-ups by family. A \<open>GmProgram\<close> the mapper returns has the same three
  fields as a \<open>GmEntry\<close> of the table, so one record stands for both.
\<close>

record gm_entry =
  ge_program :: int
  ge_name :: string
  ge_family :: string

record instrument_mapping =
  im_source :: blueprint_instrument
  im_target :: blueprint_instrument
  im_success :: bool
  im_warning :: string

definition mapper_programs :: "gm_entry list" where
  "mapper_programs =
     [gm_entry.make 1 ''Acoustic Grand Piano'' ''Piano'',
      gm_entry.make 2 ''Bright Acoustic Piano'' ''Piano'',
      gm_entry.make 3 ''Electric Grand Piano'' ''Piano'',
      gm_entry.make 4 ''Honky-tonk Piano'' ''Piano'',
      gm_entry.make 5 ''Electric Piano 1'' ''Piano'',
      gm_entry.make 6 ''Electric Piano 2'' ''Piano'',
      gm_entry.make 7 ''Harpsichord'' ''Piano'',
      gm_entry.make 8 ''Clavinet'' ''Piano'',
      gm_entry.make 9 ''Celesta'' ''Chromatic Percussion'',
      gm_entry.make 10 ''Glockenspiel'' ''Chromatic Percussion'',
      gm_entry.make 11 ''Music Box'' ''Chromatic Percussion'',
      gm_entry.make 12 ''Vibraphone'' ''Chromatic Percussion'',
      gm_entry.make 13 ''Marimba'' ''Chromatic Percussion'',
      gm_entry.make 14 ''Xylophone'' ''Chromatic Percussion'',
      gm_entry.make 15 ''Tubular Bells'' ''Chromatic Percussion'',
      gm_entry.make 16 ''Dulcimer'' ''Chromatic Percussion'',
      gm_entry.make 17 ''Drawbar Organ'' ''Organ'',
      gm_entry.make 18 ''Percussive Organ'' ''Organ'',
      gm_entry.make 19 ''Rock Organ'' ''Organ'',
      gm_entry.make 20 ''Church Organ'' ''Organ'',
      gm_entry.make 21 ''Reed Organ'' ''Organ'',
      gm_entry.make 22 ''Accordion'' ''Organ'',
      gm_entry.make 23 ''Harmonica'' ''Organ'',
      gm_entry.make 24 ''Tango Accordion'' ''Organ'',
      gm_entry.make 25 ''Acoustic Guitar (nylon)'' ''Guitar'',
      gm_entry.make 26 ''Acoustic Guitar (steel)'' ''Guitar'',
      gm_entry.make 27 ''Electric Guitar (jazz)'' ''Guitar'',
      gm_entry.make 28 ''Electric Guitar (clean)'' ''Guitar'',
      gm_entry.make 29 ''Electric Guitar (muted)'' ''Guitar'',
      gm_entry.make 30 ''Overdriven Guitar'' ''Guitar'',
      gm_entry.make 31 ''Distortion Guitar'' ''Guitar'',
      gm_entry.make 32 ''Guitar Harmonics'' ''Guitar'',
      gm_entry.make 33 ''Acoustic Bass'' ''Bass'',
      gm_entry.make 34 ''Electric Bass (finger)'' ''Bass'',
      gm_entry.make 35 ''Electric Bass (pick)'' ''Bass'',
      gm_entry.make 36 ''Fretless Bass'' ''Bass'',
      gm_entry.make 37 ''Slap Bass 1'' ''Bass'',
      gm_entry.make 38 ''Slap Bass 2'' ''Bass'',
      gm_entry.make 39 ''Synth Bass 1'' ''Bass'',
      gm_entry.make 40 ''Synth Bass 2'' ''Bass'',
      gm_entry.make 41 ''Violin'' ''Strings'',
      gm_entry.make 42 ''Viola'' ''Strings'',
      gm_entry.make 43 ''Cello'' ''Strings'',
      gm_entry.make 44 ''Contrabass'' ''Strings'',
      gm_entry.make 45 ''Tremolo Strings'' ''Strings'',
      gm_entry.make 46 ''Pizzicato Strings'' ''Strings'',
      gm_entry.make 47 ''Orchestral Harp'' ''Strings'',
      gm_entry.make 48 ''Timpani'' ''Strings'',
      gm_entry.make 49 ''String Ensemble 1'' ''Ensemble'',
      gm_entry.make 50 ''String Ensemble 2'' ''Ensemble'',
      gm_entry.make 51 ''Synth Strings 1'' ''Ensemble'',
      gm_entry.make 52 ''Synth Strings 2'' ''Ensemble'',
      gm_entry.make 53 ''Choir Aahs'' ''Ensemble'',
      gm_entry.make 54 ''Voice Oohs'' ''Ensemble'',
      gm_entry.make 55 ''Synth Voice'' ''Ensemble'',
      gm_entry.make 56 ''Orchestra Hit'' ''Ensemble'',
      gm_entry.make 57 ''Trumpet'' ''Brass'',
      gm_entry.make 58 ''Trombone'' ''Brass'',
      gm_entry.make 59 ''Tuba'' ''Brass'',
      gm_entry.make 60 ''Muted Trumpet'' ''Brass'',
      gm_entry.make 61 ''French Horn'' ''Brass'',
      gm_entry.make 62 ''Brass Section'' ''Brass'',
      gm_entry.make 63 ''Synth Brass 1'' ''Brass'',
      gm_entry.make 64 ''Synth Brass 2'' ''Brass'',
      gm_entry.make 65 ''Soprano Sax'' ''Reed'',
      gm_entry.make 66 ''Alto Sax'' ''Reed'',
      gm_entry.make 67 ''Tenor Sax'' ''Reed'',
      gm_entry.make 68 ''Baritone Sax'' ''Reed'',
      gm_entry.make 69 ''Oboe'' ''Reed'',
      gm_entry.make 70 ''English Horn'' ''Reed'',
      gm_entry.make 71 ''Bassoon'' ''Reed'',
      gm_entry.make 72 ''Clarinet'' ''Reed'',
      gm_entry.make 73 ''Piccolo'' ''Pipe'',
      gm_entry.make 74 ''Flute'' ''Pipe'',
      gm_entry.make 75 ''Recorder'' ''Pipe'',
      gm_entry.make 76 ''Pan Flute'' ''Pipe'',
      gm_entry.make 77 ''Blown Bottle'' ''Pipe'',
      gm_entry.make 78 ''Shakuhachi'' ''Pipe'',
      gm_entry.make 79 ''Whistle'' ''Pipe'',
      gm_entry.make 80 ''Ocarina'' ''Pipe'',
      gm_entry.make 81 ''Lead 1 (square)'' ''Synth Lead'',
      gm_entry.make 82 ''Lead 2 (sawtooth)'' ''Synth Lead'',
      gm_entry.make 83 ''Lead 3 (calliope)'' ''Synth Lead'',
      gm_entry.make 84 ''Lead 4 (chiff)'' ''Synth Lead'',
      gm_entry.make 85 ''Lead 5 (charang)'' ''Synth Lead'',
      gm_entry.make 86 ''Lead 6 (voice)'' ''Synth Lead'',
      gm_entry.make 87 ''Lead 7 (fifths)'' ''Synth Lead'',
      gm_entry.make 88 ''Lead 8 (bass + lead)'' ''Synth Lead'',
      gm_entry.make 89 ''Pad 1 (new age)'' ''Synth Pad'',
      gm_entry.make 90 ''Pad 2 (warm)'' ''Synth Pad'',
      gm_entry.make 91 ''Pad 3 (polysynth)'' ''Synth Pad'',
      gm_entry.make 92 ''Pad 4 (choir)'' ''Synth Pad'',
      gm_entry.make 93 ''Pad 5 (bowed)'' ''Synth Pad'',
      gm_entry.make 94 ''Pad 6 (metallic)'' ''Synth Pad'',
      gm_entry.make 95 ''Pad 7 (halo)'' ''Synth Pad'',
      gm_entry.make 96 ''Pad 8 (sweep)'' ''Synth Pad'',
      gm_entry.make 97 ''FX 1 (rain)'' ''Synth FX'',
      gm_entry.make 98 ''FX 2 (soundtrack)'' ''Synth FX'',
      gm_entry.make 99 ''FX 3 (crystal)'' ''Synth FX'',
      gm_entry.make 100 ''FX 4 (atmosphere)'' ''Synth FX'',
      gm_entry.make 101 ''FX 5 (brightness)'' ''Synth FX'',
      gm_entry.make 102 ''FX 6 (goblins)'' ''Synth FX'',
      gm_entry.make 103 ''FX 7 (echoes)'' ''Synth FX'',
      gm_entry.make 104 ''FX 8 (sci-fi)'' ''Synth FX'',
      gm_entry.make 105 ''Sitar'' ''Ethnic'',
      gm_entry.make 106 ''Banjo'' ''Ethnic'',
      gm_entry.make 107 ''Shamisen'' ''Ethnic'',
      gm_entry.make 108 ''Koto'' ''Ethnic'',
      gm_entry.make 109 ''Kalimba'' ''Ethnic'',
      gm_entry.make 110 ''Bagpipe'' ''Ethnic'',
      gm_entry.make 111 ''Fiddle'' ''Ethnic'',
      gm_entry.make 112 ''Shanai'' ''Ethnic'',
      gm_entry.make 113 ''Tinkle Bell'' ''Percussive'',
      gm_entry.make 114 ''Agogo'' ''Percussive'',
      gm_entry.make 115 ''Steel Drums'' ''Percussive'',
      gm_entry.make 116 ''Woodblock'' ''Percussive'',
      gm_entry.make 117 ''Taiko Drum'' ''Percussive'',
      gm_entry.make 118 ''Melodic Tom'' ''Percussive'',
      gm_entry.make 119 ''Synth Drum'' ''Percussive'',
      gm_entry.make 120 ''Reverse Cymbal'' ''Percussive'',
      gm_entry.make 121 ''Guitar Fret Noise'' ''Sound Effects'',
      gm_entry.make 122 ''Breath Noise'' ''Sound Effects'',
      gm_entry.make 123 ''Seashore'' ''Sound Effects'',
      gm_entry.make 124 ''Bird Tweet'' ''Sound Effects'',
      gm_entry.make 125 ''Telephone Ring'' ''Sound Effects'',
      gm_entry.make 126 ''Helicopter'' ''Sound Effects'',
      gm_entry.make 127 ''Applause'' ''Sound Effects'',
      gm_entry.make 128 ''Gunshot'' ''Sound Effects'']"

definition find_or_default :: "string \<Rightarrow> int \<Rightarrow> gm_entry" where
  "find_or_default fam default_prog =
     (case find (\<lambda>e. ge_program e = default_prog) mapper_programs of
        Some e \<Rightarrow> gm_entry.make (ge_program e) (ge_name e) (ge_family e)
      | None \<Rightarrow> gm_entry.make 1 ''Acoustic Grand Piano'' ''Piano'')"

definition map_to_gm :: "string \<Rightarrow> string \<Rightarrow> gm_entry" where
  "map_to_gm name role =
     (let lower_name = to_lower name; lower_role = to_lower role in
      if contains lower_role ''drum'' \<or> contains lower_name ''drum''
      then gm_entry.make 1 ''Standard Kit'' ''Drums''
      else if contains lower_name ''piano'' \<or> contains lower_name ''keys'' \<or> contains lower_role ''piano''
      then find_or_default ''Piano'' 1
      else if contains lower_name ''bass'' then find_or_default ''Bass'' 34
      else if contains lower_name ''guitar'' then find_or_default ''Guitar'' 27
      else if contains lower_name ''string'' then find_or_default ''Ensemble'' 49
      else if contains lower_name ''synth'' then find_or_default ''Synth Lead'' 81
      else if contains lower_name ''brass'' then find_or_default ''Brass'' 62
      else if contains lower_name ''sax'' then find_or_default ''Reed'' 66
      else if contains lower_name ''horn'' then find_or_default ''Brass'' 61
      else if contains lower_name ''organ'' then find_or_default ''Organ'' 17
      else if contains lower_name ''violin'' \<or> contains lower_name ''viola'' \<or> contains lower_name ''cello''
      then find_or_default ''Strings'' 41
      else if contains lower_name ''flute'' \<or> contains lower_name ''piccolo'' then find_or_default ''Pipe'' 74
      else if contains lower_name ''trumpet'' then find_or_default ''Brass'' 57
      else if contains lower_name ''trombone'' then find_or_default ''Brass'' 58
      else find_or_default ''Piano'' 1)"

text \<open>The target starts as a default \<open>BlueprintInstrument\<close> and every field of it is assigned.\<close>

definition replace_instrument :: "blueprint_instrument \<Rightarrow> string \<Rightarrow> string \<Rightarrow> instrument_mapping" where
  "replace_instrument source target_name target_role =
     (let target_gm = map_to_gm target_name target_role
      in \<lparr>im_source = source,
          im_target = \<lparr>inst_name = target_name, inst_role = target_role,
                       inst_channel = inst_channel source, inst_program = ge_program target_gm\<rparr>,
          im_success = True, im_warning = []\<rparr>)"

definition programs_for_family :: "string \<Rightarrow> gm_entry list" where
  "programs_for_family fam =
     concat (map (\<lambda>e. if ge_family e = fam
                      then [gm_entry.make (ge_program e) (ge_name e) (ge_family e)] else []) mapper_programs)"

definition families :: "string list" where
  "families = foldl (\<lambda>out e. if out = [] \<or> last out \<noteq> ge_family e then out @ [ge_family e] else out)
     [] mapper_programs"

subsection \<open>The table\<close>

definition family_names :: "string list" where
  "family_names =
     [''Piano'', ''Chromatic Percussion'', ''Organ'', ''Guitar'', ''Bass'', ''Strings'', ''Ensemble'', ''Brass'',
      ''Reed'', ''Pipe'', ''Synth Lead'', ''Synth Pad'', ''Synth FX'', ''Ethnic'', ''Percussive'',
      ''Sound Effects'']"

lemma ge_make_sel [simp]:
  "ge_program (gm_entry.make p nm f) = p" "ge_name (gm_entry.make p nm f) = nm"
  "ge_family (gm_entry.make p nm f) = f"
  by (simp_all add: gm_entry.defs)

lemma ge_eta [simp]: "gm_entry.make (ge_program e) (ge_name e) (ge_family e) = e"
  by (simp add: gm_entry.defs)

lemma replicate_8: "replicate 8 x = [x, x, x, x, x, x, x, x]"
  by (simp add: numeral_eq_Suc)

lemma map_ge_program: "map ge_program mapper_programs = [1..128]"
  by (simp only: mapper_programs_def list.map ge_make_sel) (simp add: upto.simps)

lemma map_ge_family: "map ge_family mapper_programs = concat (map (replicate 8) family_names)"
  by (simp only: mapper_programs_def family_names_def list.map ge_make_sel replicate_8 concat.simps append.simps)

lemma length_mapper_programs: "length mapper_programs = 128"
  using arg_cong [OF map_ge_program, of length] by simp

lemma ge_program_nth: "i < 128 \<Longrightarrow> ge_program (mapper_programs ! i) = int i + 1"
  using arg_cong [OF map_ge_program, of "\<lambda>xs. xs ! i"] by (simp add: length_mapper_programs)

lemma family_names_distinct: "distinct family_names" "length family_names = 16"
  by (simp_all add: family_names_def)

text \<open>Position \<open>i\<close> of a concatenation of blocks of \<open>n\<close> equal elements.\<close>

lemma nth_concat_replicate:
  "i < n * length cs \<Longrightarrow> concat (map (replicate n) cs) ! i = cs ! (i div n)"
proof (induction cs arbitrary: i)
  case (Cons c cs)
  show ?case
  proof (cases "i < n")
    case False
    then have "i - n < n * length cs" using Cons.prems by simp
    moreover have "i div n = Suc ((i - n) div n)"
      using False Cons.prems by (metis le_div_geq mult_0 not_gr_zero not_less0 not_less)
    ultimately show ?thesis using False Cons.IH by (simp add: nth_append)
  qed (simp add: nth_append)
qed simp

lemma ge_family_nth: "i < 128 \<Longrightarrow> ge_family (mapper_programs ! i) = family_names ! (i div 8)"
  using arg_cong [OF map_ge_family, of "\<lambda>xs. xs ! i"] nth_concat_replicate [of i 8 family_names]
  by (simp add: length_mapper_programs family_names_distinct)

lemma gm_cat_nth:
  assumes i: "i < 128"
  shows "category_to_int (gm_cat (kGmPrograms ! i)) = i div 8"
proof -
  define cs where "cs = [GM_piano, GM_chromatic_percussion, GM_organ, GM_guitar, GM_bass, GM_strings, GM_ensemble,
        GM_brass, GM_reed, GM_pipe, GM_synth_lead, GM_synth_pad, GM_synth_effects,
        GM_ethnic, GM_percussion, GM_sound_effects]"
  have len: "length cs = 16" and ix: "map category_to_int cs = [0..<16]" by (simp_all add: cs_def upt_rec)
  have "gm_cat (kGmPrograms ! i) = cs ! (i div 8)"
    using i arg_cong [OF map_gm_cat, of "\<lambda>xs. xs ! i"] nth_concat_replicate [of i 8 cs] len
    by (simp add: length_kGmPrograms cs_def)
  moreover have "i div 8 < 16" using i by simp
  ultimately show ?thesis
    using arg_cong [OF ix, of "\<lambda>xs. xs ! (i div 8)"] len by simp
qed

lemma find_or_default_nth:
  assumes "1 \<le> p" "p \<le> 128"
  shows "find_or_default fam p = mapper_programs ! nat (p - 1)"
proof -
  have "find (\<lambda>e. ge_program e = p) mapper_programs = Some (mapper_programs ! nat (p - 1))"
    unfolding find_Some_iff using assms
    by (intro exI [of _ "nat (p - 1)"]) (auto simp: length_mapper_programs ge_program_nth)
  then show ?thesis by (simp add: find_or_default_def)
qed

lemma if_into: "P x \<Longrightarrow> P y \<Longrightarrow> P (if b then x else y)"
  by simp

lemma map_to_gm_cases:
  "map_to_gm n r = gm_entry.make 1 ''Standard Kit'' ''Drums'' \<or>
   (\<exists>p. 1 \<le> p \<and> p \<le> 128 \<and> map_to_gm n r = mapper_programs ! nat (p - 1))"
proof -
  define kit where "kit = gm_entry.make 1 ''Standard Kit'' ''Drums''"
  define P where "P e = (e = kit \<or> (\<exists>p. 1 \<le> p \<and> p \<le> 128 \<and> e = mapper_programs ! nat (p - 1)))" for e
  have d: "P (find_or_default fam p)" if "1 \<le> p" "p \<le> 128" for fam p
    unfolding P_def using that find_or_default_nth by blast
  have k: "P kit" by (simp add: P_def)
  have "P (map_to_gm n r)"
    unfolding map_to_gm_def Let_def kit_def [symmetric]
    by (intro if_into [of P] k d; simp only: one_le_numeral numeral_le_iff le_numeral_simps order_refl numeral_One [symmetric]
      semiring_norm)
  then show ?thesis by (simp only: P_def kit_def)
qed

text \<open>
  Every instrument is mapped to the drum kit or to an entry of the mapper's table, and the family
  that entry carries is the one that the other table of the library (\<open>GMPrograms.hpp\<close>, numbered
  from 0) gives the program one lower: the two tables agree on all 128 programs once the mapper's
  numbering from 1 is taken into account.
\<close>

lemma map_to_gm_agrees_with_gm_table:
  "(map_to_gm n r = gm_entry.make 1 ''Standard Kit'' ''Drums'' \<or> map_to_gm n r \<in> set mapper_programs) \<and>
   (\<forall>e \<in> set mapper_programs. 1 \<le> ge_program e \<and> ge_program e \<le> 128 \<and>
      ge_family e = family_names ! category_to_int (gm_cat (get_gm_program (ge_program e - 1))))"
proof
  have "find_or_default fam p \<in> set mapper_programs" if "1 \<le> p" "p \<le> 128" for fam p
    using that by (simp add: find_or_default_nth length_mapper_programs)
  then show "map_to_gm n r = gm_entry.make 1 ''Standard Kit'' ''Drums'' \<or> map_to_gm n r \<in> set mapper_programs"
    using map_to_gm_cases [of n r] by (metis find_or_default_nth)
  show "\<forall>e \<in> set mapper_programs. 1 \<le> ge_program e \<and> ge_program e \<le> 128 \<and>
      ge_family e = family_names ! category_to_int (gm_cat (get_gm_program (ge_program e - 1)))"
    by (auto simp: in_set_conv_nth length_mapper_programs ge_program_nth ge_family_nth gm_cat_nth get_gm_program_def)
qed

text \<open>At a table entry: the alto saxophone is program 66 of the mapper, number 65 of the 0-based table.\<close>

lemma map_to_gm_agrees_with_gm_table_witness:
  "map_to_gm ''Alto Sax'' ''lead'' = mapper_programs ! 65 \<and>
   ge_family (mapper_programs ! 65) = family_names ! category_to_int (gm_cat (get_gm_program 65))"
proof -
  have c: "\<not> contains ''lead'' ''drum'' \<and> \<not> contains ''alto sax'' ''drum'' \<and> \<not> contains ''alto sax'' ''piano'' \<and>
    \<not> contains ''alto sax'' ''keys'' \<and> \<not> contains ''lead'' ''piano'' \<and> \<not> contains ''alto sax'' ''bass'' \<and>
    \<not> contains ''alto sax'' ''guitar'' \<and> \<not> contains ''alto sax'' ''string'' \<and> \<not> contains ''alto sax'' ''synth'' \<and>
    \<not> contains ''alto sax'' ''brass'' \<and> contains ''alto sax'' ''sax''"
    by (simp add: contains_def)
  have l: "to_lower ''Alto Sax'' = ''alto sax''" "to_lower ''lead'' = ''lead''" by code_simp+
  have "map_to_gm ''Alto Sax'' ''lead'' = find_or_default ''Reed'' 66"
    using c by (simp only: map_to_gm_def l Let_def if_True if_False simp_thms)
  also have "\<dots> = mapper_programs ! 65" by (simp add: find_or_default_nth)
  finally have m: "map_to_gm ''Alto Sax'' ''lead'' = mapper_programs ! 65" .
  have "mapper_programs ! 65 \<in> set mapper_programs" by (simp add: length_mapper_programs)
  moreover have "ge_program (mapper_programs ! 65) - 1 = 65" by (simp add: ge_program_nth)
  ultimately show ?thesis
    using m map_to_gm_agrees_with_gm_table [of "''Alto Sax''" "''lead''"] by metis
qed

subsection \<open>Families\<close>

lemma programs_for_family_filter: "programs_for_family f = filter (\<lambda>e. ge_family e = f) mapper_programs"
proof -
  have "concat (map (\<lambda>e. if ge_family e = f then [gm_entry.make (ge_program e) (ge_name e) (ge_family e)] else []) xs) =
    filter (\<lambda>e. ge_family e = f) xs" for xs
    by (induction xs) simp_all
  then show ?thesis by (simp only: programs_for_family_def)
qed

definition push_family :: "string list \<Rightarrow> string \<Rightarrow> string list" where
  "push_family out f = (if out = [] \<or> last out \<noteq> f then out @ [f] else out)"

lemma push_family_same: "out \<noteq> [] \<Longrightarrow> last out = c \<Longrightarrow> foldl push_family out (replicate n c) = out"
  by (induction n) (auto simp: push_family_def)

lemma push_family_blocks:
  assumes "0 < n" "distinct cs" "out = [] \<or> last out \<notin> set cs"
  shows "foldl push_family out (concat (map (replicate n) cs)) = out @ cs"
  using assms(2,3)
proof (induction cs arbitrary: out)
  case (Cons c cs)
  obtain k where n: "n = Suc k" using assms(1) gr0_implies_Suc by blast
  have "foldl push_family out (replicate n c) = out @ [c]"
    using Cons.prems push_family_same [of "out @ [c]" c k] by (auto simp: n push_family_def)
  moreover have "foldl push_family (out @ [c]) (concat (map (replicate n) cs)) = (out @ [c]) @ cs"
    using Cons.prems by (intro Cons.IH) auto
  ultimately show ?case by simp
qed simp

lemma families_eq: "families = family_names"
proof -
  have "families = foldl push_family [] (map ge_family mapper_programs)"
    by (simp add: families_def foldl_map push_family_def)
  also have "\<dots> = family_names"
    unfolding map_ge_family using push_family_blocks [of 8 family_names "[]"] family_names_distinct by simp
  finally show ?thesis .
qed

lemma filter_blocks:
  assumes "map f xs = concat (map (replicate n) cs)" "distinct cs"
  shows "concat (map (\<lambda>c. filter (\<lambda>x. f x = c) xs) cs) = xs"
  using assms
proof (induction cs arbitrary: xs)
  case (Cons c cs)
  then obtain as bs where xs: "xs = as @ bs" and as: "map f as = replicate n c"
    and bs: "map f bs = concat (map (replicate n) cs)"
    by (simp add: map_eq_append_conv) metis
  have fa: "x \<in> set as \<Longrightarrow> f x = c" for x
    using arg_cong [OF as, of set] by (auto split: if_splits)
  have fb: "x \<in> set bs \<Longrightarrow> f x \<in> set cs" for x
    using arg_cong [OF bs, of set] by (auto split: if_splits)
  have "filter (\<lambda>x. f x = c) xs = as"
    using fa fb Cons.prems(2) by (auto simp: xs filter_empty_conv filter_id_conv)
  moreover have "filter (\<lambda>x. f x = c') xs = filter (\<lambda>x. f x = c') bs" if "c' \<in> set cs" for c'
    using fa that Cons.prems(2) by (auto simp: xs filter_empty_conv)
  then have "map (\<lambda>c'. filter (\<lambda>x. f x = c') xs) cs = map (\<lambda>c'. filter (\<lambda>x. f x = c') bs) cs"
    by simp
  moreover have "concat (map (\<lambda>c'. filter (\<lambda>x. f x = c') bs) cs) = bs"
    using Cons.IH [OF bs] Cons.prems(2) by simp
  ultimately show ?case by (simp only: list.map concat.simps xs)
qed simp

lemma count_replicate: "count_list (replicate n d) c = (if d = c then n else 0)"
  by (induction n) auto

lemma count_blocks: "count_list (concat (map (replicate n) cs)) c = n * count_list cs c"
  by (induction cs) (auto simp: count_replicate)

lemma count_distinct: "distinct xs \<Longrightarrow> count_list xs x = (if x \<in> set xs then 1 else 0)"
  by (induction xs) auto

lemma length_filter_count: "length (filter (\<lambda>x. f x = c) xs) = count_list (map f xs) c"
  by (induction xs) auto

text \<open>
  The look-ups by family partition the table: the sixteen families are distinct, each has eight
  programs, and their programs one family after the other are the whole table in program order;
  any other family name has none.
\<close>

lemma families_partition:
  "distinct families \<and> length families = 16 \<and>
   concat (map programs_for_family families) = mapper_programs \<and>
   length (programs_for_family f) = (if f \<in> set families then 8 else 0)"
proof -
  have "concat (map programs_for_family families) = mapper_programs"
    unfolding programs_for_family_filter families_eq
    using filter_blocks [OF map_ge_family family_names_distinct(1)] .
  moreover have "length (programs_for_family f) = (if f \<in> set families then 8 else 0)"
    by (simp add: programs_for_family_filter length_filter_count map_ge_family count_blocks families_eq
      family_names_distinct count_distinct)
  ultimately show ?thesis by (simp add: families_eq family_names_distinct)
qed

text \<open>
  Replacing an instrument keeps its channel and records the original; the new instrument has the
  requested name and role and a program the mapper's table numbers, from 1 to 128, and the
  replacement always reports success.
\<close>

lemma replace_instrument_correct:
  "let m = replace_instrument src nm rl in
     im_success m \<and> im_source m = src \<and> inst_channel (im_target m) = inst_channel src \<and>
     inst_name (im_target m) = nm \<and> inst_role (im_target m) = rl \<and>
     inst_program (im_target m) = ge_program (map_to_gm nm rl) \<and>
     1 \<le> inst_program (im_target m) \<and> inst_program (im_target m) \<le> 128"
proof -
  have "1 \<le> ge_program (map_to_gm nm rl) \<and> ge_program (map_to_gm nm rl) \<le> 128"
    using map_to_gm_cases [of nm rl]
  proof
    assume "\<exists>p. 1 \<le> p \<and> p \<le> 128 \<and> map_to_gm nm rl = mapper_programs ! nat (p - 1)"
    then obtain p where "1 \<le> p" "p \<le> 128" "map_to_gm nm rl = mapper_programs ! nat (p - 1)" by blast
    then show ?thesis by (simp add: ge_program_nth)
  qed (simp only: ge_make_sel; simp)
  then show ?thesis by (simp add: replace_instrument_def Let_def)
qed

end
