(* ===== verification/Modulation_Engine.thy ===== *)
theory Modulation_Engine
  imports Harmony_Engine
begin

text \<open>
  The modulation engine (\<open>modulation_engine.cpp\<close>): the pivot chord between two keys, the chord
  sequence of a transition, and the closeness of keys by their signatures. The injected scale
  provider is an argument: a pair of its two look-ups, \<open>None\<close> for a null pointer. The file has its
  own copy of the key table.
\<close>

subsection \<open>Pitch-class helpers\<close>

definition mod_key_table :: "(string \<times> int) list" where
  "mod_key_table =
     [(''C'', 0), (''C#'', 1), (''Db'', 1), (''D'', 2), (''D#'', 3), (''Eb'', 3),
      (''E'', 4), (''F'', 5), (''F#'', 6), (''Gb'', 6), (''G'', 7), (''G#'', 8),
      (''Ab'', 8), (''A'', 9), (''A#'', 10), (''Bb'', 10), (''B'', 11)]"

definition mod_parse_root_pc :: "string \<Rightarrow> int" where
  "mod_parse_root_pc key = (case map_of mod_key_table key of Some pc \<Rightarrow> pc | None \<Rightarrow> 0)"

definition sharp_names :: "string list" where
  "sharp_names = [''C'', ''C#'', ''D'', ''D#'', ''E'', ''F'', ''F#'', ''G'', ''G#'', ''A'', ''A#'', ''B'']"

definition pc_name_sharp :: "int \<Rightarrow> string" where
  "pc_name_sharp pc = sharp_names ! nat (pc smod 12)"

text \<open>
  For a quality it does not list the function returns the buffer of a temporary string, a dangling
  pointer: \<open>None\<close>. A caller that reads it has undefined behaviour.
\<close>

definition quality_suffix :: "string \<Rightarrow> string option" where
  "quality_suffix q =
     (if q = ''maj'' then Some '''' else if q = ''min'' then Some ''m'' else if q = ''7'' then Some ''7''
      else if q = ''m7'' then Some ''m7'' else if q = ''maj7'' then Some ''maj7''
      else if q = ''dim'' then Some ''dim'' else if q = ''dim7'' then Some ''dim7''
      else if q = ''aug'' then Some ''aug'' else None)"

subsection \<open>Key signatures\<close>

definition major_signatures :: "(string \<times> int) list" where
  "major_signatures =
     [(''Cb'', - 7), (''Gb'', - 6), (''Db'', - 5), (''Ab'', - 4), (''Eb'', - 3),
      (''Bb'', - 2), (''F'', - 1),
      (''C'', 0),
      (''G'', 1), (''D'', 2), (''A'', 3), (''E'', 4), (''B'', 5),
      (''F#'', 6), (''C#'', 7)]"

definition major_key_accidentals :: "string \<Rightarrow> int" where
  "major_key_accidentals key = (case map_of major_signatures key of Some a \<Rightarrow> a | None \<Rightarrow> 0)"

definition all_major_keys :: "(int \<times> string) list" where
  "all_major_keys =
     [(- 7, ''Cb''), (- 6, ''Gb''), (- 5, ''Db''), (- 4, ''Ab''), (- 3, ''Eb''),
      (- 2, ''Bb''), (- 1, ''F''),
      (0, ''C''),
      (1, ''G''), (2, ''D''), (3, ''A''), (4, ''E''), (5, ''B''),
      (6, ''F#''), (7, ''C#'')]"

definition relative_table :: "(string \<times> string) list" where
  "relative_table =
     [(''Cb'', ''Ab''), (''Gb'', ''Eb''), (''Db'', ''Bb''), (''Ab'', ''F''),
      (''Eb'', ''C''), (''Bb'', ''G''), (''F'', ''D''),
      (''C'', ''A''), (''G'', ''E''), (''D'', ''B''),
      (''A'', ''F#''), (''E'', ''C#''), (''B'', ''G#''),
      (''F#'', ''D#''), (''C#'', ''A#'')]"

definition relative_minor_of :: "string \<Rightarrow> string" where
  "relative_minor_of major_key =
     (let pc = mod_parse_root_pc major_key;
          minor_pc = (pc + 9) smod 12;
          acc = major_key_accidentals major_key
      in if acc \<ge> 0 then pc_name_sharp minor_pc
         else case map_of relative_table major_key of
                Some r \<Rightarrow> r
              | None \<Rightarrow> pc_name_sharp minor_pc)"

definition key_accidentals :: "string \<Rightarrow> string \<Rightarrow> int" where
  "key_accidentals key scale =
     (if scale = ''minor'' \<or> scale = ''natural_minor'' \<or> scale = ''harmonic_minor'' \<or> scale = ''melodic_minor''
      then let pc = mod_parse_root_pc key;
               major_pc = (pc + 3) smod 12;
               guess = pc_name_sharp major_pc
           in major_key_accidentals guess
      else major_key_accidentals key)"

subsection \<open>Diatonic chords\<close>

type_synonym scale_service = "(string \<Rightarrow> int list) \<times> (string \<Rightarrow> int \<Rightarrow> int list)"

record diatonic_chord =
  dc_root_pc :: int
  dc_quality :: string

definition kMajorQualities :: "string list" where
  "kMajorQualities = [''maj'', ''min'', ''min'', ''maj'', ''maj'', ''min'', ''dim'']"
definition kNaturalMinorQualities :: "string list" where
  "kNaturalMinorQualities = [''min'', ''dim'', ''maj'', ''min'', ''min'', ''maj'', ''maj'']"
definition kHarmonicMinorQualities :: "string list" where
  "kHarmonicMinorQualities = [''min'', ''dim'', ''aug'', ''min'', ''maj'', ''maj'', ''dim'']"
definition kMelodicMinorQualities :: "string list" where
  "kMelodicMinorQualities = [''min'', ''min'', ''aug'', ''maj'', ''maj'', ''dim'', ''dim'']"

definition qualities_for_scale :: "string \<Rightarrow> string list" where
  "qualities_for_scale scale =
     (if scale = ''minor'' \<or> scale = ''natural_minor'' then kNaturalMinorQualities
      else if scale = ''harmonic_minor'' then kHarmonicMinorQualities
      else if scale = ''melodic_minor'' then kMelodicMinorQualities
      else kMajorQualities)"

definition diatonic_chords :: "string \<Rightarrow> string \<Rightarrow> scale_service option \<Rightarrow> diatonic_chord list" where
  "diatonic_chords key scale scales =
     (let rpc = mod_parse_root_pc key in
      case scales of
        None \<Rightarrow> []
      | Some (of_name, for_root) \<Rightarrow>
          let ivs = of_name scale;
              ivs = (if ivs = [] then of_name ''major'' else ivs);
              qualities = qualities_for_scale scale
          in map (\<lambda>i. \<lparr>dc_root_pc = (rpc + ivs ! i) smod 12,
                       dc_quality = (if i < 7 then qualities ! i else ''maj'')\<rparr>)
               [0 ..< length ivs])"

definition chord_name :: "int \<Rightarrow> string \<Rightarrow> string option" where
  "chord_name rpc q = map_option (\<lambda>suf. pc_name_sharp rpc @ suf) (quality_suffix q)"

definition parse_chord_name :: "string \<Rightarrow> int \<times> string" where
  "parse_chord_name name =
     (if name = [] then (0, ''maj'')
      else let (root, pos) =
                 (if length name \<ge> 2 \<and> (name ! 1 = CHR ''#'' \<or> name ! 1 = CHR ''b'')
                  then (take 2 name, 2) else (take 1 name, 1));
               qual = drop pos name;
               qual = (if qual = [] then ''maj'' else if qual = ''m'' then ''min'' else qual)
           in (mod_parse_root_pc root, qual))"

subsection \<open>The engine\<close>

text \<open>\<open>target_map[tc.root_pc].push_back(tc.quality)\<close> over the chords of the target key.\<close>

definition target_map :: "diatonic_chord list \<Rightarrow> (int \<rightharpoonup> string list)" where
  "target_map to_chords =
     foldl (\<lambda>m tc. m(dc_root_pc tc \<mapsto>
        (case m (dc_root_pc tc) of None \<Rightarrow> [] | Some qs \<Rightarrow> qs) @ [dc_quality tc])) Map.empty to_chords"

definition shares_chord :: "(int \<rightharpoonup> string list) \<Rightarrow> diatonic_chord \<Rightarrow> bool" where
  "shares_chord tm fc =
     (case tm (dc_root_pc fc) of None \<Rightarrow> False | Some qs \<Rightarrow> list_ex (\<lambda>tq. dc_quality fc = tq) qs)"

text \<open>The result is \<open>None\<close> when the name of the chord returned would be read through a dangling pointer.\<close>

definition find_pivot_chord ::
  "scale_service option \<Rightarrow> string \<Rightarrow> string \<Rightarrow> string \<Rightarrow> string \<Rightarrow> string option" where
  "find_pivot_chord scales from_key from_scale to_key to_scale =
     (let from_chords = diatonic_chords from_key from_scale scales;
          to_chords = diatonic_chords to_key to_scale scales in
      if from_chords = [] \<or> to_chords = [] then Some []
      else let tm = target_map to_chords;
               to_root = mod_parse_root_pc to_key;
               look = (case scales of None \<Rightarrow> (\<lambda>_. []) | Some (of_name, _) \<Rightarrow> of_name);
               to_intervals = (if look to_scale = [] then look ''major'' else look to_scale);
               v_pc = (if length to_intervals \<ge> 5 then (to_root + to_intervals ! 4) smod 12 else - 1)
           in case find (\<lambda>fc. shares_chord tm fc \<and> dc_root_pc fc = v_pc) from_chords of
                Some fc \<Rightarrow> chord_name (dc_root_pc fc) (dc_quality fc)
              | None \<Rightarrow>
                  (case find (shares_chord tm) from_chords of
                     Some fc \<Rightarrow> chord_name (dc_root_pc fc) (dc_quality fc)
                   | None \<Rightarrow>
                       let from_roots = set (map dc_root_pc from_chords) in
                       (case find (\<lambda>tc. dc_root_pc tc \<in> from_roots) to_chords of
                          Some tc \<Rightarrow> chord_name (dc_root_pc tc) (dc_quality tc)
                        | None \<Rightarrow> Some [])))"

text \<open>The II-V-I cadence in the target key, for the bars that are left after the pivot.\<close>

definition cadence :: "string \<Rightarrow> int list \<Rightarrow> int \<Rightarrow> (int \<times> string) list" where
  "cadence to_scale to_intervals bars_left =
     (let qualities = qualities_for_scale to_scale in
      if bars_left > 0 \<and> length to_intervals \<ge> 5
      then let ii_pc = to_intervals ! 1 smod 12;
               v_pc = to_intervals ! 4 smod 12;
               i_pc = to_intervals ! 0 smod 12;
               is_major = (to_scale = ''major'');
               is_harm = (to_scale = ''harmonic_minor'');
               ii_q = qualities ! (1 mod 7);
               v_q = qualities ! (4 mod 7);
               i_q = qualities ! (0 mod 7);
               v_q = (if is_major \<or> is_harm then if bars_left > 1 then ''7'' else v_q else v_q);
               (a, bars_left) = ([(ii_pc, ii_q)], bars_left - 1);
               (b, bars_left) = (if bars_left > 0 then ([(v_pc, v_q)], bars_left - 1) else ([], bars_left));
               (c, bars_left) = (if bars_left > 0 then ([(i_pc, i_q)], bars_left - 1) else ([], bars_left))
           in a @ b @ c
      else [])"

definition generate_modulation ::
  "scale_service option \<Rightarrow> string \<Rightarrow> string \<Rightarrow> string \<Rightarrow> string \<Rightarrow> int \<Rightarrow> u64 \<Rightarrow> (int \<times> string) list option" where
  "generate_modulation scales from_key from_scale to_key to_scale transition_bars sd =
     (if transition_bars \<le> 0 then Some []
      else let to_root_pc = mod_parse_root_pc to_key in
      case find_pivot_chord scales from_key from_scale to_key to_scale of
        None \<Rightarrow> None
      | Some pivot \<Rightarrow>
          let has_pivot = (pivot \<noteq> []);
              to_intervals = (case scales of None \<Rightarrow> [] | Some (_, for_root) \<Rightarrow> for_root to_scale to_root_pc)
          in if length to_intervals < 3 then Some (if has_pivot then [parse_chord_name pivot] else [])
          else
          let bars_left = transition_bars;
              (result, bars_left) =
                (if bars_left > 0 \<and> has_pivot then ([parse_chord_name pivot], bars_left - 1)
                 else ([], bars_left))
          in Some (result @ cadence to_scale to_intervals bars_left))"

definition are_closely_related :: "string \<Rightarrow> string \<Rightarrow> string \<Rightarrow> string \<Rightarrow> bool" where
  "are_closely_related key1 scale1 key2 scale2 =
     (let acc1 = key_accidentals key1 scale1;
          acc2 = key_accidentals key2 scale2
      in \<bar>acc1 - acc2\<bar> \<le> 1)"

definition closely_related_keys :: "string \<Rightarrow> string \<Rightarrow> string list" where
  "closely_related_keys key scale =
     (let base_acc = key_accidentals key scale
      in concat (map (\<lambda>(acc, name). if \<bar>acc - base_acc\<bar> \<le> 1 then [name, relative_minor_of name] else [])
           all_major_keys))"

definition make_modulation_engine :: "scale_service option \<Rightarrow> scale_service option" where
  "make_modulation_engine scales =
     (case scales of None \<Rightarrow> Some (intervals_of, intervals_for) | Some s \<Rightarrow> Some s)"

subsection \<open>Chord names\<close>

definition known_qualities :: "string list" where
  "known_qualities = [''maj'', ''min'', ''7'', ''m7'', ''maj7'', ''dim'', ''dim7'', ''aug'']"

lemma mod_parse_root_pc_eq: "mod_parse_root_pc = parse_root_pc"
  by (rule ext) (simp add: mod_parse_root_pc_def parse_root_pc_def mod_key_table_def key_table_def)

lemma mod_parse_root_pc_range: "0 \<le> mod_parse_root_pc k \<and> mod_parse_root_pc k < 12"
  by (auto simp: mod_parse_root_pc_def mod_key_table_def split: option.splits dest!: map_of_SomeD)

lemma parse_chord_root:
  "(length r = 1 \<or> length r = 2 \<and> (r ! 1 = CHR ''#'' \<or> r ! 1 = CHR ''b'')) \<Longrightarrow>
   suf = [] \<or> hd suf \<noteq> CHR ''#'' \<and> hd suf \<noteq> CHR ''b'' \<Longrightarrow>
   parse_chord_name (r @ suf) =
     (mod_parse_root_pc r, if suf = [] then ''maj'' else if suf = ''m'' then ''min'' else suf)"
  by (cases r; cases suf) (auto simp: parse_chord_name_def Let_def nth_append length_Suc_conv)

lemma sharp_names_ok:
  "i < 12 \<Longrightarrow> (length (sharp_names ! i) = 1 \<or> length (sharp_names ! i) = 2 \<and> sharp_names ! i ! 1 = CHR ''#'') \<and>
     mod_parse_root_pc (sharp_names ! i) = int i"
proof -
  assume "i < 12"
  moreover have "list_all (\<lambda>i. (length (sharp_names ! i) = 1 \<or> length (sharp_names ! i) = 2 \<and>
      sharp_names ! i ! 1 = CHR ''#'') \<and> mod_parse_root_pc (sharp_names ! i) = int i) [0..<12]"
    by (simp add: upt_rec sharp_names_def mod_parse_root_pc_def mod_key_table_def)
  ultimately show ?thesis by (simp add: list_all_iff)
qed

lemma pc_name_sharp_ok:
  assumes "0 \<le> pc" "pc < 12"
  shows "length (pc_name_sharp pc) = 1 \<or> length (pc_name_sharp pc) = 2 \<and> pc_name_sharp pc ! 1 = CHR ''#''"
    and "mod_parse_root_pc (pc_name_sharp pc) = pc"
  using sharp_names_ok [of "nat pc"] assms by (simp_all add: pc_name_sharp_def smod_nonneg_eq)

lemma quality_suffix_ok:
  "q \<in> set known_qualities \<Longrightarrow>
   \<exists>suf. quality_suffix q = Some suf \<and> (suf = [] \<or> hd suf \<noteq> CHR ''#'' \<and> hd suf \<noteq> CHR ''b'') \<and>
     (if suf = [] then ''maj'' else if suf = ''m'' then ''min'' else suf) = q"
  by (auto simp: known_qualities_def quality_suffix_def)

lemma chord_name_reads:
  assumes "0 \<le> pc" "pc < 12" "q \<in> set known_qualities"
  shows "\<exists>s. chord_name pc q = Some s \<and> s \<noteq> [] \<and> parse_chord_name s = (pc, q)"
proof -
  obtain suf where "quality_suffix q = Some suf" "suf = [] \<or> hd suf \<noteq> CHR ''#'' \<and> hd suf \<noteq> CHR ''b''"
    "(if suf = [] then ''maj'' else if suf = ''m'' then ''min'' else suf) = q"
    using quality_suffix_ok [OF assms(3)] by blast
  moreover have "pc_name_sharp pc \<noteq> []" using pc_name_sharp_ok(1) [OF assms(1,2)] by auto
  ultimately show ?thesis
    using parse_chord_root [of "pc_name_sharp pc" suf] pc_name_sharp_ok [OF assms(1,2)]
    by (auto simp: chord_name_def)
qed

text \<open>
  The name printed for a chord reads back as the same root and quality, for each of the twelve
  pitch classes and the eight qualities the engine can spell: no pointer to a dead string is read.
\<close>

lemma chord_name_roundtrip:
  "0 \<le> pc \<Longrightarrow> pc < 12 \<Longrightarrow> q \<in> set known_qualities \<Longrightarrow>
   \<exists>s. chord_name pc q = Some s \<and> s \<noteq> [] \<and> parse_chord_name s = (pc, q)"
  by (rule chord_name_reads)

lemma chord_name_roundtrip_witness:
  "\<exists>s. chord_name 6 ''m7'' = Some s \<and> s \<noteq> [] \<and> parse_chord_name s = (6, ''m7'')"
  using chord_name_roundtrip [of 6 "''m7''"] by (simp add: known_qualities_def)

subsection \<open>The pivot chord\<close>

lemma target_map_eq:
  "target_map tcs pc =
     (if pc \<in> dc_root_pc ` set tcs then Some (map dc_quality (filter (\<lambda>c. dc_root_pc c = pc) tcs)) else None)"
proof (induction tcs rule: rev_induct)
  case (snoc c tcs)
  have "target_map (tcs @ [c]) = (target_map tcs)(dc_root_pc c \<mapsto>
    (case target_map tcs (dc_root_pc c) of None \<Rightarrow> [] | Some qs \<Rightarrow> qs) @ [dc_quality c])"
    by (simp add: target_map_def)
  moreover have "dc_root_pc c \<notin> dc_root_pc ` set tcs \<Longrightarrow> filter (\<lambda>d. dc_root_pc d = dc_root_pc c) tcs = []"
    by (auto simp: filter_empty_conv image_iff)
  ultimately show ?case using snoc by auto
qed (simp add: target_map_def)

lemma shares_chord_iff: "shares_chord (target_map tcs) fc \<longleftrightarrow> fc \<in> set tcs"
proof -
  have "fc \<in> set tcs \<longleftrightarrow> (\<exists>c \<in> set tcs. dc_root_pc c = dc_root_pc fc \<and> dc_quality c = dc_quality fc)"
    by (metis (full_types) diatonic_chord.equality unit.exhaust)
  then show ?thesis
    by (auto simp: shares_chord_def target_map_eq list_ex_iff)
qed

lemma qualities_known: "q \<in> set (qualities_for_scale s) \<Longrightarrow> q \<in> set known_qualities"
  "length (qualities_for_scale s) = 7"
  by (auto simp: qualities_for_scale_def kMajorQualities_def kNaturalMinorQualities_def
    kHarmonicMinorQualities_def kMelodicMinorQualities_def known_qualities_def split: if_splits)

definition names_chord :: "string \<Rightarrow> diatonic_chord \<Rightarrow> bool" where
  "names_chord s c \<longleftrightarrow> parse_chord_name s = (dc_root_pc c, dc_quality c)"

text \<open>
  What a pivot between the chords \<open>F\<close> of one key and \<open>T\<close> of another has to be: a chord of the
  target key on a root both keys have, a chord of both keys when there is one, and the fifth
  degree of the target when that is a chord of both.
\<close>

definition good_pivot :: "diatonic_chord list \<Rightarrow> diatonic_chord list \<Rightarrow> diatonic_chord \<Rightarrow> bool" where
  "good_pivot F T c \<longleftrightarrow>
     c \<in> set T \<and> dc_root_pc c \<in> dc_root_pc ` set F \<and>
     (set F \<inter> set T \<noteq> {} \<longrightarrow> c \<in> set F) \<and>
     ((\<exists>d \<in> set F \<inter> set T. 4 < length T \<and> dc_root_pc d = dc_root_pc (T ! 4)) \<longrightarrow>
        c \<in> set F \<and> dc_root_pc c = dc_root_pc (T ! 4))"

context scale_provider
begin

lemma diatonic_ok:
  assumes "c \<in> set (diatonic_chords k s (Some (of_name, for_root)))"
  shows "0 \<le> dc_root_pc c \<and> dc_root_pc c < 12 \<and> dc_quality c \<in> set known_qualities"
proof -
  define ivs where "ivs = (if of_name s = [] then of_name ''major'' else of_name s)"
  obtain i where i: "i < length ivs" and c: "c = \<lparr>dc_root_pc = (mod_parse_root_pc k + ivs ! i) smod 12,
      dc_quality = (if i < 7 then qualities_for_scale s ! i else ''maj'')\<rparr>"
    using assms by (auto simp: diatonic_chords_def Let_def ivs_def split: if_splits)
  have "ivs ! i \<in> set (of_name s) \<union> set (of_name ''major'')"
    using i nth_mem [OF i] unfolding ivs_def by (auto split: if_splits)
  then have "0 \<le> ivs ! i" using octave by blast
  moreover have "dc_quality c \<in> set known_qualities"
    using qualities_known(1) [of "qualities_for_scale s ! i" s] qualities_known(2) [of s]
    by (auto simp: c known_qualities_def)
  ultimately show ?thesis using mod_parse_root_pc_range [of k] by (simp add: c smod_nonneg_eq)
qed

lemma names_diatonic:
  assumes "c \<in> set (diatonic_chords k s (Some (of_name, for_root)))"
  shows "\<exists>n. chord_name (dc_root_pc c) (dc_quality c) = Some n \<and> n \<noteq> [] \<and> names_chord n c"
  using diatonic_ok [OF assms] chord_name_reads unfolding names_chord_def by blast

lemma pivot_unfold:
  fixes fk fs tk ts
  defines "F \<equiv> diatonic_chords fk fs (Some (of_name, for_root))"
    and "T \<equiv> diatonic_chords tk ts (Some (of_name, for_root))"
  assumes "F \<noteq> []" "T \<noteq> []"
  shows "\<exists>v. (4 < length T \<longrightarrow> v = dc_root_pc (T ! 4)) \<and>
     find_pivot_chord (Some (of_name, for_root)) fk fs tk ts =
       (case find (\<lambda>c. c \<in> set T \<and> dc_root_pc c = v) F of
          Some c \<Rightarrow> chord_name (dc_root_pc c) (dc_quality c)
        | None \<Rightarrow> (case find (\<lambda>c. c \<in> set T) F of
             Some c \<Rightarrow> chord_name (dc_root_pc c) (dc_quality c)
           | None \<Rightarrow> (case find (\<lambda>c. dc_root_pc c \<in> dc_root_pc ` set F) T of
                Some c \<Rightarrow> chord_name (dc_root_pc c) (dc_quality c)
              | None \<Rightarrow> Some [])))"
proof -
  define ivs where "ivs = (if of_name ts = [] then of_name ''major'' else of_name ts)"
  define v where "v = (if length ivs \<ge> 5 then (mod_parse_root_pc tk + ivs ! 4) smod 12 else - 1)"
  have T: "T = map (\<lambda>i. \<lparr>dc_root_pc = (mod_parse_root_pc tk + ivs ! i) smod 12,
      dc_quality = (if i < 7 then qualities_for_scale ts ! i else ''maj'')\<rparr>) [0 ..< length ivs]"
    by (simp add: T_def diatonic_chords_def Let_def ivs_def)
  have "4 < length T \<longrightarrow> v = dc_root_pc (T ! 4)" by (simp add: T v_def)
  moreover have "shares_chord (target_map T) = (\<lambda>c. c \<in> set T)"
    by (rule ext) (rule shares_chord_iff)
  ultimately show ?thesis
    using assms(3,4) unfolding find_pivot_chord_def Let_def option.case prod.case F_def [symmetric]
      T_def [symmetric] ivs_def [symmetric] v_def [symmetric]
    by (intro exI [of _ v]) (simp cong: option.case_cong)
qed

lemma pivot_good:
  fixes fk fs tk ts
  defines "F \<equiv> diatonic_chords fk fs (Some (of_name, for_root))"
    and "T \<equiv> diatonic_chords tk ts (Some (of_name, for_root))"
  shows "\<exists>s. find_pivot_chord (Some (of_name, for_root)) fk fs tk ts = Some s \<and>
     (if dc_root_pc ` set F \<inter> dc_root_pc ` set T = {} then s = []
      else s \<noteq> [] \<and> (\<exists>c. good_pivot F T c \<and> names_chord s c))"
proof (cases "F = [] \<or> T = []")
  case True
  then have "find_pivot_chord (Some (of_name, for_root)) fk fs tk ts = Some []"
    by (auto simp: find_pivot_chord_def F_def T_def Let_def)
  with True show ?thesis by auto
next
  case False
  then obtain v where v: "4 < length T \<longrightarrow> v = dc_root_pc (T ! 4)" and piv:
    "find_pivot_chord (Some (of_name, for_root)) fk fs tk ts =
       (case find (\<lambda>c. c \<in> set T \<and> dc_root_pc c = v) F of
          Some c \<Rightarrow> chord_name (dc_root_pc c) (dc_quality c)
        | None \<Rightarrow> (case find (\<lambda>c. c \<in> set T) F of
             Some c \<Rightarrow> chord_name (dc_root_pc c) (dc_quality c)
           | None \<Rightarrow> (case find (\<lambda>c. dc_root_pc c \<in> dc_root_pc ` set F) T of
                Some c \<Rightarrow> chord_name (dc_root_pc c) (dc_quality c)
              | None \<Rightarrow> Some [])))"
    using pivot_unfold [of fk fs tk ts] unfolding F_def T_def by auto
  have done_with: ?thesis
    if eq: "find_pivot_chord (Some (of_name, for_root)) fk fs tk ts = chord_name (dc_root_pc c) (dc_quality c)"
      and good: "good_pivot F T c" for c
  proof -
    obtain s where "chord_name (dc_root_pc c) (dc_quality c) = Some s" "s \<noteq> []" "names_chord s c"
      using names_diatonic [of c tk ts] good unfolding good_pivot_def T_def by blast
    moreover have "dc_root_pc ` set F \<inter> dc_root_pc ` set T \<noteq> {}"
      using good by (auto simp: good_pivot_def)
    ultimately show ?thesis using eq good by auto
  qed
  consider (v) c where "find (\<lambda>c. c \<in> set T \<and> dc_root_pc c = v) F = Some c"
    | (both) c where "find (\<lambda>c. c \<in> set T \<and> dc_root_pc c = v) F = None" "find (\<lambda>c. c \<in> set T) F = Some c"
    | (root) c where "find (\<lambda>c. c \<in> set T) F = None" "find (\<lambda>c. dc_root_pc c \<in> dc_root_pc ` set F) T = Some c"
    | (none) "find (\<lambda>c. c \<in> set T) F = None" "find (\<lambda>c. dc_root_pc c \<in> dc_root_pc ` set F) T = None"
    by (cases "find (\<lambda>c. c \<in> set T \<and> dc_root_pc c = v) F"; cases "find (\<lambda>c. c \<in> set T) F";
        cases "find (\<lambda>c. dc_root_pc c \<in> dc_root_pc ` set F) T") auto
  then show ?thesis
  proof cases
    case v
    then have "c \<in> set F" "c \<in> set T" "dc_root_pc c = v" by (auto simp: find_Some_iff)
    then show ?thesis using \<open>4 < length T \<longrightarrow> v = _\<close> v piv
      by (intro done_with [of c]) (auto simp: good_pivot_def)
  next
    case both
    then have "c \<in> set F" "c \<in> set T" by (auto simp: find_Some_iff)
    moreover have "\<not> (\<exists>d \<in> set F \<inter> set T. dc_root_pc d = v)" using both(1) by (auto simp: find_None_iff)
    ultimately show ?thesis using v both piv
      by (intro done_with [of c]) (auto simp: good_pivot_def)
  next
    case root
    have "find (\<lambda>c. c \<in> set T \<and> dc_root_pc c = v) F = None" using root(1) by (auto simp: find_None_iff)
    moreover have "c \<in> set T" "dc_root_pc c \<in> dc_root_pc ` set F" "set F \<inter> set T = {}"
      using root by (auto simp: find_Some_iff find_None_iff)
    ultimately show ?thesis using root piv
      by (intro done_with [of c]) (auto simp: good_pivot_def)
  next
    case none
    have "find (\<lambda>c. c \<in> set T \<and> dc_root_pc c = v) F = None" using none(1) by (auto simp: find_None_iff)
    moreover have "dc_root_pc ` set F \<inter> dc_root_pc ` set T = {}"
      using none(2) unfolding find_None_iff disjoint_iff by (metis imageE)
    ultimately show ?thesis using none piv by simp
  qed
qed

end

abbreviation std_scales :: "scale_service option" where
  "std_scales \<equiv> make_modulation_engine None"

text \<open>
  C24. The pivot chord between any two keys: the search always returns, never through a dangling
  pointer. It returns the empty string exactly when the two keys share no diatonic root. Otherwise
  the name returned reads back as a chord of the target key on a shared root, as a chord of both
  keys if they have one, and as the fifth degree of the target if that is a chord of both.
\<close>

theorem find_pivot_chord_correct:
  "\<exists>s. find_pivot_chord std_scales fk fs tk ts = Some s \<and>
     (let F = diatonic_chords fk fs std_scales; T = diatonic_chords tk ts std_scales in
      if dc_root_pc ` set F \<inter> dc_root_pc ` set T = {} then s = []
      else s \<noteq> [] \<and> (\<exists>c. good_pivot F T c \<and> names_chord s c))"
  using scales.pivot_good [of fk fs tk ts] by (simp add: make_modulation_engine_def Let_def)

subsection \<open>The transition\<close>

lemma known_five: "knows s \<Longrightarrow> 5 \<le> length (intervals_of s)"
  by (auto simp: knows_def intervals_of_def kScales_def scale_tables split: if_splits)

lemma cadence_take:
  assumes "5 \<le> length deg" "\<And>i. i < 5 \<Longrightarrow> deg ! i smod 12 = deg ! i"
  shows "cadence ts deg n = take (nat n)
    [(deg ! 1, qualities_for_scale ts ! 1),
     (deg ! 4, if ts = ''major'' \<or> ts = ''harmonic_minor'' then ''7'' else qualities_for_scale ts ! 4),
     (deg ! 0, qualities_for_scale ts ! 0)]"
proof -
  have d: "deg ! 0 smod 12 = deg ! 0" "deg ! Suc 0 smod 12 = deg ! Suc 0" "deg ! 4 smod 12 = deg ! 4"
    using assms(2) by simp_all
  have tk: "take (nat n) [x, y, z] = (if n \<le> 0 then [] else if n = 1 then [x] else if n = 2 then [x, y] else [x, y, z])"
    for x y z :: "int \<times> string"
  proof -
    consider "n \<le> 0" | "n = 1" | "n = 2" | "3 \<le> n" by linarith
    then show ?thesis by cases simp_all
  qed
  show ?thesis
    unfolding tk by (simp add: cadence_def Let_def assms(1) split del: if_split) (auto simp: d)
qed

text \<open>
  The transition to a key in a known scale is a prefix, as long as the number of bars, of one
  fixed sequence: the pivot chord if there is one, then II, V and I of the target key, the V as a
  dominant seventh when the target is major or harmonic minor. So a transition is never longer than
  asked, and it ends on the tonic when it has four bars or more.
\<close>

theorem generate_modulation_prefix:
  assumes "knows ts"
  shows "\<exists>pivot. find_pivot_chord std_scales fk fs tk ts = Some pivot \<and>
    generate_modulation std_scales fk fs tk ts bars sd =
      Some (take (nat bars)
        ((if pivot = [] then [] else [parse_chord_name pivot]) @
         (let deg = intervals_for ts (parse_root_pc tk); q = qualities_for_scale ts in
          [(deg ! 1, q ! 1), (deg ! 4, if ts = ''major'' \<or> ts = ''harmonic_minor'' then ''7'' else q ! 4),
           (parse_root_pc tk, q ! 0)])))"
proof -
  define deg where "deg = intervals_for ts (parse_root_pc tk)"
  obtain pivot where pivot: "find_pivot_chord (Some (intervals_of, intervals_for)) fk fs tk ts = Some pivot"
    using scales.pivot_good [of fk fs tk ts] by blast
  have five: "5 \<le> length deg"
    using known_five [OF assms] by (simp add: deg_def intervals_for_eq)
  have deg: "deg ! i smod 12 = deg ! i" if "i < 5" for i
  proof -
    have "deg ! i \<in> set deg" using that five by simp
    then show ?thesis using scales.pitch_classes unfolding deg_def by (simp add: smod_nonneg_eq)
  qed
  have "deg ! 0 = parse_root_pc tk mod 12"
    using scales.root_first [OF assms, of "parse_root_pc tk"] by (metis deg_def hd_conv_nth)
  then have tonic: "deg ! 0 = parse_root_pc tk"
    using mod_parse_root_pc_range [of tk] by (simp add: mod_parse_root_pc_eq)
  have len: "\<not> length deg < 3" using five by simp
  define X where "X = [(deg ! 1, qualities_for_scale ts ! 1),
     (deg ! 4, if ts = ''major'' \<or> ts = ''harmonic_minor'' then ''7'' else qualities_for_scale ts ! 4),
     (parse_root_pc tk, qualities_for_scale ts ! 0)]"
  have cad: "cadence ts deg n = take (nat n) X" for n
    unfolding X_def tonic [symmetric] by (rule cadence_take [OF five deg])
  show ?thesis
  proof (intro exI [of _ pivot] conjI)
    show "find_pivot_chord std_scales fk fs tk ts = Some pivot" using pivot by (simp add: make_modulation_engine_def)
    show "generate_modulation std_scales fk fs tk ts bars sd =
      Some (take (nat bars)
        ((if pivot = [] then [] else [parse_chord_name pivot]) @
         (let deg = intervals_for ts (parse_root_pc tk); q = qualities_for_scale ts in
          [(deg ! 1, q ! 1), (deg ! 4, if ts = ''major'' \<or> ts = ''harmonic_minor'' then ''7'' else q ! 4),
           (parse_root_pc tk, q ! 0)])))"
      unfolding generate_modulation_def make_modulation_engine_def Let_def mod_parse_root_pc_eq option.case prod.case
        pivot deg_def [symmetric] cad if_not_P [OF len] X_def [symmetric]
      by (cases "bars \<le> 0"; cases "pivot = []") (simp_all add: take_Cons' nat_diff_distrib)
  qed
qed

text \<open>From C major to G major in four bars: the pivot, then A minor, D seventh and G.\<close>

theorem generate_modulation_prefix_witness:
  "knows ''major'' \<and> (\<exists>pivot. find_pivot_chord std_scales ''C'' ''major'' ''G'' ''major'' = Some pivot \<and>
    generate_modulation std_scales ''C'' ''major'' ''G'' ''major'' 4 0 =
      Some (take 4 ((if pivot = [] then [] else [parse_chord_name pivot]) @
         [(9, ''min''), (2, ''7''), (7, ''maj'')])))"
proof -
  have k: "knows ''major''" by (simp add: knows_def kScales_def)
  have r: "parse_root_pc ''G'' = 7" by (simp add: parse_root_pc_def key_table_def)
  have d: "intervals_for ''major'' 7 = [7, 9, 11, 0, 2, 4, 6]"
    by (simp add: intervals_for_eq intervals_of_def kScales_def scale_tables)
  show ?thesis
    using k generate_modulation_prefix [OF k, of "''C''" "''major''" "''G''" 4 0]
    by (simp add: r d qualities_for_scale_def kMajorQualities_def Let_def del: take_append split del: if_split)
qed

subsection \<open>Closely related keys\<close>

text \<open>
  Two keys are closely related when their signatures differ by at most one accidental, a symmetric
  and reflexive relation; the list of closely related keys of a key has exactly the major keys
  related to it, each followed by its relative minor.
\<close>

theorem closely_related_keys_correct:
  "are_closely_related k s k s \<and> (are_closely_related k s k' s' \<longleftrightarrow> are_closely_related k' s' k s) \<and>
   closely_related_keys k s =
     concat (map (\<lambda>m. [m, relative_minor_of m])
       (filter (\<lambda>m. are_closely_related k s m ''major'') (map snd all_major_keys)))"
proof (intro conjI)
  have "list_all (\<lambda>(acc, m). key_accidentals m ''major'' = acc) all_major_keys" by code_simp
  then have sig: "key_accidentals m ''major'' = acc" if "(acc, m) \<in> set all_major_keys" for acc m
    using that by (auto simp: list_all_iff)
  have "concat (map (\<lambda>(acc, name). if \<bar>acc - b\<bar> \<le> 1 then [name, relative_minor_of name] else []) xs) =
    concat (map (\<lambda>m. [m, relative_minor_of m])
       (filter (\<lambda>m. \<bar>b - key_accidentals m ''major''\<bar> \<le> 1) (map snd xs)))"
    if "set xs \<subseteq> set all_major_keys" for b xs
    using that by (induction xs) (auto simp: sig)
  then show "closely_related_keys k s =
     concat (map (\<lambda>m. [m, relative_minor_of m])
       (filter (\<lambda>m. are_closely_related k s m ''major'') (map snd all_major_keys)))"
    by (simp add: closely_related_keys_def are_closely_related_def Let_def)
qed (auto simp: are_closely_related_def Let_def)

text \<open>
  The signature computed for a minor key is the one of its relative major exactly for the
  relative majors with at most one flat. For the six majors with two flats or more the engine
  spells the relative major with a sharp and gets another signature.
\<close>

theorem minor_signature_only_sharps:
  "map (\<lambda>(acc, m). (m, key_accidentals (relative_minor_of m) ''minor'' = acc)) all_major_keys =
   map (\<lambda>(acc, m). (m, acc \<ge> - 1)) all_major_keys"
  by code_simp

end
