(* ===== verification/Reharmonize_Engine.thy ===== *)
theory Reharmonize_Engine
  imports Modulation_Engine
begin

text \<open>
  The reharmonize engine (\<open>reharmonize_engine.cpp\<close>): a new chord progression in one of five styles,
  and its voicing by the injected chord engine. The file repeats the key table, the chord-name
  parser and the diatonic chords of the modulation engine word for word; those definitions are
  shared. Its \<open>pc_name_sharp\<close> and \<open>quality_suffix\<close> differ and have their own definitions.

  A progression is a list of chord names. A name whose quality \<open>quality_suffix\<close> does not list is
  read through a dangling pointer: the result is then \<open>None\<close>, as it is for a division by zero and a
  null scale provider.
\<close>

datatype reharm_style = RH_simple | RH_jazz | RH_modal | RH_chromatic | RH_pedal

record reharmonize_request =
  rq_melody :: "midi_event list"
  rq_key :: string
  rq_scale :: string
  rq_chords :: "string list"
  rq_bars :: int
  rq_bpm :: int
  rq_style :: reharm_style
  rq_seed :: u64

definition rh_pc_name_sharp :: "int \<Rightarrow> string" where
  "rh_pc_name_sharp pc = sharp_names ! nat ((pc smod 12 + 12) smod 12)"

definition rh_quality_suffix :: "string \<Rightarrow> string option" where
  "rh_quality_suffix q =
     (if q = ''maj'' then Some '''' else if q = ''min'' then Some ''m'' else if q = ''7'' then Some ''7''
      else if q = ''m7'' then Some ''m7'' else if q = ''maj7'' then Some ''maj7''
      else if q = ''dim'' then Some ''dim'' else if q = ''dim7'' then Some ''dim7''
      else if q = ''aug'' then Some ''aug'' else if q = ''m7b5'' then Some ''m7b5'' else None)"

definition rh_chord_name :: "int \<Rightarrow> string \<Rightarrow> string option" where
  "rh_chord_name rpc q = map_option (\<lambda>suf. rh_pc_name_sharp rpc @ suf) (rh_quality_suffix q)"

text \<open>The first degree of the key on a root, \<open>-1\<close> for none.\<close>

definition find_degree :: "int \<Rightarrow> string \<Rightarrow> string \<Rightarrow> scale_service option \<Rightarrow> int" where
  "find_degree rpc key scale scales =
     (let diatonics = diatonic_chords key scale scales
      in case find (\<lambda>i. dc_root_pc (diatonics ! i) = rpc) [0 ..< length diatonics] of
           Some i \<Rightarrow> int i
         | None \<Rightarrow> - 1)"

text \<open>\<open>opts[rng() % n]\<close> on a local array of options.\<close>

definition pick :: "string list \<Rightarrow> mt19937_64 \<Rightarrow> string \<times> mt19937_64" where
  "pick opts g = (let (r, g1) = rng_mod (length opts) g in (opts ! r, g1))"

subsection \<open>The five styles\<close>

definition simple_options :: "int \<Rightarrow> string list" where
  "simple_options degree =
     (if degree = 0 then [''maj'', ''maj7'']
      else if degree = 1 then [''min'', ''m7'']
      else if degree = 2 then [''min'', ''m7'']
      else if degree = 3 then [''maj'', ''maj7'']
      else if degree = 4 then [''7'', ''maj7'']
      else if degree = 5 then [''min'', ''m7'']
      else if degree = 6 then [''dim'', ''m7b5'']
      else [])"

definition simple_chord ::
  "string \<Rightarrow> string \<Rightarrow> scale_service option \<Rightarrow> string \<Rightarrow> mt19937_64 \<Rightarrow> string option list \<times> mt19937_64" where
  "simple_chord key scale scales chord g =
     (let (rpc, q) = parse_chord_name chord;
          degree = find_degree rpc key scale scales;
          (new_quality, g1) =
            (if degree \<ge> 0 \<and> simple_options degree \<noteq> [] then pick (simple_options degree) g else (q, g))
      in ([rh_chord_name rpc new_quality], g1))"

definition simple_reharm ::
  "string list \<Rightarrow> string \<Rightarrow> string \<Rightarrow> scale_service option \<Rightarrow> mt19937_64 \<Rightarrow> string list option" where
  "simple_reharm original_chords key scale scales g =
     (if original_chords = [] then Some []
      else those (fst (for_each (simple_chord key scale scales) original_chords g)))"

text \<open>Whether the chord after position \<open>i\<close> is on the first or sixth degree.\<close>

definition next_is_target :: "diatonic_chord list \<Rightarrow> string list \<Rightarrow> nat \<Rightarrow> bool" where
  "next_is_target diatonics original_chords i \<longleftrightarrow>
     i + 1 < length original_chords \<and>
     (let (next_root, _) = parse_chord_name (original_chords ! (i + 1))
      in list_ex (\<lambda>d. dc_root_pc (diatonics ! d) = next_root \<and> (d = 0 \<or> d = 5)) [0 ..< length diatonics])"

definition jazz_quality :: "string \<Rightarrow> int \<Rightarrow> string" where
  "jazz_quality q degree =
     (if q = ''maj'' \<or> q = [] then if degree = 4 then ''7'' else ''maj7''
      else if q = ''min'' \<or> q = ''m'' then ''m7''
      else if q = ''dim'' then ''m7b5'' else q)"

definition jazz_chord ::
  "string \<Rightarrow> string \<Rightarrow> scale_service option \<Rightarrow> string list \<Rightarrow> nat \<Rightarrow> mt19937_64 \<Rightarrow>
   string option list \<times> mt19937_64" where
  "jazz_chord key scale scales original_chords i g =
     (let diatonics = diatonic_chords key scale scales;
          key_root_pc = mod_parse_root_pc key;
          (rpc, q) = parse_chord_name (original_chords ! i);
          degree = find_degree rpc key scale scales
      in if degree = 4 \<and> next_is_target diatonics original_chords i \<and> length diatonics \<ge> 2
         then let ii_pc = dc_root_pc (diatonics ! (1 mod length diatonics));
                  (r, g1) = rng_mod 3 g;
                  tritone = (r = 0)
              in ([rh_chord_name ii_pc ''m7'',
                   if tritone then rh_chord_name ((key_root_pc + 1) smod 12) ''7''
                   else rh_chord_name rpc ''7''], g1)
         else ([rh_chord_name rpc (jazz_quality q degree)], g))"

text \<open>One iteration of the turnaround pass, which rewrites the progression in place.\<close>

definition turnaround_at :: "int \<Rightarrow> diatonic_chord list \<Rightarrow> string option list \<Rightarrow> nat \<Rightarrow> string option list" where
  "turnaround_at key_root_pc diatonics result i =
     (let c = (\<lambda>j. case result ! j of None \<Rightarrow> - 1 | Some name \<Rightarrow> fst (parse_chord_name name));
          vi_pc = dc_root_pc (diatonics ! (5 mod length diatonics));
          ii_pc = dc_root_pc (diatonics ! (1 mod length diatonics));
          v_pc = dc_root_pc (diatonics ! (4 mod length diatonics))
      in if c i = key_root_pc \<and> c (i + 1) = vi_pc \<and> c (i + 2) = ii_pc \<and> c (i + 3) = v_pc
         then result[i + 1 := rh_chord_name ((ii_pc + 7) smod 12) ''7''] else result)"

definition jazz_reharm ::
  "string list \<Rightarrow> string \<Rightarrow> string \<Rightarrow> scale_service option \<Rightarrow> mt19937_64 \<Rightarrow> string list option" where
  "jazz_reharm original_chords key scale scales g =
     (if original_chords = [] then Some []
      else let diatonics = diatonic_chords key scale scales;
               key_root_pc = mod_parse_root_pc key;
               result = fst (for_each (jazz_chord key scale scales original_chords) [0 ..< length original_chords] g)
           in those (if length diatonics \<ge> 6
                     then foldl (turnaround_at key_root_pc diatonics) result [0 ..< length result - 3]
                     else result))"

definition kModes :: "string list" where
  "kModes = [''ionian'', ''dorian'', ''phrygian'', ''lydian'', ''mixolydian'', ''aeolian'', ''locrian'']"

definition kModeQualities :: "string list list" where
  "kModeQualities =
     [[''maj'', ''min'', ''min'', ''maj'', ''maj'', ''min'', ''dim''],
      [''min'', ''min'', ''maj'', ''maj'', ''min'', ''dim'', ''maj''],
      [''min'', ''maj'', ''maj'', ''min'', ''dim'', ''maj'', ''min''],
      [''maj'', ''maj'', ''min'', ''dim'', ''maj'', ''min'', ''min''],
      [''maj'', ''min'', ''dim'', ''maj'', ''min'', ''min'', ''maj''],
      [''min'', ''dim'', ''maj'', ''min'', ''min'', ''maj'', ''maj''],
      [''dim'', ''maj'', ''min'', ''min'', ''maj'', ''maj'', ''min'']]"

definition mode_index :: "string \<Rightarrow> nat" where
  "mode_index scale = (case find (\<lambda>m. scale = kModes ! m) [0 ..< 7] of Some m \<Rightarrow> m | None \<Rightarrow> 0)"

definition modal_chord :: "string \<Rightarrow> string \<Rightarrow> scale_service option \<Rightarrow> string \<Rightarrow> string option" where
  "modal_chord key scale scales chord =
     (let (rpc, q) = parse_chord_name chord;
          degree = find_degree rpc key scale scales
      in if degree \<ge> 0 \<and> degree < 7
         then rh_chord_name rpc (kModeQualities ! mode_index scale ! nat degree)
         else let enhanced = (if q = ''maj'' \<or> q = [] then ''maj'' else if q = ''min'' then ''min'' else q)
              in rh_chord_name rpc enhanced)"

text \<open>
  The mode drawn from the random engine and the rotated intervals are computed and not used; only
  the test that the provider has a major scale remains of them.
\<close>

definition modal_reharm ::
  "string list \<Rightarrow> string \<Rightarrow> string \<Rightarrow> scale_service option \<Rightarrow> mt19937_64 \<Rightarrow> string list option" where
  "modal_reharm original_chords key scale scales g =
     (if original_chords = [] then Some []
      else let (mode, g1) = pick kModes g in
      case scales of
        None \<Rightarrow> None
      | Some (of_name, _) \<Rightarrow>
          if of_name ''major'' = [] then Some original_chords
          else those (map (modal_chord key scale scales) original_chords))"

definition passing_chord :: "nat \<Rightarrow> int \<Rightarrow> mt19937_64 \<Rightarrow> string option list \<times> mt19937_64" where
  "passing_chord i rpc g =
     (if i > 0
      then let (r, g1) = rng_mod 2 g
           in if r = 0
              then let (d, g2) = rng_mod 2 g1;
                       dir = (if d = 0 then 1 else - 1);
                       pass_pc = ((rpc + dir) smod 12 + 12) smod 12;
                       (u, g3) = rng_mod 2 g2;
                       use_dim = (u = 0)
                   in ([rh_chord_name pass_pc (if use_dim then ''dim'' else ''7'')], g3)
              else ([], g1)
      else ([], g))"

definition chromatic_options :: "nat \<Rightarrow> int \<Rightarrow> string \<Rightarrow> string list" where
  "chromatic_options i degree q =
     (if degree = 4 \<and> i > 0 then [''7'', ''dim7'', ''7'']
      else if q = ''maj'' \<or> q = [] then [''maj'', ''maj7'', ''aug'']
      else if q = ''min'' then [''min'', ''m7'', ''dim'']
      else if q = ''dim'' then [''dim'', ''dim7'']
      else [])"

definition chromatic_chord ::
  "string \<Rightarrow> string \<Rightarrow> scale_service option \<Rightarrow> nat \<times> string \<Rightarrow> mt19937_64 \<Rightarrow> string option list \<times> mt19937_64" where
  "chromatic_chord key scale scales = (\<lambda>(i, chord) g.
     let (rpc, q) = parse_chord_name chord;
         (pass, g1) = passing_chord i rpc g;
         degree = find_degree rpc key scale scales;
         (new_quality, g2) =
           (if chromatic_options i degree q \<noteq> [] then pick (chromatic_options i degree q) g1 else (q, g1))
     in (pass @ [rh_chord_name rpc new_quality], g2))"

definition chromatic_reharm ::
  "string list \<Rightarrow> string \<Rightarrow> string \<Rightarrow> scale_service option \<Rightarrow> mt19937_64 \<Rightarrow> string list option" where
  "chromatic_reharm original_chords key scale scales g =
     (if original_chords = [] then Some []
      else those (fst (for_each (chromatic_chord key scale scales) (enumerate 0 original_chords) g)))"

definition pedal_chord :: "diatonic_chord list \<Rightarrow> string \<Rightarrow> mt19937_64 \<Rightarrow> string option list \<times> mt19937_64" where
  "pedal_chord diatonics chord g =
     (let (di_idx, g1) = rng_mod (length diatonics) g;
          dc = diatonics ! di_idx;
          (c, g2) = rng_mod 4 g1;
          (q, g3) = (if c = 0 then pick [''7'', ''maj7'', ''m7''] g2 else (dc_quality dc, g2))
      in ([rh_chord_name (dc_root_pc dc) q], g3))"

text \<open>With no diatonic chord the draw divides by zero.\<close>

definition pedal_reharm ::
  "string list \<Rightarrow> string \<Rightarrow> string \<Rightarrow> scale_service option \<Rightarrow> mt19937_64 \<Rightarrow> string list option" where
  "pedal_reharm original_chords key scale scales g =
     (if original_chords = [] then Some []
      else let diatonics = diatonic_chords key scale scales
           in if diatonics = [] then None
              else those (fst (for_each (pedal_chord diatonics) original_chords g)))"

subsection \<open>The engine\<close>

definition reharmonize :: "scale_service option \<Rightarrow> reharmonize_request \<Rightarrow> string list option" where
  "reharmonize scales req =
     (let g = mt_seed (rq_seed req) in
      if rq_bars req < 1 \<or> rq_melody req = [] then Some (rq_chords req)
      else case rq_style req of
        RH_simple \<Rightarrow> simple_reharm (rq_chords req) (rq_key req) (rq_scale req) scales g
      | RH_jazz \<Rightarrow> jazz_reharm (rq_chords req) (rq_key req) (rq_scale req) scales g
      | RH_modal \<Rightarrow> modal_reharm (rq_chords req) (rq_key req) (rq_scale req) scales g
      | RH_chromatic \<Rightarrow> chromatic_reharm (rq_chords req) (rq_key req) (rq_scale req) scales g
      | RH_pedal \<Rightarrow> pedal_reharm (rq_chords req) (rq_key req) (rq_scale req) scales g)"

definition voicing_specs :: "string list \<Rightarrow> int \<Rightarrow> chord_spec list" where
  "voicing_specs new_chords bars =
     (let ppq = (of_nat kPpq :: u32);
          ticks_per_bar = ppq * 4;
          num_chords = int (length new_chords);
          bars_per_chord = (if num_chords > 0 then max 1 (bars sdiv num_chords) else 1);
          ticks_per_chord = ticks_per_bar * word_of_int bars_per_chord
      in map (\<lambda>(i, name). let (rpc, q) = parse_chord_name name
                in \<lparr>start_tick = of_nat i * ticks_per_chord, duration_ticks = ticks_per_chord,
                    root_pc = rpc, quality = q, cs_channel = 0\<rparr>)
           (enumerate 0 new_chords))"

definition generate_voicings ::
  "(chord_request \<Rightarrow> midi_event list) option \<Rightarrow> string list \<Rightarrow> int \<Rightarrow> int \<Rightarrow> u64 \<Rightarrow> midi_event list" where
  "generate_voicings ce new_chords bars bpm sd =
     (if new_chords = [] then []
      else case ce of
        None \<Rightarrow> []
      | Some voice \<Rightarrow> voice \<lparr>chords = voicing_specs new_chords bars, req_seed = sd, req_ppq = of_nat kPpq\<rparr>)"

definition make_reharmonize_engine ::
  "scale_service option \<Rightarrow> (chord_request \<Rightarrow> midi_event list) option \<Rightarrow>
   scale_service option \<times> (chord_request \<Rightarrow> midi_event list) option" where
  "make_reharmonize_engine scales ce =
     (case scales of None \<Rightarrow> Some (intervals_of, intervals_for) | Some s \<Rightarrow> Some s,
      case ce of None \<Rightarrow> Some voicing | Some v \<Rightarrow> Some v)"

subsection \<open>Chord names\<close>

definition rh_known_qualities :: "string list" where
  "rh_known_qualities = [''maj'', ''min'', ''7'', ''m7'', ''maj7'', ''dim'', ''dim7'', ''aug'', ''m7b5'']"

text \<open>A chord name the engine can print again after parsing it.\<close>

definition spellable :: "string \<Rightarrow> bool" where
  "spellable name \<longleftrightarrow> snd (parse_chord_name name) \<in> set rh_known_qualities"

abbreviation root_of :: "string \<Rightarrow> int" where
  "root_of name \<equiv> fst (parse_chord_name name)"

lemma rh_quality_suffix_ok:
  "q \<in> set rh_known_qualities \<Longrightarrow>
   \<exists>suf. rh_quality_suffix q = Some suf \<and> (suf = [] \<or> hd suf \<noteq> CHR ''#'' \<and> hd suf \<noteq> CHR ''b'') \<and>
     (if suf = [] then ''maj'' else if suf = ''m'' then ''min'' else suf) = q"
  by (auto simp: rh_known_qualities_def rh_quality_suffix_def)

lemma rh_chord_name_reads:
  assumes "0 \<le> pc" "pc < 12" "q \<in> set rh_known_qualities"
  shows "\<exists>s. rh_chord_name pc q = Some s \<and> parse_chord_name s = (pc, q)"
proof -
  obtain suf where "rh_quality_suffix q = Some suf" "suf = [] \<or> hd suf \<noteq> CHR ''#'' \<and> hd suf \<noteq> CHR ''b''"
    "(if suf = [] then ''maj'' else if suf = ''m'' then ''min'' else suf) = q"
    using rh_quality_suffix_ok [OF assms(3)] by blast
  moreover have "rh_pc_name_sharp pc = pc_name_sharp pc"
    using assms(1,2) by (simp add: rh_pc_name_sharp_def pc_name_sharp_def norm_mod_idiom smod_nonneg_eq)
  ultimately show ?thesis
    using parse_chord_root [of "pc_name_sharp pc" suf] pc_name_sharp_ok [OF assms(1,2)]
    by (auto simp: rh_chord_name_def)
qed

lemma root_of_range: "0 \<le> root_of c \<and> root_of c < 12"
  using mod_parse_root_pc_range by (simp add: parse_chord_name_def split_beta Let_def)

text \<open>The printed form of a root and a known quality, as a predicate on what a loop pushes.\<close>

definition named :: "int \<Rightarrow> string option \<Rightarrow> bool" where
  "named pc out \<longleftrightarrow> (\<exists>s. out = Some s \<and> spellable s \<and> root_of s = pc)"

lemma named_chord: "0 \<le> pc \<Longrightarrow> pc < 12 \<Longrightarrow> q \<in> set rh_known_qualities \<Longrightarrow> named pc (rh_chord_name pc q)"
  using rh_chord_name_reads [of pc q] by (auto simp: named_def spellable_def)

lemma named_root: "q \<in> set rh_known_qualities \<Longrightarrow> named (root_of c) (rh_chord_name (root_of c) q)"
  using root_of_range [of c] by (intro named_chord) auto

lemma those_eq: "those xs = Some r \<longleftrightarrow> xs = map Some r"
  by (induction xs arbitrary: r) (auto split: option.splits)

lemma those_named:
  assumes "list_all (\<lambda>x. \<exists>pc. named pc x) xs"
  shows "\<exists>r. those xs = Some r \<and> list_all spellable r"
proof -
  have "\<exists>r. xs = map Some r \<and> list_all spellable r"
    using assms
  proof (induction xs)
    case (Cons x xs)
    then obtain r where "xs = map Some r" "list_all spellable r" by auto
    moreover obtain s where "x = Some s" "spellable s" using Cons.prems by (auto simp: named_def)
    ultimately show ?case by (intro exI [of _ "s # r"]) simp
  qed simp
  then show ?thesis by (auto simp: those_eq)
qed

lemma pick_mem: "opts \<noteq> [] \<Longrightarrow> fst (pick opts g) \<in> set opts"
  using mt.draw_nth [of opts g] by (simp add: pick_def split_beta Let_def)

subsection \<open>Each style prints spellable names\<close>

lemma options_known:
  "q \<in> set (simple_options d) \<Longrightarrow> q \<in> set rh_known_qualities"
  "q \<in> set (chromatic_options i d q') \<Longrightarrow> q \<in> set rh_known_qualities"
  "q \<in> set rh_known_qualities \<Longrightarrow> jazz_quality q d \<in> set rh_known_qualities"
  by (auto simp: simple_options_def chromatic_options_def jazz_quality_def rh_known_qualities_def split: if_splits)

lemma simple_chord_named:
  "spellable c \<Longrightarrow> \<exists>y. fst (simple_chord key scale sv c g) = [y] \<and> named (root_of c) y"
  using pick_mem options_known(1)
  by (auto simp: simple_chord_def split_beta Let_def spellable_def intro!: named_root)

lemma mode_qualities_known: "q \<in> set (concat kModeQualities) \<Longrightarrow> q \<in> set rh_known_qualities"
  by (auto simp: kModeQualities_def rh_known_qualities_def)

lemma mode_index_less: "mode_index s < 7"
  by (auto simp: mode_index_def find_Some_iff split: option.splits)

lemma kModeQualities_shape: "length kModeQualities = 7" "m < 7 \<Longrightarrow> length (kModeQualities ! m) = 7"
proof -
  have "list_all (\<lambda>qs. length qs = 7) kModeQualities" by (simp add: kModeQualities_def)
  then show "length kModeQualities = 7" "m < 7 \<Longrightarrow> length (kModeQualities ! m) = 7"
    by (simp_all add: kModeQualities_def list_all_length)
qed

lemma modal_chord_named: "spellable c \<Longrightarrow> named (root_of c) (modal_chord key scale sv c)"
proof -
  assume c: "spellable c"
  have "kModeQualities ! mode_index scale ! nat d \<in> set rh_known_qualities" if "0 \<le> d" "d < 7" for d
  proof -
    have "kModeQualities ! mode_index scale ! nat d \<in> set (kModeQualities ! mode_index scale)"
      using that mode_index_less [of scale] by (intro nth_mem) (simp add: kModeQualities_shape)
    moreover have "kModeQualities ! mode_index scale \<in> set kModeQualities"
      using mode_index_less [of scale] by (simp add: kModeQualities_shape)
    ultimately show ?thesis using mode_qualities_known by auto
  qed
  then show ?thesis
    using c by (auto simp: modal_chord_def split_beta Let_def spellable_def rh_known_qualities_def intro!: named_root)
qed

lemma passing_chord_named:
  "list_all (\<lambda>x. \<exists>pc. named pc x) (fst (passing_chord i rpc g)) \<and> length (fst (passing_chord i rpc g)) \<le> (if i = 0 then 0 else 1)"
  by (auto simp: passing_chord_def split_beta Let_def norm_mod_idiom rh_known_qualities_def
      intro!: named_chord exI)

lemma chromatic_chord_named:
  assumes "spellable c"
  shows "\<exists>pass y. fst (chromatic_chord key scale sv (i, c) g) = pass @ [y] \<and> named (root_of c) y \<and>
     list_all (\<lambda>x. \<exists>pc. named pc x) pass \<and> length pass \<le> (if i = 0 then 0 else 1)"
  using passing_chord_named [of i "root_of c" g] assms
  by (auto simp: chromatic_chord_def split_beta Let_def spellable_def
      intro!: named_root options_known(2) [OF pick_mem])

abbreviation rh_scales :: "scale_service option" where
  "rh_scales \<equiv> fst (make_reharmonize_engine None None)"

lemma rh_scales_eq: "rh_scales = Some (intervals_of, intervals_for)"
  by (simp add: make_reharmonize_engine_def)

lemma rh_diatonic_ok:
  assumes "i < length (diatonic_chords key scale rh_scales)"
  shows "0 \<le> dc_root_pc (diatonic_chords key scale rh_scales ! i)"
    "dc_root_pc (diatonic_chords key scale rh_scales ! i) < 12"
    "dc_quality (diatonic_chords key scale rh_scales ! i) \<in> set rh_known_qualities"
proof -
  have "diatonic_chords key scale rh_scales ! i \<in> set (diatonic_chords key scale (Some (intervals_of, intervals_for)))"
    using assms by (metis nth_mem rh_scales_eq)
  note * = scales.diatonic_ok [OF this]
  show "0 \<le> dc_root_pc (diatonic_chords key scale rh_scales ! i)"
    "dc_root_pc (diatonic_chords key scale rh_scales ! i) < 12"
    "dc_quality (diatonic_chords key scale rh_scales ! i) \<in> set rh_known_qualities"
    using * by (auto simp: known_qualities_def rh_known_qualities_def)
qed

lemma diatonic_degrees: "5 \<le> length (diatonic_chords key scale rh_scales)"
proof -
  have "5 \<le> length (intervals_of s)" if "intervals_of s \<noteq> []" for s
    using that known_five scales.unknown_empty by blast
  moreover have "intervals_of ''major'' \<noteq> []" by (simp add: intervals_of_def kScales_def kMajor_def)
  ultimately show ?thesis by (simp add: rh_scales_eq diatonic_chords_def Let_def)
qed

lemma known_7_m7: "''7'' \<in> set rh_known_qualities" "''m7'' \<in> set rh_known_qualities" "''maj7'' \<in> set rh_known_qualities"
  by (simp_all add: rh_known_qualities_def)

lemma smod_12_range: "0 \<le> a \<Longrightarrow> 0 \<le> a smod 12" "0 \<le> a \<Longrightarrow> a smod 12 < (12 :: int)"
  by (simp_all add: smod_nonneg_eq)

text \<open>A V chord that resolves to I or vi is where the jazz style inserts the ii.\<close>

definition ii_V_at :: "string \<Rightarrow> string \<Rightarrow> string list \<Rightarrow> nat \<Rightarrow> bool" where
  "ii_V_at key scale cs i \<longleftrightarrow>
     find_degree (root_of (cs ! i)) key scale rh_scales = 4 \<and>
     next_is_target (diatonic_chords key scale rh_scales) cs i"

lemma jazz_chord_named:
  assumes "spellable (cs ! i)"
  shows "list_all (\<lambda>x. \<exists>pc. named pc x) (fst (jazz_chord key scale rh_scales cs i g)) \<and>
    length (fst (jazz_chord key scale rh_scales cs i g)) = (if ii_V_at key scale cs i then 2 else 1)"
proof -
  let ?ds = "diatonic_chords key scale rh_scales"
  have len: "\<not> length ?ds < 2" using diatonic_degrees [of key scale] by simp
  have "1 mod length ?ds < length ?ds" using len by simp
  note d = rh_diatonic_ok [OF this]
  have key: "0 \<le> mod_parse_root_pc key + 1" using mod_parse_root_pc_range [of key] by simp
  have q: "jazz_quality (snd (parse_chord_name (cs ! i))) dg \<in> set rh_known_qualities" for dg
    using assms options_known(3) by (simp add: spellable_def)
  have "named (dc_root_pc (?ds ! (1 mod length ?ds))) (rh_chord_name (dc_root_pc (?ds ! (1 mod length ?ds))) ''m7'')"
    "named ((mod_parse_root_pc key + 1) smod 12) (rh_chord_name ((mod_parse_root_pc key + 1) smod 12) ''7'')"
    "named (root_of (cs ! i)) (rh_chord_name (root_of (cs ! i)) ''7'')"
    "named (root_of (cs ! i)) (rh_chord_name (root_of (cs ! i)) (jazz_quality (snd (parse_chord_name (cs ! i))) dg))" for dg
    using d key smod_12_range known_7_m7 q by (auto intro: named_chord named_root)
  note n = this
  show ?thesis
    unfolding jazz_chord_def ii_V_at_def Let_def split_beta using len n by auto
qed

lemma turnaround_named:
  assumes "6 \<le> length (diatonic_chords key scale rh_scales)"
    and "list_all (\<lambda>x. \<exists>pc. named pc x) xs"
  shows "list_all (\<lambda>x. \<exists>pc. named pc x) (foldl (turnaround_at k (diatonic_chords key scale rh_scales)) xs is) \<and>
    length (foldl (turnaround_at k (diatonic_chords key scale rh_scales)) xs is) = length xs"
  using assms(2)
proof (induction "is" arbitrary: xs)
  case (Cons i "is")
  let ?ds = "diatonic_chords key scale rh_scales"
  have "1 mod length ?ds < length ?ds" using assms(1) by simp
  then have "0 \<le> dc_root_pc (?ds ! (1 mod length ?ds)) + 7" using rh_diatonic_ok(1) by fastforce
  then have "\<exists>pc. named pc (rh_chord_name ((dc_root_pc (?ds ! (1 mod length ?ds)) + 7) smod 12) ''7'')"
    using smod_12_range known_7_m7(1) by (blast intro: named_chord)
  then have "list_all (\<lambda>x. \<exists>pc. named pc x) (turnaround_at k ?ds xs i)"
    using Cons.prems set_update_subset_insert [of xs "i + 1"]
    by (fastforce simp: turnaround_at_def Let_def list_all_iff)
  moreover have "length (turnaround_at k ?ds xs i) = length xs" by (simp add: turnaround_at_def Let_def)
  ultimately show ?case using Cons.IH by simp
qed simp

lemma pedal_chord_named:
  fixes key scale
  defines "ds \<equiv> diatonic_chords key scale rh_scales"
  shows "\<exists>y. fst (pedal_chord ds c g) = [y] \<and> (\<exists>pc \<in> dc_root_pc ` set ds. named pc y)"
proof -
  have "0 < length ds" using diatonic_degrees [of key scale] unfolding ds_def by linarith
  then have "fst (rng_mod (length ds) g) < length ds" by (rule mt.draw_less)
  note d = rh_diatonic_ok [OF this [unfolded ds_def], folded ds_def] and mem = nth_mem [OF this]
  have "fst (pick [''7'', ''maj7'', ''m7''] g') \<in> set rh_known_qualities" for g'
    using pick_mem [of "[''7'', ''maj7'', ''m7'']" g'] known_7_m7 by auto
  then show ?thesis using d mem
    by (auto simp: pedal_chord_def split_beta Let_def intro!: bexI [OF _ imageI [OF mem]] named_chord)
qed

subsection \<open>What a reharmonization keeps\<close>

lemma those_roots:
  "list_all2 (\<lambda>c x. named (root_of c) x) cs xs \<Longrightarrow>
   \<exists>r. those xs = Some r \<and> list_all spellable r \<and> map root_of r = map root_of cs"
proof -
  assume *: "list_all2 (\<lambda>c x. named (root_of c) x) cs xs"
  have "\<exists>r. xs = map Some r \<and> list_all spellable r \<and> map root_of r = map root_of cs"
    using *
  proof (induction rule: list_all2_induct)
    case (Cons c cs x xs)
    then obtain r where "xs = map Some r" "list_all spellable r" "map root_of r = map root_of cs" by auto
    moreover obtain s where "x = Some s" "spellable s" "root_of s = root_of c"
      using Cons.hyps by (auto simp: named_def)
    ultimately show ?case by (intro exI [of _ "s # r"]) simp
  qed simp
  then show ?thesis by (auto simp: those_eq)
qed

lemma simple_reharm_roots:
  "list_all spellable cs \<Longrightarrow>
   \<exists>r. simple_reharm cs key scale sv g = Some r \<and> list_all spellable r \<and> map root_of r = map root_of cs"
  unfolding simple_reharm_def using simple_chord_named
  by (auto simp: list_all_iff intro!: those_roots [unfolded list_all_iff] for_each_list_all2)

lemma modal_reharm_roots:
  "list_all spellable cs \<Longrightarrow>
   \<exists>r. modal_reharm cs key scale rh_scales g = Some r \<and> list_all spellable r \<and> map root_of r = map root_of cs"
proof -
  assume cs: "list_all spellable cs"
  have "intervals_of ''major'' \<noteq> []" by (simp add: intervals_of_def kScales_def kMajor_def)
  moreover have "list_all2 (\<lambda>c x. named (root_of c) x) cs (map (modal_chord key scale rh_scales) cs)"
    using cs modal_chord_named by (auto simp: list_all2_conv_all_nth list_all_length)
  note those_roots [OF this]
  ultimately show ?thesis by (auto simp: modal_reharm_def split_beta Let_def rh_scales_eq)
qed

lemma pedal_reharm_roots:
  "\<exists>r. pedal_reharm cs key scale rh_scales g = Some r \<and> list_all spellable r \<and> length r = length cs \<and>
     root_of ` set r \<subseteq> dc_root_pc ` set (diatonic_chords key scale rh_scales)"
proof -
  let ?ds = "diatonic_chords key scale rh_scales"
  have ne: "?ds \<noteq> []" using diatonic_degrees [of key scale] by auto
  have l2: "list_all2 (\<lambda>c x. \<exists>pc \<in> dc_root_pc ` set ?ds. named pc x) cs (fst (for_each (pedal_chord ?ds) cs g))"
    by (rule for_each_list_all2) (rule pedal_chord_named)
  have "\<exists>r. those xs = Some r \<and> list_all spellable r \<and> length r = length cs \<and> root_of ` set r \<subseteq> dc_root_pc ` set ?ds"
    if "list_all2 (\<lambda>c x. \<exists>pc \<in> dc_root_pc ` set ?ds. named pc x) cs xs" for xs
    using that unfolding those_eq
  proof (induction rule: list_all2_induct)
    case (Cons c cs x xs)
    then obtain r where "xs = map Some r" "list_all spellable r" "length r = length cs"
      "root_of ` set r \<subseteq> dc_root_pc ` set ?ds" by auto
    moreover obtain s where "x = Some s" "spellable s" "root_of s \<in> dc_root_pc ` set ?ds"
      using Cons.hyps(1) unfolding named_def by blast
    ultimately show ?case by (intro exI [of _ "s # r"]) simp
  qed simp
  from this [OF l2] show ?thesis using ne by (auto simp: pedal_reharm_def Let_def)
qed

lemma chromatic_loop:
  assumes "list_all spellable cs"
  shows "\<exists>r. fst (for_each (chromatic_chord key scale sv) (enumerate n cs) g) = map Some r \<and>
    list_all spellable r \<and> subseq (map root_of cs) (map root_of r) \<and>
    length r \<le> 2 * length cs - (if n = 0 then 1 else 0)"
  using assms
proof (induction cs arbitrary: n g)
  case (Cons c cs)
  obtain pass y where py: "fst (chromatic_chord key scale sv (n, c) g) = pass @ [y]" "named (root_of c) y"
    "list_all (\<lambda>x. \<exists>pc. named pc x) pass" "length pass \<le> (if n = 0 then 0 else 1)"
    using chromatic_chord_named [of c key scale sv n g] Cons.prems by auto
  define g1 where "g1 = snd (chromatic_chord key scale sv (n, c) g)"
  obtain r where r: "fst (for_each (chromatic_chord key scale sv) (enumerate (Suc n) cs) g1) = map Some r"
    "list_all spellable r" "subseq (map root_of cs) (map root_of r)" "length r \<le> 2 * length cs"
    using Cons.IH [of "Suc n" g1] Cons.prems by auto
  obtain p where p: "pass = map Some p" "list_all spellable p" using those_named [OF py(3)] by (auto simp: those_eq)
  obtain s where s: "y = Some s" "spellable s" "root_of s = root_of c" using py(2) by (auto simp: named_def)
  have "fst (for_each (chromatic_chord key scale sv) (enumerate n (c # cs)) g) = map Some (p @ s # r)"
    using py(1) r(1) p(1) s(1) by (simp add: split_beta Let_def g1_def)
  moreover have "subseq (map root_of (c # cs)) (map root_of (p @ s # r))"
    using r(3) s(3) by (simp add: list_emb_append2)
  moreover have "length (p @ s # r) \<le> 2 * length (c # cs) - (if n = 0 then 1 else 0)"
    using py(4) r(4) p(1) by (cases "n = 0") auto
  ultimately show ?case using p(2) s(2) r(2) by (intro exI [of _ "p @ s # r"]) simp
qed simp

lemma chromatic_reharm_roots:
  "list_all spellable cs \<Longrightarrow>
   \<exists>r. chromatic_reharm cs key scale sv g = Some r \<and> list_all spellable r \<and>
     subseq (map root_of cs) (map root_of r) \<and> length r \<le> 2 * length cs - 1"
  using chromatic_loop [of cs key scale sv 0 g] by (auto simp: chromatic_reharm_def those_eq)

lemma jazz_loop:
  assumes "\<forall>i \<in> set is. spellable (cs ! i)"
  shows "list_all (\<lambda>x. \<exists>pc. named pc x) (fst (for_each (jazz_chord key scale rh_scales cs) is g)) \<and>
    length (fst (for_each (jazz_chord key scale rh_scales cs) is g)) =
      length is + length (filter (ii_V_at key scale cs) is)"
  using assms
proof (induction "is" arbitrary: g)
  case (Cons i "is")
  then show ?case
    using jazz_chord_named [of cs i key scale g] Cons.IH [of "snd (jazz_chord key scale rh_scales cs i g)"]
    by (auto simp: split_beta Let_def)
qed simp

lemma jazz_reharm_length:
  assumes "list_all spellable cs"
  shows "\<exists>r. jazz_reharm cs key scale rh_scales g = Some r \<and> list_all spellable r \<and>
    length r = length cs + length (filter (ii_V_at key scale cs) [0 ..< length cs])"
proof (cases "cs = []")
  case False
  define out where "out = fst (for_each (jazz_chord key scale rh_scales cs) [0 ..< length cs] g)"
  define fin where "fin = (if 6 \<le> length (diatonic_chords key scale rh_scales)
    then foldl (turnaround_at (mod_parse_root_pc key) (diatonic_chords key scale rh_scales)) out [0 ..< length out - 3]
    else out)"
  have out: "list_all (\<lambda>x. \<exists>pc. named pc x) out"
    "length out = length cs + length (filter (ii_V_at key scale cs) [0 ..< length cs])"
    using jazz_loop [of "[0 ..< length cs]" cs key scale g] assms by (auto simp: out_def list_all_length)
  have "list_all (\<lambda>x. \<exists>pc. named pc x) fin" "length fin = length out"
    unfolding fin_def using turnaround_named [OF _ out(1)] out(1) by auto
  moreover obtain r where "those fin = Some r" "list_all spellable r" using those_named calculation(1) by blast
  moreover have "length r = length fin" using \<open>those fin = Some r\<close> by (simp add: those_eq)
  ultimately show ?thesis
    using False out(2) by (auto simp: jazz_reharm_def Let_def fin_def out_def)
qed (simp add: jazz_reharm_def)

text \<open>
  C25. A progression whose chord names have known qualities is always reharmonized, into names that
  again have known qualities, so the result can be reharmonized again or voiced. Without bars or
  without a melody it is returned unchanged. The simple and the modal style keep every root in
  place, the chromatic style keeps the roots as a subsequence with at most one passing chord before
  each chord but the first, the pedal style takes as many chords as asked from the key's own roots,
  and the jazz style is longer by one chord for each V that resolves to I or vi.
\<close>

theorem reharmonize_correct:
  assumes "list_all spellable (rq_chords req)"
  shows "\<exists>r. reharmonize rh_scales req = Some r \<and> list_all spellable r \<and>
    (if rq_bars req < 1 \<or> rq_melody req = [] then r = rq_chords req
     else case rq_style req of
       RH_simple \<Rightarrow> map root_of r = map root_of (rq_chords req)
     | RH_modal \<Rightarrow> map root_of r = map root_of (rq_chords req)
     | RH_chromatic \<Rightarrow> subseq (map root_of (rq_chords req)) (map root_of r) \<and> length r \<le> 2 * length (rq_chords req) - 1
     | RH_pedal \<Rightarrow> length r = length (rq_chords req) \<and>
         root_of ` set r \<subseteq> dc_root_pc ` set (diatonic_chords (rq_key req) (rq_scale req) rh_scales)
     | RH_jazz \<Rightarrow> length r = length (rq_chords req) +
         length (filter (ii_V_at (rq_key req) (rq_scale req) (rq_chords req)) [0 ..< length (rq_chords req)]))"
proof (cases "rq_bars req < 1 \<or> rq_melody req = []")
  case False
  then show ?thesis
    using simple_reharm_roots [OF assms, of "rq_key req" "rq_scale req" rh_scales "mt_seed (rq_seed req)"]
      modal_reharm_roots [OF assms, of "rq_key req" "rq_scale req" "mt_seed (rq_seed req)"]
      chromatic_reharm_roots [OF assms, of "rq_key req" "rq_scale req" rh_scales "mt_seed (rq_seed req)"]
      pedal_reharm_roots [of "rq_chords req" "rq_key req" "rq_scale req" "mt_seed (rq_seed req)"]
      jazz_reharm_length [OF assms, of "rq_key req" "rq_scale req" "mt_seed (rq_seed req)"]
    by (cases "rq_style req") (simp_all add: reharmonize_def Let_def)
qed (use assms in \<open>auto simp: reharmonize_def Let_def\<close>)

theorem reharmonize_correct_witness:
  "\<exists>r. reharmonize rh_scales \<lparr>rq_melody = [make_event 0 480 60 80 0], rq_key = ''C'', rq_scale = ''major'',
      rq_chords = [''C'', ''Am'', ''Dm7'', ''G7''], rq_bars = 4, rq_bpm = 120, rq_style = RH_simple, rq_seed = 7\<rparr> = Some r \<and>
    list_all spellable r \<and> map root_of r = map root_of [''C'', ''Am'', ''Dm7'', ''G7'']"
  using reharmonize_correct [of "\<lparr>rq_melody = [make_event 0 480 60 80 0], rq_key = ''C'', rq_scale = ''major'',
      rq_chords = [''C'', ''Am'', ''Dm7'', ''G7''], rq_bars = 4, rq_bpm = 120, rq_style = RH_simple, rq_seed = 7\<rparr>"]
  by (simp add: spellable_def parse_chord_name_def rh_known_qualities_def)

text \<open>
  A chord name the engine cannot print and whose root is no degree of the key (\<open>Bb9\<close> in C major)
  makes the simple style read a dangling pointer.
\<close>

theorem simple_reharm_dangling:
  assumes "find_degree (root_of c) key scale sv = - 1" "\<not> spellable c"
  shows "simple_reharm [c] key scale sv g = None"
  using assms by (simp add: simple_reharm_def simple_chord_def split_beta Let_def spellable_def rh_chord_name_def
      rh_quality_suffix_def rh_known_qualities_def)

theorem simple_reharm_dangling_witness: "simple_reharm [''Bb9''] ''C'' ''major'' rh_scales (mt_seed 0) = None"
proof (rule simple_reharm_dangling)
  show "find_degree (root_of ''Bb9'') ''C'' ''major'' rh_scales = - 1" by code_simp
  show "\<not> spellable ''Bb9''" by code_simp
qed

subsection \<open>The modal style\<close>

lemma find_degree_nth:
  assumes "distinct (map dc_root_pc ds)" "i < length ds" "ds = diatonic_chords key scale sv"
  shows "find_degree (dc_root_pc (ds ! i)) key scale sv = int i"
proof -
  have "find (\<lambda>j. dc_root_pc (ds ! j) = dc_root_pc (ds ! i)) [0 ..< length ds] = Some i"
    unfolding find_Some_iff using assms(1,2)
    by (intro exI [of _ i]) (auto simp: distinct_conv_nth)
  then show ?thesis using assms(3) by (simp add: find_degree_def)
qed

lemma major_diatonic:
  "diatonic_chords key ''major'' rh_scales =
     map (\<lambda>i. \<lparr>dc_root_pc = intervals_for ''major'' (mod_parse_root_pc key) ! i, dc_quality = kModeQualities ! 0 ! i\<rparr>) [0 ..< 7]"
proof -
  have "(mod_parse_root_pc key + kMajor ! i) smod 12 = (kMajor ! i + mod_parse_root_pc key) mod 12" if "i < 7" for i
  proof -
    have "0 \<le> kMajor ! i" using that nth_mem [of i kMajor] by (auto simp: kMajor_def)
    then show ?thesis using mod_parse_root_pc_range [of key] by (simp add: smod_nonneg_eq add.commute)
  qed
  moreover have "intervals_of ''major'' = kMajor" "length kMajor = 7" "kMajor \<noteq> []"
    by (simp_all add: intervals_of_def kScales_def kMajor_def)
  moreover have "qualities_for_scale ''major'' = kModeQualities ! 0"
    by (simp add: qualities_for_scale_def kMajorQualities_def kModeQualities_def)
  ultimately show ?thesis by (simp add: rh_scales_eq diatonic_chords_def Let_def intervals_for_eq)
qed

lemma modal_major_chord:
  assumes "c \<in> set (diatonic_chords key ''major'' rh_scales)" "rh_chord_name (dc_root_pc c) (dc_quality c) = Some n"
  shows "modal_chord key ''major'' rh_scales n = Some n"
proof -
  let ?ds = "diatonic_chords key ''major'' rh_scales"
  obtain i where i: "i < length ?ds" "c = ?ds ! i" using assms(1) by (metis in_set_conv_nth)
  have len: "length ?ds = 7" by (simp add: major_diatonic)
  have l7: "length (intervals_for ''major'' k) = 7" for k
    by (simp add: intervals_for_eq intervals_of_def kScales_def kMajor_def)
  have "map dc_root_pc ?ds = intervals_for ''major'' (mod_parse_root_pc key)"
    by (simp add: major_diatonic comp_def map_nth l7 [symmetric, of "mod_parse_root_pc key"])
  then have dist: "distinct (map dc_root_pc ?ds)" using scales.distinct_degrees by simp
  have parse: "parse_chord_name n = (dc_root_pc c, dc_quality c)"
    using rh_chord_name_reads [of "dc_root_pc c" "dc_quality c"] rh_diatonic_ok [OF i(1)] assms(2) i(2) by auto
  have "mode_index ''major'' = 0" by (simp add: mode_index_def kModes_def upt_rec)
  moreover have "dc_quality c = kModeQualities ! 0 ! i" using i len by (simp add: major_diatonic)
  moreover have "find_degree (dc_root_pc c) key ''major'' rh_scales = int i"
    using find_degree_nth [OF dist i(1) refl] i(2) by simp
  ultimately show ?thesis using assms(2) parse i(1) len by (simp add: modal_chord_def)
qed

text \<open>
  The modal style does not change the mode: the drawn mode is never used, so in a major key every
  progression of diatonic chords comes back unchanged, whatever the seed.
\<close>

theorem modal_style_is_identity:
  assumes "rq_style req = RH_modal" "rq_scale req = ''major''"
    and "\<forall>n \<in> set (rq_chords req). \<exists>c \<in> set (diatonic_chords (rq_key req) ''major'' rh_scales).
      rh_chord_name (dc_root_pc c) (dc_quality c) = Some n"
  shows "reharmonize rh_scales req = Some (rq_chords req)"
proof -
  have "map (modal_chord (rq_key req) ''major'' rh_scales) (rq_chords req) = map Some (rq_chords req)"
    using assms(3) modal_major_chord by auto
  then have "those (map (modal_chord (rq_key req) ''major'' rh_scales) (rq_chords req)) = Some (rq_chords req)"
    by (simp only: those_eq)
  moreover have "intervals_of ''major'' \<noteq> []" by (simp add: intervals_of_def kScales_def kMajor_def)
  ultimately show ?thesis
    using assms(1,2) by (simp add: reharmonize_def modal_reharm_def Let_def split_beta rh_scales_eq)
qed

theorem modal_style_is_identity_witness:
  "reharmonize rh_scales \<lparr>rq_melody = [make_event 0 480 60 80 0], rq_key = ''C'', rq_scale = ''major'',
      rq_chords = [''C'', ''F''], rq_bars = 2, rq_bpm = 120, rq_style = RH_modal, rq_seed = 3\<rparr> = Some [''C'', ''F'']"
  (is "reharmonize _ ?req = _")
proof -
  have c: "\<lparr>dc_root_pc = 0, dc_quality = ''maj''\<rparr> \<in> set (diatonic_chords ''C'' ''major'' rh_scales)"
    and f: "\<lparr>dc_root_pc = 5, dc_quality = ''maj''\<rparr> \<in> set (diatonic_chords ''C'' ''major'' rh_scales)" by code_simp+
  have n: "rh_chord_name 0 ''maj'' = Some ''C''" "rh_chord_name 5 ''maj'' = Some ''F''" by code_simp+
  have "reharmonize rh_scales ?req = Some (rq_chords ?req)"
  proof (rule modal_style_is_identity)
    show "\<forall>x \<in> set (rq_chords ?req). \<exists>c \<in> set (diatonic_chords (rq_key ?req) ''major'' rh_scales).
      rh_chord_name (dc_root_pc c) (dc_quality c) = Some x"
      using bexI [OF _ c, of "\<lambda>d. rh_chord_name (dc_root_pc d) (dc_quality d) = Some ''C''"]
        bexI [OF _ f, of "\<lambda>d. rh_chord_name (dc_root_pc d) (dc_quality d) = Some ''F''"] n by simp
  qed simp_all
  then show ?thesis by simp
qed

subsection \<open>Voicing the progression\<close>

lemma voicing_specs_nth:
  assumes "i < length cs"
  shows "start_tick (voicing_specs cs bars ! i) = of_nat i * (1920 * word_of_int (max 1 (bars sdiv int (length cs))))"
    "duration_ticks (voicing_specs cs bars ! i) = 1920 * word_of_int (max 1 (bars sdiv int (length cs)))"
    "root_pc (voicing_specs cs bars ! i) = root_of (cs ! i)"
    "length (voicing_specs cs bars) = length cs"
  using assms by (simp_all add: voicing_specs_def Let_def kPpq_def nth_enumerate_eq split_beta)

lemma bars_per_chord:
  assumes "0 < n" "1 \<le> (bars :: int)"
  shows "n * max 1 (bars div n) \<le> n + bars" and "n dvd bars \<Longrightarrow> n * max 1 (bars div n) = bars"
proof -
  have le: "n * (bars div n) \<le> bars"
    using minus_mod_eq_mult_div [of bars n] pos_mod_sign [OF assms(1), of bars] by linarith
  then show "n * max 1 (bars div n) \<le> n + bars" using assms by (auto simp: max_def)
  assume "n dvd bars"
  then obtain m where m: "bars = n * m" by (elim dvdE)
  then have "0 < m" using assms by (simp add: zero_less_mult_iff int_one_le_iff_zero_less)
  then show "n * max 1 (bars div n) = bars" using m assms(1) by (simp add: max_def)
qed

text \<open>
  The voicing of a progression over a number of bars: the request handed to the chord engine has
  one chord per name, each on the parsed root, one after the other without gap or overlap; when the
  names divide the bars evenly the last chord ends exactly at the last bar line.
\<close>

theorem generate_voicings_layout:
  assumes "cs \<noteq> []" "1 \<le> bars" "(int (length cs) + bars) * 1920 < 2 ^ 32"
  shows "generate_voicings (snd (make_reharmonize_engine None None)) cs bars bpm sd =
      voicing \<lparr>chords = voicing_specs cs bars, req_seed = sd, req_ppq = 480\<rparr> \<and>
    length (voicing_specs cs bars) = length cs \<and>
    (\<forall>i < length cs. root_pc (voicing_specs cs bars ! i) = root_of (cs ! i) \<and>
      unat (start_tick (voicing_specs cs bars ! i)) = i * nat (1920 * max 1 (bars div int (length cs))) \<and>
      unat (start_tick (voicing_specs cs bars ! i) + duration_ticks (voicing_specs cs bars ! i)) =
        Suc i * nat (1920 * max 1 (bars div int (length cs)))) \<and>
    (int (length cs) dvd bars \<longrightarrow>
      length cs * nat (1920 * max 1 (bars div int (length cs))) = nat (bars * 1920))"
proof -
  define n where "n = int (length cs)"
  define k where "k = max 1 (bars div n)"
  have n: "0 < n" and k1: "1 \<le> k" using assms(1) by (simp_all add: n_def k_def)
  have sdiv: "bars sdiv n = bars div n" using assms(2) n by (simp add: sdiv_nonneg_eq)
  note nk = bars_per_chord [OF n assms(2), folded k_def]
  have small: "int i * (1920 * k) < 2 ^ 32" if "i \<le> length cs" for i
  proof -
    have "int i * (1920 * k) \<le> n * (1920 * k)" using that k1 by (intro mult_right_mono) (simp_all add: n_def)
    also have "\<dots> \<le> (n + bars) * 1920" using nk(1) by simp
    finally show ?thesis using assms(3) unfolding n_def by linarith
  qed
  have unat_i: "unat (of_nat i * (1920 * word_of_int k) :: u32) = i * nat (1920 * k)" if "i \<le> length cs" for i
  proof -
    have "(of_nat i * (1920 * word_of_int k) :: u32) = word_of_int (int i * (1920 * k))" by simp
    then have "unat (of_nat i * (1920 * word_of_int k) :: u32) = nat (int i * (1920 * k))"
      using unat_u32_of_int_small [of "int i * (1920 * k)"] small [OF that] k1 by simp
    then show ?thesis using k1 by (simp add: nat_mult_distrib)
  qed
  have dvd: "length cs * nat (1920 * k) = nat (bars * 1920)" if "n dvd bars"
  proof -
    have "n * k = bars" using nk(2) that by blast
    then have "int (length cs * nat (1920 * k)) = bars * 1920" using k1 by (simp add: n_def [symmetric] algebra_simps)
    then show ?thesis by (metis nat_int)
  qed
  show ?thesis
  proof (intro conjI allI impI)
    show "generate_voicings (snd (make_reharmonize_engine None None)) cs bars bpm sd =
      voicing \<lparr>chords = voicing_specs cs bars, req_seed = sd, req_ppq = 480\<rparr>"
      using assms(1) by (simp add: generate_voicings_def make_reharmonize_engine_def kPpq_def)
    show "length (voicing_specs cs bars) = length cs" using voicing_specs_nth(4) assms(1) by blast
    show "int (length cs) dvd bars \<Longrightarrow> length cs * nat (1920 * max 1 (bars div int (length cs))) = nat (bars * 1920)"
      using dvd by (simp add: n_def k_def)
    fix i assume i: "i < length cs"
    note v = voicing_specs_nth [OF i, of bars, folded n_def, unfolded sdiv, folded k_def]
    show "root_pc (voicing_specs cs bars ! i) = root_of (cs ! i)" by (rule v(3))
    show "unat (start_tick (voicing_specs cs bars ! i)) = i * nat (1920 * max 1 (bars div int (length cs)))"
      using v(1) unat_i [of i] i by (simp add: n_def k_def)
    have "(of_nat i * (1920 * word_of_int k) + 1920 * word_of_int k :: u32) = of_nat (Suc i) * (1920 * word_of_int k)"
      by (simp add: algebra_simps)
    then show "unat (start_tick (voicing_specs cs bars ! i) + duration_ticks (voicing_specs cs bars ! i)) =
        Suc i * nat (1920 * max 1 (bars div int (length cs)))"
      using v(1,2) unat_i [of "Suc i"] i by (simp only: n_def [symmetric] k_def [symmetric] Suc_le_eq)
  qed
qed

theorem generate_voicings_layout_witness:
  "unat (start_tick (voicing_specs [''C'', ''G7''] 4 ! 1)) = 3840 \<and>
   length [''C'', ''G7''] * nat (1920 * max 1 (4 div int (length [''C'', ''G7'']))) = nat (4 * 1920)"
  using generate_voicings_layout [of "[''C'', ''G7'']" 4 120 0] by force

end
