(* ===== verification/Counterpoint_Engine.thy ===== *)
theory Counterpoint_Engine
  imports Midi_Types
begin

text \<open>
  The counterpoint engine (\<open>counterpoint_engine.cpp\<close>): a line against a bass, one note per bass note
  in the first species, two in the second. The generators thread the previous note, its interval
  class and the random engine. The injected scale provider is stored and never used.
\<close>

datatype counterpoint_species = CP_first | CP_second

record counterpoint_request =
  cantus_firmus :: "int list"
  bass_notes :: "int list"
  cp_bars :: int
  cp_seed :: u64
  cp_species :: counterpoint_species
  cp_ppq :: int

definition kMinMidi :: int where "kMinMidi = 60"
definition kMaxMidi :: int where "kMaxMidi = 84"
definition kConsonantIntervals :: "int list" where "kConsonantIntervals = [0, 3, 4, 7, 8, 9]"

definition is_consonant :: "int \<Rightarrow> bool" where
  "is_consonant interval =
     (let ic = interval smod 12;
          ic = (if ic < 0 then ic + 12 else ic)
      in list_ex (\<lambda>c. ic = c) kConsonantIntervals)"

definition valid_midi_notes :: "int \<Rightarrow> int \<Rightarrow> int \<Rightarrow> int list" where
  "valid_midi_notes bass_pc min_midi max_midi =
     (let valid_pcs = map (\<lambda>c. ((bass_pc + c) smod 12 + 12) smod 12) kConsonantIntervals
      in filter (\<lambda>midi. list_ex (\<lambda>vpc. (midi smod 12 + 12) smod 12 = vpc) valid_pcs) [min_midi .. max_midi])"

definition interval_class :: "int \<Rightarrow> int \<Rightarrow> int" where
  "interval_class counter_midi bass_pc = ((counter_midi - bass_pc) smod 12 + 12) smod 12"

definition cf_direction :: "int \<Rightarrow> int \<Rightarrow> int" where
  "cf_direction prev cur = (if cur > prev then 1 else if cur < prev then - 1 else 0)"

definition choose_velocity :: "mt19937_64 \<Rightarrow> int \<times> mt19937_64" where
  "choose_velocity g = (let (r, g1) = rng_mod 41 g in (60 + int r, g1))"

text \<open>The cantus-firmus direction between positions \<open>i - 1\<close> and \<open>i\<close>, 0 past its end.\<close>

definition cf_dir_at :: "int list \<Rightarrow> nat \<Rightarrow> int" where
  "cf_dir_at cf i = (if i < length cf \<and> i > 0 then cf_direction (cf ! (i - 1)) (cf ! i) else 0)"

definition keeps_rules :: "int \<Rightarrow> int \<Rightarrow> int \<Rightarrow> int \<Rightarrow> int \<Rightarrow> bool" where
  "keeps_rules bass_pc prev_note prev_ic cf_dir c \<longleftrightarrow>
     (let ic = interval_class c bass_pc in
      if prev_ic = 7 \<and> ic = 7 \<or> prev_ic = 0 \<and> ic = 0 then False
      else if cf_dir \<noteq> 0 then cf_direction prev_note c = - cf_dir
      else True)"

definition filter_first_species ::
  "int list \<Rightarrow> int \<Rightarrow> nat \<Rightarrow> nat \<Rightarrow> int \<Rightarrow> int \<Rightarrow> int list \<Rightarrow> int list" where
  "filter_first_species candidates bass_pc i n prev_note prev_ic cf =
     (if candidates = [] then candidates
      else if i = 0 \<or> i = n - 1
      then let perfect = filter (\<lambda>c. let ic = interval_class c bass_pc in ic = 0 \<or> ic = 12) candidates
           in if perfect \<noteq> [] then perfect else candidates
      else if prev_note \<ge> 0
      then let filtered = filter (keeps_rules bass_pc prev_note prev_ic (cf_dir_at cf i)) candidates
           in if filtered \<noteq> [] then filtered else candidates
      else candidates)"

definition fallback_octave :: "int \<Rightarrow> int" where
  "fallback_octave bass_pc =
     (let octave = kMinMidi + (bass_pc - kMinMidi smod 12 + 12) smod 12;
          octave = (if octave < kMinMidi then octave + 12 else octave)
      in if octave > kMaxMidi then octave - 12 else octave)"

text \<open>The choice among candidates: a draw, or the fallback when there is none.\<close>

definition choose_from :: "int list \<Rightarrow> int \<Rightarrow> mt19937_64 \<Rightarrow> int \<times> mt19937_64" where
  "choose_from candidates bass_pc g =
     (if candidates = [] then (fallback_octave bass_pc, g)
      else let (r, g1) = rng_mod (length candidates) g in (candidates ! r, g1))"

type_synonym cp_state = "int \<times> int \<times> mt19937_64"

text \<open>\<open>out.push_back(make_note(...))\<close> with the casts of the source, and the state for the next note.\<close>

definition push_note :: "int \<Rightarrow> int \<Rightarrow> int \<Rightarrow> int \<Rightarrow> mt19937_64 \<Rightarrow> midi_event list \<times> cp_state" where
  "push_note tick dur chosen bass_pc g =
     (let (vel, g1) = choose_velocity g
      in ([make_event (word_of_int tick) (word_of_int (tick + dur)) (word_of_int chosen) (word_of_int vel) 0],
          (chosen, interval_class chosen bass_pc, g1)))"

definition strong_note ::
  "counterpoint_request \<Rightarrow> nat \<Rightarrow> int \<Rightarrow> int \<Rightarrow> cp_state \<Rightarrow> midi_event list \<times> cp_state" where
  "strong_note req i tick dur = (\<lambda>(prev_note, prev_ic, g).
     let bass_pc = bass_notes req ! i;
         candidates = valid_midi_notes bass_pc kMinMidi kMaxMidi;
         candidates = filter_first_species candidates bass_pc i (length (bass_notes req)) prev_note prev_ic
                        (cantus_firmus req);
         (chosen, g1) = choose_from candidates bass_pc g
     in push_note tick dur chosen bass_pc g1)"

definition generate_first_species ::
  "counterpoint_request \<Rightarrow> int \<Rightarrow> mt19937_64 \<Rightarrow> midi_event list" where
  "generate_first_species req slot_ticks g =
     fst (for_each (\<lambda>i. strong_note req i (int i * slot_ticks) (slot_ticks - 5))
       [0 ..< length (bass_notes req)] (- 1, - 1, g))"

definition passing_tones :: "int \<Rightarrow> int \<Rightarrow> int \<Rightarrow> int list" where
  "passing_tones bass_pc prev_note direction =
     filter (\<lambda>pt. (pt \<ge> kMinMidi \<and> pt \<le> kMaxMidi) \<and>
        (is_consonant (interval_class pt bass_pc) \<or>
         (let pt_pc = (pt smod 12 + 12) smod 12;
              bass_pc_norm = (bass_pc smod 12 + 12) smod 12;
              diff = (pt_pc - bass_pc_norm + 12) smod 12
          in diff = 1 \<or> diff = 2 \<or> diff = 5)))
       (map (\<lambda>step. prev_note + direction * step) [1, 2, 3])"

definition weak_note ::
  "counterpoint_request \<Rightarrow> nat \<Rightarrow> int \<Rightarrow> int \<Rightarrow> cp_state \<Rightarrow> midi_event list \<times> cp_state" where
  "weak_note req i tick dur = (\<lambda>(prev_note, prev_ic, g).
     let bass_pc = bass_notes req ! i;
         (r, g1) = rng_mod 2 g;
         direction = (if r = 0 then 1 else - 1);
         passing = passing_tones bass_pc prev_note direction;
         (chosen, g2) = (if passing = [] then choose_from (valid_midi_notes bass_pc kMinMidi kMaxMidi) bass_pc g1
                         else choose_from passing bass_pc g1)
     in push_note tick dur chosen bass_pc g2)"

definition generate_second_species ::
  "counterpoint_request \<Rightarrow> int \<Rightarrow> mt19937_64 \<Rightarrow> midi_event list" where
  "generate_second_species req slot_ticks g =
     (let sub_slot = slot_ticks sdiv 2;
          dur = sub_slot - 5
      in fst (for_each (\<lambda>i st.
            let base_tick = int i * slot_ticks;
                (e0, st1) = strong_note req i (base_tick + 0 * sub_slot) dur st;
                (e1, st2) = weak_note req i (base_tick + 1 * sub_slot) dur st1
            in (e0 @ e1, st2))
          [0 ..< length (bass_notes req)] (- 1, - 1, g)))"

definition counterpoint_generate :: "counterpoint_request \<Rightarrow> midi_event list" where
  "counterpoint_generate req =
     (if bass_notes req = [] \<or> cantus_firmus req = [] then []
      else let g = mt_seed (cp_seed req);
               n = length (bass_notes req);
               total_ticks = cp_bars req * cp_ppq req * 4;
               slot_ticks = total_ticks sdiv int n
           in case cp_species req of
                CP_first \<Rightarrow> generate_first_species req slot_ticks g
              | CP_second \<Rightarrow> generate_second_species req slot_ticks g)"

subsection \<open>Candidates\<close>

definition consonant :: "int \<Rightarrow> int \<Rightarrow> bool" where
  "consonant c bass \<longleftrightarrow> (c - bass) mod 12 \<in> {0, 3, 4, 7, 8, 9}"

lemma interval_class_eq: "interval_class c b = (c - b) mod 12"
  by (simp add: interval_class_def norm_mod_idiom)

lemma is_consonant_eq: "is_consonant (interval_class c b) \<longleftrightarrow> consonant c b"
  by (auto simp: is_consonant_def interval_class_eq smod_nonneg_eq Let_def kConsonantIntervals_def consonant_def)

lemma mod12_shift: "m mod 12 = (b + c) mod 12 \<longleftrightarrow> (m - b) mod 12 = c mod (12 :: int)"
  by (simp add: mod_eq_dvd_iff diff_diff_eq)

lemma valid_notes_iff:
  "c \<in> set (valid_midi_notes b lo hi) \<longleftrightarrow> lo \<le> c \<and> c \<le> hi \<and> consonant c b"
  using mod12_shift [of c b 0]
  by (auto simp: valid_midi_notes_def norm_mod_idiom kConsonantIntervals_def consonant_def mod12_shift)

lemma unison_exists: "\<exists>c. 60 \<le> c \<and> c \<le> 84 \<and> (c - b) mod 12 = (0 :: int) \<and> consonant c b"
proof (intro exI conjI)
  show "60 \<le> 60 + (b - 60) mod 12" by simp
  have "(b - 60) mod 12 < 12" by simp
  then show "60 + (b - 60) mod 12 \<le> 84" by linarith
  have "(60 + (b - 60) mod 12 - b) mod 12 = (60 + (b - 60) - b) mod 12"
    by (metis mod_add_right_eq mod_diff_left_eq)
  then show *: "(60 + (b - 60) mod 12 - b) mod 12 = 0" by simp
  show "consonant (60 + (b - 60) mod 12) b" by (simp only: consonant_def * insert_iff simp_thms)
qed

abbreviation cands :: "int \<Rightarrow> int list" where
  "cands b \<equiv> valid_midi_notes b kMinMidi kMaxMidi"

lemma cands_iff: "c \<in> set (cands b) \<longleftrightarrow> 60 \<le> c \<and> c \<le> 84 \<and> consonant c b"
  by (simp add: valid_notes_iff kMinMidi_def kMaxMidi_def)

lemma cands_nonempty: "cands b \<noteq> []"
proof -
  obtain c where "60 \<le> c \<and> c \<le> 84 \<and> consonant c b" using unison_exists by blast
  then have "c \<in> set (cands b)" unfolding cands_iff .
  then show ?thesis by (rule contrapos_pn) (simp only: list.set empty_iff not_False_eq_True)
qed

subsection \<open>The choice of a note\<close>

text \<open>
  What the first species asks of note \<open>c\<close> at position \<open>i\<close> of \<open>n\<close>, after \<open>prev\<close>: the first and the
  last note are a unison or octave with the bass; in between, no second perfect consonance of the
  same kind in a row and motion contrary to the cantus firmus, whenever some consonant note of the
  range would satisfy that.
\<close>

definition first_species_rule :: "counterpoint_request \<Rightarrow> nat \<Rightarrow> int \<Rightarrow> int \<Rightarrow> int \<Rightarrow> bool" where
  "first_species_rule req i prev_note prev_ic c \<longleftrightarrow>
     (let b = bass_notes req ! i; n = length (bass_notes req);
          good = keeps_rules b prev_note prev_ic (cf_dir_at (cantus_firmus req) i) in
      c \<in> set (cands b) \<and> (i = 0 \<or> i = n - 1 \<longrightarrow> (c - b) mod 12 = 0) \<and>
      (\<not> (i = 0 \<or> i = n - 1) \<and> prev_note \<ge> 0 \<and> (\<exists>d \<in> set (cands b). good d) \<longrightarrow> good c))"

lemma filter_first_species_rule:
  assumes "c \<in> set (filter_first_species (cands (bass_notes req ! i)) (bass_notes req ! i) i
    (length (bass_notes req)) pn pi (cantus_firmus req))"
  shows "first_species_rule req i pn pi c"
proof -
  define b where "b = bass_notes req ! i"
  define good where "good = keeps_rules b pn pi (cf_dir_at (cantus_firmus req) i)"
  define perfect where "perfect c \<longleftrightarrow> (let ic = interval_class c b in ic = 0 \<or> ic = 12)" for c
  have perfect: "perfect c \<longleftrightarrow> (c - b) mod 12 = 0" for c
    using pos_mod_bound [of 12 "c - b"] unfolding perfect_def interval_class_eq Let_def by linarith
  obtain u where u: "60 \<le> u" "u \<le> 84" "(u - b) mod 12 = 0" "consonant u b" using unison_exists [of b] by (elim exE conjE)
  then have "u \<in> set (cands b)" unfolding cands_iff by blast
  then have ne: "filter perfect (cands b) \<noteq> []" using u(3) perfect by (metis (no_types, lifting) filter_empty_conv)
  have good_iff: "filter good (cands b) \<noteq> [] \<longleftrightarrow> (\<exists>d \<in> set (cands b). good d)" by (simp add: filter_empty_conv)
  show ?thesis
  proof (cases "i = 0 \<or> i = length (bass_notes req) - 1")
    case True
    then have "c \<in> set (filter perfect (cands b))"
      using assms ne cands_nonempty [of b] unfolding filter_first_species_def b_def [symmetric] perfect_def Let_def
      by (simp only: if_True if_False simp_thms)
    then show ?thesis
      using True unfolding first_species_rule_def b_def [symmetric] Let_def set_filter mem_Collect_eq perfect by blast
  next
    case False
    then have "c \<in> set (if pn \<ge> 0 then if filter good (cands b) \<noteq> [] then filter good (cands b) else cands b else cands b)"
      using assms cands_nonempty [of b] unfolding filter_first_species_def b_def [symmetric] good_def Let_def
      by (simp only: if_True if_False simp_thms)
    then have "c \<in> set (cands b)" "pn \<ge> 0 \<and> filter good (cands b) \<noteq> [] \<longrightarrow> good c"
      by (auto split: if_splits)
    then show ?thesis
      using False good_iff unfolding first_species_rule_def b_def [symmetric] good_def [symmetric] Let_def by blast
  qed
qed

lemma filter_first_species_nonempty: "xs \<noteq> [] \<Longrightarrow> filter_first_species xs b i n pn pi cf \<noteq> []"
  by (simp add: filter_first_species_def Let_def)

lemma choose_from_mem: "xs \<noteq> [] \<Longrightarrow> fst (choose_from xs b g) \<in> set xs"
  using mt.draw_nth [of xs g] by (simp add: choose_from_def split_beta Let_def)

text \<open>A pushed note: its fields read back without wrap-around for a chosen note of the range.\<close>

definition pushed_note :: "int \<Rightarrow> int \<Rightarrow> int \<Rightarrow> midi_event \<Rightarrow> bool" where
  "pushed_note tick dur c e \<longleftrightarrow>
     tick_on e = word_of_int tick \<and> tick_off e = word_of_int (tick + dur) \<and> unat (note_no e) = nat c \<and>
     vel_in 60 100 e \<and> channel e = 0"

lemma push_note_ok:
  assumes "60 \<le> c" "c \<le> 84"
  shows "\<exists>e g'. push_note tick dur c b g = ([e], c, interval_class c b, g') \<and> pushed_note tick dur c e"
proof -
  have "60 + int (fst (rng_mod 41 g)) < 101" using mt.draw_less [of 41 g] by simp
  then have "unat (word_of_int (60 + int (fst (rng_mod 41 g))) :: u8) = 60 + fst (rng_mod 41 g)"
    by (subst unat_u8_of_int_small) simp_all
  moreover have "fst (rng_mod 41 g) < 41" using mt.draw_less [of 41 g] by simp
  ultimately show ?thesis
    using assms by (auto simp: push_note_def choose_velocity_def split_beta Let_def pushed_note_def word_cast)
qed

lemma strong_note_ok:
  "\<exists>c e g'. strong_note req i tick dur (pn, pi, g) = ([e], c, interval_class c (bass_notes req ! i), g') \<and>
     pushed_note tick dur c e \<and> first_species_rule req i pn pi c"
proof -
  define b where "b = bass_notes req ! i"
  define fs where "fs = filter_first_species (cands b) b i (length (bass_notes req)) pn pi (cantus_firmus req)"
  have "fst (choose_from fs b g) \<in> set fs"
    unfolding fs_def by (intro choose_from_mem filter_first_species_nonempty cands_nonempty)
  then have r: "first_species_rule req i pn pi (fst (choose_from fs b g))"
    unfolding fs_def b_def by (rule filter_first_species_rule)
  then have "60 \<le> fst (choose_from fs b g)" "fst (choose_from fs b g) \<le> 84"
    by (simp_all add: first_species_rule_def cands_iff Let_def)
  from push_note_ok [OF this, of tick dur b "snd (choose_from fs b g)"] r show ?thesis
    by (auto simp: strong_note_def split_beta Let_def fs_def b_def)
qed

lemma passing_tones_iff:
  assumes "c \<in> set (passing_tones b pn d)"
  shows "60 \<le> c" "c \<le> 84" "consonant c b \<or> (c - b) mod 12 \<in> {1, 2, 5}"
    "c \<in> {pn + d, pn + d * 2, pn + d * 3}"
proof -
  have "0 \<le> c mod 12 - b mod 12 + 12" using pos_mod_bound [of 12 b] pos_mod_sign [of 12 c] by linarith
  then have "(c mod 12 - b mod 12 + 12) smod 12 = (c - b) mod 12" by (simp add: smod_nonneg_eq mod_diff_eq)
  with assms show "60 \<le> c" "c \<le> 84" "consonant c b \<or> (c - b) mod 12 \<in> {1, 2, 5}"
    unfolding passing_tones_def set_filter mem_Collect_eq is_consonant_eq norm_mod_idiom [OF zero_less_numeral] Let_def
    by (simp_all add: kMinMidi_def kMaxMidi_def)
  show "c \<in> {pn + d, pn + d * 2, pn + d * 3}" using assms unfolding passing_tones_def set_filter by simp
qed

lemma weak_note_ok:
  "\<exists>c e st. weak_note req i tick dur (pn, pi, g) = ([e], c, interval_class c (bass_notes req ! i), st) \<and>
     pushed_note tick dur c e \<and> 60 \<le> c \<and> c \<le> 84 \<and>
     (consonant c (bass_notes req ! i) \<or> (c - bass_notes req ! i) mod 12 \<in> {1, 2, 5} \<and> \<bar>c - pn\<bar> \<le> 3)"
proof -
  define b where "b = bass_notes req ! i"
  define d where "d = (if fst (rng_mod 2 g) = 0 then 1 else - 1 :: int)"
  define ps where "ps = passing_tones b pn d"
  define xs where "xs = (if ps = [] then cands b else ps)"
  define g1 where "g1 = snd (rng_mod 2 g)"
  define c where "c = fst (choose_from xs b g1)"
  have "c \<in> set xs" unfolding c_def by (rule choose_from_mem) (simp add: xs_def cands_nonempty)
  then have ok: "60 \<le> c" "c \<le> 84" "consonant c b \<or> (c - b) mod 12 \<in> {1, 2, 5} \<and> \<bar>c - pn\<bar> \<le> 3"
    using passing_tones_iff [of c b pn d, folded ps_def] by (auto simp: xs_def d_def cands_iff split: if_splits)
  have "weak_note req i tick dur (pn, pi, g) = push_note tick dur c b (snd (choose_from xs b g1))"
    by (simp add: weak_note_def split_beta Let_def b_def d_def ps_def xs_def g1_def c_def)
  with push_note_ok [OF ok(1,2), of tick dur b "snd (choose_from xs b g1)"] ok show ?thesis
    by (auto simp: b_def)
qed

subsection \<open>The two species\<close>

text \<open>
  A line of notes as a chain: each position relates the state before it, what it pushed and the
  state after it. A pushing loop whose body satisfies \<open>R\<close> produces a chain.
\<close>

fun chained :: "(nat \<Rightarrow> int \<times> int \<Rightarrow> 'e \<Rightarrow> int \<times> int \<Rightarrow> bool) \<Rightarrow> nat \<Rightarrow> int \<times> int \<Rightarrow> 'e list \<Rightarrow> bool" where
  "chained R k p [] = True"
| "chained R k p (e # es) = (\<exists>p'. R k p e p' \<and> chained R (Suc k) p' es)"

definition first_step ::
  "counterpoint_request \<Rightarrow> int \<Rightarrow> nat \<Rightarrow> int \<times> int \<Rightarrow> midi_event \<times> int \<Rightarrow> int \<times> int \<Rightarrow> bool" where
  "first_step req slot i p x p' \<longleftrightarrow>
     pushed_note (int i * slot) (slot - 5) (snd x) (fst x) \<and> first_species_rule req i (fst p) (snd p) (snd x) \<and>
     p' = (snd x, interval_class (snd x) (bass_notes req ! i))"

lemma first_loop:
  fixes req slot
  defines "loop \<equiv> for_each (\<lambda>i. strong_note req i (int i * slot) (slot - 5))"
  shows "\<exists>cs. length cs = m \<and> length (fst (loop [k ..< k + m] (pn, pi, g))) = m \<and>
    chained (first_step req slot) k (pn, pi) (zip (fst (loop [k ..< k + m] (pn, pi, g))) cs)"
proof (induction m arbitrary: k pn pi g)
  case (Suc m)
  obtain c e g' where s: "strong_note req k (int k * slot) (slot - 5) (pn, pi, g) =
      ([e], c, interval_class c (bass_notes req ! k), g')"
    and ok: "pushed_note (int k * slot) (slot - 5) c e" "first_species_rule req k pn pi c"
    using strong_note_ok by blast
  let ?rest = "fst (loop [Suc k ..< Suc k + m] (c, interval_class c (bass_notes req ! k), g'))"
  obtain cs where cs: "length cs = m" "length ?rest = m"
    "chained (first_step req slot) (Suc k) (c, interval_class c (bass_notes req ! k)) (zip ?rest cs)"
    using Suc.IH by blast
  have "[k ..< k + Suc m] = k # [Suc k ..< Suc k + m]" by (simp add: upt_conv_Cons del: upt_Suc)
  then have "fst (loop [k ..< k + Suc m] (pn, pi, g)) = e # ?rest"
    using s by (simp add: loop_def split_beta Let_def del: upt_Suc)
  moreover have "first_step req slot k (pn, pi) (e, c) (c, interval_class c (bass_notes req ! k))"
    using ok by (simp add: first_step_def)
  ultimately show ?case using cs by (intro exI [of _ "c # cs"]) (auto simp del: upt_Suc)
qed (simp add: loop_def)

lemma chained_nth:
  assumes "chained R k p xs" "i < length xs" "\<And>k p x p'. R k p x p' \<Longrightarrow> p' = f k x"
  shows "\<exists>p'. R (k + i) (if i = 0 then p else f (k + i - 1) (xs ! (i - 1))) (xs ! i) p'"
  using assms(1,2)
proof (induction xs arbitrary: k p i)
  case (Cons x xs)
  obtain p' where p': "R k p x p'" "chained R (Suc k) p' xs" using Cons.prems(1) by auto
  show ?case
  proof (cases i)
    case (Suc j)
    then show ?thesis
      using Cons.IH [OF p'(2), of j] Cons.prems(2) assms(3) [OF p'(1)] by (cases j) auto
  next
    case 0
    then show ?thesis using p'(1) by (intro exI [of _ p']) simp
  qed
qed simp

text \<open>The line note by note, with the state the generator threads read back from the notes before.\<close>

lemma first_species_line:
  fixes req
  assumes "bass_notes req \<noteq> []" "cantus_firmus req \<noteq> []" "cp_species req = CP_first"
  defines "out \<equiv> counterpoint_generate req"
    and "slot \<equiv> (cp_bars req * cp_ppq req * 4) sdiv int (length (bass_notes req))"
  defines "pitch \<equiv> \<lambda>i. int (unat (note_no (out ! i)))"
  shows "length out = length (bass_notes req) \<and>
    (\<forall>i < length out.
      pushed_note (int i * slot) (slot - 5) (pitch i) (out ! i) \<and>
      first_species_rule req i (if i = 0 then - 1 else pitch (i - 1))
        (if i = 0 then - 1 else interval_class (pitch (i - 1)) (bass_notes req ! (i - 1))) (pitch i))"
proof -
  have out: "out = fst (for_each (\<lambda>i. strong_note req i (int i * slot) (slot - 5))
      [0 ..< 0 + length (bass_notes req)] (- 1, - 1, mt_seed (cp_seed req)))"
    using assms(1,2,3) by (simp add: out_def slot_def counterpoint_generate_def generate_first_species_def Let_def)
  obtain cs where cs: "length cs = length (bass_notes req)" "length out = length (bass_notes req)"
    "chained (first_step req slot) 0 (- 1, - 1) (zip out cs)"
    using first_loop [where k = 0 and m = "length (bass_notes req)" and pn = "- 1" and pi = "- 1"
      and req = req and slot = slot and g = "mt_seed (cp_seed req)", folded out] by blast
  have step: "pushed_note (int i * slot) (slot - 5) (cs ! i) (out ! i) \<and>
      first_species_rule req i (if i = 0 then - 1 else cs ! (i - 1))
        (if i = 0 then - 1 else interval_class (cs ! (i - 1)) (bass_notes req ! (i - 1))) (cs ! i)"
    if "i < length out" for i
  proof -
    have "\<exists>p'. first_step req slot (0 + i) (if i = 0 then (- 1, - 1) else
        (\<lambda>k x. (snd x, interval_class (snd x) (bass_notes req ! k))) (0 + i - 1) (zip out cs ! (i - 1))) (zip out cs ! i) p'"
      using that cs by (intro chained_nth [OF cs(3)]) (auto simp: first_step_def)
    then show ?thesis using that cs by (cases "i = 0") (simp_all add: first_step_def)
  qed
  have pitch: "pitch i = cs ! i" if "i < length out" for i
  proof -
    have "60 \<le> cs ! i" using step [OF that] by (simp add: first_species_rule_def cands_iff Let_def)
    moreover have "unat (note_no (out ! i)) = nat (cs ! i)" using step [OF that] by (simp only: pushed_note_def)
    ultimately show ?thesis unfolding pitch_def by (simp only: int_nat_eq if_True) simp
  qed
  show ?thesis
  proof (intro conjI allI impI cs(2))
    fix i assume i: "i < length out"
    show "pushed_note (int i * slot) (slot - 5) (pitch i) (out ! i)" using step [OF i] pitch [OF i] by simp
    have "pitch (i - 1) = cs ! (i - 1)" using pitch [of "i - 1"] i by simp
    then show "first_species_rule req i (if i = 0 then - 1 else pitch (i - 1))
        (if i = 0 then - 1 else interval_class (pitch (i - 1)) (bass_notes req ! (i - 1))) (pitch i)"
      using step [OF i] pitch [OF i] by (simp only: simp_thms)
  qed
qed

text \<open>
  The rules of the first species on two neighbouring notes, \<open>p\<close> over bass note \<open>i - 1\<close> and \<open>c\<close> over
  bass note \<open>i\<close>: no two fifths and no two octaves (or unisons) in a row, and where the cantus firmus
  rises the line falls, where it falls the line rises.
\<close>

definition follows :: "int list \<Rightarrow> int list \<Rightarrow> nat \<Rightarrow> int \<Rightarrow> int \<Rightarrow> bool" where
  "follows bass cf i p c \<longleftrightarrow>
     \<not> ((p - bass ! (i - 1)) mod 12 = 7 \<and> (c - bass ! i) mod 12 = 7) \<and>
     \<not> ((p - bass ! (i - 1)) mod 12 = 0 \<and> (c - bass ! i) mod 12 = 0) \<and>
     (i < length cf \<longrightarrow> (cf ! (i - 1) < cf ! i \<longrightarrow> c < p) \<and> (cf ! i < cf ! (i - 1) \<longrightarrow> p < c))"

lemma keeps_rules_follows:
  "keeps_rules (bass ! Suc j) p (interval_class p (bass ! j)) (cf_dir_at cf (Suc j)) c \<longleftrightarrow>
   follows bass cf (Suc j) p c"
  by (auto simp: keeps_rules_def follows_def interval_class_eq cf_dir_at_def cf_direction_def Let_def)

text \<open>
  C26. The first species, for any seed: one note per bass note, at that note's slot, with velocity 60 to
  100. Every note lies between C4 (60) and C6 (84) and is a unison, third, fifth, sixth or
  octave (0, 3, 4, 7, 8 or 9 semitones, up to octaves) above its bass note; the first and the last
  are a unison or octave. In between a note follows the one before it by the rules, no repeated
  fifths or octaves and motion against the cantus firmus, whenever some consonant note of the range
  would do so.
\<close>

theorem first_species_correct:
  fixes req
  assumes "bass_notes req \<noteq> []" "cantus_firmus req \<noteq> []" "cp_species req = CP_first"
  defines "out \<equiv> counterpoint_generate req"
    and "slot \<equiv> (cp_bars req * cp_ppq req * 4) sdiv int (length (bass_notes req))"
  defines "pitch \<equiv> \<lambda>i. int (unat (note_no (out ! i)))"
  shows "length out = length (bass_notes req) \<and>
    (\<forall>i < length out.
      pushed_note (int i * slot) (slot - 5) (pitch i) (out ! i) \<and>
      60 \<le> pitch i \<and> pitch i \<le> 84 \<and>
      (pitch i - bass_notes req ! i) mod 12 \<in> {0, 3, 4, 7, 8, 9} \<and>
      (i = 0 \<or> i = length out - 1 \<longrightarrow> (pitch i - bass_notes req ! i) mod 12 = 0) \<and>
      (0 < i \<and> i < length out - 1 \<and>
       (\<exists>d. 60 \<le> d \<and> d \<le> 84 \<and> (d - bass_notes req ! i) mod 12 \<in> {0, 3, 4, 7, 8, 9} \<and>
            follows (bass_notes req) (cantus_firmus req) i (pitch (i - 1)) d) \<longrightarrow>
       follows (bass_notes req) (cantus_firmus req) i (pitch (i - 1)) (pitch i)))"
proof -
  have p: "int (unat (note_no (out ! k))) = pitch k" for k by (simp only: pitch_def)
  note line = first_species_line [OF assms(1-3), folded out_def slot_def, unfolded p]
  have mem: "c \<in> set (cands b) \<longleftrightarrow> 60 \<le> c \<and> c \<le> 84 \<and> (c - b) mod 12 \<in> {0, 3, 4, 7, 8, 9}" for c b
    by (simp only: cands_iff consonant_def)
  have "0 \<le> pitch k" for k by (simp add: pitch_def)
  then have "first_species_rule req i (if i = 0 then - 1 else pitch (i - 1))
        (if i = 0 then - 1 else interval_class (pitch (i - 1)) (bass_notes req ! (i - 1))) c \<Longrightarrow>
      c \<in> set (cands (bass_notes req ! i)) \<and>
      (i = 0 \<or> i = length (bass_notes req) - 1 \<longrightarrow> (c - bass_notes req ! i) mod 12 = 0) \<and>
      (0 < i \<and> i < length (bass_notes req) - 1 \<and> (\<exists>d \<in> set (cands (bass_notes req ! i)).
           follows (bass_notes req) (cantus_firmus req) i (pitch (i - 1)) d) \<longrightarrow>
       follows (bass_notes req) (cantus_firmus req) i (pitch (i - 1)) c)" for i c
    by (cases i) (simp_all add: first_species_rule_def Let_def keeps_rules_follows)
  note rule = this [unfolded mem Bex_def]
  show ?thesis
  proof (intro conjI)
    show len: "length out = length (bass_notes req)" using line by (rule conjunct1)
    show "\<forall>i < length out.
      pushed_note (int i * slot) (slot - 5) (pitch i) (out ! i) \<and>
      60 \<le> pitch i \<and> pitch i \<le> 84 \<and>
      (pitch i - bass_notes req ! i) mod 12 \<in> {0, 3, 4, 7, 8, 9} \<and>
      (i = 0 \<or> i = length out - 1 \<longrightarrow> (pitch i - bass_notes req ! i) mod 12 = 0) \<and>
      (0 < i \<and> i < length out - 1 \<and>
       (\<exists>d. 60 \<le> d \<and> d \<le> 84 \<and> (d - bass_notes req ! i) mod 12 \<in> {0, 3, 4, 7, 8, 9} \<and>
            follows (bass_notes req) (cantus_firmus req) i (pitch (i - 1)) d) \<longrightarrow>
       follows (bass_notes req) (cantus_firmus req) i (pitch (i - 1)) (pitch i))"
      unfolding len
    proof (intro allI impI)
      fix i assume "i < length (bass_notes req)"
      then have "pushed_note (int i * slot) (slot - 5) (pitch i) (out ! i)"
        and "first_species_rule req i (if i = 0 then - 1 else pitch (i - 1))
          (if i = 0 then - 1 else interval_class (pitch (i - 1)) (bass_notes req ! (i - 1))) (pitch i)"
        using line by simp_all
      with rule [of i "pitch i"] show "pushed_note (int i * slot) (slot - 5) (pitch i) (out ! i) \<and>
          60 \<le> pitch i \<and> pitch i \<le> 84 \<and>
          (pitch i - bass_notes req ! i) mod 12 \<in> {0, 3, 4, 7, 8, 9} \<and>
          (i = 0 \<or> i = length (bass_notes req) - 1 \<longrightarrow> (pitch i - bass_notes req ! i) mod 12 = 0) \<and>
          (0 < i \<and> i < length (bass_notes req) - 1 \<and>
           (\<exists>d. 60 \<le> d \<and> d \<le> 84 \<and> (d - bass_notes req ! i) mod 12 \<in> {0, 3, 4, 7, 8, 9} \<and>
                follows (bass_notes req) (cantus_firmus req) i (pitch (i - 1)) d) \<longrightarrow>
           follows (bass_notes req) (cantus_firmus req) i (pitch (i - 1)) (pitch i))"
        by (metis (no_types, lifting))
    qed
  qed
qed

theorem first_species_correct_witness:
  "let req = \<lparr>cantus_firmus = [60, 62, 60], bass_notes = [0, 7, 0], cp_bars = 3, cp_seed = 11,
      cp_species = CP_first, cp_ppq = 480\<rparr>; out = counterpoint_generate req in
   length out = 3 \<and> int (unat (note_no (out ! 2))) mod 12 = 0 \<and> pushed_note 1920 1915 (int (unat (note_no (out ! 1)))) (out ! 1)"
proof -
  define req where "req = \<lparr>cantus_firmus = [60, 62, 60], bass_notes = [0, 7, 0], cp_bars = 3, cp_seed = 11,
      cp_species = CP_first, cp_ppq = 480\<rparr>"
  have r: "bass_notes req \<noteq> []" "cantus_firmus req \<noteq> []" "cp_species req = CP_first" by (simp_all add: req_def)
  have l: "length (bass_notes req) = 3" "(cp_bars req * cp_ppq req * 4) sdiv int 3 = 1920"
    by (simp_all add: req_def sdiv_nonneg_eq)
  note f = first_species_correct [OF r, unfolded l]
  have len: "length (counterpoint_generate req) = 3" using f by blast
  then have "1 < length (counterpoint_generate req)" by simp
  then have "pushed_note (int 1 * 1920) (1920 - 5) (int (unat (note_no (counterpoint_generate req ! 1))))
    (counterpoint_generate req ! 1)" using f by blast
  moreover have "(int (unat (note_no (counterpoint_generate req ! 2))) - bass_notes req ! 2) mod 12 = 0"
    using f len by (metis One_nat_def diff_Suc_1 lessI numeral_2_eq_2 numeral_3_eq_3)
  then have "int (unat (note_no (counterpoint_generate req ! 2))) mod 12 = 0" by (simp add: req_def)
  ultimately show ?thesis using len unfolding req_def [symmetric] Let_def by simp
qed

text \<open>What the second species puts over bass note \<open>i\<close>.\<close>

definition second_species_pair :: "counterpoint_request \<Rightarrow> int \<Rightarrow> nat \<Rightarrow> midi_event list \<Rightarrow> bool" where
  "second_species_pair req slot i block \<longleftrightarrow>
     (\<exists>c d e f. block = [e, f] \<and>
        pushed_note (int i * slot) (slot sdiv 2 - 5) c e \<and> c \<in> set (cands (bass_notes req ! i)) \<and>
        (i = 0 \<or> i = length (bass_notes req) - 1 \<longrightarrow> (c - bass_notes req ! i) mod 12 = 0) \<and>
        pushed_note (int i * slot + slot sdiv 2) (slot sdiv 2 - 5) d f \<and> 60 \<le> d \<and> d \<le> 84 \<and>
        (consonant d (bass_notes req ! i) \<or> (d - bass_notes req ! i) mod 12 \<in> {1, 2, 5} \<and> \<bar>d - c\<bar> \<le> 3))"

lemma second_pair_ok:
  fixes req slot
  defines "sub \<equiv> slot sdiv 2"
  shows "second_species_pair req slot i
    (fst (strong_note req i (int i * slot) (sub - 5) st) @
     fst (weak_note req i (int i * slot + sub) (sub - 5) (snd (strong_note req i (int i * slot) (sub - 5) st))))"
proof -
  obtain pn pi g where st: "st = (pn, pi, g)" by (cases st) auto
  obtain c e g' where s: "strong_note req i (int i * slot) (sub - 5) st = ([e], c, interval_class c (bass_notes req ! i), g')"
    and c: "pushed_note (int i * slot) (sub - 5) c e" "first_species_rule req i pn pi c"
    using strong_note_ok [of req i "int i * slot" "sub - 5" pn pi g] unfolding st by (elim exE conjE)
  obtain d f g'' where w: "weak_note req i (int i * slot + sub) (sub - 5)
      (c, interval_class c (bass_notes req ! i), g') = ([f], d, interval_class d (bass_notes req ! i), g'')"
    and d: "pushed_note (int i * slot + sub) (sub - 5) d f" "60 \<le> d" "d \<le> 84"
      "consonant d (bass_notes req ! i) \<or> (d - bass_notes req ! i) mod 12 \<in> {1, 2, 5} \<and> \<bar>d - c\<bar> \<le> 3"
    using weak_note_ok [of req i "int i * slot + sub" "sub - 5" c "interval_class c (bass_notes req ! i)" g']
    by (elim exE conjE)
  have "c \<in> set (cands (bass_notes req ! i))"
      "i = 0 \<or> i = length (bass_notes req) - 1 \<longrightarrow> (c - bass_notes req ! i) mod 12 = 0"
    using c(2) unfolding first_species_rule_def Let_def by (blast dest: conjunct1 conjunct2)+
  note facts = refl [of "[e, f]"] c(1) this d
  have "second_species_pair req slot i [e, f]"
    unfolding second_species_pair_def sub_def [symmetric]
    by (rule exI [of _ c], rule exI [of _ d], rule exI [of _ e], rule exI [of _ f], intro conjI) (rule facts)+
  then show ?thesis using s w by simp
qed

text \<open>
  The second species, for any seed: two notes per bass note, the second half a slot later, all in
  the range C4 to C6. The first of each pair is consonant with the bass, the very first and the one
  over the last bass note in unison or octave; the second is consonant too, or a passing minor
  second, major second or fourth reached by at most three semitones.
\<close>

theorem second_species_correct:
  assumes "bass_notes req \<noteq> []" "cantus_firmus req \<noteq> []" "cp_species req = CP_second"
  shows "\<exists>blocks. counterpoint_generate req = concat blocks \<and>
    list_all2 (second_species_pair req ((cp_bars req * cp_ppq req * 4) sdiv int (length (bass_notes req))))
      [0 ..< length (bass_notes req)] blocks"
  using assms unfolding counterpoint_generate_def generate_second_species_def
  by (simp add: Let_def) (rule for_each_blocks, simp add: split_beta second_pair_ok)

theorem second_species_correct_witness:
  "\<exists>blocks. counterpoint_generate \<lparr>cantus_firmus = [60], bass_notes = [2], cp_bars = 1, cp_seed = 5,
      cp_species = CP_second, cp_ppq = 480\<rparr> = concat blocks \<and> length blocks = 1"
  using second_species_correct [of "\<lparr>cantus_firmus = [60], bass_notes = [2], cp_bars = 1, cp_seed = 5,
      cp_species = CP_second, cp_ppq = 480\<rparr>"] list_all2_lengthD by force

text \<open>
  A slot of fewer than five ticks gives a note that ends before it starts: with more bass notes than
  the bars have room for (or no bars at all) the end tick of the first note wraps around.
\<close>

theorem short_slot_wraps:
  assumes "bass_notes req \<noteq> []" "cantus_firmus req \<noteq> []" "cp_species req = CP_first"
    and "0 \<le> slot" "slot < 5" "slot = (cp_bars req * cp_ppq req * 4) sdiv int (length (bass_notes req))"
  shows "tick_on (counterpoint_generate req ! 0) = 0 \<and>
    uint (tick_off (counterpoint_generate req ! 0)) = 2 ^ 32 + slot - 5"
proof -
  have n: "[0 ..< length (bass_notes req)] = 0 # [1 ..< length (bass_notes req)]"
    using assms(1) by (simp add: upt_conv_Cons)
  obtain c e g' where s: "strong_note req 0 0 (slot - 5) (- 1, - 1, mt_seed (cp_seed req)) =
        ([e], c, interval_class c (bass_notes req ! 0), g')" and e: "pushed_note 0 (slot - 5) c e"
    using strong_note_ok [of req 0 0 "slot - 5" "- 1" "- 1" "mt_seed (cp_seed req)"] by blast
  have "counterpoint_generate req ! 0 = e"
    using assms s by (simp add: counterpoint_generate_def generate_first_species_def n split_beta Let_def del: upt_Suc)
  moreover have "uint (word_of_int (slot - 5) :: u32) = 2 ^ 32 + slot - 5"
  proof -
    have "(slot - 5) mod 2 ^ 32 = (slot - 5 + 2 ^ 32) mod 2 ^ 32" by (rule mod_add_self2 [symmetric])
    also have "\<dots> = slot - 5 + 2 ^ 32" using assms(4,5) by (intro mod_pos_pos_trivial) auto
    finally show ?thesis unfolding uint_word_of_int by simp
  qed
  moreover have "tick_on e = 0" "tick_off e = word_of_int (slot - 5)" using e by (simp_all add: pushed_note_def)
  ultimately show ?thesis by (simp only: simp_thms)
qed

theorem short_slot_wraps_witness:
  "uint (tick_off (counterpoint_generate \<lparr>cantus_firmus = [60], bass_notes = [2], cp_bars = 0, cp_seed = 5,
      cp_species = CP_first, cp_ppq = 480\<rparr> ! 0)) = 2 ^ 32 - 5"
  using short_slot_wraps [of "\<lparr>cantus_firmus = [60], bass_notes = [2], cp_bars = 0, cp_seed = 5,
      cp_species = CP_first, cp_ppq = 480\<rparr>" 0] by simp

end
