(* ===== verification/Guitar_Engine.thy ===== *)
theory Guitar_Engine
  imports Modulation_Engine
begin

text \<open>
  The guitar engine (\<open>guitar_engine.cpp\<close>): chord symbols, the three voicings, the four bar patterns
  (strum, arpeggio, power chord, funk chop) and the riff. A bar pattern returns what it pushes and
  the random engine it leaves. The key table is the shared one. \<open>std::sort\<close> on integers is \<open>sort\<close>.
\<close>

datatype guitar_style = Strumming | Arpeggio | Power_chord | Fingerpicking | Riff | Funk_chop

subsection \<open>Chord symbols\<close>

text \<open>The branches of the source that assign to \<open>qual\<close> the value just tested are the last case.\<close>

definition parse_chord :: "string \<Rightarrow> int \<times> string" where
  "parse_chord symb =
     (if symb = [] then (0, ''maj'')
      else let (root, pos) =
                 (if 1 < length symb \<and> (symb ! 1 = CHR ''#'' \<or> symb ! 1 = CHR ''b'')
                  then ([symb ! 0, symb ! 1], 2) else ([symb ! 0], 1));
               qual = drop pos symb;
               pc = (case map_of mod_key_table root of Some pc \<Rightarrow> pc | None \<Rightarrow> 0)
           in (pc, if qual = [] \<or> qual = ''M'' then ''maj''
                   else if qual = ''m'' \<or> qual = ''min'' then ''min'' else qual))"

definition gt_offsets_for :: "string \<Rightarrow> int list" where
  "gt_offsets_for q =
     (if q = ''maj'' then [0, 4, 7]
      else if q = ''min'' then [0, 3, 7]
      else if q = ''7'' then [0, 4, 7, 10]
      else if q = ''m7'' then [0, 3, 7, 10]
      else if q = ''maj7'' then [0, 4, 7, 11]
      else if q = ''m7b5'' then [0, 3, 6, 10]
      else if q = ''dim'' then [0, 3, 6]
      else if q = ''dim7'' then [0, 3, 6, 9]
      else if q = ''5'' then [0, 7]
      else if q = ''sus4'' then [0, 5, 7]
      else if q = ''aug'' then [0, 4, 8]
      else [0, 4, 7])"

subsection \<open>Voicings\<close>

definition in_guitar_range :: "int \<Rightarrow> bool" where
  "in_guitar_range n \<longleftrightarrow> n \<ge> 40 \<and> n \<le> 84"

definition kGuitarLow :: int where "kGuitarLow = 40"
definition kGuitarHigh :: int where "kGuitarHigh = 84"

text \<open>\<open>while (n > kGuitarHigh && octave > -2) { --octave; n = base + off + octave * 12; }\<close>\<close>

function drop_octaves :: "int \<Rightarrow> int \<Rightarrow> int \<Rightarrow> int \<times> int" where
  "drop_octaves b n octave =
     (if n > kGuitarHigh \<and> octave > - 2
      then drop_octaves b (b + (octave - 1) * 12) (octave - 1) else (n, octave))"
  by pat_completeness auto
termination by (relation "measure (\<lambda>(b, n, octave). nat (octave + 2))") auto

text \<open>\<open>while (n < kGuitarLow) { n += 12; }\<close>\<close>

function raise_octaves :: "int \<Rightarrow> int" where
  "raise_octaves n = (if n < kGuitarLow then raise_octaves (n + 12) else n)"
  by pat_completeness auto
termination by (relation "measure (\<lambda>n. nat (kGuitarLow - n))") auto

text \<open>\<open>while (next > kGuitarHigh + 12 && octave > -2) { octave -= 1; }\<close>, where \<open>next\<close> does not change.\<close>

function lower_octave :: "int \<Rightarrow> int \<Rightarrow> int" where
  "lower_octave nxt octave =
     (if nxt > kGuitarHigh + 12 \<and> octave > - 2 then lower_octave nxt (octave - 1) else octave)"
  by pat_completeness auto
termination by (relation "measure (\<lambda>(nxt, octave). nat (octave + 2))") auto

declare drop_octaves.simps [simp del] raise_octaves.simps [simp del] lower_octave.simps [simp del]

fun voice_offsets :: "int \<Rightarrow> int \<Rightarrow> int list \<Rightarrow> int list \<Rightarrow> int list" where
  "voice_offsets base octave ns [] = ns"
| "voice_offsets base octave ns (off # offs) =
     (let (n, octave1) = drop_octaves (base + off) (base + off + octave * 12) octave;
          n = raise_octaves n;
          octave2 = (case offs of [] \<Rightarrow> octave1
                     | off' # _ \<Rightarrow> lower_octave (base + off' + octave1 * 12) octave1);
          ns1 = (if in_guitar_range n then if n \<in> set ns then ns else ns @ [n] else ns)
      in voice_offsets base octave2 ns1 offs)"

definition build_guitar_voicing :: "int \<Rightarrow> string \<Rightarrow> int list" where
  "build_guitar_voicing rpc q =
     (let offsets = gt_offsets_for q in
      if offsets = [] then []
      else let base = kGuitarLow + rpc smod 12;
               ns = voice_offsets base 0 [] offsets;
               ns = (if ns = []
                     then let root_note = kGuitarLow + rpc smod 12 + 12;
                              root_note = (if root_note > kGuitarHigh then root_note - 12 else root_note);
                              a = (if in_guitar_range root_note then [root_note] else []);
                              fifth = root_note + 7;
                              fifth = (if fifth > kGuitarHigh then fifth - 12 else fifth)
                          in a @ (if in_guitar_range fifth then [fifth] else [])
                     else ns)
           in sort ns)"

definition build_power_voicing :: "int \<Rightarrow> int list" where
  "build_power_voicing rpc =
     (let root_note = 40 + rpc smod 12 + 12;
          root_note = (if root_note > 57 then root_note - 12 else root_note);
          root_note = (if root_note < 40 then root_note + 12 else root_note);
          fifth = root_note + 7;
          (fifth, root_note) = (if fifth > 64 then (fifth - 12, root_note - 12) else (fifth, root_note));
          root_note = (if \<not> in_guitar_range root_note then 45 else root_note);
          fifth = (if \<not> in_guitar_range fifth then root_note + 7 else fifth)
      in [root_note, fifth])"

definition build_funk_voicing :: "int \<Rightarrow> string \<Rightarrow> int list" where
  "build_funk_voicing rpc q =
     (let offsets = gt_offsets_for q;
          offsets = (if offsets = [] then [0, 4, 7] else offsets);
          base = 55 + rpc smod 12;
          base = (if base > 72 then base - 12 else base);
          base = (if base < 52 then base + 12 else base);
          ns = foldl (\<lambda>ns off.
                 let n = base + off;
                     n = (if n > 84 then n - 12 else n)
                 in if n \<ge> 52 \<and> n \<le> 84 then if n \<in> set ns then ns else ns @ [n] else ns) [] offsets;
          ns = (if ns = [] then [base, base + 4, base + 7] else ns)
      in sort ns)"

subsection \<open>Bar patterns\<close>

text \<open>\<open>static_cast<int>(lo + rng() % n)\<close> cast to a velocity byte.\<close>

definition draw_vel :: "nat \<Rightarrow> nat \<Rightarrow> mt19937_64 \<Rightarrow> u8 \<times> mt19937_64" where
  "draw_vel lo n g = (let (r, g1) = rng_mod n g in (of_nat (lo + r), g1))"

definition strum_string ::
  "u32 \<Rightarrow> nat \<Rightarrow> u8 \<Rightarrow> nat \<times> int \<Rightarrow> mt19937_64 \<Rightarrow> midi_event list \<times> mt19937_64" where
  "strum_string beat_tick offset_ticks base_vel = (\<lambda>(s, n) g.
     let on_tick = beat_tick + of_nat (s * offset_ticks);
         off_tick = on_tick + of_nat kPpq - 20;
         (r, g1) = rng_mod 11 g;
         vel = (word_of_int (min 127 (int (unat base_vel) + int r - 5)) :: u8)
     in ([make_event on_tick off_tick (word_of_int n) vel 0], g1))"

definition strum_beat :: "u32 \<Rightarrow> int list \<Rightarrow> nat \<Rightarrow> mt19937_64 \<Rightarrow> midi_event list \<times> mt19937_64" where
  "strum_beat bar_start ns beat g =
     (let beat_tick = bar_start + of_nat beat * of_nat kPpq;
          downbeat = (beat mod 2 = 0);
          (base_vel, g1) = (if downbeat then draw_vel 85 26 g else draw_vel 70 21 g);
          (r, g2) = rng_mod 4 g1;
          offset_ticks = 2 + r
      in for_each (strum_string beat_tick offset_ticks base_vel) (enumerate 0 ns) g2)"

definition strum_bar :: "int \<times> string \<Rightarrow> u32 \<Rightarrow> mt19937_64 \<Rightarrow> midi_event list \<times> mt19937_64" where
  "strum_bar chord bar_start g =
     (let ns = build_guitar_voicing (fst chord) (snd chord) in
      if ns = [] then ([], g) else for_each (strum_beat bar_start ns) [0 ..< 4] g)"

definition arpeggio_order :: "nat \<Rightarrow> nat \<Rightarrow> nat list" where
  "arpeggio_order pattern n =
     (if pattern = 0 then [0 ..< n]
      else if pattern = 1
      then [0] @ (if n > 2 then [2] else []) @ (if n > 1 then [1] else []) @ [3 ..< n]
      else if pattern = 2 then rev [0 ..< n]
      else [])"

definition arpeggio_note ::
  "u32 \<Rightarrow> u32 \<Rightarrow> int list \<Rightarrow> nat \<times> nat \<Rightarrow> mt19937_64 \<Rightarrow> midi_event list \<times> mt19937_64" where
  "arpeggio_note bar_start note_dur ns = (\<lambda>(i, j) g.
     let on_tick = bar_start + of_nat i * note_dur;
         off_tick = on_tick + note_dur - 10;
         (vel, g1) = (if i = 0 then draw_vel 85 21 g else draw_vel 70 21 g)
     in ([make_event on_tick off_tick (word_of_int (ns ! j)) vel 0], g1))"

definition arpeggio_bar :: "int \<times> string \<Rightarrow> u32 \<Rightarrow> u32 \<Rightarrow> mt19937_64 \<Rightarrow> midi_event list \<times> mt19937_64" where
  "arpeggio_bar chord bar_start ticks_per_bar g =
     (let ns = build_guitar_voicing (fst chord) (snd chord) in
      if ns = [] then ([], g)
      else let (pattern, g1) = rng_mod 3 g;
               order = arpeggio_order pattern (length ns);
               note_dur = ticks_per_bar div of_nat (max 1 (length order))
           in for_each (arpeggio_note bar_start note_dur ns) (enumerate 0 order) g1)"

definition power_bar :: "int \<times> string \<Rightarrow> u32 \<Rightarrow> u32 \<Rightarrow> mt19937_64 \<Rightarrow> midi_event list \<times> mt19937_64" where
  "power_bar chord bar_start tick_per_beat g =
     (let ns = build_power_voicing (fst chord) in
      if length ns < 2 then ([], g)
      else let (p, g1) = rng_mod 2 g;
               palm_mute = (p = 0);
               dur = (if palm_mute then tick_per_beat div 2 else tick_per_beat - 10)
           in for_each (\<lambda>beat g.
                let beat_tick = bar_start + of_nat beat * tick_per_beat;
                    (vel, g1) = draw_vel 75 31 g
                in (map (\<lambda>n. make_event beat_tick (beat_tick + dur) (word_of_int n) vel 0) ns, g1))
              [0 ..< 4] g1)"

text \<open>\<open>(slot + static_cast<int>(r)) % 3 == 0\<close>: the draw is cut to a signed 32-bit value.\<close>

definition skips_slot :: "nat \<Rightarrow> u64 \<Rightarrow> bool" where
  "skips_slot slt r \<longleftrightarrow> (int slt + sint (ucast r :: u32)) smod 3 = 0"

definition funk_bar :: "int \<times> string \<Rightarrow> u32 \<Rightarrow> u32 \<Rightarrow> mt19937_64 \<Rightarrow> midi_event list \<times> mt19937_64" where
  "funk_bar chord bar_start ppq g =
     (let ns = build_funk_voicing (fst chord) (snd chord) in
      if ns = [] then ([], g)
      else let sixteenth = ppq div 4;
               (r, g1) = rng g
           in for_each (\<lambda>slt g.
                if slt mod 2 = 0 \<or> skips_slot slt r then ([], g)
                else let tick = bar_start + of_nat slt * sixteenth;
                         (vel, g1) = draw_vel 60 31 g
                     in (map (\<lambda>n. make_event tick (tick + 1) (word_of_int n) vel 0) ns, g1))
              [0 ..< 16] g1)"

subsection \<open>The engine\<close>

definition gt_ticks_per_bar :: u32 where "gt_ticks_per_bar = of_nat kPpq * 4"

text \<open>The loop over the bars, with the chord of each bar, the progression repeating.\<close>

definition over_bars ::
  "(int \<times> string \<Rightarrow> u32 \<Rightarrow> mt19937_64 \<Rightarrow> midi_event list \<times> mt19937_64) \<Rightarrow> string list \<Rightarrow> int \<Rightarrow> u64 \<Rightarrow> midi_event list" where
  "over_bars pattern chord_progression bars sd =
     (if bars < 1 \<or> chord_progression = [] then []
      else fst (for_each (\<lambda>bar.
             pattern (parse_chord (chord_progression ! (bar mod length chord_progression)))
               (of_nat bar * gt_ticks_per_bar)) [0 ..< nat bars] (mt_seed sd)))"

definition generate_chords :: "string list \<Rightarrow> int \<Rightarrow> guitar_style \<Rightarrow> u64 \<Rightarrow> midi_event list" where
  "generate_chords chord_progression bars style sd =
     over_bars (\<lambda>chord bar_start.
        case style of
          Strumming \<Rightarrow> strum_bar chord bar_start
        | Arpeggio \<Rightarrow> arpeggio_bar chord bar_start gt_ticks_per_bar
        | Power_chord \<Rightarrow> power_bar chord bar_start (of_nat kPpq)
        | Funk_chop \<Rightarrow> funk_bar chord bar_start (of_nat kPpq)
        | _ \<Rightarrow> strum_bar chord bar_start) chord_progression bars sd"

definition generate_power_chords :: "string list \<Rightarrow> int \<Rightarrow> u64 \<Rightarrow> midi_event list" where
  "generate_power_chords = over_bars (\<lambda>chord bar_start. power_bar chord bar_start (of_nat kPpq))"

definition generate_funk_chops :: "string list \<Rightarrow> int \<Rightarrow> u64 \<Rightarrow> midi_event list" where
  "generate_funk_chops = over_bars (\<lambda>chord bar_start. funk_bar chord bar_start (of_nat kPpq))"

definition riff_notes :: "scale_service option \<Rightarrow> string \<Rightarrow> string \<Rightarrow> int list" where
  "riff_notes scales key scale_name =
     (let rpc = mod_parse_root_pc key;
          ivs = (case scales of None \<Rightarrow> [] | Some (_, for_root) \<Rightarrow> for_root scale_name rpc);
          ivs = (if ivs = [] then map (\<lambda>iv. (rpc + iv) smod 12) [0, 3, 5, 7, 10] else ivs);
          candidates = concat (map (\<lambda>oct. map (\<lambda>pc. oct * 12 + pc smod 12) ivs) [3, 4, 5]);
          ns = foldl (\<lambda>ns n. if n \<ge> 40 \<and> n \<le> 72 then if n \<in> set ns then ns else ns @ [n] else ns) [] candidates;
          ns = sort ns
      in if ns = [] then [40, 45, 47, 52, 55, 57] else ns)"

definition riff_slot :: "int list \<Rightarrow> nat \<Rightarrow> u64 \<Rightarrow> nat \<Rightarrow> mt19937_64 \<Rightarrow> midi_event list \<times> mt19937_64" where
  "riff_slot ns bar r slt g =
     (let tick = of_nat bar * gt_ticks_per_bar + of_nat slt * of_nat kPpq div 2 in
      if skips_slot slt r then ([], g)
      else let (w, g1) = rng g;
               note_idx = unat (w + of_nat slt + of_nat bar) mod length ns;
               n = ns ! note_idx;
               duration = (if slt mod 2 = 0 then of_nat kPpq - 10 else of_nat kPpq div 2 - 10 :: u32);
               (vel, g2) = draw_vel 70 36 g1
           in ([make_event tick (tick + duration) (word_of_int n) vel 0], g2))"

definition generate_riff :: "scale_service option \<Rightarrow> string \<Rightarrow> string \<Rightarrow> int \<Rightarrow> u64 \<Rightarrow> midi_event list" where
  "generate_riff scales key scale_name bars sd =
     (if bars < 1 then []
      else let ns = riff_notes scales key scale_name
           in fst (for_each (\<lambda>bar g.
                let (r, g1) = rng g in for_each (riff_slot ns bar r) [0 ..< 8] g1)
              [0 ..< nat bars] (mt_seed sd)))"

subsection \<open>The voicings, in closed form\<close>

lemma parse_chord_range: "0 \<le> fst (parse_chord s) \<and> fst (parse_chord s) < 12"
  using mod_parse_root_pc_range by (auto simp: parse_chord_def Let_def mod_parse_root_pc_def split_beta)

lemma gt_offsets_ok:
  "gt_offsets_for q \<noteq> []" "hd (gt_offsets_for q) = 0" "sorted_wrt (<) (gt_offsets_for q)"
  "x \<in> set (gt_offsets_for q) \<Longrightarrow> 0 \<le> x \<and> x \<le> 11"
  by (auto simp: gt_offsets_for_def split: if_splits)

lemma voice_offsets_map:
  assumes "40 \<le> base" "base \<le> 51" "sorted_wrt (<) offs" "\<forall>x \<in> set offs. 0 \<le> x \<and> x \<le> 11"
    and "\<forall>n \<in> set ns. \<forall>x \<in> set offs. n < base + x"
  shows "voice_offsets base 0 ns offs = ns @ map (\<lambda>off. base + off) offs"
  using assms(3-5)
proof (induction offs arbitrary: ns)
  case (Cons off offs)
  have 1: "drop_octaves (base + off) (base + off + 0 * 12) 0 = (base + off, 0)"
    using assms(2) Cons.prems(2) by (subst drop_octaves.simps) (simp add: kGuitarHigh_def)
  have 2: "raise_octaves (base + off) = base + off"
    using assms(1) Cons.prems(2) by (subst raise_octaves.simps) (simp add: kGuitarLow_def)
  have 3: "(case offs of [] \<Rightarrow> 0 | off' # _ \<Rightarrow> lower_octave (base + off' + 0 * 12) 0) = 0"
    using assms(2) Cons.prems(2) by (cases offs) (simp, subst lower_octave.simps, simp add: kGuitarHigh_def)
  have 4: "in_guitar_range (base + off)" "base + off \<notin> set ns"
    using assms(1,2) Cons.prems by (auto simp: in_guitar_range_def)
  have "voice_offsets base 0 (ns @ [base + off]) offs = (ns @ [base + off]) @ map (\<lambda>off. base + off) offs"
    using Cons.prems by (intro Cons.IH) auto
  then show ?case using 1 2 3 4 by simp
qed simp

lemma sorted_shift: "sorted_wrt (<) xs \<Longrightarrow> sort (map (\<lambda>x. b + x) xs) = map (\<lambda>x. b + (x :: int)) xs"
  by (intro sort_key_id_if_sorted) (auto simp: sorted_wrt_map strict_sorted_iff sorted_map intro: sorted_wrt_mono_rel)

lemma build_guitar_voicing_eq:
  assumes "0 \<le> r" "r < 12"
  shows "build_guitar_voicing r q = map (\<lambda>off. 40 + r + off) (gt_offsets_for q)"
proof -
  have "voice_offsets (40 + r) 0 [] (gt_offsets_for q) = [] @ map (\<lambda>off. 40 + r + off) (gt_offsets_for q)"
    using assms gt_offsets_ok(3) [of q] gt_offsets_ok(4) [where q = q] by (intro voice_offsets_map) auto
  then show ?thesis
    using assms gt_offsets_ok(1,3) [of q]
    by (simp add: build_guitar_voicing_def kGuitarLow_def smod_nonneg_eq Let_def sorted_shift)
qed

lemma build_power_voicing_eq:
  assumes "0 \<le> r" "r < 12"
  shows "build_power_voicing r = (let n = (if r \<le> 5 then 52 + r else 40 + r) in [n, n + 7])"
  using assms by (simp add: build_power_voicing_def in_guitar_range_def smod_nonneg_eq Let_def)

lemma push_new_map:
  assumes "sorted_wrt (<) offs" "\<forall>x \<in> set offs. lo \<le> b + x \<and> b + x \<le> hi" "\<forall>n \<in> set ns. \<forall>x \<in> set offs. n < b + x"
    and step: "\<And>ns x. lo \<le> b + x \<Longrightarrow> b + x \<le> hi \<Longrightarrow> b + x \<notin> set ns \<Longrightarrow> f ns x = ns @ [b + (x :: int)]"
  shows "foldl f ns offs = ns @ map (\<lambda>off. b + off) offs"
  using assms(1-3)
proof (induction offs arbitrary: ns)
  case (Cons off offs)
  then have "f ns off = ns @ [b + off]" by (intro step) auto
  moreover have "foldl f (ns @ [b + off]) offs = (ns @ [b + off]) @ map (\<lambda>off. b + off) offs"
    using Cons.prems by (intro Cons.IH) auto
  ultimately show ?case by simp
qed simp

lemma build_funk_voicing_eq:
  assumes "0 \<le> r" "r < 12"
  shows "build_funk_voicing r q = map (\<lambda>off. 55 + r + off) (gt_offsets_for q)"
proof -
  have "\<forall>x \<in> set (gt_offsets_for q). 52 \<le> 55 + r + x \<and> 55 + r + x \<le> 84"
    using assms gt_offsets_ok(4) [where q = q] by fastforce
  then have "foldl (\<lambda>ns off. let n = 55 + r + off; n = (if n > 84 then n - 12 else n)
      in if n \<ge> 52 \<and> n \<le> 84 then if n \<in> set ns then ns else ns @ [n] else ns) [] (gt_offsets_for q) =
    [] @ map (\<lambda>off. 55 + r + off) (gt_offsets_for q)"
    using gt_offsets_ok(3) [of q] by (intro push_new_map [where lo = 52 and hi = 84]) (auto simp: Let_def)
  then show ?thesis
    using assms gt_offsets_ok(1,3) [of q]
    by (simp add: build_funk_voicing_def smod_nonneg_eq Let_def sorted_shift)
qed

subsection \<open>What a bar holds\<close>

abbreviation pitch :: "midi_event \<Rightarrow> int" where
  "pitch e \<equiv> uint (note_no e)"

text \<open>A playable guitar event that starts and ends within the bar at \<open>bar_start\<close>.\<close>

definition guitar_ok :: "u32 \<Rightarrow> midi_event \<Rightarrow> bool" where
  "guitar_ok bar_start e \<longleftrightarrow>
     channel e = 0 \<and> 40 \<le> pitch e \<and> pitch e \<le> 84 \<and> vel_in 60 115 e \<and>
     (\<exists>t d. tick_on e = bar_start + of_nat t \<and> tick_off e = bar_start + of_nat (t + d) \<and> 0 < d \<and> t + d \<le> 1920)"

lemma uint_u8_of_int: "0 \<le> n \<Longrightarrow> n < 256 \<Longrightarrow> uint (word_of_int n :: u8) = n"
  by (simp add: uint_word_of_int)

lemma guitar_okI:
  assumes "40 \<le> n" "n \<le> 84" "60 \<le> unat v" "unat v \<le> 115" "0 < d" "t + d \<le> 1920"
    and "on = bs + of_nat t" "off = bs + of_nat (t + d)"
  shows "guitar_ok bs (make_event on off (word_of_int n) v 0) \<and> pitch (make_event on off (word_of_int n) v 0) = n"
  using assms uint_u8_of_int [of n] by (auto simp: guitar_ok_def)

lemma draw_vel_bounds:
  "0 < n \<Longrightarrow> lo + n \<le> 256 \<Longrightarrow> lo \<le> unat (fst (draw_vel lo n g)) \<and> unat (fst (draw_vel lo n g)) < lo + n"
  using mt.draw_byte_bounds [of n lo g] by (simp add: draw_vel_def split_beta Let_def)

lemma blocks_pitch:
  "list_all2 (\<lambda>x b. map pitch b = ns \<and> list_all P b) xs blocks \<Longrightarrow>
   map pitch (concat blocks) = concat (replicate (length xs) ns) \<and> list_all P (concat blocks)"
  by (induction xs blocks rule: list_all2_induct) auto

lemma list_all2_pitch:
  "list_all2 (\<lambda>(s, n) e. pitch e = n \<and> P e) (enumerate k ns) es \<Longrightarrow> map pitch es = ns \<and> list_all P es"
  by (induction ns arbitrary: k es) (auto simp: list_all2_Cons1)

lemma strum_string_ok:
  assumes "40 \<le> n" "n \<le> 84" "65 \<le> unat v" "unat v \<le> 110" "beat < 4" "s < 4" "off \<le> 5"
  shows "\<exists>e. fst (strum_string (bs + of_nat beat * 480) off v (s, n) g) = [e] \<and> pitch e = n \<and> guitar_ok bs e"
proof -
  define r where "r = fst (rng_mod 11 g)"
  have r: "r < 11" using mt.draw_less [of 11 g] by (simp add: r_def)
  define w where "w = min 127 (int (unat v) + int r - 5)"
  have "65 \<le> int (unat v)" "int (unat v) \<le> 110" using assms(3,4) by (metis of_nat_le_iff of_nat_numeral)+
  then have w: "60 \<le> w" "w \<le> 115" using r by (auto simp: w_def)
  have "s * off \<le> 3 * 5" using assms by (intro mult_mono) auto
  moreover have "beat * 480 \<le> 3 * 480" using assms by (intro mult_le_mono1) auto
  ultimately have b: "beat * 480 + s * off + 460 \<le> 1920" by linarith
  have "fst (strum_string (bs + of_nat beat * 480) off v (s, n) g) =
    [make_event (bs + of_nat (beat * 480 + s * off)) (bs + of_nat (beat * 480 + s * off + 460))
      (word_of_int n) (word_of_int w) 0]"
    by (simp add: strum_string_def split_beta Let_def r_def w_def kPpq_def algebra_simps)
  moreover have "guitar_ok bs (make_event (bs + of_nat (beat * 480 + s * off)) (bs + of_nat (beat * 480 + s * off + 460))
      (word_of_int n) (word_of_int w) 0) \<and>
    pitch (make_event (bs + of_nat (beat * 480 + s * off)) (bs + of_nat (beat * 480 + s * off + 460))
      (word_of_int n) (word_of_int w) 0) = n"
    using assms w b unat_u8_of_int_small [of w]
    by (intro guitar_okI [where t = "beat * 480 + s * off" and d = 460]) auto
  ultimately show ?thesis by blast
qed

lemma strum_beat_ok:
  assumes "\<forall>n \<in> set ns. 40 \<le> n \<and> n \<le> 84" "length ns \<le> 4" "beat < 4"
  shows "map pitch (fst (strum_beat bs ns beat g)) = ns \<and> list_all (guitar_ok bs) (fst (strum_beat bs ns beat g))"
proof -
  define v where "v = (if beat mod 2 = 0 then draw_vel 85 26 g else draw_vel 70 21 g)"
  define off where "off = 2 + fst (rng_mod 4 (snd v))"
  have v: "65 \<le> unat (fst v)" "unat (fst v) \<le> 110"
    using draw_vel_bounds [of 26 85 g] draw_vel_bounds [of 21 70 g] by (auto simp: v_def)
  have off: "off \<le> 5" using mt.draw_less [of 4 "snd v"] by (simp add: off_def)
  have eq: "fst (strum_beat bs ns beat g) =
      fst (for_each (strum_string (bs + of_nat beat * 480) off (fst v)) (enumerate 0 ns) (snd (rng_mod 4 (snd v))))"
    by (simp add: strum_beat_def v_def off_def split_beta Let_def kPpq_def)
  have "list_all2 (\<lambda>(s, n) e. pitch e = n \<and> guitar_ok bs e) (enumerate 0 ns) (fst (strum_beat bs ns beat g))"
    unfolding eq
  proof (rule for_each_list_all2)
    fix x h assume "x \<in> set (enumerate 0 ns)"
    moreover obtain s n where x: "x = (s, n)" by fastforce
    ultimately have "s < length ns" "ns ! s = n" by (simp_all add: in_set_enumerate_eq)
    then have "s < 4" "40 \<le> n" "n \<le> 84" using assms(1,2) by force+
    from strum_string_ok [OF this(2,3) v assms(3) this(1) off, of bs h]
    show "\<exists>y. fst (strum_string (bs + of_nat beat * 480) off (fst v) x h) = [y] \<and> (case x of (s, n) \<Rightarrow> \<lambda>e. pitch e = n \<and> guitar_ok bs e) y"
      by (simp add: x)
  qed
  then show ?thesis by (rule list_all2_pitch)
qed

lemma gt_offsets_length: "length (gt_offsets_for q) \<le> 4" "2 \<le> length (gt_offsets_for q)"
  by (simp_all add: gt_offsets_for_def)

lemma voicing_range:
  assumes "0 \<le> r" "r < 12"
  shows "\<forall>n \<in> set (build_guitar_voicing r q). 40 \<le> n \<and> n \<le> 84" "length (build_guitar_voicing r q) \<le> 4"
    "build_guitar_voicing r q \<noteq> []"
    "\<forall>n \<in> set (build_funk_voicing r q). 40 \<le> n \<and> n \<le> 84" "build_funk_voicing r q \<noteq> []"
  using assms gt_offsets_ok(4) [where q = q] gt_offsets_ok(1) [of q] gt_offsets_length(1) [of q]
  by (fastforce simp: build_guitar_voicing_eq build_funk_voicing_eq)+

lemma strum_bar_ok:
  assumes "0 \<le> fst c" "fst c < 12"
  shows "map pitch (fst (strum_bar c bs g)) = concat (replicate 4 (build_guitar_voicing (fst c) (snd c))) \<and>
    list_all (guitar_ok bs) (fst (strum_bar c bs g))"
proof -
  let ?ns = "build_guitar_voicing (fst c) (snd c)"
  note v = voicing_range [OF assms, of "snd c"]
  obtain blocks where "fst (for_each (strum_beat bs ?ns) [0 ..< 4] g) = concat blocks"
    "list_all2 (\<lambda>x b. map pitch b = ?ns \<and> list_all (guitar_ok bs) b) [0 ..< 4] blocks"
    using for_each_blocks [of "[0 ..< 4]" "\<lambda>x b. map pitch b = ?ns \<and> list_all (guitar_ok bs) b" "strum_beat bs ?ns" g]
      strum_beat_ok [OF v(1,2)] by auto
  with blocks_pitch [OF this(2)] show ?thesis using v(3) by (simp add: strum_bar_def Let_def)
qed

lemma arpeggio_order_mset:
  assumes "p < 3" "2 \<le> n" "n \<le> 4"
  shows "mset (arpeggio_order p n) = mset [0 ..< n]" "length (arpeggio_order p n) = n"
proof -
  have "n = 2 \<or> n = 3 \<or> n = 4" "p = 0 \<or> p = 1 \<or> p = 2" using assms by auto
  then show "mset (arpeggio_order p n) = mset [0 ..< n]"
    by (elim disjE) (simp_all add: arpeggio_order_def upt_rec add_mset_commute numeral_2_eq_2 numeral_3_eq_3)
  then show "length (arpeggio_order p n) = n" by (metis size_mset length_upt diff_zero)
qed

lemma arpeggio_bar_ok:
  assumes "0 \<le> fst c" "fst c < 12"
  shows "mset (map pitch (fst (arpeggio_bar c bs 1920 g))) = mset (build_guitar_voicing (fst c) (snd c)) \<and>
    list_all (guitar_ok bs) (fst (arpeggio_bar c bs 1920 g))"
proof -
  define ns where "ns = build_guitar_voicing (fst c) (snd c)"
  define order where "order = arpeggio_order (fst (rng_mod 3 g)) (length ns)"
  have len: "2 \<le> length ns" "length ns \<le> 4" and ne: "ns \<noteq> []" and rng: "\<forall>n \<in> set ns. 40 \<le> n \<and> n \<le> 84"
    using voicing_range [OF assms, of "snd c"] gt_offsets_length [of "snd c"]
    by (simp_all add: ns_def build_guitar_voicing_eq [OF assms])
  have ord: "mset order = mset [0 ..< length ns]" "length order = length ns"
    unfolding order_def using arpeggio_order_mset [OF _ len] mt.draw_less [of 3 g] by auto
  define dur where "dur = 1920 div length ns"
  have "length ns = 2 \<or> length ns = 3 \<or> length ns = 4" using len by auto
  then have dur: "(1920 div of_nat (max 1 (length order)) :: u32) = of_nat dur" "length ns * dur \<le> 1920" "10 < dur"
    unfolding ord(2) dur_def by (elim disjE; simp)+
  have body: "\<exists>e. fst (arpeggio_note bs (of_nat dur) ns x h) = [e] \<and> (\<lambda>(i, j) e. pitch e = ns ! j \<and> guitar_ok bs e) x e"
    if "x \<in> set (enumerate 0 order)" for x h
  proof -
    obtain i j where x: "x = (i, j)" by fastforce
    with that have "i < length order" "order ! i = j" by (simp_all add: in_set_enumerate_eq)
    then have "j \<in> set order" by auto
    then have "j < length ns" using mset_eq_setD [OF ord(1)] by simp
    then have n: "40 \<le> ns ! j" "ns ! j \<le> 84" using rng by auto
    define v where "v = fst (if i = 0 then draw_vel 85 21 h else draw_vel 70 21 h)"
    have v: "60 \<le> unat v" "unat v \<le> 115"
      using draw_vel_bounds [of 21 85 h] draw_vel_bounds [of 21 70 h] by (auto simp: v_def)
    have "Suc i * dur \<le> length ns * dur" using \<open>i < length order\<close> ord(2) by (intro mult_le_mono1) simp
    then have b: "i * dur + (dur - 10) \<le> 1920" using dur(2) by simp
    have "(of_nat (dur - 10) :: u32) = of_nat dur - 10" using dur(3) by (simp add: of_nat_diff)
    then have "fst (arpeggio_note bs (of_nat dur) ns x h) =
        [make_event (bs + of_nat (i * dur)) (bs + of_nat (i * dur + (dur - 10))) (word_of_int (ns ! j)) v 0]"
      by (simp add: arpeggio_note_def x split_beta Let_def v_def algebra_simps)
    moreover have "guitar_ok bs (make_event (bs + of_nat (i * dur)) (bs + of_nat (i * dur + (dur - 10))) (word_of_int (ns ! j)) v 0) \<and>
        pitch (make_event (bs + of_nat (i * dur)) (bs + of_nat (i * dur + (dur - 10))) (word_of_int (ns ! j)) v 0) = ns ! j"
      using n v b dur(3) by (intro guitar_okI [where t = "i * dur" and d = "dur - 10"]) auto
    ultimately show ?thesis by (simp add: x)
  qed
  define out where "out = fst (arpeggio_bar c bs 1920 g)"
  have out: "out = fst (for_each (arpeggio_note bs (of_nat dur) ns) (enumerate 0 order) (snd (rng_mod 3 g)))"
    unfolding out_def arpeggio_bar_def Let_def split_beta ns_def [symmetric] order_def [symmetric] dur(1)
    using ne by simp
  have "list_all2 (\<lambda>(i, j) e. pitch e = ns ! j \<and> guitar_ok bs e) (enumerate 0 order) out"
    unfolding out by (rule for_each_list_all2) (rule body)
  then have "list_all2 (\<lambda>(i, n) e. pitch e = n \<and> guitar_ok bs e) (enumerate 0 (map ((!) ns) order)) out"
    by (auto simp: list_all2_conv_all_nth nth_enumerate_eq)
  then have "map pitch out = map ((!) ns) order \<and> list_all (guitar_ok bs) out" by (rule list_all2_pitch)
  moreover have "mset (map ((!) ns) order) = mset ns"
    using ord(1) by (metis mset_map map_nth)
  ultimately show ?thesis by (simp add: out_def ns_def)
qed

lemma chord_hit:
  assumes "\<forall>n \<in> set ns. 40 \<le> n \<and> n \<le> 84" "60 \<le> unat v" "unat v \<le> 115" "0 < d" "t + d \<le> 1920"
    and "on = bs + of_nat t" "off = bs + of_nat (t + d)"
  shows "map pitch (map (\<lambda>n. make_event on off (word_of_int n) v 0) ns) = ns \<and>
    list_all (guitar_ok bs) (map (\<lambda>n. make_event on off (word_of_int n) v 0) ns)"
  using assms guitar_okI [OF _ _ assms(2-7)] by (induction ns) auto

lemma power_bar_ok:
  assumes "0 \<le> fst c" "fst c < 12"
  shows "map pitch (fst (power_bar c bs 480 g)) = concat (replicate 4 (build_power_voicing (fst c))) \<and>
    list_all (guitar_ok bs) (fst (power_bar c bs 480 g))"
proof -
  define ns where "ns = build_power_voicing (fst c)"
  define dur where "dur = (if fst (rng_mod 2 g) = 0 then 240 else 470 :: nat)"
  define body where "body = (\<lambda>beat g. (map (\<lambda>n. make_event (bs + of_nat beat * 480) (bs + of_nat beat * 480 + of_nat dur)
    (word_of_int n) (fst (draw_vel 75 31 g)) 0) ns, snd (draw_vel 75 31 g)))"
  have ns: "\<forall>n \<in> set ns. 40 \<le> n \<and> n \<le> 84" "\<not> length ns < 2"
    using assms by (auto simp: ns_def build_power_voicing_eq Let_def)
  have eq: "fst (power_bar c bs 480 g) = fst (for_each body [0 ..< 4] (snd (rng_mod 2 g)))"
    using ns(2) by (simp add: power_bar_def ns_def [symmetric] split_beta Let_def body_def dur_def)
  have "map pitch (fst (body beat h)) = ns \<and> list_all (guitar_ok bs) (fst (body beat h))" if "beat \<in> set [0 ..< 4]" for beat h
    unfolding body_def fst_conv using that ns(1) draw_vel_bounds [of 31 75 h]
    by (intro chord_hit [where t = "beat * 480" and d = dur]) (auto simp: dur_def)
  then obtain blocks where "fst (for_each body [0 ..< 4] (snd (rng_mod 2 g))) = concat blocks"
    "list_all2 (\<lambda>x b. map pitch b = ns \<and> list_all (guitar_ok bs) b) [0 ..< 4] blocks"
    using for_each_blocks [of "[0 ..< 4]" "\<lambda>x b. map pitch b = ns \<and> list_all (guitar_ok bs) b" body] by blast
  with blocks_pitch [OF this(2)] show ?thesis by (simp add: eq ns_def)
qed

text \<open>A funk chop sounds for one tick on an odd sixteenth, the offbeats of the bar.\<close>

definition offbeat :: "u32 \<Rightarrow> midi_event \<Rightarrow> bool" where
  "offbeat bs e \<longleftrightarrow> (\<exists>k < 8. tick_on e = bs + of_nat ((2 * k + 1) * 120)) \<and> tick_off e = tick_on e + 1"

lemma blocks_count:
  "list_all2 (\<lambda>x b. b = [] \<or> map pitch b = ns \<and> list_all P b) xs blocks \<Longrightarrow>
   \<exists>k \<le> length xs. map pitch (concat blocks) = concat (replicate k ns) \<and> list_all P (concat blocks)"
proof (induction xs blocks rule: list_all2_induct)
  case (Cons x xs b bs)
  then obtain k where "k \<le> length xs" "map pitch (concat bs) = concat (replicate k ns)" "list_all P (concat bs)" by auto
  then show ?case using Cons.hyps(1)
    by (elim disjE) (fastforce intro: exI [of _ k], fastforce intro: exI [of _ "Suc k"])
qed simp

lemma funk_bar_ok:
  assumes "0 \<le> fst c" "fst c < 12"
  shows "\<exists>k. map pitch (fst (funk_bar c bs 480 g)) = concat (replicate k (build_funk_voicing (fst c) (snd c))) \<and>
    list_all (\<lambda>e. guitar_ok bs e \<and> offbeat bs e) (fst (funk_bar c bs 480 g))"
proof -
  define ns where "ns = build_funk_voicing (fst c) (snd c)"
  define r where "r = fst (rng g)"
  define body where "body = (\<lambda>slt g. if slt mod 2 = 0 \<or> skips_slot slt r then ([], g)
    else (map (\<lambda>n. make_event (bs + of_nat slt * 120) (bs + of_nat slt * 120 + 1)
      (word_of_int n) (fst (draw_vel 60 31 g)) 0) ns, snd (draw_vel 60 31 g)))"
  have ns: "\<forall>n \<in> set ns. 40 \<le> n \<and> n \<le> 84" "ns \<noteq> []"
    using voicing_range [OF assms, of "snd c"] by (simp_all add: ns_def)
  have eq: "fst (funk_bar c bs 480 g) = fst (for_each body [0 ..< 16] (snd (rng g)))"
    using ns(2) by (simp add: funk_bar_def ns_def [symmetric] split_beta Let_def body_def r_def cong: if_cong)
  have "fst (body slt h) = [] \<or> map pitch (fst (body slt h)) = ns \<and>
      list_all (\<lambda>e. guitar_ok bs e \<and> offbeat bs e) (fst (body slt h))" if "slt \<in> set [0 ..< 16]" for slt h
  proof (cases "slt mod 2 = 0 \<or> skips_slot slt r")
    case False
    define out where "out = map (\<lambda>n. make_event (bs + of_nat slt * 120) (bs + of_nat slt * 120 + 1)
      (word_of_int n) (fst (draw_vel 60 31 h)) 0) ns"
    have "map pitch out = ns \<and> list_all (guitar_ok bs) out"
      unfolding out_def using that ns(1) draw_vel_bounds [of 31 60 h]
      by (intro chord_hit [where t = "slt * 120" and d = 1]) auto
    moreover have "slt mod 2 = 1" using False by simp
    then have "slt = 2 * (slt div 2) + 1" by presburger
    then have "\<exists>k < 8. slt = 2 * k + 1" using that by (intro exI [of _ "slt div 2"]) auto
    then have "list_all (offbeat bs) out" by (auto simp: out_def list_all_iff offbeat_def)
    ultimately show ?thesis using False by (simp add: body_def out_def [symmetric] list_all_iff)
  qed (simp add: body_def)
  then obtain blocks where "fst (for_each body [0 ..< 16] (snd (rng g))) = concat blocks"
    "list_all2 (\<lambda>x b. b = [] \<or> map pitch b = ns \<and> list_all (\<lambda>e. guitar_ok bs e \<and> offbeat bs e) b) [0 ..< 16] blocks"
    using for_each_blocks [of "[0 ..< 16]"
      "\<lambda>x b. b = [] \<or> map pitch b = ns \<and> list_all (\<lambda>e. guitar_ok bs e \<and> offbeat bs e) b" body] by blast
  with blocks_count [OF this(2)] show ?thesis by (auto simp: eq ns_def)
qed

subsection \<open>The engine\<close>

lemma over_bars_blocks:
  assumes "1 \<le> bars" "cs \<noteq> []"
    and "\<And>c bs g. 0 \<le> fst c \<Longrightarrow> fst c < 12 \<Longrightarrow> R c bs (fst (pattern c bs g))"
  shows "\<exists>blocks. over_bars pattern cs bars sd = concat blocks \<and>
    list_all2 (\<lambda>bar. R (parse_chord (cs ! (bar mod length cs))) (of_nat bar * 1920)) [0 ..< nat bars] blocks"
proof -
  have "R (parse_chord s) bs (fst (pattern (parse_chord s) bs g))" for s bs g
    using parse_chord_range [of s] by (intro assms(3)) auto
  then show ?thesis
    using assms(1,2) by (simp add: over_bars_def gt_ticks_per_bar_def kPpq_def for_each_blocks)
qed

text \<open>What one bar of a style sounds, for a chord on root \<open>r\<close> with quality \<open>q\<close>, as pitches in order.\<close>

definition bar_pitches :: "guitar_style \<Rightarrow> int \<Rightarrow> string \<Rightarrow> int list \<Rightarrow> bool" where
  "bar_pitches style r q ps \<longleftrightarrow>
     (case style of
        Arpeggio \<Rightarrow> mset ps = mset (map (\<lambda>off. 40 + r + off) (gt_offsets_for q))
      | Power_chord \<Rightarrow> ps = concat (replicate 4 (let n = (if r \<le> 5 then 52 + r else 40 + r) in [n, n + 7]))
      | Funk_chop \<Rightarrow> \<exists>k. ps = concat (replicate k (map (\<lambda>off. 55 + r + off) (gt_offsets_for q)))
      | _ \<Rightarrow> ps = concat (replicate 4 (map (\<lambda>off. 40 + r + off) (gt_offsets_for q))))"

text \<open>
  C27. The guitar part, for every style, seed and number of bars: one block of events per bar, the chords
  of the progression in turn. Every event is in the guitar's range on channel 0, has a velocity of 60
  to 115, and starts and ends inside its bar. A strummed bar is the voicing four times from the lowest
  string up, an arpeggio each note of it once, a power bar root and fifth on the four beats, a funk
  bar some repetitions of its voicing.
\<close>

theorem guitar_part_correct:
  assumes "1 \<le> bars" "cs \<noteq> []"
  shows "\<exists>blocks. generate_chords cs bars style sd = concat blocks \<and>
    list_all2 (\<lambda>bar block. list_all (guitar_ok (of_nat bar * 1920)) block \<and>
        (let (r, q) = parse_chord (cs ! (bar mod length cs)) in bar_pitches style r q (map pitch block)))
      [0 ..< nat bars] blocks"
proof -
  let ?R = "\<lambda>c bs block. list_all (guitar_ok bs) block \<and> bar_pitches style (fst c) (snd c) (map pitch block)"
  let ?p = "\<lambda>chord bar_start. case style of
          Strumming \<Rightarrow> strum_bar chord bar_start
        | Arpeggio \<Rightarrow> arpeggio_bar chord bar_start gt_ticks_per_bar
        | Power_chord \<Rightarrow> power_bar chord bar_start (of_nat kPpq)
        | Funk_chop \<Rightarrow> funk_bar chord bar_start (of_nat kPpq)
        | _ \<Rightarrow> strum_bar chord bar_start"
  have "?R c bs (fst (?p c bs g))" if c: "0 \<le> fst c" "fst c < 12" for c bs g
    using strum_bar_ok [OF c, of bs g] arpeggio_bar_ok [OF c, of bs g] power_bar_ok [OF c, of bs g] funk_bar_ok [OF c, of bs g]
    by (cases style) (auto simp: bar_pitches_def build_guitar_voicing_eq [OF c] build_power_voicing_eq [OF c]
      build_funk_voicing_eq [OF c] gt_ticks_per_bar_def kPpq_def list_all_iff)
  from over_bars_blocks [where R = ?R and pattern = ?p, OF assms this] show ?thesis
    by (simp add: generate_chords_def split_beta Let_def)
qed

theorem guitar_part_correct_witness:
  "\<exists>blocks. generate_chords [''C'', ''G7''] 2 Strumming 42 = concat blocks \<and> length blocks = 2 \<and>
    list_all (guitar_ok 0) (blocks ! 0)"
proof -
  obtain blocks where b: "generate_chords [''C'', ''G7''] 2 Strumming 42 = concat blocks"
    "list_all2 (\<lambda>bar block. list_all (guitar_ok (of_nat bar * 1920)) block \<and>
        (let (r, q) = parse_chord ([''C'', ''G7''] ! (bar mod length [''C'', ''G7''])) in
          bar_pitches Strumming r q (map pitch block))) [0 ..< nat 2] blocks"
    using guitar_part_correct [of 2 "[''C'', ''G7'']" Strumming 42] by auto
  then show ?thesis using list_all2_lengthD [OF b(2)] list_all2_nthD [OF b(2), of 0] by auto
qed

text \<open>
  The guitar plays in the wrong key: its lowest string is taken as pitch class 0, so the lowest note
  of a strummed or arpeggiated chord and of a power chord is a major third above the chord's root, and
  of a funk chord a fifth above it, for every chord.
\<close>

theorem guitar_voicings_transposed:
  assumes "0 \<le> r" "r < 12"
  shows "hd (build_guitar_voicing r q) mod 12 = (r + 4) mod 12 \<and>
    hd (build_power_voicing r) mod 12 = (r + 4) mod 12 \<and>
    hd (build_funk_voicing r q) mod 12 = (r + 7) mod 12"
proof -
  have "(40 + r) mod 12 = (r + 4) mod 12" "(52 + r) mod 12 = (r + 4) mod 12" "(55 + r) mod 12 = (r + 7) mod 12"
    using mod_mult_self1 [of "r + 4" 3 12] mod_mult_self1 [of "r + 4" 4 12] mod_mult_self1 [of "r + 7" 4 12]
    by (simp_all add: algebra_simps)
  then show ?thesis
    using gt_offsets_ok(1,2) [of q]
    by (simp add: build_guitar_voicing_eq [OF assms] build_power_voicing_eq [OF assms] build_funk_voicing_eq [OF assms]
      Let_def hd_map)
qed

theorem guitar_voicings_transposed_witness:
  "hd (build_guitar_voicing 0 ''maj'') mod 12 = 4 \<and> hd (build_funk_voicing 0 ''maj'') mod 12 = 7"
  using guitar_voicings_transposed [of 0 "''maj''"] by simp

subsection \<open>Riffs\<close>

lemma push_distinct_set:
  "set (foldl (\<lambda>ns n. if n \<ge> lo \<and> n \<le> hi then if n \<in> set ns then ns else ns @ [n] else ns) acc xs) =
   set acc \<union> {n \<in> set xs. lo \<le> n \<and> n \<le> (hi :: int)}"
  by (induction xs arbitrary: acc) auto

lemma concat_map_mem:
  "n \<in> set (concat (map (\<lambda>a. map (f a) ivs) as)) \<Longrightarrow> \<exists>a \<in> set as. \<exists>y \<in> set ivs. n = f a y"
  by auto

lemma riff_notes_ok:
  assumes "knows sc"
  shows "riff_notes (Some (intervals_of, intervals_for)) key sc \<noteq> [] \<and>
    (\<forall>n \<in> set (riff_notes (Some (intervals_of, intervals_for)) key sc).
      40 \<le> n \<and> n \<le> 72 \<and> n mod 12 \<in> set (intervals_for sc (mod_parse_root_pc key)))"
proof -
  define ivs where "ivs = intervals_for sc (mod_parse_root_pc key)"
  have pc: "0 \<le> x \<and> x < 12" if "x \<in> set ivs" for x using that scales.pitch_classes by (simp add: ivs_def)
  have ne: "ivs \<noteq> []" using scales.root_first [OF assms] by (simp add: ivs_def)
  define cand where "cand = concat (map (\<lambda>oct. map (\<lambda>pc. oct * 12 + pc smod 12) ivs) [3, 4, 5 :: int])"
  define ns where "ns = sort (foldl (\<lambda>ns n. if n \<ge> 40 \<and> n \<le> 72 then if n \<in> set ns then ns else ns @ [n] else ns) [] cand)"
  have set_ns: "set ns = {n \<in> set cand. 40 \<le> n \<and> n \<le> 72}"
    unfolding ns_def set_sort push_distinct_set by simp
  obtain x where x: "x \<in> set ivs" using ne by (metis list.set_intros(1) neq_Nil_conv)
  then have "4 * 12 + x smod 12 \<in> set cand" by (auto simp: cand_def)
  then have "48 + x \<in> set ns" using pc [OF x] by (simp add: set_ns smod_nonneg_eq)
  then have ns: "ns \<noteq> []" by auto
  have oct: "(a * 12 + y smod 12) mod 12 = y" if "y \<in> set ivs" for a y
    using pc [OF that] by (simp add: smod_nonneg_eq)
  have mem: "n mod 12 \<in> set ivs" if "n \<in> set cand" for n
  proof -
    from concat_map_mem [where f = "\<lambda>oct pc. oct * 12 + pc smod 12", OF that [unfolded cand_def]]
    obtain a y where "y \<in> set ivs" "n = a * 12 + y smod 12" by (elim bexE)
    then show ?thesis by (simp only: oct)
  qed
  have "riff_notes (Some (intervals_of, intervals_for)) key sc = ns"
    unfolding riff_notes_def Let_def option.case prod.case ivs_def [symmetric] if_not_P [OF ne]
      cand_def [symmetric] ns_def [symmetric] if_not_P [OF ns] ..
  then show ?thesis using ns mem set_ns unfolding ivs_def by blast
qed

text \<open>
  A riff in a known scale stays in that scale and in the range of the lower strings: every note's
  pitch class is a degree of the transposed scale and its pitch is between 40 and 72, with a velocity
  of 70 to 105.
\<close>

theorem riff_in_scale:
  assumes "knows sc"
  shows "list_all (\<lambda>e. 40 \<le> pitch e \<and> pitch e \<le> 72 \<and> pitch e mod 12 \<in> set (intervals_for sc (parse_root_pc key)) \<and>
      vel_in 70 105 e \<and> channel e = 0)
    (generate_riff (Some (intervals_of, intervals_for)) key sc bars sd)"
proof -
  define ns where "ns = riff_notes (Some (intervals_of, intervals_for)) key sc"
  let ?P = "\<lambda>e. 40 \<le> pitch e \<and> pitch e \<le> 72 \<and> pitch e mod 12 \<in> set (intervals_for sc (parse_root_pc key)) \<and>
      vel_in 70 105 e \<and> channel e = 0"
  have ns: "ns \<noteq> []" "\<And>n. n \<in> set ns \<Longrightarrow> 40 \<le> n \<and> n \<le> 72 \<and> n mod 12 \<in> set (intervals_for sc (parse_root_pc key))"
    using riff_notes_ok [OF assms, of key] by (auto simp: ns_def mod_parse_root_pc_eq)
  have "list_all ?P (fst (riff_slot ns bar r slt g))" for bar r slt g
  proof (cases "skips_slot slt r")
    case False
    define n where "n = ns ! (unat (fst (rng g) + of_nat slt + of_nat bar) mod length ns)"
    define v where "v = fst (draw_vel 70 36 (snd (rng g)))"
    have "n \<in> set ns" using ns(1) by (simp add: n_def)
    then have "uint (word_of_int n :: u8) = n" "?P (make_event on off (word_of_int n) v 0)" for on off
      using ns(2) [of n] uint_u8_of_int [of n] draw_vel_bounds [of 36 70 "snd (rng g)"] by (auto simp: v_def)
    then show ?thesis
      using False by (simp add: riff_slot_def split_beta Let_def n_def [symmetric] v_def [symmetric])
  qed (simp add: riff_slot_def Let_def)
  then have "list_all ?P (fst (for_each (riff_slot ns bar r) [0 ..< 8] g))" for bar r g by (intro for_each_all)
  then have "list_all ?P (fst (for_each (\<lambda>bar g. let (r, g1) = rng g in for_each (riff_slot ns bar r) [0 ..< 8] g1) xs g))" for xs g
    by (intro for_each_all) (simp add: split_beta Let_def)
  then show ?thesis by (simp add: generate_riff_def ns_def [symmetric] Let_def)
qed

theorem riff_in_scale_witness:
  "knows ''blues'' \<and> list_all (\<lambda>e. pitch e mod 12 \<in> set (intervals_for ''blues'' (parse_root_pc ''E'')))
    (generate_riff (Some (intervals_of, intervals_for)) ''E'' ''blues'' 2 9)"
proof -
  have k: "knows ''blues''" by (simp add: knows_def kScales_def)
  show ?thesis using k riff_in_scale [OF k, of "''E''" 2 9] by (simp add: list_all_iff)
qed

end
