(* ===== verification/Strings_Engine.thy ===== *)
theory Strings_Engine
  imports Guitar_Engine
begin

text \<open>
  The strings engine (\<open>strings_engine.cpp\<close>): close voicings in the range of a section, pads,
  swells and a stepwise countermelody. The chord-symbol parser is the guitar engine's (the branches
  it lacks assign the value just tested), and so is the loop over the bars.
\<close>

datatype strings_section = Violin | Viola | Cello | Contrabass | Full_ensemble

record section_range =
  sr_min :: int
  sr_max :: int
  sr_channel :: u8

definition st_offsets_for :: "string \<Rightarrow> int list" where
  "st_offsets_for q =
     (if q = ''maj'' then [0, 4, 7]
      else if q = ''min'' then [0, 3, 7]
      else if q = ''7'' then [0, 4, 7, 10]
      else if q = ''m7'' then [0, 3, 7, 10]
      else if q = ''maj7'' then [0, 4, 7, 11]
      else if q = ''m7b5'' then [0, 3, 6, 10]
      else if q = ''dim'' then [0, 3, 6]
      else if q = ''dim7'' then [0, 3, 6, 9]
      else [0, 4, 7])"

fun range_for :: "strings_section \<Rightarrow> section_range" where
  "range_for Violin = \<lparr>sr_min = 55, sr_max = 84, sr_channel = 0\<rparr>"
| "range_for Viola = \<lparr>sr_min = 48, sr_max = 76, sr_channel = 1\<rparr>"
| "range_for Cello = \<lparr>sr_min = 36, sr_max = 60, sr_channel = 2\<rparr>"
| "range_for Contrabass = \<lparr>sr_min = 28, sr_max = 48, sr_channel = 3\<rparr>"
| "range_for Full_ensemble = \<lparr>sr_min = 28, sr_max = 84, sr_channel = 0\<rparr>"

definition in_range :: "int \<Rightarrow> section_range \<Rightarrow> bool" where
  "in_range n r \<longleftrightarrow> n \<ge> sr_min r \<and> n \<le> sr_max r"

text \<open>\<open>while (root_note < range.min + 6) root_note += 12;\<close> and its counterpart downwards.\<close>

function raise_root :: "int \<Rightarrow> int \<Rightarrow> int" where
  "raise_root lo n = (if n < lo + 6 then raise_root lo (n + 12) else n)"
  by pat_completeness auto
termination by (relation "measure (\<lambda>(lo, n). nat (lo + 6 - n))") auto

function lower_root :: "int \<Rightarrow> int \<Rightarrow> int" where
  "lower_root lo n = (if n > lo + 18 then lower_root lo (n - 12) else n)"
  by pat_completeness auto
termination by (relation "measure (\<lambda>(lo, n). nat (n - lo - 18))") auto

declare raise_root.simps [simp del] lower_root.simps [simp del]

definition fit_in :: "section_range \<Rightarrow> int \<Rightarrow> int" where
  "fit_in rg n =
     (let n = (if n < sr_min rg then n + 12 else n) in if n > sr_max rg then n - 12 else n)"

definition voice_in_range :: "int \<Rightarrow> string \<Rightarrow> section_range \<Rightarrow> int list" where
  "voice_in_range rpc q rg =
     (let offsets = st_offsets_for q;
          offsets = (if offsets = [] then [0, 4, 7] else offsets);
          root_oct = sr_min rg sdiv 12;
          root_note = root_oct * 12 + rpc smod 12;
          root_note = raise_root (sr_min rg) root_note;
          root_note = lower_root (sr_min rg) root_note;
          ns = foldl (\<lambda>ns off. let n = fit_in rg (root_note + off)
                 in if in_range n rg then if n \<in> set ns then ns else ns @ [n] else ns) [] offsets;
          ns = (if ns = [] then filter (\<lambda>f. in_range f rg) [root_note, root_note + 4, root_note + 7] else ns)
      in sort ns)"

subsection \<open>Pads and swells\<close>

definition ensemble_ranges :: "section_range list" where
  "ensemble_ranges =
     [\<lparr>sr_min = 55, sr_max = 84, sr_channel = 0\<rparr>, \<lparr>sr_min = 48, sr_max = 76, sr_channel = 1\<rparr>,
      \<lparr>sr_min = 36, sr_max = 60, sr_channel = 2\<rparr>, \<lparr>sr_min = 28, sr_max = 48, sr_channel = 3\<rparr>]"

definition pad_emit :: "u32 \<Rightarrow> u32 \<Rightarrow> int list \<Rightarrow> u8 \<Rightarrow> u8 \<Rightarrow> midi_event list" where
  "pad_emit bar_start duration ns ch vel =
     map (\<lambda>n. make_event bar_start (bar_start + duration) (word_of_int n) vel ch) ns"

definition pad_bar :: "strings_section \<Rightarrow> int \<times> string \<Rightarrow> u32 \<Rightarrow> mt19937_64 \<Rightarrow> midi_event list \<times> mt19937_64" where
  "pad_bar sect = (\<lambda>(rpc, q) bar_start g.
     let duration = gt_ticks_per_bar - 20 in
     if sect = Full_ensemble
     then let vln = voice_in_range rpc q (ensemble_ranges ! 0);
              vla = voice_in_range rpc q (ensemble_ranges ! 1);
              cel = voice_in_range rpc q (ensemble_ranges ! 2);
              cb = voice_in_range rpc q (ensemble_ranges ! 3);
              (vel_vln, g1) = draw_vel 60 16 g;
              (vel_vla, g2) = draw_vel 60 16 g1;
              (vel_cel, g3) = draw_vel 65 16 g2;
              (vel_cb, g4) = draw_vel 70 16 g3
          in (pad_emit bar_start duration vln 0 vel_vln @ pad_emit bar_start duration vla 1 vel_vla @
              pad_emit bar_start duration cel 2 vel_cel @ pad_emit bar_start duration cb 3 vel_cb, g4)
     else let rg = range_for sect;
              ns = voice_in_range rpc q rg;
              (vel_base, g1) = draw_vel 60 21 g
          in for_each (\<lambda>n g.
               let (r, g1) = rng_mod 11 g;
                   vel = (word_of_int (min 127 (int (unat vel_base) + int r - 5)) :: u8)
               in ([make_event bar_start (bar_start + duration) (word_of_int n) vel (sr_channel rg)], g1))
             ns g1)"

definition generate_pad :: "string list \<Rightarrow> int \<Rightarrow> strings_section \<Rightarrow> u64 \<Rightarrow> midi_event list" where
  "generate_pad chord_progression bars sect sd = over_bars (pad_bar sect) chord_progression bars sd"

text \<open>One note of a swell: a soft layer from the bar line and a louder one from the middle of the bar.\<close>

definition swell_note :: "u32 \<Rightarrow> u8 \<Rightarrow> int \<Rightarrow> int \<Rightarrow> mt19937_64 \<Rightarrow> midi_event list \<times> mt19937_64" where
  "swell_note bar_start ch vel_start n g =
     (let duration = gt_ticks_per_bar - 5;
          start_vel = (word_of_int (min 127 vel_start) :: u8);
          (r, g1) = rng_mod 11 g;
          end_vel = (word_of_int (min 127 (vel_start + 30 + int r)) :: u8)
      in ([make_event bar_start (bar_start + duration) (word_of_int n) start_vel ch,
           make_event (bar_start + gt_ticks_per_bar div 2) (bar_start + duration) (word_of_int n) end_vel ch], g1))"

definition emit_swell :: "u32 \<Rightarrow> int list \<Rightarrow> u8 \<Rightarrow> nat \<Rightarrow> mt19937_64 \<Rightarrow> midi_event list \<times> mt19937_64" where
  "emit_swell bar_start ns ch lo g =
     (let (r, g1) = rng_mod 11 g in for_each (swell_note bar_start ch (int lo + int r)) ns g1)"

text \<open>In the single-section case each note draws its own start velocity before it swells.\<close>

definition swell_bar :: "strings_section \<Rightarrow> int \<times> string \<Rightarrow> u32 \<Rightarrow> mt19937_64 \<Rightarrow> midi_event list \<times> mt19937_64" where
  "swell_bar sect = (\<lambda>(rpc, q) bar_start g.
     if sect = Full_ensemble
     then let (e0, g1) = emit_swell bar_start (voice_in_range rpc q (ensemble_ranges ! 0)) 0 55 g;
              (e1, g2) = emit_swell bar_start (voice_in_range rpc q (ensemble_ranges ! 1)) 1 55 g1;
              (e2, g3) = emit_swell bar_start (voice_in_range rpc q (ensemble_ranges ! 2)) 2 60 g2;
              (e3, g4) = emit_swell bar_start (voice_in_range rpc q (ensemble_ranges ! 3)) 3 65 g3
          in (e0 @ e1 @ e2 @ e3, g4)
     else let rg = range_for sect
          in for_each (\<lambda>n g.
               let (r, g1) = rng_mod 11 g in swell_note bar_start (sr_channel rg) (55 + int r) n g1)
             (voice_in_range rpc q rg) g)"

definition generate_swells :: "string list \<Rightarrow> int \<Rightarrow> strings_section \<Rightarrow> u64 \<Rightarrow> midi_event list" where
  "generate_swells chord_progression bars sect sd = over_bars (swell_bar sect) chord_progression bars sd"

subsection \<open>Countermelody\<close>

definition melody_pool :: "scale_service option \<Rightarrow> string \<Rightarrow> string \<Rightarrow> section_range \<Rightarrow> int list" where
  "melody_pool scales key scale_name rg =
     (let key_pc = mod_parse_root_pc key;
          pcs = (case scales of None \<Rightarrow> [] | Some (_, for_root) \<Rightarrow> for_root scale_name key_pc);
          pcs = (if pcs = [] then map (\<lambda>iv. (key_pc + iv) smod 12) kMajor else pcs);
          candidates = concat (map (\<lambda>oct. map (\<lambda>pc. oct * 12 + pc smod 12) pcs)
            [sr_min rg sdiv 12 .. sr_max rg sdiv 12 + 1]);
          ns = foldl (\<lambda>ns n. if n \<ge> sr_min rg + 6 \<and> n \<le> sr_max rg
                 then if n \<in> set ns then ns else ns @ [n] else ns) [] candidates;
          ns = (if ns = [] then [60, 62, 64, 65, 67, 69, 71, 72] else ns)
      in sort ns)"

text \<open>The next note: one place up or down in the pool, staying at the ends.\<close>

definition step_in_pool :: "int list \<Rightarrow> int \<Rightarrow> int \<Rightarrow> int" where
  "step_in_pool pool cur direction =
     (let current_idx = (case find (\<lambda>i. pool ! i = cur) [0 ..< length pool] of Some i \<Rightarrow> int i | None \<Rightarrow> - 1);
          next_idx = current_idx + direction;
          next_idx = max 0 (min (int (length pool) - 1) next_idx)
      in pool ! nat next_idx)"

definition melody_beat ::
  "int list \<Rightarrow> u8 \<Rightarrow> u32 \<Rightarrow> nat \<Rightarrow> int \<times> mt19937_64 \<Rightarrow> midi_event list \<times> int \<times> mt19937_64" where
  "melody_beat pool ch bar_start beat = (\<lambda>(cur, g).
     let beat_tick = bar_start + of_nat beat * of_nat kPpq;
         duration = (if beat mod 2 = 0 then of_nat kPpq * 2 - 10 else of_nat kPpq - 10 :: u32);
         (vel, g1) = draw_vel 65 21 g;
         e = make_event beat_tick (beat_tick + duration) (word_of_int cur) vel ch;
         (s, g2) = rng_mod 2 g1;
         step = (if s = 0 then 1 else - 1);
         (d, g3) = rng_mod 3 g2;
         direction = (if d = 0 then - step else step)
     in ([e], step_in_pool pool cur direction, g3))"

definition generate_countermelody ::
  "scale_service option \<Rightarrow> string \<Rightarrow> string \<Rightarrow> string list \<Rightarrow> int \<Rightarrow> strings_section \<Rightarrow> u64 \<Rightarrow> midi_event list" where
  "generate_countermelody scales key scale_name chord_progression bars sect sd =
     (if bars < 1 \<or> chord_progression = [] then []
      else let rg = range_for sect;
               pool = melody_pool scales key scale_name rg;
               (r, g) = rng_mod (length pool) (mt_seed sd)
           in fst (for_each (\<lambda>bar. for_each (melody_beat pool (sr_channel rg) (of_nat bar * gt_ticks_per_bar)) [0 ..< 4])
                [0 ..< nat bars] (pool ! r, g)))"

subsection \<open>Voicings\<close>

lemma st_offsets_ok:
  "st_offsets_for q \<noteq> []" "distinct (st_offsets_for q)" "x \<in> set (st_offsets_for q) \<Longrightarrow> 0 \<le> x \<and> x \<le> 11"
  by (auto simp: st_offsets_for_def split: if_splits)

lemma raise_root_ok: "n \<le> lo + 17 \<Longrightarrow> lo + 6 \<le> raise_root lo n \<and> raise_root lo n \<le> lo + 17 \<and> raise_root lo n mod 12 = n mod 12"
proof (induction lo n rule: raise_root.induct)
  case (1 lo n)
  then show ?case by (subst (1 2 3) raise_root.simps) (auto simp: raise_root.simps [of lo n])
qed

lemma lower_root_id: "n \<le> lo + 18 \<Longrightarrow> lower_root lo n = n"
  by (subst lower_root.simps) simp

lemma fit_in_ok:
  assumes "sr_min rg \<le> n" "n \<le> sr_min rg + 28" "sr_min rg + 16 \<le> sr_max rg"
  shows "in_range (fit_in rg n) rg \<and> fit_in rg n mod 12 = n mod 12"
proof -
  have "(n - 12) mod 12 = n mod 12" using mod_mult_self1 [of n "- 1" 12] by simp
  then show ?thesis using assms by (auto simp: fit_in_def in_range_def Let_def)
qed

lemma foldl_push_distinct:
  assumes "distinct (map f xs)" "set (map f xs) \<inter> set acc = {}" "\<forall>x \<in> set xs. P (f x)"
  shows "foldl (\<lambda>ns x. let n = f x in if P n then if n \<in> set ns then ns else ns @ [n] else ns) acc xs = acc @ map f xs"
  using assms by (induction xs arbitrary: acc) (auto simp: Let_def)

text \<open>
  The voicing in a section's range: one note per chord tone, all distinct and in the range, in
  ascending order, with exactly the pitch classes of the chord.
\<close>

definition voices_chord :: "int \<Rightarrow> string \<Rightarrow> section_range \<Rightarrow> int list \<Rightarrow> bool" where
  "voices_chord r q rg ns \<longleftrightarrow>
     sorted ns \<and> distinct ns \<and> length ns = length (st_offsets_for q) \<and> (\<forall>n \<in> set ns. in_range n rg) \<and>
     (\<lambda>n. n mod 12) ` set ns = (\<lambda>off. (r + off) mod 12) ` set (st_offsets_for q)"

lemma voice_in_range_ok:
  assumes "0 \<le> r" "r < 12" "0 \<le> sr_min rg" "sr_min rg + 16 \<le> sr_max rg"
  shows "voices_chord r q rg (voice_in_range r q rg)"
proof -
  define lo where "lo = sr_min rg"
  define start where "start = lo sdiv 12 * 12 + r smod 12"
  define root where "root = lower_root lo (raise_root lo start)"
  have "lo div 12 * 12 \<le> lo" using minus_mod_eq_div_mult [of lo 12] pos_mod_sign [of 12 lo] by linarith
  then have "start \<le> lo + 17" using assms(1-3) by (simp add: start_def lo_def sdiv_nonneg_eq smod_nonneg_eq)
  moreover have "start mod 12 = r" using assms(1-3) by (simp add: start_def lo_def sdiv_nonneg_eq smod_nonneg_eq)
  ultimately have root: "lo + 6 \<le> root" "root \<le> lo + 17" "root mod 12 = r"
    using raise_root_ok [of start lo] lower_root_id [of "raise_root lo start" lo] by (simp_all add: root_def)
  have fit: "in_range (fit_in rg (root + off)) rg" "fit_in rg (root + off) mod 12 = (r + off) mod 12"
    if "off \<in> set (st_offsets_for q)" for off
  proof -
    have "sr_min rg \<le> root + off" "root + off \<le> sr_min rg + 28"
      using root st_offsets_ok(3) [OF that] by (simp_all add: lo_def)
    note f = fit_in_ok [OF this assms(4)]
    show "in_range (fit_in rg (root + off)) rg" using f by blast
    have "(root + off) mod 12 = (r + off) mod 12" using root(3) by (metis mod_add_left_eq)
    then show "fit_in rg (root + off) mod 12 = (r + off) mod 12" using f by simp
  qed
  have "inj_on (\<lambda>off. fit_in rg (root + off)) (set (st_offsets_for q))"
  proof (rule inj_onI)
    fix x y assume xy: "x \<in> set (st_offsets_for q)" "y \<in> set (st_offsets_for q)" "fit_in rg (root + x) = fit_in rg (root + y)"
    then have "(r + x) mod 12 = (r + y) mod 12" using fit(2) by metis
    then have "12 dvd x - y" by (simp add: mod_eq_dvd_iff)
    then show "x = y" using st_offsets_ok(3) [OF xy(1)] st_offsets_ok(3) [OF xy(2)] by presburger
  qed
  then have dist: "distinct (map (\<lambda>off. fit_in rg (root + off)) (st_offsets_for q))"
    using st_offsets_ok(2) by (simp add: distinct_map)
  define ns where "ns = map (\<lambda>off. fit_in rg (root + off)) (st_offsets_for q)"
  have push: "foldl (\<lambda>ns off. let n = fit_in rg (root + off) in if in_range n rg then if n \<in> set ns then ns else ns @ [n] else ns)
      [] (st_offsets_for q) = [] @ ns"
    unfolding ns_def using dist fit(1) by (intro foldl_push_distinct) auto
  have ne: "ns \<noteq> []" using st_offsets_ok(1) by (simp add: ns_def)
  have "voice_in_range r q rg = sort ns"
    unfolding voice_in_range_def Let_def if_not_P [OF st_offsets_ok(1)] lo_def [symmetric] start_def [symmetric]
      root_def [symmetric] push [unfolded Let_def append_Nil] if_not_P [OF ne] ..
  moreover have "distinct ns" "length ns = length (st_offsets_for q)" "\<forall>n \<in> set ns. in_range n rg"
    "(\<lambda>n. n mod 12) ` set ns = (\<lambda>off. (r + off) mod 12) ` set (st_offsets_for q)"
    using dist fit by (auto simp: ns_def image_image)
  ultimately show ?thesis by (simp add: voices_chord_def)
qed

subsection \<open>Pads and swells: what a bar holds\<close>

definition sections_of :: "strings_section \<Rightarrow> section_range list" where
  "sections_of sect = (if sect = Full_ensemble then ensemble_ranges else [range_for sect])"

lemma sections_ranges:
  "rg \<in> set (sections_of sect) \<Longrightarrow> 0 \<le> sr_min rg \<and> sr_min rg + 16 \<le> sr_max rg \<and> sr_max rg \<le> 84"
  by (cases sect) (auto simp: sections_of_def ensemble_ranges_def)

lemma ensemble_voicings:
  assumes "0 \<le> r" "r < 12" "rg \<in> set (sections_of sect)"
  shows "voices_chord r q rg (voice_in_range r q rg)"
    "n \<in> set (voice_in_range r q rg) \<Longrightarrow> 0 \<le> n \<and> n \<le> 84"
proof -
  show v: "voices_chord r q rg (voice_in_range r q rg)"
    using sections_ranges [OF assms(3)] by (intro voice_in_range_ok assms(1,2)) auto
  show "n \<in> set (voice_in_range r q rg) \<Longrightarrow> 0 \<le> n \<and> n \<le> 84"
    using v sections_ranges [OF assms(3)] by (fastforce simp: voices_chord_def in_range_def)
qed

text \<open>The part of one section in one bar of a pad.\<close>

definition pad_part :: "int \<times> string \<Rightarrow> u32 \<Rightarrow> section_range \<Rightarrow> midi_event list \<Rightarrow> bool" where
  "pad_part chord bs rg es \<longleftrightarrow>
     voices_chord (fst chord) (snd chord) rg (map pitch es) \<and>
     list_all (\<lambda>e. channel e = sr_channel rg \<and> tick_on e = bs \<and> tick_off e = bs + 1900 \<and> vel_in 55 85 e) es"

lemma map_pitch_id:
  "\<forall>n \<in> set ns. 0 \<le> n \<and> n \<le> 84 \<Longrightarrow> map pitch (map (\<lambda>n. make_event on off (word_of_int n) v ch) ns) = ns"
  using uint_u8_of_int by (induction ns) auto

lemma pad_emit_part:
  assumes "0 \<le> fst c" "fst c < 12" "rg \<in> set (sections_of sect)" "55 \<le> unat v" "unat v \<le> 85" "ch = sr_channel rg"
  shows "pad_part c bs rg (pad_emit bs 1900 (voice_in_range (fst c) (snd c) rg) ch v)"
proof -
  have "map pitch (pad_emit bs 1900 (voice_in_range (fst c) (snd c) rg) ch v) = voice_in_range (fst c) (snd c) rg"
    unfolding pad_emit_def by (rule map_pitch_id) (use ensemble_voicings(2) [OF assms(1-3)] in blast)
  then show ?thesis
    using assms(4-6) ensemble_voicings(1) [OF assms(1-3)]
    by (auto simp: pad_part_def list_all_iff pad_emit_def vel_in_def)
qed

lemma list_all2_pitch_plain: "list_all2 (\<lambda>n e. pitch e = n \<and> P e) ns es \<Longrightarrow> map pitch es = ns \<and> list_all P es"
  by (induction ns es rule: list_all2_induct) auto

lemma pad_single_part:
  assumes "0 \<le> fst c" "fst c < 12" "sect \<noteq> Full_ensemble"
  shows "pad_part c bs (range_for sect) (fst (pad_bar sect c bs g))"
proof -
  define rg where "rg = range_for sect"
  define ns where "ns = voice_in_range (fst c) (snd c) rg"
  define v where "v = draw_vel 60 21 g"
  define body where "body = (\<lambda>n g. let (r, g1) = rng_mod 11 g;
      vel = (word_of_int (min 127 (int (unat (fst v)) + int r - 5)) :: u8)
    in ([make_event bs (bs + 1900) (word_of_int n) vel (sr_channel rg)], g1))"
  have rg: "rg \<in> set (sections_of sect)" using assms(3) by (simp add: rg_def sections_of_def)
  have v: "60 \<le> unat (fst v)" "unat (fst v) \<le> 80" using draw_vel_bounds [of 21 60 g] by (auto simp: v_def)
  have eq: "fst (pad_bar sect c bs g) = fst (for_each body ns (snd v))"
    using assms(3) by (simp add: pad_bar_def split_beta Let_def ns_def rg_def body_def v_def gt_ticks_per_bar_def kPpq_def)
  have "list_all2 (\<lambda>n e. pitch e = n \<and> channel e = sr_channel rg \<and> tick_on e = bs \<and> tick_off e = bs + 1900 \<and> vel_in 55 85 e)
      ns (fst (for_each body ns (snd v)))"
  proof (rule for_each_list_all2)
    fix n h assume "n \<in> set ns"
    then have n: "pitch (make_event on off (word_of_int n) w ch) = n" for on off w ch
      using ensemble_voicings(2) [OF assms(1,2) rg] uint_u8_of_int [of n] by (fastforce simp: ns_def)
    define w where "w = min 127 (int (unat (fst v)) + int (fst (rng_mod 11 h)) - 5)"
    have "60 \<le> int (unat (fst v))" "int (unat (fst v)) \<le> 80" using v by (metis of_nat_le_iff of_nat_numeral)+
    then have w: "55 \<le> w" "w \<le> 85" using mt.draw_less [of 11 h] by (auto simp: w_def)
    then have vw: "55 \<le> unat (word_of_int w :: u8)" "unat (word_of_int w :: u8) \<le> 85"
      using unat_u8_of_int_small [of w] by auto
    have "fst (body n h) = [make_event bs (bs + 1900) (word_of_int n) (word_of_int w) (sr_channel rg)]"
      by (simp add: body_def w_def split_beta Let_def)
    then show "\<exists>e. fst (body n h) = [e] \<and> pitch e = n \<and> channel e = sr_channel rg \<and> tick_on e = bs \<and>
        tick_off e = bs + 1900 \<and> vel_in 55 85 e"
      using n [of bs "bs + 1900" "word_of_int w" "sr_channel rg"] vw by (simp add: vel_in_def)
  qed
  from list_all2_pitch_plain [OF this] show ?thesis
    using ensemble_voicings(1) [OF assms(1,2) rg, of "snd c"]
    unfolding pad_part_def eq rg_def [symmetric] ns_def by simp
qed

lemma pad_bar_parts:
  assumes "0 \<le> fst c" "fst c < 12"
  shows "\<exists>parts. fst (pad_bar sect c bs g) = concat parts \<and> list_all2 (pad_part c bs) (sections_of sect) parts"
proof (cases "sect = Full_ensemble")
  case False
  then show ?thesis
    using pad_single_part [OF assms False, of bs g]
    by (intro exI [of _ "[fst (pad_bar sect c bs g)]"]) (simp add: sections_of_def)
next
  case True
  define v0 where "v0 = draw_vel 60 16 g"
  define v1 where "v1 = draw_vel 60 16 (snd v0)"
  define v2 where "v2 = draw_vel 65 16 (snd v1)"
  define v3 where "v3 = draw_vel 70 16 (snd v2)"
  let ?p = "\<lambda>i v. pad_emit bs 1900 (voice_in_range (fst c) (snd c) (ensemble_ranges ! i)) (of_nat i) (fst v)"
  have "fst (pad_bar sect c bs g) = concat [?p 0 v0, ?p 1 v1, ?p 2 v2, ?p 3 v3]"
    by (simp add: True pad_bar_def split_beta Let_def v0_def v1_def v2_def v3_def gt_ticks_per_bar_def kPpq_def)
  moreover have part: "pad_part c bs (ensemble_ranges ! i) (?p i v)"
    if "i < 4" "60 \<le> unat (fst v)" "unat (fst v) \<le> 85" for i v
  proof -
    have "i = 0 \<or> i = 1 \<or> i = 2 \<or> i = 3" using that(1) by auto
    then have "ensemble_ranges ! i \<in> set (sections_of Full_ensemble)" "of_nat i = sr_channel (ensemble_ranges ! i)"
      by (auto simp: ensemble_ranges_def sections_of_def)
    with that show ?thesis by (intro pad_emit_part assms) auto
  qed
  moreover have "60 \<le> unat (fst v0) \<and> unat (fst v0) \<le> 85" "60 \<le> unat (fst v1) \<and> unat (fst v1) \<le> 85"
    "60 \<le> unat (fst v2) \<and> unat (fst v2) \<le> 85" "60 \<le> unat (fst v3) \<and> unat (fst v3) \<le> 85"
    using draw_vel_bounds [of 16 60 g] draw_vel_bounds [of 16 60 "snd v0"] draw_vel_bounds [of 16 65 "snd v1"]
      draw_vel_bounds [of 16 70 "snd v2"] by (auto simp: v0_def v1_def v2_def v3_def)
  moreover have "sections_of sect = [ensemble_ranges ! 0, ensemble_ranges ! 1, ensemble_ranges ! 2, ensemble_ranges ! 3]"
    by (simp add: True sections_of_def ensemble_ranges_def)
  ultimately show ?thesis
    using part [of 0 v0] part [of 1 v1] part [of 2 v2] part [of 3 v3]
    by (intro exI [of _ "[?p 0 v0, ?p 1 v1, ?p 2 v2, ?p 3 v3]"]) simp
qed

text \<open>
  A string pad holds every chord for its bar: the chords of the progression in turn, one per bar, each
  section in play sounding exactly the chord's tones, once each and inside its range, on its own
  channel from the bar line until 20 ticks before the next, with velocities of 55 to 85. The full
  ensemble is the four sections together.
\<close>

theorem strings_pad_correct:
  assumes "1 \<le> bars" "cs \<noteq> []"
  shows "\<exists>blocks. generate_pad cs bars sect sd = concat blocks \<and>
    list_all2 (\<lambda>bar block. \<exists>parts. block = concat parts \<and>
        list_all2 (pad_part (parse_chord (cs ! (bar mod length cs))) (of_nat bar * 1920)) (sections_of sect) parts)
      [0 ..< nat bars] blocks"
  unfolding generate_pad_def
  by (rule over_bars_blocks [where R = "\<lambda>c bs block. \<exists>parts. block = concat parts \<and>
        list_all2 (pad_part c bs) (sections_of sect) parts", OF assms]) (rule pad_bar_parts)

theorem strings_pad_correct_witness:
  "\<exists>block parts. generate_pad [''Am7''] 1 Full_ensemble 5 = concat parts \<and> length parts = 4 \<and>
    voices_chord 9 ''m7'' (range_for Violin) (map pitch (hd parts)) \<and> block = hd parts"
proof -
  obtain blocks where b: "generate_pad [''Am7''] 1 Full_ensemble 5 = concat blocks"
    "list_all2 (\<lambda>bar block. \<exists>parts. block = concat parts \<and>
        list_all2 (pad_part (parse_chord ([''Am7''] ! (bar mod length [''Am7'']))) (of_nat bar * 1920))
          (sections_of Full_ensemble) parts) [0 ..< nat 1] blocks"
    using strings_pad_correct [of 1 "[''Am7'']" Full_ensemble 5] by blast
  then obtain parts where "blocks = [concat parts]"
    "list_all2 (pad_part (parse_chord ''Am7'') 0) (sections_of Full_ensemble) parts"
    by (auto simp: list_all2_Cons1)
  moreover have "parse_chord ''Am7'' = (9, ''m7'')" by code_simp
  ultimately show ?thesis
    using b(1) by (auto simp: list_all2_Cons1 sections_of_def ensemble_ranges_def pad_part_def)
qed

text \<open>
  The part of one section in one bar of swells: every note of the voicing twice, softly from the bar
  line and 30 to 40 steps louder from the middle of the bar, both until 5 ticks before the next bar.
\<close>

definition swell_pair :: "u32 \<Rightarrow> u8 \<Rightarrow> int \<times> u8 \<times> u8 \<Rightarrow> midi_event list" where
  "swell_pair bs ch = (\<lambda>(n, v, w).
     [make_event bs (bs + 1915) (word_of_int n) v ch, make_event (bs + 960) (bs + 1915) (word_of_int n) w ch])"

definition swell_part :: "int \<times> string \<Rightarrow> u32 \<Rightarrow> section_range \<Rightarrow> midi_event list \<Rightarrow> bool" where
  "swell_part chord bs rg es \<longleftrightarrow>
     (\<exists>xs. es = concat (map (swell_pair bs (sr_channel rg)) xs) \<and>
        voices_chord (fst chord) (snd chord) rg (map fst xs) \<and>
        list_all (\<lambda>(n, v, w). 55 \<le> unat v \<and> unat v + 30 \<le> unat w \<and> unat w \<le> unat v + 40 \<and> unat w \<le> 115) xs)"

lemma swell_note_pair:
  assumes "55 \<le> k" "k \<le> 75"
  shows "\<exists>v w. fst (swell_note bs ch k n g) = swell_pair bs ch (n, v, w) \<and>
    55 \<le> unat v \<and> unat v + 30 \<le> unat w \<and> unat w \<le> unat v + 40 \<and> unat w \<le> 115"
proof -
  define r where "r = fst (rng_mod 11 g)"
  have r: "r < 11" using mt.draw_less [of 11 g] by (simp add: r_def)
  have "unat (word_of_int k :: u8) = nat k" "unat (word_of_int (k + 30 + int r) :: u8) = nat (k + 30 + int r)"
    using assms r by (auto intro!: unat_u8_of_int_small simp del: of_int_add)
  moreover have "min 127 k = k" "min 127 (k + 30 + int r) = k + 30 + int r" using assms r by auto
  then have "fst (swell_note bs ch k n g) = swell_pair bs ch (n, word_of_int k, word_of_int (k + 30 + int r))"
    by (simp add: swell_note_def split_beta Let_def swell_pair_def r_def gt_ticks_per_bar_def kPpq_def)
  moreover have "55 \<le> nat k" "nat k + 30 \<le> nat (k + 30 + int r)" "nat (k + 30 + int r) \<le> nat k + 40"
    "nat (k + 30 + int r) \<le> 115" using assms r by linarith+
  ultimately show ?thesis by metis
qed

lemma for_each_pairs:
  assumes "\<And>n g. n \<in> set ns \<Longrightarrow> \<exists>x. fst (f n g) = h (n, x) \<and> P (n, x)"
  shows "\<exists>xs. fst (for_each f ns g) = concat (map h xs) \<and> map fst xs = ns \<and> list_all P xs"
  using assms
proof (induction ns arbitrary: g)
  case (Cons n ns)
  obtain x where "fst (f n g) = h (n, x)" "P (n, x)" using Cons.prems by (metis list.set_intros(1))
  moreover obtain xs where "fst (for_each f ns (snd (f n g))) = concat (map h xs)" "map fst xs = ns" "list_all P xs"
    using Cons.IH Cons.prems by (metis list.set_intros(2))
  ultimately show ?case by (intro exI [of _ "(n, x) # xs"]) (simp add: split_beta Let_def)
qed simp

lemma swell_partI:
  assumes "0 \<le> fst c" "fst c < 12" "rg \<in> set (sections_of sect)"
    and "\<And>n g. \<exists>k g'. 55 \<le> k \<and> k \<le> 75 \<and> fst (f n g) = fst (swell_note bs (sr_channel rg) k n g')"
  shows "swell_part c bs rg (fst (for_each f (voice_in_range (fst c) (snd c) rg) g))"
proof -
  have "\<exists>x. fst (f n h) = swell_pair bs (sr_channel rg) (n, x) \<and>
      (case (n, x) of (n, v, w) \<Rightarrow> 55 \<le> unat v \<and> unat v + 30 \<le> unat w \<and> unat w \<le> unat v + 40 \<and> unat w \<le> 115)" for n h
  proof -
    obtain k g' where k: "55 \<le> k" "k \<le> 75" "fst (f n h) = fst (swell_note bs (sr_channel rg) k n g')"
      using assms(4) by blast
    from swell_note_pair [OF this(1,2), of bs "sr_channel rg" n g'] obtain v w
      where "fst (f n h) = swell_pair bs (sr_channel rg) (n, v, w)"
        "55 \<le> unat v \<and> unat v + 30 \<le> unat w \<and> unat w \<le> unat v + 40 \<and> unat w \<le> 115"
      unfolding k(3) by (elim exE conjE) simp
    then show ?thesis by (intro exI [of _ "(v, w)"]) simp
  qed
  from for_each_pairs [where f = f and ns = "voice_in_range (fst c) (snd c) rg" and g = g, OF this]
  show ?thesis unfolding swell_part_def using ensemble_voicings(1) [OF assms(1-3), of "snd c"] by (elim exE) auto
qed

lemma emit_swell_part:
  assumes "0 \<le> fst c" "fst c < 12" "rg \<in> set (sections_of sect)" "55 \<le> lo" "lo \<le> 65" "ch = sr_channel rg"
  shows "swell_part c bs rg (fst (emit_swell bs (voice_in_range (fst c) (snd c) rg) ch lo g))"
  unfolding emit_swell_def split_beta Let_def assms(6)
proof (rule swell_partI [OF assms(1-3)])
  show "\<exists>k g'. 55 \<le> k \<and> k \<le> 75 \<and> fst (swell_note bs (sr_channel rg) (int lo + int (fst (rng_mod 11 g))) n h) =
      fst (swell_note bs (sr_channel rg) k n g')" for n h
    using assms(4,5) mt.draw_less [of 11 g] by (intro exI [of _ "int lo + int (fst (rng_mod 11 g))"] exI [of _ h]) auto
qed

lemma swell_bar_parts:
  assumes "0 \<le> fst c" "fst c < 12"
  shows "\<exists>parts. fst (swell_bar sect c bs g) = concat parts \<and> list_all2 (swell_part c bs) (sections_of sect) parts"
proof (cases "sect = Full_ensemble")
  case False
  have "swell_part c bs (range_for sect) (fst (swell_bar sect c bs g))"
  proof -
    have "\<exists>k g'. 55 \<le> k \<and> k \<le> 75 \<and>
        fst (let (r, g1) = rng_mod 11 h in swell_note bs (sr_channel (range_for sect)) (55 + int r) n g1) =
        fst (swell_note bs (sr_channel (range_for sect)) k n g')" for n h
      using mt.draw_less [of 11 h]
      by (intro exI [of _ "55 + int (fst (rng_mod 11 h))"] exI [of _ "snd (rng_mod 11 h)"]) (auto simp: split_beta Let_def)
    from swell_partI [where sect = sect and g = g, OF assms _ this] False show ?thesis
      by (simp add: swell_bar_def split_beta Let_def sections_of_def)
  qed
  then show ?thesis
    using False by (intro exI [of _ "[fst (swell_bar sect c bs g)]"]) (simp add: sections_of_def)
next
  case True
  let ?e = "\<lambda>i lo g. emit_swell bs (voice_in_range (fst c) (snd c) (ensemble_ranges ! i)) (of_nat i) lo g"
  define g1 where "g1 = snd (?e 0 55 g)"
  define g2 where "g2 = snd (?e 1 55 g1)"
  define g3 where "g3 = snd (?e 2 60 g2)"
  have "fst (swell_bar sect c bs g) = concat [fst (?e 0 55 g), fst (?e 1 55 g1), fst (?e 2 60 g2), fst (?e 3 65 g3)]"
    by (simp add: True swell_bar_def split_beta Let_def g1_def g2_def g3_def)
  moreover have part: "swell_part c bs (ensemble_ranges ! i) (fst (?e i lo h))"
    if "i < 4" "55 \<le> lo" "lo \<le> 65" for i lo h
  proof -
    have "i = 0 \<or> i = 1 \<or> i = 2 \<or> i = 3" using that(1) by auto
    then have "ensemble_ranges ! i \<in> set (sections_of Full_ensemble)" "of_nat i = sr_channel (ensemble_ranges ! i)"
      by (auto simp: ensemble_ranges_def sections_of_def)
    with that show ?thesis by (intro emit_swell_part assms) auto
  qed
  moreover have "sections_of sect = [ensemble_ranges ! 0, ensemble_ranges ! 1, ensemble_ranges ! 2, ensemble_ranges ! 3]"
    by (simp add: True sections_of_def ensemble_ranges_def)
  ultimately show ?thesis
    using part [of 0 55 g] part [of 1 55 g1] part [of 2 60 g2] part [of 3 65 g3]
    by (intro exI [of _ "[fst (?e 0 55 g), fst (?e 1 55 g1), fst (?e 2 60 g2), fst (?e 3 65 g3)]"]) simp
qed

text \<open>
  Swells: the chords of the progression in turn, one per bar; every section in play sounds each tone of
  its voicing as a soft layer over the whole bar and a layer 30 to 40 velocity steps louder over its
  second half.
\<close>

theorem strings_swells_correct:
  assumes "1 \<le> bars" "cs \<noteq> []"
  shows "\<exists>blocks. generate_swells cs bars sect sd = concat blocks \<and>
    list_all2 (\<lambda>bar block. \<exists>parts. block = concat parts \<and>
        list_all2 (swell_part (parse_chord (cs ! (bar mod length cs))) (of_nat bar * 1920)) (sections_of sect) parts)
      [0 ..< nat bars] blocks"
  unfolding generate_swells_def
  by (rule over_bars_blocks [where R = "\<lambda>c bs block. \<exists>parts. block = concat parts \<and>
        list_all2 (swell_part c bs) (sections_of sect) parts", OF assms]) (rule swell_bar_parts)

theorem strings_swells_correct_witness:
  "\<exists>part. generate_swells [''F''] 1 Cello 3 = part \<and> swell_part (5, ''maj'') 0 (range_for Cello) part"
proof -
  obtain blocks where b: "generate_swells [''F''] 1 Cello 3 = concat blocks"
    "list_all2 (\<lambda>bar block. \<exists>parts. block = concat parts \<and>
        list_all2 (swell_part (parse_chord ([''F''] ! (bar mod length [''F'']))) (of_nat bar * 1920))
          (sections_of Cello) parts) [0 ..< nat 1] blocks"
    using strings_swells_correct [of 1 "[''F'']" Cello 3] by blast
  moreover have "parse_chord ''F'' = (5, ''maj'')" by code_simp
  ultimately show ?thesis by (auto simp: list_all2_Cons1 sections_of_def)
qed

subsection \<open>Countermelody: stepwise motion\<close>

text \<open>Two nested loops are one loop over the pairs.\<close>

lemma for_each_nested:
  "for_each (\<lambda>x. for_each (f x) ys) xs s = for_each (\<lambda>(x, y). f x y) (List.product xs ys) s"
proof (induction xs arbitrary: s)
  case (Cons x xs)
  have "for_each (\<lambda>a. f (fst a) (snd a)) (map (Pair x) ys) t = for_each (f x) ys t" for t
    by (induction ys arbitrary: t) (simp_all add: split_beta Let_def)
  then show ?case using Cons by (simp add: for_each_append split_beta Let_def)
qed simp

text \<open>A loop that pushes the current pitch and then moves it: the pitches follow the moves.\<close>

lemma for_each_walk:
  assumes "I s"
    and "\<And>x s. x \<in> set xs \<Longrightarrow> I s \<Longrightarrow> I (snd (f x s)) \<and> R (fst s) (fst (snd (f x s))) \<and>
      (\<exists>e. fst (f x s) = [e] \<and> pitch e = fst s \<and> P x e)"
  shows "list_all2 P xs (fst (for_each f xs s)) \<and> successively R (map pitch (fst (for_each f xs s))) \<and>
    (xs \<noteq> [] \<longrightarrow> pitch (hd (fst (for_each f xs s))) = fst s)"
  using assms
proof (induction xs arbitrary: s)
  case (Cons x xs)
  obtain e where e: "fst (f x s) = [e]" "pitch e = fst s" "P x e" "I (snd (f x s))" "R (fst s) (fst (snd (f x s)))"
    using Cons.prems by (metis list.set_intros(1))
  have ih: "list_all2 P xs (fst (for_each f xs (snd (f x s))))"
    "successively R (map pitch (fst (for_each f xs (snd (f x s)))))"
    "xs \<noteq> [] \<Longrightarrow> pitch (hd (fst (for_each f xs (snd (f x s))))) = fst (snd (f x s))"
    using Cons.IH [OF e(4)] Cons.prems(2) by (metis list.set_intros(2))+
  have "xs \<noteq> []" if "fst (for_each f xs (snd (f x s))) \<noteq> []" using ih(1) that by auto
  then show ?case
    using e ih by (cases "fst (for_each f xs (snd (f x s)))") (auto simp: split_beta Let_def)
qed simp

lemma range_for_bounds:
  "0 \<le> sr_min (range_for sect)" "sr_min (range_for sect) + 20 \<le> sr_max (range_for sect)" "sr_max (range_for sect) \<le> 84"
  by (cases sect; simp)+

lemma concat_map_memI:
  "a \<in> set as \<Longrightarrow> y \<in> set ivs \<Longrightarrow> f a y \<in> set (concat (map (\<lambda>a. map (f a) ivs) as))"
  by auto

lemma melody_pool_set:
  assumes "knows sc"
  shows "sorted (melody_pool (Some (intervals_of, intervals_for)) key sc (range_for sect)) \<and>
    set (melody_pool (Some (intervals_of, intervals_for)) key sc (range_for sect)) =
      {n. sr_min (range_for sect) + 6 \<le> n \<and> n \<le> sr_max (range_for sect) \<and>
        n mod 12 \<in> set (intervals_for sc (mod_parse_root_pc key))} \<and>
    melody_pool (Some (intervals_of, intervals_for)) key sc (range_for sect) \<noteq> []"
proof -
  define lo where "lo = sr_min (range_for sect)"
  define hi where "hi = sr_max (range_for sect)"
  have b: "0 \<le> lo" "lo + 20 \<le> hi" using range_for_bounds [of sect] by (simp_all add: lo_def hi_def)
  define ivs where "ivs = intervals_for sc (mod_parse_root_pc key)"
  have pc: "0 \<le> x \<and> x < 12" if "x \<in> set ivs" for x using that scales.pitch_classes by (simp add: ivs_def)
  have ne: "ivs \<noteq> []" using scales.root_first [OF assms] by (simp add: ivs_def)
  define cand where "cand = concat (map (\<lambda>oct. map (\<lambda>pc. oct * 12 + pc smod 12) ivs) [lo sdiv 12 .. hi sdiv 12 + 1])"
  define ns where "ns = foldl (\<lambda>ns n. if n \<ge> lo + 6 \<and> n \<le> hi then if n \<in> set ns then ns else ns @ [n] else ns) [] cand"
  have set_ns: "set ns = {n \<in> set cand. lo + 6 \<le> n \<and> n \<le> hi}" unfolding ns_def push_distinct_set by simp
  have oct: "(a * 12 + y smod 12) mod 12 = y" if "y \<in> set ivs" for a y
    using pc [OF that] by (simp add: smod_nonneg_eq)
  have "n mod 12 \<in> set ivs" if "n \<in> set cand" for n
  proof -
    from concat_map_mem [where f = "\<lambda>oct pc. oct * 12 + pc smod 12", OF that [unfolded cand_def]]
    obtain a y where "y \<in> set ivs" "n = a * 12 + y smod 12" by (elim bexE)
    then show ?thesis by (simp only: oct)
  qed
  moreover have "n \<in> set cand" if "n mod 12 \<in> set ivs" "lo + 6 \<le> n" "n \<le> hi" for n
  proof -
    have "lo div 12 \<le> n div 12" "n div 12 \<le> hi div 12" using that by (auto intro!: zdiv_mono1)
    then have "n div 12 \<in> set [lo sdiv 12 .. hi sdiv 12 + 1]" using b by (simp add: sdiv_nonneg_eq)
    then have "n div 12 * 12 + n mod 12 smod 12 \<in> set cand"
      using that(1) unfolding cand_def by (rule concat_map_memI [where f = "\<lambda>oct pc. oct * 12 + pc smod 12"])
    moreover have "n = n div 12 * 12 + n mod 12 smod 12" using pc [OF that(1)] by (simp add: smod_nonneg_eq)
    ultimately show ?thesis by (simp only:)
  qed
  ultimately have set_eq: "set ns = {n. lo + 6 \<le> n \<and> n \<le> hi \<and> n mod 12 \<in> set ivs}" unfolding set_ns by blast
  obtain x where x: "x \<in> set ivs" using ne by (metis list.set_intros(1) neq_Nil_conv)
  have "\<exists>n. lo + 6 \<le> n \<and> n \<le> hi \<and> n mod 12 = x"
  proof (intro exI conjI)
    let ?n = "lo + 6 + (x - (lo + 6)) mod 12"
    show "lo + 6 \<le> ?n" by simp
    show "?n \<le> hi" using b(2) pos_mod_bound [of 12 "x - (lo + 6)"] by linarith
    show "?n mod 12 = x" using pc [OF x] by (simp add: mod_simps)
  qed
  then have ns: "ns \<noteq> []" using x set_eq by auto
  have "melody_pool (Some (intervals_of, intervals_for)) key sc (range_for sect) = sort ns"
    unfolding melody_pool_def Let_def option.case prod.case ivs_def [symmetric] if_not_P [OF ne]
      lo_def [symmetric] hi_def [symmetric] cand_def [symmetric] ns_def [symmetric] if_not_P [OF ns] ..
  then show ?thesis unfolding lo_def [symmetric] hi_def [symmetric] ivs_def [symmetric]
    by (simp only: set_sort set_eq sorted_sort simp_thms) (metis ns set_empty set_sort)
qed

text \<open>Stepwise motion in a scale: no note of the scale lies strictly between the two.\<close>

definition stepwise :: "int list \<Rightarrow> int \<Rightarrow> int \<Rightarrow> bool" where
  "stepwise pcs a b \<longleftrightarrow> (\<forall>n. min a b < n \<and> n < max a b \<longrightarrow> n mod 12 \<notin> set pcs)"

lemma adjacent_stepwise:
  assumes "sorted pool" "\<forall>n. pool ! 0 \<le> n \<and> n \<le> pool ! (length pool - 1) \<and> n mod 12 \<in> set pcs \<longrightarrow> n \<in> set pool"
    and "i < length pool" "j < length pool" "j \<le> Suc i" "i \<le> Suc j"
  shows "stepwise pcs (pool ! i) (pool ! j)"
  unfolding stepwise_def
proof (intro allI impI notI)
  fix n assume n: "min (pool ! i) (pool ! j) < n \<and> n < max (pool ! i) (pool ! j)" "n mod 12 \<in> set pcs"
  have "pool ! 0 \<le> pool ! i" "pool ! 0 \<le> pool ! j" "pool ! i \<le> pool ! (length pool - 1)" "pool ! j \<le> pool ! (length pool - 1)"
    using assms(1,3,4) by (auto intro!: sorted_nth_mono)
  then have "n \<in> set pool" using n by (intro assms(2) [rule_format]) auto
  then obtain k where k: "k < length pool" "pool ! k = n" by (metis in_set_conv_nth)
  have "k \<le> min i j \<or> max i j \<le> k" using assms(5,6) by auto
  moreover have "pool ! k \<le> pool ! i" "pool ! k \<le> pool ! j" if "k \<le> min i j"
    using that assms(1,3,4) by (auto intro!: sorted_nth_mono)
  moreover have "pool ! i \<le> pool ! k" "pool ! j \<le> pool ! k" if "max i j \<le> k"
    using that assms(1) k(1) by (auto intro!: sorted_nth_mono)
  ultimately show False using n(1) k(2) by (metis linorder_not_le max_less_iff_conj min_less_iff_conj order_le_less_trans min_def max_def)
qed

lemma step_in_pool_adjacent:
  assumes "cur \<in> set pool" "d = 1 \<or> d = - 1"
  shows "\<exists>i < length pool. \<exists>j < length pool. cur = pool ! i \<and> step_in_pool pool cur d = pool ! j \<and> j \<le> Suc i \<and> i \<le> Suc j"
proof -
  obtain i where i: "find (\<lambda>i. pool ! i = cur) [0 ..< length pool] = Some i"
    using assms(1) by (cases "find (\<lambda>i. pool ! i = cur) [0 ..< length pool]") (auto simp: find_None_iff in_set_conv_nth)
  then have il: "i < length pool" "pool ! i = cur" by (auto simp: find_Some_iff)
  define j where "j = nat (max 0 (min (int (length pool) - 1) (int i + d)))"
  have "step_in_pool pool cur d = pool ! j" using i by (simp add: step_in_pool_def Let_def j_def)
  moreover have "j < length pool" "j \<le> Suc i" "i \<le> Suc j" using assms(2) il(1) by (auto simp: j_def)
  ultimately show ?thesis using il by blast
qed

text \<open>
  The note of the countermelody on one beat: a note of the scale in the upper part of the section's
  range, from that beat on, a half note on the first and third beat and a quarter on the others.
\<close>

definition melody_ok :: "int list \<Rightarrow> section_range \<Rightarrow> nat \<times> nat \<Rightarrow> midi_event \<Rightarrow> bool" where
  "melody_ok pcs rg = (\<lambda>(bar, beat) e.
     sr_min rg + 6 \<le> pitch e \<and> pitch e \<le> sr_max rg \<and> pitch e mod 12 \<in> set pcs \<and>
     tick_on e = of_nat (bar * 1920 + beat * 480) \<and>
     tick_off e = tick_on e + (if even beat then 950 else 470) \<and> vel_in 65 85 e \<and> channel e = sr_channel rg)"

lemma melody_beat_ok:
  assumes "sorted pool" "pool \<noteq> []"
    and set_pool: "set pool = {n. sr_min rg + 6 \<le> n \<and> n \<le> sr_max rg \<and> n mod 12 \<in> set pcs}"
    and rg: "0 \<le> sr_min rg" "sr_max rg \<le> 84" and cur: "fst s \<in> set pool"
  shows "fst (snd (melody_beat pool (sr_channel rg) (of_nat bar * 1920) beat s)) \<in> set pool \<and>
    stepwise pcs (fst s) (fst (snd (melody_beat pool (sr_channel rg) (of_nat bar * 1920) beat s))) \<and>
    (\<exists>e. fst (melody_beat pool (sr_channel rg) (of_nat bar * 1920) beat s) = [e] \<and> pitch e = fst s \<and>
      melody_ok pcs rg (bar, beat) e)"
proof -
  obtain c g where s: "s = (c, g)" by fastforce
  define v where "v = draw_vel 65 21 g"
  define d :: int where "d = (let st = (if fst (rng_mod 2 (snd v)) = 0 then 1 else - 1)
    in if fst (rng_mod 3 (snd (rng_mod 2 (snd v)))) = 0 then - st else st)"
  have d: "d = 1 \<or> d = - 1" by (auto simp: d_def Let_def)
  define e where "e = make_event (of_nat bar * 1920 + of_nat beat * 480)
    (of_nat bar * 1920 + of_nat beat * 480 + (if beat mod 2 = 0 then 950 else 470)) (word_of_int c) (fst v) (sr_channel rg)"
  have out: "fst (melody_beat pool (sr_channel rg) (of_nat bar * 1920) beat s) = [e]"
    "fst (snd (melody_beat pool (sr_channel rg) (of_nat bar * 1920) beat s)) = step_in_pool pool c d"
    by (simp_all add: melody_beat_def s split_beta Let_def v_def d_def e_def kPpq_def)
  have c: "c \<in> set pool" using cur s by simp
  then have c': "sr_min rg + 6 \<le> c" "c \<le> sr_max rg" "c mod 12 \<in> set pcs" using set_pool by auto
  have pe: "pitch e = c" using c'(1,2) rg uint_u8_of_int [of c] by (simp add: e_def)
  have "vel_in 65 85 e" using draw_vel_bounds [of 21 65 g] by (auto simp: e_def v_def)
  then have ok: "melody_ok pcs rg (bar, beat) e" using c' pe by (simp add: melody_ok_def e_def even_iff_mod_2_eq_zero)
  obtain i j where ij: "i < length pool" "j < length pool" "c = pool ! i" "step_in_pool pool c d = pool ! j" "j \<le> Suc i" "i \<le> Suc j"
    using step_in_pool_adjacent [OF c d] by blast
  have "pool ! 0 \<in> set pool" "pool ! (length pool - 1) \<in> set pool" using assms(2) by auto
  then have "\<forall>n. pool ! 0 \<le> n \<and> n \<le> pool ! (length pool - 1) \<and> n mod 12 \<in> set pcs \<longrightarrow> n \<in> set pool"
    unfolding set_pool by force
  then have "stepwise pcs (pool ! i) (pool ! j)" by (rule adjacent_stepwise [OF assms(1) _ ij(1,2,5,6)])
  then have "stepwise pcs c (step_in_pool pool c d)" using ij(3,4) by (simp only:)
  then show ?thesis using out ij(2,4) pe ok s by simp
qed

text \<open>
  The countermelody in a known scale moves by step: four notes per bar, one on each beat, each a note
  of the scale in the upper part of the section's range, and between two consecutive notes no further
  note of the scale is skipped.
\<close>

theorem countermelody_correct:
  assumes "knows sc" "1 \<le> bars" "cs \<noteq> []"
  shows "list_all2 (melody_ok (intervals_for sc (mod_parse_root_pc key)) (range_for sect))
      (List.product [0 ..< nat bars] [0 ..< 4])
      (generate_countermelody (Some (intervals_of, intervals_for)) key sc cs bars sect sd) \<and>
    successively (stepwise (intervals_for sc (mod_parse_root_pc key)))
      (map pitch (generate_countermelody (Some (intervals_of, intervals_for)) key sc cs bars sect sd))"
proof -
  define pool where "pool = melody_pool (Some (intervals_of, intervals_for)) key sc (range_for sect)"
  define pcs where "pcs = intervals_for sc (mod_parse_root_pc key)"
  have p: "sorted pool" "pool \<noteq> []"
    "set pool = {n. sr_min (range_for sect) + 6 \<le> n \<and> n \<le> sr_max (range_for sect) \<and> n mod 12 \<in> set pcs}"
    using melody_pool_set [OF assms(1), of key sect] unfolding pool_def pcs_def by blast+
  define d where "d = rng_mod (length pool) (mt_seed sd)"
  have start: "pool ! fst d \<in> set pool" using p(2) mt.draw_less [of "length pool" "mt_seed sd"] by (simp add: d_def)
  define f where "f = (\<lambda>(bar, beat). melody_beat pool (sr_channel (range_for sect)) (of_nat bar * 1920) beat)"
  have eq: "generate_countermelody (Some (intervals_of, intervals_for)) key sc cs bars sect sd =
      fst (for_each f (List.product [0 ..< nat bars] [0 ..< 4]) (pool ! fst d, snd d))"
    using assms(2,3)
    by (simp add: generate_countermelody_def split_beta Let_def pool_def [symmetric] d_def [symmetric] f_def
      for_each_nested gt_ticks_per_bar_def kPpq_def)
  have "fst (snd (f x s)) \<in> set pool \<and> stepwise pcs (fst s) (fst (snd (f x s))) \<and>
      (\<exists>e. fst (f x s) = [e] \<and> pitch e = fst s \<and> melody_ok pcs (range_for sect) x e)" if "fst s \<in> set pool" for x s
    using melody_beat_ok [OF p range_for_bounds(1,3) that, of "fst x" "snd x"] by (simp add: f_def split_beta)
  then show ?thesis
    unfolding eq pcs_def [symmetric]
    using for_each_walk [where I = "\<lambda>s. fst s \<in> set pool" and R = "stepwise pcs" and P = "melody_ok pcs (range_for sect)"
      and f = f and s = "(pool ! fst d, snd d)" and xs = "List.product [0 ..< nat bars] [0 ..< 4]"] start by simp
qed

theorem countermelody_correct_witness:
  "length (generate_countermelody (Some (intervals_of, intervals_for)) ''D'' ''dorian'' [''Dm7''] 2 Viola 1) = 8 \<and>
    successively (stepwise (intervals_for ''dorian'' 2))
      (map pitch (generate_countermelody (Some (intervals_of, intervals_for)) ''D'' ''dorian'' [''Dm7''] 2 Viola 1))"
proof -
  have k: "knows ''dorian''" by (simp add: knows_def kScales_def)
  have "mod_parse_root_pc ''D'' = 2" by code_simp
  then show ?thesis
    using countermelody_correct [OF k, of 2 "[''Dm7'']" "''D''" Viola 1] by (auto dest!: list_all2_lengthD)
qed

end
