(* ===== verification/Orchestration_Engine.thy ===== *)
theory Orchestration_Engine
  imports Strings_Engine
begin

text \<open>
  The orchestration engine (\<open>orchestration_engine.cpp\<close>): instruments sorted by role, a chord
  progression or a melody distributed over them, and the standard ensembles. The output map from
  instrument names to events is only appended to while it is built, so each operation returns its
  appends \<open>out[name].push_back(e)\<close> in order, as a list of pairs; \<open>run_pushes\<close> is the map they build.
  Registers are small integers: \<open>int\<close> arithmetic is used without wrap-around. The chord-symbol parser
  and the interval tables are those of the strings engine, word for word.
\<close>

datatype orchestral_role = O_melody | O_harmony | O_bass | O_pad | O_rhythm | O_countermelody | O_fill

record orchestral_instrument =
  oi_name :: string
  oi_program :: int
  oi_channel :: int
  oi_min :: int
  oi_max :: int
  oi_role :: orchestral_role
  oi_priority :: int

record orchestral_section =
  os_name :: string
  os_instruments :: "orchestral_instrument list"

type_synonym push_log = "(string \<times> midi_event) list"

fun role_priority :: "orchestral_role \<Rightarrow> nat" where
  "role_priority O_melody = 0"
| "role_priority O_countermelody = 1"
| "role_priority O_harmony = 2"
| "role_priority O_bass = 3"
| "role_priority O_pad = 4"
| "role_priority O_rhythm = 5"
| "role_priority O_fill = 6"

text \<open>\<open>operator<\<close> of \<open>std::string\<close>: bytes compared as unsigned values, a proper prefix first.\<close>

fun str_less :: "string \<Rightarrow> string \<Rightarrow> bool" where
  "str_less xs [] = False"
| "str_less [] (d # ds) = True"
| "str_less (c # cs) (d # ds) =
     ((of_char c :: nat) < of_char d \<or> (of_char c :: nat) = of_char d \<and> str_less cs ds)"

definition name_less :: "orchestral_instrument \<Rightarrow> orchestral_instrument \<Rightarrow> bool" where
  "name_less a b \<longleftrightarrow> str_less (oi_name a) (oi_name b)"

definition inst_less :: "orchestral_instrument \<Rightarrow> orchestral_instrument \<Rightarrow> bool" where
  "inst_less a b \<longleftrightarrow>
     (let pa = role_priority (oi_role a); pb = role_priority (oi_role b)
      in if pa \<noteq> pb then pa < pb else name_less a b)"

definition sort_instruments :: "orchestral_instrument list \<Rightarrow> orchestral_instrument list" where
  "sort_instruments insts = isort inst_less insts"

definition flatten_ensemble :: "orchestral_section list \<Rightarrow> orchestral_instrument list" where
  "flatten_ensemble ensemble = sort_instruments (concat (map os_instruments ensemble))"

subsection \<open>Register\<close>

text \<open>\<open>while (n < lo) n += 12;\<close> and \<open>while (n > hi) n -= 12;\<close>\<close>

function raise_to :: "int \<Rightarrow> int \<Rightarrow> int" where
  "raise_to lo n = (if n < lo then raise_to lo (n + 12) else n)"
  by pat_completeness auto
termination by (relation "measure (\<lambda>(lo, n). nat (lo - n))") auto

function lower_to :: "int \<Rightarrow> int \<Rightarrow> int" where
  "lower_to hi n = (if n > hi then lower_to hi (n - 12) else n)"
  by pat_completeness auto
termination by (relation "measure (\<lambda>(hi, n). nat (n - hi))") auto

declare raise_to.simps [simp del] lower_to.simps [simp del]

definition pick_note_in_range :: "int list \<Rightarrow> int \<Rightarrow> int \<Rightarrow> nat \<Rightarrow> int" where
  "pick_note_in_range pool min_note max_note chord_index =
     (let candidates = filter (\<lambda>n. n \<ge> min_note \<and> n \<le> max_note) pool in
      if candidates = []
      then let fallback = (if pool = [] then 60 else pool ! 0);
               fallback = raise_to min_note fallback;
               fallback = lower_to max_note fallback
           in if fallback < min_note \<or> fallback > max_note then (min_note + max_note) sdiv 2 else fallback
      else candidates ! (chord_index mod length candidates))"

text \<open>The melody's transposition into the inner part of a range.\<close>

definition into_range :: "orchestral_instrument \<Rightarrow> int \<Rightarrow> int" where
  "into_range inst n =
     (let n = raise_to (oi_min inst + 6) n;
          n = lower_to (oi_max inst - 6) n
      in if n < oi_min inst \<or> n > oi_max inst then (oi_min inst + oi_max inst) sdiv 2 else n)"

text \<open>One octave up or down; \<open>None\<close> is the \<open>continue\<close> of the loop for a note that still does not fit.\<close>

definition fit_octave :: "orchestral_instrument \<Rightarrow> int \<Rightarrow> int option" where
  "fit_octave inst n =
     (let n = (if n < oi_min inst then n + 12 else n);
          n = (if n > oi_max inst then n - 12 else n)
      in if n < oi_min inst \<or> n > oi_max inst then None else Some n)"

definition inst_event :: "orchestral_instrument \<Rightarrow> u32 \<Rightarrow> u32 \<Rightarrow> int \<Rightarrow> u8 \<Rightarrow> string \<times> midi_event" where
  "inst_event inst on off n vel =
     (oi_name inst, make_event on off (word_of_int n) vel (word_of_int (oi_channel inst)))"

subsection \<open>The roles\<close>

definition harmony_pool :: "int \<times> string \<Rightarrow> orchestral_instrument list \<Rightarrow> int list" where
  "harmony_pool chord targets =
     (let min_register = foldl (\<lambda>m i. if oi_min i < m then oi_min i else m) 127 targets;
          max_register = foldl (\<lambda>m i. if oi_max i > m then oi_max i else m) 0 targets;
          center = (min_register + max_register) sdiv 2;
          offsets = st_offsets_for (snd chord);
          pc = fst chord smod 12;
          pool = concat (map (\<lambda>oct. let base_oct = center sdiv 12 + oct
                   in filter (\<lambda>n. n \<ge> 0 \<and> n \<le> 127) (map (\<lambda>off. base_oct * 12 + (pc + off) smod 12) offsets))
                 [-1, 0, 1, 2]);
          pool = remdups_adj (sort pool)
      in if pool = [] then [60, 64, 67] else pool)"

definition harmony_note ::
  "u32 \<Rightarrow> u32 \<Rightarrow> nat \<Rightarrow> orchestral_instrument \<Rightarrow> int list \<times> nat \<times> mt19937_64 \<Rightarrow>
   push_log \<times> int list \<times> nat \<times> mt19937_64" where
  "harmony_note bar_start duration base_vel inst = (\<lambda>(pool, inst_idx, g).
     let n = pick_note_in_range pool (oi_min inst) (oi_max inst) inst_idx;
         (r, g1) = rng_mod 21 g;
         vel = (word_of_int (min 127 (int base_vel + int r - 10)) :: u8)
     in ([inst_event inst bar_start (bar_start + duration) n vel], remove1 n pool, inst_idx + 1, g1))"

definition assign_chord_to_harmony ::
  "int \<times> string \<Rightarrow> orchestral_instrument list \<Rightarrow> u32 \<Rightarrow> u32 \<Rightarrow> nat \<Rightarrow> mt19937_64 \<Rightarrow> push_log \<times> mt19937_64" where
  "assign_chord_to_harmony chord targets bar_start duration base_vel g =
     (if targets = [] then ([], g)
      else let (log, _, _, g1) =
                 for_each (harmony_note bar_start duration base_vel) targets (harmony_pool chord targets, 0, g)
           in (log, g1))"

definition bass_notes :: "int \<times> string \<Rightarrow> orchestral_instrument \<Rightarrow> int \<times> int" where
  "bass_notes chord inst =
     (let pc = fst chord smod 12;
          root = (oi_min inst sdiv 12) * 12 + pc;
          root = raise_to (oi_min inst + 6) root;
          root = lower_to (oi_min inst + 18) root;
          root = (if root < oi_min inst then root + 12 else root);
          root = (if root > oi_max inst then root - 12 else root);
          fifth = root + 7;
          fifth = (if fifth > oi_max inst then fifth - 12 else fifth);
          fifth = (if fifth < oi_min inst then fifth + 12 else fifth)
      in (root, fifth))"

definition assign_bass ::
  "int \<times> string \<Rightarrow> orchestral_instrument list \<Rightarrow> u32 \<Rightarrow> u32 \<Rightarrow> mt19937_64 \<Rightarrow> push_log \<times> mt19937_64" where
  "assign_bass chord bass_insts bar_start beat_ticks g =
     for_each (\<lambda>inst g.
       let (root, fifth) = bass_notes chord inst;
           (vel, g1) = draw_vel 70 21 g
       in ([inst_event inst bar_start (bar_start + beat_ticks * 2 - 10) root vel,
            inst_event inst (bar_start + beat_ticks * 2) (bar_start + beat_ticks * 4 - 10) fifth (vel - 5)], g1))
     bass_insts g"

definition base_octave :: "orchestral_instrument \<Rightarrow> int" where
  "base_octave inst = ((oi_min inst + oi_max inst) sdiv 2) sdiv 12"

definition assign_pad ::
  "int \<times> string \<Rightarrow> orchestral_instrument list \<Rightarrow> u32 \<Rightarrow> u32 \<Rightarrow> mt19937_64 \<Rightarrow> push_log \<times> mt19937_64" where
  "assign_pad chord pad_insts bar_start duration g =
     for_each (\<lambda>inst g.
       let (vel, g1) = draw_vel 50 16 g in
       (concat (map (\<lambda>off.
          case fit_octave inst (base_octave inst * 12 + (fst chord smod 12 + off) smod 12) of
            None \<Rightarrow> []
          | Some n \<Rightarrow> [inst_event inst bar_start (bar_start + duration) n vel])
        (st_offsets_for (snd chord))), g1))
     pad_insts g"

definition group_by_role :: "orchestral_instrument list \<Rightarrow> orchestral_role \<Rightarrow> orchestral_instrument list" where
  "group_by_role insts role = filter (\<lambda>inst. oi_role inst = role) insts"

text \<open>The melody of \<open>orchestrate_chords\<close>: the chord's root on the first beat.\<close>

definition chords_melody ::
  "int \<times> string \<Rightarrow> orchestral_instrument list \<Rightarrow> u32 \<Rightarrow> u32 \<Rightarrow> mt19937_64 \<Rightarrow> push_log \<times> mt19937_64" where
  "chords_melody chord mel bar_start beat_ticks g =
     for_each (\<lambda>inst g.
       let root = (oi_min inst + oi_max inst) sdiv 2;
           n = into_range inst ((root sdiv 12) * 12 + fst chord smod 12);
           (vel, g1) = draw_vel 70 31 g
       in ([inst_event inst bar_start (bar_start + beat_ticks - 5) n vel], g1))
     mel g"

definition chords_countermelody ::
  "int \<times> string \<Rightarrow> orchestral_instrument list \<Rightarrow> u32 \<Rightarrow> u32 \<Rightarrow> mt19937_64 \<Rightarrow> push_log \<times> mt19937_64" where
  "chords_countermelody chord cmel bar_start beat_ticks g =
     (let offsets = st_offsets_for (snd chord) in
      for_each (\<lambda>inst. for_each (\<lambda>beat g.
          let off = offsets ! (beat mod length offsets) in
          case fit_octave inst (base_octave inst * 12 + (fst chord + off) smod 12) of
            None \<Rightarrow> ([], g)
          | Some n \<Rightarrow>
              let bt = bar_start + of_nat beat * beat_ticks;
                  (vel, g1) = draw_vel 60 21 g
              in ([inst_event inst bt (bt + beat_ticks - 10) n vel], g1)) [0 ..< 4]) cmel g)"

text \<open>Chord stabs on beats 2 and 4; the two callers draw their velocities from different spans.\<close>

definition chord_stabs ::
  "nat \<Rightarrow> int \<times> string \<Rightarrow> orchestral_instrument list \<Rightarrow> u32 \<Rightarrow> u32 \<Rightarrow> mt19937_64 \<Rightarrow> push_log \<times> mt19937_64" where
  "chord_stabs span chord both bar_start beat_ticks g =
     for_each (\<lambda>inst. for_each (\<lambda>beat. for_each (\<lambda>off g.
          case fit_octave inst (base_octave inst * 12 + (fst chord + off) smod 12) of
            None \<Rightarrow> ([], g)
          | Some n \<Rightarrow>
              let bt = bar_start + of_nat beat * beat_ticks;
                  (vel, g1) = draw_vel 55 span g
              in ([inst_event inst bt (bt + beat_ticks div 2 - 5) n vel], g1))
        (st_offsets_for (snd chord))) [1, 3]) both g"

subsection \<open>The output map\<close>

definition push_to :: "(string \<rightharpoonup> midi_event list) \<Rightarrow> string \<times> midi_event \<Rightarrow> (string \<rightharpoonup> midi_event list)" where
  "push_to out = (\<lambda>(nm, e). out(nm \<mapsto> (case out nm of None \<Rightarrow> [e] | Some es \<Rightarrow> es @ [e])))"

definition run_pushes :: "push_log \<Rightarrow> (string \<rightharpoonup> midi_event list)" where
  "run_pushes log = foldl push_to Map.empty log"

text \<open>The result in instrument order; a vector moved out of the map is left empty.\<close>

fun collect_parts ::
  "(string \<rightharpoonup> midi_event list) \<Rightarrow> orchestral_instrument list \<Rightarrow> (string \<times> midi_event list) list" where
  "collect_parts out [] = []"
| "collect_parts out (inst # insts) =
     (case out (oi_name inst) of
        Some (e # es) \<Rightarrow> (oi_name inst, e # es) # collect_parts (out(oi_name inst \<mapsto> [])) insts
      | _ \<Rightarrow> collect_parts out insts)"

subsection \<open>The engine\<close>

text \<open>The notes of this melody are never used; its velocities advance the random engine.\<close>

definition melody_from_chords :: "string list \<Rightarrow> mt19937_64 \<Rightarrow> midi_event list \<times> mt19937_64" where
  "melody_from_chords chord_progression g =
     for_each (\<lambda>(i, symb) g.
       let root = 60 + fst (parse_chord symb) smod 12;
           tick = of_nat i * gt_ticks_per_bar;
           (vel, g1) = draw_vel 75 21 g
       in ([make_event tick (tick + of_nat kPpq - 5) (word_of_int root) vel 0], g1))
     (enumerate 0 chord_progression) g"

text \<open>\<open>assign_*\<close> and the loops on an empty group push nothing and draw nothing, so the \<open>empty()\<close> tests need no case.\<close>

definition chords_bar ::
  "orchestral_instrument list \<Rightarrow> int \<times> string \<Rightarrow> u32 \<Rightarrow> mt19937_64 \<Rightarrow> push_log \<times> mt19937_64" where
  "chords_bar all_insts chord bar_start g =
     (let beat_ticks = of_nat kPpq;
          dur = gt_ticks_per_bar - 20;
          (l1, g1) = chords_melody chord (group_by_role all_insts O_melody) bar_start beat_ticks g;
          (l2, g2) = chords_countermelody chord (group_by_role all_insts O_countermelody) bar_start beat_ticks g1;
          (l3, g3) = assign_chord_to_harmony chord (group_by_role all_insts O_harmony) bar_start dur 60 g2;
          (l4, g4) = assign_bass chord (group_by_role all_insts O_bass) bar_start beat_ticks g3;
          (l5, g5) = assign_pad chord (group_by_role all_insts O_pad) bar_start dur g4;
          (l6, g6) = chord_stabs 26 chord (group_by_role all_insts O_rhythm @ group_by_role all_insts O_fill)
            bar_start beat_ticks g5
      in (l1 @ l2 @ l3 @ l4 @ l5 @ l6, g6))"

definition orchestrate_chords ::
  "string list \<Rightarrow> orchestral_section list \<Rightarrow> int \<Rightarrow> u64 \<Rightarrow> (string \<times> midi_event list) list" where
  "orchestrate_chords chord_progression ensemble bars sd =
     (if bars < 1 \<or> chord_progression = [] \<or> ensemble = [] then []
      else let all_insts = flatten_ensemble ensemble in
      if all_insts = [] then []
      else let g = mt_seed sd;
               g = (if group_by_role all_insts O_melody = [] then g else snd (melody_from_chords chord_progression g));
               log = fst (for_each (\<lambda>bar.
                 chords_bar all_insts (parse_chord (chord_progression ! (bar mod length chord_progression)))
                   (of_nat bar * gt_ticks_per_bar)) [0 ..< nat bars] g)
           in collect_parts (run_pushes log) all_insts)"

definition full_melody :: "midi_event list \<Rightarrow> orchestral_instrument \<Rightarrow> push_log" where
  "full_melody melody inst =
     map (\<lambda>e. (oi_name inst, e\<lparr>channel := word_of_int (oi_channel inst),
       note_no := word_of_int (into_range inst (uint (note_no e)))\<rparr>)) melody"

definition full_countermelody :: "midi_event list \<Rightarrow> orchestral_instrument \<Rightarrow> push_log" where
  "full_countermelody melody inst =
     map (\<lambda>e. (oi_name inst, e\<lparr>channel := word_of_int (oi_channel inst),
       note_no := word_of_int (into_range inst (uint (note_no e) - 3)),
       velocity := word_of_int (min 127 (uint (velocity e) - 10))\<rparr>)) melody"

definition full_bar ::
  "orchestral_instrument list \<Rightarrow> int \<times> string \<Rightarrow> u32 \<Rightarrow> mt19937_64 \<Rightarrow> push_log \<times> mt19937_64" where
  "full_bar all_insts chord bar_start g =
     (let beat_ticks = of_nat kPpq;
          dur = gt_ticks_per_bar - 20;
          (l1, g1) = assign_chord_to_harmony chord (isort name_less (group_by_role all_insts O_harmony)) bar_start dur 55 g;
          (l2, g2) = assign_bass chord (group_by_role all_insts O_bass) bar_start beat_ticks g1;
          (l3, g3) = assign_pad chord (group_by_role all_insts O_pad) bar_start dur g2;
          (l4, g4) = chord_stabs 21 chord (group_by_role all_insts O_rhythm @ group_by_role all_insts O_fill)
            bar_start beat_ticks g3
      in (l1 @ l2 @ l3 @ l4, g4))"

definition orchestrate_full ::
  "midi_event list \<Rightarrow> string list \<Rightarrow> orchestral_section list \<Rightarrow> int \<Rightarrow> u64 \<Rightarrow> (string \<times> midi_event list) list" where
  "orchestrate_full melody chord_progression ensemble bars sd =
     (if melody = [] \<or> chord_progression = [] \<or> ensemble = [] \<or> bars < 1 then []
      else let all_insts = flatten_ensemble ensemble in
      if all_insts = [] then []
      else let mel_log = concat (map (full_melody melody) (isort name_less (group_by_role all_insts O_melody)));
               cmel_log = concat (map (full_countermelody melody) (isort name_less (group_by_role all_insts O_countermelody)));
               bar_log = fst (for_each (\<lambda>bar.
                 full_bar all_insts (parse_chord (chord_progression ! (bar mod length chord_progression)))
                   (of_nat bar * gt_ticks_per_bar)) [0 ..< nat bars] (mt_seed sd))
           in collect_parts (run_pushes (mel_log @ cmel_log @ bar_log)) all_insts)"

subsection \<open>Ensembles\<close>

definition oinst :: "string \<Rightarrow> int \<Rightarrow> int \<Rightarrow> int \<Rightarrow> int \<Rightarrow> orchestral_role \<Rightarrow> int \<Rightarrow> orchestral_instrument" where
  "oinst nm gm ch min_n max_n role prio =
     \<lparr>oi_name = nm, oi_program = gm, oi_channel = ch, oi_min = min_n, oi_max = max_n, oi_role = role, oi_priority = prio\<rparr>"

definition string_quartet :: orchestral_section where
  "string_quartet =
     \<lparr>os_name = ''Strings'', os_instruments =
       [oinst ''Violin I'' 40 0 55 84 O_melody 0,
        oinst ''Violin II'' 40 1 55 84 O_harmony 2,
        oinst ''Viola'' 41 2 48 76 O_harmony 3,
        oinst ''Cello'' 42 3 36 60 O_bass 4]\<rparr>"

definition jazz_combo :: orchestral_section where
  "jazz_combo =
     \<lparr>os_name = ''Jazz Combo'', os_instruments =
       [oinst ''Piano'' 1 0 21 108 O_harmony 2,
        oinst ''Bass'' 34 1 28 48 O_bass 3,
        oinst ''Drums'' 1 9 35 81 O_rhythm 5,
        oinst ''Guitar'' 27 2 40 76 O_harmony 3,
        oinst ''Sax'' 67 3 49 84 O_melody 0]\<rparr>"

definition rock_band :: orchestral_section where
  "rock_band =
     \<lparr>os_name = ''Rock Band'', os_instruments =
       [oinst ''Guitar'' 30 0 40 76 O_melody 0,
        oinst ''Bass'' 34 1 28 48 O_bass 3,
        oinst ''Drums'' 1 9 35 81 O_rhythm 5,
        oinst ''Keys'' 5 2 36 96 O_harmony 2]\<rparr>"

definition orchestra :: "orchestral_section list" where
  "orchestra =
    [\<lparr>os_name = ''Strings'', os_instruments =
       [oinst ''Violin I'' 40 0 55 84 O_melody 0,
        oinst ''Violin II'' 40 1 55 84 O_countermelody 2,
        oinst ''Viola'' 41 2 48 76 O_harmony 3,
        oinst ''Cello'' 42 3 36 60 O_harmony 4,
        oinst ''Contrabass'' 44 4 28 48 O_bass 5]\<rparr>,
     \<lparr>os_name = ''Woodwinds'', os_instruments =
       [oinst ''Flute'' 73 5 60 96 O_countermelody 1,
        oinst ''Oboe'' 68 6 58 87 O_fill 6,
        oinst ''Clarinet'' 71 7 50 84 O_fill 7,
        oinst ''Bassoon'' 70 8 34 66 O_fill 8]\<rparr>,
     \<lparr>os_name = ''Brass'', os_instruments =
       [oinst ''Horn'' 60 9 41 77 O_harmony 4,
        oinst ''Trumpet'' 56 10 58 84 O_harmony 5,
        oinst ''Trombone'' 57 11 36 72 O_fill 7]\<rparr>,
     \<lparr>os_name = ''Percussion'', os_instruments =
       [oinst ''Timpani'' 47 12 28 55 O_rhythm 6]\<rparr>]"

definition pop_band :: "orchestral_section list" where
  "pop_band =
    [\<lparr>os_name = ''Rhythm Section'', os_instruments =
       [oinst ''Piano'' 1 0 21 108 O_harmony 2,
        oinst ''Guitar'' 27 1 40 76 O_harmony 3,
        oinst ''Bass'' 34 2 28 48 O_bass 4,
        oinst ''Drums'' 1 9 35 81 O_rhythm 5]\<rparr>,
     \<lparr>os_name = ''Strings'', os_instruments =
       [oinst ''Violin I'' 40 3 55 84 O_countermelody 1,
        oinst ''Cello'' 42 4 36 60 O_pad 6]\<rparr>]"

definition total_instrument_count :: "orchestral_section list \<Rightarrow> int" where
  "total_instrument_count ens = foldl (\<lambda>n sec. n + int (length (os_instruments sec))) 0 ens"

definition trim_ensemble :: "orchestral_section list \<Rightarrow> int \<Rightarrow> orchestral_section list" where
  "trim_ensemble ens max_instruments =
     (let all = sort_instruments (concat (map os_instruments ens));
          all = (if int (length all) > max_instruments then take (nat max_instruments) all else all)
      in [\<lparr>os_name = ''Ensemble'', os_instruments = all\<rparr>])"

definition suggest_ensemble :: "string \<Rightarrow> int \<Rightarrow> orchestral_section list" where
  "suggest_ensemble genre instrument_count =
     (let ensemble =
        (if genre = ''jazz'' \<or> genre = ''jazz combo'' then [jazz_combo]
         else if genre = ''rock'' \<or> genre = ''rock band'' then [rock_band]
         else if genre = ''orchestra'' \<or> genre = ''orchestral'' then orchestra
         else if genre = ''pop'' \<or> genre = ''pop band'' then pop_band
         else if genre = ''string quartet'' then [string_quartet]
         else pop_band)
      in if instrument_count > 0 \<and> total_instrument_count ensemble > instrument_count
         then trim_ensemble ensemble instrument_count else ensemble)"

subsection \<open>Sorting the instruments\<close>

lemma str_less_asym: "str_less a b \<Longrightarrow> \<not> str_less b a"
  by (induction a b rule: str_less.induct) auto

lemma str_less_neg_trans: "\<not> str_less a b \<Longrightarrow> \<not> str_less b c \<Longrightarrow> \<not> str_less a c"
proof (induction a c arbitrary: b rule: str_less.induct)
  case (2 d ds)
  then show ?case by (cases b) auto
next
  case (3 c cs d ds)
  then show ?case by (cases b) (auto dest: less_trans)
qed simp

interpretation name_order: strict_weak_order name_less
  by unfold_locales (auto simp: name_less_def dest: str_less_asym str_less_neg_trans)

interpretation inst_order: strict_weak_order inst_less
proof unfold_locales
  show "inst_less a b \<Longrightarrow> \<not> inst_less b a" for a b
    by (auto simp: inst_less_def Let_def dest: name_order.asym split: if_splits)
  show "\<not> inst_less a b \<Longrightarrow> \<not> inst_less b c \<Longrightarrow> \<not> inst_less a c" for a b c
    by (auto simp: inst_less_def Let_def dest: name_order.neg_trans split: if_splits)
qed

lemma flatten_mset: "mset (flatten_ensemble ens) = mset (concat (map os_instruments ens))"
  unfolding flatten_ensemble_def sort_instruments_def by (rule inst_order.stable.sort_mset)

subsection \<open>Registers\<close>

lemma raise_to_ok: "lo \<le> raise_to lo n \<and> raise_to lo n mod 12 = n mod 12 \<and> (n < lo \<longrightarrow> raise_to lo n < lo + 12) \<and> (lo \<le> n \<longrightarrow> raise_to lo n = n)"
proof (induction lo n rule: raise_to.induct)
  case (1 lo n)
  then show ?case by (cases "n < lo"; cases "n + 12 < lo") (simp_all add: raise_to.simps [of lo n])
qed

lemma lower_to_ok: "lower_to hi n \<le> hi \<and> lower_to hi n mod 12 = n mod 12 \<and> (hi < n \<longrightarrow> hi - 12 < lower_to hi n) \<and> (n \<le> hi \<longrightarrow> lower_to hi n = n)"
proof (induction hi n rule: lower_to.induct)
  case (1 hi n)
  have "(n - 12) mod 12 = n mod 12" using mod_mult_self1 [of n "- 1" 12] by simp
  with 1 show ?case by (cases "hi < n"; cases "hi < n - 12") (simp_all add: lower_to.simps [of hi n])
qed

definition inst_ok :: "orchestral_instrument \<Rightarrow> bool" where
  "inst_ok i \<longleftrightarrow> 0 \<le> oi_min i \<and> oi_min i + 17 \<le> oi_max i \<and> oi_max i \<le> 127 \<and> 0 \<le> oi_channel i \<and> oi_channel i < 16"

lemma into_range_ok:
  assumes "inst_ok i"
  shows "oi_min i \<le> into_range i n \<and> into_range i n \<le> oi_max i \<and> into_range i n mod 12 = n mod 12"
proof -
  define a where "a = raise_to (oi_min i + 6) n"
  define b where "b = lower_to (oi_max i - 6) a"
  have a: "oi_min i + 6 \<le> a" "a mod 12 = n mod 12" using raise_to_ok [of "oi_min i + 6" n] by (simp_all add: a_def)
  have b: "b \<le> oi_max i - 6" "b mod 12 = a mod 12" "oi_max i - 6 < a \<Longrightarrow> oi_max i - 18 < b" "a \<le> oi_max i - 6 \<Longrightarrow> b = a"
    using lower_to_ok [of "oi_max i - 6" a] by (simp_all add: b_def)
  have "oi_min i \<le> b" using a(1) b(3,4) assms unfolding inst_ok_def by (cases "a \<le> oi_max i - 6") linarith+
  moreover have "into_range i n = b"
    using calculation b(1) by (simp add: into_range_def a_def [symmetric] b_def [symmetric] Let_def)
  ultimately show ?thesis using a(2) b(1,2) by simp
qed

lemma octave_down: "((n :: int) - 12) mod 12 = n mod 12"
  using mod_mult_self1 [of n "- 1" 12] by simp

lemma fit_octave_ok:
  assumes "inst_ok i" "0 \<le> x" "x < 12"
  shows "\<exists>n. fit_octave i (base_octave i * 12 + x) = Some n \<and> oi_min i \<le> n \<and> n \<le> oi_max i \<and> n mod 12 = x"
proof -
  define c where "c = (oi_min i + oi_max i) div 2"
  define m where "m = c div 12 * 12 + x"
  have "c div 12 * 12 \<le> c" "c < c div 12 * 12 + 12"
    using minus_mod_eq_div_mult [of c 12] pos_mod_sign [of 12 c] pos_mod_bound [of 12 c] by linarith+
  then have m: "c - 11 \<le> m" "m \<le> c + 11" using assms(2,3) by (simp_all add: m_def)
  have c: "oi_min i + 8 \<le> c" "c + 8 \<le> oi_max i"
    using assms(1) unfolding c_def inst_ok_def by linarith+
  have "base_octave i * 12 + x = m"
    using assms(1) by (simp add: base_octave_def inst_ok_def m_def c_def sdiv_nonneg_eq)
  moreover have "m mod 12 = x" "(m + 12) mod 12 = x" "(m - 12) mod 12 = x" using assms(2,3) by (simp_all add: m_def octave_down)
  ultimately show ?thesis using m c assms(1) by (auto simp: fit_octave_def Let_def inst_ok_def)
qed

lemma bass_notes_ok:
  assumes "inst_ok i" "0 \<le> fst chord" "fst chord < 12" "bass_notes chord i = (a, b)"
  shows "oi_min i \<le> a \<and> a \<le> oi_max i \<and> a mod 12 = fst chord" "oi_min i \<le> b \<and> b \<le> oi_max i \<and> b mod 12 = (fst chord + 7) mod 12"
proof -
  define lo where "lo = oi_min i"
  define s where "s = lo div 12 * 12 + fst chord"
  define r where "r = raise_to (lo + 6) s"
  have lo: "0 \<le> lo" "lo + 17 \<le> oi_max i" using assms(1) by (simp_all add: inst_ok_def lo_def)
  have "lo div 12 * 12 \<le> lo" using minus_mod_eq_div_mult [of lo 12] pos_mod_sign [of 12 lo] by linarith
  then have "s \<le> lo + 11" using assms(3) by (simp add: s_def)
  then have r: "lo + 6 \<le> r" "r < lo + 18" "r mod 12 = fst chord"
    using raise_to_ok [of "lo + 6" s] assms(2,3) by (cases "s < lo + 6"; simp add: r_def s_def)+
  have l: "lower_to (lo + 18) r = r" using r(2) lower_to_ok [of "lo + 18" r] by simp
  have start: "lo sdiv 12 * 12 + fst chord smod 12 = s" using assms(2,3) lo by (simp add: smod_nonneg_eq sdiv_nonneg_eq s_def)
  have root: "\<not> r < lo" "\<not> r > oi_max i" using r lo by auto
  have "bass_notes chord i = (r, let f = (if r + 7 > oi_max i then r + 7 - 12 else r + 7) in if f < lo then f + 12 else f)"
    unfolding bass_notes_def lo_def [symmetric] Let_def start r_def [symmetric] l if_not_P [OF root(1)] if_not_P [OF root(2)] ..
  then have ab: "a = r" "b = (if r + 7 > oi_max i then r - 5 else r + 7)"
    using assms(4) r lo by (auto simp: Let_def)
  show "oi_min i \<le> a \<and> a \<le> oi_max i \<and> a mod 12 = fst chord" using r lo by (simp add: ab lo_def [symmetric])
  have "(r + 7) mod 12 = (fst chord + 7) mod 12" using r(3) by (metis mod_add_left_eq)
  moreover have "(r - 5) mod 12 = (r + 7) mod 12" using octave_down [of "r + 7"] by simp
  ultimately show "oi_min i \<le> b \<and> b \<le> oi_max i \<and> b mod 12 = (fst chord + 7) mod 12"
    using r lo by (simp add: ab lo_def [symmetric])
qed

lemma pick_note_ok:
  assumes "inst_ok i" "pool \<noteq> []"
  shows "oi_min i \<le> pick_note_in_range pool (oi_min i) (oi_max i) k \<and> pick_note_in_range pool (oi_min i) (oi_max i) k \<le> oi_max i \<and>
    (\<exists>p \<in> set pool. pick_note_in_range pool (oi_min i) (oi_max i) k mod 12 = p mod 12)"
proof -
  define cs where "cs = filter (\<lambda>n. n \<ge> oi_min i \<and> n \<le> oi_max i) pool"
  show ?thesis
  proof (cases "cs = []")
    case False
    then have "cs ! (k mod length cs) \<in> set cs" by simp
    moreover have "pick_note_in_range pool (oi_min i) (oi_max i) k = cs ! (k mod length cs)"
      using False by (simp add: pick_note_in_range_def cs_def [symmetric])
    ultimately show ?thesis unfolding cs_def by auto
  next
    case True
    define a where "a = raise_to (oi_min i) (pool ! 0)"
    define b where "b = lower_to (oi_max i) a"
    have a: "oi_min i \<le> a" "a mod 12 = pool ! 0 mod 12" using raise_to_ok [of "oi_min i" "pool ! 0"] by (simp_all add: a_def)
    have b: "b \<le> oi_max i" "b mod 12 = a mod 12" "oi_max i < a \<Longrightarrow> oi_max i - 12 < b" "a \<le> oi_max i \<Longrightarrow> b = a"
      using lower_to_ok [of "oi_max i" a] by (simp_all add: b_def)
    have "oi_min i \<le> b" using a(1) b(3,4) assms(1) unfolding inst_ok_def by (cases "a \<le> oi_max i") linarith+
    moreover have "pick_note_in_range pool (oi_min i) (oi_max i) k = b"
      using True assms(2) calculation b(1) unfolding pick_note_in_range_def cs_def [symmetric] Let_def a_def [symmetric] b_def [symmetric]
      by (simp add: a_def b_def)
    ultimately show ?thesis using a(2) b(1,2) assms(2) by (intro conjI bexI [of _ "pool ! 0"]) simp_all
  qed
qed

text \<open>The pool of chord tones is large enough for six instruments.\<close>

lemma registers:
  assumes "targets \<noteq> []" "list_all inst_ok targets"
  defines "lo \<equiv> foldl (\<lambda>m i. if oi_min i < m then oi_min i else m) 127 targets"
    and "hi \<equiv> foldl (\<lambda>m i. if oi_max i > m then oi_max i else m) 0 targets"
  shows "0 \<le> (lo + hi) div 2 div 12 \<and> (lo + hi) div 2 div 12 \<le> 9"
proof -
  have lo: "0 \<le> foldl (\<lambda>m i. if oi_min i < m then oi_min i else m) a xs \<and>
      foldl (\<lambda>m i. if oi_min i < m then oi_min i else m) a xs \<le> a \<and>
      (\<forall>i \<in> set xs. foldl (\<lambda>m i. if oi_min i < m then oi_min i else m) a xs \<le> oi_min i)"
    if "0 \<le> a" "list_all inst_ok xs" for a :: int and xs
    using that by (induction xs arbitrary: a) (force simp: inst_ok_def)+
  have hi: "a \<le> foldl (\<lambda>m i. if oi_max i > m then oi_max i else m) a xs \<and>
      foldl (\<lambda>m i. if oi_max i > m then oi_max i else m) a xs \<le> 127"
    if "a \<le> 127" "list_all inst_ok xs" for a :: int and xs
    using that by (induction xs arbitrary: a) (force simp: inst_ok_def)+
  obtain i where i: "i \<in> set targets" using assms(1) by (meson list.set_sel(1))
  have "0 \<le> lo" "lo \<le> oi_min i" using lo [of 127 targets] assms(2) i by (auto simp: lo_def)
  moreover have "oi_min i \<le> 110" using i assms(2) by (auto simp: list_all_iff inst_ok_def)
  moreover have "0 \<le> hi" "hi \<le> 127" using hi [of 0 targets] assms(2) by (auto simp: hi_def)
  ultimately have "0 \<le> (lo + hi) div 2" "(lo + hi) div 2 < 120" by linarith+
  then show ?thesis by linarith
qed

definition chord_tone :: "int \<times> string \<Rightarrow> int \<Rightarrow> bool" where
  "chord_tone chord n \<longleftrightarrow> (\<exists>off \<in> set (st_offsets_for (snd chord)). n mod 12 = (fst chord + off) mod 12)"

lemma sorted_distinct_remdups_adj: "sorted xs \<Longrightarrow> distinct (remdups_adj (xs :: int list))"
  by (induction xs rule: remdups_adj.induct) force+

lemma harmony_pool_ok:
  assumes "targets \<noteq> []" "list_all inst_ok targets" "0 \<le> fst chord" "fst chord < 12"
  shows "6 \<le> length (harmony_pool chord targets)" "n \<in> set (harmony_pool chord targets) \<Longrightarrow> chord_tone chord n"
proof -
  define lo where "lo = foldl (\<lambda>m i. if oi_min i < m then oi_min i else m) 127 targets"
  define hi where "hi = foldl (\<lambda>m i. if oi_max i > m then oi_max i else m) 0 targets"
  define c where "c = (lo + hi) div 2 div 12"
  have c: "0 \<le> c" "c \<le> 9" using registers [OF assms(1,2)] by (simp_all add: c_def lo_def hi_def)
  define offs where "offs = st_offsets_for (snd chord)"
  have off: "0 \<le> x" "x \<le> 11" if "x \<in> set offs" for x using st_offsets_ok(3) that by (auto simp: offs_def)
  have oct: "((a :: int) * 12 + x mod 12) mod 12 = x mod 12" "(a * 12 + x mod 12) div 12 = a" for a x by simp_all
  define f where "f = (\<lambda>p. (c + fst p) * 12 + (fst chord + snd p) mod (12 :: int))"
  define raw where "raw = concat (map (\<lambda>oct. filter (\<lambda>n. n \<ge> 0 \<and> n \<le> 127) (map (\<lambda>off. f (oct, off)) offs)) [-1, 0, 1, 2 :: int])"
  have tone: "chord_tone chord n" if "n \<in> set raw" for n
  proof -
    from that obtain oct off where "off \<in> set offs" "n = f (oct, off)" by (auto simp: raw_def)
    then show ?thesis unfolding chord_tone_def offs_def by (intro bexI [of _ off]) (simp_all only: f_def oct fst_conv snd_conv)
  qed
  define octs where "octs = (if c = 0 then {0, 1} else {-1, 0 :: int})"
  have sub: "f ` (octs \<times> set offs) \<subseteq> set raw"
  proof
    fix n assume "n \<in> f ` (octs \<times> set offs)"
    then obtain oct x where p: "oct \<in> octs" "x \<in> set offs" "n = f (oct, x)" by auto
    have "0 \<le> (fst chord + x) mod 12" "(fst chord + x) mod 12 < 12" by simp_all
    then have "0 \<le> n \<and> n \<le> 127" using p(1,3) c by (auto simp: f_def octs_def split: if_splits)
    moreover have "oct \<in> set [-1, 0, 1, 2]" using p(1) by (auto simp: octs_def split: if_splits)
    ultimately show "n \<in> set raw" using p(2,3) unfolding raw_def by auto
  qed
  have inj: "inj_on f (octs \<times> set offs)"
  proof (rule inj_onI)
    fix p q assume p: "p \<in> octs \<times> set offs" and q: "q \<in> octs \<times> set offs" and eq: "f p = f q"
    have div: "f p div 12 = c + fst p" "f q div 12 = c + fst q" by (simp_all only: f_def oct)
    have "f p mod 12 = (fst chord + snd p) mod 12" "f q mod 12 = (fst chord + snd q) mod 12" by (simp_all only: f_def oct)
    then have "(fst chord + snd p) mod 12 = (fst chord + snd q) mod 12" using eq by (simp only:)
    then have "12 dvd snd p - snd q" by (simp add: mod_eq_dvd_iff)
    moreover have "\<bar>snd p - snd q\<bar> < 12" using p q off [of "snd p"] off [of "snd q"] by (auto simp: mem_Times_iff)
    ultimately have "snd p = snd q" by presburger
    then show "p = q" using div eq by (simp add: prod_eq_iff)
  qed
  have "card (set offs) \<ge> 3" using st_offsets_ok(2) by (simp add: offs_def distinct_card st_offsets_for_def)
  then have "6 \<le> card (f ` (octs \<times> set offs))"
    unfolding card_image [OF inj] by (simp add: card_cartesian_product octs_def)
  also have "\<dots> \<le> card (set raw)" by (rule card_mono [OF _ sub]) simp
  also have "\<dots> = length (remdups_adj (sort raw))"
    using distinct_card [OF sorted_distinct_remdups_adj [OF sorted_sort [of raw]]] by simp
  finally have len: "6 \<le> length (remdups_adj (sort raw))" .
  then have ne: "remdups_adj (sort raw) \<noteq> []" by auto
  have nonneg: "0 \<le> lo + hi"
    using c(1) unfolding c_def by linarith
  have sd: "(lo + hi) sdiv 2 sdiv 12 = c" using nonneg by (simp add: sdiv_nonneg_eq c_def)
  have "(base + oct) * 12 + (fst chord smod 12 + x) smod 12 = (base + oct) * 12 + (fst chord + x) mod 12" if "x \<in> set offs" for base oct x :: int
    using that off assms(3,4) by (simp add: smod_nonneg_eq)
  then have m: "map (\<lambda>x. (c + oct) * 12 + (fst chord smod 12 + x) smod 12) offs = map (\<lambda>x. f (oct, x)) offs" for oct
    by (simp add: f_def)
  have pool: "harmony_pool chord targets = remdups_adj (sort raw)"
    unfolding harmony_pool_def Let_def lo_def [symmetric] hi_def [symmetric] sd offs_def [symmetric] m raw_def [symmetric] if_not_P [OF ne] ..
  show "6 \<le> length (harmony_pool chord targets)" using len pool by simp
  show "n \<in> set (harmony_pool chord targets) \<Longrightarrow> chord_tone chord n" using tone pool by simp
qed

subsection \<open>What an instrument plays in a bar\<close>

text \<open>The tones an instrument may sound: the bass has root and fifth, the others the chord.\<close>

definition role_tone :: "orchestral_role \<Rightarrow> int \<times> string \<Rightarrow> int \<Rightarrow> bool" where
  "role_tone role chord n \<longleftrightarrow>
     (if role = O_bass then n mod 12 = fst chord \<or> n mod 12 = (fst chord + 7) mod 12 else chord_tone chord n)"

definition plays :: "int \<times> string \<Rightarrow> u32 \<Rightarrow> orchestral_instrument \<Rightarrow> midi_event \<Rightarrow> bool" where
  "plays chord bs i e \<longleftrightarrow>
     oi_min i \<le> pitch e \<and> pitch e \<le> oi_max i \<and> role_tone (oi_role i) chord (pitch e) \<and>
     channel e = word_of_int (oi_channel i) \<and> vel_in 45 100 e \<and>
     (\<exists>t d. tick_on e = bs + of_nat t \<and> tick_off e = bs + of_nat (t + d) \<and> 0 < d \<and> t + d \<le> 1920)"

fun notes_per_bar :: "orchestral_role \<Rightarrow> string \<Rightarrow> nat" where
  "notes_per_bar O_melody q = 1"
| "notes_per_bar O_countermelody q = 4"
| "notes_per_bar O_harmony q = 1"
| "notes_per_bar O_bass q = 2"
| "notes_per_bar O_pad q = length (st_offsets_for q)"
| "notes_per_bar O_rhythm q = 2 * length (st_offsets_for q)"
| "notes_per_bar O_fill q = 2 * length (st_offsets_for q)"

definition bar_part :: "int \<times> string \<Rightarrow> u32 \<Rightarrow> orchestral_instrument \<Rightarrow> midi_event list \<Rightarrow> bool" where
  "bar_part chord bs i es \<longleftrightarrow> length es = notes_per_bar (oi_role i) (snd chord) \<and> list_all (plays chord bs i) es"

text \<open>A log that consists of one run of pushes per instrument, in order.\<close>

definition distributes ::
  "(orchestral_instrument \<Rightarrow> midi_event list \<Rightarrow> bool) \<Rightarrow> orchestral_instrument list \<Rightarrow> push_log \<Rightarrow> bool" where
  "distributes R insts log \<longleftrightarrow>
     (\<exists>blocks. log = concat (map2 (\<lambda>i es. map (Pair (oi_name i)) es) insts blocks) \<and> list_all2 R insts blocks)"

lemma distributes_Nil [simp]: "distributes R [] log \<longleftrightarrow> log = []"
  by (auto simp: distributes_def)

lemma distributes_append:
  "distributes R is l \<Longrightarrow> distributes R js m \<Longrightarrow> distributes R (is @ js) (l @ m)"
  unfolding distributes_def
proof (elim exE conjE)
  fix as bs assume "list_all2 R is as" "list_all2 R js bs"
    and "l = concat (map2 (\<lambda>i es. map (Pair (oi_name i)) es) is as)"
    and "m = concat (map2 (\<lambda>i es. map (Pair (oi_name i)) es) js bs)"
  then show "\<exists>blocks. l @ m = concat (map2 (\<lambda>i es. map (Pair (oi_name i)) es) (is @ js) blocks) \<and> list_all2 R (is @ js) blocks"
    using list_all2_lengthD by (intro exI [of _ "as @ bs"]) (force intro: list_all2_appendI)
qed

lemma distributes_Cons:
  "R i es \<Longrightarrow> distributes R is l \<Longrightarrow> distributes R (i # is) (map (Pair (oi_name i)) es @ l)"
  unfolding distributes_def
proof (elim exE conjE)
  fix bs assume "R i es" "list_all2 R is bs" "l = concat (map2 (\<lambda>i es. map (Pair (oi_name i)) es) is bs)"
  then show "\<exists>blocks. map (Pair (oi_name i)) es @ l = concat (map2 (\<lambda>i es. map (Pair (oi_name i)) es) (i # is) blocks) \<and>
      list_all2 R (i # is) blocks" by (intro exI [of _ "es # bs"]) simp
qed

lemma distributes_for_each:
  assumes "\<And>i s. i \<in> set insts \<Longrightarrow> \<exists>es. fst (f i s) = map (Pair (oi_name i)) es \<and> R i es"
  shows "distributes R insts (fst (for_each f insts s))"
  using assms
proof (induction insts arbitrary: s)
  case (Cons i insts)
  obtain es where "fst (f i s) = map (Pair (oi_name i)) es" "R i es" using Cons.prems by (metis list.set_intros(1))
  moreover have "distributes R insts (fst (for_each f insts (snd (f i s))))" using Cons by simp
  ultimately show ?case using distributes_Cons by (simp add: split_beta Let_def)
qed simp

definition events_of :: "string \<Rightarrow> push_log \<Rightarrow> midi_event list" where
  "events_of nm log = map snd (filter (\<lambda>p. fst p = nm) log)"

lemma events_of_append [simp]: "events_of nm (l @ m) = events_of nm l @ events_of nm m"
  by (simp add: events_of_def)

lemma events_of_concat: "events_of nm (concat ls) = concat (map (events_of nm) ls)"
  by (induction ls) (simp_all add: events_of_def)

lemma events_of_run [simp]: "events_of nm (map (Pair nm') es) = (if nm' = nm then es else [])"
  by (induction es) (auto simp: events_of_def)

lemma distributes_other: "distributes R insts log \<Longrightarrow> nm \<notin> oi_name ` set insts \<Longrightarrow> events_of nm log = []"
  unfolding distributes_def
proof (elim exE conjE)
  fix blocks assume "list_all2 R insts blocks" "nm \<notin> oi_name ` set insts"
    and log: "log = concat (map2 (\<lambda>i es. map (Pair (oi_name i)) es) insts blocks)"
  then show "events_of nm log = []" unfolding log
    by (induction insts blocks rule: list_all2_induct) (auto simp: events_of_def)
qed

lemma distributes_events_of:
  assumes "distributes R insts log" "distinct (map oi_name insts)" "i \<in> set insts"
  shows "R i (events_of (oi_name i) log)"
proof -
  obtain blocks where b: "log = concat (map2 (\<lambda>i es. map (Pair (oi_name i)) es) insts blocks)" "list_all2 R insts blocks"
    using assms(1) by (auto simp: distributes_def)
  from b(2) assms(2,3) show ?thesis unfolding b(1)
  proof (induction insts blocks rule: list_all2_induct)
    case (Cons x xs y ys)
    have "distributes R xs (concat (map2 (\<lambda>i es. map (Pair (oi_name i)) es) xs ys))"
      using Cons.hyps(2) by (auto simp: distributes_def)
    note other = distributes_other [OF this, of "oi_name x"]
    show ?case
    proof (cases "i = x")
      case True
      then show ?thesis using Cons other by simp
    next
      case False
      with Cons.prems have "i \<in> set xs" "oi_name x \<noteq> oi_name i" by (auto simp: image_iff)
      then show ?thesis using Cons by simp
    qed
  qed simp
qed

lemma playsI:
  assumes "inst_ok i" "oi_min i \<le> n" "n \<le> oi_max i" "role_tone (oi_role i) chord n" "45 \<le> unat v" "unat v \<le> 100"
    and "on = bs + of_nat t" "off = bs + of_nat (t + d)" "0 < d" "t + d \<le> 1920"
  shows "plays chord bs i (make_event on off (word_of_int n) v (word_of_int (oi_channel i)))"
  using assms uint_u8_of_int [of n] unfolding plays_def inst_ok_def by auto

lemma one_note:
  assumes "plays chord bs i (make_event on off (word_of_int n) v (word_of_int (oi_channel i)))"
    and "notes_per_bar (oi_role i) (snd chord) = 1"
  shows "\<exists>es. [inst_event i on off n v] = map (Pair (oi_name i)) es \<and> bar_part chord bs i es"
  using assms by (intro exI [of _ "[make_event on off (word_of_int n) v (word_of_int (oi_channel i))]"])
    (simp add: inst_event_def bar_part_def)

lemma chords_melody_ok:
  assumes "0 \<le> fst c" "fst c < 12" "\<forall>i \<in> set mel. inst_ok i \<and> oi_role i = O_melody"
  shows "distributes (bar_part c bs) mel (fst (chords_melody c mel bs 480 g))"
  unfolding chords_melody_def
proof (rule distributes_for_each)
  fix i h assume i: "i \<in> set mel"
  define n where "n = into_range i (((oi_min i + oi_max i) sdiv 2) sdiv 12 * 12 + fst c smod 12)"
  have ok: "inst_ok i" "oi_role i = O_melody" using assms(3) i by auto
  have "n mod 12 = fst c" using into_range_ok [OF ok(1)] assms(1,2) by (simp add: n_def smod_nonneg_eq)
  moreover have "0 \<in> set (st_offsets_for (snd c))" by (simp add: st_offsets_for_def)
  ultimately have "chord_tone c n" using assms(1,2) unfolding chord_tone_def by (intro bexI [of _ 0]) auto
  then have "plays c bs i (make_event bs (bs + 475) (word_of_int n) (fst (draw_vel 70 31 h)) (word_of_int (oi_channel i)))"
    using into_range_ok [OF ok(1)] ok draw_vel_bounds [of 31 70 h]
    by (intro playsI [where t = 0 and d = 475]) (auto simp: role_tone_def n_def)
  from one_note [OF this] ok(2)
  show "\<exists>es. fst (let root = (oi_min i + oi_max i) sdiv 2; n = into_range i (root sdiv 12 * 12 + fst c smod 12);
      (vel, g1) = draw_vel 70 31 h in ([inst_event i bs (bs + 480 - 5) n vel], g1)) = map (Pair (oi_name i)) es \<and> bar_part c bs i es"
    by (simp add: split_beta Let_def n_def add.commute)
qed

text \<open>The note a fitted offset gives, for every loop over the offsets.\<close>

lemma fit_offset:
  assumes "inst_ok i" "0 \<le> fst c" "fst c < 12" "off \<in> set (st_offsets_for (snd c))"
  shows "\<exists>n. fit_octave i (base_octave i * 12 + (fst c + off) smod 12) = Some n \<and>
      fit_octave i (base_octave i * 12 + (fst c smod 12 + off) smod 12) = Some n \<and>
      oi_min i \<le> n \<and> n \<le> oi_max i \<and> chord_tone c n"
proof -
  have "0 \<le> off" using st_offsets_ok(3) [OF assms(4)] by simp
  then have eq: "(fst c + off) smod 12 = (fst c + off) mod 12" "(fst c smod 12 + off) smod 12 = (fst c + off) mod 12"
    using assms(2,3) by (simp_all add: smod_nonneg_eq)
  obtain n where "fit_octave i (base_octave i * 12 + (fst c + off) mod 12) = Some n" "oi_min i \<le> n" "n \<le> oi_max i"
    "n mod 12 = (fst c + off) mod 12" using fit_octave_ok [OF assms(1), of "(fst c + off) mod 12"] by auto
  then show ?thesis unfolding eq chord_tone_def using assms(4) by (intro exI [of _ n] conjI bexI [of _ off])
qed

text \<open>A loop of an instrument that pushes one playable note per iteration.\<close>

lemma for_each_plays:
  assumes "\<And>x s. x \<in> set xs \<Longrightarrow> \<exists>e. fst (f x s) = [(oi_name i, e)] \<and> plays chord bs i e"
  shows "\<exists>es. fst (for_each f xs s) = map (Pair (oi_name i)) es \<and> length es = length xs \<and> list_all (plays chord bs i) es"
  using assms
proof (induction xs arbitrary: s)
  case (Cons x xs)
  obtain e where "fst (f x s) = [(oi_name i, e)]" "plays chord bs i e" using Cons.prems by (metis list.set_intros(1))
  moreover obtain es where "fst (for_each f xs (snd (f x s))) = map (Pair (oi_name i)) es" "length es = length xs" "list_all (plays chord bs i) es"
    using Cons.IH Cons.prems by (metis list.set_intros(2))
  ultimately show ?case by (intro exI [of _ "e # es"]) (simp add: split_beta Let_def)
qed simp

lemma chords_countermelody_ok:
  assumes "0 \<le> fst c" "fst c < 12" "\<forall>i \<in> set cmel. inst_ok i \<and> oi_role i = O_countermelody"
  shows "distributes (bar_part c bs) cmel (fst (chords_countermelody c cmel bs 480 g))"
  unfolding chords_countermelody_def Let_def
proof (rule distributes_for_each)
  fix i h assume i: "i \<in> set cmel"
  define offs where "offs = st_offsets_for (snd c)"
  define f where "f = (\<lambda>beat g. case fit_octave i (base_octave i * 12 + (fst c + offs ! (beat mod length offs)) smod 12) of
      None \<Rightarrow> ([], g)
    | Some n \<Rightarrow> case draw_vel 60 21 g of (vel, g1) \<Rightarrow>
        ([inst_event i (bs + of_nat beat * 480) (bs + of_nat beat * 480 + 480 - 10) n vel], g1))"
  have ok: "inst_ok i" "oi_role i = O_countermelody" using assms(3) i by auto
  have "\<exists>e. fst (f beat s) = [(oi_name i, e)] \<and> plays c bs i e" if "beat \<in> set [0 ..< 4]" for beat s
  proof -
    have "offs ! (beat mod length offs) \<in> set (st_offsets_for (snd c))" using st_offsets_ok(1) by (simp add: offs_def)
    then obtain n where n: "fit_octave i (base_octave i * 12 + (fst c + offs ! (beat mod length offs)) smod 12) = Some n"
      "oi_min i \<le> n" "n \<le> oi_max i" "chord_tone c n" using fit_offset [OF ok(1) assms(1,2)] by blast
    have "plays c bs i (make_event (bs + of_nat beat * 480) (bs + of_nat beat * 480 + 480 - 10) (word_of_int n)
        (fst (draw_vel 60 21 s)) (word_of_int (oi_channel i)))"
      using n ok that draw_vel_bounds [of 21 60 s]
      by (intro playsI [where t = "beat * 480" and d = 470]) (auto simp: role_tone_def)
    then show ?thesis by (simp add: f_def n(1) split_beta inst_event_def)
  qed
  from for_each_plays [where f = f and xs = "[0 ..< 4]" and s = h, OF this] ok(2)
  show "\<exists>es. fst (for_each (\<lambda>beat g. case fit_octave i (base_octave i * 12 +
        (fst c + st_offsets_for (snd c) ! (beat mod length (st_offsets_for (snd c)))) smod 12) of
          None \<Rightarrow> ([], g)
        | Some n \<Rightarrow> case draw_vel 60 21 g of (vel, g1) \<Rightarrow>
            ([inst_event i (bs + of_nat beat * 480) (bs + of_nat beat * 480 + 480 - 10) n vel], g1)) [0 ..< 4] h) =
      map (Pair (oi_name i)) es \<and> bar_part c bs i es"
    by (auto simp: bar_part_def f_def offs_def)
qed

lemma chord_stabs_ok:
  assumes "0 \<le> fst c" "fst c < 12" "\<forall>i \<in> set both. inst_ok i \<and> (oi_role i = O_rhythm \<or> oi_role i = O_fill)"
    and "0 < span" "span \<le> 26"
  shows "distributes (bar_part c bs) both (fst (chord_stabs span c both bs 480 g))"
  unfolding chord_stabs_def
proof (rule distributes_for_each, goal_cases)
  case (1 i h)
  then have ok: "inst_ok i" "oi_role i = O_rhythm \<or> oi_role i = O_fill" using assms(3) by auto
  define f where "f = (\<lambda>(beat :: nat, off) g. case fit_octave i (base_octave i * 12 + (fst c + off) smod 12) of
      None \<Rightarrow> ([], g)
    | Some n \<Rightarrow> let bt = bs + of_nat beat * 480; (vel, g1) = draw_vel 55 span g
        in ([inst_event i bt (bt + 480 div 2 - 5) n vel], g1))"
  have "\<exists>e. fst (f x s) = [(oi_name i, e)] \<and> plays c bs i e" if "x \<in> set (List.product [1, 3] (st_offsets_for (snd c)))" for x s
  proof -
    obtain beat off where x: "x = (beat, off)" by fastforce
    with that have b: "beat = 1 \<or> beat = 3" and off: "off \<in> set (st_offsets_for (snd c))" by auto
    obtain n where n: "fit_octave i (base_octave i * 12 + (fst c + off) smod 12) = Some n"
      "oi_min i \<le> n" "n \<le> oi_max i" "chord_tone c n" using fit_offset [OF ok(1) assms(1,2) off] by blast
    have "plays c bs i (make_event (bs + of_nat beat * 480) (bs + of_nat beat * 480 + 480 div 2 - 5) (word_of_int n)
        (fst (draw_vel 55 span s)) (word_of_int (oi_channel i)))"
      using n ok b assms(4,5) draw_vel_bounds [of span 55 s]
      by (intro playsI [where t = "beat * 480" and d = 235]) (auto simp: role_tone_def)
    then show ?thesis by (simp add: f_def x n(1) split_beta Let_def inst_event_def)
  qed
  from for_each_plays [where f = f and xs = "List.product [1, 3] (st_offsets_for (snd c))" and s = h, OF this] ok(2)
  show ?case unfolding for_each_nested by (auto simp: bar_part_def f_def)
qed

lemma assign_bass_ok:
  assumes "0 \<le> fst c" "fst c < 12" "\<forall>i \<in> set insts. inst_ok i \<and> oi_role i = O_bass"
  shows "distributes (bar_part c bs) insts (fst (assign_bass c insts bs 480 g))"
  unfolding assign_bass_def
proof (rule distributes_for_each, goal_cases)
  case (1 i h)
  then have ok: "inst_ok i" "oi_role i = O_bass" using assms(3) by auto
  obtain a b where ab: "bass_notes c i = (a, b)" by fastforce
  note n = bass_notes_ok [OF ok(1) assms(1,2) ab]
  define v where "v = fst (draw_vel 70 21 h)"
  have v: "70 \<le> unat v" "unat v \<le> 90" using draw_vel_bounds [of 21 70 h] by (auto simp: v_def)
  then have v5: "unat (v - 5) = unat v - 5" by (subst unat_sub) (simp_all add: word_le_nat_alt)
  have "plays c bs i (make_event bs (bs + 950) (word_of_int a) v (word_of_int (oi_channel i)))"
    using n(1) ok v by (intro playsI [where t = 0 and d = 950]) (auto simp: role_tone_def)
  moreover have "plays c bs i (make_event (bs + 960) (bs + 1910) (word_of_int b) (v - 5) (word_of_int (oi_channel i)))"
    using n(2) ok v v5 by (intro playsI [where t = 960 and d = 950]) (auto simp: role_tone_def)
  ultimately show ?case
    using ok(2) by (intro exI [of _ "[make_event bs (bs + 950) (word_of_int a) v (word_of_int (oi_channel i)),
      make_event (bs + 960) (bs + 1910) (word_of_int b) (v - 5) (word_of_int (oi_channel i))]"])
    (simp add: ab split_beta Let_def v_def inst_event_def bar_part_def add.commute)
qed

lemma concat_singletons: "(\<And>x. x \<in> set xs \<Longrightarrow> f x = [h x]) \<Longrightarrow> concat (map f xs) = map h xs"
  by (induction xs) auto

lemma assign_pad_ok:
  assumes "0 \<le> fst c" "fst c < 12" "\<forall>i \<in> set insts. inst_ok i \<and> oi_role i = O_pad"
  shows "distributes (bar_part c bs) insts (fst (assign_pad c insts bs 1900 g))"
  unfolding assign_pad_def
proof (rule distributes_for_each, goal_cases)
  case (1 i h)
  then have ok: "inst_ok i" "oi_role i = O_pad" using assms(3) by auto
  define v where "v = fst (draw_vel 50 16 h)"
  define m where "m = (\<lambda>off. the (fit_octave i (base_octave i * 12 + (fst c smod 12 + off) smod 12)))"
  define ev where "ev = (\<lambda>off. make_event bs (bs + 1900) (word_of_int (m off)) v (word_of_int (oi_channel i)))"
  have m: "fit_octave i (base_octave i * 12 + (fst c smod 12 + off) smod 12) = Some (m off)" "plays c bs i (ev off)"
    if off: "off \<in> set (st_offsets_for (snd c))" for off
  proof -
    obtain n where n: "fit_octave i (base_octave i * 12 + (fst c smod 12 + off) smod 12) = Some n"
      "oi_min i \<le> n" "n \<le> oi_max i" "chord_tone c n" using fit_offset [OF ok(1) assms(1,2) off] by blast
    then show "fit_octave i (base_octave i * 12 + (fst c smod 12 + off) smod 12) = Some (m off)" by (simp add: m_def)
    show "plays c bs i (ev off)"
      unfolding ev_def using n ok draw_vel_bounds [of 16 50 h]
      by (intro playsI [where t = 0 and d = 1900]) (auto simp: role_tone_def m_def v_def)
  qed
  have "concat (map (\<lambda>off. case fit_octave i (base_octave i * 12 + (fst c smod 12 + off) smod 12) of
        None \<Rightarrow> [] | Some n \<Rightarrow> [inst_event i bs (bs + 1900) n v]) (st_offsets_for (snd c))) =
      map (\<lambda>off. (oi_name i, ev off)) (st_offsets_for (snd c))"
    by (rule concat_singletons) (simp add: m(1) ev_def inst_event_def)
  then show ?case
    unfolding split_beta Let_def fst_conv v_def [symmetric]
    using ok(2) m(2) by (intro exI [of _ "map ev (st_offsets_for (snd c))"])
      (simp add: bar_part_def list_all_iff)
qed

lemma harmony_loop:
  assumes "\<forall>i \<in> set ts. inst_ok i \<and> oi_role i = O_harmony" "40 \<le> bv" "bv \<le> 90" "55 \<le> bv"
    and "\<forall>n \<in> set pool. chord_tone c n" "length ts \<le> length pool"
  shows "distributes (bar_part c bs) ts (fst (for_each (harmony_note bs 1900 bv) ts (pool, k, g)))"
  using assms(1,5,6)
proof (induction ts arbitrary: pool k g)
  case (Cons i ts)
  define n where "n = pick_note_in_range pool (oi_min i) (oi_max i) k"
  define w where "w = min 127 (int bv + int (fst (rng_mod 21 g)) - 10)"
  have ok: "inst_ok i" "oi_role i = O_harmony" "pool \<noteq> []" using Cons.prems by auto
  note p = pick_note_ok [OF ok(1,3), of k, folded n_def]
  then obtain q where q: "q \<in> set pool" "n mod 12 = q mod 12" by blast
  then have "chord_tone c n" using Cons.prems(2) by (simp add: chord_tone_def)
  moreover have "45 \<le> w" "w \<le> 100" using assms(3,4) mt.draw_less [of 21 g] by (auto simp: w_def)
  then have "45 \<le> unat (word_of_int w :: u8)" "unat (word_of_int w :: u8) \<le> 100"
    using unat_u8_of_int_small [of w] by auto
  ultimately have pl: "plays c bs i (make_event bs (bs + 1900) (word_of_int n) (word_of_int w) (word_of_int (oi_channel i)))"
    using p ok by (intro playsI [where t = 0 and d = 1900]) (auto simp: role_tone_def)
  have "notes_per_bar (oi_role i) (snd c) = 1" using ok(2) by simp
  from one_note [OF pl this] obtain es where es: "[inst_event i bs (bs + 1900) n (word_of_int w)] = map (Pair (oi_name i)) es"
    "bar_part c bs i es" by (elim exE conjE)
  have "length pool - 1 \<le> length (remove1 n pool)" by (cases "n \<in> set pool") (simp_all add: length_remove1)
  then have "distributes (bar_part c bs) ts (fst (for_each (harmony_note bs 1900 bv) ts (remove1 n pool, k + 1, snd (rng_mod 21 g))))"
    using Cons.prems notin_set_remove1 by (intro Cons.IH) (auto dest: set_remove1_subset [THEN subsetD])
  from distributes_Cons [OF es(2) this] show ?case
    unfolding es(1) [symmetric] by (simp add: harmony_note_def [of _ _ _ i] split_beta Let_def n_def w_def)
qed simp

lemma assign_harmony_ok:
  assumes "0 \<le> fst c" "fst c < 12" "\<forall>i \<in> set ts. inst_ok i \<and> oi_role i = O_harmony" "length ts \<le> 6" "bv = 55 \<or> bv = 60"
  shows "distributes (bar_part c bs) ts (fst (assign_chord_to_harmony c ts bs 1900 bv g))"
proof (cases "ts = []")
  case False
  have "6 \<le> length (harmony_pool c ts)" "\<forall>n \<in> set (harmony_pool c ts). chord_tone c n"
    using harmony_pool_ok [OF False _ assms(1,2)] assms(3) by (auto simp: list_all_iff)
  with assms(3-5) show ?thesis
    using False harmony_loop [of ts bv "harmony_pool c ts" c bs 0 g]
    by (auto simp: assign_chord_to_harmony_def split_beta Let_def)
qed (simp add: assign_chord_to_harmony_def)

subsection \<open>Collecting the parts\<close>

lemma run_pushes_events: "run_pushes log nm = (if events_of nm log = [] then None else Some (events_of nm log))"
  unfolding run_pushes_def
  by (induction log rule: rev_induct) (auto simp: push_to_def events_of_def split_beta)

lemma collect_parts_eq:
  assumes "distinct (map oi_name insts)" "\<And>i. i \<in> set insts \<Longrightarrow> out (oi_name i) = Some (p i) \<and> p i \<noteq> []"
  shows "collect_parts out insts = map (\<lambda>i. (oi_name i, p i)) insts"
  using assms
proof (induction insts arbitrary: out)
  case (Cons i insts)
  obtain e es where e: "p i = e # es" using Cons.prems(2) [of i] by (cases "p i") auto
  have "collect_parts (out(oi_name i \<mapsto> [])) insts = map (\<lambda>i. (oi_name i, p i)) insts"
    using Cons.prems by (intro Cons.IH) (auto simp: image_iff)
  then show ?case using Cons.prems(2) [of i] e by simp
qed simp

lemma collect_run_pushes:
  assumes "distinct (map oi_name insts)" "\<And>i. i \<in> set insts \<Longrightarrow> events_of (oi_name i) log \<noteq> []"
  shows "collect_parts (run_pushes log) insts = map (\<lambda>i. (oi_name i, events_of (oi_name i) log)) insts"
  using assms by (intro collect_parts_eq) (auto simp: run_pushes_events)

text \<open>
  The ensembles the theorems are about: at least one instrument, distinct names, ranges of at least 17
  semitones within the MIDI notes, MIDI channels, and at most six instruments on harmony (the pool of
  chord tones an instrument draws from is never smaller).
\<close>

definition ensemble_ok :: "orchestral_section list \<Rightarrow> bool" where
  "ensemble_ok ens \<longleftrightarrow>
     (let all = concat (map os_instruments ens)
      in all \<noteq> [] \<and> distinct (map oi_name all) \<and> list_all inst_ok all \<and>
         length (filter (\<lambda>i. oi_role i = O_harmony) all) \<le> 6)"

lemma flatten_ok:
  assumes "ensemble_ok ens"
  shows "distinct (map oi_name (flatten_ensemble ens))" "i \<in> set (flatten_ensemble ens) \<Longrightarrow> inst_ok i"
    "length (group_by_role (flatten_ensemble ens) O_harmony) \<le> 6" "flatten_ensemble ens \<noteq> []" "ens \<noteq> []"
proof -
  let ?all = "concat (map os_instruments ens)"
  have m: "mset (flatten_ensemble ens) = mset ?all" by (rule flatten_mset)
  then have "mset (map oi_name (flatten_ensemble ens)) = mset (map oi_name ?all)" by (metis mset_map)
  moreover have "distinct (map oi_name ?all)" using assms by (simp add: ensemble_ok_def Let_def)
  ultimately show "distinct (map oi_name (flatten_ensemble ens))" by (metis mset_eq_imp_distinct_iff)
  have "list_all inst_ok ?all" using assms by (simp add: ensemble_ok_def Let_def)
  then show "i \<in> set (flatten_ensemble ens) \<Longrightarrow> inst_ok i" using mset_eq_setD [OF m] by (auto simp: list_all_iff)
  have "mset (group_by_role (flatten_ensemble ens) O_harmony) = mset (filter (\<lambda>i. oi_role i = O_harmony) ?all)"
    unfolding group_by_role_def mset_filter m ..
  then show "length (group_by_role (flatten_ensemble ens) O_harmony) \<le> 6"
    using mset_eq_length assms by (fastforce simp: ensemble_ok_def Let_def)
  have "?all \<noteq> []" using assms by (simp add: ensemble_ok_def Let_def)
  then show "flatten_ensemble ens \<noteq> []" "ens \<noteq> []" using mset_eq_setD [OF m] by auto
qed

lemma group_ok:
  assumes "ensemble_ok ens"
  shows "\<forall>i \<in> set (group_by_role (flatten_ensemble ens) r). inst_ok i \<and> oi_role i = r"
  using flatten_ok(2) [OF assms] by (simp add: group_by_role_def)

lemma chords_bar_ok:
  assumes "ensemble_ok ens" "0 \<le> fst c" "fst c < 12"
  defines "g \<equiv> group_by_role (flatten_ensemble ens)"
  shows "distributes (bar_part c bs)
    (g O_melody @ g O_countermelody @ g O_harmony @ g O_bass @ g O_pad @ g O_rhythm @ g O_fill)
    (fst (chords_bar (flatten_ensemble ens) c bs s))"
proof -
  note gr = group_ok [OF assms(1), folded g_def]
  have stabs: "\<forall>i \<in> set (g O_rhythm @ g O_fill). inst_ok i \<and> (oi_role i = O_rhythm \<or> oi_role i = O_fill)"
    using gr by auto
  note six = flatten_ok(3) [OF assms(1), folded g_def]
  have dur: "gt_ticks_per_bar - 20 = 1900" "(of_nat kPpq :: u32) = 480" by (simp_all add: gt_ticks_per_bar_def kPpq_def)
  show ?thesis
    unfolding chords_bar_def Let_def split_beta fst_conv g_def [symmetric] dur
    by (intro distributes_append chords_melody_ok chords_countermelody_ok assign_harmony_ok assign_bass_ok assign_pad_ok
        chord_stabs_ok assms(2,3) gr six stabs) simp_all
qed

lemma group_perm:
  fixes insts :: "orchestral_instrument list"
  defines "g \<equiv> group_by_role insts"
  shows "mset (g O_melody @ g O_countermelody @ g O_harmony @ g O_bass @ g O_pad @ g O_rhythm @ g O_fill) = mset insts"
proof (unfold g_def, induction insts)
  case (Cons i insts)
  then show ?case by (cases "oi_role i") (simp_all add: group_by_role_def)
qed (simp add: group_by_role_def)

subsection \<open>The parts of a whole piece\<close>

text \<open>A part over the bars of a piece: one block per bar, for the chords of the progression in turn.\<close>

definition piece_part :: "string list \<Rightarrow> int \<Rightarrow> orchestral_instrument \<Rightarrow> midi_event list \<Rightarrow> bool" where
  "piece_part cs bars i es \<longleftrightarrow>
     (\<exists>blocks. es = concat blocks \<and>
        list_all2 (\<lambda>bar. bar_part (parse_chord (cs ! (bar mod length cs))) (of_nat bar * 1920) i) [0 ..< nat bars] blocks)"

lemma notes_per_bar_pos: "0 < notes_per_bar r q"
  using st_offsets_ok(1) [of q] by (cases r) simp_all

lemma piece_part_nonempty: "piece_part cs bars i es \<Longrightarrow> 1 \<le> bars \<Longrightarrow> es \<noteq> []"
proof (unfold piece_part_def, elim exE conjE)
  fix blocks assume b: "1 \<le> bars" and es: "es = concat blocks"
    and l: "list_all2 (\<lambda>bar. bar_part (parse_chord (cs ! (bar mod length cs))) (of_nat bar * 1920) i) [0 ..< nat bars] blocks"
  have "length blocks = nat bars" using list_all2_lengthD [OF l] by simp
  then have "0 < length blocks" using b by linarith
  moreover have "bar_part (parse_chord (cs ! ([0 ..< nat bars] ! 0 mod length cs))) (of_nat ([0 ..< nat bars] ! 0) * 1920) i (blocks ! 0)"
    by (rule list_all2_nthD2 [OF l calculation])
  then have "length (blocks ! 0) > 0" unfolding bar_part_def using notes_per_bar_pos by presburger
  ultimately show "es \<noteq> []" unfolding es by (metis concat_eq_Nil_conv length_greater_0_conv nth_mem)
qed

text \<open>The bar loop gives every instrument it serves its part.\<close>

lemma bar_loop_parts:
  assumes "cs \<noteq> []" "distinct (map oi_name order)"
    and "\<And>c bs s. 0 \<le> fst c \<Longrightarrow> fst c < 12 \<Longrightarrow> distributes (bar_part c bs) order (fst (f c bs s))"
    and log_def: "log = fst (for_each (\<lambda>bar. f (parse_chord (cs ! (bar mod length cs))) (of_nat bar * 1920)) [0 ..< nat bars] s)"
  shows "i \<in> set order \<Longrightarrow> piece_part cs bars i (events_of (oi_name i) log)"
    "nm \<notin> oi_name ` set order \<Longrightarrow> events_of nm log = []"
proof -
  let ?D = "\<lambda>bar. distributes (bar_part (parse_chord (cs ! (bar mod length cs))) (of_nat bar * 1920)) order"
  have "?D bar (fst (f (parse_chord (cs ! (bar mod length cs))) (of_nat bar * 1920) s))" for bar s
    using parse_chord_range [of "cs ! (bar mod length cs)"] by (intro assms(3)) auto
  then obtain logs where logs: "log = concat logs" "list_all2 ?D [0 ..< nat bars] logs"
    unfolding log_def by (metis (no_types, lifting) for_each_blocks)
  show "piece_part cs bars i (events_of (oi_name i) log)" if "i \<in> set order"
    unfolding piece_part_def
  proof (intro exI conjI)
    show "events_of (oi_name i) log = concat (map (events_of (oi_name i)) logs)" by (simp add: logs(1) events_of_concat)
    show "list_all2 (\<lambda>bar. bar_part (parse_chord (cs ! (bar mod length cs))) (of_nat bar * 1920) i) [0 ..< nat bars]
        (map (events_of (oi_name i)) logs)"
      unfolding list_all2_map2 using logs(2) distributes_events_of [OF _ assms(2) that] by (auto elim!: list_all2_mono)
  qed
  show "events_of nm log = []" if "nm \<notin> oi_name ` set order"
  proof -
    have "events_of nm l = []" if "l \<in> set logs" for l
      using logs(2) that distributes_other [OF _ \<open>nm \<notin> oi_name ` set order\<close>] by (auto simp: list_all2_conv_all_nth in_set_conv_nth)
    then show ?thesis by (simp add: logs(1) events_of_concat concat_eq_Nil_conv)
  qed
qed

lemma same_inst: "distinct (map oi_name insts) \<Longrightarrow> i \<in> set insts \<Longrightarrow> j \<in> set insts \<Longrightarrow> oi_name i = oi_name j \<Longrightarrow> i = j"
  by (metis distinct_map inj_onD)

text \<open>
  A chord progression orchestrated for a proper ensemble: every instrument gets exactly one part, in
  the order of the roles, and the part has for every bar the notes its role calls for (one melody note,
  four of countermelody, one of harmony, root and fifth in the bass, the whole chord on a pad, twice as
  stabs), each inside the instrument's range, on its channel, inside its bar, and a tone of the bar's
  chord (in the bass its root or the fifth above).
\<close>

theorem orchestrate_chords_correct:
  assumes "ensemble_ok ens" "1 \<le> bars" "cs \<noteq> []"
  shows "list_all2 (\<lambda>i (nm, es). nm = oi_name i \<and> piece_part cs bars i es)
    (flatten_ensemble ens) (orchestrate_chords cs ens bars sd)"
proof -
  define insts where "insts = flatten_ensemble ens"
  note ok = flatten_ok [OF assms(1), folded insts_def]
  define g where "g = group_by_role insts"
  define order where "order = g O_melody @ g O_countermelody @ g O_harmony @ g O_bass @ g O_pad @ g O_rhythm @ g O_fill"
  have m: "mset order = mset insts" unfolding order_def g_def by (rule group_perm)
  then have "mset (map oi_name order) = mset (map oi_name insts)" by (metis mset_map)
  then have dist: "distinct (map oi_name order)" using ok(1) mset_eq_imp_distinct_iff by blast
  define s where "s = (if g O_melody = [] then mt_seed sd else snd (melody_from_chords cs (mt_seed sd)))"
  define log where "log = fst (for_each (\<lambda>bar. chords_bar insts (parse_chord (cs ! (bar mod length cs))) (of_nat bar * 1920))
    [0 ..< nat bars] s)"
  have parts: "piece_part cs bars i (events_of (oi_name i) log)" if "i \<in> set insts" for i
    using that mset_eq_setD [OF m] chords_bar_ok [OF assms(1), folded insts_def g_def]
    by (intro bar_loop_parts(1) [OF assms(3) dist _ log_def]) (auto simp: order_def)
  have "orchestrate_chords cs ens bars sd = collect_parts (run_pushes log) insts"
    using assms(2,3) ok(4,5)
    by (simp add: orchestrate_chords_def insts_def [symmetric] Let_def log_def s_def g_def gt_ticks_per_bar_def kPpq_def)
  also have "\<dots> = map (\<lambda>i. (oi_name i, events_of (oi_name i) log)) insts"
    using piece_part_nonempty [OF parts assms(2)] by (intro collect_run_pushes ok(1))
  finally show ?thesis using parts by (simp add: insts_def [symmetric] list_all2_conv_all_nth)
qed

theorem orchestrate_chords_correct_witness:
  "list_all2 (\<lambda>i (nm, es). nm = oi_name i \<and> piece_part [''C'', ''Am'', ''G7''] 4 i es)
    (flatten_ensemble orchestra) (orchestrate_chords [''C'', ''Am'', ''G7''] orchestra 4 7)"
  by (rule orchestrate_chords_correct [of orchestra 4 "[''C'', ''Am'', ''G7'']" 7]) (code_simp, simp_all)

subsection \<open>Melody and chords\<close>

text \<open>A melody note as an instrument plays it: the same note in some octave of its range, in time.\<close>

definition copy_of :: "int \<Rightarrow> orchestral_instrument \<Rightarrow> midi_event \<Rightarrow> midi_event \<Rightarrow> bool" where
  "copy_of k i e e' \<longleftrightarrow>
     tick_on e' = tick_on e \<and> tick_off e' = tick_off e \<and> articulation e' = articulation e \<and>
     channel e' = word_of_int (oi_channel i) \<and> oi_min i \<le> pitch e' \<and> pitch e' \<le> oi_max i \<and>
     pitch e' mod 12 = (pitch e + k) mod 12"

definition full_part :: "midi_event list \<Rightarrow> string list \<Rightarrow> int \<Rightarrow> orchestral_instrument \<Rightarrow> midi_event list \<Rightarrow> bool" where
  "full_part melody cs bars i es \<longleftrightarrow>
     (if oi_role i = O_melody
      then list_all2 (\<lambda>e e'. copy_of 0 i e e' \<and> velocity e' = velocity e) melody es
      else if oi_role i = O_countermelody
      then list_all2 (\<lambda>e e'. copy_of (- 3) i e e' \<and> velocity e' = velocity e - 10) melody es
      else piece_part cs bars i es)"

lemma pitch_into_range:
  assumes "inst_ok i"
  shows "uint (word_of_int (into_range i n) :: u8) = into_range i n"
  using into_range_ok [OF assms, of n] assms by (intro uint_u8_of_int) (auto simp: inst_ok_def)

lemma concat_map_distributes:
  assumes "\<And>i. i \<in> set is \<Longrightarrow> \<exists>es. f i = map (Pair (oi_name i)) es \<and> R i es"
  shows "distributes R is (concat (map f is))"
  using assms
proof (induction "is")
  case (Cons i "is")
  obtain es where "f i = map (Pair (oi_name i)) es" "R i es" using Cons.prems by (metis list.set_intros(1))
  then show ?case using distributes_Cons [of R i es] Cons by simp
qed simp

lemma full_melody_ok:
  assumes "inst_ok i" "oi_role i = O_melody"
  shows "\<exists>es. full_melody melody i = map (Pair (oi_name i)) es \<and> full_part melody cs bars i es"
  using assms into_range_ok [OF assms(1)] pitch_into_range [OF assms(1)]
  by (intro exI [of _ "map snd (full_melody melody i)"])
    (simp add: full_melody_def full_part_def list_all2_conv_all_nth copy_of_def)

lemma full_countermelody_ok:
  assumes "inst_ok i" "oi_role i = O_countermelody" "\<forall>e \<in> set melody. unat (velocity e) \<le> 127"
  shows "\<exists>es. full_countermelody melody i = map (Pair (oi_name i)) es \<and> full_part melody cs bars i es"
proof -
  have "(word_of_int (min 127 (uint (v :: u8) - 10)) :: u8) = v - 10" if "unat v \<le> 127" for v
  proof -
    have "int (unat v) \<le> 127" using that by linarith
    then have "uint v \<le> 127" by simp
    then have "min 127 (uint v - 10) = uint v - 10" by simp
    then show ?thesis by simp
  qed
  then show ?thesis
    using assms into_range_ok [OF assms(1)] pitch_into_range [OF assms(1)]
    by (intro exI [of _ "map snd (full_countermelody melody i)"])
      (simp add: full_countermelody_def full_part_def list_all2_conv_all_nth copy_of_def)
qed

lemma full_bar_ok:
  assumes "ensemble_ok ens" "0 \<le> fst c" "fst c < 12"
  defines "g \<equiv> group_by_role (flatten_ensemble ens)"
  shows "distributes (bar_part c bs) (isort name_less (g O_harmony) @ g O_bass @ g O_pad @ g O_rhythm @ g O_fill)
    (fst (full_bar (flatten_ensemble ens) c bs s))"
proof -
  note gr = group_ok [OF assms(1), folded g_def]
  have harm: "\<forall>i \<in> set (isort name_less (g O_harmony)). inst_ok i \<and> oi_role i = O_harmony"
    using gr name_order.stable.sort_set by blast
  have stabs: "\<forall>i \<in> set (g O_rhythm @ g O_fill). inst_ok i \<and> (oi_role i = O_rhythm \<or> oi_role i = O_fill)"
    using gr by auto
  have six: "length (isort name_less (g O_harmony)) \<le> 6"
    using flatten_ok(3) [OF assms(1)] by (simp add: g_def name_order.stable.sort_length)
  have dur: "gt_ticks_per_bar - 20 = 1900" "(of_nat kPpq :: u32) = 480" by (simp_all add: gt_ticks_per_bar_def kPpq_def)
  show ?thesis
    unfolding full_bar_def Let_def split_beta fst_conv g_def [symmetric] dur
    by (intro distributes_append assign_harmony_ok assign_bass_ok assign_pad_ok
        chord_stabs_ok assms(2,3) gr six harm stabs) simp_all
qed

text \<open>Three logs that serve disjoint groups of instruments: every instrument keeps its own part.\<close>

lemma merged_parts:
  assumes "distributes R as l1" "distributes R bs l2" "distinct (map oi_name (as @ bs @ cs))"
    and "\<And>i. i \<in> set cs \<Longrightarrow> R i (events_of (oi_name i) l3)"
    and "\<And>nm. nm \<notin> oi_name ` set cs \<Longrightarrow> events_of nm l3 = []" and "i \<in> set (as @ bs @ cs)"
  shows "R i (events_of (oi_name i) (l1 @ l2 @ l3))"
proof -
  have disj: "oi_name ` set as \<inter> oi_name ` set bs = {}" "oi_name ` set as \<inter> oi_name ` set cs = {}"
    "oi_name ` set bs \<inter> oi_name ` set cs = {}" "distinct (map oi_name as)" "distinct (map oi_name bs)"
    using assms(3) by auto
  consider "i \<in> set as" | "i \<in> set bs" | "i \<in> set cs" using assms(6) by auto
  then show ?thesis
  proof cases
    case 1
    then have "oi_name i \<notin> oi_name ` set bs" "oi_name i \<notin> oi_name ` set cs" using disj by blast+
    with distributes_other [OF assms(2)] assms(5) show ?thesis using distributes_events_of [OF assms(1) disj(4) 1] by simp
  next
    case 2
    then have "oi_name i \<notin> oi_name ` set as" "oi_name i \<notin> oi_name ` set cs" using disj by blast+
    with distributes_other [OF assms(1)] assms(5) show ?thesis using distributes_events_of [OF assms(2) disj(5) 2] by simp
  next
    case 3
    then have "oi_name i \<notin> oi_name ` set as" "oi_name i \<notin> oi_name ` set bs" using disj by blast+
    with distributes_other [OF assms(1)] distributes_other [OF assms(2)] show ?thesis using assms(4) [OF 3] by simp
  qed
qed

lemma orchestrate_full_parts:
  assumes "ensemble_ok ens" "1 \<le> bars" "cs \<noteq> []" "melody \<noteq> []" "\<forall>e \<in> set melody. unat (velocity e) \<le> 127"
  shows "list_all2 (\<lambda>i (nm, es). nm = oi_name i \<and> full_part melody cs bars i es)
    (flatten_ensemble ens) (orchestrate_full melody cs ens bars sd)"
proof -
  define insts where "insts = flatten_ensemble ens"
  note ok = flatten_ok [OF assms(1), folded insts_def]
  define g where "g = group_by_role insts"
  note gr = group_ok [OF assms(1), folded insts_def g_def]
  define mel where "mel = isort name_less (g O_melody)"
  define cmel where "cmel = isort name_less (g O_countermelody)"
  define rest where "rest = isort name_less (g O_harmony) @ g O_bass @ g O_pad @ g O_rhythm @ g O_fill"
  define order where "order = mel @ cmel @ rest"
  have m: "mset order = mset insts"
    using group_perm [of insts] by (simp add: order_def mel_def cmel_def rest_def g_def name_order.stable.sort_mset)
  then have "mset (map oi_name order) = mset (map oi_name insts)" by (metis mset_map)
  then have dist: "distinct (map oi_name order)" using ok(1) mset_eq_imp_distinct_iff by blast
  have set_order: "set insts = set order" using mset_eq_setD [OF m] by simp
  have sets: "set mel = set (g O_melody)" "set cmel = set (g O_countermelody)"
    by (simp_all only: mel_def cmel_def name_order.stable.sort_set)
  define l1 where "l1 = concat (map (full_melody melody) mel)"
  define l2 where "l2 = concat (map (full_countermelody melody) cmel)"
  define l3 where "l3 = fst (for_each (\<lambda>bar. full_bar insts (parse_chord (cs ! (bar mod length cs))) (of_nat bar * 1920))
    [0 ..< nat bars] (mt_seed sd))"
  have d1: "distributes (full_part melody cs bars) mel l1"
    unfolding l1_def
  proof (rule concat_map_distributes)
    fix i assume "i \<in> set mel"
    then have "inst_ok i" "oi_role i = O_melody" using gr [of O_melody] unfolding sets(1) by auto
    then show "\<exists>es. full_melody melody i = map (Pair (oi_name i)) es \<and> full_part melody cs bars i es" by (rule full_melody_ok)
  qed
  have d2: "distributes (full_part melody cs bars) cmel l2"
    unfolding l2_def
  proof (rule concat_map_distributes)
    fix i assume "i \<in> set cmel"
    then have "inst_ok i" "oi_role i = O_countermelody" using gr [of O_countermelody] unfolding sets(2) by auto
    then show "\<exists>es. full_countermelody melody i = map (Pair (oi_name i)) es \<and> full_part melody cs bars i es"
      by (rule full_countermelody_ok [OF _ _ assms(5)])
  qed
  have drest: "distinct (map oi_name rest)" using dist by (simp add: order_def)
  have bar: "distributes (bar_part c bs) rest (fst (full_bar insts c bs s))" if "0 \<le> fst c" "fst c < 12" for c bs s
    using full_bar_ok [OF assms(1) that] by (simp add: rest_def g_def insts_def)
  have loop1: "piece_part cs bars i (events_of (oi_name i) l3)" if "i \<in> set rest" for i
    by (rule bar_loop_parts(1) [OF assms(3) drest _ l3_def that]) (rule bar)
  have loop2: "events_of nm l3 = []" if "nm \<notin> oi_name ` set rest" for nm
    by (rule bar_loop_parts(2) [OF assms(3) drest _ l3_def that]) (rule bar)
  have parts: "full_part melody cs bars i (events_of (oi_name i) (l1 @ l2 @ l3))" if "i \<in> set insts" for i
  proof (rule merged_parts [OF d1 d2 dist [unfolded order_def] _ loop2])
    fix j assume j: "j \<in> set rest"
    have "oi_role j \<noteq> O_melody \<and> oi_role j \<noteq> O_countermelody"
      using j gr unfolding rest_def set_append name_order.stable.sort_set by force
    then show "full_part melody cs bars j (events_of (oi_name j) l3)" using loop1 [OF j] by (simp add: full_part_def)
  qed (use that in \<open>simp_all add: set_order order_def\<close>)
  have ne: "events_of (oi_name i) (l1 @ l2 @ l3) \<noteq> []" if "i \<in> set insts" for i
    using parts [OF that] piece_part_nonempty assms(2,4) unfolding full_part_def by (fastforce split: if_splits)
  have "orchestrate_full melody cs ens bars sd = collect_parts (run_pushes (l1 @ l2 @ l3)) insts"
    using assms(2-4) ok(4,5)
    by (simp add: orchestrate_full_def insts_def [symmetric] Let_def l1_def l2_def l3_def mel_def cmel_def g_def gt_ticks_per_bar_def kPpq_def)
  also have "\<dots> = map (\<lambda>i. (oi_name i, events_of (oi_name i) (l1 @ l2 @ l3))) insts"
    by (intro collect_run_pushes ok(1) ne)
  finally show ?thesis using parts by (simp add: insts_def [symmetric] list_all2_conv_all_nth)
qed

text \<open>
  C28. A melody with its chords orchestrated for a proper ensemble: every instrument gets its part. A melody
  instrument plays the whole melody note for note, in time and with its velocities, moved by octaves
  into its range; a countermelody instrument plays it three semitones lower, also moved by octaves, with its
  velocities less 10 as bytes (so 10 softer from 10 on; below, the byte wraps to 246 and more:
  \<open>countermelody_velocity_wraps\<close>); the others play the chords bar by bar as their roles have it.
  Proper (\<open>ensemble_ok\<close>) means at least one instrument, distinct names, at most six harmony instruments, and for
  each a MIDI channel and a range of MIDI notes that spans 17 semitones. There is at least one bar, a chord and
  a melody note, and melody velocities are at most 127.
\<close>

theorem orchestrate_full_correct:
  assumes "ensemble_ok ens" "1 \<le> bars" "cs \<noteq> []" "melody \<noteq> []" "\<forall>e \<in> set melody. unat (velocity e) \<le> 127"
  shows "list_all2 (\<lambda>i (nm, es). nm = oi_name i \<and> full_part melody cs bars i es)
    (flatten_ensemble ens) (orchestrate_full melody cs ens bars sd)"
  using assms by (rule orchestrate_full_parts)

theorem orchestrate_full_correct_witness:
  "list_all2 (\<lambda>i (nm, es). nm = oi_name i \<and> full_part [make_event 0 480 72 90 0] [''F''] 2 i es)
    (flatten_ensemble pop_band) (orchestrate_full [make_event 0 480 72 90 0] [''F''] pop_band 2 1)"
  by (rule orchestrate_full_correct [of pop_band 2 "[''F'']" "[make_event 0 480 72 90 0]" 1]) (code_simp, simp_all)

text \<open>A countermelody note softer than 10 wraps around instead of going silent.\<close>

lemma countermelody_velocity_wraps:
  assumes "unat (velocity e) < 10" "p \<in> set (full_countermelody [e] i)"
  shows "246 \<le> unat (velocity (snd p))"
proof -
  have v: "velocity (snd p) = velocity e - 10"
  proof -
    have "int (unat (velocity e)) \<le> 9" using assms(1) by linarith
    then have "min 127 (uint (velocity e) - 10) = uint (velocity e) - 10" by simp
    then show ?thesis using assms(2) by (simp add: full_countermelody_def)
  qed
  show ?thesis unfolding v using assms(1) by (simp add: unat_sub_if')
qed

subsection \<open>The standard ensembles\<close>

lemma total_count: "total_instrument_count ens = int (length (concat (map os_instruments ens)))"
proof -
  have "foldl (\<lambda>n sec. n + int (length (os_instruments sec))) a ens = a + int (length (concat (map os_instruments ens)))" for a
    by (induction ens arbitrary: a) simp_all
  then show ?thesis by (simp add: total_instrument_count_def)
qed

lemma trim_ok:
  assumes "ensemble_ok ens" "0 < n" "n < total_instrument_count ens"
  shows "ensemble_ok (trim_ensemble ens n) \<and> total_instrument_count (trim_ensemble ens n) = n"
proof -
  define all where "all = sort_instruments (concat (map os_instruments ens))"
  have m: "mset all = mset (concat (map os_instruments ens))"
    unfolding all_def sort_instruments_def by (rule inst_order.stable.sort_mset)
  have len: "int (length all) = total_instrument_count ens" using mset_eq_length [OF m] by (simp add: total_count)
  have tr: "trim_ensemble ens n = [\<lparr>os_name = ''Ensemble'', os_instruments = take (nat n) all\<rparr>]"
    using assms(3) len by (simp add: trim_ensemble_def all_def [symmetric] Let_def)
  note fl = flatten_ok [OF assms(1), unfolded flatten_ensemble_def, folded all_def]
  have "distinct (map oi_name (take (nat n) all))" using fl(1) by (simp add: take_map [symmetric] distinct_take)
  moreover have "list_all inst_ok (take (nat n) all)" using fl(2) by (auto simp: list_all_iff dest: in_set_takeD)
  moreover have "length (filter (\<lambda>i. oi_role i = O_harmony) (take (nat n) all)) \<le> length (filter (\<lambda>i. oi_role i = O_harmony) all)"
    by (metis append_take_drop_id filter_append le_add1 length_append)
  then have "length (filter (\<lambda>i. oi_role i = O_harmony) (take (nat n) all)) \<le> 6"
    using fl(3) by (simp add: group_by_role_def)
  moreover have "take (nat n) all \<noteq> []" using assms(2) fl(4) by simp
  ultimately show ?thesis using assms(2,3) len by (simp add: tr ensemble_ok_def Let_def total_count min_def)
qed

lemma standard_ensembles:
  "ensemble_ok [jazz_combo]" "ensemble_ok [rock_band]" "ensemble_ok orchestra" "ensemble_ok pop_band" "ensemble_ok [string_quartet]"
  by code_simp+

text \<open>
  C29. Every suggested ensemble, for every genre and every limit, is one the orchestration theorems apply
  to, and a positive limit is kept: the ensemble has no more instruments than asked for.
\<close>

theorem suggest_ensemble_ok:
  "ensemble_ok (suggest_ensemble genre n) \<and> (n \<le> 0 \<or> total_instrument_count (suggest_ensemble genre n) \<le> n)"
proof -
  define ens where "ens = (if genre = ''jazz'' \<or> genre = ''jazz combo'' then [jazz_combo]
         else if genre = ''rock'' \<or> genre = ''rock band'' then [rock_band]
         else if genre = ''orchestra'' \<or> genre = ''orchestral'' then orchestra
         else if genre = ''pop'' \<or> genre = ''pop band'' then pop_band
         else if genre = ''string quartet'' then [string_quartet]
         else pop_band)"
  have ok: "ensemble_ok ens" unfolding ens_def using standard_ensembles by presburger
  have s: "suggest_ensemble genre n = (if n > 0 \<and> total_instrument_count ens > n then trim_ensemble ens n else ens)"
    unfolding suggest_ensemble_def Let_def ens_def [symmetric] ..
  show ?thesis
  proof (cases "n > 0 \<and> total_instrument_count ens > n")
    case True
    then show ?thesis using trim_ok [OF ok, of n] unfolding s by simp
  next
    case False
    then show ?thesis using ok unfolding s by auto
  qed
qed

end
