(* ===== verification/Orchestrate_Workflow.thy ===== *)
theory Orchestrate_Workflow
  imports Orchestration_Engine Bass_Engine Drum_Engine
begin

text \<open>
  The orchestrate workflow (\<open>orchestrate_workflow.cpp\<close>): a piano piece is split into melody and
  harmony, the harmony is read as chords, and the engines' parts are collected into named tracks.
  The engines it is given are the fields of \<open>workflow\<close>; all but the first may be null pointers.
\<close>

datatype orchestrate_density = Sparse | Medium | Full

record orchestrate_request =
  piano_input :: "midi_event list"
  oreq_bars :: int
  oreq_density :: orchestrate_density
  oreq_seed :: u64

definition kPcNames :: "string list" where
  "kPcNames = [''C'', ''C#'', ''D'', ''D#'', ''E'', ''F'', ''F#'', ''G'', ''G#'', ''A'', ''A#'', ''B'']"

definition kTemplates :: "(string \<times> int list) list" where
  "kTemplates =
     [(''maj'', [0, 4, 7]), (''min'', [0, 3, 7]), (''7'', [0, 4, 7, 10]), (''m7'', [0, 3, 7, 10]),
      (''maj7'', [0, 4, 7, 11]), (''dim'', [0, 3, 6]), (''dim7'', [0, 3, 6, 9]), (''m7b5'', [0, 3, 6, 10])]"

subsection \<open>Chord detection\<close>

definition pitch_classes :: "midi_event list \<Rightarrow> int set" where
  "pitch_classes events = set (map (\<lambda>ev. uint (note_no ev) smod 12) events)"

definition template_score :: "int set \<Rightarrow> int \<Rightarrow> int list \<Rightarrow> int" where
  "template_score pcs root intervals =
     foldl (\<lambda>score i.
       let in_pcs = i \<in> pcs;
           in_chord = list_ex (\<lambda>interv. (root + interv) smod 12 = i) intervals
       in if in_pcs \<and> in_chord then score + 2
          else if \<not> in_pcs \<and> in_chord then score - 1
          else if in_pcs \<and> \<not> in_chord then score - 1
          else score) 0 [0, 1, 2, 3, 4, 5, 6, 7, 8, 9, 10, 11]"

text \<open>The candidates in the order of the two loops, and the update of the best one so far.\<close>

definition chord_candidates :: "(int \<times> string \<times> int list) list" where
  "chord_candidates = List.product [0, 1, 2, 3, 4, 5, 6, 7, 8, 9, 10, 11] kTemplates"

definition best_chord :: "int set \<Rightarrow> int \<times> string \<times> int" where
  "best_chord pcs =
     foldl (\<lambda>(best_root, best_quality, best_score) (root, qual, intervals).
       let score = template_score pcs root intervals
       in if score > best_score then (root, qual, score) else (best_root, best_quality, best_score))
     (0, ''maj'', - 999) chord_candidates"

definition chord_symbol :: "int \<Rightarrow> string \<Rightarrow> string" where
  "chord_symbol root qual = kPcNames ! nat root @ (if qual \<noteq> ''maj'' then qual else [])"

definition detect_chord :: "int set \<Rightarrow> string" where
  "detect_chord pcs =
     (if pcs = {} then ''C''
      else let (best_root, best_quality, _) = best_chord pcs in chord_symbol best_root best_quality)"

definition build_chord_progression :: "midi_event list \<Rightarrow> int \<Rightarrow> string list" where
  "build_chord_progression harmony bars =
     (if harmony = [] \<or> bars < 1 then [''C'']
      else map (\<lambda>bar.
        let bar_start = of_nat bar * gt_ticks_per_bar;
            bar_end = bar_start + gt_ticks_per_bar
        in detect_chord (pitch_classes (filter (\<lambda>ev. tick_on ev \<ge> bar_start \<and> tick_on ev < bar_end) harmony)))
      [0 ..< nat bars])"

subsection \<open>Melody and harmony\<close>

definition highest_index :: "midi_event list \<Rightarrow> nat" where
  "highest_index events =
     foldl (\<lambda>highest i. if note_no (events ! i) > note_no (events ! highest) then i else highest)
       0 [0 ..< length events]"

text \<open>The groups of the ordered map from start ticks to events.\<close>

definition tick_groups :: "midi_event list \<Rightarrow> midi_event list list" where
  "tick_groups piano =
     map (\<lambda>tick. filter (\<lambda>ev. tick_on ev = tick) piano) (sorted_list_of_set (set (map tick_on piano)))"

definition separate_melody_harmony :: "midi_event list \<Rightarrow> midi_event list \<times> midi_event list" where
  "separate_melody_harmony piano =
     (let groups = tick_groups piano in
      (map (\<lambda>events. events ! highest_index events) groups,
       concat (map (\<lambda>events. let h = highest_index events in take h events @ drop (Suc h) events) groups)))"

text \<open>\<open>None\<close> is the exception \<open>substr\<close> throws on an empty symbol.\<close>

definition spec_of_symbol :: "nat \<Rightarrow> string \<Rightarrow> chord_spec option" where
  "spec_of_symbol i symb =
     (if symb = [] then None
      else let (root, pos) =
                 (if 1 < length symb \<and> (symb ! 1 = CHR ''#'' \<or> symb ! 1 = CHR ''b'')
                  then ([symb ! 0, symb ! 1], 2) else ([symb ! 0], 1));
               qual = drop pos symb;
               qual = (if qual = [] \<or> qual = ''M'' then ''maj'' else qual)
           in Some \<lparr>start_tick = of_nat i * gt_ticks_per_bar, duration_ticks = gt_ticks_per_bar - 20,
                root_pc = mod_parse_root_pc root, quality = qual, cs_channel = 0\<rparr>)"

fun specs_of_symbols :: "nat \<Rightarrow> string list \<Rightarrow> chord_spec list option" where
  "specs_of_symbols i [] = Some []"
| "specs_of_symbols i (symb # symbs) =
     (case spec_of_symbol i symb of None \<Rightarrow> None
      | Some cs \<Rightarrow> map_option (Cons cs) (specs_of_symbols (Suc i) symbs))"

definition build_chord_request :: "string list \<Rightarrow> u64 \<Rightarrow> chord_request option" where
  "build_chord_request chord_progression sd =
     map_option (\<lambda>css. \<lparr>chords = css, req_seed = sd, req_ppq = of_nat kPpq\<rparr>) (specs_of_symbols 0 chord_progression)"

subsection \<open>Ensembles\<close>

definition wf_quartet :: "orchestral_instrument list" where
  "wf_quartet =
     [oinst ''Violin I'' 40 0 55 84 O_melody 0, oinst ''Violin II'' 40 1 55 84 O_harmony 2,
      oinst ''Viola'' 41 2 48 76 O_harmony 3, oinst ''Cello'' 42 3 36 60 O_bass 4]"

definition build_ensemble :: "orchestrate_density \<Rightarrow> orchestral_section list" where
  "build_ensemble density =
     (case density of
        Sparse \<Rightarrow> [\<lparr>os_name = ''Strings'', os_instruments = wf_quartet\<rparr>, \<lparr>os_name = ''Rhythm'', os_instruments = []\<rparr>]
      | Medium \<Rightarrow>
          [\<lparr>os_name = ''Strings'', os_instruments = wf_quartet\<rparr>,
           \<lparr>os_name = ''Rhythm'', os_instruments =
             [oinst ''Contrabass'' 44 4 28 48 O_bass 5,
              oinst ''Guitar'' 27 5 40 76 O_harmony 3,
              oinst ''Drums'' 1 9 35 81 O_rhythm 6]\<rparr>]
      | Full \<Rightarrow>
          [\<lparr>os_name = ''Strings'', os_instruments =
             [oinst ''Violin I'' 40 0 55 84 O_melody 0,
              oinst ''Violin II'' 40 1 55 84 O_countermelody 1,
              oinst ''Viola'' 41 2 48 76 O_harmony 3,
              oinst ''Cello'' 42 3 36 60 O_harmony 4,
              oinst ''Contrabass'' 44 4 28 48 O_bass 5]\<rparr>,
           \<lparr>os_name = ''Woodwinds'', os_instruments =
             [oinst ''Flute'' 73 5 60 96 O_countermelody 2,
              oinst ''Oboe'' 68 6 58 87 O_fill 6,
              oinst ''Clarinet'' 71 7 50 84 O_fill 7]\<rparr>,
           \<lparr>os_name = ''Brass'', os_instruments =
             [oinst ''Horn'' 60 8 41 77 O_harmony 4,
              oinst ''Trumpet'' 56 9 58 84 O_harmony 5]\<rparr>,
           \<lparr>os_name = ''Rhythm'', os_instruments =
             [oinst ''Guitar'' 27 10 40 76 O_harmony 3,
              oinst ''Drums'' 1 9 35 81 O_rhythm 6]\<rparr>])"

subsection \<open>The workflow\<close>

record workflow =
  wf_orch :: "midi_event list \<Rightarrow> string list \<Rightarrow> orchestral_section list \<Rightarrow> int \<Rightarrow> u64 \<Rightarrow> (string \<times> midi_event list) list"
  wf_strings :: "(string list \<Rightarrow> int \<Rightarrow> strings_section \<Rightarrow> u64 \<Rightarrow> midi_event list) option"
  wf_guitar :: "(string list \<Rightarrow> int \<Rightarrow> guitar_style \<Rightarrow> u64 \<Rightarrow> midi_event list) option"
  wf_bass :: "(chord_request \<Rightarrow> bass_style \<Rightarrow> midi_event list) option"
  wf_drums :: "(chord_request \<Rightarrow> drum_style \<Rightarrow> midi_event list) option"

type_synonym track_map = "string \<rightharpoonup> midi_event list"

definition set_track :: "string \<Rightarrow> midi_event list \<Rightarrow> track_map \<Rightarrow> track_map" where
  "set_track nm es m = (if es = [] then m else m(nm \<mapsto> es))"

definition add_strings :: "workflow \<Rightarrow> orchestrate_request \<Rightarrow> string list \<Rightarrow> track_map \<Rightarrow> track_map" where
  "add_strings eng req cs m =
     (case wf_strings eng of
        Some pad \<Rightarrow> if oreq_density req \<noteq> Sparse
          then set_track ''Strings Pad'' (pad cs (oreq_bars req) Full_ensemble (oreq_seed req + 1)) m else m
      | None \<Rightarrow> m)"

definition add_guitar :: "workflow \<Rightarrow> orchestrate_request \<Rightarrow> string list \<Rightarrow> track_map \<Rightarrow> track_map" where
  "add_guitar eng req cs m =
     (case wf_guitar eng of
        Some gtr \<Rightarrow> if oreq_density req = Full
          then set_track ''Guitar'' (gtr cs (oreq_bars req) Arpeggio (oreq_seed req + 2)) m else m
      | None \<Rightarrow> m)"

definition add_bass :: "workflow \<Rightarrow> orchestrate_request \<Rightarrow> string list \<Rightarrow> track_map \<Rightarrow> track_map option" where
  "add_bass eng req cs m =
     (case wf_bass eng of
        Some bass \<Rightarrow> if cs \<noteq> []
          then map_option (\<lambda>breq. set_track ''Bass''
            (bass breq \<lparr>bs_seed = seed_to_int (oreq_seed req + 3), use_octave_jump = True\<rparr>) m)
            (build_chord_request cs (oreq_seed req + 3))
          else Some m
      | None \<Rightarrow> Some m)"

definition add_drums :: "workflow \<Rightarrow> orchestrate_request \<Rightarrow> string list \<Rightarrow> track_map \<Rightarrow> track_map option" where
  "add_drums eng req cs m =
     (case wf_drums eng of
        Some drums \<Rightarrow> if oreq_density req \<noteq> Sparse \<and> cs \<noteq> []
          then map_option (\<lambda>dreq. set_track ''Drums''
            (drums dreq \<lparr>ds_seed = seed_to_int (oreq_seed req + 4), use_ghosts = True, use_open_hh = (oreq_density req = Full)\<rparr>) m)
            (build_chord_request cs (oreq_seed req + 4))
          else Some m
      | None \<Rightarrow> Some m)"

definition track_order :: "string list" where
  "track_order =
     [''Violin I'', ''Violin II'', ''Flute'', ''Viola'', ''Cello'', ''Contrabass'', ''Strings Pad'', ''Guitar'',
      ''Bass'', ''Drums'', ''Horn'', ''Trumpet'', ''Oboe'', ''Clarinet'', ''Piano'']"

text \<open>
  The tracks of the priority list, then the others in the iteration order of the hash map, which the
  standard leaves open: \<open>iter\<close> is that order.
\<close>

definition tracks_named :: "track_map \<Rightarrow> string list \<Rightarrow> (string \<times> midi_event list) list" where
  "tracks_named m names =
     concat (map (\<lambda>nm. case m nm of Some (e # es) \<Rightarrow> [(nm, e # es)] | _ \<Rightarrow> []) names)"

definition order_tracks :: "(track_map \<Rightarrow> string list) \<Rightarrow> track_map \<Rightarrow> (string \<times> midi_event list) list" where
  "order_tracks iter m = tracks_named m track_order @ tracks_named m (filter (\<lambda>nm. nm \<notin> set track_order) (iter m))"

definition orchestrate ::
  "workflow \<Rightarrow> (track_map \<Rightarrow> string list) \<Rightarrow> orchestrate_request \<Rightarrow> (string \<times> midi_event list) list option" where
  "orchestrate eng iter req =
     (if piano_input req = [] \<or> oreq_bars req < 1 then Some []
      else let (melody, harmony) = separate_melody_harmony (piano_input req) in
      if melody = [] \<and> harmony = [] then Some []
      else let cs = build_chord_progression harmony (oreq_bars req);
               ensemble = build_ensemble (oreq_density req);
               orch_tracks = wf_orch eng melody cs ensemble (oreq_bars req) (oreq_seed req);
               m = foldl (\<lambda>m (nm, es). m(nm \<mapsto> es)) Map.empty orch_tracks;
               m = add_strings eng req cs m;
               m = add_guitar eng req cs m
           in case add_bass eng req cs m of None \<Rightarrow> None
              | Some m \<Rightarrow> map_option (order_tracks iter) (add_drums eng req cs m))"

text \<open>The workflow the theory module builds, on the engines of this library.\<close>

definition std_workflow :: workflow where
  "std_workflow = \<lparr>wf_orch = orchestrate_full, wf_strings = Some generate_pad, wf_guitar = Some generate_chords,
     wf_bass = Some bass_generate, wf_drums = Some drum_generate\<rparr>"

subsection \<open>The detected chord fits best\<close>

text \<open>The chord of a template, as the set of its pitch classes.\<close>

definition tones_of :: "int \<Rightarrow> int list \<Rightarrow> int set" where
  "tones_of root intervals = (\<lambda>x. (root + x) mod 12) ` set intervals"

lemma tones_range: "tones_of r iv \<subseteq> {0 ..< 12}"
  by (auto simp: tones_of_def)

lemma twelve: "set [0, 1, 2, 3, 4, 5, 6, 7, 8, 9, 10, 11 :: int] = {0 ..< 12}"
  by auto presburger

lemma foldl_sum: "foldl (\<lambda>a i. a + c i) a xs = a + sum_list (map c xs)" for a :: int
  by (induction xs arbitrary: a) simp_all

lemma template_score_eq:
  assumes "P \<subseteq> {0 ..< 12}" "0 \<le> r" "\<forall>x \<in> set iv. 0 \<le> x"
  shows "template_score P r iv = 4 * int (card (P \<inter> tones_of r iv)) - int (card (tones_of r iv)) - int (card P)"
proof -
  define C where "C = tones_of r iv"
  define I where "I = [0, 1, 2, 3, 4, 5, 6, 7, 8, 9, 10, 11 :: int]"
  define c :: "int \<Rightarrow> int" where "c = (\<lambda>i. 4 * of_bool (i \<in> P \<inter> C) - of_bool (i \<in> C) - of_bool (i \<in> P))"
  have "list_ex (\<lambda>x. (r + x) smod 12 = i) iv \<longleftrightarrow> i \<in> C" for i
    using assms(2,3) by (auto simp: C_def tones_of_def list_ex_iff smod_nonneg_eq)
  then have "template_score P r iv = foldl (\<lambda>a i. a + c i) 0 I"
    unfolding template_score_def I_def [symmetric] by (intro foldl_cong) (auto simp: c_def Let_def)
  also have "\<dots> = sum c (set I)" unfolding foldl_sum by (simp add: sum_list_distinct_conv_sum_set I_def)
  also have "set I = {0 ..< 12}" unfolding I_def by (rule twelve)
  also have "sum c {0 ..< 12} = 4 * int (card ({0 ..< 12} \<inter> (P \<inter> C))) - int (card ({0 ..< 12} \<inter> C)) - int (card ({0 ..< 12} \<inter> P))"
    by (simp add: c_def sum_subtractf sum_distrib_left [symmetric] of_bool_def sum.If_cases Int_def)
  finally have "template_score P r iv = \<dots>" .
  moreover have "{0 ..< 12} \<inter> (P \<inter> C) = P \<inter> C" "{0 ..< 12} \<inter> C = C" "{0 ..< 12} \<inter> P = P"
    using assms(1) tones_range [of r iv] by (auto simp: C_def)
  ultimately show ?thesis by (simp add: C_def)
qed

lemma best_fold:
  fixes score :: "int \<Rightarrow> int list \<Rightarrow> int"
  defines "upd \<equiv> \<lambda>(br, bq, bs) (r, q, iv). let s = score r iv in if s > bs then (r, q, s) else (br, bq, bs)"
  shows "snd (snd b) \<le> snd (snd (foldl upd b cs)) \<and>
    (\<forall>(r, q, iv) \<in> set cs. score r iv \<le> snd (snd (foldl upd b cs))) \<and>
    (foldl upd b cs = b \<or> (\<exists>(r, q, iv) \<in> set cs. foldl upd b cs = (r, q, score r iv)))"
proof (induction cs arbitrary: b)
  case (Cons x cs)
  obtain r q iv where x: "x = (r, q, iv)" by (cases x)
  have u: "upd b x = (if score r iv > snd (snd b) then (r, q, score r iv) else b)"
    by (simp add: upd_def x split_beta Let_def)
  show ?case using Cons.IH [of "upd b x"] u unfolding x by (auto split: if_splits)
qed simp

lemma chord_candidates_ok:
  "list_all (\<lambda>(r, q, iv). 0 \<le> r \<and> r < 12 \<and> st_offsets_for q = iv \<and> parse_chord (chord_symbol r q) = (r, q)) chord_candidates"
  by code_simp

lemma candidates_iff: "(r, q, iv) \<in> set chord_candidates \<longleftrightarrow> 0 \<le> r \<and> r < 12 \<and> (q, iv) \<in> set kTemplates"
  unfolding chord_candidates_def set_product twelve by auto

lemma detect_chord_best:
  assumes "P \<subseteq> {0 ..< 12}" "P \<noteq> {}"
  shows "\<exists>(r, q, iv) \<in> set chord_candidates. parse_chord (detect_chord P) = (r, q) \<and> st_offsets_for q = iv \<and>
    (\<forall>(r', q', iv') \<in> set chord_candidates. template_score P r' iv' \<le> template_score P r iv)"
proof -
  let ?b = "best_chord P"
  have fold: "(\<forall>(r, q, iv) \<in> set chord_candidates. template_score P r iv \<le> snd (snd ?b)) \<and>
      (?b = (0, ''maj'', - 999) \<or> (\<exists>(r, q, iv) \<in> set chord_candidates. ?b = (r, q, template_score P r iv)))"
    using best_fold [of "(0, ''maj'', - 999)" "template_score P" chord_candidates] unfolding best_chord_def by blast
  have "(0, ''maj'', [0, 4, 7]) \<in> set chord_candidates" by (simp add: candidates_iff kTemplates_def)
  then have "template_score P 0 [0, 4, 7] \<le> snd (snd ?b)" using fold by blast
  moreover have "card P \<le> 12" using card_mono [OF _ assms(1)] by simp
  then have "- 999 < template_score P 0 [0, 4, 7]"
    using card_mono [OF _ tones_range [of 0 "[0, 4, 7]"]] by (simp add: template_score_eq [OF assms(1)])
  ultimately have "?b \<noteq> (0, ''maj'', - 999)" by auto
  with fold obtain r q iv where m: "(r, q, iv) \<in> set chord_candidates" "?b = (r, q, template_score P r iv)" by blast
  then have "detect_chord P = chord_symbol r q" using assms(2) by (simp add: detect_chord_def)
  moreover have "parse_chord (chord_symbol r q) = (r, q)" "st_offsets_for q = iv"
    using chord_candidates_ok m(1) by (auto simp: list_all_iff)
  ultimately show ?thesis using m fold by (intro bexI [of _ "(r, q, iv)"]) auto
qed

text \<open>
  Chord recognition is exact on the chords it knows: if the notes of a bar are precisely the tones of
  one of the eight chord types on some root, the symbol found names a chord with these same pitch
  classes, as every engine that reads the symbol will voice it.
\<close>

theorem detect_chord_exact:
  assumes "(q, iv) \<in> set kTemplates" "0 \<le> r" "r < 12"
  shows "(let (r', q') = parse_chord (detect_chord (tones_of r iv)) in tones_of r' (st_offsets_for q')) = tones_of r iv"
proof -
  define P where "P = tones_of r iv"
  have cand: "(r, q, iv) \<in> set chord_candidates" using assms by (simp add: candidates_iff)
  have off: "st_offsets_for q' = iv' \<and> 0 \<le> r'" if "(r', q', iv') \<in> set chord_candidates" for r' q' iv'
    using that chord_candidates_ok by (auto simp: list_all_iff)
  have nn: "\<forall>x \<in> set iv'. 0 \<le> x" if "(r', q', iv') \<in> set chord_candidates" for r' q' iv'
    using off [OF that] st_offsets_ok(3) by blast
  have P: "P \<subseteq> {0 ..< 12}" "P \<noteq> {}" "finite P"
    using tones_range off [OF cand] st_offsets_ok(1) by (auto simp: P_def tones_of_def)
  from detect_chord_best [OF P(1,2)] obtain r' q' iv' where m: "(r', q', iv') \<in> set chord_candidates"
    "parse_chord (detect_chord P) = (r', q')" "st_offsets_for q' = iv'"
    and best: "template_score P r iv \<le> template_score P r' iv'" using cand by blast
  define C where "C = tones_of r' iv'"
  have fC: "finite C" using tones_range by (metis C_def finite_atLeastLessThan_int finite_subset)
  have s: "template_score P r iv = 4 * int (card P) - int (card P) - int (card P)"
    "template_score P r' iv' = 4 * int (card (P \<inter> C)) - int (card C) - int (card P)"
    using template_score_eq [OF P(1) _ nn [OF cand]] template_score_eq [OF P(1) _ nn [OF m(1)]] off [OF cand] off [OF m(1)]
    by (simp_all add: P_def C_def)
  have le: "card (P \<inter> C) \<le> card P" "card (P \<inter> C) \<le> card C" using P(3) fC by (auto intro: card_mono)
  then have "card (P \<inter> C) = card P" "card (P \<inter> C) = card C" using best unfolding s by linarith+
  then have "P \<inter> C = P" "P \<inter> C = C"
    using card_subset_eq [OF P(3) Int_lower1 [of P C]] card_subset_eq [OF fC Int_lower2 [of P C]] by simp_all
  then show ?thesis using m(2,3) by (simp add: P_def [symmetric] C_def)
qed

theorem detect_chord_exact_witness:
  "tones_of 7 [0, 4, 7, 10] = {7, 11, 2, 5} \<and>
   (let (r', q') = parse_chord (detect_chord {7, 11, 2, 5}) in tones_of r' (st_offsets_for q')) = {7, 11, 2, 5}"
proof -
  have "tones_of 7 [0, 4, 7, 10] = {7, 11, 2, 5}" by (auto simp: tones_of_def)
  with detect_chord_exact [of "''7''" "[0, 4, 7, 10]" 7] show ?thesis by (simp add: kTemplates_def)
qed

subsection \<open>Melody and harmony\<close>

lemma highest_index_ok:
  assumes "es \<noteq> []"
  shows "highest_index es < length es" "i < length es \<Longrightarrow> note_no (es ! i) \<le> note_no (es ! highest_index es)"
proof -
  let ?f = "\<lambda>h i. if note_no (es ! i) > note_no (es ! h) then i else h"
  have "foldl ?f h is < length es \<and> note_no (es ! h) \<le> note_no (es ! foldl ?f h is) \<and>
      (\<forall>i \<in> set is. note_no (es ! i) \<le> note_no (es ! foldl ?f h is))"
    if "h < length es" "\<forall>i \<in> set is. i < length es" for h "is"
    using that
  proof (induction "is" arbitrary: h)
    case (Cons a "is")
    from Cons.IH [of "?f h a"] Cons.prems show ?case by (cases "note_no (es ! a) > note_no (es ! h)") force+
  qed simp
  from this [of 0 "[0 ..< length es]"] assms
  show "highest_index es < length es" "i < length es \<Longrightarrow> note_no (es ! i) \<le> note_no (es ! highest_index es)"
    by (auto simp: highest_index_def)
qed

lemma group_partition:
  "distinct ts \<Longrightarrow> mset (concat (map (\<lambda>t. filter (\<lambda>e. f e = t) xs) ts)) = filter_mset (\<lambda>e. f e \<in> set ts) (mset xs)"
proof (induction ts)
  case (Cons t ts)
  then show ?case by (intro multiset_eqI) (auto simp: mset_filter)
qed simp

lemma tick_groups_mset: "mset (concat (tick_groups p)) = mset p"
  unfolding tick_groups_def
  by (subst group_partition) (auto simp: multiset_eq_iff)

lemma tick_groups_ne: "es \<in> set (tick_groups p) \<Longrightarrow> es \<noteq> []"
  by (auto simp: tick_groups_def filter_empty_conv)

lemma remove_nth_mset: "h < length xs \<Longrightarrow> add_mset (xs ! h) (mset (take h xs @ drop (Suc h) xs)) = mset xs"
  by (metis (no_types, lifting) id_take_nth_drop mset.simps(2) mset_append union_mset_add_mset_right)

lemma separate_parts:
  "let (melody, harmony) = separate_melody_harmony piano in
     mset melody + mset harmony = mset piano \<and>
     map tick_on melody = sorted_list_of_set (tick_on ` set piano) \<and>
     (\<forall>e \<in> set melody. \<forall>e' \<in> set piano. tick_on e' = tick_on e \<longrightarrow> note_no e' \<le> note_no e)"
proof -
  define gs where "gs = tick_groups piano"
  define pick where "pick = (\<lambda>es. es ! highest_index es)"
  define rest where "rest = (\<lambda>es. take (highest_index es) es @ drop (Suc (highest_index es)) es)"
  have sep: "separate_melody_harmony piano = (map pick gs, concat (map rest gs))"
    by (simp add: separate_melody_harmony_def gs_def pick_def rest_def Let_def)
  have "add_mset (pick es) (mset (rest es)) = mset es" if "es \<in> set gs" for es
    unfolding pick_def rest_def using tick_groups_ne that
    by (intro remove_nth_mset highest_index_ok(1)) (auto simp: gs_def)
  then have "mset (map pick gs) + mset (concat (map rest gs)) = mset (concat gs)" by (induction gs) (auto simp: algebra_simps)
  then have part: "mset (map pick gs) + mset (concat (map rest gs)) = mset piano" by (simp add: gs_def tick_groups_mset)
  have grp: "pick es \<in> set es" "i < length es \<Longrightarrow> note_no (es ! i) \<le> note_no (pick es)" if "es \<in> set gs" for es i
    using highest_index_ok [of es] tick_groups_ne that by (auto simp: pick_def gs_def)
  have ticks: "tick_on (pick (filter (\<lambda>ev. tick_on ev = t) piano)) = t"
    if "t \<in> set (sorted_list_of_set (tick_on ` set piano))" for t
    using grp(1) [of "filter (\<lambda>ev. tick_on ev = t) piano"] that by (auto simp: gs_def tick_groups_def)
  then have "map tick_on (map pick gs) = sorted_list_of_set (tick_on ` set piano)"
    unfolding gs_def tick_groups_def map_map set_map by (intro map_idI) simp
  moreover have "note_no e' \<le> note_no e" if e: "e \<in> set (map pick gs)" and e': "e' \<in> set piano" "tick_on e' = tick_on e" for e e'
  proof -
    obtain es where es: "es \<in> set gs" "e = pick es" using e by auto
    then obtain t where t: "es = filter (\<lambda>ev. tick_on ev = t) piano" by (auto simp: gs_def tick_groups_def)
    have "tick_on e = t" using grp(1) [OF es(1)] es(2) t by auto
    then have "e' \<in> set es" using e' t by simp
    then show ?thesis using grp(2) [OF es(1)] es(2) by (metis in_set_conv_nth)
  qed
  ultimately show ?thesis using part by (auto simp: sep)
qed

text \<open>
  A piano piece is split without loss: melody and harmony together are exactly its events. The melody
  has one note for every moment at which a note starts, in order of time, and that note is the highest
  of those starting then.
\<close>

theorem separate_melody_harmony_correct:
  "let (melody, harmony) = separate_melody_harmony piano in
     mset melody + mset harmony = mset piano \<and>
     map tick_on melody = sorted_list_of_set (tick_on ` set piano) \<and>
     (\<forall>e \<in> set melody. \<forall>e' \<in> set piano. tick_on e' = tick_on e \<longrightarrow> note_no e' \<le> note_no e)"
  by (rule separate_parts)

theorem separate_melody_harmony_correct_witness:
  "let piano = [make_event 0 480 60 90 0, make_event 0 480 64 90 0, make_event 480 960 67 90 0];
       (melody, harmony) = separate_melody_harmony piano
   in mset melody + mset harmony = mset piano"
  using separate_melody_harmony_correct [of "[make_event 0 480 60 90 0, make_event 0 480 64 90 0, make_event 480 960 67 90 0]"]
  by (auto simp: Let_def split_beta)

subsection \<open>The tracks\<close>

lemma ensembles_ok: "ensemble_ok (build_ensemble d)"
  by (cases d) (simp_all, code_simp+)

lemma concat_nonempty: "list_all2 (\<lambda>x b. b \<noteq> []) xs bs \<Longrightarrow> xs \<noteq> [] \<Longrightarrow> concat bs \<noteq> []"
  by (cases xs) (auto simp: list_all2_Cons1)

lemma over_bars_nonempty:
  assumes "1 \<le> bars" "cs \<noteq> []" "\<And>c bs g. 0 \<le> fst c \<Longrightarrow> fst c < 12 \<Longrightarrow> fst (f c bs g) \<noteq> []"
  shows "over_bars f cs bars sd \<noteq> []"
proof -
  obtain bs where "over_bars f cs bars sd = concat bs" "list_all2 (\<lambda>_ b. b \<noteq> []) [0 ..< nat bars] bs"
    using over_bars_blocks [where R = "\<lambda>_ _ b. b \<noteq> []" and pattern = f, OF assms] by blast
  then show ?thesis using concat_nonempty assms(1) by fastforce
qed

lemma generate_pad_nonempty:
  assumes "1 \<le> bars" "cs \<noteq> []"
  shows "generate_pad cs bars Full_ensemble sd \<noteq> []"
  unfolding generate_pad_def
proof (rule over_bars_nonempty [OF assms])
  fix c :: "int \<times> string" and bs g assume c: "0 \<le> fst c" "fst c < 12"
  obtain parts where parts: "fst (pad_bar Full_ensemble c bs g) = concat parts"
    "list_all2 (pad_part c bs) (sections_of Full_ensemble) parts" using pad_bar_parts [OF c] by blast
  then obtain p ps where "parts = p # ps" "pad_part c bs (ensemble_ranges ! 0) p"
    by (auto simp: sections_of_def ensemble_ranges_def list_all2_Cons1)
  then have "length p = length (st_offsets_for (snd c))" by (metis length_map pad_part_def voices_chord_def)
  then have "p \<noteq> []" using st_offsets_ok(1) by auto
  then show "fst (pad_bar Full_ensemble c bs g) \<noteq> []" using parts(1) \<open>parts = p # ps\<close> by simp
qed

lemma generate_arpeggio_nonempty:
  assumes "1 \<le> bars" "cs \<noteq> []"
  shows "generate_chords cs bars Arpeggio sd \<noteq> []"
  unfolding generate_chords_def
proof (rule over_bars_nonempty [OF assms])
  fix c :: "int \<times> string" and bs g assume c: "0 \<le> fst c" "fst c < 12"
  have "mset (map pitch (fst (arpeggio_bar c bs 1920 g))) \<noteq> {#}"
    using arpeggio_bar_ok [OF c, of bs g] voicing_range(3) [OF c] by simp
  then show "fst ((case Arpeggio of Strumming \<Rightarrow> strum_bar c bs | Arpeggio \<Rightarrow> arpeggio_bar c bs gt_ticks_per_bar
      | Power_chord \<Rightarrow> power_bar c bs (of_nat kPpq) | Funk_chop \<Rightarrow> funk_bar c bs (of_nat kPpq) | _ \<Rightarrow> strum_bar c bs) g) \<noteq> []"
    by (auto simp: gt_ticks_per_bar_def kPpq_def)
qed

text \<open>The symbols found are never empty, so reading them back never throws.\<close>

lemma best_chord_root: "0 \<le> fst (best_chord P) \<and> fst (best_chord P) < 12"
proof -
  have "best_chord P = (0, ''maj'', - 999) \<or> (\<exists>(r, q, iv) \<in> set chord_candidates. best_chord P = (r, q, template_score P r iv))"
    using best_fold [of "(0, ''maj'', - 999)" "template_score P" chord_candidates] unfolding best_chord_def by blast
  then show ?thesis by (auto simp: candidates_iff)
qed

lemma detect_chord_nonempty: "detect_chord P \<noteq> []"
proof -
  have "length kPcNames = 12" by (simp add: kPcNames_def)
  then have "nat (fst (best_chord P)) < length kPcNames" using best_chord_root [of P] by linarith
  then have "kPcNames ! nat (fst (best_chord P)) \<in> set kPcNames" by (rule nth_mem)
  then have "kPcNames ! nat (fst (best_chord P)) \<noteq> []" by (auto simp: kPcNames_def)
  then show ?thesis by (simp add: detect_chord_def chord_symbol_def split_beta)
qed

lemma progression_ok: "build_chord_progression h bars \<noteq> []" "s \<in> set (build_chord_progression h bars) \<Longrightarrow> s \<noteq> []"
  by (auto simp: build_chord_progression_def Let_def detect_chord_nonempty split: if_splits)

lemma specs_of_symbols_ok:
  assumes "\<forall>s \<in> set ss. s \<noteq> []"
  shows "\<exists>css. specs_of_symbols i ss = Some css \<and> length css = length ss \<and> list_all (\<lambda>cs. 0 \<le> root_pc cs \<and> root_pc cs < 12) css"
  using assms
proof (induction ss arbitrary: i)
  case (Cons s ss)
  obtain cs where "spec_of_symbol i s = Some cs" "0 \<le> root_pc cs \<and> root_pc cs < 12"
    using Cons.prems mod_parse_root_pc_range by (auto simp: spec_of_symbol_def Let_def split_beta)
  moreover obtain css where "specs_of_symbols (Suc i) ss = Some css" "length css = length ss"
    "list_all (\<lambda>cs. 0 \<le> root_pc cs \<and> root_pc cs < 12) css" using Cons.IH Cons.prems by (metis list.set_intros(2))
  ultimately show ?case by simp
qed simp

lemma build_request_ok:
  assumes "ss \<noteq> []" "\<forall>s \<in> set ss. s \<noteq> []"
  shows "\<exists>req. build_chord_request ss sd = Some req \<and> bass_generate req bst \<noteq> [] \<and> drum_generate req dst \<noteq> []"
proof -
  obtain css where css: "specs_of_symbols 0 ss = Some css" "length css = length ss"
    "list_all (\<lambda>cs. 0 \<le> root_pc cs \<and> root_pc cs < 12) css" using specs_of_symbols_ok [OF assms(2)] by blast
  then obtain c rest where c: "css = c # rest" using assms(1) by (cases css) auto
  define req where "req = \<lparr>chords = css, req_seed = sd, req_ppq = of_nat kPpq\<rparr>"
  have "length (bass_bar sd 480 0 c) \<in> {3, 4}" using bass_bar_ok [of 480 c sd 0] css(3) c by simp
  then have "bass_bar sd 480 0 c \<noteq> []" by auto
  then have "bass_generate req bst \<noteq> []" by (simp add: bass_generate_def req_def c enumerate_simps kPpq_def)
  moreover have "make_drum (start_tick c) kKick 100 \<in> set (drum_bar dst 0 c)"
    by (rule groove_plays [OF _ groove_kick]) simp_all
  then have "drum_generate req dst \<noteq> []" by (auto simp: drum_generate_def req_def c enumerate_simps)
  moreover have "build_chord_request ss sd = Some req" using css(1) by (simp add: build_chord_request_def req_def)
  ultimately show ?thesis by blast
qed

subsection \<open>The whole workflow\<close>

abbreviation track_fold :: "track_map \<Rightarrow> (string \<times> midi_event list) list \<Rightarrow> track_map" where
  "track_fold \<equiv> foldl (\<lambda>m (nm, es). m(nm \<mapsto> es))"

lemma collected_other:
  "list_all2 (\<lambda>i (nm, es). nm = oi_name i \<and> R i es) insts tracks \<Longrightarrow> nm \<notin> oi_name ` set insts \<Longrightarrow>
   track_fold m tracks nm = m nm"
  by (induction insts tracks arbitrary: m rule: list_all2_induct) (auto simp: split_beta)

lemma collected_map:
  assumes "list_all2 (\<lambda>i (nm, es). nm = oi_name i \<and> R i es) insts tracks" "distinct (map oi_name insts)" "i \<in> set insts"
  shows "\<exists>es. track_fold m tracks (oi_name i) = Some es \<and> R i es"
  using assms
proof (induction insts tracks arbitrary: m rule: list_all2_induct)
  case (Cons x xs y ys)
  obtain es where y: "y = (oi_name x, es)" "R x es" using Cons.hyps(1) by (cases y) auto
  show ?case
  proof (cases "i = x")
    case True
    have "oi_name x \<notin> oi_name ` set xs" using Cons.prems by simp
    from collected_other [OF Cons.hyps(2) this]
    have "track_fold m (y # ys) (oi_name x) = Some es" unfolding foldl_Cons y prod.case by (simp only: fun_upd_same)
    then show ?thesis using y(2) True by blast
  next
    case False
    then have "i \<in> set xs" "distinct (map oi_name xs)" using Cons.prems by auto
    then show ?thesis unfolding foldl_Cons by (rule Cons.IH [rotated])
  qed
qed simp

text \<open>
  The names of the tracks of an arrangement, in the order of the result: the instruments of the
  ensemble, with the bass line always and with string pad and drums from medium density on.
\<close>

fun track_names :: "orchestrate_density \<Rightarrow> string list" where
  "track_names Sparse = [''Violin I'', ''Violin II'', ''Viola'', ''Cello'', ''Bass'']"
| "track_names Medium = [''Violin I'', ''Violin II'', ''Viola'', ''Cello'', ''Contrabass'', ''Strings Pad'', ''Guitar'',
     ''Bass'', ''Drums'']"
| "track_names Full = [''Violin I'', ''Violin II'', ''Flute'', ''Viola'', ''Cello'', ''Contrabass'', ''Strings Pad'', ''Guitar'',
     ''Bass'', ''Drums'', ''Horn'', ''Trumpet'', ''Oboe'', ''Clarinet'']"

lemma ensemble_names:
  "map oi_name (concat (map os_instruments (build_ensemble d))) =
     (case d of
        Sparse \<Rightarrow> [''Violin I'', ''Violin II'', ''Viola'', ''Cello'']
      | Medium \<Rightarrow> [''Violin I'', ''Violin II'', ''Viola'', ''Cello'', ''Contrabass'', ''Guitar'', ''Drums'']
      | Full \<Rightarrow> [''Violin I'', ''Violin II'', ''Viola'', ''Cello'', ''Contrabass'', ''Flute'', ''Oboe'', ''Clarinet'',
          ''Horn'', ''Trumpet'', ''Guitar'', ''Drums''])"
  by (cases d) (simp_all add: build_ensemble_def wf_quartet_def oinst_def)

lemma track_names_order:
  "track_names d = filter (\<lambda>nm. nm \<in> set (track_names d)) track_order"
  by (cases d) (simp_all add: track_order_def)

lemma track_names_set:
  "set (track_names d) = set (map oi_name (concat (map os_instruments (build_ensemble d)))) \<union>
     (if d = Sparse then {''Bass''} else {''Strings Pad'', ''Bass'', ''Drums''})"
  unfolding ensemble_names by (cases d) (simp_all add: insert_commute)

lemma tracks_named_eq:
  assumes "\<And>nm. m nm \<noteq> None \<longleftrightarrow> nm \<in> S" "\<And>nm es. m nm = Some es \<Longrightarrow> es \<noteq> []"
  shows "map fst (tracks_named m names) = filter (\<lambda>nm. nm \<in> S) names \<and>
    (\<forall>(nm, es) \<in> set (tracks_named m names). m nm = Some es)"
proof (induction names)
  case (Cons nm names)
  then show ?case using assms(1) [of nm] assms(2) [of nm]
    by (auto simp: tracks_named_def split: option.splits list.splits)
qed (simp add: tracks_named_def)

definition replaced :: "orchestrate_density \<Rightarrow> string set" where
  "replaced d = {''Bass''} \<union> (if d = Sparse then {} else {''Strings Pad'', ''Drums''}) \<union> (if d = Full then {''Guitar''} else {})"

lemma engine_tracks:
  assumes "cs \<noteq> []" "\<forall>s \<in> set cs. s \<noteq> []" "1 \<le> oreq_bars req" "\<And>nm es. m nm = Some es \<Longrightarrow> es \<noteq> []"
  shows "\<exists>m1 m'. add_bass std_workflow req cs (add_guitar std_workflow req cs (add_strings std_workflow req cs m)) = Some m1 \<and>
    add_drums std_workflow req cs m1 = Some m' \<and>
    (\<forall>nm. m' nm \<noteq> None \<longleftrightarrow> m nm \<noteq> None \<or> nm \<in> replaced (oreq_density req)) \<and>
    (\<forall>nm es. m' nm = Some es \<longrightarrow> es \<noteq> []) \<and> (\<forall>nm. nm \<notin> replaced (oreq_density req) \<longrightarrow> m' nm = m nm)"
proof -
  let ?d = "oreq_density req"
  define b where "b = \<lparr>bs_seed = seed_to_int (oreq_seed req + 3), use_octave_jump = True\<rparr>"
  define dr where "dr = \<lparr>ds_seed = seed_to_int (oreq_seed req + 4), use_ghosts = True, use_open_hh = (?d = Full)\<rparr>"
  obtain r3 where r3: "build_chord_request cs (oreq_seed req + 3) = Some r3" "bass_generate r3 b \<noteq> []"
    using build_request_ok [OF assms(1,2)] by blast
  obtain r4 where r4: "build_chord_request cs (oreq_seed req + 4) = Some r4" "drum_generate r4 dr \<noteq> []"
    using build_request_ok [OF assms(1,2)] by blast
  define pad where "pad = generate_pad cs (oreq_bars req) Full_ensemble (oreq_seed req + 1)"
  define gtr where "gtr = generate_chords cs (oreq_bars req) Arpeggio (oreq_seed req + 2)"
  have ne: "pad \<noteq> []" "gtr \<noteq> []"
    using generate_pad_nonempty generate_arpeggio_nonempty assms(1,3) by (simp_all add: pad_def gtr_def)
  define ms where "ms = (if ?d = Sparse then m else m(''Strings Pad'' \<mapsto> pad))"
  define mg where "mg = (if ?d = Full then ms(''Guitar'' \<mapsto> gtr) else ms)"
  define mb where "mb = mg(''Bass'' \<mapsto> bass_generate r3 b)"
  define md where "md = (if ?d = Sparse then mb else mb(''Drums'' \<mapsto> drum_generate r4 dr))"
  have s: "add_strings std_workflow req cs m = ms" "add_guitar std_workflow req cs ms = mg"
    "add_bass std_workflow req cs mg = Some mb" "add_drums std_workflow req cs mb = Some md"
    using ne r3 r4 assms(1)
    by (simp_all add: add_strings_def add_guitar_def add_bass_def add_drums_def std_workflow_def set_track_def
      ms_def mg_def mb_def md_def pad_def gtr_def b_def dr_def)
  have upd: "md nm \<noteq> None \<longleftrightarrow> m nm \<noteq> None \<or> nm \<in> replaced ?d" for nm
    by (auto simp: md_def mb_def mg_def ms_def replaced_def)
  have val: "es \<noteq> []" if "md nm = Some es" for nm es
    using that ne r3(2) r4(2) assms(4) by (auto simp: md_def mb_def mg_def ms_def split: if_splits)
  have same: "md nm = m nm" if "nm \<notin> replaced ?d" for nm
    using that by (auto simp: md_def mb_def mg_def ms_def replaced_def split: if_splits)
  show ?thesis using s upd val same by (intro exI [of _ mb] exI [of _ md]) auto
qed

lemma track_domain:
  "set (track_names d) = oi_name ` set (flatten_ensemble (build_ensemble d)) \<union> replaced d"
proof -
  have "oi_name ` set (flatten_ensemble (build_ensemble d)) = set (map oi_name (concat (map os_instruments (build_ensemble d))))"
    using mset_eq_setD [OF flatten_mset [of "build_ensemble d"]] by (simp only: set_map)
  then show ?thesis unfolding ensemble_names by (cases d) (simp_all add: replaced_def insert_commute)
qed

lemma order_tracks_eq:
  assumes "\<And>nm. m nm \<noteq> None \<longleftrightarrow> nm \<in> S" "\<And>nm es. m nm = Some es \<Longrightarrow> es \<noteq> []" "S \<subseteq> set track_order"
  shows "map fst (order_tracks iter m) = filter (\<lambda>nm. nm \<in> S) track_order"
    "(nm, es) \<in> set (order_tracks iter m) \<Longrightarrow> m nm = Some es"
proof -
  have tn: "map fst (tracks_named m names) = filter (\<lambda>nm. nm \<in> S) names"
    "\<forall>(nm, es) \<in> set (tracks_named m names). m nm = Some es" for names
    using tracks_named_eq [of m S names] assms(1,2) by blast+
  have "map fst (tracks_named m (filter (\<lambda>nm. nm \<notin> set track_order) (iter m))) =
      filter (\<lambda>nm. nm \<in> S) (filter (\<lambda>nm. nm \<notin> set track_order) (iter m))" by (rule tn(1))
  also have "\<dots> = []" using assms(3) by (auto simp: filter_empty_conv)
  finally show "map fst (order_tracks iter m) = filter (\<lambda>nm. nm \<in> S) track_order"
    unfolding order_tracks_def map_append by (simp only: tn(1) append_Nil2)
  show "m nm = Some es" if "(nm, es) \<in> set (order_tracks iter m)"
    using that tn(2) unfolding order_tracks_def set_append by blast
qed

lemma full_part_nonempty:
  assumes "full_part melody cs bars i es" "melody \<noteq> []" "1 \<le> bars"
  shows "es \<noteq> []"
  using assms piece_part_nonempty by (auto simp: full_part_def split: if_splits)

text \<open>
  C30. The arrangement of a piano piece. The workflow always returns: the result has exactly the tracks its
  density calls for, in the fixed order and independently of the hash map's iteration order, and none
  is empty. The track of every instrument that no engine of its own replaces is that instrument's part
  of the melody and chords found in the piano piece: Violin I plays the melody note for note, and the
  harmony instruments the chords bar by bar.
\<close>

theorem orchestrate_correct:
  assumes "piano_input req \<noteq> []" "1 \<le> oreq_bars req" "\<forall>e \<in> set (piano_input req). unat (velocity e) \<le> 127"
  shows "\<exists>tracks. orchestrate std_workflow iter req = Some tracks \<and> map fst tracks = track_names (oreq_density req) \<and>
    (\<forall>(nm, es) \<in> set tracks. es \<noteq> []) \<and>
    (\<forall>i \<in> set (flatten_ensemble (build_ensemble (oreq_density req))). oi_name i \<notin> replaced (oreq_density req) \<longrightarrow>
      (\<exists>es. (oi_name i, es) \<in> set tracks \<and>
        (let (melody, harmony) = separate_melody_harmony (piano_input req)
         in full_part melody (build_chord_progression harmony (oreq_bars req)) (oreq_bars req) i es)))"
proof -
  let ?d = "oreq_density req" and ?bars = "oreq_bars req"
  obtain melody harmony where sep: "separate_melody_harmony (piano_input req) = (melody, harmony)" by fastforce
  have part1: "mset melody + mset harmony = mset (piano_input req)"
    and ticks: "map tick_on melody = sorted_list_of_set (tick_on ` set (piano_input req))"
    using separate_parts [of "piano_input req"] sep by auto
  have "set (map tick_on melody) = tick_on ` set (piano_input req)" unfolding ticks by simp
  then have "melody \<noteq> []" using assms(1) by auto
  note part = part1 this
  have vel: "\<forall>e \<in> set melody. unat (velocity e) \<le> 127"
    using part(1) assms(3) by (metis UnCI set_mset_mset set_mset_union)
  define cs where "cs = build_chord_progression harmony ?bars"
  have cs: "cs \<noteq> []" "\<forall>s \<in> set cs. s \<noteq> []" using progression_ok by (auto simp: cs_def)
  define insts where "insts = flatten_ensemble (build_ensemble ?d)"
  define ot where "ot = orchestrate_full melody cs (build_ensemble ?d) ?bars (oreq_seed req)"
  have ot: "list_all2 (\<lambda>i (nm, es). nm = oi_name i \<and> full_part melody cs ?bars i es) insts ot"
    unfolding insts_def ot_def by (rule orchestrate_full_parts [OF ensembles_ok assms(2) cs(1) part(2) vel])
  have dist: "distinct (map oi_name insts)" unfolding insts_def by (rule flatten_ok(1) [OF ensembles_ok])
  define m0 where "m0 = track_fold Map.empty ot"
  have m0: "\<exists>es. m0 (oi_name i) = Some es \<and> full_part melody cs ?bars i es" if "i \<in> set insts" for i
    unfolding m0_def by (rule collected_map [OF ot dist that])
  have m0_dom: "m0 nm \<noteq> None \<longleftrightarrow> nm \<in> oi_name ` set insts" for nm
  proof (cases "nm \<in> oi_name ` set insts")
    case True
    then obtain i where "i \<in> set insts" "nm = oi_name i" by blast
    with m0 [OF this(1)] True show ?thesis by auto
  next
    case False
    then show ?thesis using collected_other [OF ot False, of Map.empty] by (simp add: m0_def)
  qed
  have m0_ne: "es \<noteq> []" if e: "m0 nm = Some es" for nm es
  proof -
    have "nm \<in> oi_name ` set insts" using m0_dom [of nm] e by simp
    then obtain i where "i \<in> set insts" "nm = oi_name i" by blast
    then show ?thesis using m0 e full_part_nonempty [OF _ part(2) assms(2)] by fastforce
  qed
  obtain m1 m where m: "add_bass std_workflow req cs (add_guitar std_workflow req cs (add_strings std_workflow req cs m0)) = Some m1"
    "add_drums std_workflow req cs m1 = Some m" "\<And>nm. m nm \<noteq> None \<longleftrightarrow> m0 nm \<noteq> None \<or> nm \<in> replaced ?d"
    "\<And>nm es. m nm = Some es \<Longrightarrow> es \<noteq> []" "\<And>nm. nm \<notin> replaced ?d \<Longrightarrow> m nm = m0 nm"
    using engine_tracks [OF cs assms(2), of m0] m0_ne by blast
  have dom: "m nm \<noteq> None \<longleftrightarrow> nm \<in> set (track_names ?d)" for nm
    unfolding m(3) m0_dom track_domain insts_def by blast
  define tracks where "tracks = order_tracks iter m"
  have sub: "set (track_names ?d) \<subseteq> set track_order" using track_names_order [of ?d] by (metis filter_is_subset)
  have "map fst tracks = filter (\<lambda>nm. nm \<in> set (track_names ?d)) track_order"
    unfolding tracks_def by (rule order_tracks_eq(1) [OF dom m(4) sub])
  then have names: "map fst tracks = track_names ?d" by (simp only: track_names_order [symmetric])
  have vals: "m nm = Some es" if "(nm, es) \<in> set tracks" for nm es
    by (rule order_tracks_eq(2) [OF dom m(4) sub that [unfolded tracks_def]])
  have "orchestrate std_workflow iter req = Some tracks"
    using assms(1,2) part(2) m(1,2)
    by (simp add: orchestrate_def sep Let_def cs_def [symmetric] ot_def [symmetric] m0_def tracks_def std_workflow_def)
  moreover have "\<exists>es. (oi_name i, es) \<in> set tracks \<and> full_part melody cs ?bars i es"
    if i: "i \<in> set insts" "oi_name i \<notin> replaced ?d" for i
  proof -
    obtain es where es: "m (oi_name i) = Some es" "full_part melody cs ?bars i es" using m0 [OF i(1)] m(5) [OF i(2)] by auto
    then have "oi_name i \<in> set (map fst tracks)" using dom [of "oi_name i"] names by simp
    then obtain es' where "(oi_name i, es') \<in> set tracks" by auto
    then show ?thesis using vals es by force
  qed
  moreover have "\<forall>(nm, es) \<in> set tracks. es \<noteq> []" using vals m(4) by blast
  ultimately show ?thesis using names by (intro exI [of _ tracks]) (simp add: sep insts_def cs_def)
qed

theorem orchestrate_correct_witness:
  "\<exists>tracks. orchestrate std_workflow (\<lambda>_. []) \<lparr>piano_input = [make_event 0 480 72 90 0, make_event 0 480 60 80 0],
      oreq_bars = 2, oreq_density = Medium, oreq_seed = 5\<rparr> = Some tracks \<and>
    map fst tracks = [''Violin I'', ''Violin II'', ''Viola'', ''Cello'', ''Contrabass'', ''Strings Pad'', ''Guitar'', ''Bass'', ''Drums'']"
  using orchestrate_correct [of "\<lparr>piano_input = [make_event 0 480 72 90 0, make_event 0 480 60 80 0],
      oreq_bars = 2, oreq_density = Medium, oreq_seed = 5\<rparr>" "\<lambda>_. []"] by auto

end
