(* ===== verification/Mte_Cli.thy ===== *)
theory Mte_Cli
  imports Smf_Reader Harmony_Engine Drum_Engine Bass_Engine Rhythm_Engine Piano_Engine
    Humanization_Engine Arrangement_Planner Prompt_Interpreter
begin

text \<open>
  The command line tool (\<open>mte_cli.cpp\<close>): it chains every engine and writes a MIDI file.
  \<open>main\<close> is a function from the arguments to an error or to the path and the bytes written; the
  operating system's part, whether the file can be opened and written, is the two predicates
  \<open>opens\<close> and \<open>writes\<close>. Warnings and the verbose report on stderr are left out: they change
  nothing else.
\<close>

subsection \<open>Arguments\<close>

record cli_args =
  arg_seed :: u64
  arg_key :: string
  arg_scale :: string
  arg_bpm :: int
  arg_bars :: int
  arg_output :: string
  arg_prompt :: string
  arg_verbose :: bool

definition default_args :: cli_args where
  "default_args = \<lparr>arg_seed = 0, arg_key = [], arg_scale = [], arg_bpm = 120, arg_bars = 4,
     arg_output = [], arg_prompt = [], arg_verbose = False\<rparr>"

text \<open>
  The C library's decimal conversions skip white space and accept a sign. \<open>strtoull\<close> also returns
  what it did not read (everything, when there is no number), saturates, and negates modulo
  2^64. The value \<open>atoi\<close> returns for a number outside \<open>int\<close> is undefined in C; the model has the
  number itself.
\<close>

definition c_space :: "char \<Rightarrow> bool" where
  "c_space c \<longleftrightarrow> (of_char c :: nat) = 32 \<or> 9 \<le> (of_char c :: nat) \<and> (of_char c :: nat) \<le> 13"

definition c_sign :: "string \<Rightarrow> bool \<times> string" where
  "c_sign s = (case s of [] \<Rightarrow> (False, [])
     | c # cs \<Rightarrow> if c = CHR ''-'' then (True, cs) else if c = CHR ''+'' then (False, cs) else (False, s))"

definition strtoull :: "string \<Rightarrow> u64 \<times> string" where
  "strtoull s =
     (let (neg, t) = c_sign (dropWhile c_space s);
          ds = takeWhile is_digit t
      in if ds = [] then (0, s)
         else (if digits_value ds \<ge> 2 ^ 64 then - 1
               else if neg then - word_of_int (digits_value ds) else word_of_int (digits_value ds),
               dropWhile is_digit t))"

definition atoi :: "string \<Rightarrow> int" where
  "atoi s = (let (neg, t) = c_sign (dropWhile c_space s); v = digits_value (takeWhile is_digit t)
             in if neg then - v else v)"

fun parse_loop :: "string list \<Rightarrow> cli_args \<Rightarrow> cli_args option" where
  "parse_loop [] a = Some a"
| "parse_loop (opt # rest) a =
     (if opt = ''--seed'' then
        (case rest of [] \<Rightarrow> None
         | v # vs \<Rightarrow> if snd (strtoull v) \<noteq> [] then None
                    else parse_loop vs (a\<lparr>arg_seed := fst (strtoull v)\<rparr>))
      else if opt = ''--key'' then
        (case rest of [] \<Rightarrow> None | v # vs \<Rightarrow> parse_loop vs (a\<lparr>arg_key := v\<rparr>))
      else if opt = ''--scale'' then
        (case rest of [] \<Rightarrow> None | v # vs \<Rightarrow> parse_loop vs (a\<lparr>arg_scale := v\<rparr>))
      else if opt = ''--bpm'' then
        (case rest of [] \<Rightarrow> None
         | v # vs \<Rightarrow> if atoi v \<le> 0 then None else parse_loop vs (a\<lparr>arg_bpm := atoi v\<rparr>))
      else if opt = ''--bars'' then
        (case rest of [] \<Rightarrow> None
         | v # vs \<Rightarrow> if atoi v \<le> 0 then None else parse_loop vs (a\<lparr>arg_bars := atoi v\<rparr>))
      else if opt = ''--output'' then
        (case rest of [] \<Rightarrow> None | v # vs \<Rightarrow> parse_loop vs (a\<lparr>arg_output := v\<rparr>))
      else if opt = ''--prompt'' then
        (case rest of [] \<Rightarrow> None | v # vs \<Rightarrow> parse_loop vs (a\<lparr>arg_prompt := v\<rparr>))
      else if opt = ''--verbose'' then parse_loop rest (a\<lparr>arg_verbose := True\<rparr>)
      else None)"

declare parse_loop.simps(2) [simp del]

definition parse_args :: "string list \<Rightarrow> cli_args option" where
  "parse_args argv =
     (case parse_loop argv default_args of
        None \<Rightarrow> None
      | Some a \<Rightarrow>
          if arg_output a = [] then None
          else if arg_prompt a = [] \<and> (arg_key a = [] \<or> arg_scale a = []) then None
          else Some a)"

subsection \<open>Keys and chords\<close>

definition cli_key_table :: "(string \<times> int) list" where
  "cli_key_table =
     [(''C'', 0), (''C#'', 1), (''Db'', 1), (''D'', 2), (''D#'', 3), (''Eb'', 3), (''E'', 4),
      (''F'', 5), (''F#'', 6), (''Gb'', 6), (''G'', 7), (''G#'', 8), (''Ab'', 8), (''A'', 9),
      (''A#'', 10), (''Bb'', 10), (''B'', 11)]"

definition key_to_root_pc :: "string \<Rightarrow> int" where
  "key_to_root_pc key = (case map_of cli_key_table key of Some pc \<Rightarrow> pc | None \<Rightarrow> - 1)"

record chord_detection =
  det_valid :: bool
  det_root :: int
  det_quality :: string

definition cli_templates :: "(string \<times> int list) list" where
  "cli_templates =
     [(''maj'', [4, 7]), (''min'', [3, 7]), (''7'', [4, 7, 10]), (''m7'', [3, 7, 10]), (''maj7'', [4, 7, 11])]"

text \<open>The two loops over the roots, in ascending order, and the templates.\<close>

definition detect_step ::
  "int list \<Rightarrow> int \<times> string \<times> int \<Rightarrow> int \<times> string \<times> int list \<Rightarrow> int \<times> string \<times> int" where
  "detect_step pcs best cand =
     (let (best_root, best_quality, best_score) = best;
          (root, name, tmpl) = cand;
          intervals = map (\<lambda>pc. (pc - root + 12) smod 12) (filter (\<lambda>pc. pc \<noteq> root) pcs);
          score = int (length tmpl)
      in if list_all (\<lambda>iv. iv \<in> set intervals) tmpl \<and> score > best_score then (root, name, score) else best)"

definition detect_pcs :: "int list \<Rightarrow> chord_detection" where
  "detect_pcs pcs =
     (let (best_root, best_quality, best_score) =
            foldl (detect_step pcs) (hd pcs, ''maj'', - 1) (List.product pcs cli_templates)
      in \<lparr>det_valid = best_score \<ge> 0, det_root = best_root, det_quality = best_quality\<rparr>)"

definition cli_detect_chord :: "midi_event list \<Rightarrow> chord_detection" where
  "cli_detect_chord events =
     (if events = [] then \<lparr>det_valid = False, det_root = 0, det_quality = ''maj''\<rparr>
      else detect_pcs (sorted_list_of_set (set (map (\<lambda>e. uint (note_no e) smod 12) events))))"

definition cli_chord_specs :: "midi_event list \<Rightarrow> chord_spec list" where
  "cli_chord_specs harmony_events =
     (let tick_ons = sorted_list_of_set (set (map tick_on harmony_events))
      in map (\<lambda>i.
           let d = cli_detect_chord (filter (\<lambda>ev. tick_on ev = tick_ons ! i) harmony_events);
               d = (if \<not> det_valid d then \<lparr>det_valid = True, det_root = 0, det_quality = ''maj''\<rparr> else d);
               duration = (if i + 1 < length tick_ons then tick_ons ! (i + 1) - tick_ons ! i
                           else of_nat kPpq * 4)
           in \<lparr>start_tick = tick_ons ! i, duration_ticks = duration, root_pc = det_root d,
               quality = det_quality d, cs_channel = 0\<rparr>) [0..<length tick_ons])"

subsection \<open>The parts\<close>

record cli_parts =
  piano_part :: "midi_event list"
  bass_part :: "midi_event list"
  drums_part :: "midi_event list"

definition drum_lt :: "midi_event \<Rightarrow> midi_event \<Rightarrow> bool" where
  "drum_lt a b \<longleftrightarrow> tick_on a < tick_on b"

definition cli_human_params :: "u64 \<Rightarrow> humanization_params" where
  "cli_human_params sd =
     \<lparr>hp_seed = sd, timing_jitter_ticks = 3, velocity_variation = 5, groove_swing = 0,
      snap_to_grid = False, grid_resolution = 120\<rparr>"

definition cli_compose ::
  "(midi_event list \<Rightarrow> midi_event list) \<Rightarrow> string \<Rightarrow> string \<Rightarrow> int \<Rightarrow> u64 \<Rightarrow> cli_parts" where
  "cli_compose dsort key sc bars sd =
     (let harmony_events = make_harmony_engine (Some intervals_of) (Some voicing)
            \<lparr>hr_root_key = key, hr_scale = sc, hr_bars = bars, hr_seed = sd\<rparr>;
          creq = \<lparr>chords = cli_chord_specs harmony_events, req_seed = sd, req_ppq = of_nat kPpq\<rparr>;
          bass_events = bass_generate creq \<lparr>bs_seed = seed_to_int sd, use_octave_jump = False\<rparr>;
          rhythm_events = rhythm_generate creq
            \<lparr>resolution = Eighth, swing = 0, rs_seed = sd\<rparr> \<lparr>start_bar = - 1, strength = 1\<rparr>;
          drum_events = drum_generate creq
            \<lparr>ds_seed = seed_to_int sd, use_ghosts = True, use_open_hh = False\<rparr>;
          piano_events = piano_generate
            \<lparr>chord_req = creq, pr_style = block_chords,
             pedal = \<lparr>sustain_on = True, half_pedal_ticks = 0\<rparr>, bass_octave = 3, treble_octave = 4\<rparr>
      in \<lparr>piano_part = humanize_apply piano_events (cli_human_params sd),
          bass_part = humanize_apply bass_events (cli_human_params sd),
          drums_part = dsort (rhythm_events @ drum_events)\<rparr>)"

subsection \<open>The tracks\<close>

definition legacy_tracks :: "cli_parts \<Rightarrow> midi_track list" where
  "legacy_tracks p =
     [\<lparr>track_name = ''Piano'', track_events = piano_part p\<rparr>,
      \<lparr>track_name = ''Bass'', track_events = bass_part p\<rparr>,
      \<lparr>track_name = ''Drums'', track_events = drums_part p\<rparr>]"

record assigned =
  piano_assigned :: bool
  bass_assigned :: bool
  drums_assigned :: bool

definition push_track :: "string \<Rightarrow> midi_event list \<Rightarrow> midi_track list" where
  "push_track name evs = (if evs \<noteq> [] then [\<lparr>track_name = name, track_events = evs\<rparr>] else [])"

definition assign_track ::
  "cli_parts \<Rightarrow> blueprint_instrument \<Rightarrow> assigned \<Rightarrow> midi_track list \<times> assigned" where
  "assign_track p inst a =
     (if \<not> piano_assigned a \<and> (inst_role inst = ''piano'' \<or> inst_role inst = ''chords'' \<or>
           inst_role inst = ''harmony'' \<or> inst_role inst = ''rhythm'')
      then (push_track (inst_name inst) (piano_part p), a\<lparr>piano_assigned := True\<rparr>)
      else if \<not> bass_assigned a \<and> inst_role inst = ''bass''
      then (push_track (inst_name inst) (bass_part p), a\<lparr>bass_assigned := True\<rparr>)
      else if \<not> drums_assigned a \<and> (inst_role inst = ''drums'' \<or> inst_role inst = ''percussion'')
      then (push_track (inst_name inst) (drums_part p), a\<lparr>drums_assigned := True\<rparr>)
      else ([], a))"

definition prompt_tracks :: "cli_parts \<Rightarrow> blueprint_instrument list \<Rightarrow> midi_track list" where
  "prompt_tracks p insts =
     (let (tracks, a) = for_each (assign_track p) insts
            \<lparr>piano_assigned = False, bass_assigned = False, drums_assigned = False\<rparr>
      in tracks @ (if \<not> piano_assigned a then push_track ''Piano'' (piano_part p) else []) @
         (if \<not> bass_assigned a then push_track ''Bass'' (bass_part p) else []) @
         (if \<not> drums_assigned a then push_track ''Drums'' (drums_part p) else []))"

subsection \<open>The program\<close>

datatype cli_error =
  Bad_usage | Unknown_key string | Unknown_scale string | Tempo_trap | Cannot_open string | Write_failed string

text \<open>The prompt pipeline: blueprint, seed and timeline before the overrides.\<close>

definition prompt_plan :: "string \<Rightarrow> u64 \<Rightarrow> music_blueprint \<times> timeline \<times> arrangement \<times> u64" where
  "prompt_plan prompt sd =
     (let bp0 = interpret_prompt prompt sd;
          sd1 = (if sd = 0 then bp_seed bp0 else sd);
          bp = blueprint_generate bp0;
          tline = timeline_plan bp
      in (bp, tline, arrangement_plan bp tline, sd1))"

record resolved =
  r_key :: string
  r_scale :: string
  r_bpm :: int
  r_bars :: int
  r_seed :: u64

definition resolve_params :: "cli_args \<Rightarrow> resolved" where
  "resolve_params a =
     (if arg_prompt a \<noteq> [] then
        let (bp, tline, _, sd) = prompt_plan (arg_prompt a) (arg_seed a)
        in \<lparr>r_key = (if arg_key a \<noteq> [] then arg_key a else root_key bp),
            r_scale = (if arg_scale a \<noteq> [] then arg_scale a else bp_scale bp),
            r_bpm = (if arg_bpm a \<noteq> 120 then arg_bpm a else bp_bpm bp),
            r_bars = (if arg_bars a \<noteq> 4 then arg_bars a else total_bars tline),
            r_seed = sd\<rparr>
      else \<lparr>r_key = arg_key a, r_scale = arg_scale a, r_bpm = arg_bpm a, r_bars = arg_bars a,
            r_seed = arg_seed a\<rparr>)"

definition cli_composition :: "(midi_event list \<Rightarrow> midi_event list) \<Rightarrow> cli_args \<Rightarrow> smf_composition" where
  "cli_composition dsort a =
     (let r = resolve_params a;
          p = cli_compose dsort (r_key r) (r_scale r) (r_bars r) (r_seed r)
      in \<lparr>smf_ppq = int kPpq, smf_bpm = r_bpm r, smf_key = r_key r, smf_scale = r_scale r,
          time_sig_num = 4, time_sig_den = 4,
          smf_tracks = (if arg_prompt a \<noteq> []
            then prompt_tracks p (all_instruments (fst (snd (snd (prompt_plan (arg_prompt a) (arg_seed a))))))
            else legacy_tracks p)\<rparr>)"

definition cli_main ::
  "(midi_event list \<Rightarrow> midi_event list) \<Rightarrow> (wire_event list \<Rightarrow> wire_event list) \<Rightarrow>
   (string \<Rightarrow> bool) \<Rightarrow> (string \<Rightarrow> u8 list \<Rightarrow> bool) \<Rightarrow> string list \<Rightarrow> cli_error + (string \<times> u8 list)" where
  "cli_main dsort wsort opens writes argv =
     (case parse_args argv of
        None \<Rightarrow> Inl Bad_usage
      | Some a \<Rightarrow>
          (let r = resolve_params a
           in if key_to_root_pc (r_key r) < 0 then Inl (Unknown_key (r_key r))
              else if \<not> knows (r_scale r) then Inl (Unknown_scale (r_scale r))
              else case render wsort (cli_composition dsort a) of
                     None \<Rightarrow> Inl Tempo_trap
                   | Some smf \<Rightarrow>
                       if \<not> opens (arg_output a) then Inl (Cannot_open (arg_output a))
                       else if \<not> writes (arg_output a) smf then Inl (Write_failed (arg_output a))
                       else Inr (arg_output a, smf)))"

subsection \<open>The chords are recovered from the notes\<close>

lemma detect_two_five_one:
  "detect_pcs [0, 2, 5, 9] = \<lparr>det_valid = True, det_root = 2, det_quality = ''m7''\<rparr>"
  "detect_pcs [2, 5, 7, 11] = \<lparr>det_valid = True, det_root = 7, det_quality = ''7''\<rparr>"
  "detect_pcs [0, 4, 7, 11] = \<lparr>det_valid = True, det_root = 0, det_quality = ''maj7''\<rparr>"
  by code_simp+

lemma sorted_list_of_setI: "S = set xs \<Longrightarrow> sorted xs \<Longrightarrow> distinct xs \<Longrightarrow> sorted_list_of_set S = xs"
  by (simp add: sorted_list_of_set.idem_if_sorted_distinct)

lemma detect_bar:
  assumes "bar_block b blk" and "set evs = set blk" and "0 \<le> b"
  shows "cli_detect_chord evs = \<lparr>det_valid = True, det_root = root_pc (harmony_spec b),
           det_quality = quality (harmony_spec b)\<rparr>"
proof -
  define pcs where "pcs = (if b mod 4 = 0 then [0, 2, 5, 9] else if b mod 4 = 1 then [2, 5, 7, 11]
    else [0, 4, 7, 11 :: int])"
  have "mset (map (\<lambda>e. int (unat (note_no e)) mod 12) blk) = mset pcs"
    using assms(1) unfolding bar_block_def pcs_def by simp
  then have "set (map (\<lambda>e. int (unat (note_no e)) mod 12) blk) = set pcs" by (rule mset_eq_setD)
  then have s: "set (map (\<lambda>e. uint (note_no e) smod 12) evs) = set pcs"
    using assms(2) by (simp add: smod_nonneg_eq)
  then have "sorted_list_of_set (set (map (\<lambda>e. uint (note_no e) smod 12) evs)) = pcs"
    by (rule sorted_list_of_setI) (simp_all add: pcs_def)
  moreover have "evs \<noteq> []" using s by (auto simp: pcs_def split: if_splits)
  moreover have "0 \<le> b mod 4" "b mod 4 < 4" by simp_all
  then have "b mod 4 = 0 \<or> b mod 4 = 1 \<or> b mod 4 = 2 \<or> b mod 4 = 3" by linarith
  ultimately show ?thesis
    using assms(3)
    by (auto simp: cli_detect_chord_def pcs_def detect_two_five_one harmony_spec_def kIIVIPattern_def
        smod_nonneg_eq Let_def)
qed

lemma chord_specs_of_blocks:
  assumes "list_all2 bar_block (map int [0..<m]) blocks" and "m * 1920 \<le> 2 ^ 32"
  shows "cli_chord_specs (concat blocks) = map (\<lambda>k. harmony_spec (int k)) [0..<m]"
proof -
  define T :: "nat \<Rightarrow> u32" where "T = (\<lambda>k. of_nat k * 1920)"
  have len: "length blocks = m" and blk: "\<And>k. k < m \<Longrightarrow> bar_block (int k) (blocks ! k)"
    using assms(1) by (auto simp: list_all2_conv_all_nth)
  have uT: "unat (T k) = k * 1920" if "k < m" for k
  proof -
    have "T k = of_nat (k * 1920)" by (simp add: T_def)
    moreover have "k * 1920 < 2 ^ 32" using that assms(2) by simp
    ultimately show ?thesis by (simp only: unat_of_nat) simp
  qed
  have ne: "blocks ! k \<noteq> []" if "k < m" for k
    using blk [OF that] by (auto simp: bar_block_def split: if_splits)
  have on: "tick_on e = T k" if "k < m" "e \<in> set (blocks ! k)" for k e
    using blk [OF that(1)] that(2) by (simp add: bar_block_def list_all_iff T_def)
  have all: "e \<in> set (concat blocks) \<longleftrightarrow> (\<exists>k < m. e \<in> set (blocks ! k))" for e
    unfolding set_concat len [symmetric] by simp (metis in_set_conv_nth nth_mem)
  have "set (map tick_on (concat blocks)) = T ` {..<m}"
  proof (intro equalityI subsetI)
    fix t assume "t \<in> T ` {..<m}"
    then obtain k where "k < m" "t = T k" by blast
    moreover then obtain e where "e \<in> set (blocks ! k)" using ne by (meson last_in_set)
    ultimately show "t \<in> set (map tick_on (concat blocks))" using all on by (force simp del: set_concat)
  qed (use all on in \<open>auto simp del: set_concat\<close>)
  moreover have "T i < T j" if "i < j" "j < m" for i j
    using that by (simp add: word_less_nat_alt uT)
  then have "sorted_wrt (<) (map T [0..<m])" by (simp add: sorted_wrt_iff_nth_less)
  then have "sorted (map T [0..<m])" "distinct (map T [0..<m])" by (simp_all add: strict_sorted_iff)
  ultimately have ticks: "sorted_list_of_set (set (map tick_on (concat blocks))) = map T [0..<m]"
    by (intro sorted_list_of_setI) auto
  have inj: "i = j" if "T i = T j" "i < m" "j < m" for i j
  proof -
    have "i * 1920 = j * 1920" using uT [OF that(2)] uT [OF that(3)] that(1) by (simp only:)
    then show ?thesis by simp
  qed
  have grp: "set (filter (\<lambda>ev. tick_on ev = T k) (concat blocks)) = set (blocks ! k)" if "k < m" for k
    unfolding set_filter set_eq_iff mem_Collect_eq all using that on inj by metis
  have det: "cli_detect_chord (filter (\<lambda>ev. tick_on ev = T k) (concat blocks)) =
      \<lparr>det_valid = True, det_root = root_pc (harmony_spec (int k)), det_quality = quality (harmony_spec (int k))\<rparr>"
    if "k < m" for k using detect_bar [OF blk grp] that by simp
  have "T (Suc k) - T k = 1920" "start_tick (harmony_spec (int k)) = T k" for k
    by (simp_all add: T_def harmony_spec_bar algebra_simps)
  then show ?thesis
    unfolding cli_chord_specs_def ticks Let_def
    by (auto simp: det harmony_spec_bar kPpq_def intro!: chord_spec.equality)
qed

lemma specs_recovered:
  assumes "hr_bars req * 1920 \<le> 2 ^ 32"
  shows "cli_chord_specs (make_harmony_engine sp (Some voicing) req) = map harmony_spec [0 .. hr_bars req - 1]"
proof (cases "1 \<le> hr_bars req")
  case False
  then show ?thesis by (simp add: make_harmony_engine_def harmony_generate_def cli_chord_specs_def)
next
  case True
  define m where "m = nat (hr_bars req)"
  have bars: "[0 .. hr_bars req - 1] = map int [0..<m]"
    using True by (intro nth_equalityI) (simp_all add: m_def nth_upto)
  obtain blocks where b: "make_harmony_engine sp (Some voicing) req = concat blocks"
    "list_all2 bar_block [0 .. hr_bars req - 1] blocks"
    using default_chords.harmony_bars [OF True] by (auto simp: make_harmony_engine_def)
  have "m * 1920 \<le> 2 ^ 32" using assms True by (simp add: m_def nat_le_iff)
  then show ?thesis
    using chord_specs_of_blocks [of m blocks] b unfolding bars by (simp add: comp_def)
qed

text \<open>
  C18. The tool reads its own harmony back: from the notes of the harmony engine, whatever the
  inversions and velocities drawn, it recovers for every bar exactly the chord symbol, start and
  duration the engine voiced.
\<close>

theorem harmony_read_back:
  assumes "hr_bars req * 1920 \<le> 2 ^ 32"
  shows "cli_chord_specs (make_harmony_engine sp (Some voicing) req) = map harmony_spec [0 .. hr_bars req - 1]"
  by (rule specs_recovered [OF assms])

theorem harmony_read_back_witness:
  "cli_chord_specs (make_harmony_engine None (Some voicing)
     \<lparr>hr_root_key = ''C'', hr_scale = ''major'', hr_bars = 8, hr_seed = 7\<rparr>) = map harmony_spec [0 .. 7]"
  using harmony_read_back [of "\<lparr>hr_root_key = ''C'', hr_scale = ''major'', hr_bars = 8, hr_seed = 7\<rparr>" None]
  by simp

subsection \<open>The parts\<close>

text \<open>
  What the parts of a piece of \<open>bars\<close> bars hold: six piano notes a bar, three or four bass
  notes in 24..42, the drums of both engines in order of time on channel 9, all data 7-bit.
\<close>

definition cli_parts_ok :: "nat \<Rightarrow> cli_parts \<Rightarrow> bool" where
  "cli_parts_ok bars p \<longleftrightarrow>
     length (piano_part p) = 6 * bars \<and>
     3 * bars \<le> length (bass_part p) \<and> length (bass_part p) \<le> 4 * bars \<and>
     16 * bars \<le> length (drums_part p) \<and> length (drums_part p) \<le> 27 * bars \<and>
     list_all (\<lambda>e. note_in 21 108 e \<and> vel_in 1 127 e \<and> channel e = 0) (piano_part p) \<and>
     list_all (\<lambda>e. note_in 24 42 e \<and> vel_in 1 127 e \<and> channel e = 0) (bass_part p) \<and>
     list_all (\<lambda>e. note_no e \<in> {36, 38, 42} \<and> vel_in 25 110 e \<and> channel e = 9) (drums_part p) \<and>
     sorted_wrt (\<lambda>a b. tick_on a \<le> tick_on b) (drums_part p)"

lemma humanize_event_keeps:
  "note_no (fst (humanize_event p sd ev g)) = note_no ev" "channel (fst (humanize_event p sd ev g)) = channel ev"
  by (simp_all add: humanize_event_def ensure_length_def apply_jitter_def apply_groove_def split_beta Let_def)

lemma humanize_apply_keeps:
  assumes "\<not> snap_to_grid p"
  shows "list_all2 (\<lambda>ev e. note_no e = note_no ev \<and> channel e = channel ev) events (humanize_apply events p)"
proof -
  have "list_all2 (\<lambda>ev e. note_no e = note_no ev \<and> channel e = channel ev) events
      (fst (for_each (\<lambda>ev g. let (e, g') = humanize_event p (swing_delay_of p) ev g in ([e], g')) events g))" for g
    by (rule for_each_list_all2) (simp add: split_beta humanize_event_keeps)
  then show ?thesis using assms by (simp add: humanize_apply_def Let_def)
qed

lemma length_concat_bounds:
  "(\<And>x. x \<in> set xs \<Longrightarrow> lo \<le> length (f x) \<and> length (f x) \<le> hi) \<Longrightarrow>
   lo * length xs \<le> length (concat (map f xs)) \<and> length (concat (map f xs)) \<le> hi * length xs"
  by (induction xs) fastforce+

lemma length_for_each_le:
  "(\<And>x s. x \<in> set xs \<Longrightarrow> length (fst (f x s)) \<le> n) \<Longrightarrow> length (fst (for_each f xs s)) \<le> n * length xs"
proof (induction xs arbitrary: s)
  case (Cons x xs)
  have "length (fst (f x s)) \<le> n" "length (fst (for_each f xs (snd (f x s)))) \<le> n * length xs"
    using Cons by simp_all
  then show ?case by (simp add: split_beta Let_def)
qed simp

lemma length_drum_bar: "length (drum_bar style i cs) \<le> 11"
proof -
  have "length (drum_groove style v) \<le> 11" for v by (simp add: drum_groove_def)
  moreover have "length (fst (run_drum_call style bs c g)) \<le> 1" for bs c g
    by (cases c) (simp_all add: split_beta Let_def)
  then have "length (fst (for_each (run_drum_call style bs) calls g)) \<le> 1 * length calls" for bs calls g
    by (intro length_for_each_le)
  ultimately have "length (fst (for_each (run_drum_call style bs) (drum_groove style v) g)) \<le> 11" for bs v g
    by (metis mult_1 order_trans)
  then show ?thesis by (simp add: drum_bar_def drum_fill_def split_beta Let_def)
qed

lemma humanized_part:
  assumes "list_all (\<lambda>e. note_in lo hi e \<and> channel e = c) events"
  shows "list_all (\<lambda>e. note_in lo hi e \<and> vel_in 1 127 e \<and> channel e = c)
           (humanize_apply events (cli_human_params sd))"
    and "length (humanize_apply events (cli_human_params sd)) = length events"
proof -
  have "\<not> snap_to_grid (cli_human_params sd)" by (simp add: cli_human_params_def)
  note k = humanize_apply_keeps [OF this, of events]
  show "length (humanize_apply events (cli_human_params sd)) = length events"
    using k by (simp add: list_all2_lengthD)
  show "list_all (\<lambda>e. note_in lo hi e \<and> vel_in 1 127 e \<and> channel e = c)
      (humanize_apply events (cli_human_params sd))"
    using k assms humanize_apply_velocity [of events "cli_human_params sd"]
    by (simp add: list_all2_conv_all_nth list_all_length note_in_def)
qed

lemma harmony_spec_ok:
  assumes "0 \<le> b"
  shows "0 \<le> root_pc (harmony_spec b)" "root_pc (harmony_spec b) < 12"
    "length (offsets_for (quality (harmony_spec b))) = 4"
proof -
  have "0 \<le> b mod 4" "b mod 4 < 4" by simp_all
  then have "b mod 4 = 0 \<or> b mod 4 = 1 \<or> b mod 4 = 2 \<or> b mod 4 = 3" by linarith
  then show "0 \<le> root_pc (harmony_spec b)" "root_pc (harmony_spec b) < 12"
    "length (offsets_for (quality (harmony_spec b))) = 4"
    using assms
    by (auto simp: harmony_spec_def kIIVIPattern_def smod_nonneg_eq Let_def offsets_for_def chord_tables)
qed

text \<open>The three parts over any list of chords like those of the harmony.\<close>

definition four_tone :: "chord_spec list \<Rightarrow> bool" where
  "four_tone css \<longleftrightarrow>
     (\<forall>c \<in> set css. 0 \<le> root_pc c \<and> root_pc c < 12 \<and> length (offsets_for (quality c)) = 4)"

lemma four_tone_harmony: "four_tone (map harmony_spec [0 .. n])"
  unfolding four_tone_def using harmony_spec_ok by auto

lemma snd_enumerate: "x \<in> set (enumerate k css) \<Longrightarrow> snd x \<in> set css"
  by (metis imageI list.set_map map_snd_enumerate)

lemma cli_piano:
  assumes "four_tone (chords (chord_req req))" "pr_style req = block_chords" "bass_octave req = 3" "treble_octave req = 4"
  shows "length (piano_generate req) = 6 * length (chords (chord_req req))"
    and "list_all (\<lambda>e. note_in 21 108 e \<and> channel e = 0) (piano_generate req)"
proof -
  have "length (piano_chord req i c) = 6" if "c \<in> set (chords (chord_req req))" for i c
    using piano_default_octaves_complete [of req c i] that assms by (simp add: four_tone_def)
  then show "length (piano_generate req) = 6 * length (chords (chord_req req))"
    using length_concat_bounds [of "enumerate 0 (chords (chord_req req))" 6 "\<lambda>(i, cs). piano_chord req i cs" 6]
      snd_enumerate [of _ 0 "chords (chord_req req)"]
    by (simp add: piano_generate_def split_beta)
  show "list_all (\<lambda>e. note_in 21 108 e \<and> channel e = 0) (piano_generate req)"
    unfolding piano_generate_def using piano_chord_ok
    by (intro list_all_concat_map) (auto simp: split_beta list_all_iff piano_ok_def)
qed

lemma cli_bass:
  assumes "four_tone (chords req)" "unat (req_ppq req) < 2 ^ 31"
  shows "3 * length (chords req) \<le> length (bass_generate req st)"
    and "length (bass_generate req st) \<le> 4 * length (chords req)"
    and "list_all (\<lambda>e. note_in 24 42 e \<and> channel e = 0) (bass_generate req st)"
proof -
  have bar: "length (bass_bar sd (req_ppq req) i c) \<in> {3, 4}"
    "list_all (\<lambda>e. note_in 24 42 e \<and> channel e = 0) (bass_bar sd (req_ppq req) i c)"
    if "c \<in> set (chords req)" for sd i c
    using bass_bar_ok [OF assms(2), of c sd i] assms(1) that
    by (auto simp: list_all_length bass_note_ok_def four_tone_def)
  have "3 \<le> length (bass_bar sd (req_ppq req) i c) \<and> length (bass_bar sd (req_ppq req) i c) \<le> 4"
    if "c \<in> set (chords req)" for sd i c using bar(1) [OF that, of sd i] by fastforce
  then have "3 * length (enumerate 0 (chords req)) \<le> length (bass_generate req st) \<and>
      length (bass_generate req st) \<le> 4 * length (enumerate 0 (chords req))"
    using snd_enumerate [of _ 0 "chords req"] unfolding bass_generate_def
    by (intro length_concat_bounds) (simp add: split_beta)
  then show "3 * length (chords req) \<le> length (bass_generate req st)"
    "length (bass_generate req st) \<le> 4 * length (chords req)" by simp_all
  show "list_all (\<lambda>e. note_in 24 42 e \<and> channel e = 0) (bass_generate req st)"
    unfolding bass_generate_def using bar(2) snd_enumerate [of _ 0 "chords req"]
    by (intro list_all_concat_map) (simp add: split_beta)
qed

lemma cli_drums:
  assumes "resolution rst = Eighth" "swing rst \<le> 1" "start_bar fill < 0" "strength fill = 1" "\<not> use_open_hh dst"
    and drums_def: "drums = rhythm_generate req rst fill @ drum_generate req dst"
  shows "16 * length (chords req) \<le> length drums" "length drums \<le> 27 * length (chords req)"
    and "list_all (\<lambda>e. note_no e \<in> {36, 38, 42} \<and> vel_in 25 110 e \<and> channel e = 9) drums"
proof -
  have "16 * length (chords req) \<le> length (rhythm_generate req rst fill) \<and>
      length (rhythm_generate req rst fill) \<le> 16 * length (chords req)"
    unfolding rhythm_generate_def using assms(1)
    by (intro length_concat_bounds) (simp add: plain_rhythm_bar [OF assms(2,3)] positions_def)
  moreover have "0 * length (enumerate 0 (chords req)) \<le> length (drum_generate req dst) \<and>
      length (drum_generate req dst) \<le> 11 * length (enumerate 0 (chords req))"
    unfolding drum_generate_def by (intro length_concat_bounds) (simp add: split_beta length_drum_bar)
  ultimately show "16 * length (chords req) \<le> length drums" "length drums \<le> 27 * length (chords req)"
    by (simp_all add: drums_def)
  have "list_all (\<lambda>e. note_no e \<in> {36, 38, 42} \<and> vel_in 25 110 e \<and> channel e = 9) (rhythm_generate req rst fill)"
    unfolding rhythm_generate_def using plain_rhythm_bar(2) [OF assms(2,3)]
    by (intro list_all_concat_map) (fastforce simp: list_all_iff hit_sound_def intro: vel_in_mono)
  moreover have "list_all (\<lambda>e. note_no e \<in> {36, 38, 42} \<and> vel_in 25 110 e \<and> channel e = 9) (drum_generate req dst)"
    unfolding drum_generate_def using drum_bar_ok [of dst] assms(5)
    by (intro list_all_concat_map) (fastforce simp: list_all_iff drum_ok_def split_beta intro: vel_in_mono)
  ultimately show "list_all (\<lambda>e. note_no e \<in> {36, 38, 42} \<and> vel_in 25 110 e \<and> channel e = 9) drums"
    by (simp add: drums_def)
qed

lemma compose_ok:
  assumes "std_sort drum_lt dsort" and "bars * 1920 \<le> 2 ^ 32"
  shows "cli_parts_ok (nat bars) (cli_compose dsort key sc bars sd)"
proof -
  define creq where "creq = \<lparr>chords = map harmony_spec [0 .. bars - 1], req_seed = sd, req_ppq = of_nat kPpq :: u32\<rparr>"
  have creq: "four_tone (chords creq)" "length (chords creq) = nat bars" "unat (req_ppq creq) < 2 ^ 31"
    by (simp_all add: creq_def four_tone_harmony kPpq_def)
  have specs: "cli_chord_specs (make_harmony_engine (Some intervals_of) (Some voicing)
      \<lparr>hr_root_key = key, hr_scale = sc, hr_bars = bars, hr_seed = sd\<rparr>) = chords creq"
    using specs_recovered [of "\<lparr>hr_root_key = key, hr_scale = sc, hr_bars = bars, hr_seed = sd\<rparr>"] assms(2)
    by (simp add: creq_def)
  define preq where "preq = \<lparr>chord_req = creq, pr_style = block_chords,
    pedal = \<lparr>sustain_on = True, half_pedal_ticks = 0\<rparr>, bass_octave = 3, treble_octave = 4\<rparr>"
  define rst where "rst = \<lparr>resolution = Eighth, swing = 0 :: rat, rs_seed = sd\<rparr>"
  define fill where "fill = \<lparr>start_bar = - 1 :: int, strength = 1 :: int\<rparr>"
  define dst where "dst = \<lparr>ds_seed = seed_to_int sd, use_ghosts = True, use_open_hh = False\<rparr>"
  define bst where "bst = \<lparr>bs_seed = seed_to_int sd, use_octave_jump = False\<rparr>"
  define drums where "drums = rhythm_generate creq rst fill @ drum_generate creq dst"
  have req: "\<lparr>chords = chords creq, req_seed = sd, req_ppq = of_nat kPpq\<rparr> = creq" by (simp add: creq_def)
  have eq: "cli_compose dsort key sc bars sd = \<lparr>piano_part = humanize_apply (piano_generate preq) (cli_human_params sd),
      bass_part = humanize_apply (bass_generate creq bst) (cli_human_params sd), drums_part = dsort drums\<rparr>"
    unfolding cli_compose_def specs req Let_def preq_def rst_def fill_def dst_def bst_def drums_def ..
  note piano = cli_piano [of preq] and bass = cli_bass [OF creq(1,3), of bst] and
    drum = cli_drums [of rst fill dst drums creq, OF _ _ _ _ _ drums_def]
  have "length (piano_generate preq) = 6 * nat bars" and
    pall: "list_all (\<lambda>e. note_in 21 108 e \<and> channel e = 0) (piano_generate preq)"
    using piano creq(1,2) by (simp_all add: preq_def)
  moreover have "16 * nat bars \<le> length drums" "length drums \<le> 27 * nat bars"
    "list_all (\<lambda>e. note_no e \<in> {36, 38, 42} \<and> vel_in 25 110 e \<and> channel e = 9) drums"
    using drum creq(2) by (simp_all add: rst_def fill_def dst_def)
  moreover have "sorted_wrt (\<lambda>a b. tick_on a \<le> tick_on b) (dsort drums)"
    using std_sort.sort_ordered [OF assms(1), of drums] by (simp add: drum_lt_def not_less)
  ultimately show ?thesis
    using bass creq(2) humanized_part [OF pall, of sd] humanized_part [OF bass(3), of sd]
    unfolding cli_parts_ok_def eq
    by (simp add: std_sort.sort_length [OF assms(1)] std_sort.sort_list_all [OF assms(1)])
qed

subsection \<open>Every part in one track\<close>

definition pending :: "cli_parts \<Rightarrow> assigned \<Rightarrow> midi_event list multiset" where
  "pending p a =
     mset (filter (\<lambda>evs. evs \<noteq> [])
       ((if piano_assigned a then [] else [piano_part p]) @ (if bass_assigned a then [] else [bass_part p]) @
        (if drums_assigned a then [] else [drums_part p])))"

lemma branch_pending:
  assumes "r = (if \<not> piano_assigned a \<and> P then (push_track n (piano_part p), a\<lparr>piano_assigned := True\<rparr>)
    else if \<not> bass_assigned a \<and> B then (push_track n (bass_part p), a\<lparr>bass_assigned := True\<rparr>)
    else if \<not> drums_assigned a \<and> D then (push_track n (drums_part p), a\<lparr>drums_assigned := True\<rparr>)
    else ([], a))"
  shows "mset (map track_events (fst r)) + pending p (snd r) = pending p a"
  unfolding assms by (cases P; cases B; cases D) (simp_all add: push_track_def pending_def)

lemma assign_track_pending:
  "mset (map track_events (fst (assign_track p inst a))) + pending p (snd (assign_track p inst a)) = pending p a"
  unfolding assign_track_def by (rule branch_pending [OF refl])

lemma assign_loop_pending:
  "mset (map track_events (fst (for_each (assign_track p) insts a))) + pending p (snd (for_each (assign_track p) insts a)) =
   pending p a"
proof (induction insts arbitrary: a)
  case (Cons inst insts)
  show ?case
    using Cons [of "snd (assign_track p inst a)"] assign_track_pending [of p inst a]
    by (simp add: split_beta Let_def ac_simps)
qed simp

lemma assign_track_names:
  "track \<in> set (fst (for_each (assign_track p) insts a)) \<Longrightarrow> track_name track \<in> inst_name ` set insts"
  by (drule for_each_mem) (auto simp: assign_track_def push_track_def split: if_splits)

text \<open>
  Whatever the instruments and their roles, no part is lost and none is written twice: the
  tracks hold exactly the parts that have notes, each under the name of an instrument of the
  arrangement or under its own.
\<close>

lemma prompt_tracks_partition:
  "mset (map track_events (prompt_tracks p insts)) =
     mset (filter (\<lambda>evs. evs \<noteq> []) [piano_part p, bass_part p, drums_part p]) \<and>
   set (map track_name (prompt_tracks p insts)) \<subseteq> inst_name ` set insts \<union> {''Piano'', ''Bass'', ''Drums''}"
proof
  define a0 where "a0 = \<lparr>piano_assigned = False, bass_assigned = False, drums_assigned = False\<rparr>"
  define a where "a = snd (for_each (assign_track p) insts a0)"
  define late where "late = (if \<not> piano_assigned a then push_track ''Piano'' (piano_part p) else []) @
    (if \<not> bass_assigned a then push_track ''Bass'' (bass_part p) else []) @
    (if \<not> drums_assigned a then push_track ''Drums'' (drums_part p) else [])"
  have eq: "prompt_tracks p insts = fst (for_each (assign_track p) insts a0) @ late"
    by (simp add: prompt_tracks_def split_beta a0_def a_def late_def)
  have "mset (map track_events late) = pending p a"
    by (simp add: late_def push_track_def pending_def)
  then show "mset (map track_events (prompt_tracks p insts)) =
      mset (filter (\<lambda>evs. evs \<noteq> []) [piano_part p, bass_part p, drums_part p])"
    using assign_loop_pending [of p insts a0] unfolding eq a_def by (simp add: pending_def a0_def)
  have "set (map track_name late) \<subseteq> {''Piano'', ''Bass'', ''Drums''}"
    by (auto simp: late_def push_track_def split: if_splits)
  then show "set (map track_name (prompt_tracks p insts)) \<subseteq> inst_name ` set insts \<union> {''Piano'', ''Bass'', ''Drums''}"
    using assign_track_names [of _ p insts a0] unfolding eq by fastforce
qed

subsection \<open>What a prompt resolves to\<close>

lemma make_planned_end: "1 \<le> sec_bars s \<Longrightarrow> ps_end_bar (make_planned s c) = c + sec_bars s"
  by (simp add: make_planned_def Let_def)

lemma plan_loop_bars:
  assumes "list_all (\<lambda>s. 1 \<le> sec_bars s \<and> sec_bars s \<le> 256) ss"
  shows "c + int (length ss) \<le> snd (snd (plan_loop i c ss)) \<and>
         snd (snd (plan_loop i c ss)) \<le> c + 257 * int (length ss)"
  using assms
proof (induction i c ss rule: plan_loop.induct)
  case (3 i c s s' rest)
  define ps tr where "ps = make_planned s c" and "tr = determine_transition i s s'"
  have "0 \<le> transition_bars tr" "transition_bars tr \<le> 1"
    using transition_cases(3) [of i s s'] by (auto simp: tr_def)
  moreover have "ps_end_bar ps = c + sec_bars s" "1 \<le> sec_bars s" "sec_bars s \<le> 256"
    using "3.prems" by (simp_all add: ps_def make_planned_end)
  ultimately show ?case
    using "3.IH" [OF ps_def tr_def] "3.prems"
    by (simp add: split_beta Let_def flip: ps_def tr_def)
qed (simp_all add: make_planned_end)

lemma generate_fields:
  "root_key (blueprint_generate bp) \<in> set kValidKeys"
  "bp_scale (blueprint_generate bp) \<in> {bp_scale bp, ''major''}"
  "40 \<le> bp_bpm (blueprint_generate bp) \<and> bp_bpm (blueprint_generate bp) \<le> 300"
  "list_all (\<lambda>s. 1 \<le> sec_bars s \<and> sec_bars s \<le> 256) (sections (blueprint_generate bp))"
  "length (sections (blueprint_generate bp)) \<le> max 4 (length (sections bp))"
  "set (map inst_name (instruments (blueprint_generate bp))) \<subseteq>
     set (map inst_name (instruments bp)) \<union> {''piano'', ''bass'', ''drums''}"
proof -
  have names: "map inst_name (assign_channels used insts) = map inst_name insts" for used insts
    by (induction used insts rule: assign_channels.induct)
      (simp_all add: assign_channel_def Let_def split: option.split)
  have "root_key (blueprint_generate bp) \<in> set kValidKeys \<and> bp_scale (blueprint_generate bp) \<in> {bp_scale bp, ''major''} \<and>
    40 \<le> bp_bpm (blueprint_generate bp) \<and> bp_bpm (blueprint_generate bp) \<le> 300 \<and>
    list_all (\<lambda>s. 1 \<le> sec_bars s \<and> sec_bars s \<le> 256) (sections (blueprint_generate bp)) \<and>
    length (sections (blueprint_generate bp)) \<le> max 4 (length (sections bp)) \<and>
    set (map inst_name (instruments (blueprint_generate bp))) \<subseteq>
      set (map inst_name (instruments bp)) \<union> {''piano'', ''bass'', ''drums''}"
  proof (cases "blueprint_valid (fill_defaults bp)")
    case True
    then have gen: "blueprint_generate bp = (fill_defaults bp)\<lparr>
        sections := map (normalize_section (bp_energy bp)) (sections (fill_defaults bp)),
        instruments := assign_channels [] (instruments (fill_defaults bp))\<rparr>"
      by (simp add: blueprint_generate_def Let_def)
    have "set (map inst_name (instruments (fill_defaults bp))) \<subseteq>
        set (map inst_name (instruments bp)) \<union> {''piano'', ''bass'', ''drums''}"
      by (auto simp: make_default_instruments_def)
    moreover have "list_all (\<lambda>s. 1 \<le> sec_bars s \<and> sec_bars s \<le> 256) (sections (fill_defaults bp))"
      using True default_sections_valid by (auto simp: valid_after_defaults)
    moreover have "length make_default_sections = 4" by (simp add: make_default_sections_def)
    ultimately show ?thesis
      using True unfolding gen valid_after_defaults by (simp add: names list.pred_map comp_def)
  qed (simp add: blueprint_generate_def Let_def default_blueprint_def kValidKeys_def)
  then show "root_key (blueprint_generate bp) \<in> set kValidKeys"
    "bp_scale (blueprint_generate bp) \<in> {bp_scale bp, ''major''}"
    "40 \<le> bp_bpm (blueprint_generate bp) \<and> bp_bpm (blueprint_generate bp) \<le> 300"
    "list_all (\<lambda>s. 1 \<le> sec_bars s \<and> sec_bars s \<le> 256) (sections (blueprint_generate bp))"
    "length (sections (blueprint_generate bp)) \<le> max 4 (length (sections bp))"
    "set (map inst_name (instruments (blueprint_generate bp))) \<subseteq>
       set (map inst_name (instruments bp)) \<union> {''piano'', ''bass'', ''drums''}"
    by blast+
qed

lemma valid_key_root: "key \<in> set kValidKeys \<Longrightarrow> 0 \<le> key_to_root_pc key"
  by (auto simp: kValidKeys_def key_to_root_pc_def cli_key_table_def)

lemma prompt_blueprint:
  "bp_scale (interpret_prompt prompt sd) \<in> {''major'', ''minor''}"
  "length (sections (interpret_prompt prompt sd)) \<le> 5"
  "\<forall>n \<in> set (map inst_name (instruments (interpret_prompt prompt sd))). length n < 128"
proof -
  define lower where "lower = to_lower prompt"
  have a: "length (add_section lower c n d e) \<le> 1" for c n d e by (simp add: add_section_def Let_def)
  have five: "length (add_section lower c1 ''intro'' 2 Low @ add_section lower c2 ''verse'' 4 Mid @
      add_section lower c3 ''chorus'' 4 High @ add_section lower c4 ''bridge'' 4 Mid @
      add_section lower c5 ''outro'' 2 Low) \<le> 5" for c1 c2 c3 c4 c5
    using a [of c1 "''intro''" 2 Low] a [of c2 "''verse''" 4 Mid] a [of c3 "''chorus''" 4 High]
      a [of c4 "''bridge''" 4 Mid] a [of c5 "''outro''" 2 Low]
    unfolding length_append by linarith
  have "length (build_sections lower e) \<le> 5" for e
    unfolding build_sections_def Let_def using five by (simp add: standard_form_def)
  then show "length (sections (interpret_prompt prompt sd)) \<le> 5"
    by (simp add: interpret_prompt_def Let_def split_beta default_blueprint_def lower_def)
  have "\<forall>c \<in> set (instrument_calls lower). length (inst_name (snd c)) < 128"
    "\<forall>i \<in> set default_trio. length (inst_name i) < 128"
    by (simp_all add: instrument_calls_def default_trio_def mk_instrument_def)
  then have "\<forall>i \<in> set (detect_instruments lower). length (inst_name i) < 128"
    unfolding detect_instruments_def Let_def by auto
  then show "\<forall>n \<in> set (map inst_name (instruments (interpret_prompt prompt sd))). length n < 128"
    by (simp add: interpret_prompt_def Let_def split_beta default_blueprint_def lower_def)
  show "bp_scale (interpret_prompt prompt sd) \<in> {''major'', ''minor''}"
    using detect_key_range [of lower]
    by (simp add: interpret_prompt_def Let_def split_beta default_blueprint_def lower_def)
qed

subsection \<open>The file written\<close>

lemma parts_fit:
  assumes "cli_parts_ok bars p" "bars \<le> 2 ^ 20" "length name < 128"
    and "evs \<in> {piano_part p, bass_part p, drums_part p}"
  shows "track_fits \<lparr>track_name = name, track_events = evs\<rparr>"
proof -
  have "length evs < 2 ^ 27" using assms(1,2,4) by (auto simp: cli_parts_ok_def)
  moreover have "list_all (\<lambda>e. unat (velocity e) < 128) evs"
    using assms(1,4) by (fastforce simp: cli_parts_ok_def vel_in_def list_all_iff)
  ultimately show ?thesis using assms(3) by (simp add: track_fits_def)
qed

lemma prompt_tracks_fit:
  assumes "cli_parts_ok bars p" "bars \<le> 2 ^ 20" "\<forall>n \<in> set (map inst_name insts). length n < 128"
  shows "list_all track_fits (prompt_tracks p insts)" "length (prompt_tracks p insts) \<le> 3"
proof -
  note part = prompt_tracks_partition [of p insts]
  have "size (mset (map track_events (prompt_tracks p insts))) \<le> length [piano_part p, bass_part p, drums_part p]"
    unfolding part [THEN conjunct1] size_mset by (rule length_filter_le)
  then show "length (prompt_tracks p insts) \<le> 3" by simp
  have "track_fits track" if "track \<in> set (prompt_tracks p insts)" for track
  proof -
    have "track_name track \<in> inst_name ` set insts \<union> {''Piano'', ''Bass'', ''Drums''}"
      using part that by auto
    then have "length (track_name track) < 128" using assms(3) by auto
    moreover have "track_events track \<in> set (map track_events (prompt_tracks p insts))" using that by simp
    then have "track_events track \<in> set (filter (\<lambda>evs. evs \<noteq> []) [piano_part p, bass_part p, drums_part p])"
      using mset_eq_setD [OF part [THEN conjunct1]] by blast
    then have "track_events track \<in> {piano_part p, bass_part p, drums_part p}"
      unfolding set_filter by auto
    ultimately have "track_fits \<lparr>track_name = track_name track, track_events = track_events track\<rparr>"
      by (rule parts_fit [OF assms(1,2)])
    then show ?thesis by (simp add: track_fits_def)
  qed
  then show "list_all track_fits (prompt_tracks p insts)" by (simp add: list_all_iff)
qed

lemma legacy_tracks_fit:
  "cli_parts_ok bars p \<Longrightarrow> bars \<le> 2 ^ 20 \<Longrightarrow> list_all track_fits (legacy_tracks p)"
  by (simp add: legacy_tracks_def parts_fit)

lemma main_writes:
  assumes "std_sort wire_lt wsort" and "parse_args argv = Some a"
    and "0 \<le> key_to_root_pc (r_key (resolve_params a))" "knows (r_scale (resolve_params a))"
    and "0 < r_bpm (resolve_params a)" "r_bpm (resolve_params a) < 2 ^ 32"
    and "list_all track_fits (smf_tracks (cli_composition dsort a))"
    and "length (smf_tracks (cli_composition dsort a)) \<le> 3"
    and "opens (arg_output a)" "\<And>bytes. writes (arg_output a) bytes"
  shows "\<exists>bytes. cli_main dsort wsort opens writes argv = Inr (arg_output a, bytes) \<and>
           read_smf bytes = Some (1, 480, tempo_msgs (cli_composition dsort a) #
             map (track_msgs wsort) (smf_tracks (cli_composition dsort a)))"
proof -
  have f: "smf_bpm (cli_composition dsort a) = r_bpm (resolve_params a)" "smf_ppq (cli_composition dsort a) = 480"
    by (simp_all add: cli_composition_def Let_def kPpq_def)
  obtain bytes where "render wsort (cli_composition dsort a) = Some bytes"
    "read_smf bytes = Some (1, 480, tempo_msgs (cli_composition dsort a) #
       map (track_msgs wsort) (smf_tracks (cli_composition dsort a)))"
    using render_reads_back [OF assms(1), of "cli_composition dsort a"] assms(5-8) unfolding f by auto
  then show ?thesis
    using assms(2-4,9,10) by (auto simp: cli_main_def)
qed

text \<open>
  Key and scale on the command line (no prompt): the tool writes a MIDI file, and reading it
  back gives the tempo track and the three tracks Piano, Bass and Drums, with six piano notes a
  bar, a bass line of three or four notes a bar between 24 and 42 and the drums on channel 9,
  every number in range.
\<close>

theorem cli_key_scale_song:
  assumes "std_sort drum_lt dsort" "std_sort wire_lt wsort" and "parse_args argv = Some a"
    and "arg_prompt a = []" "0 \<le> key_to_root_pc (arg_key a)" "knows (arg_scale a)"
    and "0 < arg_bpm a" "arg_bpm a < 2 ^ 31" "arg_bars a \<le> 2 ^ 20"
    and "opens (arg_output a)" "\<And>bytes. writes (arg_output a) bytes"
  shows "\<exists>bytes p. cli_main dsort wsort opens writes argv = Inr (arg_output a, bytes) \<and>
           cli_parts_ok (nat (arg_bars a)) p \<and>
           read_smf bytes = Some (1, 480, tempo_msgs (cli_composition dsort a) #
             map (track_msgs wsort)
               [\<lparr>track_name = ''Piano'', track_events = piano_part p\<rparr>,
                \<lparr>track_name = ''Bass'', track_events = bass_part p\<rparr>,
                \<lparr>track_name = ''Drums'', track_events = drums_part p\<rparr>])"
proof -
  define p where "p = cli_compose dsort (arg_key a) (arg_scale a) (arg_bars a) (arg_seed a)"
  have res: "resolve_params a = \<lparr>r_key = arg_key a, r_scale = arg_scale a, r_bpm = arg_bpm a,
      r_bars = arg_bars a, r_seed = arg_seed a\<rparr>"
    using assms(4) by (simp add: resolve_params_def)
  have tracks: "smf_tracks (cli_composition dsort a) = legacy_tracks p"
    using assms(4) by (simp add: cli_composition_def res p_def Let_def)
  have ok: "cli_parts_ok (nat (arg_bars a)) p"
    unfolding p_def using assms(9) by (intro compose_ok [OF assms(1)]) simp
  have "list_all track_fits (legacy_tracks p)"
    using assms(9) by (intro legacy_tracks_fit [OF ok]) simp
  then show ?thesis
    using main_writes [OF assms(2,3), of dsort opens writes] assms ok
    unfolding tracks res by (auto simp: legacy_tracks_def)
qed

lemma prompt_song:
  assumes "std_sort drum_lt dsort" and "arg_prompt a \<noteq> []" "arg_key a = []" "arg_scale a = []"
    and "arg_bpm a = 120" "arg_bars a = 4"
  defines "lower \<equiv> to_lower (arg_prompt a)" and "tracks \<equiv> smf_tracks (cli_composition dsort a)"
  shows "0 \<le> key_to_root_pc (r_key (resolve_params a))" "knows (r_scale (resolve_params a))"
    "40 \<le> r_bpm (resolve_params a)" "r_bpm (resolve_params a) \<le> 300"
    "list_all track_fits tracks" "length tracks \<le> 3"
    "if has_literal_notes lower \<or> 40 \<le> detect_bpm lower \<and> fst (detect_key_and_scale lower) \<noteq> ''E#''
     then \<exists>bars p. 1 \<le> bars \<and> cli_parts_ok bars p \<and>
       mset (map track_events tracks) = {#piano_part p, bass_part p, drums_part p#}
     else tracks = []"
proof -
  define bp0 where "bp0 = interpret_prompt (arg_prompt a) (arg_seed a)"
  define bp where "bp = blueprint_generate bp0"
  define bars where "bars = total_bars (timeline_plan bp)"
  define sd where "sd = (if arg_seed a = 0 then bp_seed bp0 else arg_seed a)"
  define p where "p = cli_compose dsort (root_key bp) (bp_scale bp) bars sd"
  have plan: "prompt_plan (arg_prompt a) (arg_seed a) =
      (bp, timeline_plan bp, arrangement_plan bp (timeline_plan bp), sd)"
    by (simp add: prompt_plan_def Let_def bp_def bp0_def sd_def)
  have res: "resolve_params a = \<lparr>r_key = root_key bp, r_scale = bp_scale bp, r_bpm = bp_bpm bp,
      r_bars = bars, r_seed = sd\<rparr>"
    using assms(2-6) by (simp add: resolve_params_def plan bars_def)
  have tr: "tracks = prompt_tracks p (instruments bp)"
    using assms(2) by (simp add: tracks_def cli_composition_def plan res Let_def p_def arrangement_plan_def)
  note gen = generate_fields [of bp0, folded bp_def] and pb = prompt_blueprint [of "arg_prompt a" "arg_seed a", folded bp0_def]
  have n: "length (sections bp) \<le> 5" using gen(5) pb(2) by simp
  have "int (length (sections bp)) \<le> bars" "bars \<le> 257 * int (length (sections bp))"
    using plan_loop_bars [OF gen(4), of 0 0] by (simp_all add: bars_def timeline_plan_def split_beta)
  then have bars: "int (length (sections bp)) \<le> bars" "bars \<le> 1285" using n by simp_all
  have ok: "cli_parts_ok (nat bars) p" unfolding p_def using bars(2) by (intro compose_ok [OF assms(1)]) simp
  show "0 \<le> key_to_root_pc (r_key (resolve_params a))" using gen(1) by (simp add: res valid_key_root)
  have "bp_scale bp \<in> {''major'', ''minor''}" using gen(2) pb(1) by (elim insertE emptyE) simp_all
  then show "knows (r_scale (resolve_params a))" by (auto simp: res knows_def kScales_def)
  show "40 \<le> r_bpm (resolve_params a)" "r_bpm (resolve_params a) \<le> 300" using gen(3) by (simp_all add: res)
  have "\<forall>n \<in> set (map inst_name (instruments bp)). length n < 128" using gen(6) pb(3) by fastforce
  then show "list_all track_fits tracks" "length tracks \<le> 3"
    unfolding tr using bars(2) by (intro prompt_tracks_fit [OF ok]; simp)+
  note part = prompt_tracks_partition [of p "instruments bp", THEN conjunct1, folded tr]
  show "if has_literal_notes lower \<or> 40 \<le> detect_bpm lower \<and> fst (detect_key_and_scale lower) \<noteq> ''E#''
     then \<exists>bars p. 1 \<le> bars \<and> cli_parts_ok bars p \<and>
       mset (map track_events tracks) = {#piano_part p, bass_part p, drums_part p#}
     else tracks = []"
  proof (cases "has_literal_notes lower \<or> 40 \<le> detect_bpm lower \<and> fst (detect_key_and_scale lower) \<noteq> ''E#''")
    case True
    then have "blueprint_ok bp"
      using accepted_prompt_generates [of "arg_prompt a" "arg_seed a"] literal_prompt_generates [of "arg_prompt a" "arg_seed a"]
      unfolding bp_def bp0_def lower_def
      by (cases "has_literal_notes (to_lower (arg_prompt a))") (simp_all split: if_splits)
    then have "sections bp \<noteq> []" by (simp add: blueprint_ok_def)
    then have "1 \<le> nat bars" using bars(1) by (cases "sections bp") simp_all
    moreover from this have "piano_part p \<noteq> []" "bass_part p \<noteq> []" "drums_part p \<noteq> []"
      using ok unfolding cli_parts_ok_def by (fastforce dest: length_greater_0_conv [THEN iffD1])+
    ultimately show ?thesis
      using True ok part by (intro if_P [THEN iffD2] exI [of _ "nat bars"] exI [of _ p]) simp_all
  next
    case False
    then have "bp = default_blueprint"
      using accepted_prompt_generates [of "arg_prompt a" "arg_seed a"]
      unfolding bp_def bp0_def lower_def by auto
    then have "bars = 0" by (simp add: bars_def timeline_plan_def default_blueprint_def)
    then have "piano_part p = [] \<and> bass_part p = [] \<and> drums_part p = []" using ok by (simp add: cli_parts_ok_def)
    then show ?thesis using False part by simp
  qed
qed

text \<open>
  C2. A prompt alone, whatever it says: the tool always writes a MIDI file that reads back. If the
  prompt asks for literal notes, or its tempo is at least 40 and its key is not E sharp, the
  file has the tempo track and three tracks with the piano, the bass and the drums of at least
  one bar. Otherwise the generator has dropped the blueprint, and the file has the tempo track
  only: a slow prompt gets an empty song and no error.
\<close>

theorem cli_prompt_song:
  assumes "std_sort drum_lt dsort" "std_sort wire_lt wsort" and "parse_args argv = Some a"
    and "arg_prompt a \<noteq> []" "arg_key a = []" "arg_scale a = []" "arg_bpm a = 120" "arg_bars a = 4"
    and "opens (arg_output a)" "\<And>bytes. writes (arg_output a) bytes"
  shows "\<exists>bytes tracks. cli_main dsort wsort opens writes argv = Inr (arg_output a, bytes) \<and>
           read_smf bytes = Some (1, 480, tempo_msgs (cli_composition dsort a) # map (track_msgs wsort) tracks) \<and>
           (if has_literal_notes (to_lower (arg_prompt a)) \<or>
               40 \<le> detect_bpm (to_lower (arg_prompt a)) \<and>
               fst (detect_key_and_scale (to_lower (arg_prompt a))) \<noteq> ''E#''
            then \<exists>bars p. 1 \<le> bars \<and> cli_parts_ok bars p \<and>
                   mset (map track_events tracks) = {#piano_part p, bass_part p, drums_part p#}
            else tracks = [])"
proof -
  note song = prompt_song [OF assms(1,4-8)]
  have "0 < r_bpm (resolve_params a)" "r_bpm (resolve_params a) < 2 ^ 32" using song(3,4) by simp_all
  then obtain bytes where "cli_main dsort wsort opens writes argv = Inr (arg_output a, bytes)"
    "read_smf bytes = Some (1, 480, tempo_msgs (cli_composition dsort a) #
       map (track_msgs wsort) (smf_tracks (cli_composition dsort a)))"
    using main_writes [OF assms(2,3) song(1,2), of dsort opens writes] song(5,6) assms(9,10) by blast
  then show ?thesis using song(7) by blast
qed

definition demo_argv :: "string list" where
  "demo_argv = [''--prompt'', demo_prompt, ''--output'', ''song.mid'']"

lemma demo_argv_parses:
  "parse_args demo_argv = Some (default_args\<lparr>arg_prompt := demo_prompt, arg_output := ''song.mid''\<rparr>)"
  by (simp add: parse_args_def demo_argv_def parse_loop.simps(2) default_args_def demo_prompt_def)

interpretation drum_order: strict_weak_order drum_lt
  by unfold_locales (auto simp: drum_lt_def)

theorem cli_prompt_song_witness:
  "\<exists>bytes (tracks :: midi_track list) bars p. cli_main (isort drum_lt) (isort wire_lt) (\<lambda>_. True) (\<lambda>_ _. True) demo_argv =
       Inr (''song.mid'', bytes) \<and> 1 \<le> bars \<and> cli_parts_ok bars p \<and>
     mset (map track_events tracks) = {#piano_part p, bass_part p, drums_part p#} \<and>
     length (the (map_option (snd \<circ> snd) (read_smf bytes))) = Suc (length tracks)"
proof -
  define a where "a = default_args\<lparr>arg_prompt := demo_prompt, arg_output := ''song.mid''\<rparr>"
  have a: "arg_prompt a = demo_prompt" "arg_output a = ''song.mid''" "arg_key a = []" "arg_scale a = []"
    "arg_bpm a = 120" "arg_bars a = 4" by (simp_all add: a_def default_args_def)
  have ne: "arg_prompt a \<noteq> []" by (simp add: a demo_prompt_def)
  have "40 \<le> detect_bpm (to_lower demo_prompt) \<and> fst (detect_key_and_scale (to_lower demo_prompt)) \<noteq> ''E#''"
    by code_simp
  then have c: "has_literal_notes (to_lower demo_prompt) \<or>
      40 \<le> detect_bpm (to_lower demo_prompt) \<and> fst (detect_key_and_scale (to_lower demo_prompt)) \<noteq> ''E#''" ..
  obtain bytes tracks bars p where
    "cli_main (isort drum_lt) (isort wire_lt) (\<lambda>_. True) (\<lambda>_ _. True) demo_argv = Inr (''song.mid'', bytes)"
    "read_smf bytes = Some (1, 480, tempo_msgs (cli_composition (isort drum_lt) a) # map (track_msgs (isort wire_lt)) tracks)"
    "1 \<le> bars" "cli_parts_ok bars p" "mset (map track_events tracks) = {#piano_part p, bass_part p, drums_part p#}"
    using cli_prompt_song [of "isort drum_lt" "isort wire_lt" demo_argv a "\<lambda>_. True" "\<lambda>_ _. True",
        OF drum_order.stable.std_sort_axioms wire.stable.std_sort_axioms demo_argv_parses [folded a_def]
          ne a(3-6) TrueI TrueI]
    unfolding a(1,2) if_P [OF c] by blast
  moreover from this(2) have "length (the (map_option (snd \<circ> snd) (read_smf bytes))) = Suc (length tracks)"
    by simp
  ultimately show ?thesis by blast
qed

text \<open>\<open>mte_cli --key G --scale minor --bars 8 --output song.mid\<close>\<close>

definition legacy_argv :: "string list" where
  "legacy_argv = [''--key'', ''G'', ''--scale'', ''minor'', ''--bars'', ''8'', ''--output'', ''song.mid'']"

lemma legacy_argv_parses:
  "parse_args legacy_argv = Some (default_args\<lparr>arg_key := ''G'', arg_scale := ''minor'', arg_bars := 8,
     arg_output := ''song.mid''\<rparr>)"
proof -
  have "atoi ''8'' = 8" by code_simp
  then show ?thesis by (simp add: parse_args_def legacy_argv_def parse_loop.simps(2) default_args_def)
qed

theorem cli_key_scale_song_witness:
  "\<exists>bytes p. cli_main (isort drum_lt) (isort wire_lt) (\<lambda>_. True) (\<lambda>_ _. True) legacy_argv = Inr (''song.mid'', bytes) \<and>
     cli_parts_ok 8 p \<and> length (the (map_option (snd \<circ> snd) (read_smf bytes))) = 4"
proof -
  define a where "a = default_args\<lparr>arg_key := ''G'', arg_scale := ''minor'', arg_bars := 8, arg_output := ''song.mid''\<rparr>"
  have a: "arg_prompt a = []" "0 \<le> key_to_root_pc (arg_key a)" "knows (arg_scale a)" "0 < arg_bpm a"
    "arg_bpm a < 2 ^ 31" "arg_bars a \<le> 2 ^ 20" "nat (arg_bars a) = 8" "arg_output a = ''song.mid''"
    by (simp_all add: a_def default_args_def key_to_root_pc_def cli_key_table_def knows_def kScales_def)
  obtain bytes p where b: "cli_main (isort drum_lt) (isort wire_lt) (\<lambda>_. True) (\<lambda>_ _. True) legacy_argv =
      Inr (''song.mid'', bytes)" "cli_parts_ok 8 p"
    "read_smf bytes = Some (1, 480, tempo_msgs (cli_composition (isort drum_lt) a) #
       map (track_msgs (isort wire_lt))
         [\<lparr>track_name = ''Piano'', track_events = piano_part p\<rparr>,
          \<lparr>track_name = ''Bass'', track_events = bass_part p\<rparr>,
          \<lparr>track_name = ''Drums'', track_events = drums_part p\<rparr>])"
    using cli_key_scale_song [of "isort drum_lt" "isort wire_lt" legacy_argv a "\<lambda>_. True" "\<lambda>_ _. True",
        OF drum_order.stable.std_sort_axioms wire.stable.std_sort_axioms legacy_argv_parses [folded a_def]
          a(1-6) TrueI TrueI]
    unfolding a(7,8) by blast
  moreover from this(3) have "length (the (map_option (snd \<circ> snd) (read_smf bytes))) = 4" by simp
  ultimately show ?thesis by blast
qed

subsection \<open>The arguments that are accepted\<close>

definition print_args :: "cli_args \<Rightarrow> string list" where
  "print_args a =
     [''--seed'', nat_digits (unat (arg_seed a)), ''--key'', arg_key a, ''--scale'', arg_scale a,
      ''--bpm'', nat_digits (nat (arg_bpm a)), ''--bars'', nat_digits (nat (arg_bars a)),
      ''--output'', arg_output a, ''--prompt'', arg_prompt a] @ (if arg_verbose a then [''--verbose''] else [])"

definition args_valid :: "cli_args \<Rightarrow> bool" where
  "args_valid a \<longleftrightarrow> 0 < arg_bpm a \<and> 0 < arg_bars a \<and> arg_output a \<noteq> [] \<and>
     (arg_prompt a \<noteq> [] \<or> arg_key a \<noteq> [] \<and> arg_scale a \<noteq> [])"

lemma digits_value_snoc: "digits_value (ds @ [c]) = digits_value ds * 10 + (of_char c - 48)"
  by (simp add: digits_value_def)

lemma nat_digits_ok:
  "list_all is_digit (nat_digits n)" "digits_value (nat_digits n) = int n" "nat_digits n \<noteq> []"
proof (induction n rule: nat_digits.induct)
  case (1 n)
  have d: "is_digit (char_of (48 + k))" "(of_char (char_of (48 + k) :: char) :: int) - 48 = int k" if "k < 10" for k :: nat
  proof -
    have "of_char (char_of (48 + k) :: char) = 48 + k" using that by simp
    then have "(of_char (char_of (48 + k) :: char) :: int) = int (48 + k)" by (metis of_nat_of_char)
    then show "is_digit (char_of (48 + k))" "(of_char (char_of (48 + k) :: char) :: int) - 48 = int k"
      using that by (simp_all add: is_digit_def)
  qed
  {
    case 1
    show ?case using "1.IH"(1) d by (cases "n < 10") (simp_all add: nat_digits.simps [of n])
  next
    case 2
    have "int (n div 10) * 10 + int (n mod 10) = int n" by presburger
    then show ?case
      using "1.IH"(2) d(2) [of n] d(2) [of "n mod 10"]
      by (cases "n < 10") (simp_all add: nat_digits.simps [of n] digits_value_snoc digits_value_def [of "[_]"])
  next
    case 3
    show ?case by (simp add: nat_digits.simps [of n])
  }
qed

lemma digit_not_space: "is_digit c \<Longrightarrow> \<not> c_space c \<and> c \<noteq> CHR ''-'' \<and> c \<noteq> CHR ''+''"
  by (auto simp: is_digit_def c_space_def)

lemma read_nat_digits:
  "c_sign (dropWhile c_space (nat_digits n)) = (False, nat_digits n)"
  "takeWhile is_digit (nat_digits n) = nat_digits n" "dropWhile is_digit (nat_digits n) = []"
proof -
  obtain c cs where c: "nat_digits n = c # cs" "is_digit c"
    using nat_digits_ok(1,3) [of n] by (cases "nat_digits n") auto
  then show "c_sign (dropWhile c_space (nat_digits n)) = (False, nat_digits n)"
    using digit_not_space [of c] by (simp add: c_sign_def)
  show "takeWhile is_digit (nat_digits n) = nat_digits n" "dropWhile is_digit (nat_digits n) = []"
    using nat_digits_ok(1) [of n] by (simp_all add: takeWhile_eq_all_conv dropWhile_eq_Nil_conv list_all_iff)
qed

lemma atoi_nat_digits: "atoi (nat_digits n) = int n"
  by (simp add: atoi_def read_nat_digits nat_digits_ok)

lemma strtoull_nat_digits: "strtoull (nat_digits (unat s)) = (s, [])"
proof -
  have "int (unat s) < 2 ^ 64" using unsigned_less [of s, where ?'a = int] by simp
  then show ?thesis by (simp add: strtoull_def read_nat_digits nat_digits_ok)
qed

text \<open>One option consumes arguments and keeps the numbers positive.\<close>

lemma parse_loop_step:
  assumes "parse_loop (opt # rest) a = Some b"
  obtains rest' a' where "parse_loop rest' a' = Some b" "length rest' \<le> length rest"
    "0 < arg_bpm a \<and> 0 < arg_bars a \<longrightarrow> 0 < arg_bpm a' \<and> 0 < arg_bars a'"
proof (cases rest)
  case Nil
  then have "parse_loop [] (a\<lparr>arg_verbose := True\<rparr>) = Some b"
    using assms by (simp only: parse_loop.simps(2) list.case option.simps split: if_splits)
  then show ?thesis using that by fastforce
next
  case (Cons v vs)
  have "parse_loop vs (a\<lparr>arg_seed := fst (strtoull v)\<rparr>) = Some b \<or> parse_loop vs (a\<lparr>arg_key := v\<rparr>) = Some b \<or>
    parse_loop vs (a\<lparr>arg_scale := v\<rparr>) = Some b \<or> 0 < atoi v \<and> parse_loop vs (a\<lparr>arg_bpm := atoi v\<rparr>) = Some b \<or>
    0 < atoi v \<and> parse_loop vs (a\<lparr>arg_bars := atoi v\<rparr>) = Some b \<or> parse_loop vs (a\<lparr>arg_output := v\<rparr>) = Some b \<or>
    parse_loop vs (a\<lparr>arg_prompt := v\<rparr>) = Some b \<or> parse_loop rest (a\<lparr>arg_verbose := True\<rparr>) = Some b"
    using assms unfolding parse_loop.simps(2) [of opt rest] unfolding Cons list.case
    by (simp only: not_le option.distinct split: if_splits) simp_all
  then show ?thesis
    using that [of vs] that [of rest "a\<lparr>arg_verbose := True\<rparr>"] Cons by fastforce
qed

lemma parse_loop_positive:
  "parse_loop argv a = Some b \<Longrightarrow> 0 < arg_bpm a \<Longrightarrow> 0 < arg_bars a \<Longrightarrow> 0 < arg_bpm b \<and> 0 < arg_bars b"
proof (induction "length argv" arbitrary: argv a rule: less_induct)
  case less
  show ?case
  proof (cases argv)
    case (Cons opt rest)
    obtain rest' a' where "parse_loop rest' a' = Some b" "length rest' \<le> length rest"
      "0 < arg_bpm a \<and> 0 < arg_bars a \<longrightarrow> 0 < arg_bpm a' \<and> 0 < arg_bars a'"
      using parse_loop_step less.prems(1) unfolding Cons by blast
    then show ?thesis using less.hyps [of rest' a'] less.prems(2,3) Cons by simp
  qed (use less.prems in simp)
qed

lemma accepted_args_iff:
  "(parse_args (print_args a) = Some a \<longleftrightarrow> args_valid a) \<and>
   ((\<exists>argv. parse_args argv = Some a) \<longleftrightarrow> args_valid a)"
proof -
  have "parse_loop (print_args a) default_args =
      (if 0 < arg_bpm a \<and> 0 < arg_bars a then Some a else None)"
    by (simp add: print_args_def parse_loop.simps(2) strtoull_nat_digits atoi_nat_digits default_args_def)
  then have "parse_args (print_args a) = Some a" if "args_valid a"
    using that by (auto simp: parse_args_def args_valid_def)
  moreover have "args_valid a" if "parse_args argv = Some a" for argv
    using that parse_loop_positive [of argv default_args a]
    by (auto simp: parse_args_def args_valid_def default_args_def split: option.splits if_splits)
  ultimately show ?thesis by blast
qed

text \<open>
  The settings the tool accepts are exactly those with a positive tempo, a positive number of
  bars, an output path and a prompt or both key and scale; and each of them is reached by
  spelling it out, the numbers in decimal.
\<close>

theorem accepted_args:
  "(parse_args (print_args a) = Some a \<longleftrightarrow> args_valid a) \<and>
   ((\<exists>argv. parse_args argv = Some a) \<longleftrightarrow> args_valid a)"
  by (rule accepted_args_iff)

lemma resolved_known:
  assumes "parse_args argv = Some a"
  shows "key_to_root_pc (r_key (resolve_params a)) < 0 \<longleftrightarrow> arg_key a \<noteq> [] \<and> key_to_root_pc (arg_key a) < 0"
    and "\<not> knows (r_scale (resolve_params a)) \<longleftrightarrow> arg_scale a \<noteq> [] \<and> \<not> knows (arg_scale a)"
    and "arg_bpm a < 2 ^ 32 \<Longrightarrow> 0 < r_bpm (resolve_params a) \<and> r_bpm (resolve_params a) < 2 ^ 32"
proof -
  define bp0 where "bp0 = interpret_prompt (arg_prompt a) (arg_seed a)"
  have v: "args_valid a" using assms accepted_args_iff by blast
  note gen = generate_fields [of bp0] and pb = prompt_blueprint [of "arg_prompt a" "arg_seed a", folded bp0_def]
  have "bp_scale (blueprint_generate bp0) \<in> {''major'', ''minor''}"
    using gen(2) pb(1) by (elim insertE emptyE) simp_all
  then have "knows (bp_scale (blueprint_generate bp0))" by (auto simp: knows_def kScales_def)
  then show "key_to_root_pc (r_key (resolve_params a)) < 0 \<longleftrightarrow> arg_key a \<noteq> [] \<and> key_to_root_pc (arg_key a) < 0"
    "\<not> knows (r_scale (resolve_params a)) \<longleftrightarrow> arg_scale a \<noteq> [] \<and> \<not> knows (arg_scale a)"
    "arg_bpm a < 2 ^ 32 \<Longrightarrow> 0 < r_bpm (resolve_params a) \<and> r_bpm (resolve_params a) < 2 ^ 32"
    using v valid_key_root [OF gen(1)] gen(3)
    by (simp_all add: resolve_params_def prompt_plan_def Let_def args_valid_def flip: bp0_def)
qed

text \<open>
  C31. When a call with acceptable arguments fails: only for a key or a scale that was named on the
  command line and is unknown, or because the operating system does not open or write the
  file. What a prompt resolves to is never refused, and the tempo division never traps.
\<close>

theorem cli_fails_iff:
  assumes "parse_args argv = Some a" "arg_bpm a < 2 ^ 31"
  shows "(\<exists>e. cli_main dsort wsort opens writes argv = Inl e) \<longleftrightarrow>
     arg_key a \<noteq> [] \<and> key_to_root_pc (arg_key a) < 0 \<or> arg_scale a \<noteq> [] \<and> \<not> knows (arg_scale a) \<or>
     \<not> opens (arg_output a) \<or>
     \<not> writes (arg_output a) (the (render wsort (cli_composition dsort a)))"
proof -
  have "smf_bpm (cli_composition dsort a) = r_bpm (resolve_params a)"
    by (simp add: cli_composition_def Let_def)
  then obtain bytes where "render wsort (cli_composition dsort a) = Some bytes"
    using resolved_known(3) [OF assms(1)] assms(2) word_of_int_pos [of "r_bpm (resolve_params a)"]
    by (auto simp: render_Some)
  then show ?thesis
    using resolved_known(1,2) [OF assms(1)] assms(1) by (auto simp: cli_main_def Let_def)
qed

theorem cli_fails_iff_witness:
  "\<exists>e. cli_main (isort drum_lt) (isort wire_lt) (\<lambda>_. True) (\<lambda>_ _. True)
     [''--key'', ''H'', ''--scale'', ''minor'', ''--output'', ''song.mid''] = Inl e"
proof -
  define a where "a = default_args\<lparr>arg_key := ''H'', arg_scale := ''minor'', arg_output := ''song.mid''\<rparr>"
  have "parse_args [''--key'', ''H'', ''--scale'', ''minor'', ''--output'', ''song.mid''] = Some a"
    by (simp add: parse_args_def parse_loop.simps(2) default_args_def a_def)
  moreover have "arg_bpm a < 2 ^ 31" "arg_key a \<noteq> [] \<and> key_to_root_pc (arg_key a) < 0"
    by (simp_all add: a_def default_args_def key_to_root_pc_def cli_key_table_def)
  ultimately show ?thesis using cli_fails_iff by blast
qed

end
