(* ===== verification/Service_Locator.thy ===== *)
theory Service_Locator
  imports Prelude
begin

text \<open>
  The dependency container (\<open>ServiceLocator.hpp\<close>) and the registration of the music theory module
  (\<open>music_theory_module.cpp\<close>). A locator is an object with an address, because the factories the
  module registers capture a pointer to it: the store maps the addresses of the live locators
  to their bindings. An object built by a factory is the tree of what was injected into it. A
  factory bound by other code is any \<open>script\<close>: it may return an object or a null pointer, throw,
  never return, and before that ask and resolve services of any locator it captured.
\<close>

datatype service =
  IScaleProvider | IChordEngine | IBassEngine | IHarmonyEngine | IDrumEngine | IPianoEngine |
  IHumanizationEngine | IMidiRenderer | IPromptInterpreter | IStyleDetection | IBlueprintGenerator |
  ITimelinePlanner | IArrangementPlanner | IInstrumentMapper | IModulationEngine |
  ICounterpointEngine | IReharmonizeEngine | IRhythmEngine | IGuitarEngine | IStringsEngine |
  IOrchestrationEngine | IOrchestrateWorkflow

text \<open>The arguments of a \<open>make_*\<close> function are shared pointers; \<open>None\<close> is a null pointer.\<close>

datatype 'f object = Foreign 'f | Built service "'f object option list"

datatype locator_error = Unregistered service | Dangling | Thrown

text \<open>What a call of \<open>resolve\<close> gives back: an exception (\<open>Inl\<close>), or a shared pointer, perhaps null.\<close>

type_synonym 'f answer = "locator_error + 'f object option"

text \<open>
  The body of a factory: it gives a pointer back, throws, never returns, or calls \<open>resolve\<close> or \<open>has\<close> on
  a locator and goes on with the answer, which may be an exception it catches.
\<close>

datatype 'f script =
    Give "'f object option"
  | Throw locator_error
  | Hang
  | Resolve nat service "'f answer \<Rightarrow> 'f script"
  | Has nat service "bool \<Rightarrow> 'f script"

datatype 'f factory = Foreign_factory "'f script" | Module_factory service nat

type_synonym 'f bindings = "service \<rightharpoonup> 'f factory"
type_synonym 'f store = "nat \<rightharpoonup> 'f bindings"

subsection \<open>The container\<close>

definition loc_bind :: "nat \<Rightarrow> 'f store \<Rightarrow> service \<Rightarrow> 'f factory \<Rightarrow> 'f store" where
  "loc_bind l st i f = (case st l of Some m \<Rightarrow> st(l \<mapsto> m(i \<mapsto> f)) | None \<Rightarrow> st)"

definition loc_has :: "nat \<Rightarrow> 'f store \<Rightarrow> service \<Rightarrow> bool" where
  "loc_has l st i \<longleftrightarrow> (case st l of Some m \<Rightarrow> m i \<noteq> None | None \<Rightarrow> False)"

definition loc_clear :: "nat \<Rightarrow> 'f store \<Rightarrow> 'f store" where
  "loc_clear l st = (case st l of Some m \<Rightarrow> st(l \<mapsto> Map.empty) | None \<Rightarrow> st)"

text \<open>The defaulted copy constructor copies the map, and with it the captured pointers.\<close>

definition loc_copy :: "nat \<Rightarrow> nat \<Rightarrow> 'f store \<Rightarrow> 'f store" where
  "loc_copy l new st = st(new := st l)"

definition loc_destroy :: "nat \<Rightarrow> 'f store \<Rightarrow> 'f store" where
  "loc_destroy l st = st(l := None)"

text \<open>
  The factories of the module resolve their dependencies in the locator they captured, the
  optional ones after asking \<open>has\<close>; an exception of a dependency goes through them.
\<close>

definition resolve_then :: "nat \<Rightarrow> service \<Rightarrow> ('f object option \<Rightarrow> 'f script) \<Rightarrow> 'f script" where
  "resolve_then p i k = Resolve p i (\<lambda>a. case a of Inl e \<Rightarrow> Throw e | Inr x \<Rightarrow> k x)"

definition resolve_if_bound :: "nat \<Rightarrow> service \<Rightarrow> ('f object option \<Rightarrow> 'f script) \<Rightarrow> 'f script" where
  "resolve_if_bound p i k = Has p i (\<lambda>b. if b then resolve_then p i k else k None)"

definition module_script :: "service \<Rightarrow> nat \<Rightarrow> 'f script" where
  "module_script j p =
     (if j = IHarmonyEngine then
        resolve_then p IScaleProvider (\<lambda>scales.
        resolve_if_bound p IChordEngine (\<lambda>chords. Give (Some (Built j [scales, chords]))))
      else if j = IModulationEngine \<or> j = ICounterpointEngine then
        resolve_then p IScaleProvider (\<lambda>scales. Give (Some (Built j [scales])))
      else if j = IReharmonizeEngine then
        resolve_then p IScaleProvider (\<lambda>scales.
        resolve_if_bound p IChordEngine (\<lambda>chords.
        resolve_if_bound p IHarmonyEngine (\<lambda>harmony.
          Give (Some (Built j [scales, chords, harmony])))))
      else Give (Some (Built j [])))"

text \<open>
  \<open>resolve\<close> finds the factory and runs it. \<open>Inl\<close> is the exception, or the use of a locator that is
  gone; \<open>None\<close> is a resolution that never returns.
\<close>

definition found_script :: "'f store \<Rightarrow> nat \<Rightarrow> service \<Rightarrow> 'f script" where
  "found_script st l i =
     (case st l of None \<Rightarrow> Throw Dangling
      | Some m \<Rightarrow> (case m i of None \<Rightarrow> Throw (Unregistered i)
      | Some fac \<Rightarrow> (case fac of Foreign_factory s \<Rightarrow> s | Module_factory j p \<Rightarrow> module_script j p)))"

partial_function (option) run_script :: "'f store \<Rightarrow> 'f script \<Rightarrow> 'f answer option" where
  "run_script st s =
     (case s of Give x \<Rightarrow> Some (Inr x)
      | Throw e \<Rightarrow> Some (Inl e)
      | Hang \<Rightarrow> None
      | Resolve l i k \<Rightarrow> Option.bind (run_script st (found_script st l i)) (\<lambda>a. run_script st (k a))
      | Has l i k \<Rightarrow> if st l = None then Some (Inl Dangling) else run_script st (k (loc_has l st i)))"

definition resolve :: "'f store \<Rightarrow> nat \<Rightarrow> service \<Rightarrow> 'f answer option" where
  "resolve st l i = run_script st (found_script st l i)"

lemma run_script_simps [simp]:
  "run_script st (Give x) = Some (Inr x)"
  "run_script st (Throw e) = Some (Inl e)"
  "run_script st Hang = None"
  "run_script st (Resolve l i k) = Option.bind (resolve st l i) (\<lambda>a. run_script st (k a))"
  "run_script st (Has l i h) =
     (if st l = None then Some (Inl Dangling) else run_script st (h (loc_has l st i)))"
  by (simp_all add: run_script.simps resolve_def)

subsection \<open>The module\<close>

text \<open>The interfaces in the order the module registers them.\<close>

definition module_services :: "service list" where
  "module_services =
     [IScaleProvider, IChordEngine, IBassEngine, IHarmonyEngine, IDrumEngine, IPianoEngine,
      IHumanizationEngine, IMidiRenderer, IPromptInterpreter, IStyleDetection, IBlueprintGenerator,
      ITimelinePlanner, IArrangementPlanner, IInstrumentMapper, IModulationEngine,
      ICounterpointEngine, IReharmonizeEngine]"

text \<open>\<open>if (!loc.has<I>()) loc.bind<I>(...)\<close> for every interface.\<close>

definition register_new ::
  "('s \<Rightarrow> 'k \<Rightarrow> bool) \<Rightarrow> ('s \<Rightarrow> 'k \<Rightarrow> 'v \<Rightarrow> 's) \<Rightarrow> ('k \<Rightarrow> 'v) \<Rightarrow> 'k list \<Rightarrow> 's \<Rightarrow> 's" where
  "register_new hs bnd mk ks s = foldl (\<lambda>s k. if \<not> hs s k then bnd s k (mk k) else s) s ks"

definition register_music_theory :: "nat \<Rightarrow> 'f store \<Rightarrow> 'f store" where
  "register_music_theory l = register_new (loc_has l) (loc_bind l) (\<lambda>i. Module_factory i l) module_services"

text \<open>
  \<open>make_production\<close> registers a local object and returns it. Where the compiler elides the copy the
  local object is the result; where it moves (\<open>tmp \<noteq> l\<close>), the map moves to the result, the captured
  pointers still name the local object, and that is destroyed.
\<close>

definition make_empty :: "nat \<Rightarrow> 'f store \<Rightarrow> 'f store" where
  "make_empty l st = st(l \<mapsto> Map.empty)"

definition make_production :: "nat \<Rightarrow> nat \<Rightarrow> 'f store \<Rightarrow> 'f store" where
  "make_production tmp l st =
     (let st1 = register_music_theory tmp (make_empty tmp st)
      in if tmp = l then st1 else loc_destroy tmp (loc_copy tmp l st1))"

subsection \<open>Registering new keys only\<close>

text \<open>
  What the module relies on in a container: a binding is seen under its own key and leaves the
  others alone.
\<close>

locale registry =
  fixes hs :: "'s \<Rightarrow> 'k \<Rightarrow> bool" and bnd :: "'s \<Rightarrow> 'k \<Rightarrow> 'v \<Rightarrow> 's" and look :: "'s \<Rightarrow> 'k \<Rightarrow> 'v option"
    and live :: "'s \<Rightarrow> bool"
  assumes has_look: "live s \<Longrightarrow> hs s k \<longleftrightarrow> look s k \<noteq> None"
    and look_bind: "live s \<Longrightarrow> look (bnd s k v) = (look s)(k \<mapsto> v)"
    and live_bind: "live s \<Longrightarrow> live (bnd s k v)"
begin

lemma register_new_live: "live s \<Longrightarrow> live (register_new hs bnd mk ks s)"
  unfolding register_new_def by (induction ks arbitrary: s) (auto intro: live_bind)

lemma register_new_look:
  "live s \<Longrightarrow> look (register_new hs bnd mk ks s) k =
     (case look s k of Some v \<Rightarrow> Some v | None \<Rightarrow> if k \<in> set ks then Some (mk k) else None)"
  unfolding register_new_def
proof (induction ks arbitrary: s)
  case (Cons x ks)
  have "live (if \<not> hs s x then bnd s x (mk x) else s)" using Cons.prems by (simp add: live_bind)
  from Cons.IH [OF this] show ?case
    using Cons.prems by (auto simp: has_look look_bind split: option.split)
qed (simp split: option.split)

lemma register_new_again:
  assumes "live s"
  shows "register_new hs bnd mk ks (register_new hs bnd mk ks s) = register_new hs bnd mk ks s"
proof -
  define t where "t = register_new hs bnd mk ks s"
  have "hs t k" if "k \<in> set ks" for k
    using assms that register_new_live [OF assms] by (simp add: t_def has_look register_new_look split: option.split)
  then have "foldl (\<lambda>s k. if \<not> hs s k then bnd s k (mk k) else s) t ks' = t" if "set ks' \<subseteq> set ks" for ks'
    using that by (induction ks') auto
  then show ?thesis unfolding register_new_def [of _ _ _ _ t] t_def [symmetric] by blast
qed

end

interpretation locator: registry "loc_has l" "loc_bind l" "\<lambda>st k. Option.bind (st l) (\<lambda>m. m k)"
  "\<lambda>st :: 'f store. st l \<noteq> None" for l
  by unfold_locales (auto simp: loc_has_def loc_bind_def split: option.splits intro!: ext)

subsection \<open>Resolution\<close>

text \<open>
  The bindings a locator gets from registrations and from other code: a factory of the module
  stands under its own interface and captured this locator.
\<close>

definition own_bindings :: "nat \<Rightarrow> 'f bindings \<Rightarrow> bool" where
  "own_bindings l m \<longleftrightarrow> (\<forall>i j p. m i = Some (Module_factory j p) \<longrightarrow> j = i \<and> p = l)"

lemma register_bindings:
  assumes "st l = Some m"
  shows "register_music_theory l st l =
     Some (\<lambda>i. case m i of Some f \<Rightarrow> Some f
               | None \<Rightarrow> if i \<in> set module_services then Some (Module_factory i l) else None)"
proof -
  have live: "st l \<noteq> None" using assms by simp
  obtain m' where m': "register_music_theory l st l = Some m'"
    using locator.register_new_live [of st l, OF live] unfolding register_music_theory_def by blast
  then have "m' i = (case m i of Some f \<Rightarrow> Some f
      | None \<Rightarrow> if i \<in> set module_services then Some (Module_factory i l) else None)" for i
    using locator.register_new_look [of st l, OF live, of "\<lambda>i. Module_factory i l" module_services i] assms
    unfolding register_music_theory_def by simp
  then show ?thesis using m' by (auto intro!: ext)
qed

lemma register_own:
  "st l = Some m \<Longrightarrow> own_bindings l m \<Longrightarrow> \<exists>m'. register_music_theory l st l = Some m' \<and>
     own_bindings l m' \<and> dom m' = dom m \<union> set module_services"
  by (auto simp: register_bindings own_bindings_def split: option.splits if_splits)

lemma resolve_unbound: "st l = Some m \<Longrightarrow> m i = None \<Longrightarrow> resolve st l i = Some (Inl (Unregistered i))"
  by (simp add: resolve_def found_script_def)

lemma resolve_dangling: "st l = None \<Longrightarrow> resolve st l i = Some (Inl Dangling)"
  by (simp add: resolve_def found_script_def)

text \<open>The calls a script may make on its way, whatever answers it gets; a script that hangs is none.\<close>

primrec asks_only :: "(nat \<Rightarrow> service \<Rightarrow> bool) \<Rightarrow> 'f script \<Rightarrow> bool" where
  "asks_only P (Give x) \<longleftrightarrow> True"
| "asks_only P (Throw e) \<longleftrightarrow> True"
| "asks_only P Hang \<longleftrightarrow> False"
| "asks_only P (Resolve l i k) \<longleftrightarrow> P l i \<and> (\<forall>a. asks_only P (k a))"
| "asks_only P (Has l i k) \<longleftrightarrow> P l i \<and> (\<forall>b. asks_only P (k b))"

text \<open>A script that gives an object, as long as it gets objects itself.\<close>

primrec gives :: "'f script \<Rightarrow> bool" where
  "gives (Give x) \<longleftrightarrow> x \<noteq> None"
| "gives (Throw e) \<longleftrightarrow> False"
| "gives Hang \<longleftrightarrow> False"
| "gives (Resolve l i k) \<longleftrightarrow> (\<forall>x. gives (k (Inr (Some x))))"
| "gives (Has l i k) \<longleftrightarrow> (\<forall>b. gives (k b))"

lemma asks_only_mono: "asks_only P s \<Longrightarrow> (\<And>l i. P l i \<Longrightarrow> Q l i) \<Longrightarrow> asks_only Q s"
  by (induction s) auto

lemma asks_only_conj: "asks_only P s \<Longrightarrow> asks_only Q s \<Longrightarrow> asks_only (\<lambda>l i. P l i \<and> Q l i) s"
  by (induction s) auto

lemma run_script_returns:
  "asks_only P s \<Longrightarrow> (\<And>l i. P l i \<Longrightarrow> resolve st l i \<noteq> None) \<Longrightarrow> run_script st s \<noteq> None"
proof (induction s)
  case (Resolve l i k)
  then obtain a where "resolve st l i = Some a" unfolding asks_only.simps by blast
  then show ?case using Resolve by auto
qed auto

lemma run_script_gives:
  "asks_only P s \<Longrightarrow> gives s \<Longrightarrow>
   (\<And>l i. P l i \<Longrightarrow> st l \<noteq> None \<and> (\<exists>x. resolve st l i = Some (Inr (Some x)))) \<Longrightarrow>
   \<exists>x. run_script st s = Some (Inr (Some x))"
proof (induction s)
  case (Resolve l i k)
  then obtain x where "resolve st l i = Some (Inr (Some x))" unfolding asks_only.simps by blast
  then show ?case using Resolve by auto
qed auto

text \<open>What the factories of the module need, in the order they ask for it.\<close>

fun module_needs :: "service \<Rightarrow> service set" where
  "module_needs IHarmonyEngine = {IScaleProvider, IChordEngine}"
| "module_needs IModulationEngine = {IScaleProvider}"
| "module_needs ICounterpointEngine = {IScaleProvider}"
| "module_needs IReharmonizeEngine = {IScaleProvider, IChordEngine, IHarmonyEngine}"
| "module_needs _ = {}"

lemma module_script_asks: "asks_only (\<lambda>l' j. l' = l \<and> j \<in> module_needs i) (module_script i l)"
  by (cases i) (auto simp: module_script_def resolve_then_def resolve_if_bound_def split: sum.split)

lemma module_script_gives: "gives (module_script i l)"
  by (auto simp: module_script_def resolve_then_def resolve_if_bound_def)

lemma module_needs_registered: "module_needs i \<subseteq> set module_services"
  by (cases i) (simp_all add: module_services_def)

fun module_rank :: "service \<Rightarrow> nat" where
  "module_rank IHarmonyEngine = 1"
| "module_rank IModulationEngine = 1"
| "module_rank ICounterpointEngine = 1"
| "module_rank IReharmonizeEngine = 2"
| "module_rank _ = 0"

text \<open>
  A numbering of the services by which the factories are ordered: a foreign factory asks its own
  locator only, for services of a smaller number, and so do the factories of the module that
  will stand where nothing is bound.
\<close>

definition ordered :: "(service \<Rightarrow> nat) \<Rightarrow> nat \<Rightarrow> 'f bindings \<Rightarrow> bool" where
  "ordered rank l m \<longleftrightarrow>
     (\<forall>i. case m i of Some (Foreign_factory s) \<Rightarrow> asks_only (\<lambda>l' j. l' = l \<and> rank j < rank i) s
          | _ \<Rightarrow> \<forall>j \<in> module_needs i. rank j < rank i)"

lemma found_script_ordered:
  assumes "st l = Some m" "own_bindings l m" "ordered rank l m"
  shows "asks_only (\<lambda>l' j. l' = l \<and> rank j < rank i) (found_script (register_music_theory l st) l i)"
proof -
  note o = assms(3) [unfolded ordered_def, rule_format, of i]
  have "asks_only (\<lambda>l' j. l' = l \<and> rank j < rank i) (module_script i l)"
    if "\<forall>j \<in> module_needs i. rank j < rank i"
    using module_script_asks by (rule asks_only_mono) (use that in auto)
  then show ?thesis
    using o assms(2) unfolding own_bindings_def
    by (auto simp: found_script_def register_bindings [of st l m, OF assms(1)] split: option.split factory.split option.splits factory.splits)
qed

lemma resolve_ordered:
  assumes "st l = Some m" "own_bindings l m" "ordered rank l m"
  shows "resolve (register_music_theory l st) l i \<noteq> None"
proof (induction "rank i" arbitrary: i rule: less_induct)
  case less
  show ?case
    unfolding resolve_def
    by (rule run_script_returns [OF found_script_ordered [of st l m rank i, OF assms]]) (use less in blast)
qed

lemma module_rank_ordered: "ordered module_rank l Map.empty"
proof -
  have "\<forall>j \<in> module_needs i. module_rank j < module_rank i" for i by (cases i) simp_all
  then show ?thesis by (simp add: ordered_def)
qed

text \<open>The foreign factories give objects and ask for nothing that will be missing.\<close>

definition foreign_ok :: "nat \<Rightarrow> 'f bindings \<Rightarrow> bool" where
  "foreign_ok l m \<longleftrightarrow> (\<forall>i s. m i = Some (Foreign_factory s) \<longrightarrow>
     gives s \<and> asks_only (\<lambda>l' j. l' = l \<and> (j \<in> set module_services \<or> j \<in> dom m)) s)"

lemma resolve_gives:
  assumes "st l = Some m" "own_bindings l m" "ordered rank l m" "foreign_ok l m"
  shows "i \<in> set module_services \<union> dom m \<Longrightarrow>
    \<exists>x. resolve (register_music_theory l st) l i = Some (Inr (Some x))"
proof (induction "rank i" arbitrary: i rule: less_induct)
  case less
  let ?st = "register_music_theory l st"
  have live: "?st l \<noteq> None" by (simp add: register_bindings [of st l m, OF assms(1)])
  have "gives (found_script ?st l i) \<and>
      asks_only (\<lambda>l' j. l' = l \<and> j \<in> set module_services \<union> dom m) (found_script ?st l i)"
  proof -
    have "asks_only (\<lambda>l' j. l' = l \<and> j \<in> set module_services \<union> dom m) (module_script i l)"
      using module_script_asks by (rule asks_only_mono) (use module_needs_registered in auto)
    then show ?thesis
      using less.prems assms(2,4) module_script_gives [of i l] unfolding own_bindings_def foreign_ok_def
      by (auto simp: found_script_def register_bindings [of st l m, OF assms(1)]
          split: option.splits factory.splits)
  qed
  then have g: "gives (found_script ?st l i)"
    and a: "asks_only (\<lambda>l' j. (l' = l \<and> rank j < rank i) \<and> l' = l \<and> j \<in> set module_services \<union> dom m) (found_script ?st l i)"
    using asks_only_conj [OF found_script_ordered [of st l m rank i, OF assms(1-3)]] by blast+
  show ?case
    unfolding resolve_def by (rule run_script_gives [OF a g]) (use less.hyps live in blast)
qed

text \<open>
  C11. After the module is registered in a locator, resolving returns, whatever other code had bound in
  it before, mocks included, provided the factories can be ordered: those of other code return,
  and ask (if anything) only this locator, for services that come before their own, and the
  dependencies of the module's engines come before the engines. An interface that neither the module
  nor other code bound then throws; and when the foreign factories give objects and ask
  for nothing unregistered, all seventeen interfaces of the module and all foreign ones resolve
  to objects. Without other bindings the order exists: the module's own dependencies never run in
  a circle.
\<close>

theorem resolve_after_register:
  assumes "st l = Some m" "own_bindings l m"
  shows "(\<forall>rank. ordered rank l m \<longrightarrow>
      resolve (register_music_theory l st) l i \<noteq> None \<and>
      (i \<notin> set module_services \<union> dom m \<longrightarrow>
        resolve (register_music_theory l st) l i = Some (Inl (Unregistered i))) \<and>
      (foreign_ok l m \<and> i \<in> set module_services \<union> dom m \<longrightarrow>
        (\<exists>x. resolve (register_music_theory l st) l i = Some (Inr (Some x))))) \<and>
    ordered module_rank l (Map.empty :: 'f bindings)"
proof (intro conjI allI impI)
  fix rank assume o: "ordered rank l m"
  show "resolve (register_music_theory l st) l i \<noteq> None"
    by (rule resolve_ordered [of st l m rank i, OF assms o])
  show "resolve (register_music_theory l st) l i = Some (Inl (Unregistered i))"
    if "i \<notin> set module_services \<union> dom m"
    using that by (intro resolve_unbound [of "register_music_theory l st" l, OF register_bindings [of st l m, OF assms(1)]]) (auto split: option.split)
  show "\<exists>x. resolve (register_music_theory l st) l i = Some (Inr (Some x))"
    if "foreign_ok l m \<and> i \<in> set module_services \<union> dom m"
    using that by (intro resolve_gives [of st l m rank i, OF assms o]) auto
qed (rule module_rank_ordered)

text \<open>A mock of the chord engine that first resolves the scales of the locator it is bound in.\<close>

definition scale_using_mock :: "nat \<Rightarrow> string script" where
  "scale_using_mock l = Resolve l IScaleProvider (\<lambda>a. case a of
     Inl e \<Rightarrow> Throw e | Inr x \<Rightarrow> Give (Some (Built IChordEngine [x])))"

theorem resolve_after_register_witness:
  "\<exists>x. resolve (register_music_theory 7 [7 \<mapsto> [IChordEngine \<mapsto> Foreign_factory (scale_using_mock 7)]]) 7
     IReharmonizeEngine = Some (Inr (Some x))"
proof -
  let ?m = "[IChordEngine \<mapsto> Foreign_factory (scale_using_mock 7)]"
  define rank :: "service \<Rightarrow> nat" where
    "rank i = (case i of IScaleProvider \<Rightarrow> 0 | IChordEngine \<Rightarrow> 1 | IHarmonyEngine \<Rightarrow> 2 | _ \<Rightarrow> 3)" for i
  have "\<forall>j \<in> module_needs i. rank j < rank i" if "i \<noteq> IChordEngine" for i
    using that by (cases i) (simp_all add: rank_def)
  then have "ordered rank 7 ?m"
    by (auto simp: ordered_def scale_using_mock_def rank_def split: option.split factory.split sum.split)
  moreover have "foreign_ok 7 ?m" "own_bindings 7 ?m"
    by (auto simp: foreign_ok_def own_bindings_def scale_using_mock_def module_services_def
        split: sum.splits if_splits)
  ultimately show ?thesis
    using resolve_after_register [of "[7 \<mapsto> ?m]" 7 ?m IReharmonizeEngine]
    by (auto simp: module_services_def)
qed

text \<open>
  The order is needed: a scale provider of other code that resolves the harmony engine of the same
  locator sends the two factories round in a circle, and neither resolution returns.
\<close>

lemma circular_mock_never_returns:
  assumes "st l = Some m" "m IScaleProvider = Some (Foreign_factory (Resolve l IHarmonyEngine k))"
    and "m IHarmonyEngine = Some (Module_factory IHarmonyEngine l)"
  shows "resolve st l IScaleProvider = None \<and> resolve st l IHarmonyEngine = None"
proof -
  have scale: "found_script st l IScaleProvider = Resolve l IHarmonyEngine k"
    and harm: "\<exists>k'. found_script st l IHarmonyEngine = Resolve l IScaleProvider k'"
    using assms by (auto simp: found_script_def module_script_def resolve_then_def)
  let ?loop = "\<lambda>s. s \<in> {found_script st l IScaleProvider, found_script st l IHarmonyEngine}"
  have "st' = st \<longrightarrow> \<not> ?loop s" if returns: "run_script st' s = Some r" for st' s r
  proof (rule run_script.raw_induct [where P = "\<lambda>st' s r. st' = st \<longrightarrow> \<not> ?loop s", OF _ returns], intro impI notI)
    fix run st' s r
    assume IH: "\<And>st' s r. run st' s = Some r \<Longrightarrow> st' = st \<longrightarrow> \<not> ?loop s"
      and body: "(case s of Give x \<Rightarrow> Some (Inr x) | Throw e \<Rightarrow> Some (Inl e) | Hang \<Rightarrow> None
        | Resolve l i k \<Rightarrow> Option.bind (run st' (found_script st' l i)) (\<lambda>a. run st' (k a))
        | Has l i k \<Rightarrow> if st' l = None then Some (Inl Dangling) else run st' (k (loc_has l st' i))) = Some r"
      and a: "st' = st" "?loop s"
    obtain j k' where s: "s = Resolve l j k'" "?loop (found_script st l j)" using a(2) scale harm by auto
    then obtain y where "run st (found_script st l j) = Some y" using body a(1) by (auto simp: bind_eq_Some_conv)
    from IH [OF this] s(2) show False by blast
  qed
  then have "run_script st (found_script st l IScaleProvider) = None"
    and "run_script st (found_script st l IHarmonyEngine) = None" by (metis insertCI not_None_eq)+
  then show ?thesis unfolding resolve_def ..
qed

text \<open>
  Registering never replaces a binding, so a mock bound before the module stays; registering
  again changes nothing; and a harmony engine built by the module is given what the locator
  itself resolves for scales and chords, the mock included.
\<close>

theorem register_keeps_and_wires:
  assumes "st l = Some m" "own_bindings l m"
  shows "register_music_theory l (register_music_theory l st) = register_music_theory l st \<and>
     (\<exists>m'. register_music_theory l st l = Some m' \<and> m \<subseteq>\<^sub>m m') \<and>
     (\<forall>s c. m IHarmonyEngine = None \<and>
         resolve (register_music_theory l st) l IScaleProvider = Some (Inr s) \<and>
         resolve (register_music_theory l st) l IChordEngine = Some (Inr c) \<longrightarrow>
       resolve (register_music_theory l st) l IHarmonyEngine = Some (Inr (Some (Built IHarmonyEngine [s, c]))))"
proof (intro conjI allI impI)
  have "st l \<noteq> None" using assms by simp
  then show "register_music_theory l (register_music_theory l st) = register_music_theory l st"
    unfolding register_music_theory_def by (rule locator.register_new_again)
  define st' where "st' = register_music_theory l st"
  note look = register_bindings [of st l m, OF assms(1), folded st'_def]
  show "\<exists>m'. register_music_theory l st l = Some m' \<and> m \<subseteq>\<^sub>m m'"
    using look by (auto simp: st'_def map_le_def split: option.split)
  fix s c
  assume a: "m IHarmonyEngine = None \<and>
         resolve (register_music_theory l st) l IScaleProvider = Some (Inr s) \<and>
         resolve (register_music_theory l st) l IChordEngine = Some (Inr c)"
  then have "found_script st' l IHarmonyEngine = module_script IHarmonyEngine l"
    and "loc_has l st' IChordEngine"
    by (auto simp: found_script_def look loc_has_def module_services_def split: option.split)
  then have "resolve st' l IHarmonyEngine = run_script st' (module_script IHarmonyEngine l)"
    by (simp add: resolve_def)
  then show "resolve (register_music_theory l st) l IHarmonyEngine = Some (Inr (Some (Built IHarmonyEngine [s, c])))"
    using a \<open>loc_has l st' IChordEngine\<close> look unfolding st'_def [symmetric]
    by (simp add: module_script_def resolve_then_def resolve_if_bound_def)
qed

theorem register_keeps_and_wires_witness:
  "resolve (register_music_theory 7 [7 \<mapsto> [IChordEngine \<mapsto> Foreign_factory (Give (Some (Foreign ''mock'')))]]) 7 IHarmonyEngine =
     Some (Inr (Some (Built IHarmonyEngine [Some (Built IScaleProvider []), Some (Foreign ''mock'')])))"
proof -
  define m :: "string bindings" where "m = [IChordEngine \<mapsto> Foreign_factory (Give (Some (Foreign ''mock'')))]"
  have own: "[7 \<mapsto> m] (7 :: nat) = Some m" "own_bindings 7 m" by (simp_all add: m_def own_bindings_def)
  have "found_script (register_music_theory 7 [7 \<mapsto> m]) 7 IScaleProvider = module_script IScaleProvider 7"
    "found_script (register_music_theory 7 [7 \<mapsto> m]) 7 IChordEngine = Give (Some (Foreign ''mock''))"
    by (simp_all add: found_script_def register_bindings [of "[7 \<mapsto> m]" 7 m, OF own(1)] module_services_def) (simp_all add: m_def)
  then show ?thesis
    using register_keeps_and_wires [of "[7 \<mapsto> m]" 7, OF own] unfolding m_def [symmetric]
    by (simp add: resolve_def module_script_def m_def)
qed

text \<open>
  A production locator stands or falls with copy elision. Built in place it resolves all
  seventeen interfaces; if the compiler moves the local object instead, the four engines that
  resolve dependencies use a locator that no longer exists.
\<close>

theorem production_needs_elision:
  assumes "tmp \<noteq> l"
  shows "(\<forall>i \<in> set module_services. \<exists>x. resolve (make_production l l st) l i = Some (Inr (Some x))) \<and>
    (\<forall>i \<in> {IHarmonyEngine, IModulationEngine, ICounterpointEngine, IReharmonizeEngine}.
       resolve (make_production tmp l st) l i = Some (Inl Dangling))"
proof (intro conjI ballI)
  fix i assume i: "i \<in> set module_services"
  have "own_bindings l Map.empty" "foreign_ok l Map.empty" by (simp_all add: own_bindings_def foreign_ok_def)
  then show "\<exists>x. resolve (make_production l l st) l i = Some (Inr (Some x))"
    using resolve_gives [of "make_empty l st" l Map.empty module_rank i] module_rank_ordered [of l] i
    unfolding make_production_def Let_def make_empty_def by simp
next
  fix i assume i: "i \<in> {IHarmonyEngine, IModulationEngine, ICounterpointEngine, IReharmonizeEngine}"
  define st' where "st' = make_production tmp l st"
  have gone: "st' tmp = None"
    and look: "st' l = Some (\<lambda>i. if i \<in> set module_services then Some (Module_factory i tmp) else None)"
    using assms register_bindings [of "make_empty tmp st" tmp Map.empty]
    by (simp_all add: st'_def make_production_def make_empty_def loc_destroy_def loc_copy_def Let_def)
  have "found_script st' l i = module_script i tmp"
    using i look by (auto simp: found_script_def module_services_def)
  then have "resolve st' l i = run_script st' (module_script i tmp)" by (simp add: resolve_def)
  then show "resolve (make_production tmp l st) l i = Some (Inl Dangling)"
    using i unfolding st'_def [symmetric]
    by (auto simp: module_script_def resolve_then_def resolve_dangling [of st' tmp, OF gone])
qed

theorem production_needs_elision_witness:
  "resolve (make_production 1 2 (Map.empty :: string store)) 2 IHarmonyEngine = Some (Inl Dangling) \<and>
   (\<exists>x. resolve (make_production 2 2 (Map.empty :: string store)) 2 IHarmonyEngine = Some (Inr (Some x)))"
  using production_needs_elision [of 1 2 Map.empty] by (auto simp: module_services_def)

end
