(* ===== verification/Fifo_Liveness.thy ===== *)
theory Fifo_Liveness
  imports Midi_Fifo
begin

text \<open>
  Progress of the ring: both operations are wait-free. Executions of the two threads, with the
  number of steps each has taken, and a potential that every step of the consumer lowers as
  long as an event is due.
\<close>

text \<open>
  \<open>spsc_exec cap s m n t\<close>: an execution from \<open>s\<close> to \<open>t\<close>, in any interleaving, in which the producer
  took \<open>m\<close> and the consumer \<open>n\<close> steps. A step moves exactly one of the two program counters.
\<close>

inductive spsc_exec :: "u64 \<Rightarrow> spsc \<Rightarrow> nat \<Rightarrow> nat \<Rightarrow> spsc \<Rightarrow> bool" for cap :: u64 and s :: spsc where
  exec_refl: "spsc_exec cap s 0 0 s"
| exec_producer: "spsc_exec cap s m n t \<Longrightarrow> spsc_step cap t u \<Longrightarrow> prod_pc u \<noteq> prod_pc t \<Longrightarrow>
    spsc_exec cap s (Suc m) n u"
| exec_consumer: "spsc_exec cap s m n t \<Longrightarrow> spsc_step cap t u \<Longrightarrow> cons_pc u \<noteq> cons_pc t \<Longrightarrow>
    spsc_exec cap s m (Suc n) u"

lemma one_thread_moves:
  "spsc_step cap s t \<Longrightarrow> (prod_pc t \<noteq> prod_pc s \<and> cons_pc t = cons_pc s \<and> popped t = popped s) \<or>
     (cons_pc t \<noteq> cons_pc s \<and> prod_pc t = prod_pc s \<and> pushed t = pushed s)"
  by (erule spsc_step.cases) auto

lemma step_grows:
  "spsc_step cap s t \<Longrightarrow> prefix (pushed s) (pushed t) \<and> prefix (popped s) (popped t)"
  by (erule spsc_step.cases) auto

lemma exec_reachable:
  "spsc_exec cap s m n t \<Longrightarrow> spsc_reachable cap s \<Longrightarrow>
   spsc_reachable cap t \<and> prefix (pushed s) (pushed t) \<and> prefix (popped s) (popped t)"
  by (induction rule: spsc_exec.induct)
    (auto intro: spsc_reachable.step dest: step_grows elim: prefix_order.trans)

subsection \<open>The consumer\<close>

text \<open>Steps to the end of the pop in progress; one that has loaded equal positions will find nothing.\<close>

fun pop_rank :: "consumer \<Rightarrow> int" where
  "pop_rank C_Idle = 0"
| "pop_rank (C_LoadedR r) = - 1"
| "pop_rank (C_LoadedW r w) = (if r = w then 1 else - 2)"
| "pop_rank (C_Read r ev) = - 3"

definition due :: "nat \<Rightarrow> spsc \<Rightarrow> int" where
  "due n s = 4 * (int n - int (length (popped s))) + pop_rank (cons_pc s)"

lemma ring_not_empty:
  assumes "spsc_inv cap s" "length (popped s) < length (pushed s)"
  shows "read_pos (ring s) \<noteq> write_pos (ring s)"
proof
  assume "read_pos (ring s) = write_pos (ring s)"
  then have "contents cap (ring s) = []" by (simp add: contents_def fifo_size_def)
  then show False using assms by (auto simp: spsc_inv_def)
qed

lemma consumer_step_due:
  assumes "spsc_step cap s t" "cons_pc t \<noteq> cons_pc s" "spsc_inv cap s"
    and "length (popped s) < n" "n \<le> length (pushed s)"
  shows "due n t \<le> due n s - 1"
proof -
  have ne: "read_pos (ring s) \<noteq> write_pos (ring s)" using assms by (intro ring_not_empty) auto
  show ?thesis
    using assms(1)
  proof (cases rule: spsc_step.cases)
    case (pop_load_w r)
    then have "r = read_pos (ring s)" using assms(3) by (simp add: spsc_inv_def)
    then show ?thesis using pop_load_w ne by (simp add: due_def)
  qed (use assms(2) in \<open>auto simp: due_def\<close>)
qed

lemma due_bounds: "length (popped s) < n \<Longrightarrow> 1 \<le> due n s"
  "due n s \<le> 4 * (int n - int (length (popped s))) + 1"
  by (cases "cons_pc s"; simp add: due_def)+

lemma exec_due:
  assumes "spsc_exec cap s m k t" "capacity_ok cap" "spsc_reachable cap s"
    and "length (popped t) < n" "n \<le> length (pushed s)"
  shows "due n t + int k \<le> due n s"
  using assms
proof (induction rule: spsc_exec.induct)
  case (exec_producer m k t u)
  then have "cons_pc u = cons_pc t" "popped u = popped t" using one_thread_moves by blast+
  then show ?case using exec_producer by (simp add: due_def)
next
  case (exec_consumer m k t u)
  have r: "spsc_reachable cap t" "prefix (pushed s) (pushed t)"
    using exec_reachable [OF exec_consumer.hyps(1) exec_consumer.prems(2)] by blast+
  have "length (popped t) < n"
    using step_grows [OF exec_consumer.hyps(2)] exec_consumer.prems(3) prefix_length_le by fastforce
  moreover have "n \<le> length (pushed t)"
    using r(2) exec_consumer.prems(4) prefix_length_le by fastforce
  ultimately have "due n u \<le> due n t - 1"
    using spsc_reachable_inv [OF exec_consumer.prems(1) r(1)]
    by (intro consumer_step_due [OF exec_consumer.hyps(2,3)])
  then show ?case using exec_consumer \<open>length (popped t) < n\<close> by simp
qed simp

text \<open>
  C5. Every event that has been pushed is delivered, whatever the producer does meanwhile: once the
  audio thread has taken four steps per event due and one more, it has popped all of them, in
  order. It never waits for the other thread.
\<close>

theorem consumer_delivers:
  assumes "capacity_ok cap" "spsc_reachable cap s" "spsc_exec cap s m n t"
    and "4 * (length (pushed s) - length (popped s)) + 1 \<le> n"
  shows "prefix (pushed s) (popped t)"
proof -
  define N where "N = length (pushed s)"
  have r: "spsc_reachable cap t" "prefix (pushed s) (pushed t)"
    using exec_reachable [OF assms(3,2)] by blast+
  have inv: "popped s @ contents cap (ring s) = pushed s" "popped t @ contents cap (ring t) = pushed t"
    using spsc_reachable_inv [OF assms(1)] assms(2) r(1) by (simp_all add: spsc_inv_def)
  then have le: "length (popped s) \<le> N" by (metis N_def length_append le_add1)
  have "N \<le> length (popped t)"
  proof (rule ccontr)
    assume "\<not> N \<le> length (popped t)"
    then have "due N t + int n \<le> due N s" "1 \<le> due N t"
      using exec_due [OF assms(3,1,2), of N] due_bounds(1) [of t N] by (simp_all add: N_def)
    moreover have "due N s \<le> 4 * int (N - length (popped s)) + 1"
      using due_bounds(2) [of N s] le by (simp add: of_nat_diff)
    ultimately show False using assms(4) unfolding N_def [symmetric] by linarith
  qed
  then show ?thesis
    using r(2) inv(2) unfolding N_def by (metis prefix_length_prefix prefixI)
qed

text \<open>From \<open>both_accessing\<close>, with one event due: the pop is finished and the next one finds nothing.\<close>

definition drained :: spsc where
  "drained = both_accessing\<lparr>ring := (ring both_accessing)\<lparr>read_pos := 1\<rparr>, cons_pc := C_Idle, popped := [zero_event]\<rparr>"

lemma drain_both_accessing: "spsc_exec 4 both_accessing 0 5 drained"
proof -
  define s1 where "s1 = both_accessing\<lparr>cons_pc := C_Read 0 zero_event\<rparr>"
  have st: "spsc_step 4 both_accessing s1" "spsc_step 4 s1 drained"
    "spsc_step 4 drained (drained\<lparr>cons_pc := C_LoadedR 1\<rparr>)"
    "spsc_step 4 (drained\<lparr>cons_pc := C_LoadedR 1\<rparr>) (drained\<lparr>cons_pc := C_LoadedW 1 1\<rparr>)"
    "spsc_step 4 (drained\<lparr>cons_pc := C_LoadedW 1 1\<rparr>) drained"
    using spsc_step.pop_read_slot [of both_accessing 0 1 4] spsc_step.pop_store_r [of s1 0 zero_event 4]
      spsc_step.pop_load_r [of drained 4] spsc_step.pop_load_w [of "drained\<lparr>cons_pc := C_LoadedR 1\<rparr>" 1 4]
      spsc_step.pop_empty_return [of "drained\<lparr>cons_pc := C_LoadedW 1 1\<rparr>" 1 1 4]
    by (simp_all add: s1_def drained_def both_accessing_def slot_def)
  have pc: "cons_pc s1 \<noteq> cons_pc both_accessing" "cons_pc drained \<noteq> cons_pc s1" "cons_pc drained = C_Idle"
    by (simp_all add: s1_def drained_def both_accessing_def)
  have "spsc_exec 4 both_accessing 0 1 s1"
    using exec_consumer [OF exec_refl st(1) pc(1)] by simp
  then have "spsc_exec 4 both_accessing 0 2 drained"
    using exec_consumer [OF _ st(2) pc(2)] by (simp add: numeral_2_eq_2)
  then have "spsc_exec 4 both_accessing 0 3 (drained\<lparr>cons_pc := C_LoadedR 1\<rparr>)"
    using exec_consumer [OF _ st(3)] pc(3) by (simp add: eval_nat_numeral)
  then have "spsc_exec 4 both_accessing 0 4 (drained\<lparr>cons_pc := C_LoadedW 1 1\<rparr>)"
    using exec_consumer [OF _ st(4)] by (simp add: eval_nat_numeral)
  then show ?thesis
    using exec_consumer [OF _ st(5)] pc(3) by (simp add: eval_nat_numeral)
qed

theorem consumer_delivers_witness: "prefix (pushed both_accessing) (popped drained) \<and> pushed both_accessing \<noteq> []"
proof -
  have "capacity_ok 4" by (simp add: capacity_ok_def)
  then have "prefix (pushed both_accessing) (popped drained)"
    by (rule consumer_delivers [OF _ both_accessing_reachable drain_both_accessing]) (simp add: both_accessing_def)
  then show ?thesis by (simp add: both_accessing_def)
qed

end
