(* ===== verification/Plugin_Scanner.thy ===== *)
theory Plugin_Scanner
  imports GM_Programs
begin

text \<open>
  The list of instrument plugins (\<open>PluginScanner.cpp\<close>): the fixed list that stands for a scan,
  its filter, and the guess of a General MIDI program from a plugin's name. JUCE's lower-casing
  and substring test are parameters.
\<close>

record plugin_info =
  pi_name :: string
  pi_manufacturer :: string
  pi_format :: string
  pi_path :: string
  pi_isInstrument :: bool
  pi_numInputs :: int
  pi_numOutputs :: int

definition vst3 :: "string \<Rightarrow> string \<Rightarrow> plugin_info" where
  "vst3 nm maker =
     \<lparr>pi_name = nm, pi_manufacturer = maker, pi_format = ''VST3'', pi_path = '''', pi_isInstrument = True,
      pi_numInputs = 0, pi_numOutputs = 2\<rparr>"

definition addKnownInstruments :: "plugin_info list" where
  "addKnownInstruments =
     [vst3 ''Dexed'' ''Digital Suburban'', vst3 ''OB-Xd'' ''discoDSP'',
      vst3 ''TAL-NoiseMaker'' ''TAL-Togu Audio Line'', vst3 ''Surge XT'' ''Surge Synth Team'',
      vst3 ''Vital'' ''Matt Tytel'', vst3 ''Piano One'' ''Neo Waves'',
      vst3 ''Spitfire LABS'' ''Spitfire Audio'', vst3 ''DrumGizmo'' ''DrumGizmo'',
      vst3 ''Sfizz'' ''sfztools'', vst3 ''Helm'' ''Matt Tytel'']"

text \<open>The scanner's state is its list; the constructor fills it.\<close>

definition PluginScanner :: "plugin_info list" where
  "PluginScanner = addKnownInstruments"

definition scan :: "plugin_info list \<Rightarrow> plugin_info list" where
  "scan knownPlugins = knownPlugins"

definition getInstruments :: "plugin_info list \<Rightarrow> plugin_info list" where
  "getInstruments knownPlugins = filter pi_isInstrument knownPlugins"

definition guessGMProgram :: "(string \<Rightarrow> string) \<Rightarrow> (string \<Rightarrow> string \<Rightarrow> bool) \<Rightarrow> string \<Rightarrow> int" where
  "guessGMProgram toLowerCase has pluginName =
     (let lower = toLowerCase pluginName
      in if has lower ''piano'' \<or> has lower ''grand'' \<or> has lower ''keys'' then 0
         else if has lower ''organ'' \<or> has lower ''b3'' \<or> has lower ''hammond'' then 16
         else if has lower ''guitar'' \<or> has lower ''acoustic'' \<or> has lower ''strat'' then 24
         else if has lower ''bass'' \<or> has lower ''fretless'' then 32
         else if has lower ''string'' \<or> has lower ''violin'' \<or> has lower ''cello'' \<or> has lower ''viola'' \<or>
                 has lower ''orchestra'' then 48
         else if has lower ''synth'' \<or> has lower ''analog'' \<or> has lower ''lead'' \<or> has lower ''pad'' \<or>
                 has lower ''wavetable'' then 80
         else if has lower ''brass'' \<or> has lower ''trumpet'' \<or> has lower ''trombone'' \<or> has lower ''horn'' then 56
         else if has lower ''flute'' \<or> has lower ''clarinet'' \<or> has lower ''oboe'' \<or> has lower ''bassoon'' then 73
         else if has lower ''drum'' \<or> has lower ''percussion'' \<or> has lower ''kit'' then 118
         else 0)"

text \<open>Every guess is a program of the table; every known plugin is listed as an instrument.\<close>

lemma guess_in_table: "0 \<le> guessGMProgram toLowerCase has nm \<and> guessGMProgram toLowerCase has nm < 128"
  by (simp add: guessGMProgram_def Let_def)

lemma instruments_are_all: "getInstruments PluginScanner = scan PluginScanner"
  by (simp add: getInstruments_def PluginScanner_def scan_def addKnownInstruments_def vst3_def)

text \<open>
  A name with \<open>bassoon\<close> in it has \<open>bass\<close> in it, so the woodwind branch never sees a bassoon.
\<close>

lemma bassoon_is_never_a_woodwind:
  assumes "\<And>s. has s ''bassoon'' \<Longrightarrow> has s ''bass''"
    and "guessGMProgram toLowerCase has nm = 73"
  shows "\<not> has (toLowerCase nm) ''bassoon''"
proof
  assume "has (toLowerCase nm) ''bassoon''"
  then have "has (toLowerCase nm) ''bass''" by (rule assms(1))
  then have "guessGMProgram toLowerCase has nm \<in> {0, 16, 24, 32}"
    by (simp add: guessGMProgram_def Let_def)
  with assms(2) show False by simp
qed

end
