(* ===== verification/Piano_Roll.thy ===== *)
theory Piano_Roll
  imports Prelude F32
begin

text \<open>
  The piano roll of the plugin's editor (\<open>PianoRollComponent\<close>): its state, the setters, the
  conversions between positions and notes or ticks, and the mouse handlers as a state machine.
  Drawing is in \<open>Piano_Roll_Draw\<close>, reading and exporting MIDI files in \<open>Piano_Roll_Midi\<close>.

  Of JUCE a rectangle is its position and size; how it is cut and what it contains is the
  parameter \<open>geometry\<close>, with what the code relies on in \<open>geometry_ok\<close>; \<open>sortSequence\<close>, the sorting
  of the events added to a \<open>MidiMessageSequence\<close>, is a field of it too. Positions and ticks are unbounded
  integers. An operation that
  may divide by zero or clamp to an empty range, which C++ leaves undefined, returns \<open>None\<close>
  then. A request to repaint has no state and is left out.
\<close>

record rect =
  getX :: int
  getY :: int
  getWidth :: int
  getHeight :: int

type_synonym point = "int \<times> int"

text \<open>A message of JUCE with its time stamp in ticks, and the file an export builds.\<close>

datatype juce_msg =
  Note_on int int u8
| Note_off int int
| Track_name string
| Tempo_meta int
| Time_signature_meta int int
| Other_msg

type_synonym juce_event = "juce_msg \<times> rat"

record export_file =
  ex_ppq :: int
  ex_tracks :: "juce_event list list"

record geometry =
  removeFromTop :: "rect \<Rightarrow> int \<Rightarrow> rect \<times> rect"
  removeFromLeft :: "rect \<Rightarrow> int \<Rightarrow> rect \<times> rect"
  rect_contains :: "rect \<Rightarrow> point \<Rightarrow> bool"
  getBottom :: "rect \<Rightarrow> int"
  getRight :: "rect \<Rightarrow> int"
  getDistanceFromOrigin :: "point \<Rightarrow> int"
  withTrimmedLeft :: "rect \<Rightarrow> int \<Rightarrow> rect"
  constrainedWithin :: "rect \<Rightarrow> rect \<Rightarrow> rect"
  getStringWidth :: "rat \<Rightarrow> string \<Rightarrow> int"
  sortSequence :: "juce_event list \<Rightarrow> juce_event list"

text \<open>
  The documented behaviour: a strip is cut off (what is removed, what is left), no more than
  there is; a rectangle contains the positions from its corner up to its far edges; two edges
  are the position plus the size.
\<close>

definition geometry_ok :: "geometry \<Rightarrow> bool" where
  "geometry_ok G \<longleftrightarrow>
     (\<forall>r n. 0 \<le> n \<longrightarrow> 0 \<le> getWidth r \<longrightarrow> 0 \<le> getHeight r \<longrightarrow>
        removeFromTop G r n =
          (let m = min n (getHeight r)
           in (r\<lparr>getHeight := m\<rparr>, r\<lparr>getY := getY r + m, getHeight := getHeight r - m\<rparr>)) \<and>
        removeFromLeft G r n =
          (let m = min n (getWidth r)
           in (r\<lparr>getWidth := m\<rparr>, r\<lparr>getX := getX r + m, getWidth := getWidth r - m\<rparr>))) \<and>
     (\<forall>r p. rect_contains G r p \<longleftrightarrow> getX r \<le> fst p \<and> fst p < getX r + getWidth r \<and>
        getY r \<le> snd p \<and> snd p < getY r + getHeight r) \<and>
     (\<forall>r. getBottom G r = getY r + getHeight r \<and> getRight G r = getX r + getWidth r)"

record piano_roll_note =
  prn_tickOn :: int
  prn_tickOff :: int
  prn_note :: int
  prn_velocity :: int
  prn_channel :: int
  prn_trackName :: string

record lock_region =
  barStart :: int
  barEnd :: int
  locked :: bool

record piano_roll =
  roll_notes :: "piano_roll_note list"
  lockRegions :: "lock_region list"
  startTick :: int
  endTick :: int
  ppq :: int
  roll_bpm :: int
  lowNote :: int
  highNote :: int
  hoverNote :: int
  hoverTick :: int
  mousePos :: point
  showTooltip :: bool
  selectedBarStart :: int
  selectedBarEnd :: int
  isDragging :: bool
  dragStartTick :: int
  isDragExport :: bool
  dragStartPos :: point
  roll_diffMode :: bool
  beforeNotes :: "piano_roll_note list"
  afterNotes :: "piano_roll_note list"

text \<open>The member initialisers.\<close>

definition PianoRollComponent :: piano_roll where
  "PianoRollComponent =
     \<lparr>roll_notes = [], lockRegions = [], startTick = 0, endTick = 3840, ppq = 480, roll_bpm = 120,
      lowNote = 36, highNote = 84, hoverNote = -1, hoverTick = -1, mousePos = (0, 0),
      showTooltip = False, selectedBarStart = -1, selectedBarEnd = -1, isDragging = False,
      dragStartTick = 0, isDragExport = False, dragStartPos = (0, 0), roll_diffMode = False,
      beforeNotes = [], afterNotes = []\<rparr>"

definition kKeyboardWidth :: int where "kKeyboardWidth = 50"
definition kHeaderHeight :: int where "kHeaderHeight = 20"
definition kWhiteKeyHeight :: int where "kWhiteKeyHeight = 12"
definition kBlackKeyWidth :: int where "kBlackKeyWidth = 30"

lemmas roll_constants = kKeyboardWidth_def kHeaderHeight_def kWhiteKeyHeight_def kBlackKeyWidth_def

subsection \<open>Setters and queries\<close>

definition setNotes :: "piano_roll_note list \<Rightarrow> piano_roll \<Rightarrow> piano_roll" where
  "setNotes ns r = r\<lparr>roll_notes := ns\<rparr>"

definition setLockRegions :: "lock_region list \<Rightarrow> piano_roll \<Rightarrow> piano_roll" where
  "setLockRegions regions r = r\<lparr>lockRegions := regions\<rparr>"

definition setTimeRange :: "int \<Rightarrow> int \<Rightarrow> int \<Rightarrow> int \<Rightarrow> piano_roll \<Rightarrow> piano_roll" where
  "setTimeRange s e q b r = r\<lparr>startTick := s, endTick := e, ppq := q, roll_bpm := b\<rparr>"

definition setVisibleRange :: "int \<Rightarrow> int \<Rightarrow> piano_roll \<Rightarrow> piano_roll" where
  "setVisibleRange lo hi r = r\<lparr>lowNote := min lo hi, highNote := max lo hi\<rparr>"

definition showDiff :: "piano_roll_note list \<Rightarrow> piano_roll_note list \<Rightarrow> piano_roll \<Rightarrow> piano_roll" where
  "showDiff before after r = r\<lparr>beforeNotes := before, afterNotes := after, roll_diffMode := True\<rparr>"

definition clearDiff :: "piano_roll \<Rightarrow> piano_roll" where
  "clearDiff r = r\<lparr>beforeNotes := [], afterNotes := [], roll_diffMode := False\<rparr>"

definition clearSelection :: "piano_roll \<Rightarrow> piano_roll" where
  "clearSelection r =
     r\<lparr>selectedBarStart := -1, selectedBarEnd := -1, isDragging := False, isDragExport := False\<rparr>"

definition hasSelection :: "piano_roll \<Rightarrow> bool" where
  "hasSelection r \<longleftrightarrow> 0 \<le> selectedBarStart r \<and> selectedBarStart r < selectedBarEnd r"

subsection \<open>Positions, notes and ticks\<close>

definition noteToY :: "geometry \<Rightarrow> piano_roll \<Rightarrow> int \<Rightarrow> rect \<Rightarrow> int" where
  "noteToY G r n area =
     (let idx = n - lowNote r in getBottom G area - (idx + 1) * kWhiteKeyHeight)"

text \<open>\<open>std::clamp\<close>, undefined when the bounds cross.\<close>

definition clamp :: "int \<Rightarrow> int \<Rightarrow> int \<Rightarrow> int option" where
  "clamp v lo hi = (if hi < lo then None else Some (if v < lo then lo else if hi < v then hi else v))"

definition yToNote :: "geometry \<Rightarrow> piano_roll \<Rightarrow> int \<Rightarrow> rect \<Rightarrow> int option" where
  "yToNote G r y area =
     (let idx = (getBottom G area - y) sdiv kWhiteKeyHeight
      in clamp (lowNote r + idx) (lowNote r) (highNote r))"

definition tickToX :: "piano_roll \<Rightarrow> int \<Rightarrow> rect \<Rightarrow> int" where
  "tickToX r tick area =
     (let rng = of_int (endTick r - startTick r)
      in if rng \<le> 0 then getX area
         else let fraction = f64_div (of_int (tick - startTick r)) rng
              in getX area + f32_trunc (f64_mul fraction (of_int (getWidth area))))"

text \<open>A width of zero divides by zero, and the infinity or NaN has no conversion to \<open>int\<close>.\<close>

definition xToTick :: "piano_roll \<Rightarrow> int \<Rightarrow> rect \<Rightarrow> int option" where
  "xToTick r x area =
     (let rng = of_int (endTick r - startTick r)
      in if rng \<le> 0 then Some (startTick r)
         else if getWidth area = 0 then None
         else let fraction = f64_div (of_int (x - getX area)) (of_int (getWidth area))
              in Some (f32_trunc (f64_add (of_int (startTick r)) (f64_mul fraction rng))))"

subsection \<open>Exporting\<close>

definition note_on_event :: "piano_roll_note \<Rightarrow> juce_event" where
  "note_on_event n =
     (Note_on (prn_channel n) (prn_note n) (word_of_int (prn_velocity n)), of_int (prn_tickOn n))"

definition note_off_event :: "piano_roll_note \<Rightarrow> juce_event" where
  "note_off_event n = (Note_off (prn_channel n) (prn_note n), of_int (prn_tickOff n))"

text \<open>What is added to \<open>trackSequences[channel]\<close>, in order.\<close>

definition channel_events :: "piano_roll_note list \<Rightarrow> int \<Rightarrow> juce_event list" where
  "channel_events ns ch =
     concat (map (\<lambda>n. [note_on_event n, note_off_event n]) (filter (\<lambda>n. prn_channel n = ch) ns))"

text \<open>
  \<open>None\<close> is the division of an integer by zero; \<open>Some None\<close> the early return. \<open>seq_of\<close> is a
  \<open>MidiMessageSequence\<close> to which the events are added and which is then sorted.
\<close>

definition startSMFExport :: "(juce_event list \<Rightarrow> juce_event list) \<Rightarrow> piano_roll \<Rightarrow> export_file option option" where
  "startSMFExport seq_of r =
     (if roll_notes r = [] then Some None
      else if roll_bpm r = 0 then None
      else let tempo = 60000000 sdiv roll_bpm r;
               conductorTrack = [(Tempo_meta tempo, 0), (Time_signature_meta 4 4, 0)];
               channels = sort (remdups (map prn_channel (roll_notes r)))
           in Some (Some \<lparr>ex_ppq = ppq r,
                ex_tracks = conductorTrack # map (\<lambda>ch. seq_of (channel_events (roll_notes r) ch)) channels\<rparr>))"

subsection \<open>Mouse\<close>

text \<open>\<open>bounds\<close> is \<open>getLocalBounds()\<close>; the three areas every handler and \<open>paint\<close> cut it into.\<close>

definition areas :: "geometry \<Rightarrow> rect \<Rightarrow> rect \<times> rect \<times> rect" where
  "areas G bounds =
     (let (headerArea, b1) = removeFromTop G bounds kHeaderHeight;
          (keyArea, gridArea) = removeFromLeft G b1 kKeyboardWidth
      in (headerArea, keyArea, gridArea))"

definition mouseMove :: "geometry \<Rightarrow> rect \<Rightarrow> point \<Rightarrow> piano_roll \<Rightarrow> piano_roll option" where
  "mouseMove G bounds pos r =
     (let r1 = r\<lparr>mousePos := pos, showTooltip := True\<rparr>;
          (headerArea, keyArea, gridArea) = areas G bounds
      in if rect_contains G gridArea pos then
           (case (yToNote G r (snd pos) gridArea, xToTick r (fst pos) gridArea) of
              (Some n, Some t) \<Rightarrow> Some (r1\<lparr>hoverNote := n, hoverTick := t\<rparr>)
            | _ \<Rightarrow> None)
         else if rect_contains G keyArea pos then
           map_option (\<lambda>n. r1\<lparr>hoverNote := n, hoverTick := -1\<rparr>) (yToNote G r (snd pos) keyArea)
         else Some (r1\<lparr>hoverNote := -1, hoverTick := -1, showTooltip := False\<rparr>))"

definition mouseExit :: "piano_roll \<Rightarrow> piano_roll" where
  "mouseExit r = r\<lparr>showTooltip := False, hoverNote := -1, hoverTick := -1\<rparr>"

text \<open>The bar of a tick, kept inside the range; no bar length, no bar.\<close>

definition bar_at :: "piano_roll \<Rightarrow> int \<Rightarrow> int option" where
  "bar_at r tick =
     (let ticksPerBar = ppq r * 4
      in if ticksPerBar = 0 then None
         else clamp (tick sdiv ticksPerBar) 0 (endTick r sdiv ticksPerBar))"

definition mouseDown :: "geometry \<Rightarrow> rect \<Rightarrow> point \<Rightarrow> piano_roll \<Rightarrow> piano_roll option" where
  "mouseDown G bounds pos r =
     (let (headerArea, keyArea, gridArea) = areas G bounds
      in if rect_contains G headerArea pos \<or> rect_contains G gridArea pos then
           (case xToTick r (fst pos) gridArea of
              None \<Rightarrow> None
            | Some t \<Rightarrow>
                (case bar_at r t of
                   None \<Rightarrow> None
                 | Some bar \<Rightarrow>
                     Some (r\<lparr>isDragging := True, isDragExport := False, dragStartTick := t,
                             selectedBarStart := bar, selectedBarEnd := bar\<rparr>)))
         else if rect_contains G keyArea pos then
           Some (r\<lparr>isDragExport := True, isDragging := False, dragStartPos := pos\<rparr>)
         else Some r)"

text \<open>
  A drag that starts in the keyboard exports the notes once it has left the place of the press; the
  file that it exports then is part of the result. The tempo of the file is a division by the
  tempo of the roll.
\<close>

definition mouseDrag :: "geometry \<Rightarrow> rect \<Rightarrow> point \<Rightarrow> piano_roll \<Rightarrow> (piano_roll \<times> export_file option) option" where
  "mouseDrag G bounds pos r =
     (let (headerArea, keyArea, gridArea) = areas G bounds
      in if isDragExport r then
           (let diff = (fst pos - fst (dragStartPos r), snd pos - snd (dragStartPos r))
            in if getDistanceFromOrigin G diff > 8
               then map_option (\<lambda>f. (r\<lparr>isDragExport := False, isDragging := False\<rparr>, f))
                      (startSMFExport (sortSequence G) r)
               else Some (r, None))
         else if isDragging r then
           (case xToTick r (fst pos) gridArea of
              None \<Rightarrow> None
            | Some currentTick \<Rightarrow>
                (case (bar_at r (dragStartTick r), bar_at r currentTick) of
                   (Some startBar, Some endBar) \<Rightarrow>
                     Some (r\<lparr>selectedBarStart := min startBar endBar,
                             selectedBarEnd := max startBar endBar\<rparr>, None)
                 | _ \<Rightarrow> None))
         else Some (r, None))"

definition mouseUp :: "piano_roll \<Rightarrow> piano_roll" where
  "mouseUp r = r\<lparr>isDragging := False, isDragExport := False\<rparr>"

subsection \<open>Coordinates\<close>

lemma areas_eq:
  assumes "geometry_ok G" and "0 \<le> getWidth b" and "0 \<le> getHeight b"
  shows "areas G b =
    (let h = min 20 (getHeight b); w = min 50 (getWidth b)
     in (b\<lparr>getHeight := h\<rparr>,
         b\<lparr>getWidth := w, getY := getY b + h, getHeight := getHeight b - h\<rparr>,
         b\<lparr>getX := getX b + w, getWidth := getWidth b - w, getY := getY b + h, getHeight := getHeight b - h\<rparr>))"
proof -
  have top: "removeFromTop G r 20 =
      (r\<lparr>getHeight := min 20 (getHeight r)\<rparr>,
       r\<lparr>getY := getY r + min 20 (getHeight r), getHeight := getHeight r - min 20 (getHeight r)\<rparr>)"
    and left: "removeFromLeft G r 50 =
      (r\<lparr>getWidth := min 50 (getWidth r)\<rparr>,
       r\<lparr>getX := getX r + min 50 (getWidth r), getWidth := getWidth r - min 50 (getWidth r)\<rparr>)"
    if "0 \<le> getWidth r" "0 \<le> getHeight r" for r
    using assms(1) that unfolding geometry_ok_def Let_def by simp_all
  show ?thesis
    using assms(2,3) by (simp add: areas_def top left roll_constants Let_def)
qed

lemma geometry_contains:
  "geometry_ok G \<Longrightarrow> rect_contains G r p \<longleftrightarrow> getX r \<le> fst p \<and> fst p < getX r + getWidth r \<and>
     getY r \<le> snd p \<and> snd p < getY r + getHeight r"
  and geometry_bottom: "geometry_ok G \<Longrightarrow> getBottom G r = getY r + getHeight r"
  and geometry_right: "geometry_ok G \<Longrightarrow> getRight G r = getX r + getWidth r"
  unfolding geometry_ok_def by blast+

lemma clamp_Some: "lo \<le> hi \<Longrightarrow> clamp v lo hi = Some (max lo (min v hi))"
  by (auto simp: clamp_def)

lemma clamp_None: "clamp v lo hi = None \<longleftrightarrow> hi < lo"
  by (auto simp: clamp_def)

text \<open>The quotient of two small integers, the second positive, is between 0 and 1.\<close>

lemma fraction_between:
  assumes "0 \<le> a" and "a \<le> b" and "0 < b"
  shows "0 \<le> f64_div (of_int a) (of_int b) \<and> f64_div (of_int a) (of_int b) \<le> 1"
  using f64_round_between [of 0 "of_int a / of_int b" 1] assms by (simp add: f64_div_def)

lemma scaled_between:
  assumes "0 \<le> f" and "f \<le> 1" and "0 \<le> n" and "n < 2 ^ 32"
  shows "0 \<le> f64_mul f (of_int n) \<and> f64_mul f (of_int n) \<le> of_int n"
proof -
  have "0 \<le> f * of_int n" and "f * of_int n \<le> of_int n"
    using assms mult_right_mono [of f 1 "of_int n"] by simp_all
  then show ?thesis using f64_round_between [of 0 "f * of_int n" n] assms by (simp add: f64_mul_def)
qed

lemma f64_div_mono: "x \<le> y \<Longrightarrow> 0 < z \<Longrightarrow> f64_div x z \<le> f64_div y z"
  unfolding f64_div_def by (intro f64_round_mono divide_right_mono) auto

lemma f64_mul_mono: "x \<le> y \<Longrightarrow> 0 \<le> z \<Longrightarrow> f64_mul x z \<le> f64_mul y z"
  unfolding f64_mul_def by (intro f64_round_mono mult_right_mono) auto

lemma f64_add_mono: "x \<le> y \<Longrightarrow> f64_add z x \<le> f64_add z y"
  unfolding f64_add_def by (intro f64_round_mono) auto

lemma xToTick_between:
  assumes "startTick r \<le> endTick r" and "\<bar>startTick r\<bar> < 2 ^ 31" and "\<bar>endTick r\<bar> < 2 ^ 31"
    and "0 < getWidth area" and "getX area \<le> x" and "x \<le> getX area + getWidth area"
  shows "\<exists>t. xToTick r x area = Some t \<and> startTick r \<le> t \<and> t \<le> endTick r"
proof (cases "endTick r \<le> startTick r")
  case True
  then have "of_int (endTick r - startTick r) \<le> (0 :: rat)" by simp
  with assms(1) show ?thesis unfolding xToTick_def Let_def by simp
next
  case False
  define d where "d = endTick r - startTick r"
  define f where "f = f64_div (of_int (x - getX area)) (of_int (getWidth area))"
  have f: "0 \<le> f" "f \<le> 1" using fraction_between [of "x - getX area" "getWidth area"] assms by (auto simp: f_def)
  have d: "0 < d" "d < 2 ^ 32" using False assms by (auto simp: d_def abs_less_iff)
  have m: "0 \<le> f64_mul f (of_int d)" "f64_mul f (of_int d) \<le> of_int d"
    using scaled_between [OF f, of d] d by auto
  have "of_int (startTick r) \<le> f64_add (of_int (startTick r)) (f64_mul f (of_int d)) \<and>
      f64_add (of_int (startTick r)) (f64_mul f (of_int d)) \<le> of_int (endTick r)"
    unfolding f64_add_def using m assms(2,3) by (intro f64_round_between) (auto simp: d_def)
  then have "startTick r \<le> f32_trunc (f64_add (of_int (startTick r)) (f64_mul f (of_int d))) \<and>
      f32_trunc (f64_add (of_int (startTick r)) (f64_mul f (of_int d))) \<le> endTick r"
    by (intro f32_trunc_between) auto
  moreover have "\<not> (of_int (endTick r - startTick r) \<le> (0 :: rat))" using False by simp
  moreover have "getWidth area \<noteq> 0" using assms(4) by simp
  ultimately show ?thesis
    unfolding xToTick_def Let_def f_def [symmetric] d_def [symmetric] by simp
qed

lemma xToTick_mono:
  assumes "x \<le> y" and "0 < getWidth area" and "xToTick r x area = Some s" and "xToTick r y area = Some t"
  shows "s \<le> t"
proof (cases "of_int (endTick r - startTick r) \<le> (0 :: rat)")
  case False
  have "f64_div (of_int (x - getX area)) (of_int (getWidth area)) \<le>
      f64_div (of_int (y - getX area)) (of_int (getWidth area))"
    using assms(1,2) by (intro f64_div_mono) simp_all
  then have "f32_trunc (f64_add (of_int (startTick r)) (f64_mul
        (f64_div (of_int (x - getX area)) (of_int (getWidth area))) (of_int (endTick r - startTick r)))) \<le>
      f32_trunc (f64_add (of_int (startTick r)) (f64_mul
        (f64_div (of_int (y - getX area)) (of_int (getWidth area))) (of_int (endTick r - startTick r))))"
    using False by (intro f32_trunc_mono f64_add_mono f64_mul_mono) simp_all
  then show ?thesis using assms(2-4) False by (simp add: xToTick_def Let_def)
qed (use assms in \<open>simp add: xToTick_def Let_def\<close>)

lemma tickToX_mono:
  assumes "s \<le> t" and "0 \<le> getWidth area"
  shows "tickToX r s area \<le> tickToX r t area"
proof (cases "of_int (endTick r - startTick r) \<le> (0 :: rat)")
  case False
  then have "f64_div (of_int (s - startTick r)) (of_int (endTick r - startTick r)) \<le>
      f64_div (of_int (t - startTick r)) (of_int (endTick r - startTick r))"
    using assms(1) by (intro f64_div_mono) simp_all
  then show ?thesis
    using assms(2) False by (auto simp: tickToX_def Let_def intro!: f32_trunc_mono f64_mul_mono)
qed (simp add: tickToX_def)

lemma tickToX_ends:
  assumes "startTick r < endTick r" and "0 \<le> getWidth area" and "getWidth area < 2 ^ 31"
  shows "tickToX r (startTick r) area = getX area"
    and "tickToX r (endTick r) area = getX area + getWidth area"
proof -
  have [simp]: "f64_round 0 = 0" "f64_round 1 = 1"
    using f64_round_int [of 0] f64_round_int [of 1] by simp_all
  have d: "\<not> of_int (endTick r - startTick r) \<le> (0 :: rat)" "of_int (endTick r - startTick r) \<noteq> (0 :: rat)"
    using assms(1) by simp_all
  show "tickToX r (startTick r) area = getX area"
    by (simp add: tickToX_def Let_def f64_div_def f64_mul_def f32_trunc_def)
  show "tickToX r (endTick r) area = getX area + getWidth area"
    unfolding tickToX_def Let_def if_not_P [OF d(1)]
    using d(2) assms(2,3) f64_round_int [of "getWidth area"]
    by (simp only: f64_div_def f64_mul_def divide_self) simp
qed

lemma yToNote_eq:
  assumes "geometry_ok G" and "lowNote r \<le> highNote r"
  shows "yToNote G r y area =
    Some (max (lowNote r) (min (lowNote r + (getY area + getHeight area - y) sdiv 12) (highNote r)))"
  using assms by (simp add: yToNote_def Let_def clamp_Some geometry_bottom kWhiteKeyHeight_def)

text \<open>
  Hit testing by rows. The twelve pixels of a note's row, as it is drawn from \<open>noteToY\<close>,
  belong to the note, all but the topmost: that one is attributed to the note above.
\<close>

theorem row_hit_test:
  assumes "geometry_ok G" and "lowNote r \<le> n" and "n \<le> highNote r"
    and "noteToY G r n area \<le> y" and "y < noteToY G r n area + kWhiteKeyHeight"
  shows "yToNote G r y area = Some (if y = noteToY G r n area \<and> n < highNote r then n + 1 else n)"
proof -
  let ?d = "getY area + getHeight area - y"
  have y: "noteToY G r n area = getY area + getHeight area - (n - lowNote r + 1) * 12"
    by (simp add: noteToY_def geometry_bottom [OF assms(1)] kWhiteKeyHeight_def)
  define i where "i = n - lowNote r + (if y = noteToY G r n area then 1 else 0)"
  have "12 * i \<le> ?d" and "?d < 12 * i + 12" and "0 \<le> i"
    using assms(2,4,5) by (auto simp: i_def y kWhiteKeyHeight_def)
  then have "?d sdiv 12 = i" by (simp add: sdiv_nonneg_eq)
  then show ?thesis using assms(2,3) by (auto simp: yToNote_eq [OF assms(1)] i_def)
qed

definition std_geometry :: geometry where
  "std_geometry =
     \<lparr>removeFromTop = (\<lambda>r n. let m = min n (getHeight r)
        in (r\<lparr>getHeight := m\<rparr>, r\<lparr>getY := getY r + m, getHeight := getHeight r - m\<rparr>)),
      removeFromLeft = (\<lambda>r n. let m = min n (getWidth r)
        in (r\<lparr>getWidth := m\<rparr>, r\<lparr>getX := getX r + m, getWidth := getWidth r - m\<rparr>)),
      rect_contains = (\<lambda>r p. getX r \<le> fst p \<and> fst p < getX r + getWidth r \<and>
        getY r \<le> snd p \<and> snd p < getY r + getHeight r),
      getBottom = (\<lambda>r. getY r + getHeight r), getRight = (\<lambda>r. getX r + getWidth r),
      getDistanceFromOrigin = (\<lambda>p. max \<bar>fst p\<bar> \<bar>snd p\<bar>),
      withTrimmedLeft = (\<lambda>r n. r\<lparr>getX := getX r + n, getWidth := getWidth r - n\<rparr>),
      constrainedWithin = (\<lambda>r a. r), getStringWidth = (\<lambda>f s. 7 * int (length s)),
      sortSequence = isort (\<lambda>a b. snd a < snd b)\<rparr>"

lemma std_geometry_ok: "geometry_ok std_geometry"
  by (simp add: geometry_ok_def std_geometry_def Let_def)

theorem row_hit_test_witness:
  "yToNote std_geometry PianoRollComponent 388 \<lparr>getX = 0, getY = 20, getWidth = 50, getHeight = 500\<rparr> = Some 47 \<and>
   noteToY std_geometry PianoRollComponent 46 \<lparr>getX = 0, getY = 20, getWidth = 50, getHeight = 500\<rparr> = 388"
proof -
  have y: "noteToY std_geometry PianoRollComponent 46 \<lparr>getX = 0, getY = 20, getWidth = 50, getHeight = 500\<rparr> = 388"
    by (simp add: noteToY_def std_geometry_def PianoRollComponent_def kWhiteKeyHeight_def)
  show ?thesis
    using row_hit_test [OF std_geometry_ok, of PianoRollComponent 46
        "\<lparr>getX = 0, getY = 20, getWidth = 50, getHeight = 500\<rparr>" 388] y
    by (simp add: PianoRollComponent_def kWhiteKeyHeight_def)
qed

subsection \<open>The mouse as a state machine\<close>

text \<open>
  What can happen to a piano roll: its setters, called by the editor, and the mouse handlers, with
  the bounds of the component at that moment.
\<close>

inductive roll_reachable :: "geometry \<Rightarrow> piano_roll \<Rightarrow> bool" for G where
  start: "roll_reachable G PianoRollComponent"
| new_notes: "roll_reachable G r \<Longrightarrow> roll_reachable G (setNotes ns r)"
| regions: "roll_reachable G r \<Longrightarrow> roll_reachable G (setLockRegions regions r)"
| time_range: "roll_reachable G r \<Longrightarrow> roll_reachable G (setTimeRange s e q b r)"
| visible_range: "roll_reachable G r \<Longrightarrow> roll_reachable G (setVisibleRange lo hi r)"
| show_diff: "roll_reachable G r \<Longrightarrow> roll_reachable G (showDiff before after r)"
| clear_diff: "roll_reachable G r \<Longrightarrow> roll_reachable G (clearDiff r)"
| clear_selection: "roll_reachable G r \<Longrightarrow> roll_reachable G (clearSelection r)"
| move: "roll_reachable G r \<Longrightarrow> mouseMove G bounds pos r = Some r' \<Longrightarrow> roll_reachable G r'"
| exit: "roll_reachable G r \<Longrightarrow> roll_reachable G (mouseExit r)"
| down: "roll_reachable G r \<Longrightarrow> mouseDown G bounds pos r = Some r' \<Longrightarrow> roll_reachable G r'"
| drag: "roll_reachable G r \<Longrightarrow> mouseDrag G bounds pos r = Some (r', exported) \<Longrightarrow> roll_reachable G r'"
| up: "roll_reachable G r \<Longrightarrow> roll_reachable G (mouseUp r)"

definition roll_inv :: "piano_roll \<Rightarrow> bool" where
  "roll_inv r \<longleftrightarrow> lowNote r \<le> highNote r \<and> \<not> (isDragging r \<and> isDragExport r) \<and>
     (selectedBarStart r = -1 \<and> selectedBarEnd r = -1 \<and> \<not> isDragging r \<or>
      0 \<le> selectedBarStart r \<and> selectedBarStart r \<le> selectedBarEnd r)"

lemma bar_at_nonneg: "bar_at r t = Some b \<Longrightarrow> 0 \<le> b \<and> b \<le> endTick r sdiv (ppq r * 4)"
  by (auto simp: bar_at_def clamp_def Let_def split: if_splits)

lemma roll_setters_inv:
  "roll_inv r \<Longrightarrow> roll_inv (setNotes ns r)" "roll_inv r \<Longrightarrow> roll_inv (setLockRegions regions r)"
  "roll_inv r \<Longrightarrow> roll_inv (setTimeRange s e q b r)" "roll_inv r \<Longrightarrow> roll_inv (setVisibleRange lo hi r)"
  "roll_inv r \<Longrightarrow> roll_inv (showDiff before after r)" "roll_inv r \<Longrightarrow> roll_inv (clearDiff r)"
  "roll_inv r \<Longrightarrow> roll_inv (clearSelection r)" "roll_inv r \<Longrightarrow> roll_inv (mouseExit r)"
  "roll_inv r \<Longrightarrow> roll_inv (mouseUp r)"
  by (auto simp: roll_inv_def setNotes_def setLockRegions_def setTimeRange_def setVisibleRange_def
      showDiff_def clearDiff_def clearSelection_def mouseExit_def mouseUp_def)

lemma mouseMove_inv: "roll_inv r \<Longrightarrow> mouseMove G bounds pos r = Some r' \<Longrightarrow> roll_inv r'"
  by (auto simp: mouseMove_def roll_inv_def Let_def split: prod.splits if_splits option.splits)

lemma mouseDown_inv: "roll_inv r \<Longrightarrow> mouseDown G bounds pos r = Some r' \<Longrightarrow> roll_inv r'"
  by (auto simp: mouseDown_def roll_inv_def dest!: bar_at_nonneg
      split: prod.splits if_splits option.splits)

lemma mouseDrag_inv: "roll_inv r \<Longrightarrow> mouseDrag G bounds pos r = Some (r', x) \<Longrightarrow> roll_inv r'"
  by (auto simp: mouseDrag_def roll_inv_def Let_def dest!: bar_at_nonneg
      split: prod.splits if_splits option.splits)

lemma PianoRollComponent_inv: "roll_inv PianoRollComponent"
  by (simp add: roll_inv_def PianoRollComponent_def)

lemma roll_reachable_inv: "roll_reachable G r \<Longrightarrow> roll_inv r"
  by (induction rule: roll_reachable.induct)
    (blast intro: PianoRollComponent_inv roll_setters_inv mouseMove_inv mouseDown_inv mouseDrag_inv)+

text \<open>The handlers of a well-formed roll return when the range is sound and the roll has a grid.\<close>

definition range_ok :: "piano_roll \<Rightarrow> bool" where
  "range_ok r \<longleftrightarrow> 0 < ppq r \<and> 0 \<le> endTick r"

lemma bar_at_Some: "range_ok r \<Longrightarrow> \<exists>b. bar_at r t = Some b"
  by (auto simp: range_ok_def bar_at_def Let_def clamp_def sdiv_nonneg_eq not_less
      pos_imp_zdiv_nonneg_iff)

lemma xToTick_Some: "getWidth area \<noteq> 0 \<Longrightarrow> \<exists>t. xToTick r x area = Some t"
  by (auto simp: xToTick_def Let_def)

lemma areas_width:
  "geometry_ok G \<Longrightarrow> 50 < getWidth b \<Longrightarrow> 0 \<le> getHeight b \<Longrightarrow> areas G b = (h, k, g) \<Longrightarrow>
    getWidth g = getWidth b - 50"
  by (auto simp: areas_eq Let_def)

lemma startSMFExport_None: "startSMFExport sq r = None \<longleftrightarrow> roll_notes r \<noteq> [] \<and> roll_bpm r = 0"
  by (simp add: startSMFExport_def Let_def)


text \<open>A press on the header of a component no wider than the keyboard divides by zero.\<close>

lemma narrow_header_press:
  assumes "geometry_ok G" and "startTick r < endTick r"
    and "0 < getWidth b" and "getWidth b \<le> 50" and "0 < getHeight b"
  shows "mouseDown G b (getX b, getY b) r = None"
  using assms(2-5)
  by (simp add: mouseDown_def areas_eq [OF assms(1)] geometry_contains [OF assms(1)] Let_def xToTick_def)

fun drag_through :: "geometry \<Rightarrow> rect \<Rightarrow> point list \<Rightarrow> piano_roll \<Rightarrow> piano_roll option" where
  "drag_through G b [] r = Some r"
| "drag_through G b (p # ps) r =
     (case mouseDrag G b p r of None \<Rightarrow> None | Some (r', exported) \<Rightarrow> drag_through G b ps r')"

text \<open>A press, any moves with the button down, and the release.\<close>

definition drag_gesture :: "geometry \<Rightarrow> rect \<Rightarrow> point \<Rightarrow> point list \<Rightarrow> piano_roll \<Rightarrow> piano_roll option" where
  "drag_gesture G b p0 ps r =
     (case mouseDown G b p0 r of None \<Rightarrow> None | Some r1 \<Rightarrow> map_option mouseUp (drag_through G b ps r1))"

text \<open>The bar under a position of the grid.\<close>

definition bar_of :: "piano_roll \<Rightarrow> rect \<Rightarrow> point \<Rightarrow> int" where
  "bar_of r grid p = (case xToTick r (fst p) grid of None \<Rightarrow> 0
     | Some t \<Rightarrow> (case bar_at r t of None \<Rightarrow> 0 | Some b \<Rightarrow> b))"

definition dragging_from :: "int \<Rightarrow> int \<Rightarrow> int \<Rightarrow> piano_roll \<Rightarrow> piano_roll" where
  "dragging_from t s e r = r\<lparr>isDragging := True, isDragExport := False, dragStartTick := t,
     selectedBarStart := s, selectedBarEnd := e\<rparr>"

lemma xToTick_cong: "startTick r = startTick r' \<Longrightarrow> endTick r = endTick r' \<Longrightarrow> xToTick r = xToTick r'"
  by (intro ext) (simp add: xToTick_def)

lemma bar_at_cong: "ppq r = ppq r' \<Longrightarrow> endTick r = endTick r' \<Longrightarrow> bar_at r = bar_at r'"
  by (intro ext) (simp add: bar_at_def Let_def)

lemma dragging_from_sel [simp]:
  "startTick (dragging_from t s e r) = startTick r" "endTick (dragging_from t s e r) = endTick r"
  "ppq (dragging_from t s e r) = ppq r" "isDragging (dragging_from t s e r)"
  "\<not> isDragExport (dragging_from t s e r)" "dragStartTick (dragging_from t s e r) = t"
  "(dragging_from t s e r)\<lparr>selectedBarStart := s', selectedBarEnd := e'\<rparr> = dragging_from t s' e' r"
  by (simp_all add: dragging_from_def)

lemma drag_through_selects:
  assumes "areas G b = (h, k, g)" and "range_ok r" and "getWidth g \<noteq> 0"
    and "xToTick r (fst p0) g = Some t0"
  shows "drag_through G b ps (dragging_from t0 s e r) =
    Some (if ps = [] then dragging_from t0 s e r
      else dragging_from t0 (min (bar_of r g p0) (bar_of r g (last ps)))
             (max (bar_of r g p0) (bar_of r g (last ps))) r)"
proof (induction ps arbitrary: s e)
  case (Cons p ps)
  have inv: "xToTick (dragging_from t0 s e r) = xToTick r" "bar_at (dragging_from t0 s e r) = bar_at r"
    by (rule xToTick_cong bar_at_cong; simp)+
  obtain t where t: "xToTick r (fst p) g = Some t" using xToTick_Some [OF assms(3)] by blast
  obtain b0 b1 where bars: "bar_at r t0 = Some b0" "bar_at r t = Some b1"
    using bar_at_Some [OF assms(2)] by blast
  have "bar_of r g p0 = b0" and "bar_of r g p = b1" using assms(4) t bars by (simp_all add: bar_of_def)
  then have "mouseDrag G b p (dragging_from t0 s e r) =
      Some (dragging_from t0 (min (bar_of r g p0) (bar_of r g p)) (max (bar_of r g p0) (bar_of r g p)) r, None)"
    using t bars by (simp add: mouseDrag_def assms(1) inv)
  then show ?case by (simp add: Cons.IH)
qed simp

lemma drag_gesture_eq:
  assumes "areas G b = (h, k, g)" and "range_ok r" and "getWidth g \<noteq> 0"
    and "rect_contains G h p0 \<or> rect_contains G g p0"
  obtains t0 where "drag_gesture G b p0 ps r =
    Some (mouseUp (dragging_from t0 (min (bar_of r g p0) (bar_of r g (last (p0 # ps))))
             (max (bar_of r g p0) (bar_of r g (last (p0 # ps)))) r))"
proof -
  obtain t0 where t0: "xToTick r (fst p0) g = Some t0" using xToTick_Some [OF assms(3)] by blast
  obtain b0 where b0: "bar_at r t0 = Some b0" using bar_at_Some [OF assms(2)] by blast
  have "bar_of r g p0 = b0" using t0 b0 by (simp add: bar_of_def)
  then have "mouseDown G b p0 r = Some (dragging_from t0 (bar_of r g p0) (bar_of r g p0) r)"
    using assms(4) t0 b0 by (simp add: mouseDown_def assms(1) dragging_from_def)
  with drag_through_selects [OF assms(1-3) t0, of ps] show ?thesis
    by (intro that [of t0]) (auto simp: drag_gesture_def)
qed



definition one_note :: piano_roll_note where
  "one_note = \<lparr>prn_tickOn = 0, prn_tickOff = 480, prn_note = 60, prn_velocity = 90, prn_channel = 1, prn_trackName = ''''\<rparr>"


end
