(* ===== verification/Piano_Roll_Midi.thy ===== *)
theory Piano_Roll_Midi
  imports Piano_Roll
begin

text \<open>
  The piano roll and MIDI files: \<open>parseSmfToNotes\<close>, which reads a file for display, what the file
  a drag exports (\<open>startSMFExport\<close> in \<open>Piano_Roll\<close>) is read back as, and the text of the
  tooltip. JUCE's \<open>MidiFile\<close> is a parameter, how a file is written and how it is read into the events
  of its tracks; its data has the type \<open>'b\<close>, bytes in the program.
\<close>

subsection \<open>Reading\<close>

fun isNoteOff :: "juce_msg \<Rightarrow> int \<Rightarrow> bool" where
  "isNoteOff (Note_off ch n) p \<longleftrightarrow> n = p"
| "isNoteOff (Note_on ch n v) p \<longleftrightarrow> v = 0 \<and> n = p"
| "isNoteOff m p \<longleftrightarrow> False"

text \<open>The inner loop: the first later note-off of the same note number, on any channel.\<close>

fun find_off :: "int \<Rightarrow> juce_event list \<Rightarrow> int option" where
  "find_off p [] = None"
| "find_off p ((m, t) # evs) = (if isNoteOff m p then Some (f32_trunc t) else find_off p evs)"

fun track_name :: "string \<Rightarrow> juce_event list \<Rightarrow> string" where
  "track_name nm [] = nm"
| "track_name nm ((Track_name s, t) # evs) = track_name s evs"
| "track_name nm (ev # evs) = track_name nm evs"

fun track_notes :: "int \<Rightarrow> string \<Rightarrow> juce_event list \<Rightarrow> piano_roll_note list" where
  "track_notes q nm [] = []"
| "track_notes q nm ((Note_on ch n v, t) # evs) =
     (if v = 0 then track_notes q nm evs
      else let on = f32_trunc t
           in \<lparr>prn_tickOn = on, prn_tickOff = (case find_off n evs of None \<Rightarrow> on + q | Some t' \<Rightarrow> t'),
               prn_note = n, prn_velocity = uint v, prn_channel = ch, prn_trackName = nm\<rparr>
              # track_notes q nm evs)"
| "track_notes q nm (ev # evs) = track_notes q nm evs"

definition parseSmfToNotes ::
  "('b \<Rightarrow> juce_event list list option) \<Rightarrow> 'b \<Rightarrow> int \<Rightarrow> piano_roll_note list" where
  "parseSmfToNotes readFrom smfData q =
     (case readFrom smfData of
        None \<Rightarrow> []
      | Some tracks \<Rightarrow> concat (map (\<lambda>track. track_notes q (track_name '''' track) track) tracks))"

subsection \<open>Names and the tooltip\<close>

definition isBlackKey :: "int \<Rightarrow> bool" where
  "isBlackKey n = (let pc = n smod 12 in pc = 1 \<or> pc = 3 \<or> pc = 6 \<or> pc = 8 \<or> pc = 10)"

definition isCNote :: "int \<Rightarrow> bool" where
  "isCNote n \<longleftrightarrow> n smod 12 = 0"

definition roll_names :: "string list" where
  "roll_names = [''C'', ''C#'', ''D'', ''D#'', ''E'', ''F'', ''F#'', ''G'', ''G#'', ''A'', ''A#'', ''B'']"

text \<open>A negative remainder indexes before the array.\<close>

definition noteName :: "int \<Rightarrow> string option" where
  "noteName n =
     (let octave = n sdiv 12 - 1
      in if n smod 12 < 0 then None else Some (roll_names ! nat (n smod 12) @ to_string octave))"

definition tooltip_text :: "piano_roll \<Rightarrow> string option" where
  "tooltip_text r =
     (if hoverNote r < 0 then Some (''t='' @ to_string (hoverTick r))
      else case find (\<lambda>n. prn_note n = hoverNote r \<and> prn_tickOn n \<le> hoverTick r \<and>
                          prn_tickOff n > hoverTick r) (roll_notes r) of
             Some n \<Rightarrow>
               map_option (\<lambda>nm. nm @ ''  t='' @ to_string (prn_tickOn n) @ ''-'' @ to_string (prn_tickOff n) @
                 ''  v='' @ to_string (prn_velocity n) @ ''  ch='' @ to_string (prn_channel n + 1) @
                 (if prn_trackName n \<noteq> '''' then ''  '' @ prn_trackName n else ''''))
                 (noteName (prn_note n))
           | None \<Rightarrow> noteName (hoverNote r))"

subsection \<open>An exported file read back\<close>

definition seq_ok :: "(juce_event list \<Rightarrow> juce_event list) \<Rightarrow> bool" where
  "seq_ok seq_of \<longleftrightarrow> (\<forall>evs. mset (seq_of evs) = mset evs \<and> sorted_wrt (\<lambda>a b. snd a \<le> snd b) (seq_of evs))"

text \<open>Notes that sound, and two notes of a pitch and channel that do not touch.\<close>

definition sounding :: "piano_roll_note \<Rightarrow> bool" where
  "sounding n \<longleftrightarrow> prn_tickOn n < prn_tickOff n \<and> 0 < prn_velocity n \<and> prn_velocity n < 128"

definition apart :: "piano_roll_note \<Rightarrow> piano_roll_note \<Rightarrow> bool" where
  "apart m n \<longleftrightarrow> prn_channel m \<noteq> prn_channel n \<or> prn_note m \<noteq> prn_note n \<or>
     prn_tickOff m < prn_tickOn n \<or> prn_tickOff n < prn_tickOn m"

definition unnamed :: "piano_roll_note \<Rightarrow> piano_roll_note" where
  "unnamed n = n\<lparr>prn_trackName := ''''\<rparr>"

lemma sorted_wrt_symD:
  "sorted_wrt P xs \<Longrightarrow> (\<And>x y. P x y \<Longrightarrow> P y x) \<Longrightarrow> x \<in> set xs \<Longrightarrow> y \<in> set xs \<Longrightarrow> x \<noteq> y \<Longrightarrow> P x y"
  by (induction xs) auto

lemma apart_sym: "apart m n \<Longrightarrow> apart n m"
  by (auto simp: apart_def)

text \<open>Searching a sorted tail finds the note's own end.\<close>

lemma find_off_first:
  assumes "sorted_wrt (\<lambda>a b. snd a \<le> snd b) evs"
    and "(Note_off ch p, t) \<in> set evs"
    and "\<And>m u. (m, u) \<in> set evs \<Longrightarrow> isNoteOff m p \<Longrightarrow> u \<le> t \<Longrightarrow> u = t"
  shows "find_off p evs = Some (f32_trunc t)"
  using assms
proof (induction evs)
  case (Cons ev evs)
  obtain m u where ev: "ev = (m, u)" by (cases ev)
  show ?case
  proof (cases "isNoteOff m p")
    case True
    have "u \<le> t" using Cons.prems(1,2) ev by auto
    then have "u = t" using Cons.prems(3) [of m u] True ev by simp
    with True show ?thesis by (simp add: ev)
  next
    case False
    then have "(Note_off ch p, t) \<in> set evs" using Cons.prems(2) ev by auto
    then have "find_off p evs = Some (f32_trunc t)"
      using Cons.prems(1,3) by (intro Cons.IH) auto
    with False show ?thesis by (simp add: ev)
  qed
qed simp

text \<open>A sorted sequence that holds the events of some notes of one channel.\<close>

definition exported_track :: "piano_roll_note list \<Rightarrow> int \<Rightarrow> juce_event list \<Rightarrow> bool" where
  "exported_track ns ch evs \<longleftrightarrow>
     mset evs = mset (concat (map (\<lambda>n. [note_on_event n, note_off_event n]) ns)) \<and>
     sorted_wrt (\<lambda>a b. snd a \<le> snd b) evs \<and> (\<forall>n \<in> set ns. prn_channel n = ch \<and> sounding n) \<and>
     sorted_wrt apart ns"

lemma track_events:
  "exported_track ns ch evs \<Longrightarrow> set evs = note_on_event ` set ns \<union> note_off_event ` set ns"
  unfolding exported_track_def by (drule conjunct1, drule mset_eq_setD) auto

lemma track_sorted: "exported_track ns ch evs \<Longrightarrow> sorted_wrt (\<lambda>a b. snd a \<le> snd b) evs"
  and track_sound: "exported_track ns ch evs \<Longrightarrow> n \<in> set ns \<Longrightarrow> sounding n"
  by (auto simp: exported_track_def)

lemma track_velocity:
  assumes "exported_track ns ch evs" and "n \<in> set ns"
  shows "uint (word_of_int (prn_velocity n) :: u8) = prn_velocity n"
    and "(word_of_int (prn_velocity n) :: u8) \<noteq> 0"
proof -
  have v: "0 < prn_velocity n" "prn_velocity n < 128" using track_sound [OF assms] by (auto simp: sounding_def)
  then show u: "uint (word_of_int (prn_velocity n) :: u8) = prn_velocity n" by (simp add: uint_word_of_int)
  show "(word_of_int (prn_velocity n) :: u8) \<noteq> 0" using u v by force
qed

lemma apartD:
  assumes "exported_track ns ch evs" and "m \<in> set ns" and "n \<in> set ns" and "prn_note m = prn_note n"
    and "m \<noteq> n"
  shows "prn_tickOff m < prn_tickOn n \<or> prn_tickOff n < prn_tickOn m"
  using assms sorted_wrt_symD [of apart ns m n, OF _ apart_sym] by (auto simp: exported_track_def apart_def)

lemma on_event_inj:
  assumes "exported_track ns ch evs" and "m \<in> set ns" and "n \<in> set ns" and "note_on_event m = note_on_event n"
  shows "m = n"
proof (rule ccontr)
  assume "m \<noteq> n"
  then show False
    using apartD [OF assms(1-3)] assms(4) track_sound [OF assms(1,2)] track_sound [OF assms(1,3)]
    by (auto simp: note_on_event_def sounding_def)
qed

lemma off_found:
  assumes tr: "exported_track ns ch evs" and eq: "evs = pre @ note_on_event n # post"
    and n: "n \<in> set ns"
  shows "find_off (prn_note n) post = Some (prn_tickOff n)"
proof -
  have time: "snd (note_on_event n) < snd (note_off_event n)"
    using track_sound [OF tr n] by (simp add: note_on_event_def note_off_event_def sounding_def)
  have "note_off_event n \<in> set evs" using track_events [OF tr] n by auto
  then have "note_off_event n \<in> set pre \<or> note_off_event n = note_on_event n \<or> note_off_event n \<in> set post"
    using eq by auto
  then have off: "note_off_event n \<in> set post"
    using time track_sorted [OF tr] eq
    by (auto simp: sorted_wrt_append)
  have "u = of_int (prn_tickOff n)"
    if mu: "(m, u) \<in> set post" and m: "isNoteOff m (prn_note n)" and le: "u \<le> of_int (prn_tickOff n)" for m u
  proof -
    have "(m, u) \<in> set evs" using mu eq by simp
    then obtain k where k: "k \<in> set ns" and "(m, u) = note_on_event k \<or> (m, u) = note_off_event k"
      using track_events [OF tr] by auto
    moreover have "(word_of_int (prn_velocity k) :: u8) \<noteq> 0"
      by (rule track_velocity [OF tr k])
    ultimately have mk: "prn_note k = prn_note n" "u = of_int (prn_tickOff k)"
      using m by (auto simp: note_on_event_def note_off_event_def)
    have ge: "of_int (prn_tickOn n) \<le> u"
      using mu track_sorted [OF tr] eq by (auto simp: sorted_wrt_append note_on_event_def)
    have "k = n"
    proof (rule ccontr)
      assume "k \<noteq> n"
      with apartD [OF tr k n mk(1)] ge le mk(2) track_sound [OF tr k] show False by (auto simp: sounding_def)
    qed
    with mk show ?thesis by simp
  qed
  moreover have "sorted_wrt (\<lambda>a b. snd a \<le> snd b) post"
    using track_sorted [OF tr] eq by (simp add: sorted_wrt_append)
  ultimately show ?thesis
    using find_off_first [of post "prn_channel n" "prn_note n" "of_int (prn_tickOff n)"] off
    by (simp add: note_off_event_def)
qed

text \<open>Hence the notes of a track are those exported to it, without their track name.\<close>

lemma apart_distinct: "sorted_wrt apart ns \<Longrightarrow> \<forall>n \<in> set ns. sounding n \<Longrightarrow> distinct ns"
  by (induction ns) (auto simp: apart_def sounding_def, fastforce)

lemma filter_single: "distinct ns \<Longrightarrow> m \<in> set ns \<Longrightarrow> filter (\<lambda>n. n = m) ns = [m]"
  by (induction ns) (auto simp: filter_empty_conv)

lemma track_distinct: "exported_track ns ch evs \<Longrightarrow> distinct ns"
  by (rule apart_distinct) (auto simp: exported_track_def)

lemma track_notes_suffix:
  assumes tr: "exported_track ns ch evs"
  shows "evs = pre @ post \<Longrightarrow>
    mset (track_notes q '''' post) =
      mset (map unnamed (concat (map (\<lambda>e. filter (\<lambda>n. note_on_event n = e) ns) post)))"
proof (induction post arbitrary: pre)
  case (Cons e post)
  have IH: "mset (track_notes q '''' post) =
      mset (map unnamed (concat (map (\<lambda>e. filter (\<lambda>n. note_on_event n = e) ns) post)))"
    using Cons.prems by (intro Cons.IH [of "pre @ [e]"]) simp
  have "e \<in> set evs" using Cons.prems by simp
  then consider (on) n where "n \<in> set ns" "e = note_on_event n" | (off) n where "n \<in> set ns" "e = note_off_event n"
    using track_events [OF tr] by auto
  then show ?case
  proof cases
    case on
    have "filter (\<lambda>m. note_on_event m = e) ns = filter (\<lambda>m. m = n) ns"
      using on on_event_inj [OF tr _ on(1)] by (intro filter_cong) auto
    also have "\<dots> = [n]" using track_distinct [OF tr] on(1) by (rule filter_single)
    finally have "filter (\<lambda>m. note_on_event m = e) ns = [n]" .
    moreover have "track_notes q '''' (e # post) = unnamed n # track_notes q '''' post"
      using off_found [OF tr _ on(1), of pre post] Cons.prems on track_velocity [OF tr on(1)]
      by (simp add: note_on_event_def unnamed_def)
    ultimately show ?thesis using IH by simp
  next
    case off
    then have "filter (\<lambda>m. note_on_event m = e) ns = []" and "track_notes q '''' (e # post) = track_notes q '''' post"
      by (simp_all add: note_on_event_def note_off_event_def filter_empty_conv)
    then show ?thesis using IH by simp
  qed
qed simp

lemma mset_concat_map: "mset xs = mset ys \<Longrightarrow> mset (concat (map f xs)) = mset (concat (map f ys))"
  by (metis mset_concat mset_map sum_mset_sum_list)

lemma filter_on_events:
  assumes "exported_track ns ch evs"
  shows "set ms \<subseteq> set ns \<Longrightarrow>
    concat (map (\<lambda>e. filter (\<lambda>n. note_on_event n = e) ns)
      (concat (map (\<lambda>n. [note_on_event n, note_off_event n]) ms))) = ms"
proof (induction ms)
  case (Cons m ms)
  have "filter (\<lambda>n. note_on_event n = note_on_event m) ns = filter (\<lambda>n. n = m) ns"
    using Cons.prems on_event_inj [OF assms] by (intro filter_cong) auto
  also have "\<dots> = [m]" using track_distinct [OF assms] Cons.prems by (intro filter_single) auto
  finally have "filter (\<lambda>n. note_on_event n = note_on_event m) ns = [m]" .
  moreover have "filter (\<lambda>n. note_on_event n = note_off_event m) ns = []"
    by (simp add: filter_empty_conv note_on_event_def note_off_event_def)
  ultimately show ?case using Cons by simp
qed simp

lemma exported_track_notes:
  assumes "exported_track ns ch evs"
  shows "mset (track_notes q '''' evs) = mset (map unnamed ns)"
proof -
  have "mset (track_notes q '''' evs) =
      image_mset unnamed (mset (concat (map (\<lambda>e. filter (\<lambda>n. note_on_event n = e) ns) evs)))"
    using track_notes_suffix [OF assms, of "[]" evs q] by simp
  also have "mset (concat (map (\<lambda>e. filter (\<lambda>n. note_on_event n = e) ns) evs)) =
      mset (concat (map (\<lambda>e. filter (\<lambda>n. note_on_event n = e) ns)
        (concat (map (\<lambda>n. [note_on_event n, note_off_event n]) ns))))"
    using assms by (intro mset_concat_map) (simp add: exported_track_def)
  also have "\<dots> = mset ns" by (simp only: filter_on_events [OF assms order_refl])
  finally show ?thesis by simp
qed

lemma exported_track_unnamed: "exported_track ns ch evs \<Longrightarrow> track_name '''' evs = ''''"
proof -
  assume "exported_track ns ch evs"
  from track_events [OF this] have "\<forall>e \<in> set evs. \<forall>s. fst e \<noteq> Track_name s"
    by (auto simp: note_on_event_def note_off_event_def)
  then show ?thesis by (induction "'''' :: string" evs rule: track_name.induct) auto
qed

lemma sorted_wrt_filter': "sorted_wrt P xs \<Longrightarrow> sorted_wrt P (filter Q xs)"
  by (induction xs) auto

lemma channel_exported:
  assumes "seq_ok seq_of" and "list_all sounding ns" and "sorted_wrt apart ns"
  shows "exported_track (filter (\<lambda>n. prn_channel n = ch) ns) ch (seq_of (channel_events ns ch))"
  using assms by (auto simp: exported_track_def seq_ok_def channel_events_def list_all_iff
      intro: sorted_wrt_filter')

lemma mset_concat_image: "(\<Sum>c\<leftarrow>cs. mset (map g (h c))) = image_mset g (mset (concat (map h cs)))"
  by (induction cs) simp_all

lemma mset_by_channel:
  "distinct chs \<Longrightarrow> mset (concat (map (\<lambda>ch. filter (\<lambda>n. f n = ch) ns) chs)) =
    mset (filter (\<lambda>n. f n \<in> set chs) ns)"
proof (induction chs)
  case (Cons c chs)
  have "mset (filter (\<lambda>n. f n \<in> set (c # chs)) ns) =
      mset (filter (\<lambda>n. f n = c) ns) + mset (filter (\<lambda>n. f n \<in> set chs) ns)"
    using Cons.prems by (induction ns) auto
  with Cons show ?case by simp
qed simp

text \<open>
  What JUCE documents of a file written and read again: it is a Standard MIDI File with the tracks and messages
  it was given. So every track comes back with the same note messages at the same ticks, in order of
  time, and with the same track names. It may come back with further events (the end of the track),
  with a note-off as a note-on of velocity 0, and with simultaneous messages in any order. This is asked only for files
  a MIDI file can hold: a resolution of 15 bits, ticks of 28 bits, channels 1 to 16, 7-bit
  notes and velocities, a tempo of 24 bits.
\<close>

definition is_note :: "juce_msg \<Rightarrow> bool" where
  "is_note m \<longleftrightarrow> (case m of Note_on ch n v \<Rightarrow> True | Note_off ch n \<Rightarrow> True | _ \<Rightarrow> False)"

definition is_name :: "juce_msg \<Rightarrow> bool" where
  "is_name m \<longleftrightarrow> (case m of Track_name s \<Rightarrow> True | _ \<Rightarrow> False)"

fun plain :: "juce_msg \<Rightarrow> juce_msg" where
  "plain (Note_on ch n v) = (if v = 0 then Note_off ch n else Note_on ch n v)"
| "plain m = m"

definition note_part :: "juce_event list \<Rightarrow> juce_event list" where
  "note_part evs = map (\<lambda>(m, t). (plain m, t)) (filter (\<lambda>(m, t). is_note m) evs)"

definition read_back :: "juce_event list \<Rightarrow> juce_event list \<Rightarrow> bool" where
  "read_back evs evs' \<longleftrightarrow> mset (note_part evs') = mset (note_part evs) \<and>
     sorted_wrt (\<lambda>a b. snd a \<le> snd b) evs' \<and>
     filter is_name (map fst evs') = filter is_name (map fst evs)"

fun msg_ok :: "juce_msg \<Rightarrow> bool" where
  "msg_ok (Note_on ch n v) \<longleftrightarrow> 1 \<le> ch \<and> ch \<le> 16 \<and> 0 \<le> n \<and> n < 128 \<and> uint v < 128"
| "msg_ok (Note_off ch n) \<longleftrightarrow> 1 \<le> ch \<and> ch \<le> 16 \<and> 0 \<le> n \<and> n < 128"
| "msg_ok (Tempo_meta t) \<longleftrightarrow> 0 < t \<and> t < 2 ^ 24"
| "msg_ok _ \<longleftrightarrow> True"

definition file_ok :: "export_file \<Rightarrow> bool" where
  "file_ok f \<longleftrightarrow> 0 < ex_ppq f \<and> ex_ppq f < 2 ^ 15 \<and>
     (\<forall>evs \<in> set (ex_tracks f). sorted_wrt (\<lambda>a b. snd a \<le> snd b) evs \<and>
        (\<forall>(m, t) \<in> set evs. msg_ok m \<and> (\<exists>k. t = of_int k \<and> 0 \<le> k \<and> k < 2 ^ 28)))"

definition smf_io_ok :: "(export_file \<Rightarrow> 'b) \<Rightarrow> ('b \<Rightarrow> juce_event list list option) \<Rightarrow> bool" where
  "smf_io_ok writeTo readFrom \<longleftrightarrow>
     (\<forall>f. file_ok f \<longrightarrow> (\<exists>tracks. readFrom (writeTo f) = Some tracks \<and> list_all2 read_back (ex_tracks f) tracks))"

text \<open>The reader looks at the note messages only.\<close>

lemma isNoteOff_plain: "isNoteOff (plain m) p = isNoteOff m p"
  and isNoteOff_note: "isNoteOff m p \<Longrightarrow> is_note m"
  by (cases m; simp add: is_note_def)+

lemma find_off_note_part: "find_off p (note_part evs) = find_off p evs"
proof (induction evs)
  case (Cons ev evs)
  then show ?case
    using isNoteOff_plain isNoteOff_note [of "fst ev" p] by (cases ev) (auto simp: note_part_def)
qed (simp add: note_part_def)

lemma track_notes_note_part: "track_notes q nm (note_part evs) = track_notes q nm evs"
proof (induction q nm evs rule: track_notes.induct)
  case (2 q nm ch n v t evs)
  then show ?case using find_off_note_part [of n evs] by (simp add: note_part_def is_note_def)
qed (simp_all add: note_part_def is_note_def)

lemma track_name_unnamed: "filter is_name (map fst evs) = [] \<Longrightarrow> track_name nm evs = nm"
  by (induction nm evs rule: track_name.induct) (simp_all add: is_name_def)

lemma exported_note_part:
  assumes "exported_track ns ch evs"
  shows "note_part evs = evs" and "filter is_name (map fst evs) = []"
proof -
  have e: "is_note (fst e) \<and> plain (fst e) = fst e \<and> \<not> is_name (fst e)" if "e \<in> set evs" for e
    using track_events [OF assms] track_velocity(2) [OF assms] that
    by (auto simp: note_on_event_def note_off_event_def is_note_def is_name_def)
  then show "filter is_name (map fst evs) = []" by (auto simp: filter_empty_conv)
  have "filter (\<lambda>(m, t). is_note m) evs = evs" using e by (intro filter_True) auto
  moreover have "map (\<lambda>(m, t). (plain m, t)) evs = evs" using e by (intro map_idI) fastforce
  ultimately show "note_part evs = evs" by (simp add: note_part_def)
qed

text \<open>So a track that comes back still holds the exported notes, and has no name.\<close>

lemma read_back_notes:
  assumes "exported_track ns ch evs" and "read_back evs evs'"
  shows "mset (track_notes q '''' evs') = mset (map unnamed ns) \<and> track_name '''' evs' = ''''"
proof -
  have "sorted_wrt (\<lambda>a b. snd a \<le> snd b) (note_part evs')"
    using assms(2) unfolding read_back_def note_part_def
    by (auto simp: sorted_wrt_map split_beta intro: sorted_wrt_filter')
  then have "exported_track ns ch (note_part evs')"
    using assms exported_note_part(1) [OF assms(1)] by (simp add: read_back_def exported_track_def)
  from exported_track_notes [OF this, of q] show ?thesis
    using assms(2) exported_note_part(2) [OF assms(1)] track_name_unnamed
    by (simp add: track_notes_note_part read_back_def)
qed

text \<open>Notes a MIDI file can hold.\<close>

definition midi_note :: "piano_roll_note \<Rightarrow> bool" where
  "midi_note n \<longleftrightarrow> 1 \<le> prn_channel n \<and> prn_channel n \<le> 16 \<and> 0 \<le> prn_note n \<and> prn_note n < 128 \<and>
     0 \<le> prn_tickOn n \<and> prn_tickOff n < 2 ^ 28"

lemma exported_events_ok:
  assumes "exported_track ns ch evs" and "\<forall>n \<in> set ns. midi_note n" and "(m, t) \<in> set evs"
  shows "msg_ok m \<and> (\<exists>k. t = of_int k \<and> 0 \<le> k \<and> k < 2 ^ 28)"
proof -
  obtain n where n: "n \<in> set ns" "(m, t) = note_on_event n \<or> (m, t) = note_off_event n"
    using track_events [OF assms(1)] assms(3) by auto
  have "midi_note n" "sounding n" using assms(2) track_sound [OF assms(1)] n(1) by auto
  then show ?thesis
    using n(2) track_velocity(1) [OF assms(1) n(1)]
    by (auto simp: note_on_event_def note_off_event_def midi_note_def sounding_def)
qed

lemma tempo_ok:
  fixes b :: int
  assumes "4 \<le> b" and "b \<le> 60000000"
  shows "0 < 60000000 sdiv b" and "60000000 sdiv b < 2 ^ 24"
proof -
  have "1 \<le> 60000000 div b" using assms zdiv_mono1 [of b 60000000 b] by simp
  moreover have "60000000 div b \<le> 60000000 div 4" using assms zdiv_mono2 [of 60000000 4 b] by simp
  moreover have "60000000 sdiv b = 60000000 div b" using assms by (simp add: sdiv_nonneg_eq)
  ultimately show "0 < 60000000 sdiv b" and "60000000 sdiv b < 2 ^ 24" by simp_all
qed

lemma read_back_tracks:
  assumes "\<And>ch. exported_track (h ch) ch (g ch)" and "list_all2 read_back (map g chs) tracks"
  shows "mset (concat (map (\<lambda>track. track_notes q (track_name '''' track) track) tracks)) =
    image_mset unnamed (mset (concat (map h chs)))"
  using assms(2)
proof (induction chs arbitrary: tracks)
  case (Cons ch chs)
  then obtain tr trs where "tracks = tr # trs" "read_back (g ch) tr" "list_all2 read_back (map g chs) trs"
    by (auto simp: list_all2_Cons1)
  then show ?case using Cons.IH [of trs] read_back_notes [OF assms(1) [of ch], of tr q] by simp
qed simp


text \<open>A sequence that keeps the order of events of the same time is one JUCE may use.\<close>

interpretation by_time: strict_weak_order "\<lambda>a b :: juce_event. snd a < snd b"
  by unfold_locales auto

lemma stable_seq_ok: "seq_ok (isort (\<lambda>a b. snd a < snd b))"
  using by_time.isort_ordered by (simp add: seq_ok_def mset_isort not_less)

definition two_notes :: "piano_roll_note list" where
  "two_notes =
     [\<lparr>prn_tickOn = 0, prn_tickOff = 480, prn_note = 60, prn_velocity = 90, prn_channel = 1, prn_trackName = ''Piano''\<rparr>,
      \<lparr>prn_tickOn = 481, prn_tickOff = 960, prn_note = 60, prn_velocity = 80, prn_channel = 1, prn_trackName = ''Piano''\<rparr>]"

text \<open>Files kept as they are, each track closed by an end-of-track event.\<close>

definition ended :: "juce_event list \<Rightarrow> juce_event list" where
  "ended evs = evs @ [(Other_msg, Max (insert 0 (snd ` set evs)))]"

lemma ended_smf_io_ok: "smf_io_ok id (\<lambda>f. Some (map ended (ex_tracks f)))"
proof -
  have "read_back evs (ended evs)" if "sorted_wrt (\<lambda>a b. snd a \<le> snd b) evs" for evs
    using that by (auto simp: read_back_def ended_def note_part_def is_note_def is_name_def sorted_wrt_append)
  then show ?thesis by (auto simp: smf_io_ok_def file_ok_def list_all2_map2 list.rel_refl_strong)
qed


text \<open>
  In a track that mixes channels the end of another channel's note is taken; and the tooltip
  adds one to a channel that JUCE already counts from 1.
\<close>

lemma parse_mixes_channels:
  "track_notes 480 '''' [(Note_on 1 60 90, 0), (Note_on 2 60 90, 0), (Note_off 2 60, 10), (Note_off 1 60, 960)] =
    [\<lparr>prn_tickOn = 0, prn_tickOff = 10, prn_note = 60, prn_velocity = 90, prn_channel = 1, prn_trackName = ''''\<rparr>,
     \<lparr>prn_tickOn = 0, prn_tickOff = 10, prn_note = 60, prn_velocity = 90, prn_channel = 2, prn_trackName = ''''\<rparr>]"
  by (simp add: f32_trunc_def)

lemma tooltip_channel_above:
  "tooltip_text (PianoRollComponent\<lparr>roll_notes := track_notes 480 '''' [(Note_on 1 60 90, 0), (Note_off 1 60, 480)],
     hoverNote := 60, hoverTick := 5\<rparr>) = Some ''C4  t=0-480  v=90  ch=2''"
  by (simp add: tooltip_text_def f32_trunc_def noteName_def roll_names_def Let_def to_string_def
      nat_digits.simps sdiv_nonneg_eq smod_nonneg_eq) code_simp

end
