(* ===== verification/Piano_Roll_Draw.thy ===== *)
theory Piano_Roll_Draw
  imports Piano_Roll_Midi
begin

text \<open>
  What the piano roll paints: \<open>paint\<close> and the \<open>draw\<close> helpers as the list of the calls they make on
  JUCE's \<open>Graphics\<close>, in order. The loops over ticks add a step computed from the resolution and
  may not end; \<open>None\<close> is painting that never returns, divides by zero, or lets a tick counter or
  the ticks of a bar overflow an \<open>int\<close>. The positions computed from ticks are unbounded.
\<close>

datatype colour = RGBA int int int int | HSV rat rat rat rat | WithAlpha colour rat

datatype justification = Centred | CentredLeft

datatype gfx =
  FillAll colour
| SetColour colour
| SetFont rat
| FillRect int int int int
| DrawRect int int int int int
| HorizontalLine int int int
| VerticalLine int int int
| FillRounded rect rat
| DrawText string rect justification

definition kBgColor :: colour where "kBgColor = RGBA 24 24 28 255"
definition kGridLine :: colour where "kGridLine = RGBA 255 255 255 12"
definition kCNoteLine :: colour where "kCNoteLine = RGBA 255 255 255 35"
definition kBeatLine :: colour where "kBeatLine = RGBA 255 255 255 40"
definition kBarLine :: colour where "kBarLine = RGBA 255 255 255 80"
definition k16thDot :: colour where "k16thDot = RGBA 255 255 255 15"
definition kHeaderBg :: colour where "kHeaderBg = RGBA 35 35 40 255"
definition kHeaderText :: colour where "kHeaderText = RGBA 255 255 255 100"
definition kWhiteKey :: colour where "kWhiteKey = RGBA 240 240 235 255"
definition kWhiteKeyEdge :: colour where "kWhiteKeyEdge = RGBA 200 200 195 255"
definition kBlackKey :: colour where "kBlackKey = RGBA 60 60 65 255"
definition kBlackKeyEdge :: colour where "kBlackKeyEdge = RGBA 80 80 85 255"
definition kNoteLabel :: colour where "kNoteLabel = RGBA 80 80 80 255"
definition kLockUnlocked :: colour where "kLockUnlocked = RGBA 0 180 0 50"
definition kLocked :: colour where "kLocked = RGBA 220 40 40 60"
definition kTooltipBg :: colour where "kTooltipBg = RGBA 0 0 0 210"
definition kTooltipText :: colour where "kTooltipText = RGBA 240 240 240 255"
definition kHoverHighlight :: colour where "kHoverHighlight = RGBA 255 255 255 20"
definition kKeyboardBg :: colour where "kKeyboardBg = RGBA 40 40 45 255"
definition kSelectionFill :: colour where "kSelectionFill = RGBA 0 120 255 40"
definition kSelectionBorder :: colour where "kSelectionBorder = RGBA 0 120 255 180"
definition kDiffBeforeFill :: colour where "kDiffBeforeFill = RGBA 180 180 180 60"
definition kDiffBeforeBorder :: colour where "kDiffBeforeBorder = RGBA 180 180 180 100"

definition kTrackColors :: "colour list" where
  "kTrackColors = map (\<lambda>h. HSV (f32_round h) (3/4) (f32_round (55/100)) 1)
     [0, 12/100, 1/4, 38/100, 1/2, 65/100, 78/100, 9/10]"

text \<open>\<open>kTrackColors[channel % kNumTrackColors]\<close>; a negative channel would index before the array.\<close>

definition track_colour :: "int \<Rightarrow> colour option" where
  "track_colour ch = (let i = ch smod 8 in if i < 0 then None else Some (kTrackColors ! nat i))"

definition concat_all :: "'a list option list \<Rightarrow> 'a list option" where
  "concat_all xs = map_option concat (those xs)"

text \<open>
  \<open>for (int tick = startTick_; tick <= endTick_; tick += step)\<close>. The counter is an \<open>int\<close>: adding the
  step beyond its range is undefined.
\<close>

definition int32 :: "int \<Rightarrow> bool" where
  "int32 k \<longleftrightarrow> - (2 ^ 31) \<le> k \<and> k < 2 ^ 31"

partial_function (option) for_ticks :: "int \<Rightarrow> int \<Rightarrow> int \<Rightarrow> (int \<Rightarrow> 'a list option) \<Rightarrow> 'a list option" where
  "for_ticks tick last_tick step body =
     (if tick \<le> last_tick
      then Option.bind (body tick) (\<lambda>xs.
           if int32 (tick + step)
           then Option.bind (for_ticks (tick + step) last_tick step body) (\<lambda>ys. Some (xs @ ys))
           else None)
      else Some [])"

subsection \<open>The parts of the picture\<close>

definition draw_key :: "geometry \<Rightarrow> piano_roll \<Rightarrow> rect \<Rightarrow> int \<Rightarrow> gfx list option" where
  "draw_key G r area n =
     (let k = \<lparr>getX = getX area, getY = noteToY G r n area, getWidth = getWidth area, getHeight = kWhiteKeyHeight\<rparr>;
          hover = (if n = hoverNote r
                   then [SetColour kHoverHighlight, FillRect (getX k) (getY k) (getWidth k) (getHeight k)] else [])
      in if isBlackKey n then
           let h = f32_trunc (f32_mul (of_int kWhiteKeyHeight) (f32_round (6/10)))
           in Some ([SetColour kBlackKey, FillRect (getX area) (getY k) kBlackKeyWidth h,
                     SetColour kBlackKeyEdge, DrawRect (getX area) (getY k) kBlackKeyWidth h 1] @ hover)
         else
           map_option (\<lambda>label.
               [SetColour kWhiteKey, FillRect (getX k) (getY k) (getWidth k) (getHeight k),
                SetColour kWhiteKeyEdge, DrawRect (getX k) (getY k) (getWidth k) (getHeight k) 1] @ hover @ label)
             (if isCNote n
              then map_option (\<lambda>nm. [SetColour kNoteLabel, SetFont 9,
                     DrawText nm (withTrimmedLeft G k 3) CentredLeft]) (noteName n)
              else Some []))"

definition drawKeyboard :: "geometry \<Rightarrow> piano_roll \<Rightarrow> rect \<Rightarrow> gfx list option" where
  "drawKeyboard G r area =
     concat_all ([Some [SetColour kKeyboardBg, FillRect (getX area) (getY area) (getWidth area) (getHeight area)]] @
       map (draw_key G r area) [lowNote r..highNote r] @
       [Some [SetColour (RGBA 60 60 65 255), VerticalLine (getRight G area - 1) (getY area) (getBottom G area)]])"

definition grid_line :: "geometry \<Rightarrow> piano_roll \<Rightarrow> rect \<Rightarrow> int \<Rightarrow> gfx list option" where
  "grid_line G r area tick =
     (let ticksPerBeat = ppq r; ticksPerBar = ppq r * 4; x = tickToX r tick area
      in if ticksPerBar = 0 then None
         else let c = (if tick smod ticksPerBar = 0 then kBarLine
                       else if tick smod ticksPerBeat = 0 then kBeatLine else k16thDot)
              in Some [SetColour c, VerticalLine x (getY area) (getBottom G area)])"

definition drawGrid :: "geometry \<Rightarrow> piano_roll \<Rightarrow> rect \<Rightarrow> gfx list option" where
  "drawGrid G r area =
     (let rows = concat (map (\<lambda>n.
            [SetColour (if isCNote n then kCNoteLine else kGridLine),
             HorizontalLine (noteToY G r n area + kWhiteKeyHeight - 1) (getX area) (getRight G area)])
            [lowNote r..highNote r]);
          ticksPer16th = ppq r sdiv 4
      in if \<not> int32 (ppq r * 4) then None
         else concat_all [Some rows, for_ticks (startTick r) (endTick r) ticksPer16th (grid_line G r area)])"

text \<open>The notes that both note loops skip.\<close>

definition note_shown :: "piano_roll \<Rightarrow> piano_roll_note \<Rightarrow> bool" where
  "note_shown r n \<longleftrightarrow> \<not> (prn_note n < lowNote r \<or> prn_note n > highNote r) \<and>
     \<not> (prn_tickOff n \<le> startTick r \<or> prn_tickOn n \<ge> endTick r)"

definition note_rect :: "geometry \<Rightarrow> piano_roll \<Rightarrow> rect \<Rightarrow> piano_roll_note \<Rightarrow> int \<times> int \<times> int" where
  "note_rect G r area n =
     (let x = tickToX r (prn_tickOn n) area; x2 = tickToX r (prn_tickOff n) area
      in (x, noteToY G r (prn_note n) area, max 2 (x2 - x)))"

definition note_alpha :: "int \<Rightarrow> rat" where
  "note_alpha vel = f32_add (f32_round (3/10))
     (f32_mul (f32_div (of_int (max 0 (min vel 127))) 127) (f32_round (7/10)))"

definition draw_note :: "geometry \<Rightarrow> piano_roll \<Rightarrow> rect \<Rightarrow> piano_roll_note \<Rightarrow> gfx list option" where
  "draw_note G r area n =
     (let (x, y, w) = note_rect G r area n
      in map_option (\<lambda>base.
           [SetColour (WithAlpha base (note_alpha (prn_velocity n))), FillRect x y w kWhiteKeyHeight,
            SetColour (WithAlpha base 1), DrawRect x y w kWhiteKeyHeight 1])
           (track_colour (prn_channel n)))"

definition drawNotes :: "geometry \<Rightarrow> piano_roll \<Rightarrow> rect \<Rightarrow> gfx list option" where
  "drawNotes G r area = concat_all (map (draw_note G r area) (filter (note_shown r) (roll_notes r)))"

definition drawDiffNotes :: "geometry \<Rightarrow> piano_roll \<Rightarrow> rect \<Rightarrow> gfx list option" where
  "drawDiffNotes G r area =
     (let before = concat (map (\<lambda>n. let (x, y, w) = note_rect G r area n
            in [SetColour kDiffBeforeFill, FillRect x y w kWhiteKeyHeight,
                SetColour kDiffBeforeBorder, DrawRect x y w kWhiteKeyHeight 1])
            (filter (note_shown r) (beforeNotes r)))
      in concat_all (Some before # map (draw_note G r area) (filter (note_shown r) (afterNotes r))))"

definition drawSelection :: "piano_roll \<Rightarrow> rect \<Rightarrow> gfx list" where
  "drawSelection r area =
     (if selectedBarStart r < 0 \<or> selectedBarEnd r < 0 then []
      else let ticksPerBar = ppq r * 4;
               x1 = tickToX r (selectedBarStart r * ticksPerBar) area;
               x2 = tickToX r ((selectedBarEnd r + 1) * ticksPerBar) area
           in if x2 \<le> x1 then []
              else [SetColour kSelectionFill, FillRect x1 (getY area) (x2 - x1) (getHeight area),
                    SetColour kSelectionBorder, DrawRect x1 (getY area) (x2 - x1) (getHeight area) 1])"

definition draw_region :: "piano_roll \<Rightarrow> rect \<Rightarrow> lock_region \<Rightarrow> gfx list" where
  "draw_region r area region =
     (let ticksPerBar = ppq r * 4;
          x1 = tickToX r (barStart region * ticksPerBar) area;
          x2 = tickToX r (barEnd region * ticksPerBar) area
      in if x2 \<le> x1 then []
         else [SetColour (if locked region then kLocked else kLockUnlocked),
               FillRect x1 (getY area) (x2 - x1) (getHeight area),
               SetColour (RGBA 255 255 255 120), SetFont 10,
               DrawText (if locked region then ''LOCKED'' else ''UNLOCKED'')
                 \<lparr>getX = x1, getY = getY area, getWidth = x2 - x1, getHeight = kHeaderHeight\<rparr> Centred])"

definition drawLockRegions :: "piano_roll \<Rightarrow> rect \<Rightarrow> gfx list" where
  "drawLockRegions r area = concat (map (draw_region r area) (lockRegions r))"

definition header_bar :: "piano_roll \<Rightarrow> rect \<Rightarrow> rect \<Rightarrow> int \<Rightarrow> gfx list option" where
  "header_bar r headerArea gridArea tick =
     (let ticksPerBar = ppq r * 4; x = tickToX r tick gridArea
      in if ticksPerBar = 0 then None
         else Some [DrawText (to_string (tick sdiv ticksPerBar + 1))
                \<lparr>getX = x + 3, getY = getY headerArea, getWidth = 30, getHeight = getHeight headerArea\<rparr> CentredLeft])"

definition header_beat :: "piano_roll \<Rightarrow> rect \<Rightarrow> rect \<Rightarrow> int \<Rightarrow> gfx list option" where
  "header_beat r headerArea gridArea tick =
     (let ticksPerBar = ppq r * 4; ticksPerBeat = ppq r
      in if ticksPerBar = 0 then None
         else if tick smod ticksPerBar = 0 then Some []
         else let x = tickToX r tick gridArea; beatInBar = (tick smod ticksPerBar) sdiv ticksPerBeat
              in Some [DrawText (to_string (beatInBar + 1))
                   \<lparr>getX = x + 1, getY = getY headerArea + 10, getWidth = 15,
                    getHeight = getHeight headerArea - 10\<rparr> CentredLeft])"

definition drawHeader :: "piano_roll \<Rightarrow> rect \<Rightarrow> rect \<Rightarrow> gfx list option" where
  "drawHeader r headerArea gridArea =
     (if \<not> int32 (ppq r * 4) then None else concat_all
       [Some [SetColour kHeaderBg,
              FillRect (getX headerArea) (getY headerArea) (getWidth headerArea) (getHeight headerArea),
              SetFont 10, SetColour kHeaderText],
        for_ticks (startTick r) (endTick r) (ppq r * 4) (header_bar r headerArea gridArea),
        Some [SetFont 8],
        for_ticks (startTick r) (endTick r) (ppq r) (header_beat r headerArea gridArea)])"

definition drawTooltip :: "geometry \<Rightarrow> rect \<Rightarrow> piano_roll \<Rightarrow> gfx list option" where
  "drawTooltip G bounds r =
     (if \<not> showTooltip r then Some []
      else map_option (\<lambda>txt.
        let tw = getStringWidth G 12 txt + 16; th = 22;
            box = constrainedWithin G \<lparr>getX = fst (mousePos r) + 15, getY = snd (mousePos r) - 10,
                    getWidth = tw, getHeight = th\<rparr> bounds
        in [SetFont 12, SetColour kTooltipBg, FillRounded box 4, SetColour kTooltipText, DrawText txt box Centred])
        (tooltip_text r))"

definition paint :: "geometry \<Rightarrow> rect \<Rightarrow> piano_roll \<Rightarrow> gfx list option" where
  "paint G bounds r =
     (let (headerArea, keyArea, gridArea) = areas G bounds
      in concat_all
           [Some [FillAll kBgColor],
            drawHeader r headerArea gridArea,
            drawKeyboard G r keyArea,
            drawGrid G r gridArea,
            Some (drawLockRegions r gridArea),
            Some (drawSelection r gridArea),
            if roll_diffMode r then drawDiffNotes G r gridArea else drawNotes G r gridArea,
            drawTooltip G bounds r])"

subsection \<open>When painting returns\<close>

lemma for_ticks_stuck:
  assumes "for_ticks tick last_tick step body = Some ys"
  shows "step \<le> 0 \<longrightarrow> last_tick < tick"
proof (rule for_ticks.raw_induct [OF _ assms])
  fix rec and tick last_tick step :: int and body :: "int \<Rightarrow> 'a list option" and y
  assume IH: "\<And>tick last_tick step body y. rec tick last_tick step body = Some y \<Longrightarrow>
      step \<le> 0 \<longrightarrow> last_tick < tick"
    and eq: "(if tick \<le> last_tick
        then Option.bind (body tick) (\<lambda>xs. if int32 (tick + step)
          then Option.bind (rec (tick + step) last_tick step body) (\<lambda>ys. Some (xs @ ys)) else None)
        else Some []) = Some y"
  show "step \<le> 0 \<longrightarrow> last_tick < tick"
    using eq IH [of "tick + step" last_tick step body] by (auto simp: bind_eq_Some_conv split: if_splits)
qed

lemma for_ticks_returns:
  "0 < step \<Longrightarrow> - (2 ^ 31) \<le> tick \<Longrightarrow> last_tick + step < 2 ^ 31 \<Longrightarrow>
    (\<And>t. tick \<le> t \<Longrightarrow> t \<le> last_tick \<Longrightarrow> body t \<noteq> None) \<Longrightarrow> for_ticks tick last_tick step body \<noteq> None"
proof (induction "nat (last_tick + 1 - tick)" arbitrary: tick rule: less_induct)
  case less
  show ?case
  proof (cases "tick \<le> last_tick")
    case True
    have "for_ticks (tick + step) last_tick step body \<noteq> None"
      using True less.prems by (intro less.hyps) auto
    moreover have "int32 (tick + step)" using True less.prems(1-3) by (simp add: int32_def)
    ultimately show ?thesis using True less.prems(4) [of tick] by (subst for_ticks.simps) auto
  qed (simp add: for_ticks.simps)
qed

lemma those_None: "those xs = None \<longleftrightarrow> None \<in> set xs"
  by (induction xs) (auto split: option.splits)

lemma concat_all_None: "concat_all xs = None \<longleftrightarrow> None \<in> set xs"
  by (simp add: concat_all_def those_None)

lemma map_returns: "(\<And>x. x \<in> set xs \<Longrightarrow> f x \<noteq> None) \<Longrightarrow> None \<notin> f ` set xs"
  by force

lemma draw_key_returns: "draw_key G r area n \<noteq> None"
  by (auto simp: draw_key_def Let_def isCNote_def noteName_def)

lemma drawKeyboard_returns: "drawKeyboard G r area \<noteq> None"
  using map_returns [of "[lowNote r..highNote r]" "draw_key G r area"] draw_key_returns [of G r area]
  by (simp add: drawKeyboard_def concat_all_None del: not_None_eq)

lemma tooltip_returns: "drawTooltip G bounds r \<noteq> None"
proof -
  have "noteName n \<noteq> None" if "0 \<le> n" for n
    using that by (simp add: noteName_def smod_nonneg_eq Let_def)
  then show ?thesis
    by (auto simp: drawTooltip_def tooltip_text_def find_Some_iff not_less split: option.split)
qed

lemma track_colour_returns: "0 \<le> ch \<Longrightarrow> track_colour ch \<noteq> None"
  by (simp add: track_colour_def smod_nonneg_eq Let_def)

lemma draw_note_returns: "0 \<le> prn_channel n \<Longrightarrow> draw_note G r area n \<noteq> None"
  using track_colour_returns [of "prn_channel n"] by (simp add: draw_note_def split: prod.split)

lemma drawNotes_returns: "\<forall>n \<in> set (roll_notes r). 0 \<le> prn_channel n \<Longrightarrow> drawNotes G r area \<noteq> None"
  using map_returns [of "filter (note_shown r) (roll_notes r)" "draw_note G r area"] draw_note_returns
  by (simp add: drawNotes_def concat_all_None del: not_None_eq)

lemma drawDiffNotes_returns: "\<forall>n \<in> set (afterNotes r). 0 \<le> prn_channel n \<Longrightarrow> drawDiffNotes G r area \<noteq> None"
  using map_returns [of "filter (note_shown r) (afterNotes r)" "draw_note G r area"] draw_note_returns
  by (simp add: drawDiffNotes_def concat_all_None del: not_None_eq)

text \<open>A time range that leaves the counters of all three loops room for a last step.\<close>

definition ticks_ok :: "piano_roll \<Rightarrow> bool" where
  "ticks_ok r \<longleftrightarrow> 0 \<le> startTick r \<and> startTick r \<le> endTick r \<and> endTick r + 4 * ppq r < 2 ^ 31"

lemma ticks_ok_int32: "ticks_ok r \<Longrightarrow> 0 < ppq r \<Longrightarrow> int32 (ppq r * 4)"
  by (simp add: ticks_ok_def int32_def)

lemma drawHeader_returns: "ticks_ok r \<Longrightarrow> 0 < ppq r \<Longrightarrow> drawHeader r h g \<noteq> None"
  using for_ticks_returns [of "ppq r * 4" "startTick r" "endTick r" "header_bar r h g"]
    for_ticks_returns [of "ppq r" "startTick r" "endTick r" "header_beat r h g"] ticks_ok_int32 [of r]
  by (auto simp: drawHeader_def concat_all_None eq_commute [of None] header_bar_def header_beat_def Let_def
      ticks_ok_def)

lemma drawGrid_returns_iff:
  assumes "ticks_ok r" and "0 < ppq r"
  shows "drawGrid G r area \<noteq> None \<longleftrightarrow> 4 \<le> ppq r"
proof -
  have q: "ppq r sdiv 4 = ppq r div 4" "ppq r div 4 \<le> ppq r" using assms(2) by (simp_all add: sdiv_nonneg_eq)
  have "for_ticks (startTick r) (endTick r) (ppq r sdiv 4) (grid_line G r area) \<noteq> None \<longleftrightarrow> 0 < ppq r sdiv 4"
    using for_ticks_stuck [of "startTick r" "endTick r" "ppq r sdiv 4" "grid_line G r area"] assms q
      for_ticks_returns [of "ppq r sdiv 4" "startTick r" "endTick r" "grid_line G r area"]
    by (force simp: grid_line_def Let_def ticks_ok_def)
  moreover have "0 < ppq r sdiv 4 \<longleftrightarrow> 4 \<le> ppq r"
    using assms(2) by (simp add: sdiv_nonneg_eq pos_imp_zdiv_pos_iff)
  ultimately show ?thesis
    using ticks_ok_int32 [OF assms] by (auto simp: drawGrid_def Let_def concat_all_None eq_commute [of None])
qed

lemma drawHeader_stuck: "startTick r \<le> endTick r \<Longrightarrow> ppq r \<le> 0 \<Longrightarrow> drawHeader r h g = None"
  using for_ticks_stuck [of "startTick r" "endTick r" "ppq r" "header_beat r h g"]
  by (force simp: drawHeader_def concat_all_None)



text \<open>Without the room the counter overflows: a last tick of \<open>2 ^ 31 - 1\<close> is undefined at any resolution.\<close>

lemma last_tick_overflows:
  assumes "startTick r = 2 ^ 31 - 1" and "endTick r = 2 ^ 31 - 1" and "4 \<le> ppq r"
  shows "drawGrid G r area = None"
proof -
  have "0 < ppq r sdiv 4" using assms(3) by (simp add: sdiv_nonneg_eq pos_imp_zdiv_pos_iff)
  then have "\<not> int32 (startTick r + ppq r sdiv 4)" by (simp add: assms(1) int32_def)
  then have "for_ticks (startTick r) (endTick r) (ppq r sdiv 4) (grid_line G r area) = None"
    by (subst for_ticks.simps) (simp add: assms(1,2) split: Option.bind_split)
  then show ?thesis by (simp add: drawGrid_def Let_def concat_all_None)
qed

subsection \<open>Where notes and selections are drawn\<close>

lemma those_Some_mem: "those xs = Some ys \<Longrightarrow> Some y \<in> set xs \<Longrightarrow> y \<in> set ys"
  by (induction xs arbitrary: ys) (auto split: option.splits)

lemma concat_all_mem: "concat_all xs = Some ys \<Longrightarrow> Some y \<in> set xs \<Longrightarrow> z \<in> set y \<Longrightarrow> z \<in> set ys"
  unfolding concat_all_def by (auto dest!: those_Some_mem)

text \<open>
  C33. A note whose times and pitch lie in the ranges is filled in its row of 12 pixels, the rows counted from the
  bottom of the area, where hit testing one pixel below the row's top gives the note back. Across, the
  fill starts inside the area and ends inside it, unless it is the two pixels that even the shortest note
  is wide: these may cross the right edge. The row lies below the top of the area when the rows up to
  it fit into its height; otherwise the note is painted above the area (\<open>default_roll_clipped\<close>).
\<close>

theorem note_painted_in_place:
  assumes "geometry_ok G" and "drawNotes G r area = Some calls" and "n \<in> set (roll_notes r)"
    and "lowNote r \<le> prn_note n" and "prn_note n \<le> highNote r"
    and "startTick r \<le> prn_tickOn n" and "prn_tickOn n < prn_tickOff n" and "prn_tickOff n \<le> endTick r"
    and "0 \<le> getWidth area" and "getWidth area < 2 ^ 31"
  shows "\<exists>x y w. FillRect x y w 12 \<in> set calls \<and>
    y = getY area + getHeight area - 12 * (prn_note n - lowNote r + 1) \<and>
    yToNote G r (y + 1) area = Some (prn_note n) \<and>
    getX area \<le> x \<and> x \<le> getX area + getWidth area \<and> 2 \<le> w \<and>
    (x + w \<le> getX area + getWidth area \<or> w = 2) \<and>
    (12 * (prn_note n - lowNote r + 1) \<le> getHeight area \<longrightarrow>
       getY area \<le> y \<and> y + 12 \<le> getY area + getHeight area)"
proof -
  obtain x y w where rect: "note_rect G r area n = (x, y, w)" by (cases "note_rect G r area n")
  have "note_shown r n" using assms(4-8) by (simp add: note_shown_def)
  then have mem: "draw_note G r area n \<in> set (map (draw_note G r area) (filter (note_shown r) (roll_notes r)))"
    using assms(3) by simp
  moreover have "None \<notin> set (map (draw_note G r area) (filter (note_shown r) (roll_notes r)))"
    using assms(2) concat_all_None [of "map (draw_note G r area) (filter (note_shown r) (roll_notes r))"]
    unfolding drawNotes_def by simp
  ultimately have "draw_note G r area n \<noteq> None" by metis
  then obtain ops where ops: "draw_note G r area n = Some ops" by blast
  then have "FillRect x y w kWhiteKeyHeight \<in> set ops" by (auto simp: draw_note_def rect)
  then have fill: "FillRect x y w kWhiteKeyHeight \<in> set calls"
    using concat_all_mem assms(2) mem ops unfolding drawNotes_def by metis
  have xe: "x = tickToX r (prn_tickOn n) area" "w = max 2 (tickToX r (prn_tickOff n) area - x)"
    and ye: "y = noteToY G r (prn_note n) area"
    using rect by (auto simp: note_rect_def Let_def)
  have "startTick r < endTick r" using assms(6-8) by simp
  note ends = tickToX_ends [OF this assms(9,10)]
  have x: "getX area \<le> x" "x \<le> getX area + getWidth area" "tickToX r (prn_tickOff n) area \<le> getX area + getWidth area"
    using tickToX_mono [OF assms(6,9), of r] tickToX_mono [OF assms(8,9), of r]
      tickToX_mono [OF _ assms(9), of "prn_tickOn n" "endTick r" r] assms(7,8)
    by (simp_all add: xe(1) ends)
  have y: "y = getY area + getHeight area - 12 * (prn_note n - lowNote r + 1)"
    by (simp add: ye noteToY_def geometry_bottom [OF assms(1)] kWhiteKeyHeight_def)
  have "\<exists>m. yToNote G r (y + 1) area = Some m \<and> m = prn_note n"
  proof -
    have "(getY area + getHeight area - (y + 1)) sdiv 12 = prn_note n - lowNote r"
      using assms(4) by (simp add: ye noteToY_def geometry_bottom [OF assms(1)] kWhiteKeyHeight_def sdiv_nonneg_eq)
    then show ?thesis using assms(4,5) by (simp add: yToNote_eq [OF assms(1)])
  qed
  then show ?thesis
    using fill x y assms(4) by (intro exI [of _ x] exI [of _ y] exI [of _ w]) (auto simp: xe(2) kWhiteKeyHeight_def)
qed

theorem note_painted_in_place_witness:
  "\<exists>calls x y w. drawNotes std_geometry (setNotes two_notes PianoRollComponent)
     \<lparr>getX = 50, getY = 20, getWidth = 640, getHeight = 700\<rparr> = Some calls \<and> FillRect x y w 12 \<in> set calls \<and> 2 \<le> w"
proof -
  let ?a = "\<lparr>getX = 50, getY = 20, getWidth = 640, getHeight = 700\<rparr>"
  let ?r = "setNotes two_notes PianoRollComponent"
  obtain calls where c: "drawNotes std_geometry ?r ?a = Some calls"
    using drawNotes_returns [of ?r std_geometry ?a] by (auto simp: setNotes_def two_notes_def)
  show ?thesis
    using note_painted_in_place [OF std_geometry_ok c, of "hd two_notes"] c
    by (auto simp: setNotes_def two_notes_def PianoRollComponent_def kWhiteKeyHeight_def)
qed

text \<open>
  The editor opens at 640 by 480 pixels and leaves the roll 220 of them, 200 for the grid. The default
  range of 49 notes needs 588: middle C is painted 100 pixels above the grid, outside the component.
\<close>

lemma default_roll_clipped:
  assumes "geometry_ok G" and "getHeight area = 200"
  shows "noteToY G PianoRollComponent 60 area = getY area - 100 \<and>
    (\<forall>n \<in> {52..84}. noteToY G PianoRollComponent n area < getY area)"
  using assms(2) by (auto simp: noteToY_def geometry_bottom [OF assms(1)] kWhiteKeyHeight_def PianoRollComponent_def)

text \<open>A note that starts before the visible range is filled from left of the grid, over the keyboard.\<close>

lemma note_over_keyboard:
  assumes "0 < getWidth area" and "getWidth area < 2 ^ 31"
  shows "tickToX (setTimeRange 1920 3840 480 120 PianoRollComponent) 0 area = getX area - getWidth area"
proof -
  have [simp]: "f64_round (- 1) = - 1" "f64_round (- of_int (getWidth area)) = - of_int (getWidth area)"
    using f64_round_int [of "- 1"] f64_round_int [of "- getWidth area"] assms by simp_all
  show ?thesis
    using f32_trunc_of_int [of "- getWidth area"]
    by (simp add: tickToX_def setTimeRange_def f64_div_def f64_mul_def)
qed

text \<open>A single selected bar is drawn selected, and is no selection.\<close>

lemma single_bar_drawn:
  assumes "startTick r = 0" and "0 < ppq r" and "endTick r = ppq r * 4"
    and "selectedBarStart r = 0" and "selectedBarEnd r = 0"
    and "0 < getWidth area" and "getWidth area < 2 ^ 31"
  shows "\<not> hasSelection r \<and>
    FillRect (getX area) (getY area) (getWidth area) (getHeight area) \<in> set (drawSelection r area)"
  using tickToX_ends [of r area] assms by (simp add: hasSelection_def drawSelection_def Let_def)

end
