(* ===== verification/Value_Tree.thy ===== *)
theory Value_Tree
  imports Prelude Complex_Main "HOL-Library.AList" "HOL-Library.List_Lexorder" "HOL-Library.Char_ord"
begin

text \<open>
  The data of JUCE the plugin keeps its state in: a \<open>var\<close> is an integer, a float or a string, a
  \<open>ValueTree\<close> a type with properties and children, an \<open>XmlElement\<close> a tag with attributes and
  children. What JUCE computes on them is a parameter: the conversions of a \<open>var\<close>, the XML of a
  tree and the trimming of a string, with the documented laws the proofs need in \<open>juce_ok\<close>.
\<close>

datatype var = VInt int | VFloat rat | VString string

datatype value_tree =
  ValueTree (vt_type: string) (vt_props: "string \<Rightarrow> var option") (vt_children: "value_tree list")

datatype xml = Xml (xml_tag: string) (xml_attrs: "string \<Rightarrow> string option") (xml_children: "xml list")

abbreviation new_tree :: "string \<Rightarrow> value_tree" where
  "new_tree ty \<equiv> ValueTree ty Map.empty []"

fun setProperty :: "string \<Rightarrow> var \<Rightarrow> value_tree \<Rightarrow> value_tree" where
  "setProperty k v (ValueTree ty ps cs) = ValueTree ty (ps(k \<mapsto> v)) cs"

record juce =
  to_int :: "var \<Rightarrow> int"
  to_float :: "var \<Rightarrow> rat"
  to_text :: "var \<Rightarrow> string"
  createXml :: "value_tree \<Rightarrow> xml"
  fromXml :: "xml \<Rightarrow> value_tree option"
  trim :: "string \<Rightarrow> string"
  file_order :: "(string \<times> xml option) list \<Rightarrow> (string \<times> xml option) list"

text \<open>
  A value reads back as what it was stored as; the element of a tree is tagged with the tree's
  type; trimming is idempotent and leaves nothing of nothing; a directory is listed completely.
\<close>

definition juce_ok :: "juce \<Rightarrow> bool" where
  "juce_ok J \<longleftrightarrow>
     (\<forall>i. to_int J (VInt i) = i) \<and> (\<forall>x. to_float J (VFloat x) = x) \<and> (\<forall>s. to_text J (VString s) = s) \<and>
     (\<forall>t. xml_tag (createXml J t) = vt_type t) \<and>
     (\<forall>s. trim J (trim J s) = trim J s) \<and> trim J '''' = '''' \<and>
     (\<forall>fs. set (file_order J fs) = set fs)"

lemma juce_simps:
  assumes "juce_ok J"
  shows "to_int J (VInt i) = i" and "to_float J (VFloat x) = x" and "to_text J (VString s) = s"
    and "xml_tag (createXml J t) = vt_type t" and "trim J (trim J s) = trim J s" and "trim J '''' = ''''"
    and "set (file_order J fs) = set fs"
  using assms unfolding juce_ok_def by blast+

text \<open>An instance of the library, for the witnesses.\<close>

definition std_juce :: juce where
  "std_juce =
     \<lparr>to_int = (\<lambda>v. case v of VInt i \<Rightarrow> i | _ \<Rightarrow> 0),
      to_float = (\<lambda>v. case v of VInt i \<Rightarrow> of_int i | VFloat x \<Rightarrow> x | VString s \<Rightarrow> 0),
      to_text = (\<lambda>v. case v of VString s \<Rightarrow> s | VInt i \<Rightarrow> to_string i | VFloat x \<Rightarrow> ''''),
      createXml = (\<lambda>t. Xml (vt_type t) Map.empty []),
      fromXml = (\<lambda>x. Some (ValueTree (xml_tag x) Map.empty [])),
      trim = (\<lambda>s. rev (dropWhile (\<lambda>c. c = CHR '' '') (rev (dropWhile (\<lambda>c. c = CHR '' '') s)))),
      file_order = (\<lambda>fs. fs)\<rparr>"

lemma dropWhile_idem': "dropWhile P (dropWhile P s) = dropWhile P s"
  by (induction s) auto

lemma trim_idem:
  "rev (dropWhile P (rev (dropWhile P (rev (dropWhile P (rev (dropWhile P s))))))) =
   rev (dropWhile P (rev (dropWhile P s)))"
proof -
  have "dropWhile P (rev (dropWhile P (rev (dropWhile P s)))) = rev (dropWhile P (rev (dropWhile P s)))"
  proof (cases "dropWhile P s")
    case (Cons a as)
    then have a: "\<not> P a" by (metis hd_dropWhile list.distinct(1) list.sel(1))
    have "dropWhile P (rev as @ [a]) = dropWhile P (rev as) @ [a]"
      using a by (induction as rule: rev_induct) auto
    with Cons a show ?thesis by simp
  qed (simp del: dropWhile_eq_Nil_conv)
  then show ?thesis by (simp add: dropWhile_idem')
qed

lemma std_juce_ok: "juce_ok std_juce"
  by (simp add: juce_ok_def std_juce_def trim_idem)

end
