(* ===== verification/Preset_Manager.thy ===== *)
theory Preset_Manager
  imports Value_Tree F32
begin

text \<open>
  The presets of the plugin (\<open>PresetManager.cpp\<close>): the map from names to presets, with the preset
  files on disk, and the operations. \<open>std::map\<close> is an association list; its names are listed in
  order. A file is its name and the document it parses to, if any. Whether a write to disk
  succeeds is the parameter \<open>can_write\<close>: the code ignores it. \<open>None\<close> is a null pointer
  dereferenced.
\<close>

record preset =
  ps_name :: string
  ps_category :: string
  ps_tags :: string
  ps_state :: "value_tree option"

record preset_disk =
  dir_exists :: bool
  dir_files :: "(string \<times> xml option) list"

record preset_manager =
  presets :: "(string \<times> preset) list"
  disk :: preset_disk

definition makeState :: "int \<Rightarrow> rat \<Rightarrow> rat \<Rightarrow> rat \<Rightarrow> int \<Rightarrow> int \<Rightarrow> string \<Rightarrow> string \<Rightarrow> value_tree" where
  "makeState seed density energy complexity bpm bars key sc =
     setProperty ''scale'' (VString sc) (setProperty ''key'' (VString key)
       (setProperty ''bars'' (VInt bars) (setProperty ''bpm'' (VInt bpm)
         (setProperty ''complexity'' (VFloat complexity) (setProperty ''energy'' (VFloat energy)
           (setProperty ''density'' (VFloat density) (setProperty ''seed'' (VInt seed)
             (new_tree ''Parameters''))))))))"

definition factory :: "string \<Rightarrow> string \<Rightarrow> value_tree \<Rightarrow> preset" where
  "factory nm tags st = \<lparr>ps_name = nm, ps_category = ''Factory'', ps_tags = tags, ps_state = Some st\<rparr>"

definition createFactoryPresets :: "preset list" where
  "createFactoryPresets =
     [factory ''Upbeat Pop'' ''pop,upbeat,high-energy''
        (makeState 100 (f32_round (6/10)) (f32_round (9/10)) (f32_round (4/10)) 120 8 ''C'' ''major''),
      factory ''Dark Ambient'' ''ambient,dark,cinematic''
        (makeState 200 (f32_round (3/10)) (f32_round (2/10)) (f32_round (7/10)) 80 16 ''A'' ''minor''),
      factory ''Jazz Ballad'' ''jazz,ballad,smooth''
        (makeState 300 (1/2) (f32_round (4/10)) (f32_round (7/10)) 100 12 ''C'' ''major''),
      factory ''Rock Anthem'' ''rock,anthem,high-energy''
        (makeState 400 (f32_round (8/10)) (f32_round (9/10)) (1/2) 140 8 ''E'' ''minor''),
      factory ''Electronic Groove'' ''electronic,groove,dance''
        (makeState 500 (1/2) (f32_round (6/10)) (f32_round (6/10)) 128 8 ''F'' ''minor'')]"

definition attr :: "xml \<Rightarrow> string \<Rightarrow> string \<Rightarrow> string" where
  "attr x k d = (case xml_attrs x k of None \<Rightarrow> d | Some s \<Rightarrow> s)"

text \<open>One pass of the loop over the directory; \<open>getChildByName\<close> returns null if there is no such child.\<close>

definition load_entry ::
  "juce \<Rightarrow> string \<times> xml option \<Rightarrow> (string \<times> preset) list \<Rightarrow> (string \<times> preset) list option" where
  "load_entry J entry ps =
     (if \<not> suffix ''.preset'' (fst entry) then Some ps
      else case snd entry of
             None \<Rightarrow> Some ps
           | Some x \<Rightarrow>
               (case find (\<lambda>c. xml_tag c = ''state'') (xml_children x) of
                  None \<Rightarrow> None
                | Some c \<Rightarrow>
                    let p = \<lparr>ps_name = attr x ''name'' '''', ps_category = attr x ''category'' ''User'',
                             ps_tags = attr x ''tags'' '''', ps_state = fromXml J c\<rparr>
                    in Some (if ps_name p \<noteq> '''' \<and> ps_state p \<noteq> None then AList.update (ps_name p) p ps else ps)))"

fun load_entries ::
  "juce \<Rightarrow> (string \<times> xml option) list \<Rightarrow> (string \<times> preset) list \<Rightarrow> (string \<times> preset) list option" where
  "load_entries J [] ps = Some ps"
| "load_entries J (e # es) ps =
     (case load_entry J e ps of None \<Rightarrow> None | Some ps' \<Rightarrow> load_entries J es ps')"

definition factory_map :: "(string \<times> preset) list" where
  "factory_map = fold (\<lambda>p m. AList.update (ps_name p) p m) createFactoryPresets []"

definition loadPresets :: "juce \<Rightarrow> preset_disk \<Rightarrow> preset_manager option" where
  "loadPresets J d =
     (if \<not> dir_exists d then Some \<lparr>presets = factory_map, disk = d\<rparr>
      else map_option (\<lambda>ps. \<lparr>presets = ps, disk = d\<rparr>)
             (load_entries J (file_order J (dir_files d)) factory_map))"

definition PresetManager :: "juce \<Rightarrow> preset_disk \<Rightarrow> preset_manager option" where
  "PresetManager J d = loadPresets J d"

definition preset_xml :: "juce \<Rightarrow> preset \<Rightarrow> xml" where
  "preset_xml J p =
     Xml ''preset'' [''name'' \<mapsto> ps_name p, ''category'' \<mapsto> ps_category p, ''tags'' \<mapsto> ps_tags p]
       (case ps_state p of None \<Rightarrow> [] | Some st \<Rightarrow> [createXml J st])"

definition file_of :: "string \<Rightarrow> string" where
  "file_of nm = nm @ ''.preset''"

definition savePreset :: "juce \<Rightarrow> (string \<Rightarrow> bool) \<Rightarrow> preset \<Rightarrow> preset_manager \<Rightarrow> preset_manager" where
  "savePreset J can_write p m =
     (let d1 = (disk m)\<lparr>dir_exists := True\<rparr>;
          d2 = (if can_write (file_of (ps_name p))
                then d1\<lparr>dir_files := AList.update (file_of (ps_name p)) (Some (preset_xml J p)) (dir_files d1)\<rparr>
                else d1)
      in m\<lparr>disk := d2, presets := AList.update (ps_name p) p (presets m)\<rparr>)"

definition deletePreset :: "(string \<Rightarrow> bool) \<Rightarrow> string \<Rightarrow> preset_manager \<Rightarrow> preset_manager" where
  "deletePreset can_write nm m =
     (case map_of (presets m) nm of
        None \<Rightarrow> m
      | Some p \<Rightarrow>
          if ps_category p \<noteq> ''User'' then m
          else m\<lparr>disk := (if can_write (file_of nm)
                   then (disk m)\<lparr>dir_files := AList.delete (file_of nm) (dir_files (disk m))\<rparr> else disk m),
                 presets := AList.delete nm (presets m)\<rparr>)"

definition getPresetNames :: "preset_manager \<Rightarrow> string list" where
  "getPresetNames m = sort (map fst (presets m))"

definition getPresetNamesByCategory :: "string \<Rightarrow> preset_manager \<Rightarrow> string list" where
  "getPresetNamesByCategory cat m = sort (map fst (filter (\<lambda>(k, p). ps_category p = cat) (presets m)))"

definition getPresetNamesByTag :: "string \<Rightarrow> preset_manager \<Rightarrow> string list" where
  "getPresetNamesByTag tag m = sort (map fst (filter (\<lambda>(k, p). contains (ps_tags p) tag) (presets m)))"

definition default_preset :: preset where
  "default_preset = \<lparr>ps_name = '''', ps_category = '''', ps_tags = '''', ps_state = None\<rparr>"

definition getPreset :: "string \<Rightarrow> preset_manager \<Rightarrow> preset" where
  "getPreset nm m = (case map_of (presets m) nm of Some p \<Rightarrow> p | None \<Rightarrow> default_preset)"

definition hasPreset :: "string \<Rightarrow> preset_manager \<Rightarrow> bool" where
  "hasPreset nm m \<longleftrightarrow> map_of (presets m) nm \<noteq> None"

subsection \<open>A saved preset breaks the next start\<close>

lemma load_entries_null:
  assumes "e \<in> set es" and "\<And>ps. load_entry J e ps = None"
  shows "load_entries J es ps = None"
  using assms by (induction es arbitrary: ps) (auto split: option.split)

text \<open>
  The loader looks for an element \<open>state\<close>, and the element that is written carries the type's
  name: a file of a preset whose state has another type is a null pointer dereferenced.
\<close>

lemma saved_file_null:
  assumes "juce_ok J" and "ps_state p = Some st" and "vt_type st \<noteq> ''state''"
    and "dir_exists d" and "map_of (dir_files d) (file_of nm) = Some (Some (preset_xml J p))"
  shows "PresetManager J d = None"
proof -
  have mem: "(file_of nm, Some (preset_xml J p)) \<in> set (file_order J (dir_files d))"
    using assms(5) by (simp add: juce_simps(7) [OF assms(1)] map_of_SomeD)
  have "load_entry J (file_of nm, Some (preset_xml J p)) ps = None" for ps
    using assms(2,3) by (simp add: load_entry_def file_of_def preset_xml_def suffix_def juce_simps(4) [OF assms(1)])
  with load_entries_null [OF mem] assms(4) show ?thesis by (simp add: PresetManager_def loadPresets_def)
qed

subsection \<open>The map and the disk\<close>

text \<open>
  What the operations keep: names are the keys; and, as long as writing works, each user preset
  has its file and each preset file the user preset it was written for.
\<close>

definition user_file :: "juce \<Rightarrow> (string \<times> preset) list \<Rightarrow> string \<Rightarrow> xml option option" where
  "user_file J ps nm = (case map_of ps nm of None \<Rightarrow> None
     | Some p \<Rightarrow> if ps_category p = ''User'' then Some (Some (preset_xml J p)) else None)"

definition manager_inv :: "juce \<Rightarrow> preset_manager \<Rightarrow> bool" where
  "manager_inv J m \<longleftrightarrow> distinct (map fst (presets m)) \<and>
     (\<forall>k p. map_of (presets m) k = Some p \<longrightarrow> ps_name p = k) \<and>
     (\<forall>nm. map_of (dir_files (disk m)) (file_of nm) = user_file J (presets m) nm) \<and>
     (\<forall>f. f \<notin> range file_of \<longrightarrow> map_of (dir_files (disk m)) f = None)"

lemma file_of_inj: "file_of a = file_of b \<longleftrightarrow> a = b"
  by (simp add: file_of_def)

lemma map_of_delete: "map_of (AList.delete k xs) = (map_of xs)(k := None)"
  by (rule delete_conv')

lemma manager_invD:
  "manager_inv J m \<Longrightarrow> map_of (presets m) k = Some p \<Longrightarrow> ps_name p = k"
  unfolding manager_inv_def by blast

lemma savePreset_inv:
  assumes "manager_inv J m" and "ps_category p = ''User''"
  shows "manager_inv J (savePreset J (\<lambda>f. True) p m)"
proof -
  have a: "distinct (map fst (AList.update (ps_name p) p (presets m)))"
    using assms(1) by (simp add: manager_inv_def distinct_update)
  have b: "\<forall>k q. map_of (AList.update (ps_name p) p (presets m)) k = Some q \<longrightarrow> ps_name q = k"
    using assms(1) by (auto simp: manager_inv_def update_conv')
  have c: "map_of (AList.update (file_of (ps_name p)) (Some (preset_xml J p)) (dir_files (disk m))) (file_of nm) =
      user_file J (AList.update (ps_name p) p (presets m)) nm" for nm
    using assms by (cases "nm = ps_name p") (simp_all add: update_conv' user_file_def manager_inv_def file_of_inj)
  have d: "f \<notin> range file_of \<longrightarrow>
      map_of (AList.update (file_of (ps_name p)) (Some (preset_xml J p)) (dir_files (disk m))) f = None" for f
  proof
    assume f: "f \<notin> range file_of"
    then have "map_of (dir_files (disk m)) f = None" and "f \<noteq> file_of (ps_name p)"
      using assms(1) unfolding manager_inv_def by blast+
    then show "map_of (AList.update (file_of (ps_name p)) (Some (preset_xml J p)) (dir_files (disk m))) f = None"
      by (simp add: update_conv')
  qed
  have eqs: "presets (savePreset J (\<lambda>f. True) p m) = AList.update (ps_name p) p (presets m)"
    "dir_files (disk (savePreset J (\<lambda>f. True) p m)) =
      AList.update (file_of (ps_name p)) (Some (preset_xml J p)) (dir_files (disk m))"
    by (simp_all add: savePreset_def Let_def)
  show ?thesis unfolding manager_inv_def eqs by (intro conjI a b allI c d)
qed

lemma deletePreset_inv:
  assumes "manager_inv J m"
  shows "manager_inv J (deletePreset (\<lambda>f. True) nm m)"
proof (cases "\<exists>p. map_of (presets m) nm = Some p \<and> ps_category p = ''User''")
  case True
  then obtain p where p: "map_of (presets m) nm = Some p" "ps_category p = ''User''" by blast
  have a: "distinct (map fst (AList.delete nm (presets m)))"
    using assms by (simp add: manager_inv_def distinct_delete del: distinct_map)
  have b: "\<forall>k q. map_of (AList.delete nm (presets m)) k = Some q \<longrightarrow> ps_name q = k"
    using assms by (auto simp: manager_inv_def map_of_delete split: if_splits)
  have c: "map_of (AList.delete (file_of nm) (dir_files (disk m))) (file_of k) =
      user_file J (AList.delete nm (presets m)) k" for k
    using assms by (cases "k = nm") (simp_all add: map_of_delete user_file_def manager_inv_def file_of_inj)
  have d: "f \<notin> range file_of \<longrightarrow> map_of (AList.delete (file_of nm) (dir_files (disk m))) f = None" for f
    using assms by (auto simp: map_of_delete manager_inv_def)
  have eqs: "presets (deletePreset (\<lambda>f. True) nm m) = AList.delete nm (presets m)"
    "dir_files (disk (deletePreset (\<lambda>f. True) nm m)) = AList.delete (file_of nm) (dir_files (disk m))"
    using p by (simp_all add: deletePreset_def)
  show ?thesis unfolding manager_inv_def eqs by (intro conjI a b allI c d)
next
  case False
  then have "deletePreset (\<lambda>f. True) nm m = m" by (auto simp: deletePreset_def split: option.split)
  with assms show ?thesis by simp
qed

text \<open>
  The presets as the editor drives them: a new manager over an empty directory, user presets
  saved under a numbered name, presets deleted; writing always works.
\<close>

definition user_preset_name :: "preset_manager \<Rightarrow> string" where
  "user_preset_name m = ''User Preset '' @ to_string (int (length (getPresetNamesByCategory ''User'' m)) + 1)"

inductive preset_session :: "juce \<Rightarrow> preset_manager \<Rightarrow> bool" for J where
  opened: "PresetManager J \<lparr>dir_exists = b, dir_files = []\<rparr> = Some m \<Longrightarrow> preset_session J m"
| saved: "preset_session J m \<Longrightarrow> ps_category p = ''User'' \<Longrightarrow> ps_name p = user_preset_name m \<Longrightarrow>
    ps_state p = Some st \<Longrightarrow> vt_type st = ''Parameters'' \<Longrightarrow> preset_session J (savePreset J (\<lambda>f. True) p m)"
| deleted: "preset_session J m \<Longrightarrow> preset_session J (deletePreset (\<lambda>f. True) nm m)"

definition session_inv :: "juce \<Rightarrow> preset_manager \<Rightarrow> bool" where
  "session_inv J m \<longleftrightarrow> manager_inv J m \<and>
     (\<forall>p \<in> set createFactoryPresets. map_of (presets m) (ps_name p) = Some p) \<and>
     (\<forall>k p. map_of (presets m) k = Some p \<longrightarrow> p \<in> set createFactoryPresets \<or>
        ps_category p = ''User'' \<and> (\<exists>st. ps_state p = Some st \<and> vt_type st = ''Parameters''))"

lemma factory_map_names: "map fst factory_map = map ps_name createFactoryPresets"
  "\<forall>(k, p) \<in> set factory_map. p \<in> set createFactoryPresets \<and> ps_name p = k \<and> ps_category p = ''Factory''"
  "\<forall>p \<in> set createFactoryPresets. (ps_name p, p) \<in> set factory_map"
  by (simp_all add: factory_map_def createFactoryPresets_def factory_def)

lemma factory_names_distinct: "distinct (map fst factory_map)"
  unfolding factory_map_names(1) by (simp add: createFactoryPresets_def factory_def)

lemma factory_map_of: "map_of factory_map k = Some p \<longleftrightarrow> p \<in> set createFactoryPresets \<and> ps_name p = k"
  using factory_map_names(2,3) factory_names_distinct by (auto simp: map_of_eq_Some_iff)

lemma factory_category: "p \<in> set createFactoryPresets \<Longrightarrow> ps_category p = ''Factory''"
  using factory_map_names(2,3) by blast

lemma factory_names_short: "p \<in> set createFactoryPresets \<Longrightarrow> take 5 (ps_name p) \<noteq> ''User ''"
  by (auto simp: createFactoryPresets_def factory_def)

lemma fresh_session_inv: "file_order J [] = [] \<Longrightarrow> PresetManager J \<lparr>dir_exists = b, dir_files = []\<rparr> = Some m \<Longrightarrow> session_inv J m"
  by (auto simp: PresetManager_def loadPresets_def session_inv_def manager_inv_def factory_names_distinct
      factory_map_of user_file_def factory_category split: if_splits option.split)

lemma session_invD:
  assumes "session_inv J m"
  shows "manager_inv J m"
    and "p \<in> set createFactoryPresets \<Longrightarrow> map_of (presets m) (ps_name p) = Some p"
    and "map_of (presets m) k = Some p \<Longrightarrow> p \<in> set createFactoryPresets \<or>
      ps_category p = ''User'' \<and> (\<exists>st. ps_state p = Some st \<and> vt_type st = ''Parameters'')"
  using assms unfolding session_inv_def by blast+

lemma user_preset_name_not_factory: "p \<in> set createFactoryPresets \<Longrightarrow> ps_name p \<noteq> user_preset_name m"
  using factory_names_short [of p] by (auto simp: user_preset_name_def)

lemma save_session_inv:
  assumes "session_inv J m" and "ps_category p = ''User''" and "ps_name p = user_preset_name m"
    and "ps_state p = Some st" and "vt_type st = ''Parameters''"
  shows "session_inv J (savePreset J (\<lambda>f. True) p m)"
proof -
  have ps: "presets (savePreset J (\<lambda>f. True) p m) = AList.update (ps_name p) p (presets m)"
    by (simp add: savePreset_def Let_def)
  have "map_of (AList.update (ps_name p) p (presets m)) (ps_name q) = Some q"
    if q: "q \<in> set createFactoryPresets" for q
    using session_invD(2) [OF assms(1) q] user_preset_name_not_factory [OF q, of m] assms(3)
    by (simp add: update_conv')
  moreover have "q \<in> set createFactoryPresets \<or>
      ps_category q = ''User'' \<and> (\<exists>st. ps_state q = Some st \<and> vt_type st = ''Parameters'')"
    if "map_of (AList.update (ps_name p) p (presets m)) k = Some q" for k q
    using that session_invD(3) [OF assms(1), of k q] assms(2,4,5)
    by (cases "k = ps_name p") (auto simp: update_conv')
  ultimately show ?thesis
    unfolding session_inv_def ps using savePreset_inv [OF session_invD(1) [OF assms(1)] assms(2)] by blast
qed

lemma delete_session_inv:
  assumes "session_inv J m"
  shows "session_inv J (deletePreset (\<lambda>f. True) nm m)"
proof (cases "\<exists>p. map_of (presets m) nm = Some p \<and> ps_category p = ''User''")
  case True
  then obtain p where p: "map_of (presets m) nm = Some p" "ps_category p = ''User''" by blast
  then have ps: "presets (deletePreset (\<lambda>f. True) nm m) = AList.delete nm (presets m)"
    by (simp add: deletePreset_def)
  have "map_of (AList.delete nm (presets m)) (ps_name q) = Some q" if q: "q \<in> set createFactoryPresets" for q
  proof -
    have "map_of (presets m) (ps_name q) = Some q" by (rule session_invD(2) [OF assms q])
    moreover from this have "ps_name q \<noteq> nm" using p factory_category [OF q] by auto
    ultimately show ?thesis by (simp add: map_of_delete)
  qed
  moreover have "q \<in> set createFactoryPresets \<or>
      ps_category q = ''User'' \<and> (\<exists>st. ps_state q = Some st \<and> vt_type st = ''Parameters'')"
    if "map_of (AList.delete nm (presets m)) k = Some q" for k q
    using that session_invD(3) [OF assms, of k q] by (auto simp: map_of_delete split: if_splits)
  ultimately show ?thesis
    unfolding session_inv_def ps using deletePreset_inv [OF session_invD(1) [OF assms]] by blast
next
  case False
  then have "deletePreset (\<lambda>f. True) nm m = m" by (auto simp: deletePreset_def split: option.split)
  with assms show ?thesis by simp
qed

lemma preset_session_inv:
  assumes "juce_ok J"
  shows "preset_session J m \<Longrightarrow> session_inv J m"
proof (induction rule: preset_session.induct)
  case (opened b m)
  moreover have "file_order J [] = []" using juce_simps(7) [OF assms, of "[]"] by simp
  ultimately show ?case by (blast intro: fresh_session_inv)
qed (blast intro: save_session_inv delete_session_inv)+

lemma session_dir_exists: "preset_session J m \<Longrightarrow> map_of (presets m) nm = Some p \<Longrightarrow> ps_category p = ''User'' \<Longrightarrow>
    file_order J [] = [] \<Longrightarrow> dir_exists (disk m)"
proof (induction arbitrary: nm p rule: preset_session.induct)
  case (opened b m)
  then show ?case
    using factory_category by (auto simp: PresetManager_def loadPresets_def factory_map_of split: if_splits)
next
  case (deleted m nm')
  then show ?case by (auto simp: deletePreset_def map_of_delete split: option.splits if_splits)
qed (simp add: savePreset_def Let_def)

lemma user_names_empty:
  assumes "distinct (map fst (presets m))"
  shows "getPresetNamesByCategory ''User'' m \<noteq> [] \<longleftrightarrow> (\<exists>nm p. map_of (presets m) nm = Some p \<and> ps_category p = ''User'')"
proof -
  have "getPresetNamesByCategory ''User'' m \<noteq> [] \<longleftrightarrow>
      mset (map fst (filter (\<lambda>(k, p). ps_category p = ''User'') (presets m))) \<noteq> {#}"
    unfolding getPresetNamesByCategory_def by (metis mset_sort mset_zero_iff)
  also have "\<dots> \<longleftrightarrow> (\<exists>(k, p) \<in> set (presets m). ps_category p = ''User'')"
    by (auto simp: filter_empty_conv)
  also have "\<dots> \<longleftrightarrow> (\<exists>nm p. map_of (presets m) nm = Some p \<and> ps_category p = ''User'')"
    using assms by (auto simp: map_of_eq_Some_iff)
  finally show ?thesis .
qed

text \<open>
  C9. Presets through any sequence of saves and deletions, as the editor makes them: the five
  factory presets are untouched, and a preset file exists exactly for each user preset, with its
  contents. But the presets can be loaded again, as every new editor does, only if no user preset
  is left: otherwise the constructor dereferences a null pointer.
\<close>

theorem preset_session_correct:
  assumes "juce_ok J" and "preset_session J m"
  shows "(\<forall>p \<in> set createFactoryPresets. getPreset (ps_name p) m = p) \<and>
    (\<forall>nm. map_of (dir_files (disk m)) (file_of nm) =
       (if hasPreset nm m \<and> ps_category (getPreset nm m) = ''User''
        then Some (Some (preset_xml J (getPreset nm m))) else None)) \<and>
    (PresetManager J (disk m) = None \<longleftrightarrow> getPresetNamesByCategory ''User'' m \<noteq> [])"
proof (intro conjI ballI allI)
  note inv = preset_session_inv [OF assms]
  note minv = session_invD(1) [OF inv]
  show "getPreset (ps_name p) m = p" if "p \<in> set createFactoryPresets" for p
    using session_invD(2) [OF inv that] by (simp add: getPreset_def)
  have files: "map_of (dir_files (disk m)) (file_of nm) = user_file J (presets m) nm" for nm
    using minv unfolding manager_inv_def by blast
  then show "map_of (dir_files (disk m)) (file_of nm) =
       (if hasPreset nm m \<and> ps_category (getPreset nm m) = ''User''
        then Some (Some (preset_xml J (getPreset nm m))) else None)" for nm
    by (simp add: user_file_def hasPreset_def getPreset_def split: option.split)
  have empty: "file_order J [] = []" using juce_simps(7) [OF assms(1), of "[]"] by simp
  have user: "getPresetNamesByCategory ''User'' m \<noteq> [] \<longleftrightarrow>
      (\<exists>nm p. map_of (presets m) nm = Some p \<and> ps_category p = ''User'')"
    using minv unfolding manager_inv_def by (intro user_names_empty) blast
  show "PresetManager J (disk m) = None \<longleftrightarrow> getPresetNamesByCategory ''User'' m \<noteq> []"
  proof (cases "getPresetNamesByCategory ''User'' m \<noteq> []")
    case True
    then obtain nm p where p: "map_of (presets m) nm = Some p" "ps_category p = ''User''" using user by blast
    then obtain st where "ps_state p = Some st" "vt_type st = ''Parameters''"
      using session_invD(3) [OF inv p(1)] factory_category [of p] by auto
    moreover have "dir_exists (disk m)" by (rule session_dir_exists [OF assms(2) p empty])
    moreover have "map_of (dir_files (disk m)) (file_of nm) = Some (Some (preset_xml J p))"
      using files [of nm] p by (simp add: user_file_def)
    ultimately show ?thesis using True saved_file_null [OF assms(1)] by simp
  next
    case False
    then have none: "user_file J (presets m) nm = None" for nm
      using user by (auto simp: user_file_def split: option.split)
    have "map_of (dir_files (disk m)) f = None" for f
    proof (cases "f \<in> range file_of")
      case True
      then show ?thesis using files none by auto
    next
      case False
      then show ?thesis using minv unfolding manager_inv_def by blast
    qed
    then have "dir_files (disk m) = []" by (metis map_of_eq_None_iff ex_in_conv set_empty image_is_empty)
    with False empty show ?thesis by (simp add: PresetManager_def loadPresets_def)
  qed
qed

definition user_preset :: "string \<Rightarrow> int \<Rightarrow> preset" where
  "user_preset nm seed = \<lparr>ps_name = nm, ps_category = ''User'', ps_tags = ''user'',
     ps_state = Some (setProperty ''seed'' (VInt seed) (new_tree ''Parameters''))\<rparr>"

definition fresh_manager :: preset_manager where
  "fresh_manager = \<lparr>presets = factory_map, disk = \<lparr>dir_exists = False, dir_files = []\<rparr>\<rparr>"

lemma fresh_session: "preset_session J fresh_manager"
  by (rule preset_session.opened [where b = False])
    (simp add: PresetManager_def loadPresets_def fresh_manager_def)

theorem preset_session_correct_witness:
  "PresetManager std_juce (disk (savePreset std_juce (\<lambda>f. True)
     (user_preset (user_preset_name fresh_manager) 7) fresh_manager)) = None"
proof -
  let ?p = "user_preset (user_preset_name fresh_manager) 7"
  let ?m = "savePreset std_juce (\<lambda>f. True) ?p fresh_manager"
  have s: "preset_session std_juce ?m"
    by (rule preset_session.saved [OF fresh_session,
          where st = "setProperty ''seed'' (VInt 7) (new_tree ''Parameters'')"]) (simp_all add: user_preset_def)
  have "distinct (map fst (presets ?m))"
    using session_invD(1) [OF preset_session_inv [OF std_juce_ok s]] unfolding manager_inv_def by blast
  moreover have "map_of (presets ?m) (ps_name ?p) = Some ?p" by (simp add: savePreset_def Let_def update_conv')
  moreover have "ps_category ?p = ''User''" by (simp add: user_preset_def)
  ultimately have "getPresetNamesByCategory ''User'' ?m \<noteq> []" using user_names_empty [of ?m] by blast
  with preset_session_correct [OF std_juce_ok s] show ?thesis by blast
qed

text \<open>
  The name given to a new preset counts the user presets: after one but the last was deleted, it
  is the name of the last, which the new preset replaces, in memory and on disk.
\<close>

definition three_saves :: "preset_manager \<times> preset_manager \<times> preset_manager" where
  "three_saves =
     (let m1 = savePreset std_juce (\<lambda>f. True) (user_preset (user_preset_name fresh_manager) 1) fresh_manager;
          m2 = savePreset std_juce (\<lambda>f. True) (user_preset (user_preset_name m1) 2) m1;
          m3 = deletePreset (\<lambda>f. True) ''User Preset 1'' m2;
          m4 = savePreset std_juce (\<lambda>f. True) (user_preset (user_preset_name m3) 3) m3
      in (m2, m3, m4))"

definition preset_seed :: "string \<Rightarrow> preset_manager \<Rightarrow> var option" where
  "preset_seed nm m = (case ps_state (getPreset nm m) of None \<Rightarrow> None | Some st \<Rightarrow> vt_props st ''seed'')"

lemma saving_replaces_a_preset:
  "let (m2, m3, m4) = three_saves
   in getPresetNamesByCategory ''User'' m2 = [''User Preset 1'', ''User Preset 2''] \<and>
      preset_seed ''User Preset 2'' m3 = Some (VInt 2) \<and>
      getPresetNamesByCategory ''User'' m4 = [''User Preset 2''] \<and>
      preset_seed ''User Preset 2'' m4 = Some (VInt 3)"
  by code_simp

end
