(* ===== verification/Plugin_State.thy ===== *)
theory Plugin_State
  imports Plugin_Processor Value_Tree
begin

text \<open>
  The state the processor keeps besides its ring (\<open>PluginProcessor.cpp\<close>): the parameters of the
  value-tree state, the tree of the editor's state, and what the host saves and restores. A JUCE
  \<open>ValueTree\<close> is a reference to a shared node, and here the sharing matters: after the host
  restored a state, \<open>state_\<close> refers to a child of the parameters' own tree. So the nodes live in a
  store, and \<open>apvts_children\<close>, \<open>proc_state\<close> and the editor's handle are addresses in it.

  Parameters of the model: how JUCE writes the parameters as children of the tree and reads them
  back, and how a tree becomes the data the host keeps (of the type \<open>'b\<close>) and comes back from it.
\<close>

record plugin_params =
  par_seed :: rat
  par_density :: rat
  par_energy :: rat
  par_complexity :: rat
  par_bpm :: rat
  par_bars :: rat

record processor =
  midi_out_fifo :: fifo
  apvts_params :: plugin_params
  heap :: "nat \<Rightarrow> value_tree"
  next_addr :: nat
  apvts_children :: "nat list"
  proc_state :: nat

record 'b state_io =
  params_tree :: "plugin_params \<Rightarrow> value_tree list"
  read_params :: "value_tree list \<Rightarrow> plugin_params \<Rightarrow> plugin_params"
  encode_tree :: "value_tree \<Rightarrow> 'b"
  decode_tree :: "'b \<Rightarrow> value_tree option"
  norm_var :: "var \<Rightarrow> var"

definition default_params :: plugin_params where
  "default_params = \<lparr>par_seed = 42, par_density = 1/2, par_energy = 1/2, par_complexity = 1/2,
     par_bpm = 120, par_bars = 8\<rparr>"

definition AiMidiComposerProcessor :: processor where
  "AiMidiComposerProcessor =
     \<lparr>midi_out_fifo = MidiFifo 4096, apvts_params = default_params,
      heap = (\<lambda>a. new_tree ''AiMidiComposerState''), next_addr = 1, apvts_children = [], proc_state = 0\<rparr>"

definition getState :: "processor \<Rightarrow> nat" where
  "getState p = proc_state p"

definition setState :: "nat \<Rightarrow> processor \<Rightarrow> processor" where
  "setState a p = p\<lparr>proc_state := a\<rparr>"

text \<open>\<open>copyState\<close> is a deep copy, and \<open>createCopy\<close> copies the editor's tree before it is added.\<close>

definition getStateInformation :: "'b state_io \<Rightarrow> processor \<Rightarrow> 'b" where
  "getStateInformation io p =
     (let state = ValueTree ''Parameters'' Map.empty
            (params_tree io (apvts_params p) @ map (heap p) (apvts_children p));
          editorCopy = heap p (proc_state p)
      in encode_tree io (ValueTree (vt_type state) (vt_props state) (vt_children state @ [editorCopy])))"

definition alloc :: "value_tree list \<Rightarrow> processor \<Rightarrow> nat list \<times> processor" where
  "alloc ts p =
     ([next_addr p..<next_addr p + length ts],
      p\<lparr>heap := (\<lambda>a. if next_addr p \<le> a \<and> a < next_addr p + length ts then ts ! (a - next_addr p) else heap p a),
        next_addr := next_addr p + length ts\<rparr>)"

text \<open>
  \<open>replaceState\<close> makes the new tree the parameters' tree: the parameters are read from its
  \<open>PARAM\<close> children, and the other children stay in it.
\<close>

definition setStateInformation :: "'b state_io \<Rightarrow> 'b \<Rightarrow> processor \<Rightarrow> processor" where
  "setStateInformation io data p =
     (case decode_tree io data of
        None \<Rightarrow> p
      | Some state \<Rightarrow>
          let (addrs, p1) = alloc (filter (\<lambda>c. vt_type c \<noteq> ''PARAM'') (vt_children state)) p;
              p2 = p1\<lparr>apvts_params := read_params io (filter (\<lambda>c. vt_type c = ''PARAM'') (vt_children state)) (apvts_params p),
                      apvts_children := addrs\<rparr>
          in (case find (\<lambda>a. vt_type (heap p2 a) = ''AiMidiComposerState'') addrs of
                None \<Rightarrow> p2
              | Some a \<Rightarrow> p2\<lparr>proc_state := a\<rparr>))"

text \<open>
  XML keeps the shape of a tree and turns its values into text: \<open>vt_norm\<close>. The values read back as
  what they were, the parameters too.
\<close>

fun vt_norm :: "(var \<Rightarrow> var) \<Rightarrow> value_tree \<Rightarrow> value_tree" where
  "vt_norm nv (ValueTree ty ps cs) = ValueTree ty (\<lambda>k. map_option nv (ps k)) (map (vt_norm nv) cs)"

definition state_io_ok :: "juce \<Rightarrow> 'b state_io \<Rightarrow> bool" where
  "state_io_ok J io \<longleftrightarrow>
     (\<forall>t. decode_tree io (encode_tree io t) = Some (vt_norm (norm_var io) t)) \<and>
     (\<forall>q. list_all (\<lambda>c. vt_type c = ''PARAM'') (params_tree io q)) \<and>
     (\<forall>q q'. read_params io (map (vt_norm (norm_var io)) (params_tree io q)) q' = q) \<and>
     (\<forall>v. to_int J (norm_var io v) = to_int J v \<and> to_text J (norm_var io v) = to_text J v)"

lemma vt_type_norm [simp]: "vt_type (vt_norm nv t) = vt_type t"
  by (cases t) simp

lemma vt_children_norm [simp]: "vt_children (vt_norm nv t) = map (vt_norm nv) (vt_children t)"
  by (cases t) simp

subsection \<open>Saving and restoring\<close>

text \<open>
  The editor's tree is one that the parameters' tree does not hold, because nothing was restored
  yet, or its first child.
\<close>

definition state_shared :: "processor \<Rightarrow> bool" where
  "state_shared p \<longleftrightarrow> vt_type (heap p (proc_state p)) = ''AiMidiComposerState'' \<and>
     list_all (\<lambda>a. vt_type (heap p a) = ''AiMidiComposerState'') (apvts_children p) \<and>
     (apvts_children p = [] \<or> hd (apvts_children p) = proc_state p)"

lemma filter_by_type:
  "list_all (\<lambda>c. vt_type c = k) xs \<Longrightarrow> k \<noteq> l \<Longrightarrow> list_all (\<lambda>c. vt_type c = l) ys \<Longrightarrow>
    filter (\<lambda>c. vt_type c \<noteq> k) (xs @ ys) = ys \<and> filter (\<lambda>c. vt_type c = k) (xs @ ys) = xs"
  by (induction xs) (simp_all, induction ys, simp_all)

lemma list_all_norm: "list_all (\<lambda>c. vt_type c = k) (map (vt_norm nv) ts) = list_all (\<lambda>c. vt_type c = k) ts"
  by (induction ts) simp_all

lemma find_first_allocated:
  "ts \<noteq> [] \<Longrightarrow> list_all (\<lambda>c. vt_type c = k) ts \<Longrightarrow>
    find (\<lambda>a. vt_type (if next_addr p \<le> a \<and> a < next_addr p + length ts then ts ! (a - next_addr p) else heap p a) = k)
      [next_addr p..<next_addr p + length ts] = Some (next_addr p)"
  by (cases ts) (simp_all add: upt_rec)

lemma decode_state:
  assumes "state_io_ok J io"
  shows "decode_tree io (getStateInformation io p) =
    Some (ValueTree ''Parameters'' Map.empty
      (map (vt_norm (norm_var io)) (params_tree io (apvts_params p)) @
       map (vt_norm (norm_var io)) (map (heap p) (apvts_children p) @ [heap p (proc_state p)])))"
  using assms by (simp add: state_io_ok_def getStateInformation_def Let_def)

lemma set_get_state:
  assumes ok: "state_io_ok J io" and "list_all (\<lambda>a. vt_type (heap p a) = ''AiMidiComposerState'') (apvts_children p)"
    and "vt_type (heap p (proc_state p)) = ''AiMidiComposerState''"
  shows "setStateInformation io (getStateInformation io p) q =
    (let ts = map (vt_norm (norm_var io)) (map (heap p) (apvts_children p) @ [heap p (proc_state p)]);
         (addrs, q1) = alloc ts q
     in q1\<lparr>apvts_params := apvts_params p, apvts_children := addrs, proc_state := next_addr q\<rparr>)"
proof -
  define ps where "ps = map (vt_norm (norm_var io)) (params_tree io (apvts_params p))"
  define ts where "ts = map (vt_norm (norm_var io)) (map (heap p) (apvts_children p) @ [heap p (proc_state p)])"
  have par: "list_all (\<lambda>c. vt_type c = ''PARAM'') ps" and rd: "read_params io ps (apvts_params q) = apvts_params p"
    using ok by (simp_all add: state_io_ok_def ps_def list_all_norm)
  have tall: "list_all (\<lambda>c. vt_type c = ''AiMidiComposerState'') ts"
    unfolding ts_def list_all_norm using assms(2,3) by (simp add: list_all_iff)
  have split: "filter (\<lambda>c. vt_type c \<noteq> ''PARAM'') (ps @ ts) = ts \<and> filter (\<lambda>c. vt_type c = ''PARAM'') (ps @ ts) = ps"
    by (rule filter_by_type [OF par _ tall]) simp
  have "ts \<noteq> []" by (simp add: ts_def)
  note first = find_first_allocated [OF this tall, of q]
  have dec: "decode_tree io (getStateInformation io p) = Some (ValueTree ''Parameters'' Map.empty (ps @ ts))"
    unfolding ps_def ts_def by (rule decode_state [OF ok])
  show ?thesis
    unfolding ts_def [symmetric] Let_def
    by (simp add: setStateInformation_def dec split rd Let_def alloc_def first del: upt_Suc filter_append split del: if_split)
qed

lemma alloc_heap:
  "i < length ts \<Longrightarrow> heap (snd (alloc ts p)) (next_addr p + i) = ts ! i"
  by (simp add: alloc_def)

text \<open>The processor's nodes are states of the editor: so from the start, and after loading what was saved.\<close>

definition states_typed :: "processor \<Rightarrow> bool" where
  "states_typed p \<longleftrightarrow> (\<forall>a \<in> insert (getState p) (set (apvts_children p)). vt_type (heap p a) = ''AiMidiComposerState'')"

lemma restored_project:
  assumes "state_io_ok J io" and "states_typed p"
  shows "let p' = setStateInformation io (getStateInformation io p) q
    in apvts_params p' = apvts_params p \<and>
       map (heap p') (apvts_children p') =
         map (vt_norm (norm_var io) \<circ> heap p) (apvts_children p @ [getState p]) \<and>
       apvts_children p' \<noteq> [] \<and> getState p' = hd (apvts_children p')"
proof -
  define ts where "ts = map (vt_norm (norm_var io)) (map (heap p) (apvts_children p) @ [heap p (proc_state p)])"
  have kinds: "list_all (\<lambda>a. vt_type (heap p a) = ''AiMidiComposerState'') (apvts_children p)"
    "vt_type (heap p (proc_state p)) = ''AiMidiComposerState''"
    using assms(2) by (simp_all add: states_typed_def getState_def list_all_iff)
  define p' where "p' = (snd (alloc ts q))\<lparr>apvts_params := apvts_params p,
    apvts_children := fst (alloc ts q), proc_state := next_addr q\<rparr>"
  have eq: "setStateInformation io (getStateInformation io p) q = p'"
    unfolding p'_def set_get_state [OF assms(1) kinds] ts_def [symmetric] by (simp add: split_beta Let_def)
  have ne: "ts \<noteq> []" by (simp add: ts_def)
  have children: "apvts_children p' = [next_addr q..<next_addr q + length ts]" by (simp add: p'_def alloc_def)
  have "map (heap p') (apvts_children p') = ts"
    unfolding children by (rule nth_equalityI) (simp_all add: p'_def alloc_def)
  then show ?thesis
    using ne by (simp add: eq Let_def getState_def children ts_def) (simp add: p'_def upt_rec comp_def)
qed

lemma shared_typed: "state_shared p \<Longrightarrow> states_typed p"
  by (simp add: state_shared_def states_typed_def getState_def list_all_iff)

lemma restored_shared:
  assumes "state_io_ok J io" and "states_typed p"
  shows "state_shared (setStateInformation io (getStateInformation io p) q)"
proof -
  let ?p' = "setStateInformation io (getStateInformation io p) q"
  note r = restored_project [OF assms, of q, unfolded Let_def]
  have "list_all (\<lambda>t. vt_type t = ''AiMidiComposerState'') (map (heap ?p') (apvts_children ?p'))"
    using r assms(2) by (simp add: states_typed_def list_all_iff)
  then show ?thesis
    using r by (cases "apvts_children ?p'") (auto simp: state_shared_def getState_def list_all_iff)
qed

lemma restored_state:
  assumes "state_io_ok J io" and "states_typed p"
  shows "let p' = setStateInformation io (getStateInformation io p) q
    in heap p' (getState p') =
         vt_norm (norm_var io) (heap p (if apvts_children p = [] then getState p else hd (apvts_children p))) \<and>
       length (apvts_children p') = length (apvts_children p) + 1"
proof -
  let ?p' = "setStateInformation io (getStateInformation io p) q"
  note r = restored_project [OF assms, of q, unfolded Let_def]
  have "heap ?p' (getState ?p') = hd (map (heap ?p') (apvts_children ?p'))" using r by (metis hd_map)
  moreover have "length (apvts_children ?p') = length (apvts_children p) + 1"
    using arg_cong [OF r [THEN conjunct2, THEN conjunct1], of length] by simp
  moreover have "hd (map (heap ?p') (apvts_children ?p')) =
      vt_norm (norm_var io) (heap p (if apvts_children p = [] then getState p else hd (apvts_children p)))"
    unfolding r [THEN conjunct2, THEN conjunct1] by (cases "apvts_children p") simp_all
  ultimately show ?thesis unfolding Let_def by (intro conjI) simp_all
qed

text \<open>
  C15. The host's project file, between any two processors. The parameters are restored as they were
  saved. Of the editor's state, what is restored (its values as text) is the first copy that the
  saved processor's parameter tree holds, and the current state itself only if that tree holds none.
  So the state that was current at the save comes back when the processor never loaded a project, or when
  the current state is that first copy (\<open>state_shared\<close>), which loading establishes; an editor that
  was open during a load and then stores its own older tree breaks this, and then the current
  state is lost: see \<open>open_editor_state_lost\<close>. And the restored tree holds one copy of the state more than
  the saved one, with every load and save.
\<close>

theorem project_state_roundtrip:
  assumes "state_io_ok J io" and "states_typed p"
  shows "let p' = setStateInformation io (getStateInformation io p) q
    in apvts_params p' = apvts_params p \<and>
       heap p' (getState p') =
         vt_norm (norm_var io) (heap p (if apvts_children p = [] then getState p else hd (apvts_children p))) \<and>
       (state_shared p \<longrightarrow> heap p' (getState p') = vt_norm (norm_var io) (heap p (getState p))) \<and>
       state_shared p' \<and> states_typed p' \<and>
       map (heap p') (apvts_children p') = map (vt_norm (norm_var io) \<circ> heap p) (apvts_children p @ [getState p])"
  using restored_project [OF assms, of q] restored_state [OF assms, of q] restored_shared [OF assms, of q]
    shared_typed [OF restored_shared [OF assms, of q]]
  by (auto simp: Let_def state_shared_def getState_def)

text \<open>An instance of the parameters, for the witnesses.\<close>

definition param_value :: "value_tree \<Rightarrow> rat" where
  "param_value t = (case vt_props t ''value'' of Some (VFloat x) \<Rightarrow> x | _ \<Rightarrow> 0)"

definition std_io :: "value_tree state_io" where
  "std_io =
     \<lparr>params_tree = (\<lambda>q. map (\<lambda>x. ValueTree ''PARAM'' [''value'' \<mapsto> VFloat x] [])
        [par_seed q, par_density q, par_energy q, par_complexity q, par_bpm q, par_bars q]),
      read_params = (\<lambda>ts q. \<lparr>par_seed = param_value (ts ! 0), par_density = param_value (ts ! 1),
        par_energy = param_value (ts ! 2), par_complexity = param_value (ts ! 3),
        par_bpm = param_value (ts ! 4), par_bars = param_value (ts ! 5)\<rparr>),
      encode_tree = vt_norm id, decode_tree = Some, norm_var = id\<rparr>"

lemma std_io_ok: "state_io_ok J std_io"
  by (simp add: state_io_ok_def std_io_def param_value_def nth_Cons')

lemma fresh_processor_shared: "state_shared AiMidiComposerProcessor"
  by (simp add: state_shared_def AiMidiComposerProcessor_def)

lemma fresh_processor_typed: "states_typed AiMidiComposerProcessor"
  by (rule shared_typed [OF fresh_processor_shared])

theorem project_state_roundtrip_witness:
  "let p' = setStateInformation std_io (getStateInformation std_io AiMidiComposerProcessor) AiMidiComposerProcessor
   in map (heap p') (apvts_children p') = [vt_norm id (new_tree ''AiMidiComposerState'')] \<and> state_shared p'"
  using project_state_roundtrip [OF std_io_ok fresh_processor_typed, of AiMidiComposerProcessor]
  unfolding Let_def by (simp add: AiMidiComposerProcessor_def std_io_def getState_def)

text \<open>After \<open>n\<close> sessions of loading and saving the project holds \<open>n\<close> copies too many.\<close>

lemma copies_accumulate:
  assumes "state_io_ok J io" and "state_shared p"
  shows "state_shared (((\<lambda>p. setStateInformation io (getStateInformation io p) p) ^^ n) p) \<and>
    length (apvts_children (((\<lambda>p. setStateInformation io (getStateInformation io p) p) ^^ n) p)) =
      length (apvts_children p) + n"
proof (induction n)
  case (Suc n)
  then show ?case
    using restored_shared [OF assms(1)] restored_state [OF assms(1)] shared_typed by (simp add: Let_def)
qed (use assms(2) in simp)

text \<open>
  An editor that is open while the host restores a state keeps its own tree and stores it back;
  the first copy in the parameters' tree is then an old one, and it is the one that comes back.
\<close>

lemma open_editor_state_lost:
  assumes "state_io_ok J io" and "state_shared p" and "apvts_children p \<noteq> []"
    and "vt_type (heap p old) = ''AiMidiComposerState''"
  shows "let p' = setStateInformation io (getStateInformation io (setState old p)) q
    in heap p' (getState p') = vt_norm (norm_var io) (heap p (hd (apvts_children p)))"
proof -
  have "states_typed (setState old p)"
    using assms(2,4) by (simp add: state_shared_def states_typed_def setState_def getState_def list_all_iff)
  from restored_state [OF assms(1) this, of q] show ?thesis using assms(3) by (simp add: Let_def setState_def)
qed

end
