(* ===== verification/Engine_Bridge.thy ===== *)
theory Engine_Bridge
  imports Prelude
begin

text \<open>
  The plugin's boundary to the engine (\<open>EngineBridge.hpp\<close>): the request and the result of a
  composition, the interface as the operations an implementation has on its own state, and the
  stub the plugin is built with (\<open>StubEngineBridge.cpp\<close>), which has none.
\<close>

record composition_request =
  req_seed :: u64
  req_prompt :: string
  req_style_hint :: string
  req_target_seconds :: int

record composition_result =
  res_success :: bool
  res_error :: string
  res_smf_midi :: "u8 list"
  res_shared_context_id :: string

record 's engine_bridge =
  newComposition :: "composition_request \<Rightarrow> 's \<Rightarrow> composition_result \<times> 's"
  continueComposition :: "composition_request \<Rightarrow> 's \<Rightarrow> composition_result \<times> 's"
  generateVariations :: "composition_request \<Rightarrow> 's \<Rightarrow> composition_result \<times> 's"
  isConnected :: "'s \<Rightarrow> bool"
  bridge_connect :: "string \<Rightarrow> 's \<Rightarrow> 's"
  bridge_disconnect :: "'s \<Rightarrow> 's"

definition default_request :: composition_request where
  "default_request = \<lparr>req_seed = 0, req_prompt = '''', req_style_hint = '''', req_target_seconds = 0\<rparr>"

definition default_result :: composition_result where
  "default_result = \<lparr>res_success = False, res_error = '''', res_smf_midi = [], res_shared_context_id = ''''\<rparr>"

definition stub_newComposition :: "composition_request \<Rightarrow> unit \<Rightarrow> composition_result \<times> unit" where
  "stub_newComposition req s =
     (default_result\<lparr>res_success := False,
        res_error := ''stub: bridge not wired (Sprint 3; gRPC client comes after ADR-0004)''\<rparr>, s)"

definition stub_continueComposition :: "composition_request \<Rightarrow> unit \<Rightarrow> composition_result \<times> unit" where
  "stub_continueComposition req s =
     (default_result\<lparr>res_success := False,
        res_error := ''stub: continueComposition not wired (Sprint 3; gRPC client comes after ADR-0004)''\<rparr>, s)"

definition stub_generateVariations :: "composition_request \<Rightarrow> unit \<Rightarrow> composition_result \<times> unit" where
  "stub_generateVariations req s =
     (default_result\<lparr>res_success := False,
        res_error := ''stub: generateVariations not wired (Sprint 3; gRPC client comes after ADR-0004)''\<rparr>, s)"

definition StubEngineBridge :: "unit engine_bridge" where
  "StubEngineBridge =
     \<lparr>newComposition = stub_newComposition, continueComposition = stub_continueComposition,
      generateVariations = stub_generateVariations, isConnected = (\<lambda>s. False),
      bridge_connect = (\<lambda>address s. s), bridge_disconnect = (\<lambda>s. s)\<rparr>"

definition make_stub_engine_bridge :: "unit engine_bridge \<times> unit" where
  "make_stub_engine_bridge = (StubEngineBridge, ())"

lemma stub_fails:
  "\<not> res_success (fst (generateVariations StubEngineBridge req s))"
  "res_error (fst (generateVariations StubEngineBridge req s)) \<noteq> ''''"
  "\<not> isConnected StubEngineBridge (bridge_connect StubEngineBridge address s)"
  by (simp_all add: StubEngineBridge_def stub_generateVariations_def)

end
