(* ===== verification/Plugin_Editor.thy ===== *)
theory Plugin_Editor
  imports Piano_Roll_Draw Preset_Manager Plugin_State Engine_Bridge
begin

text \<open>
  The editor of the plugin (\<open>PluginEditor.cpp\<close>): what its widgets show, the history of prompts,
  the diff of a regenerated region, presets, and the state it keeps in the processor. A widget is
  the part of it the code sets and reads: the text of the prompt box, the items of a list, whether
  a button is enabled. The engine is any \<open>engine_bridge\<close>; reading a MIDI file (\<open>readFrom\<close>) and the
  JUCE functions of \<open>Value_Tree\<close> are parameters. Layout and painting are left out.
\<close>

record editor =
  promptBox :: string
  historyBox :: "string list"
  workflowIndex :: int
  seedSlider :: rat
  presetItems :: "string list"
  presetText :: string
  generateEnabled :: bool
  regenEnabled :: bool
  diffEnabled :: bool
  diffText :: string
  statusText :: string
  statusColour :: colour
  promptHistory :: "string list"
  pianoRoll :: piano_roll
  ed_state :: nat
  diffBeforeNotes :: "piano_roll_note list"
  diffMode :: bool
  presetManager :: preset_manager

definition accentColor :: colour where "accentColor = RGBA 0 180 255 255"
definition dimColor :: colour where "dimColor = RGBA 120 120 120 255"
definition warnColor :: colour where "warnColor = RGBA 255 180 0 255"
definition altColor :: colour where "altColor = RGBA 0 200 120 255"

definition workflows :: "string list" where
  "workflows = [''New Composition'', ''Instrument Composer'', ''Audio Assisted'', ''Continue'',
     ''Smart Regeneration'', ''Generate Variations'', ''Replace Instrument'', ''Reharmonize'',
     ''Orchestrate'', ''Arrange'']"

definition set_status :: "string \<Rightarrow> colour \<Rightarrow> editor \<Rightarrow> editor" where
  "set_status s c e = e\<lparr>statusText := s, statusColour := c\<rparr>"

subsection \<open>History\<close>

definition updateHistoryBox :: "editor \<Rightarrow> editor" where
  "updateHistoryBox e = e\<lparr>historyBox := promptHistory e\<rparr>"

definition addToHistory :: "juce \<Rightarrow> string \<Rightarrow> editor \<Rightarrow> editor" where
  "addToHistory J prompt e =
     (let trimmed = trim J prompt
      in if trimmed = '''' then e
         else let h = trimmed # removeAll trimmed (promptHistory e)
              in updateHistoryBox (e\<lparr>promptHistory := take 10 h\<rparr>))"

subsection \<open>The state kept in the processor\<close>

definition history_node :: "string list \<Rightarrow> value_tree" where
  "history_node hs = ValueTree ''history'' Map.empty
     (map (\<lambda>h. setProperty ''text'' (VString h) (new_tree ''item'')) hs)"

text \<open>The first child \<open>history\<close> gets new children, or a new one is added; its properties stay.\<close>

fun set_history :: "string list \<Rightarrow> value_tree list \<Rightarrow> value_tree list" where
  "set_history hs [] = [history_node hs]"
| "set_history hs (c # cs) =
     (if vt_type c = ''history'' then ValueTree ''history'' (vt_props c) (vt_children (history_node hs)) # cs
      else c # set_history hs cs)"

definition state_tree :: "editor \<Rightarrow> value_tree \<Rightarrow> value_tree" where
  "state_tree e t =
     setProperty ''lastWorkflow'' (VInt (workflowIndex e))
       (setProperty ''lastPrompt'' (VString (promptBox e))
         (ValueTree (vt_type t) (vt_props t) (set_history (promptHistory e) (vt_children t))))"

definition saveState :: "editor \<Rightarrow> processor \<Rightarrow> processor" where
  "saveState e p =
     setState (ed_state e) (p\<lparr>heap := (heap p)(ed_state e := state_tree e (heap p (ed_state e)))\<rparr>)"

definition prop_text :: "juce \<Rightarrow> value_tree \<Rightarrow> string \<Rightarrow> string" where
  "prop_text J t k = (case vt_props t k of None \<Rightarrow> '''' | Some v \<Rightarrow> to_text J v)"

definition loadState :: "juce \<Rightarrow> processor \<Rightarrow> editor \<Rightarrow> editor" where
  "loadState J p e =
     (let t = heap p (getState p);
          e1 = e\<lparr>ed_state := getState p\<rparr>;
          e2 = (case find (\<lambda>c. vt_type c = ''history'') (vt_children t) of
                  None \<Rightarrow> e1
                | Some n \<Rightarrow> e1\<lparr>promptHistory := promptHistory e1 @ map (\<lambda>c. prop_text J c ''text'') (vt_children n)\<rparr>);
          e3 = updateHistoryBox e2;
          lastPrompt = prop_text J t ''lastPrompt'';
          e4 = (if lastPrompt \<noteq> '''' then e3\<lparr>promptBox := lastPrompt, generateEnabled := True\<rparr> else e3);
          lastWorkflow = (case vt_props t ''lastWorkflow'' of None \<Rightarrow> 0 | Some v \<Rightarrow> to_int J v)
      in e4\<lparr>workflowIndex := max 0 (min (int (length workflows) - 1) lastWorkflow)\<rparr>)"

subsection \<open>Presets\<close>

definition refreshPresetList :: "editor \<Rightarrow> editor" where
  "refreshPresetList e = e\<lparr>presetText := '''', presetItems := getPresetNames (presetManager e)\<rparr>"

text \<open>The constructor; \<open>None\<close> if loading the presets dereferences a null pointer.\<close>

definition AiMidiComposerEditor :: "juce \<Rightarrow> preset_disk \<Rightarrow> processor \<Rightarrow> editor option" where
  "AiMidiComposerEditor J d p =
     map_option (\<lambda>m. loadState J p (refreshPresetList
       \<lparr>promptBox = '''', historyBox = [], workflowIndex = 0, seedSlider = par_seed (apvts_params p),
        presetItems = [], presetText = '''', generateEnabled = False, regenEnabled = False,
        diffEnabled = False, diffText = ''Show Diff'', statusText = ''Ready'', statusColour = dimColor,
        promptHistory = [], pianoRoll = PianoRollComponent, ed_state = 0, diffBeforeNotes = [],
        diffMode = False, presetManager = m\<rparr>))
       (PresetManager J d)"

definition float_of_int :: "int \<Rightarrow> rat" where
  "float_of_int i = f32_round (of_int i)"

definition apply_params :: "juce \<Rightarrow> (string \<Rightarrow> var option) \<Rightarrow> plugin_params \<Rightarrow> plugin_params" where
  "apply_params J s q =
     (let as_int = (\<lambda>k x. case s k of None \<Rightarrow> x | Some v \<Rightarrow> float_of_int (to_int J v));
          as_float = (\<lambda>k x. case s k of None \<Rightarrow> x | Some v \<Rightarrow> f32_round (to_float J v))
      in \<lparr>par_seed = as_int ''seed'' (par_seed q), par_density = as_float ''density'' (par_density q),
          par_energy = as_float ''energy'' (par_energy q),
          par_complexity = as_float ''complexity'' (par_complexity q),
          par_bpm = as_int ''bpm'' (par_bpm q), par_bars = as_int ''bars'' (par_bars q)\<rparr>)"

definition onPresetSelected :: "juce \<Rightarrow> editor \<Rightarrow> processor \<Rightarrow> editor \<times> processor" where
  "onPresetSelected J e p =
     (let name = presetText e
      in if name = '''' \<or> \<not> hasPreset name (presetManager e) then (e, p)
         else let s = (case ps_state (getPreset name (presetManager e)) of None \<Rightarrow> Map.empty | Some t \<Rightarrow> vt_props t)
              in (set_status (''Loaded preset: '' @ name) dimColor e,
                  p\<lparr>apvts_params := apply_params J s (apvts_params p)\<rparr>))"

definition params_state :: "plugin_params \<Rightarrow> value_tree" where
  "params_state q =
     setProperty ''bars'' (VInt (f32_trunc (par_bars q))) (setProperty ''bpm'' (VInt (f32_trunc (par_bpm q)))
       (setProperty ''complexity'' (VFloat (par_complexity q)) (setProperty ''energy'' (VFloat (par_energy q))
         (setProperty ''density'' (VFloat (par_density q)) (setProperty ''seed'' (VInt (f32_trunc (par_seed q)))
           (new_tree ''Parameters''))))))"

definition onSavePreset :: "juce \<Rightarrow> (string \<Rightarrow> bool) \<Rightarrow> editor \<Rightarrow> processor \<Rightarrow> editor" where
  "onSavePreset J can_write e p =
     (let name = user_preset_name (presetManager e);
          preset = \<lparr>ps_name = name, ps_category = ''User'', ps_tags = ''user'',
                    ps_state = Some (params_state (apvts_params p))\<rparr>;
          e1 = e\<lparr>presetManager := savePreset J can_write preset (presetManager e)\<rparr>
      in set_status (''Saved '' @ name) altColor (refreshPresetList e1))"

definition onDeletePreset :: "(string \<Rightarrow> bool) \<Rightarrow> editor \<Rightarrow> editor" where
  "onDeletePreset can_write e =
     (let name = presetText e
      in if name = '''' \<or> \<not> hasPreset name (presetManager e) then e
         else if ps_category (getPreset name (presetManager e)) \<noteq> ''User'' then
           set_status ''Cannot delete factory presets'' warnColor e
         else set_status (''Deleted '' @ name) dimColor
                (refreshPresetList (e\<lparr>presetManager := deletePreset can_write name (presetManager e)\<rparr>)))"

subsection \<open>Generating, regenerating and the diff\<close>

definition has_prompt :: "juce \<Rightarrow> editor \<Rightarrow> bool" where
  "has_prompt J e \<longleftrightarrow> trim J (promptBox e) \<noteq> ''''"

text \<open>The callback of the piano roll, and of the prompt box.\<close>

definition selectionChanged :: "juce \<Rightarrow> editor \<Rightarrow> editor" where
  "selectionChanged J e = e\<lparr>regenEnabled := hasSelection (pianoRoll e) \<and> has_prompt J e\<rparr>"

definition textEditorTextChanged :: "juce \<Rightarrow> editor \<Rightarrow> editor" where
  "textEditorTextChanged J e =
     e\<lparr>generateEnabled := has_prompt J e, regenEnabled := has_prompt J e \<and> hasSelection (pianoRoll e)\<rparr>"

definition no_diff :: "editor \<Rightarrow> editor" where
  "no_diff e = e\<lparr>diffBeforeNotes := [], diffMode := False, diffText := ''Show Diff'', diffEnabled := False\<rparr>"

definition onGenerate :: "juce \<Rightarrow> editor \<Rightarrow> processor \<Rightarrow> editor \<times> processor" where
  "onGenerate J e p =
     (let prompt = trim J (promptBox e)
      in if prompt = '''' then (e, p)
         else let e1 = (set_status ''Generating...'' accentColor e)\<lparr>generateEnabled := False\<rparr>;
                  e2 = addToHistory J prompt e1;
                  p' = saveState e2 p;
                  e3 = (set_status ''Done'' dimColor e2)\<lparr>generateEnabled := True\<rparr>
              in (no_diff e3, p'))"

text \<open>\<open>insert_caret\<close> is \<open>insertTextAtCaret\<close>: the new text of the box.\<close>

definition textEditorReturnKeyPressed ::
  "juce \<Rightarrow> (string \<Rightarrow> string \<Rightarrow> string) \<Rightarrow> bool \<Rightarrow> editor \<Rightarrow> processor \<Rightarrow> editor \<times> processor" where
  "textEditorReturnKeyPressed J insert_caret shift e p =
     (if shift then (e\<lparr>promptBox := insert_caret [CHR 0x0A] (promptBox e)\<rparr>, p)
      else if has_prompt J e then onGenerate J e p else (e, p))"

definition regenerate_request :: "juce \<Rightarrow> editor \<Rightarrow> composition_request" where
  "regenerate_request J e = default_request\<lparr>req_seed := word_of_int \<lfloor>seedSlider e\<rfloor>,
     req_prompt := trim J (promptBox e) @ '' (regenerate bars '' @ to_string (selectedBarStart (pianoRoll e)) @
       ''-'' @ to_string (selectedBarEnd (pianoRoll e)) @ '')''\<rparr>"

definition onRegenerate ::
  "juce \<Rightarrow> (u8 list \<Rightarrow> juce_event list list option) \<Rightarrow> 's engine_bridge \<Rightarrow> editor \<Rightarrow> 's \<Rightarrow> editor \<times> 's" where
  "onRegenerate J readFrom br e s =
     (if \<not> hasSelection (pianoRoll e) then (e\<lparr>statusText := ''Select a region first''\<rparr>, s)
      else if trim J (promptBox e) = '''' then (e\<lparr>statusText := ''Enter a prompt''\<rparr>, s)
      else
        let e1 = (set_status ''Regenerating region...'' accentColor
                    (e\<lparr>diffBeforeNotes := roll_notes (pianoRoll e)\<rparr>))\<lparr>regenEnabled := False, generateEnabled := False\<rparr>;
            (result, s') = generateVariations br (regenerate_request J e1) s;
            e2 = (if res_success result \<and> res_smf_midi result \<noteq> [] then
                    let newNotes = parseSmfToNotes readFrom (res_smf_midi result) 480;
                        r = clearSelection (showDiff (diffBeforeNotes e1) newNotes (setNotes newNotes (pianoRoll e1)))
                    in e1\<lparr>pianoRoll := r, diffMode := True, diffText := ''Hide Diff'', diffEnabled := True,
                          statusText := ''Region regenerated''\<rparr>
                  else no_diff (e1\<lparr>statusText := (if res_error result = '''' then ''Regeneration failed''
                                                  else res_error result)\<rparr>))
        in (e2\<lparr>statusColour := dimColor, regenEnabled := hasSelection (pianoRoll e2) \<and> has_prompt J e2,
              generateEnabled := True\<rparr>, s'))"

definition onDiffToggle :: "editor \<Rightarrow> editor" where
  "onDiffToggle e =
     (let e1 = e\<lparr>diffMode := \<not> diffMode e\<rparr>
      in if diffMode e1 then
           e1\<lparr>pianoRoll := showDiff (diffBeforeNotes e1) (roll_notes (pianoRoll e1)) (pianoRoll e1),
              diffText := ''Hide Diff''\<rparr>
         else e1\<lparr>pianoRoll := clearDiff (pianoRoll e1), diffText := ''Show Diff''\<rparr>)"

text \<open>\<open>comboBoxChanged\<close>, by the box and, for the history, the index chosen.\<close>

datatype combo = HistoryBox int | WorkflowSelector | PresetSelector

fun comboBoxChanged :: "juce \<Rightarrow> combo \<Rightarrow> editor \<Rightarrow> processor \<Rightarrow> editor \<times> processor" where
  "comboBoxChanged J (HistoryBox i) e p =
     (if 0 \<le> i \<and> i < int (length (promptHistory e))
      then (e\<lparr>promptBox := promptHistory e ! nat i\<rparr>, p) else (e, p))"
| "comboBoxChanged J WorkflowSelector e p = (e, saveState e p)"
| "comboBoxChanged J PresetSelector e p = onPresetSelected J e p"

subsection \<open>Invariant of an editor's life\<close>

inductive roll_mouse :: "geometry \<Rightarrow> piano_roll \<Rightarrow> piano_roll \<Rightarrow> bool" for G where
  rm_move: "mouseMove G b pos r = Some r' \<Longrightarrow> roll_mouse G r r'"
| rm_exit: "roll_mouse G r (mouseExit r)"
| rm_down: "mouseDown G b pos r = Some r' \<Longrightarrow> roll_mouse G r r'"
| rm_drag: "mouseDrag G b pos r = Some (r', started) \<Longrightarrow> roll_mouse G r r'"

text \<open>
  One event the editor handles. The diff button reacts only while it is enabled. Typing sets
  the text and then calls the listener.
\<close>

inductive editor_step ::
  "juce \<Rightarrow> geometry \<Rightarrow> (u8 list \<Rightarrow> juce_event list list option) \<Rightarrow> 's engine_bridge \<Rightarrow>
   editor \<times> processor \<times> 's \<Rightarrow> editor \<times> processor \<times> 's \<Rightarrow> bool"
  for J G readFrom br where
  es_typed: "editor_step J G readFrom br (e, p, s) (textEditorTextChanged J (e\<lparr>promptBox := txt\<rparr>), p, s)"
| es_return: "textEditorReturnKeyPressed J ins shift e p = (e', p') \<Longrightarrow>
    editor_step J G readFrom br (e, p, s) (e', p', s)"
| es_combo: "comboBoxChanged J box e p = (e', p') \<Longrightarrow> editor_step J G readFrom br (e, p, s) (e', p', s)"
| es_preset_text: "editor_step J G readFrom br (e, p, s) (e\<lparr>presetText := nm\<rparr>, p, s)"
| es_workflow: "0 \<le> i \<Longrightarrow> i < int (length workflows) \<Longrightarrow>
    editor_step J G readFrom br (e, p, s) (e\<lparr>workflowIndex := i\<rparr>, p, s)"
| es_seed: "editor_step J G readFrom br (e, p, s) (e\<lparr>seedSlider := x\<rparr>, p, s)"
| es_generate: "onGenerate J e p = (e', p') \<Longrightarrow> editor_step J G readFrom br (e, p, s) (e', p', s)"
| es_regenerate: "onRegenerate J readFrom br e s = (e', s') \<Longrightarrow> editor_step J G readFrom br (e, p, s) (e', p, s')"
| es_diff: "diffEnabled e \<Longrightarrow> editor_step J G readFrom br (e, p, s) (onDiffToggle e, p, s)"
| es_save: "editor_step J G readFrom br (e, p, s) (onSavePreset J can_write e p, p, s)"
| es_delete: "editor_step J G readFrom br (e, p, s) (onDeletePreset can_write e, p, s)"
| es_mouse: "roll_mouse G (pianoRoll e) r \<Longrightarrow> editor_step J G readFrom br (e, p, s) (e\<lparr>pianoRoll := r\<rparr>, p, s)"
| es_mouse_up: "editor_step J G readFrom br (e, p, s) (selectionChanged J (e\<lparr>pianoRoll := mouseUp (pianoRoll e)\<rparr>), p, s)"

inductive editor_run ::
  "juce \<Rightarrow> geometry \<Rightarrow> (u8 list \<Rightarrow> juce_event list list option) \<Rightarrow> 's engine_bridge \<Rightarrow>
   editor \<times> processor \<times> 's \<Rightarrow> editor \<times> processor \<times> 's \<Rightarrow> bool"
  for J G readFrom br c0 where
  run_start: "editor_run J G readFrom br c0 c0"
| run_step: "editor_run J G readFrom br c0 c \<Longrightarrow> editor_step J G readFrom br c c' \<Longrightarrow> editor_run J G readFrom br c0 c'"

definition history_ok :: "juce \<Rightarrow> string list \<Rightarrow> bool" where
  "history_ok J hs \<longleftrightarrow> distinct hs \<and> length hs \<le> 10 \<and> list_all (\<lambda>h. trim J h = h \<and> h \<noteq> '''') hs"

definition editor_inv :: "juce \<Rightarrow> editor \<Rightarrow> bool" where
  "editor_inv J e \<longleftrightarrow> history_ok J (promptHistory e) \<and> historyBox e = promptHistory e \<and>
     roll_inv (pianoRoll e) \<and> 0 \<le> workflowIndex e \<and> workflowIndex e < int (length workflows) \<and>
     (diffMode e \<longrightarrow> diffEnabled e \<and> roll_diffMode (pianoRoll e)) \<and>
     (diffEnabled e \<and> \<not> diffMode e \<longrightarrow> \<not> roll_diffMode (pianoRoll e)) \<and>
     diffText e = (if diffMode e then ''Hide Diff'' else ''Show Diff'')"

text \<open>The parts an invariant is about; a handler that leaves them alone keeps it.\<close>

definition same_parts :: "editor \<Rightarrow> editor \<Rightarrow> bool" where
  "same_parts e e' \<longleftrightarrow> promptHistory e' = promptHistory e \<and> historyBox e' = historyBox e \<and>
     pianoRoll e' = pianoRoll e \<and> workflowIndex e' = workflowIndex e \<and> diffMode e' = diffMode e \<and>
     diffEnabled e' = diffEnabled e \<and> diffText e' = diffText e"

lemma same_parts_inv: "same_parts e e' \<Longrightarrow> editor_inv J e \<Longrightarrow> editor_inv J e'"
  by (simp add: same_parts_def editor_inv_def)

lemma same_partsI:
  "same_parts e (textEditorTextChanged J (e\<lparr>promptBox := txt\<rparr>))" "same_parts e (e\<lparr>presetText := nm\<rparr>)"
  "same_parts e (e\<lparr>promptBox := txt\<rparr>)" "same_parts e (e\<lparr>seedSlider := x\<rparr>)" "same_parts e e"
  "same_parts e (onSavePreset J can_write e p)" "same_parts e (onDeletePreset can_write e)"
  "same_parts e (fst (onPresetSelected J e p))"
  by (simp_all add: same_parts_def textEditorTextChanged_def onSavePreset_def onDeletePreset_def
      onPresetSelected_def refreshPresetList_def set_status_def Let_def)

lemma combo_same_parts: "same_parts e (fst (comboBoxChanged J box e p))"
  by (cases box) (simp_all add: same_partsI)

lemma addToHistory_inv:
  assumes "juce_ok J" and "editor_inv J e"
  shows "editor_inv J (addToHistory J prompt e)"
proof (cases "trim J prompt = ''''")
  case False
  let ?h = "take 10 (trim J prompt # removeAll (trim J prompt) (promptHistory e))"
  have "history_ok J (promptHistory e)" using assms(2) by (simp add: editor_inv_def)
  then have "history_ok J ?h"
    using False juce_simps(5) [OF assms(1)]
    by (auto simp: history_ok_def list_all_iff distinct_removeAll dest!: in_set_takeD)
  with False assms(2) show ?thesis
    by (simp add: addToHistory_def editor_inv_def updateHistoryBox_def Let_def)
qed (use assms in \<open>simp add: addToHistory_def\<close>)

lemma onGenerate_inv:
  assumes "juce_ok J" and "editor_inv J e"
  shows "editor_inv J (fst (onGenerate J e p))"
proof (cases "trim J (promptBox e) = ''''")
  case False
  let ?e1 = "(set_status ''Generating...'' accentColor e)\<lparr>generateEnabled := False\<rparr>"
  have "editor_inv J ?e1"
    by (rule same_parts_inv [OF _ assms(2)]) (simp add: same_parts_def set_status_def)
  from addToHistory_inv [OF assms(1) this, of "trim J (promptBox e)"] False show ?thesis
    by (simp add: onGenerate_def Let_def no_diff_def editor_inv_def set_status_def)
qed (use assms in \<open>simp add: onGenerate_def\<close>)

lemma onRegenerate_inv:
  assumes "editor_inv J e"
  shows "editor_inv J (fst (onRegenerate J readFrom br e s))"
proof -
  have r: "roll_inv (clearSelection (showDiff a b (setNotes c (pianoRoll e))))" for a b c
    using assms by (intro roll_setters_inv) (simp add: editor_inv_def)
  have d: "roll_diffMode (clearSelection (showDiff a b x))" for a b x
    by (simp add: clearSelection_def showDiff_def)
  show ?thesis
    using assms r d
    by (simp add: onRegenerate_def Let_def split_beta editor_inv_def set_status_def no_diff_def)
qed

lemma onDiffToggle_inv: "editor_inv J e \<Longrightarrow> diffEnabled e \<Longrightarrow> editor_inv J (onDiffToggle e)"
  using roll_setters_inv(5,6)
  by (simp add: onDiffToggle_def editor_inv_def Let_def showDiff_def clearDiff_def roll_inv_def)

lemma roll_mouse_inv: "roll_mouse G r r' \<Longrightarrow> roll_inv r \<Longrightarrow> roll_inv r'"
  by (erule roll_mouse.cases) (blast intro: mouseMove_inv mouseDown_inv mouseDrag_inv roll_setters_inv)+

lemma mouse_keeps:
  "roll_mouse G r r' \<Longrightarrow> roll_diffMode r' = roll_diffMode r \<and> roll_notes r' = roll_notes r"
  by (erule roll_mouse.cases)
    (auto simp: mouseMove_def mouseExit_def mouseDown_def mouseDrag_def Let_def
      split: prod.splits if_splits option.splits)

lemma mouse_inv: "editor_inv J e \<Longrightarrow> roll_mouse G (pianoRoll e) r \<Longrightarrow> editor_inv J (e\<lparr>pianoRoll := r\<rparr>)"
  using roll_mouse_inv [of G "pianoRoll e" r] mouse_keeps [of G "pianoRoll e" r] by (simp add: editor_inv_def)

lemma mouse_up_inv: "editor_inv J e \<Longrightarrow> editor_inv J (selectionChanged J (e\<lparr>pianoRoll := mouseUp (pianoRoll e)\<rparr>))"
  using roll_setters_inv(9) [of "pianoRoll e"] by (simp add: editor_inv_def selectionChanged_def mouseUp_def)

lemma editor_step_inv:
  assumes "juce_ok J" and "editor_step J G readFrom br c c'" and "editor_inv J (fst c)"
  shows "editor_inv J (fst c')"
  using assms(2)
proof cases
  case (es_return ins shift e p e' p' s)
  then show ?thesis
    using assms(3) onGenerate_inv [OF assms(1), of e p]
    by (auto simp: textEditorReturnKeyPressed_def split: if_splits intro: same_parts_inv [OF same_partsI(3)])
next
  case (es_combo box e p e' p' s)
  then show ?thesis using assms(3) same_parts_inv [OF combo_same_parts [of e J box p]] by simp
next
  case (es_workflow i e p s)
  then show ?thesis using assms(3) by (simp add: editor_inv_def)
next
  case (es_generate e p e' p' s)
  then show ?thesis using assms(3) onGenerate_inv [OF assms(1), of e p] by simp
next
  case (es_regenerate e s e' s' p)
  then show ?thesis using assms(3) onRegenerate_inv [of J e readFrom br s] by simp
qed (use assms(3) in \<open>auto intro: same_parts_inv same_partsI onDiffToggle_inv mouse_inv mouse_up_inv\<close>)

subsection \<open>What the processor keeps of the editor\<close>

definition saved_history :: "juce \<Rightarrow> value_tree \<Rightarrow> string list" where
  "saved_history J t =
     (case find (\<lambda>c. vt_type c = ''history'') (vt_children t) of
        None \<Rightarrow> [] | Some n \<Rightarrow> map (\<lambda>c. prop_text J c ''text'') (vt_children n))"

lemma find_set_history:
  "\<exists>ps. find (\<lambda>c. vt_type c = ''history'') (set_history hs cs) =
     Some (ValueTree ''history'' ps (vt_children (history_node hs)))"
  by (induction cs) (simp_all add: history_node_def)

lemma setProperty_sel [simp]:
  "vt_type (setProperty k v t) = vt_type t" "vt_children (setProperty k v t) = vt_children t"
  "vt_props (setProperty k v t) = (vt_props t)(k \<mapsto> v)"
  by (cases t; simp)+

lemma state_tree_sel [simp]:
  "vt_type (state_tree e t) = vt_type t" "vt_children (state_tree e t) = set_history (promptHistory e) (vt_children t)"
  "vt_props (state_tree e t) ''lastPrompt'' = Some (VString (promptBox e))"
  "vt_props (state_tree e t) ''lastWorkflow'' = Some (VInt (workflowIndex e))"
  by (simp_all add: state_tree_def)

lemma saved_history_state_tree:
  assumes "juce_ok J"
  shows "saved_history J (state_tree e t) = promptHistory e"
  using find_set_history [of "promptHistory e" "vt_children t"]
  by (auto simp: saved_history_def history_node_def prop_text_def comp_def juce_simps(3) [OF assms])

text \<open>The texts survive the way through XML.\<close>

lemma find_map_norm:
  "find (\<lambda>c. vt_type c = k) (map (vt_norm nv) cs) = map_option (vt_norm nv) (find (\<lambda>c. vt_type c = k) cs)"
  by (induction cs) simp_all

lemma vt_props_norm: "vt_props (vt_norm nv t) k = map_option nv (vt_props t k)"
  by (cases t) simp

lemma prop_text_norm:
  assumes "state_io_ok J io"
  shows "prop_text J (vt_norm (norm_var io) t) k = prop_text J t k"
  using assms by (simp add: prop_text_def vt_props_norm state_io_ok_def split: option.split)

lemma saved_history_norm:
  assumes "state_io_ok J io"
  shows "saved_history J (vt_norm (norm_var io) t) = saved_history J t"
  by (simp add: saved_history_def find_map_norm prop_text_norm [OF assms] comp_def split: option.split)

lemma saveState_heap: "heap (saveState e p) (getState (saveState e p)) = state_tree e (heap p (ed_state e))"
  by (simp add: saveState_def setState_def getState_def)

text \<open>What a new editor shows, from the tree it finds.\<close>

lemma loadState_sel:
  fixes J p e
  defines "t \<equiv> heap p (getState p)" and "e' \<equiv> loadState J p e"
  shows "promptHistory e' = promptHistory e @ saved_history J t" and "historyBox e' = promptHistory e'"
    and "promptBox e' = (if prop_text J t ''lastPrompt'' = '''' then promptBox e else prop_text J t ''lastPrompt'')"
    and "ed_state e' = getState p"
    and "workflowIndex e' = max 0 (min 9 (case vt_props t ''lastWorkflow'' of None \<Rightarrow> 0 | Some v \<Rightarrow> to_int J v))"
    and "pianoRoll e' = pianoRoll e" and "diffMode e' = diffMode e" and "diffEnabled e' = diffEnabled e"
    and "diffText e' = diffText e" and "presetManager e' = presetManager e"
  unfolding t_def e'_def
  by (simp_all add: loadState_def saved_history_def updateHistoryBox_def workflows_def Let_def split: option.split)

lemma editor_opened:
  assumes "AiMidiComposerEditor J d p = Some e" and "t = heap p (getState p)"
  shows "promptHistory e = saved_history J t" and "historyBox e = promptHistory e"
    and "promptBox e = prop_text J t ''lastPrompt''" and "ed_state e = getState p"
    and "workflowIndex e = max 0 (min 9 (case vt_props t ''lastWorkflow'' of None \<Rightarrow> 0 | Some v \<Rightarrow> to_int J v))"
    and "pianoRoll e = PianoRollComponent" and "\<not> diffMode e" and "\<not> diffEnabled e" and "diffText e = ''Show Diff''"
proof -
  obtain b where e: "e = loadState J p b" and b: "promptHistory b = []" "promptBox b = ''''"
    "pianoRoll b = PianoRollComponent" "\<not> diffMode b" "\<not> diffEnabled b" "diffText b = ''Show Diff''"
    using assms(1) by (auto simp: AiMidiComposerEditor_def refreshPresetList_def)
  show "promptHistory e = saved_history J t" "historyBox e = promptHistory e"
    "promptBox e = prop_text J t ''lastPrompt''" "ed_state e = getState p"
    "workflowIndex e = max 0 (min 9 (case vt_props t ''lastWorkflow'' of None \<Rightarrow> 0 | Some v \<Rightarrow> to_int J v))"
    "pianoRoll e = PianoRollComponent" "\<not> diffMode e" "\<not> diffEnabled e" "diffText e = ''Show Diff''"
    unfolding e assms(2) by (simp_all add: loadState_sel b)
qed

lemma opened_inv:
  assumes "AiMidiComposerEditor J d p = Some e" and "history_ok J (saved_history J (heap p (getState p)))"
  shows "editor_inv J e"
  using assms(2) editor_opened [OF assms(1) refl] PianoRollComponent_inv
  by (simp add: editor_inv_def workflows_def)

text \<open>A step leaves the state in the processor alone or saves that of an editor in order.\<close>

definition saved_ok :: "juce \<Rightarrow> processor \<Rightarrow> bool" where
  "saved_ok J p \<longleftrightarrow> history_ok J (saved_history J (heap p (getState p)))"

lemma saveState_ok: "juce_ok J \<Longrightarrow> editor_inv J e \<Longrightarrow> saved_ok J (saveState e p)"
  by (simp add: saved_ok_def saveState_heap saved_history_state_tree editor_inv_def)

lemma onGenerate_saved:
  assumes "juce_ok J" and "editor_inv J e" and "saved_ok J p"
  shows "saved_ok J (snd (onGenerate J e p))"
proof (cases "trim J (promptBox e) = ''''")
  case False
  let ?e1 = "(set_status ''Generating...'' accentColor e)\<lparr>generateEnabled := False\<rparr>"
  have "editor_inv J ?e1"
    by (rule same_parts_inv [OF _ assms(2)]) (simp add: same_parts_def set_status_def)
  from saveState_ok [OF assms(1) addToHistory_inv [OF assms(1) this]] False show ?thesis
    by (simp add: onGenerate_def Let_def)
qed (use assms in \<open>simp add: onGenerate_def\<close>)

lemma combo_saved:
  assumes "juce_ok J" and "editor_inv J e" and "saved_ok J p"
  shows "saved_ok J (snd (comboBoxChanged J box e p))"
proof (cases box)
  case PresetSelector
  then show ?thesis
    using assms(3) by (simp add: onPresetSelected_def saved_ok_def getState_def Let_def)
qed (use assms saveState_ok [OF assms(1,2)] in simp_all)

lemma editor_step_saved:
  assumes "juce_ok J" and "editor_step J G readFrom br c c'" and "editor_inv J (fst c)" and "saved_ok J (fst (snd c))"
  shows "saved_ok J (fst (snd c'))"
  using assms(2)
proof cases
  case (es_return ins shift e p e' p' s)
  then show ?thesis
    using assms(3,4) onGenerate_saved [OF assms(1), of e p]
    by (auto simp: textEditorReturnKeyPressed_def split: if_splits)
next
  case (es_combo box e p e' p' s)
  then show ?thesis using assms(3,4) combo_saved [OF assms(1), of e p box] by simp
next
  case (es_generate e p e' p' s)
  then show ?thesis using assms(3,4) onGenerate_saved [OF assms(1), of e p] by simp
qed (use assms(4) in auto)

text \<open>
  C14. An editor's session. From an editor opened on a processor whose saved history is in order,
  through any events: the history holds at most ten distinct trimmed prompts and the list shows
  it; the diff mode, its button and the piano roll agree while the button is enabled; and what is
  saved in the processor is again in order for the next editor.
\<close>

theorem editor_session:
  assumes "juce_ok J" and "AiMidiComposerEditor J d p0 = Some e0" and "saved_ok J p0"
    and "editor_run J G readFrom br (e0, p0, s0) (e, p, s)"
  shows "editor_inv J e \<and> saved_ok J p"
proof -
  have "editor_inv J (fst c) \<and> saved_ok J (fst (snd c))" if "editor_run J G readFrom br (e0, p0, s0) c" for c
    using that
  proof induction
    case run_start
    then show ?case using opened_inv [OF assms(2)] assms(3) by (simp add: saved_ok_def)
  next
    case (run_step c c')
    then show ?case using editor_step_inv [OF assms(1)] editor_step_saved [OF assms(1)] by blast
  qed
  from this [OF assms(4)] show ?thesis by simp
qed

text \<open>
  With the stub bridge no session ever shows a note or a diff: regenerating always fails, and
  nothing else gives the piano roll notes.
\<close>

definition inert :: "editor \<Rightarrow> bool" where
  "inert e \<longleftrightarrow> roll_notes (pianoRoll e) = [] \<and> \<not> roll_diffMode (pianoRoll e) \<and> \<not> diffEnabled e"

lemma inert_same: "same_parts e e' \<Longrightarrow> inert e \<Longrightarrow> inert e'"
  by (simp add: same_parts_def inert_def)

lemma inert_generate: "inert e \<Longrightarrow> inert (fst (onGenerate J e p))"
  by (simp add: onGenerate_def addToHistory_def updateHistoryBox_def no_diff_def set_status_def inert_def Let_def)

lemma inert_regenerate: "inert e \<Longrightarrow> inert (fst (onRegenerate J readFrom StubEngineBridge e s))"
  using stub_fails(1) by (auto simp: onRegenerate_def no_diff_def set_status_def inert_def Let_def split_beta)

lemma inert_upd:
  "inert (e\<lparr>workflowIndex := i\<rparr>) = inert e" "inert e \<Longrightarrow> \<not> diffEnabled e"
  "inert (selectionChanged J (e\<lparr>pianoRoll := mouseUp (pianoRoll e)\<rparr>)) = inert e"
  "inert (e\<lparr>promptBox := txt\<rparr>) = inert e"
  by (auto simp: inert_def selectionChanged_def mouseUp_def)

lemma inert_step:
  assumes "editor_step J G readFrom StubEngineBridge c c'" and "inert (fst c)"
  shows "inert (fst c')"
  using assms(1)
proof cases
  case (es_return ins shift e p e' p' s)
  then show ?thesis
    using assms(2) inert_generate [of e J p]
    by (auto simp: textEditorReturnKeyPressed_def inert_upd split: if_splits)
next
  case (es_combo box e p e' p' s)
  then show ?thesis using assms(2) inert_same [OF combo_same_parts [of e J box p]] by simp
next
  case (es_generate e p e' p' s)
  then show ?thesis using assms(2) inert_generate [of e J p] by simp
next
  case (es_regenerate e s e' s' p)
  then show ?thesis using assms(2) inert_regenerate [of e J readFrom s] by simp
next
  case (es_mouse e r p s)
  then show ?thesis using assms(2) mouse_keeps [of G "pianoRoll e" r] by (simp add: inert_def)
qed (use assms(2) in \<open>auto simp: inert_upd intro: inert_same same_partsI\<close>)

theorem stub_session_inert:
  assumes "AiMidiComposerEditor J d p0 = Some e0"
    and "editor_run J G readFrom StubEngineBridge (e0, p0, s0) (e, p, s)"
  shows "roll_notes (pianoRoll e) = [] \<and> \<not> roll_diffMode (pianoRoll e) \<and> \<not> diffEnabled e"
proof -
  have "inert (fst c)" if "editor_run J G readFrom StubEngineBridge (e0, p0, s0) c" for c
    using that
  proof induction
    case run_start
    then show ?case using editor_opened(6,8) [OF assms(1) refl] by (simp add: inert_def PianoRollComponent_def)
  next
    case (run_step c c')
    then show ?case using inert_step by blast
  qed
  from this [OF assms(2)] show ?thesis by (simp add: inert_def)
qed

subsection \<open>Closing and opening again\<close>

lemma saveState_shared:
  assumes "state_shared p" and "ed_state e = getState p"
  shows "state_shared (saveState e p)"
  using assms by (auto simp: state_shared_def saveState_def setState_def getState_def list_all_iff)

lemma reopened:
  assumes "juce_ok J" and "AiMidiComposerEditor J d p' = Some e'"
    and "\<And>k. prop_text J (heap p' (getState p')) k = prop_text J (state_tree e t) k"
    and "saved_history J (heap p' (getState p')) = saved_history J (state_tree e t)"
    and "map_option (to_int J) (vt_props (heap p' (getState p')) ''lastWorkflow'') = Some (workflowIndex e)"
    and "0 \<le> workflowIndex e" and "workflowIndex e < int (length workflows)"
  shows "promptHistory e' = promptHistory e \<and> promptBox e' = promptBox e \<and> workflowIndex e' = workflowIndex e"
proof -
  obtain v where "vt_props (heap p' (getState p')) ''lastWorkflow'' = Some v" "to_int J v = workflowIndex e"
    using assms(5) by auto
  then have "workflowIndex e' = workflowIndex e"
    using editor_opened(5) [OF assms(2) refl] assms(6,7) by (simp add: workflows_def)
  moreover have "promptHistory e' = promptHistory e"
    using editor_opened(1) [OF assms(2) refl] assms(4) saved_history_state_tree [OF assms(1)] by simp
  moreover have "promptBox e' = promptBox e"
    using editor_opened(3) [OF assms(2) refl] assms(3) [of "''lastPrompt''"]
    by (simp add: prop_text_def juce_simps(3) [OF assms(1)])
  ultimately show ?thesis by simp
qed

text \<open>
  C16. Closing the editor, and the project. An editor opened on the processor after another one saved
  its state shows the other's prompt, history and workflow. So does one opened after the host
  has saved the project and loaded it into any processor, if the first editor worked on the
  processor's current state and that is the copy the host's tree puts first (\<open>state_shared\<close>):
  so unless the host loaded a project while an editor was open, see \<open>open_editor_state_lost\<close>.
\<close>

theorem reopen_restores:
  assumes "juce_ok J" and "state_io_ok J io" and "editor_inv J e"
    and "p' = saveState e p \<or>
      state_shared p \<and> ed_state e = getState p \<and>
        p' = setStateInformation io (getStateInformation io (saveState e p)) q"
    and "AiMidiComposerEditor J d p' = Some e'"
  shows "promptHistory e' = promptHistory e \<and> promptBox e' = promptBox e \<and> workflowIndex e' = workflowIndex e"
proof -
  let ?t = "heap p (ed_state e)"
  have w: "0 \<le> workflowIndex e" "workflowIndex e < int (length workflows)"
    using assms(3) by (simp_all add: editor_inv_def)
  have "heap p' (getState p') = state_tree e ?t \<or> heap p' (getState p') = vt_norm (norm_var io) (state_tree e ?t)"
    using assms(4)
  proof
    assume "state_shared p \<and> ed_state e = getState p \<and>
        p' = setStateInformation io (getStateInformation io (saveState e p)) q"
    moreover from this have "state_shared (saveState e p)" by (intro saveState_shared) auto
    ultimately show ?thesis
      using restored_state [OF assms(2) shared_typed, of "saveState e p" q] saveState_heap
      by (auto simp: Let_def state_shared_def getState_def)
  qed (simp add: saveState_heap)
  then show ?thesis
  proof
    assume eq: "heap p' (getState p') = state_tree e ?t"
    show ?thesis
      by (rule reopened [OF assms(1,5), where t = ?t]) (simp_all add: eq juce_simps(1) [OF assms(1)] w)
  next
    assume eq: "heap p' (getState p') = vt_norm (norm_var io) (state_tree e ?t)"
    have "to_int J (norm_var io (VInt i)) = i" for i
      using assms(2) juce_simps(1) [OF assms(1)] by (simp add: state_io_ok_def)
    then show ?thesis
      by (intro reopened [OF assms(1,5), where t = ?t])
        (simp_all add: eq vt_props_norm prop_text_norm [OF assms(2)] saved_history_norm [OF assms(2)] w)
  qed
qed

text \<open>An editor on a new processor, with no presets on disk, for the witnesses.\<close>

definition first_editor :: editor where
  "first_editor =
     (case AiMidiComposerEditor std_juce \<lparr>dir_exists = False, dir_files = []\<rparr> AiMidiComposerProcessor of Some e \<Rightarrow> e)"

lemma first_editor_opened:
  "AiMidiComposerEditor std_juce \<lparr>dir_exists = False, dir_files = []\<rparr> AiMidiComposerProcessor = Some first_editor"
  by (simp add: first_editor_def AiMidiComposerEditor_def PresetManager_def loadPresets_def)

lemma fresh_saved_ok: "saved_ok J AiMidiComposerProcessor"
  by (simp add: saved_ok_def saved_history_def AiMidiComposerProcessor_def history_ok_def)

lemma first_editor_inv: "editor_inv std_juce first_editor"
  using opened_inv [OF first_editor_opened] fresh_saved_ok [of std_juce] by (simp add: saved_ok_def)

definition typed :: "string \<Rightarrow> editor" where
  "typed s = textEditorTextChanged std_juce (first_editor\<lparr>promptBox := s\<rparr>)"

theorem editor_session_witness:
  "editor_inv std_juce (fst (onGenerate std_juce (typed ''pop in C'') AiMidiComposerProcessor))"
proof -
  obtain e p where g: "onGenerate std_juce (typed ''pop in C'') AiMidiComposerProcessor = (e, p)" by fastforce
  have "editor_run std_juce std_geometry (\<lambda>b. None) StubEngineBridge
      (first_editor, AiMidiComposerProcessor, ()) (typed ''pop in C'', AiMidiComposerProcessor, ())"
    unfolding typed_def by (rule run_step [OF run_start es_typed])
  from run_step [OF this es_generate [OF g]]
  have "editor_inv std_juce e \<and> saved_ok std_juce p"
    by (rule editor_session [OF std_juce_ok first_editor_opened fresh_saved_ok])
  then show ?thesis by (simp add: g)
qed

theorem stub_session_inert_witness:
  "\<not> diffEnabled (typed ''pop in C'')"
proof -
  have "editor_run std_juce std_geometry (\<lambda>b. None) StubEngineBridge
      (first_editor, AiMidiComposerProcessor, ()) (typed ''pop in C'', AiMidiComposerProcessor, ())"
    unfolding typed_def by (rule run_step [OF run_start es_typed])
  from stub_session_inert [OF first_editor_opened this] show ?thesis by simp
qed

theorem reopen_restores_witness:
  "\<exists>e'. AiMidiComposerEditor std_juce \<lparr>dir_exists = False, dir_files = []\<rparr>
      (setStateInformation std_io (getStateInformation std_io
        (saveState (typed ''pop in C'') AiMidiComposerProcessor)) AiMidiComposerProcessor) = Some e' \<and> promptBox e' = ''pop in C''"
proof -
  let ?p' = "setStateInformation std_io (getStateInformation std_io
    (saveState (typed ''pop in C'') AiMidiComposerProcessor)) AiMidiComposerProcessor"
  obtain e' where e': "AiMidiComposerEditor std_juce \<lparr>dir_exists = False, dir_files = []\<rparr> ?p' = Some e'"
    by (auto simp: AiMidiComposerEditor_def PresetManager_def loadPresets_def)
  have "ed_state (typed ''pop in C'') = getState AiMidiComposerProcessor"
    using editor_opened(4) [OF first_editor_opened refl] by (simp add: typed_def textEditorTextChanged_def)
  moreover have "editor_inv std_juce (typed ''pop in C'')"
    unfolding typed_def by (rule same_parts_inv [OF same_partsI(1) first_editor_inv])
  ultimately have "promptBox e' = promptBox (typed ''pop in C'')"
    using reopen_restores [OF std_juce_ok std_io_ok _ _ e'] fresh_processor_shared by blast
  with e' show ?thesis by (auto simp: typed_def textEditorTextChanged_def)
qed

subsection \<open>Presets of the parameters\<close>

lemma f32_round_int: "\<bar>a\<bar> < 2 ^ 24 \<Longrightarrow> f32_round (of_int a) = of_int a"
  using float_round_between [of a "of_int a" a 24] unfolding f32_round_def by auto

text \<open>Parameters as the host can set them: whole numbers for the integer ones, floats for the others.\<close>

definition params_ok :: "plugin_params \<Rightarrow> bool" where
  "params_ok q \<longleftrightarrow>
     list_all (\<lambda>x. x = of_int \<lfloor>x\<rfloor> \<and> \<bar>\<lfloor>x\<rfloor>\<bar> < 2 ^ 24) [par_seed q, par_bpm q, par_bars q] \<and>
     list_all (\<lambda>x. f32_round x = x) [par_density q, par_energy q, par_complexity q]"

lemma whole_roundtrip: "x = of_int \<lfloor>x\<rfloor> \<and> \<bar>\<lfloor>x\<rfloor>\<bar> < 2 ^ 24 \<Longrightarrow> float_of_int (f32_trunc x) = x"
  unfolding float_of_int_def by (metis f32_round_int f32_trunc_of_int)

lemma apply_params_state:
  assumes "juce_ok J" and "params_ok q"
  shows "apply_params J (vt_props (params_state q)) q' = q"
proof -
  have "float_of_int (f32_trunc (par_seed q)) = par_seed q" "float_of_int (f32_trunc (par_bpm q)) = par_bpm q"
    "float_of_int (f32_trunc (par_bars q)) = par_bars q"
    using assms(2) whole_roundtrip by (simp_all add: params_ok_def)
  then show ?thesis
    using assms(2) by (simp add: apply_params_def params_state_def juce_simps(1,2) [OF assms(1)] params_ok_def)
qed

text \<open>
  A preset saved and, whatever the parameters became meanwhile, chosen again sets every parameter
  to what it was when it was saved.
\<close>

theorem preset_roundtrip:
  assumes "juce_ok J" and "params_ok (apvts_params p)"
  shows "apvts_params (snd (onPresetSelected J
    ((onSavePreset J can_write e p)\<lparr>presetText := user_preset_name (presetManager e)\<rparr>) p2)) = apvts_params p"
proof -
  let ?m = "presetManager (onSavePreset J can_write e p)"
  have "map_of (presets ?m) (user_preset_name (presetManager e)) =
      Some \<lparr>ps_name = user_preset_name (presetManager e), ps_category = ''User'', ps_tags = ''user'',
        ps_state = Some (params_state (apvts_params p))\<rparr>"
    by (simp add: onSavePreset_def set_status_def refreshPresetList_def savePreset_def Let_def update_conv')
  moreover have "user_preset_name m \<noteq> ''''" for m by (simp add: user_preset_name_def)
  ultimately show ?thesis
    by (simp add: onPresetSelected_def hasPreset_def getPreset_def set_status_def Let_def
        apply_params_state [OF assms])
qed

theorem preset_roundtrip_witness:
  "apvts_params (snd (onPresetSelected std_juce
     ((onSavePreset std_juce (\<lambda>f. True) first_editor AiMidiComposerProcessor)
        \<lparr>presetText := user_preset_name (presetManager first_editor)\<rparr>)
     (AiMidiComposerProcessor\<lparr>apvts_params := default_params\<lparr>par_bpm := 60\<rparr>\<rparr>))) = default_params"
proof -
  have "f32_round (1/2) = 1/2" by code_simp
  then have "params_ok (apvts_params AiMidiComposerProcessor)"
    by (simp add: params_ok_def AiMidiComposerProcessor_def default_params_def)
  from preset_roundtrip [OF std_juce_ok this] show ?thesis
    by (simp add: AiMidiComposerProcessor_def)
qed

text \<open>
  Generating while a diff is shown leaves the diff on the piano roll and disables the button that
  would hide it.
\<close>

lemma generate_leaves_diff:
  "has_prompt J e \<Longrightarrow> roll_diffMode (pianoRoll e) \<Longrightarrow>
    roll_diffMode (pianoRoll (fst (onGenerate J e p))) \<and> \<not> diffEnabled (fst (onGenerate J e p))"
  by (simp add: has_prompt_def onGenerate_def addToHistory_def updateHistoryBox_def no_diff_def set_status_def Let_def)

text \<open>The choice of a preset never reads its key and scale: two presets that differ there act alike.\<close>

lemma key_and_scale_ignored:
  "apply_params J (s(''key'' := a, ''scale'' := b)) q = apply_params J s q"
  by (simp add: apply_params_def)

end
