(* ===== verification/Fft.thy ===== *)
theory Fft
  imports Complex_Main Prelude
begin

text \<open>
  The fast Fourier transform of the analysis tool (\<open>dsp/fft.cpp\<close>). The arithmetic of \<open>float\<close> and of
  \<open>std::complex<float>\<close>, and the cosines and sines of the twiddle factors, are parameters: the
  rounding of a complex product is not fixed by the language. The theorems are about exact
  arithmetic: there the algorithm computes the discrete Fourier transform, and its inverse
  undoes it.
\<close>

record ('f, 'c) cplx_arith =
  c_of :: "'f \<Rightarrow> 'c"
  c_add :: "'c \<Rightarrow> 'c \<Rightarrow> 'c"
  c_sub :: "'c \<Rightarrow> 'c \<Rightarrow> 'c"
  c_mul :: "'c \<Rightarrow> 'c \<Rightarrow> 'c"
  c_conj :: "'c \<Rightarrow> 'c"
  c_re :: "'c \<Rightarrow> 'f"
  c_twiddle :: "nat \<Rightarrow> nat \<Rightarrow> 'c"
  f_recip :: "nat \<Rightarrow> 'f"
  f_mul :: "'f \<Rightarrow> 'f \<Rightarrow> 'f"

record 'c fft =
  fft_size :: nat
  fft_rev :: "nat list"
  fft_twiddle :: "'c list"

subsection \<open>The constructor\<close>

text \<open>The loop \<open>for (bit = 1; bit < size; bit <<= 1) j = (j << 1) | ((i & bit) ? 1 : 0)\<close>.\<close>

function rev_loop :: "nat \<Rightarrow> nat \<Rightarrow> nat \<Rightarrow> nat \<Rightarrow> nat" where
  "rev_loop i sz msk j =
     (if 0 < msk \<and> msk < sz
      then rev_loop i sz (2 * msk) (2 * j + (if (i div msk) mod 2 = 1 then 1 else 0))
      else j)"
  by pat_completeness auto
termination by (relation "measure (\<lambda>(i, sz, msk, j). sz - msk)") auto

declare rev_loop.simps [simp del]

text \<open>\<open>None\<close> is the failed assertion: the size is no power of two (and not 0).\<close>

definition make_fft :: "('f, 'c) cplx_arith \<Rightarrow> nat \<Rightarrow> 'c fft option" where
  "make_fft A sz =
     (if sz AND (sz - 1) \<noteq> 0 then None
      else Some \<lparr>fft_size = sz, fft_rev = map (\<lambda>i. rev_loop i sz 1 0) [0..<sz],
                 fft_twiddle = map (\<lambda>i. c_twiddle A i sz) [0..<sz div 2]\<rparr>)"

definition bin_count :: "'c fft \<Rightarrow> nat" where
  "bin_count F = fft_size F div 2 + 1"

subsection \<open>The butterflies\<close>

definition butterfly :: "('f, 'c) cplx_arith \<Rightarrow> 'c fft \<Rightarrow> nat \<Rightarrow> nat \<Rightarrow> nat \<Rightarrow> 'c list \<Rightarrow> 'c list" where
  "butterfly A F len i j out =
     (let half = len div 2; w = fft_twiddle F ! (j * fft_size F div len);
          u = out ! (i + j); v = c_mul A (out ! (i + j + half)) w
      in out[i + j := c_add A u v, i + j + half := c_sub A u v])"

definition block_loop :: "('f, 'c) cplx_arith \<Rightarrow> 'c fft \<Rightarrow> nat \<Rightarrow> nat \<Rightarrow> 'c list \<Rightarrow> 'c list" where
  "block_loop A F len i out = fold (butterfly A F len i) [0..<len div 2] out"

function stage_loop :: "('f, 'c) cplx_arith \<Rightarrow> 'c fft \<Rightarrow> nat \<Rightarrow> nat \<Rightarrow> 'c list \<Rightarrow> 'c list" where
  "stage_loop A F len i out =
     (if i < fft_size F \<and> 0 < len then stage_loop A F len (i + len) (block_loop A F len i out) else out)"
  by pat_completeness auto
termination by (relation "measure (\<lambda>(A, F, len, i, out). fft_size F - i)") auto

declare stage_loop.simps [simp del]

function stages :: "('f, 'c) cplx_arith \<Rightarrow> 'c fft \<Rightarrow> nat \<Rightarrow> 'c list \<Rightarrow> 'c list" where
  "stages A F len out =
     (if 0 < len \<and> len \<le> fft_size F then stages A F (2 * len) (stage_loop A F len 0 out) else out)"
  by pat_completeness auto
termination by (relation "measure (\<lambda>(A, F, len, out). Suc (fft_size F) - len)") auto

declare stages.simps [simp del]

definition fft_forward :: "('f, 'c) cplx_arith \<Rightarrow> 'c fft \<Rightarrow> 'f list \<Rightarrow> 'c list" where
  "fft_forward A F input =
     stages A F 2 (map (\<lambda>i. c_of A (input ! (fft_rev F ! i))) [0..<fft_size F])"

definition fft_inverse :: "('f, 'c) cplx_arith \<Rightarrow> 'c fft \<Rightarrow> 'c list \<Rightarrow> 'f list" where
  "fft_inverse A F input =
     (let buf = stages A F 2 (map (\<lambda>i. c_conj A (input ! (fft_rev F ! i))) [0..<fft_size F])
      in map (\<lambda>x. f_mul A (c_re A (c_conj A x)) (f_recip A (fft_size F))) buf)"

subsection \<open>Bit reversal\<close>

fun bit_rev :: "nat \<Rightarrow> nat \<Rightarrow> nat" where
  "bit_rev 0 b = 0"
| "bit_rev (Suc t) b = (b mod 2) * 2 ^ t + bit_rev t (b div 2)"

lemma bit_rev_less: "bit_rev t b < 2 ^ t"
proof (induction t arbitrary: b)
  case (Suc t)
  show ?case
    using Suc.IH [of "b div 2"] by (cases "even b") (simp_all add: even_iff_mod_2_eq_zero odd_iff_mod_2_eq_one)
qed simp

lemma rev_loop_bits:
  "rev_loop i (2 ^ (s + t)) (2 ^ s) j = j * 2 ^ t + bit_rev t (i div 2 ^ s)"
proof (induction t arbitrary: s j)
  case 0
  then show ?case by (simp add: rev_loop.simps)
next
  case (Suc t)
  have d: "i div 2 ^ Suc s = i div 2 ^ s div 2" by (simp only: power_Suc2 div_mult2_eq)
  have lt: "(2 :: nat) ^ s < 2 ^ (s + Suc t)" by (rule power_strict_increasing) simp_all
  have "rev_loop i (2 ^ (s + Suc t)) (2 ^ s) j =
      rev_loop i (2 ^ (Suc s + t)) (2 ^ Suc s) (2 * j + (if (i div 2 ^ s) mod 2 = 1 then 1 else 0))"
    using lt by (subst rev_loop.simps) simp
  also have "\<dots> = (2 * j + (if (i div 2 ^ s) mod 2 = 1 then 1 else 0)) * 2 ^ t + bit_rev t (i div 2 ^ Suc s)"
    by (rule Suc.IH)
  also have "\<dots> = j * 2 ^ Suc t + bit_rev (Suc t) (i div 2 ^ s)"
    by (simp add: d [unfolded power_Suc] distrib_right)
  finally show ?case .
qed

corollary rev_loop_bit_rev: "rev_loop i (2 ^ t) 1 0 = bit_rev t i"
  using rev_loop_bits [of i 0 t 0] by simp

text \<open>Reversing twice gives the index back: the table is a permutation that is its own inverse.\<close>

lemma bit_rev_low: "b < 2 ^ t \<Longrightarrow> bit_rev (Suc t) (b + 2 ^ t * c) = 2 * bit_rev t b + c mod 2"
proof (induction t arbitrary: b)
  case (Suc t)
  have "(b + 2 ^ Suc t * c) mod 2 = b mod 2" and "(b + 2 ^ Suc t * c) div 2 = b div 2 + 2 ^ t * c"
    by (simp_all add: mult.assoc)
  moreover have "b div 2 < 2 ^ t" using Suc.prems by simp
  ultimately show ?case using Suc.IH [of "b div 2"] by (simp add: algebra_simps)
qed simp

lemma bit_rev_involution: "b < 2 ^ t \<Longrightarrow> bit_rev t (bit_rev t b) = b"
proof (induction t arbitrary: b)
  case (Suc t)
  have "bit_rev (Suc t) (bit_rev (Suc t) b) = bit_rev (Suc t) (bit_rev t (b div 2) + 2 ^ t * (b mod 2))"
    by (simp add: mult.commute add.commute)
  also have "\<dots> = 2 * bit_rev t (bit_rev t (b div 2)) + b mod 2 mod 2"
    by (rule bit_rev_low [OF bit_rev_less])
  also have "\<dots> = b" using Suc.IH [of "b div 2"] Suc.prems by simp
  finally show ?case .
qed simp

subsection \<open>What a stage does\<close>

lemma butterfly_nth:
  assumes "i + len div 2 + j < length out" and "j < len div 2"
  shows "butterfly A F len i j out ! p =
    (if p = i + j then c_add A (out ! (i + j)) (c_mul A (out ! (i + j + len div 2)) (fft_twiddle F ! (j * fft_size F div len)))
     else if p = i + j + len div 2 then c_sub A (out ! (i + j)) (c_mul A (out ! (i + j + len div 2)) (fft_twiddle F ! (j * fft_size F div len)))
     else out ! p)"
  using assms by (auto simp: butterfly_def Let_def nth_list_update)

lemma length_butterfly [simp]: "length (butterfly A F len i j out) = length out"
  by (simp add: butterfly_def Let_def)

lemma length_butterflies [simp]: "length (fold (butterfly A F len i) js out) = length out"
  by (induction js arbitrary: out) simp_all

text \<open>One pass over a block: each pair at distance \<open>len / 2\<close> once, from its values before.\<close>

definition paired :: "('f, 'c) cplx_arith \<Rightarrow> 'c fft \<Rightarrow> nat \<Rightarrow> nat \<Rightarrow> 'c list \<Rightarrow> nat \<Rightarrow> 'c" where
  "paired A F len i out k =
     (let h = len div 2; w = (\<lambda>k. fft_twiddle F ! (k * fft_size F div len))
      in if k < h then c_add A (out ! (i + k)) (c_mul A (out ! (i + k + h)) (w k))
         else c_sub A (out ! (i + (k - h))) (c_mul A (out ! (i + k)) (w (k - h))))"

lemma butterflies_nth:
  assumes "i + len \<le> length out" and "even len"
  shows "m \<le> len div 2 \<Longrightarrow> fold (butterfly A F len i) [0..<m] out ! p =
    (if i \<le> p \<and> p < i + len \<and> (p - i) mod (len div 2) < m then paired A F len i out (p - i) else out ! p)"
proof (induction m arbitrary: p)
  case (Suc m)
  let ?h = "len div 2"
  let ?o = "fold (butterfly A F len i) [0..<m] out"
  have len: "len = 2 * ?h" using assms(2) by simp
  have m: "m < ?h" using Suc.prems by simp
  have bound: "i + ?h + m < length ?o" using assms(1) m len by simp
  have o: "?o ! (i + m) = out ! (i + m)" "?o ! (i + m + ?h) = out ! (i + m + ?h)"
    using Suc.IH [of "i + m"] Suc.IH [of "i + m + ?h"] m len by simp_all
  have step: "fold (butterfly A F len i) [0..<Suc m] out ! p =
    (if p = i + m then paired A F len i out m
     else if p = i + m + ?h then paired A F len i out (m + ?h) else ?o ! p)"
    using butterfly_nth [OF bound m, of A F p] m by (simp add: o paired_def Let_def add.assoc [symmetric])
  have mods: "(m + ?h) mod ?h = m" "m mod ?h = m" using m by simp_all
  show ?case
  proof (cases "i \<le> p \<and> p < i + len \<and> (p - i) mod ?h = m")
    case True
    then have "(p - i) div ?h < 2" using m len by (intro div_less_iff_less_mult [THEN iffD2]) auto
    moreover have "p - i = (p - i) div ?h * ?h + m" using True by (metis div_mult_mod_eq)
    ultimately have "p = i + m \<or> p = i + m + ?h" using True by (cases "(p - i) div ?h") auto
    moreover have "m < len" "m + ?h < len" using m len by linarith+
    ultimately show ?thesis using m mods step by (elim disjE) (simp_all del: upt_Suc)
  next
    case False
    then have "p \<noteq> i + m" "p \<noteq> i + m + ?h" using m len mods by auto
    then have "fold (butterfly A F len i) [0..<Suc m] out ! p = ?o ! p" unfolding step by simp
    also have "\<dots> = (if i \<le> p \<and> p < i + len \<and> (p - i) mod ?h < m then paired A F len i out (p - i) else out ! p)"
      using Suc.prems by (intro Suc.IH) simp
    finally show ?thesis using False by (auto simp: less_Suc_eq)
  qed
qed simp

lemma block_nth:
  assumes "i + len \<le> length out" and "even len" and "0 < len"
  shows "block_loop A F len i out ! p = (if i \<le> p \<and> p < i + len then paired A F len i out (p - i) else out ! p)"
proof -
  have "(p - i) mod (len div 2) < len div 2" using assms(2,3) by (auto elim!: evenE)
  then show ?thesis using butterflies_nth [OF assms(1,2) order_refl, of A F p] by (simp add: block_loop_def)
qed

lemma length_block [simp]: "length (block_loop A F len i out) = length out"
  by (simp add: block_loop_def)

lemma paired_cong:
  "(\<And>p. i \<le> p \<Longrightarrow> p < i + len \<Longrightarrow> out ! p = out' ! p) \<Longrightarrow> even len \<Longrightarrow> k < len \<Longrightarrow>
    paired A F len i out k = paired A F len i out' k"
  by (auto simp: paired_def Let_def elim!: evenE)

text \<open>A stage treats the blocks independently.\<close>

lemma stage_nth:
  assumes "even len" and "0 < len" and "fft_size F = n * len"
  shows "c \<le> n \<Longrightarrow> length out = n * len \<Longrightarrow>
    length (stage_loop A F len (c * len) out) = length out \<and>
    (\<forall>b k. b < n \<longrightarrow> k < len \<longrightarrow> stage_loop A F len (c * len) out ! (b * len + k) =
      (if c \<le> b then paired A F len (b * len) out k else out ! (b * len + k)))"
proof (induction "n - c" arbitrary: c out)
  case 0
  then show ?case using assms(2,3) by (simp add: stage_loop.simps)
next
  case (Suc d)
  then have c: "c < n" by simp
  let ?o = "block_loop A F len (c * len) out"
  have le: "c * len + len \<le> length out" using c Suc.prems(2) mult_le_mono1 [of "Suc c" n len] by simp
  have step: "stage_loop A F len (c * len) out = stage_loop A F len (Suc c * len) ?o"
    using c assms(2,3) by (subst stage_loop.simps) (simp add: add.commute)
  have IH: "length (stage_loop A F len (Suc c * len) ?o) = length ?o \<and>
    (\<forall>b k. b < n \<longrightarrow> k < len \<longrightarrow> stage_loop A F len (Suc c * len) ?o ! (b * len + k) =
      (if Suc c \<le> b then paired A F len (b * len) ?o k else ?o ! (b * len + k)))"
    using Suc.hyps(2) c Suc.prems(2) by (intro Suc.hyps(1)) simp_all
  have own: "?o ! (c * len + k) = paired A F len (c * len) out k" if "k < len" for k
    using block_nth [OF le assms(1,2), of A F "c * len + k"] that by simp
  have other: "?o ! (b * len + k) = out ! (b * len + k)" if "b \<noteq> c" "k < len" for b k
  proof -
    have "\<not> (c * len \<le> b * len + k \<and> b * len + k < c * len + len)"
    proof
      assume "c * len \<le> b * len + k \<and> b * len + k < c * len + len"
      then have "(b * len + k) div len = c" using assms(2) by (intro div_nat_eqI) (simp_all add: mult.commute)
      with that show False by simp
    qed
    then show ?thesis using block_nth [OF le assms(1,2), of A F "b * len + k"] by auto
  qed
  have "paired A F len (b * len) ?o k = paired A F len (b * len) out k" if "b \<noteq> c" "k < len" for b k
  proof (rule paired_cong [OF _ assms(1) that(2)])
    fix p
    assume "b * len \<le> p" "p < b * len + len"
    then show "?o ! p = out ! p" using other [OF that(1), of "p - b * len"] by simp
  qed
  then show ?case
    unfolding step using IH own other by (auto simp: Suc_le_eq)
qed

subsection \<open>In exact arithmetic\<close>

definition exact_arith :: "(real, complex) cplx_arith" where
  "exact_arith =
     \<lparr>c_of = complex_of_real, c_add = (+), c_sub = (-), c_mul = (*), c_conj = cnj, c_re = Re,
      c_twiddle = (\<lambda>i sz. cis (- 2 * pi * real i / real sz)), f_recip = (\<lambda>sz. 1 / real sz), f_mul = (*)\<rparr>"

lemma exact_arith_simps [simp]:
  "c_of exact_arith = complex_of_real" "c_add exact_arith = (+)" "c_sub exact_arith = (-)"
  "c_mul exact_arith = (*)" "c_conj exact_arith = cnj" "c_re exact_arith = Re"
  "f_recip exact_arith sz = 1 / real sz" "f_mul exact_arith = (*)"
  by (simp_all add: exact_arith_def)

text \<open>The powers of the root of unity.\<close>

definition root_pow :: "nat \<Rightarrow> nat \<Rightarrow> complex" where
  "root_pow n m = cis (- 2 * pi * real m / real n)"

lemma root_pow_add: "root_pow n (a + b) = root_pow n a * root_pow n b"
  by (simp add: root_pow_def cis_mult diff_divide_distrib algebra_simps)

lemma root_pow_mult: "root_pow n (a * b) = root_pow n a ^ b"
  by (induction b) (simp_all add: root_pow_add, simp add: root_pow_def)

lemma root_pow_full: "0 < n \<Longrightarrow> root_pow n (n * m) = 1"
  unfolding root_pow_mult by (simp add: root_pow_def complex_eq_iff)

lemma root_pow_half: "0 < n \<Longrightarrow> root_pow (2 * n) n = -1"
  by (simp add: root_pow_def complex_eq_iff)

text \<open>What block \<open>b\<close> of length \<open>2^s\<close> holds: the transform of every \<open>2^(K-s)\<close>-th input from its offset.\<close>

definition dft_block :: "nat \<Rightarrow> nat \<Rightarrow> (nat \<Rightarrow> complex) \<Rightarrow> nat \<Rightarrow> nat \<Rightarrow> complex" where
  "dft_block K s x b k =
     (\<Sum>m<2 ^ s. x (m * 2 ^ (K - s) + bit_rev (K - s) b) * root_pow (2 ^ K) (m * k * 2 ^ (K - s)))"

lemma sum_even_odd: "(\<Sum>m<2 * n. f m) = (\<Sum>m<n. f (2 * m) + f (Suc (2 * m)) :: 'a :: comm_monoid_add)" for n :: nat
  by (induction n) (simp_all add: add.assoc)

lemma dft_block_step:
  assumes "s < K" and k: "k < 2 ^ s"
  defines "T \<equiv> K - Suc s"
  shows "dft_block K (Suc s) x b k =
      dft_block K s x (2 * b) k + dft_block K s x (2 * b + 1) k * root_pow (2 ^ K) (k * 2 ^ T)"
    and "dft_block K (Suc s) x b (k + 2 ^ s) =
      dft_block K s x (2 * b) k - dft_block K s x (2 * b + 1) k * root_pow (2 ^ K) (k * 2 ^ T)"
proof -
  have T: "K - s = Suc T" "K = s + Suc T" using assms(1) by (simp_all add: T_def)
  let ?W = "root_pow (2 ^ K)"
  let ?o = "\<lambda>m. x (2 * m * 2 ^ T + bit_rev T b)"
  let ?p = "\<lambda>m. x (Suc (2 * m) * 2 ^ T + bit_rev T b)"
  have full: "?W (m * 2 ^ K) = 1" for m using root_pow_full [of "2 ^ K" m] by (simp add: mult.commute)
  have half: "?W (Suc (2 * m) * 2 ^ (K - 1)) = -1" for m
  proof -
    have K: "(2 :: nat) ^ K = 2 * 2 ^ (K - 1)" using T by (simp add: power_Suc [symmetric] del: power_Suc)
    have "Suc (2 * m) * 2 ^ (K - 1) = m * 2 ^ K + 2 ^ (K - 1)" by (simp add: K)
    then show ?thesis using root_pow_half [of "2 ^ (K - 1)"] by (simp only: root_pow_add full) (simp add: K)
  qed
  have sub: "dft_block K s x (2 * b) k = (\<Sum>m<2 ^ s. ?o m * ?W (2 * m * k * 2 ^ T))"
    "dft_block K s x (2 * b + 1) k * ?W (k * 2 ^ T) = (\<Sum>m<2 ^ s. ?p m * ?W (Suc (2 * m) * k * 2 ^ T))"
  proof -
    have e: "bit_rev (Suc T) (2 * b) = bit_rev T b" "bit_rev (Suc T) (2 * b + 1) = 2 ^ T + bit_rev T b" by simp_all
    show "dft_block K s x (2 * b) k = (\<Sum>m<2 ^ s. ?o m * ?W (2 * m * k * 2 ^ T))"
      unfolding dft_block_def T(1) e by (intro sum.cong) (simp_all add: mult_ac)
    have "?W (m * k * 2 ^ Suc T) * ?W (k * 2 ^ T) = ?W (Suc (2 * m) * k * 2 ^ T)" for m
      unfolding root_pow_add [symmetric] by (simp add: algebra_simps)
    then have "(\<Sum>m<2 ^ s. x (m * 2 ^ Suc T + (2 ^ T + bit_rev T b)) * ?W (m * k * 2 ^ Suc T)) * ?W (k * 2 ^ T) =
        (\<Sum>m<2 ^ s. x (m * 2 ^ Suc T + (2 ^ T + bit_rev T b)) * ?W (Suc (2 * m) * k * 2 ^ T))"
      by (simp only: sum_distrib_right mult.assoc)
    then show "dft_block K s x (2 * b + 1) k * ?W (k * 2 ^ T) = (\<Sum>m<2 ^ s. ?p m * ?W (Suc (2 * m) * k * 2 ^ T))"
      unfolding dft_block_def T(1) e by (simp add: algebra_simps)
  qed
  have big: "dft_block K (Suc s) x b l = (\<Sum>m<2 ^ s. ?o m * ?W (2 * m * l * 2 ^ T)) +
      (\<Sum>m<2 ^ s. ?p m * ?W (Suc (2 * m) * l * 2 ^ T))" for l
    unfolding dft_block_def T_def [symmetric] power_Suc sum_even_odd by (simp only: sum.distrib)
  show "dft_block K (Suc s) x b k =
      dft_block K s x (2 * b) k + dft_block K s x (2 * b + 1) k * ?W (k * 2 ^ T)"
    unfolding sub big ..
  have "?W (2 * m * (k + 2 ^ s) * 2 ^ T) = ?W (2 * m * k * 2 ^ T)" for m
  proof -
    have "2 * m * (k + 2 ^ s) * 2 ^ T = 2 * m * k * 2 ^ T + m * 2 ^ K" unfolding T(2) by (simp add: algebra_simps power_add)
    then show ?thesis by (simp only: root_pow_add full mult_1_right)
  qed
  moreover have "?W (Suc (2 * m) * (k + 2 ^ s) * 2 ^ T) = - ?W (Suc (2 * m) * k * 2 ^ T)" for m
  proof -
    have "Suc (2 * m) * (k + 2 ^ s) * 2 ^ T = Suc (2 * m) * k * 2 ^ T + Suc (2 * m) * 2 ^ (K - 1)"
      unfolding T(2) by (simp add: algebra_simps power_add)
    then show ?thesis by (simp only: root_pow_add half) simp
  qed
  ultimately have "dft_block K (Suc s) x b (k + 2 ^ s) =
      (\<Sum>m<2 ^ s. ?o m * ?W (2 * m * k * 2 ^ T)) - (\<Sum>m<2 ^ s. ?p m * ?W (Suc (2 * m) * k * 2 ^ T))"
    unfolding big by (simp only: mult_minus_right sum_negf) simp
  then show "dft_block K (Suc s) x b (k + 2 ^ s) =
      dft_block K s x (2 * b) k - dft_block K s x (2 * b + 1) k * ?W (k * 2 ^ T)"
    unfolding sub .
qed

text \<open>A stage of the algorithm is that step, for every block.\<close>

definition holds_blocks :: "nat \<Rightarrow> nat \<Rightarrow> (nat \<Rightarrow> complex) \<Rightarrow> complex list \<Rightarrow> bool" where
  "holds_blocks K s x out \<longleftrightarrow> length out = 2 ^ K \<and>
     (\<forall>b < 2 ^ (K - s). \<forall>k < 2 ^ s. out ! (b * 2 ^ s + k) = dft_block K s x b k)"

definition exact_fft :: "nat \<Rightarrow> complex fft" where
  "exact_fft K = \<lparr>fft_size = 2 ^ K, fft_rev = map (bit_rev K) [0..<2 ^ K],
     fft_twiddle = map (\<lambda>i. root_pow (2 ^ K) i) [0..<2 ^ K div 2]\<rparr>"

lemma exact_fft_simps [simp]: "fft_size (exact_fft K) = 2 ^ K" "i < 2 ^ K \<Longrightarrow> fft_rev (exact_fft K) ! i = bit_rev K i"
  by (simp_all add: exact_fft_def)

lemma make_fft_exact: "make_fft exact_arith (2 ^ K) = Some (exact_fft K)"
proof -
  have "(2 :: nat) ^ K AND (2 ^ K - 1) = 0"
    using and_exp_eq_0_iff_not_bit [of "2 ^ K - 1 :: nat" K] by (simp add: bit_iff_odd ac_simps)
  then show ?thesis
    by (simp add: make_fft_def exact_fft_def exact_arith_def root_pow_def rev_loop_bit_rev [unfolded One_nat_def])
qed

lemma holds_blocks_step:
  assumes "s < K" and "holds_blocks K s x out"
  shows "holds_blocks K (Suc s) x (stage_loop exact_arith (exact_fft K) (2 ^ Suc s) 0 out)"
proof -
  define T where "T = K - Suc s"
  have T: "K - s = Suc T" "2 ^ K = 2 ^ T * (2 * 2 ^ s :: nat)"
    using assms(1) by (simp_all add: T_def power_add [symmetric] power_Suc [symmetric] del: power_Suc)
  let ?F = "exact_fft K"
  have len: "length out = 2 ^ T * 2 ^ Suc s" using assms(2) T(2) by (simp add: holds_blocks_def)
  have size: "fft_size ?F = 2 ^ T * 2 ^ Suc s" using T(2) by (simp add: exact_fft_def)
  have st: "length (stage_loop exact_arith ?F (2 ^ Suc s) (0 * 2 ^ Suc s) out) = length out \<and>
    (\<forall>b k. b < 2 ^ T \<longrightarrow> k < 2 ^ Suc s \<longrightarrow>
      stage_loop exact_arith ?F (2 ^ Suc s) (0 * 2 ^ Suc s) out ! (b * 2 ^ Suc s + k) =
      (if 0 \<le> b then paired exact_arith ?F (2 ^ Suc s) (b * 2 ^ Suc s) out k else out ! (b * 2 ^ Suc s + k)))"
    by (rule stage_nth [OF _ _ size]) (simp_all add: len)
  have val: "out ! (c * 2 ^ s + k) = dft_block K s x c k" if "c < 2 * 2 ^ T" "k < 2 ^ s" for c k
    using assms(2) that by (simp add: holds_blocks_def T(1))
  have tw: "fft_twiddle ?F ! (k * fft_size ?F div 2 ^ Suc s) = root_pow (2 ^ K) (k * 2 ^ T)" if "k < 2 ^ s" for k
  proof -
    have "k * fft_size ?F div 2 ^ Suc s = k * 2 ^ T" unfolding size by (simp add: mult.assoc [symmetric])
    moreover have "k * 2 ^ T < 2 ^ K div 2" using that T(2) by simp
    ultimately show ?thesis by (simp add: exact_fft_def)
  qed
  have pair: "paired exact_arith ?F (2 ^ Suc s) (b * 2 ^ Suc s) out k = dft_block K (Suc s) x b k"
    if b: "b < 2 ^ T" and k: "k < 2 ^ Suc s" for b k
  proof -
    have idx: "b * 2 ^ Suc s + j = (2 * b) * 2 ^ s + j" "b * 2 ^ Suc s + j + 2 ^ s = (2 * b + 1) * 2 ^ s + j" for j
      by (simp_all add: algebra_simps)
    have low: "out ! (b * 2 ^ Suc s + j) = dft_block K s x (2 * b) j"
      and high: "out ! (b * 2 ^ Suc s + j + 2 ^ s) = dft_block K s x (2 * b + 1) j" if "j < 2 ^ s" for j
      using b that unfolding idx(2) unfolding idx(1) by (intro val; simp)+
    have h: "(2 :: nat) ^ Suc s div 2 = 2 ^ s" by simp
    show ?thesis
    proof (cases "k < 2 ^ s")
      case True
      then show ?thesis
        using dft_block_step(1) [OF assms(1) True, of x b] low [OF True] high [OF True] tw [OF True]
        by (simp only: paired_def Let_def h if_True) (simp add: exact_arith_def T_def)
    next
      case False
      then obtain j where j: "k = j + 2 ^ s" "j < 2 ^ s" using k by (auto simp: not_less le_iff_add add.commute)
      then show ?thesis
        using dft_block_step(2) [OF assms(1) j(2), of x b] low [OF j(2)] high [OF j(2)] tw [OF j(2)]
        by (simp only: paired_def Let_def h) (simp add: exact_arith_def T_def add.assoc)
    qed
  qed
  from st pair len show ?thesis by (simp add: holds_blocks_def T_def [symmetric] T(2))
qed

lemma stages_hold:
  "s \<le> K \<Longrightarrow> holds_blocks K s x out \<Longrightarrow> holds_blocks K K x (stages exact_arith (exact_fft K) (2 ^ Suc s) out)"
proof (induction "K - s" arbitrary: s out)
  case 0
  then have "s = K" by simp
  moreover have "\<not> 2 ^ Suc K \<le> fft_size (exact_fft K)" by (simp add: exact_fft_def)
  ultimately show ?case using 0 by (subst stages.simps) simp
next
  case (Suc d)
  then have s: "s < K" by simp
  have "(2 :: nat) ^ Suc s \<le> 2 ^ K" using s by (intro power_increasing) simp_all
  then have "stages exact_arith (exact_fft K) (2 ^ Suc s) out =
      stages exact_arith (exact_fft K) (2 ^ Suc (Suc s)) (stage_loop exact_arith (exact_fft K) (2 ^ Suc s) 0 out)"
    by (subst stages.simps) (simp add: exact_fft_def)
  with Suc.hyps(1) [of "Suc s"] Suc.hyps(2) s holds_blocks_step [OF s Suc.prems(2)] show ?case by simp
qed

lemma transform_holds:
  "holds_blocks K K x (stages exact_arith (exact_fft K) 2 (map (\<lambda>i. x (bit_rev K i)) [0..<2 ^ K]))"
proof -
  have "root_pow (2 ^ K) 0 = 1" by (simp add: root_pow_def)
  then have "holds_blocks K 0 x (map (\<lambda>i. x (bit_rev K i)) [0..<2 ^ K])"
    by (simp add: holds_blocks_def dft_block_def)
  from stages_hold [OF _ this] show ?thesis by simp
qed

lemma transform_eq:
  "stages exact_arith (exact_fft K) 2 (map (\<lambda>i. x (bit_rev K i)) [0..<2 ^ K]) =
    map (\<lambda>k. \<Sum>m<2 ^ K. x m * root_pow (2 ^ K) (m * k)) [0..<2 ^ K]"
  (is "?S = _")
proof (rule nth_equalityI)
  have H: "length ?S = 2 ^ K" "\<And>k. k < 2 ^ K \<Longrightarrow> ?S ! k = dft_block K K x 0 k"
    using transform_holds [of K x] by (simp_all add: holds_blocks_def)
  then show "length ?S = length (map (\<lambda>k. \<Sum>m<2 ^ K. x m * root_pow (2 ^ K) (m * k)) [0..<2 ^ K])" by simp
  fix k
  assume "k < length ?S"
  with H show "?S ! k = map (\<lambda>k. \<Sum>m<2 ^ K. x m * root_pow (2 ^ K) (m * k)) [0..<2 ^ K] ! k"
    by (simp add: dft_block_def)
qed

lemma forward_eq:
  "fft_forward exact_arith (exact_fft K) input =
    map (\<lambda>k. \<Sum>m<2 ^ K. complex_of_real (input ! m) * root_pow (2 ^ K) (m * k)) [0..<2 ^ K]"
proof -
  have start: "map (\<lambda>i. c_of exact_arith (input ! (fft_rev (exact_fft K) ! i))) [0..<fft_size (exact_fft K)] =
      map (\<lambda>i. complex_of_real (input ! bit_rev K i)) [0..<2 ^ K]"
    by simp
  show ?thesis
    unfolding fft_forward_def start by (rule transform_eq [of K "\<lambda>m. complex_of_real (input ! m)"])
qed

lemma inverse_eq:
  "fft_inverse exact_arith (exact_fft K) X =
    map (\<lambda>k. Re (cnj (\<Sum>m<2 ^ K. cnj (X ! m) * root_pow (2 ^ K) (m * k))) * (1 / 2 ^ K)) [0..<2 ^ K]"
proof -
  have start: "map (\<lambda>i. c_conj exact_arith (X ! (fft_rev (exact_fft K) ! i))) [0..<fft_size (exact_fft K)] =
      map (\<lambda>i. cnj (X ! bit_rev K i)) [0..<2 ^ K]"
    by simp
  show ?thesis
    unfolding fft_inverse_def Let_def start transform_eq [of K "\<lambda>m. cnj (X ! m)"] map_map
    by (simp only: comp_def exact_arith_simps exact_fft_simps of_nat_power of_nat_numeral)
qed

text \<open>
  C34. The forward transform. For every power of two the constructor succeeds, and in exact
  arithmetic the butterflies compute the discrete Fourier transform of the input.
\<close>

theorem fft_computes_dft:
  assumes "length input = 2 ^ K"
  shows "\<exists>F. make_fft exact_arith (2 ^ K) = Some F \<and>
    fft_forward exact_arith F input =
      map (\<lambda>k. \<Sum>m<2 ^ K. complex_of_real (input ! m) * cis (- 2 * pi * real (m * k) / 2 ^ K)) [0..<2 ^ K]"
  using make_fft_exact [of K] forward_eq [of K input] by (simp add: root_pow_def)

theorem fft_computes_dft_witness:
  "\<exists>F. make_fft exact_arith 2 = Some F \<and> length (fft_forward exact_arith F [3, 1]) = 2"
  using fft_computes_dft [of "[3, 1]" 1] by auto

lemma root_pow_inj: "a < n \<Longrightarrow> b < n \<Longrightarrow> root_pow n a = root_pow n b \<Longrightarrow> a = b"
proof -
  assume ab: "a < n" "b < n" and eq: "root_pow n a = root_pow n b"
  have "cis (2 * pi * real m / real n) = cnj (root_pow n m)" for m
    by (simp add: root_pow_def cis_cnj)
  then have "cis (2 * pi * real a / real n) = cis (2 * pi * real b / real n)" using eq by simp
  moreover have "inj_on (\<lambda>k. cis (2 * pi * real k / real n)) {..<n}"
    using ab bij_betw_roots_unity [of n] by (auto simp: bij_betw_def)
  ultimately show "a = b" using ab by (auto dest: inj_onD)
qed

lemma root_pow_orthogonal:
  assumes "m < n" and "k < n"
  shows "(\<Sum>j<n. cnj (root_pow n (m * j)) * root_pow n (j * k)) = (if m = k then of_nat n else 0)"
proof -
  define z where "z = cnj (root_pow n m) * root_pow n k"
  have unit: "cnj (root_pow n a) * root_pow n a = 1" for a
    by (simp add: root_pow_def cis_cnj cis_mult)
  have "cnj (root_pow n (m * j)) * root_pow n (j * k) = z ^ j" for j
    unfolding z_def power_mult_distrib root_pow_mult mult.commute [of j k] by simp
  then have sum: "(\<Sum>j<n. cnj (root_pow n (m * j)) * root_pow n (j * k)) = (\<Sum>j<n. z ^ j)" by simp
  show ?thesis
  proof (cases "m = k")
    case True
    then show ?thesis using sum unit by (simp add: z_def)
  next
    case False
    have "z \<noteq> 1"
    proof
      assume "z = 1"
      have "root_pow n k = cnj (root_pow n m) * root_pow n m * root_pow n k" by (simp only: unit mult_1_left)
      also have "\<dots> = root_pow n m * z" unfolding z_def by (simp only: mult_ac)
      finally have "root_pow n k = root_pow n m" using \<open>z = 1\<close> by simp
      with root_pow_inj [OF assms(2,1)] False show False by simp
    qed
    moreover have "z ^ n = 1"
    proof -
      have "0 < n" using assms by simp
      then have "root_pow n a ^ n = 1" for a
        using root_pow_full [of n a] by (simp only: root_pow_mult [symmetric] mult.commute)
      then show ?thesis unfolding z_def power_mult_distrib complex_cnj_power [symmetric] by (simp only: complex_cnj_one mult_1)
    qed
    ultimately show ?thesis using sum False geometric_sum [of z n] by simp
  qed
qed

text \<open>
  C35. For a signal whose length is a power of two, the size of the transform, the inverse transform of the
  forward transform is the signal.
\<close>

theorem fft_roundtrip:
  assumes "length input = 2 ^ K" and "make_fft exact_arith (2 ^ K) = Some F"
  shows "fft_inverse exact_arith F (fft_forward exact_arith F input) = input"
proof -
  let ?N = "2 ^ K :: nat"
  let ?X = "fft_forward exact_arith (exact_fft K) input"
  have F: "F = exact_fft K" using assms(2) make_fft_exact [of K] by simp
  have X: "length ?X = 2 ^ K" "\<And>j. j < ?N \<Longrightarrow> ?X ! j = (\<Sum>m<?N. complex_of_real (input ! m) * root_pow ?N (m * j))"
    unfolding forward_eq by simp_all
  have "(\<Sum>j<?N. cnj (?X ! j) * root_pow ?N (j * k)) = of_nat ?N * complex_of_real (input ! k)" if k: "k < ?N" for k
  proof -
    have "(\<Sum>j<?N. cnj (?X ! j) * root_pow ?N (j * k)) =
        (\<Sum>j<?N. \<Sum>m<?N. complex_of_real (input ! m) * (cnj (root_pow ?N (m * j)) * root_pow ?N (j * k)))"
      by (intro sum.cong) (simp_all add: X(2) sum_distrib_right mult.assoc)
    also have "\<dots> = (\<Sum>m<?N. complex_of_real (input ! m) * (\<Sum>j<?N. cnj (root_pow ?N (m * j)) * root_pow ?N (j * k)))"
      by (subst sum.swap) (simp add: sum_distrib_left)
    also have "\<dots> = (\<Sum>m<?N. if m = k then of_nat ?N * complex_of_real (input ! k) else 0)"
      by (intro sum.cong) (simp_all add: root_pow_orthogonal [OF _ k])
    also have "\<dots> = of_nat ?N * complex_of_real (input ! k)" using k by simp
    finally show ?thesis .
  qed
  then have "Re (cnj (\<Sum>m<?N. cnj (?X ! m) * root_pow ?N (m * k))) * (1 / 2 ^ K) = input ! k" if "k < ?N" for k
    using that by (simp only:) simp
  then show ?thesis
    unfolding F inverse_eq using assms(1) by (intro nth_equalityI) (simp_all only: length_map length_upt nth_map nth_upt, simp_all)
qed

theorem fft_roundtrip_witness:
  "\<exists>F. make_fft exact_arith 4 = Some F \<and> fft_inverse exact_arith F (fft_forward exact_arith F [3, 1, 4, 1]) = [3, 1, 4, 1]"
proof -
  have F: "make_fft exact_arith 4 = Some (exact_fft 2)" using make_fft_exact [of 2] by simp
  then show ?thesis using fft_roundtrip [of "[3, 1, 4, 1]" 2 "exact_fft 2"] by simp
qed

text \<open>The table of the constructor is its own inverse.\<close>

lemma rev_table_involution:
  assumes "make_fft A (2 ^ K) = Some F" and "i < 2 ^ K"
  shows "fft_rev F ! i < 2 ^ K \<and> fft_rev F ! (fft_rev F ! i) = i"
  using assms bit_rev_less [of K i] bit_rev_involution [of i K]
  by (auto simp: make_fft_def rev_loop_bit_rev [unfolded One_nat_def] split: if_splits)

end
