(* ===== verification/Dsp_Arith.thy ===== *)
theory Dsp_Arith
  imports Complex_Main Prelude
begin

text \<open>
  The floating-point arithmetic of the analysis code (\<open>dsp/*.cpp\<close>). A \<open>float\<close> or a \<open>double\<close> is the
  real number it stands for; every operation is the exact one followed by a rounding. The two
  roundings and the functions of the C library whose accuracy no standard fixes are a parameter,
  the record \<open>libm\<close>. Infinities and NaN are not numbers: where the code can produce one, the model
  returns \<open>None\<close> or the theorem has a hypothesis. The theorems are either about every arithmetic or
  about \<open>exact\<close>, in which nothing is rounded.
\<close>

record libm =
  rd_f :: "real \<Rightarrow> real"
  rd_d :: "real \<Rightarrow> real"
  m_cos :: "real \<Rightarrow> real"
  m_sin :: "real \<Rightarrow> real"
  m_exp :: "real \<Rightarrow> real"
  m_pow :: "real \<Rightarrow> real \<Rightarrow> real"
  m_log2 :: "real \<Rightarrow> real"
  m_cabs :: "complex \<Rightarrow> real"

abbreviation fadd :: "libm \<Rightarrow> real \<Rightarrow> real \<Rightarrow> real" where "fadd L x y \<equiv> rd_f L (x + y)"
abbreviation fsub :: "libm \<Rightarrow> real \<Rightarrow> real \<Rightarrow> real" where "fsub L x y \<equiv> rd_f L (x - y)"
abbreviation fmul :: "libm \<Rightarrow> real \<Rightarrow> real \<Rightarrow> real" where "fmul L x y \<equiv> rd_f L (x * y)"
abbreviation fdiv :: "libm \<Rightarrow> real \<Rightarrow> real \<Rightarrow> real" where "fdiv L x y \<equiv> rd_f L (x / y)"
abbreviation dadd :: "libm \<Rightarrow> real \<Rightarrow> real \<Rightarrow> real" where "dadd L x y \<equiv> rd_d L (x + y)"
abbreviation dsub :: "libm \<Rightarrow> real \<Rightarrow> real \<Rightarrow> real" where "dsub L x y \<equiv> rd_d L (x - y)"
abbreviation dmul :: "libm \<Rightarrow> real \<Rightarrow> real \<Rightarrow> real" where "dmul L x y \<equiv> rd_d L (x * y)"
abbreviation ddiv :: "libm \<Rightarrow> real \<Rightarrow> real \<Rightarrow> real" where "ddiv L x y \<equiv> rd_d L (x / y)"

text \<open>\<open>M_PI\<close>, and \<open>static_cast<int>\<close>, which cuts the fraction off.\<close>

definition M_PI :: "libm \<Rightarrow> real" where
  "M_PI L = rd_d L pi"

definition trunc_int :: "real \<Rightarrow> int" where
  "trunc_int x = (if 0 \<le> x then \<lfloor>x\<rfloor> else \<lceil>x\<rceil>)"

definition exact :: libm where
  "exact = \<lparr>rd_f = (\<lambda>x. x), rd_d = (\<lambda>x. x), m_cos = cos, m_sin = sin, m_exp = exp, m_pow = (powr),
     m_log2 = log 2, m_cabs = cmod\<rparr>"

lemma exact_simps [simp]:
  "rd_f exact x = x" "rd_d exact x = x" "m_cos exact = cos" "m_sin exact = sin" "m_exp exact = exp"
  "m_pow exact = (powr)" "m_log2 exact = log 2" "m_cabs exact = cmod" "M_PI exact = pi"
  by (simp_all add: exact_def M_PI_def)

text \<open>
  \<open>std::accumulate\<close> and the summing loops of the code. In exact arithmetic they are sums.
\<close>

definition fsum :: "libm \<Rightarrow> real list \<Rightarrow> real" where
  "fsum L xs = foldl (fadd L) 0 xs"

lemma foldl_plus: "foldl (+) a xs = a + sum_list xs" for a :: real
  by (induction xs arbitrary: a) simp_all

lemma fsum_exact [simp]: "fsum exact xs = sum_list xs"
  by (simp add: fsum_def foldl_plus)

end
