(* ===== verification/Windows.thy ===== *)
theory Windows
  imports Dsp_Arith
begin

text \<open>
  The analysis windows (\<open>dsp/windows.cpp\<close>). The cosine windows are symmetric and stay between 0
  and 1; a window of one sample is NaN; in a Kaiser window the last coefficient is overwritten by the
  normalising constant.
\<close>

datatype WindowType = Rectangular | Hann | Hamming | Blackman | BlackmanHarris | Kaiser

record window =
  w_size :: nat
  w_type :: WindowType
  w_beta :: real
  coeffs :: "real list"

subsection \<open>The coefficients\<close>

text \<open>\<open>k * M_PI * n / (N - 1)\<close>, evaluated from the left.\<close>

definition angle :: "libm \<Rightarrow> real \<Rightarrow> nat \<Rightarrow> nat \<Rightarrow> real" where
  "angle L k sz n = ddiv L (dmul L (dmul L k (M_PI L)) (real n)) (real (sz - 1))"

fun cosine_window :: "libm \<Rightarrow> WindowType \<Rightarrow> nat \<Rightarrow> nat \<Rightarrow> real" where
  "cosine_window L Hann sz n = dmul L (1 / 2) (dsub L 1 (m_cos L (angle L 2 sz n)))"
| "cosine_window L Hamming sz n =
     dsub L (rd_d L 0.53836) (dmul L (rd_d L 0.46164) (m_cos L (angle L 2 sz n)))"
| "cosine_window L Blackman sz n =
     dadd L (dsub L (rd_d L 0.42) (dmul L (1 / 2) (m_cos L (angle L 2 sz n))))
       (dmul L (rd_d L 0.08) (m_cos L (angle L 4 sz n)))"
| "cosine_window L BlackmanHarris sz n =
     dsub L (dadd L (dsub L (rd_d L 0.35875) (dmul L (rd_d L 0.48829) (m_cos L (angle L 2 sz n))))
         (dmul L (rd_d L 0.14128) (m_cos L (angle L 4 sz n))))
       (dmul L (rd_d L 0.01168) (m_cos L (angle L 6 sz n)))"
| "cosine_window L _ sz n = 1"

text \<open>The Bessel series of \<open>kaiserBeta\<close>, with its early exit.\<close>

function i0_loop :: "libm \<Rightarrow> real \<Rightarrow> nat \<Rightarrow> real \<Rightarrow> real \<Rightarrow> real" where
  "i0_loop L x k acc tm =
     (if k \<le> 50
      then let f = ddiv L x (dmul L 2 (real k));
               tm = dmul L (dmul L tm f) f;
               acc = dadd L acc tm
           in if \<bar>tm\<bar> < rd_d L (1 / 10 ^ 15) then acc else i0_loop L x (k + 1) acc tm
      else acc)"
  by pat_completeness auto
termination by (relation "measure (\<lambda>(L, x, k, acc, tm). 51 - k)") auto

declare i0_loop.simps [simp del]

definition I0 :: "libm \<Rightarrow> real \<Rightarrow> real" where
  "I0 L x = i0_loop L x 1 1 1"

definition kaiser_coeff :: "libm \<Rightarrow> nat \<Rightarrow> real \<Rightarrow> nat \<Rightarrow> real" where
  "kaiser_coeff L sz beta n =
     (let t = dsub L (ddiv L (dmul L 2 (real n)) (dsub L (real sz) 1)) 1;
          arg = dmul L beta (rd_d L (sqrt (dsub L 1 (dmul L t t))))
      in rd_f L (ddiv L (I0 L arg) (I0 L beta)))"

text \<open>\<open>kaiserBeta\<close> fills the whole table and returns the normalising constant.\<close>

definition kaiserBeta :: "libm \<Rightarrow> real \<Rightarrow> window \<Rightarrow> window \<times> real" where
  "kaiserBeta L beta W =
     (W\<lparr>coeffs := map (kaiser_coeff L (w_size W) beta) [0..<w_size W]\<rparr>, I0 L beta)"

definition compute_step :: "libm \<Rightarrow> nat \<Rightarrow> window \<Rightarrow> window" where
  "compute_step L n W =
     (case w_type W of
        Kaiser \<Rightarrow> (let (W, w) = kaiserBeta L (w_beta W) W in W\<lparr>coeffs := (coeffs W)[n := rd_f L w]\<rparr>)
      | ty \<Rightarrow> W\<lparr>coeffs := (coeffs W)[n := rd_f L (cosine_window L ty (w_size W) n)]\<rparr>)"

definition compute :: "libm \<Rightarrow> window \<Rightarrow> window" where
  "compute L W = fold (compute_step L) [0..<w_size W] W"

text \<open>
  \<open>None\<close>: the only coefficient is NaN, the cosine of 0 divided by 0. (A Kaiser window of one sample
  divides by 0 as well, but that coefficient is overwritten.)
\<close>

definition Window :: "libm \<Rightarrow> nat \<Rightarrow> WindowType \<Rightarrow> real \<Rightarrow> window option" where
  "Window L sz ty beta =
     (if sz = 1 \<and> ty \<noteq> Rectangular \<and> ty \<noteq> Kaiser then None
      else Some (compute L \<lparr>w_size = sz, w_type = ty, w_beta = beta, coeffs = replicate sz 0\<rparr>))"

definition apply_window :: "libm \<Rightarrow> window \<Rightarrow> real list \<Rightarrow> real list" where
  "apply_window L W xs = fold (\<lambda>i xs. xs[i := fmul L (xs ! i) (coeffs W ! i)]) [0..<w_size W] xs"

subsection \<open>What the constructor leaves\<close>

lemma compute_step_cosine:
  "w_type W \<noteq> Kaiser \<Longrightarrow> compute_step L n W =
    W\<lparr>coeffs := (coeffs W)[n := rd_f L (cosine_window L (w_type W) (w_size W) n)]\<rparr>"
  by (cases "w_type W") (simp_all add: compute_step_def)

lemma compute_cosine:
  "w_type W \<noteq> Kaiser \<Longrightarrow> m \<le> length (coeffs W) \<Longrightarrow>
    fold (compute_step L) [0..<m] W =
      W\<lparr>coeffs := map (\<lambda>n. rd_f L (cosine_window L (w_type W) (w_size W) n)) [0..<m] @ drop m (coeffs W)\<rparr>"
proof (induction m)
  case (Suc m)
  have "(map f [0..<m] @ drop m cs)[m := f m] = map f [0..<Suc m] @ drop (Suc m) cs"
    if "m < length cs" for f :: "nat \<Rightarrow> real" and cs
    using that by (simp add: list_update_append Cons_nth_drop_Suc [symmetric])
  from this [of "coeffs W" "\<lambda>n. rd_f L (cosine_window L (w_type W) (w_size W) n)"] Suc
  show ?case by (simp add: compute_step_cosine)
qed simp

lemma compute_kaiser:
  "w_type W = Kaiser \<Longrightarrow> m \<le> w_size W \<Longrightarrow> 0 < m \<Longrightarrow>
    fold (compute_step L) [0..<m] W =
      W\<lparr>coeffs := (map (kaiser_coeff L (w_size W) (w_beta W)) [0..<w_size W])[m - 1 := rd_f L (I0 L (w_beta W))]\<rparr>"
proof (induction m)
  case (Suc m)
  then show ?case by (cases "m = 0") (simp_all add: compute_step_def kaiserBeta_def)
qed simp

lemma window_cosine:
  assumes "ty \<noteq> Kaiser" and "sz \<noteq> 1"
  shows "Window L sz ty beta =
    Some \<lparr>w_size = sz, w_type = ty, w_beta = beta, coeffs = map (\<lambda>n. rd_f L (cosine_window L ty sz n)) [0..<sz]\<rparr>"
  using assms compute_cosine [of "\<lparr>w_size = sz, w_type = ty, w_beta = beta, coeffs = replicate sz 0\<rparr>" sz L]
  by (simp add: Window_def compute_def)

lemma window_kaiser:
  assumes "0 < sz"
  shows "Window L sz Kaiser beta =
    Some \<lparr>w_size = sz, w_type = Kaiser, w_beta = beta,
      coeffs = (map (kaiser_coeff L sz beta) [0..<sz])[sz - 1 := rd_f L (I0 L beta)]\<rparr>"
  using assms compute_kaiser [of "\<lparr>w_size = sz, w_type = Kaiser, w_beta = beta, coeffs = replicate sz 0\<rparr>" sz L]
  by (simp add: Window_def compute_def)

lemma apply_window_prefix:
  "m \<le> length xs \<Longrightarrow> fold (\<lambda>i xs. xs[i := fmul L (xs ! i) (cs ! i)]) [0..<m] xs =
    map (\<lambda>i. fmul L (xs ! i) (cs ! i)) [0..<m] @ drop m xs"
proof (induction m)
  case (Suc m)
  then have "drop m xs = xs ! m # drop (Suc m) xs" by (simp add: Cons_nth_drop_Suc)
  with Suc show ?case by (simp add: list_update_append nth_append)
qed simp

text \<open>Applying a window multiplies sample by sample and leaves what lies behind it.\<close>

lemma apply_window_eq:
  "w_size W \<le> length xs \<Longrightarrow> apply_window L W xs =
    map (\<lambda>i. fmul L (xs ! i) (coeffs W ! i)) [0..<w_size W] @ drop (w_size W) xs"
  unfolding apply_window_def by (rule apply_window_prefix)

subsection \<open>Shape\<close>

lemma cos_reflect: "cos (real (2 * k) * pi * (real (sz - 1) - x) / real (sz - 1)) = cos (real (2 * k) * pi * x / real (sz - 1))"
  if "1 < sz"
proof -
  have "real (2 * k) * pi * (real (sz - 1) - x) / real (sz - 1) = 2 * pi * real k - real (2 * k) * pi * x / real (sz - 1)"
    using that by (simp add: field_simps)
  moreover have "cos (2 * pi * real k) = 1" "sin (2 * pi * real k) = 0"
    using cos_int_2pin [of "int k"] sin_int_2pin [of "int k"] by simp_all
  ultimately show ?thesis by (simp only: cos_diff mult_1_left mult_zero_left add_0_right)
qed

lemma angle_reflect:
  assumes "1 < sz" and "n < sz"
  shows "cos (angle exact (real (2 * k)) sz (sz - 1 - n)) = cos (angle exact (real (2 * k)) sz n)"
proof -
  have "real (sz - 1 - n) = real (sz - 1) - real n" using assms by simp
  then show ?thesis
    using cos_reflect [OF assms(1), of k "real n"] by (simp only: angle_def exact_simps)
qed

lemma cosine_window_symmetric:
  assumes "1 < sz" and "n < sz"
  shows "cosine_window exact ty sz (sz - 1 - n) = cosine_window exact ty sz n"
  using angle_reflect [OF assms, of 1] angle_reflect [OF assms, of 2] angle_reflect [OF assms, of 3]
  by (cases ty) simp_all

lemma cos_double_angle: "cos (angle exact 4 sz n) = 2 * (cos (angle exact 2 sz n))\<^sup>2 - 1"
proof -
  have "angle exact 4 sz n = 2 * angle exact 2 sz n" by (simp add: angle_def)
  then show ?thesis by (simp only: cos_double_cos)
qed

lemma cosine_window_bounds:
  assumes "ty \<in> {Rectangular, Hann, Hamming, Blackman}"
  shows "0 \<le> cosine_window exact ty sz n \<and> cosine_window exact ty sz n \<le> 1"
proof -
  define c where "c = cos (angle exact 2 sz n)"
  have c: "- 1 \<le> c" "c \<le> 1" by (simp_all add: c_def)
  have sq: "c\<^sup>2 \<le> 1" using c by (simp add: abs_square_le_1 abs_le_iff)
  have "0.42 - 1 / 2 * c + 0.08 * (2 * c\<^sup>2 - 1) = (1 - c) * (0.34 - 0.16 * c)"
    by (simp add: power2_eq_square field_simps)
  moreover have "0 \<le> (1 - c) * (0.34 - 0.16 * c)" using c by (intro mult_nonneg_nonneg) simp_all
  moreover have "0.42 - 1 / 2 * c + 0.08 * (2 * c\<^sup>2 - 1) \<le> 1" using c sq by (simp add: field_simps)
  ultimately show ?thesis
    using assms c by (auto simp: cos_double_angle c_def [symmetric])
qed

text \<open>
  The cosine windows of two samples or more: symmetric, and all but the Blackman-Harris one proved
  here to stay between 0 and 1; the Hann window vanishes at both ends.
\<close>

lemma window_shape:
  assumes "1 < sz" and "ty \<noteq> Kaiser" and "n < sz"
  shows "\<exists>W. Window exact sz ty beta = Some W \<and> length (coeffs W) = sz \<and>
    coeffs W ! (sz - 1 - n) = coeffs W ! n \<and>
    (ty \<noteq> BlackmanHarris \<longrightarrow> 0 \<le> coeffs W ! n \<and> coeffs W ! n \<le> 1) \<and>
    (ty = Hann \<longrightarrow> coeffs W ! 0 = 0)"
  using assms cosine_window_symmetric [OF assms(1,3), of ty] cosine_window_bounds [of ty sz n]
  by (cases ty) (simp_all add: window_cosine angle_def)

subsection \<open>The Kaiser window\<close>

lemma i0_loop_ge: "0 \<le> tm \<Longrightarrow> acc \<le> i0_loop exact x k acc tm"
proof (induction "exact" x k acc tm rule: i0_loop.induct)
  case (1 x k acc tm)
  have nonneg: "0 \<le> tm * (x / (2 * real k)) * (x / (2 * real k))"
    using "1.prems" by (simp add: mult.assoc)
  show ?case
    by (subst i0_loop.simps) (use "1.hyps" nonneg in \<open>force simp: Let_def\<close>)
qed

lemma I0_ge: "1 + (x / 2)\<^sup>2 \<le> I0 exact x"
proof -
  have tm: "1 * (x / (2 * real 1)) * (x / (2 * real 1)) = (x / 2)\<^sup>2" by (simp add: power2_eq_square)
  have nonneg: "0 \<le> (x / 2)\<^sup>2" by simp
  show ?thesis
    unfolding I0_def
    by (subst i0_loop.simps) (use i0_loop_ge [OF nonneg, of "1 + (x / 2)\<^sup>2" x 2] in
      \<open>simp add: Let_def power2_eq_square numeral_2_eq_2 [symmetric]\<close>)
qed

text \<open>
  A Kaiser window is not symmetric and not bounded by 1: the loop of \<open>compute\<close> overwrites the
  last coefficient with the normalising constant, which is larger than 1.
\<close>

lemma kaiser_window_broken:
  assumes "0 < sz" and "beta \<noteq> 0"
  shows "\<exists>W. Window exact sz Kaiser beta = Some W \<and> length (coeffs W) = sz \<and>
    (\<forall>n < sz - 1. coeffs W ! n = kaiser_coeff exact sz beta n) \<and>
    coeffs W ! (sz - 1) = I0 exact beta \<and> 1 < I0 exact beta"
proof -
  have "0 < (beta / 2)\<^sup>2" using assms(2) by simp
  then have "1 < I0 exact beta" using I0_ge [of beta] by linarith
  then show ?thesis using assms(1) by (simp add: window_kaiser)
qed

end
