(* ===== verification/Biquad.thy ===== *)
theory Biquad
  imports Dsp_Arith
begin

text \<open>
  The second-order filter and the smoother of \<open>dsp/biquad_filter.cpp\<close>. The theorems are about exact
  arithmetic: the state form computes the difference equation, every design is stable, and every
  filter settles, from any state, to the gains its name promises at 0 Hz, at half the sample rate and
  at its own frequency.
\<close>

record biquad =
  b0 :: real
  b1 :: real
  b2 :: real
  a1 :: real
  a2 :: real
  s1 :: real
  s2 :: real

definition BiquadFilter :: biquad where
  "BiquadFilter = \<lparr>b0 = 1, b1 = 0, b2 = 0, a1 = 0, a2 = 0, s1 = 0, s2 = 0\<rparr>"

definition setCoefficients :: "real \<Rightarrow> real \<Rightarrow> real \<Rightarrow> real \<Rightarrow> real \<Rightarrow> biquad \<Rightarrow> biquad" where
  "setCoefficients x0 x1 x2 y1 y2 B = B\<lparr>b0 := x0, b1 := x1, b2 := x2, a1 := y1, a2 := y2\<rparr>"

definition reset_filter :: "biquad \<Rightarrow> biquad" where
  "reset_filter B = B\<lparr>s1 := 0, s2 := 0\<rparr>"

subsection \<open>The designs\<close>

text \<open>The lines that the setters share: \<open>w0\<close>, and \<open>alpha\<close> of the first five.\<close>

definition w0_of :: "libm \<Rightarrow> real \<Rightarrow> real \<Rightarrow> real" where
  "w0_of L sampleRate cutoff = ddiv L (dmul L (dmul L 2 (M_PI L)) cutoff) sampleRate"

definition alpha_of :: "libm \<Rightarrow> real \<Rightarrow> real \<Rightarrow> real" where
  "alpha_of L sinW q = ddiv L sinW (dmul L 2 q)"

definition setLowPass :: "libm \<Rightarrow> real \<Rightarrow> real \<Rightarrow> real \<Rightarrow> biquad \<Rightarrow> biquad" where
  "setLowPass L sampleRate cutoff q B =
     (let w0 = w0_of L sampleRate cutoff; cosW = m_cos L w0; sinW = m_sin L w0;
          alpha = alpha_of L sinW q; nrm = ddiv L 1 (dadd L 1 alpha)
      in setCoefficients
           (dmul L (dmul L (dsub L 1 cosW) (1 / 2)) nrm)
           (dmul L (dsub L 1 cosW) nrm)
           (dmul L (dmul L (dsub L 1 cosW) (1 / 2)) nrm)
           (dmul L (dmul L (- 2) cosW) nrm)
           (dmul L (dsub L 1 alpha) nrm) B)"

definition setHighPass :: "libm \<Rightarrow> real \<Rightarrow> real \<Rightarrow> real \<Rightarrow> biquad \<Rightarrow> biquad" where
  "setHighPass L sampleRate cutoff q B =
     (let w0 = w0_of L sampleRate cutoff; cosW = m_cos L w0; sinW = m_sin L w0;
          alpha = alpha_of L sinW q; nrm = ddiv L 1 (dadd L 1 alpha)
      in setCoefficients
           (dmul L (dmul L (dadd L 1 cosW) (1 / 2)) nrm)
           (dmul L (- dadd L 1 cosW) nrm)
           (dmul L (dmul L (dadd L 1 cosW) (1 / 2)) nrm)
           (dmul L (dmul L (- 2) cosW) nrm)
           (dmul L (dsub L 1 alpha) nrm) B)"

definition setBandPass :: "libm \<Rightarrow> real \<Rightarrow> real \<Rightarrow> real \<Rightarrow> biquad \<Rightarrow> biquad" where
  "setBandPass L sampleRate cutoff q B =
     (let w0 = w0_of L sampleRate cutoff; cosW = m_cos L w0; sinW = m_sin L w0;
          alpha = alpha_of L sinW q; nrm = ddiv L 1 (dadd L 1 alpha)
      in setCoefficients
           (dmul L alpha nrm)
           0
           (dmul L (- alpha) nrm)
           (dmul L (dmul L (- 2) cosW) nrm)
           (dmul L (dsub L 1 alpha) nrm) B)"

definition setNotch :: "libm \<Rightarrow> real \<Rightarrow> real \<Rightarrow> real \<Rightarrow> biquad \<Rightarrow> biquad" where
  "setNotch L sampleRate cutoff q B =
     (let w0 = w0_of L sampleRate cutoff; cosW = m_cos L w0; sinW = m_sin L w0;
          alpha = alpha_of L sinW q; nrm = ddiv L 1 (dadd L 1 alpha)
      in setCoefficients
           nrm
           (dmul L (dmul L (- 2) cosW) nrm)
           nrm
           (dmul L (dmul L (- 2) cosW) nrm)
           (dmul L (dsub L 1 alpha) nrm) B)"

definition setPeak :: "libm \<Rightarrow> real \<Rightarrow> real \<Rightarrow> real \<Rightarrow> real \<Rightarrow> biquad \<Rightarrow> biquad" where
  "setPeak L sampleRate cutoff gain q B =
     (let w0 = w0_of L sampleRate cutoff; cosW = m_cos L w0; sinW = m_sin L w0;
          alpha = alpha_of L sinW q; A = m_pow L 10 (ddiv L gain 40);
          nrm = ddiv L 1 (dadd L 1 (ddiv L alpha A))
      in setCoefficients
           (dmul L (dadd L 1 (dmul L alpha A)) nrm)
           (dmul L (dmul L (- 2) cosW) nrm)
           (dmul L (dsub L 1 (dmul L alpha A)) nrm)
           (dmul L (dmul L (- 2) cosW) nrm)
           (dmul L (dsub L 1 (ddiv L alpha A)) nrm) B)"

text \<open>The shelves read \<open>q\<close> as a slope; for a steep one the square root is NaN (no real number).\<close>

definition shelf_alpha :: "libm \<Rightarrow> real \<Rightarrow> real \<Rightarrow> real \<Rightarrow> real" where
  "shelf_alpha L sinW A q =
     dmul L (ddiv L sinW 2)
       (rd_d L (sqrt (dadd L (dmul L (dadd L A (ddiv L 1 A)) (dsub L (ddiv L 1 q) 1)) 2)))"

definition setLowShelf :: "libm \<Rightarrow> real \<Rightarrow> real \<Rightarrow> real \<Rightarrow> real \<Rightarrow> biquad \<Rightarrow> biquad" where
  "setLowShelf L sampleRate cutoff gain q B =
     (let w0 = w0_of L sampleRate cutoff; cosW = m_cos L w0; sinW = m_sin L w0;
          A = m_pow L 10 (ddiv L gain 40); alpha = shelf_alpha L sinW A q;
          beta = dmul L (dmul L 2 (rd_d L (sqrt A))) alpha;
          nrm = ddiv L 1 (dadd L (dadd L (dadd L A 1) (dmul L (dsub L A 1) cosW)) beta)
      in setCoefficients
           (dmul L (dmul L A (dadd L (dsub L (dadd L A 1) (dmul L (dsub L A 1) cosW)) beta)) nrm)
           (dmul L (dmul L (dmul L 2 A) (dsub L (dsub L A 1) (dmul L (dadd L A 1) cosW))) nrm)
           (dmul L (dmul L A (dsub L (dsub L (dadd L A 1) (dmul L (dsub L A 1) cosW)) beta)) nrm)
           (dmul L (dmul L (- 2) (dadd L (dsub L A 1) (dmul L (dadd L A 1) cosW))) nrm)
           (dmul L (dsub L (dadd L (dadd L A 1) (dmul L (dsub L A 1) cosW)) beta) nrm) B)"

definition setHighShelf :: "libm \<Rightarrow> real \<Rightarrow> real \<Rightarrow> real \<Rightarrow> real \<Rightarrow> biquad \<Rightarrow> biquad" where
  "setHighShelf L sampleRate cutoff gain q B =
     (let w0 = w0_of L sampleRate cutoff; cosW = m_cos L w0; sinW = m_sin L w0;
          A = m_pow L 10 (ddiv L gain 40); alpha = shelf_alpha L sinW A q;
          beta = dmul L (dmul L 2 (rd_d L (sqrt A))) alpha;
          nrm = ddiv L 1 (dadd L (dsub L (dadd L A 1) (dmul L (dsub L A 1) cosW)) beta)
      in setCoefficients
           (dmul L (dmul L A (dadd L (dadd L (dadd L A 1) (dmul L (dsub L A 1) cosW)) beta)) nrm)
           (dmul L (dmul L (dmul L (- 2) A) (dadd L (dsub L A 1) (dmul L (dadd L A 1) cosW))) nrm)
           (dmul L (dmul L A (dsub L (dadd L (dadd L A 1) (dmul L (dsub L A 1) cosW)) beta)) nrm)
           (dmul L (dmul L 2 (dsub L (dsub L A 1) (dmul L (dadd L A 1) cosW))) nrm)
           (dmul L (dsub L (dsub L (dadd L A 1) (dmul L (dsub L A 1) cosW)) beta) nrm) B)"

subsection \<open>Processing\<close>

definition process_sample :: "libm \<Rightarrow> real \<Rightarrow> biquad \<Rightarrow> real \<times> biquad" where
  "process_sample L x B =
     (let y = dadd L (dmul L (b0 B) x) (s1 B);
          B = B\<lparr>s1 := dadd L (dsub L (dmul L (b1 B) x) (dmul L (a1 B) y)) (s2 B)\<rparr>;
          B = B\<lparr>s2 := dsub L (dmul L (b2 B) x) (dmul L (a2 B) y)\<rparr>
      in (rd_f L y, B))"

fun process_samples :: "libm \<Rightarrow> real list \<Rightarrow> biquad \<Rightarrow> real list \<times> biquad" where
  "process_samples L [] B = ([], B)"
| "process_samples L (x # xs) B =
     (let (y, B) = process_sample L x B; (ys, B) = process_samples L xs B in (y # ys, B))"

subsection \<open>The smoother\<close>

record smoother =
  sm_a :: real
  sm_state :: real
  sm_target :: real

definition OnePoleSmoother :: smoother where
  "OnePoleSmoother = \<lparr>sm_a = 1, sm_state = 0, sm_target = 0\<rparr>"

definition setTimeConstant :: "libm \<Rightarrow> real \<Rightarrow> real \<Rightarrow> smoother \<Rightarrow> smoother" where
  "setTimeConstant L tau sampleRate S =
     S\<lparr>sm_a := dsub L 1 (m_exp L (ddiv L (- 1) (dmul L tau sampleRate)))\<rparr>"

definition setTarget :: "real \<Rightarrow> smoother \<Rightarrow> smoother" where
  "setTarget x S = S\<lparr>sm_target := x\<rparr>"

definition smooth :: "libm \<Rightarrow> smoother \<Rightarrow> real \<times> smoother" where
  "smooth L S =
     (let S = S\<lparr>sm_state := dadd L (sm_state S) (dmul L (sm_a S) (dsub L (sm_target S) (sm_state S)))\<rparr>
      in (rd_f L (sm_state S), S))"

text \<open>
  The distance to the target shrinks by the factor \<open>exp(-1 / (tau * rate))\<close> with every sample: after
  \<open>tau\<close> seconds, to \<open>1 / e\<close> of what it was.
\<close>

lemma smooth_step:
  "sm_target (snd (smooth exact S)) = sm_target S \<and> sm_a (snd (smooth exact S)) = sm_a S \<and>
    sm_target S - sm_state (snd (smooth exact S)) = (1 - sm_a S) * (sm_target S - sm_state S)"
  by (simp add: smooth_def Let_def algebra_simps)

lemma smoother_decay:
  "sm_target S - sm_state (((\<lambda>S. snd (smooth exact S)) ^^ n) (setTimeConstant exact tau rate S)) =
    exp (- (real n / (tau * rate))) * (sm_target S - sm_state S)"
proof -
  define c where "c = exp (- (1 / (tau * rate)))"
  let ?run = "\<lambda>n. (\<lambda>S. snd (smooth exact S)) ^^ n"
  have "sm_target (?run n T) = sm_target T \<and> sm_a (?run n T) = sm_a T \<and>
      sm_target T - sm_state (?run n T) = (1 - sm_a T) ^ n * (sm_target T - sm_state T)" for T
  proof (induction n)
    case (Suc n)
    then show ?case using smooth_step [of "?run n T"] by simp
  qed simp
  from this [of "setTimeConstant exact tau rate S"] have
    "sm_target S - sm_state (?run n (setTimeConstant exact tau rate S)) = c ^ n * (sm_target S - sm_state S)"
    by (simp add: setTimeConstant_def c_def)
  moreover have "c ^ n = exp (- (real n / (tau * rate)))" by (simp add: c_def exp_of_nat_mult [symmetric])
  ultimately show ?thesis by simp
qed

subsection \<open>The difference equation\<close>

text \<open>The states and the outputs for an endless input; \<open>process_samples\<close> computes their beginning.\<close>

fun run :: "biquad \<Rightarrow> (nat \<Rightarrow> real) \<Rightarrow> nat \<Rightarrow> biquad" where
  "run B x 0 = B"
| "run B x (Suc n) = snd (process_sample exact (x n) (run B x n))"

definition response :: "biquad \<Rightarrow> (nat \<Rightarrow> real) \<Rightarrow> nat \<Rightarrow> real" where
  "response B x n = fst (process_sample exact (x n) (run B x n))"

lemma process_samples_append:
  "process_samples L (xs @ [x]) B =
    (let (ys, B) = process_samples L xs B; (y, B) = process_sample L x B in (ys @ [y], B))"
  by (induction xs arbitrary: B) (simp_all add: Let_def split: prod.split)

lemma process_samples_run:
  "process_samples exact (map x [0..<n]) B = (map (response B x) [0..<n], run B x n)"
proof (induction n)
  case (Suc n)
  then show ?case by (simp add: process_samples_append response_def prod_eq_iff Let_def split: prod.split)
qed simp

lemma run_coeffs:
  "b0 (run B x n) = b0 B \<and> b1 (run B x n) = b1 B \<and> b2 (run B x n) = b2 B \<and> a1 (run B x n) = a1 B \<and> a2 (run B x n) = a2 B"
  by (induction n) (simp_all add: process_sample_def Let_def)

lemma response_state: "response B x n = b0 B * x n + s1 (run B x n)"
  using run_coeffs [of B x n] by (simp add: response_def process_sample_def Let_def)

lemma run_state:
  "s1 (run B x (Suc n)) = b1 B * x n - a1 B * response B x n + s2 (run B x n)"
  "s2 (run B x (Suc n)) = b2 B * x n - a2 B * response B x n"
  using run_coeffs [of B x n] by (simp_all add: response_state process_sample_def Let_def)

lemma difference_equation:
  "response B x (n + 2) =
    b0 B * x (n + 2) + b1 B * x (n + 1) + b2 B * x n - a1 B * response B x (n + 1) - a2 B * response B x n"
proof -
  have "response B x (Suc (Suc n)) = b0 B * x (Suc (Suc n)) + s1 (run B x (Suc (Suc n)))" by (rule response_state)
  also have "s1 (run B x (Suc (Suc n))) = b1 B * x (Suc n) - a1 B * response B x (Suc n) + s2 (run B x (Suc n))"
    by (rule run_state)
  also have "s2 (run B x (Suc n)) = b2 B * x n - a2 B * response B x n" by (rule run_state)
  finally show ?thesis by simp
qed

subsection \<open>Stability\<close>

definition stable :: "biquad \<Rightarrow> bool" where
  "stable B \<longleftrightarrow> \<bar>a2 B\<bar> < 1 \<and> \<bar>a1 B\<bar> < 1 + a2 B"

text \<open>The triangle is the condition that both poles are inside the unit circle.\<close>

lemma quadratic_poles:
  assumes "\<bar>q\<bar> < 1" and "\<bar>p\<bar> < 1 + q"
  shows "\<exists>r s :: complex. r + s = complex_of_real (- p) \<and> r * s = complex_of_real q \<and> cmod r < 1 \<and> cmod s < 1"
proof (cases "0 \<le> p\<^sup>2 - 4 * q")
  case True
  define d where "d = sqrt (p\<^sup>2 - 4 * q)"
  have dd: "d * d = p * p - 4 * q" "0 \<le> d" using True by (simp_all add: d_def power2_eq_square)
  let ?r = "(- p + d) / 2" and ?s = "(- p - d) / 2"
  have "d < 2 - \<bar>p\<bar>"
  proof (rule power2_less_imp_less)
    have "\<bar>p\<bar> * \<bar>p\<bar> = p * p" by simp
    then show "d\<^sup>2 < (2 - \<bar>p\<bar>)\<^sup>2" using dd assms(2) by (simp add: power2_eq_square algebra_simps)
    show "0 \<le> 2 - \<bar>p\<bar>" using assms by linarith
  qed
  then have "\<bar>?r\<bar> < 1" "\<bar>?s\<bar> < 1" using dd(2) by (auto simp: abs_less_iff abs_if split: if_splits)
  moreover have "?r + ?s = - p" "?r * ?s = q" using dd(1) by (simp_all add: field_simps)
  moreover have "complex_of_real u + complex_of_real v = complex_of_real (- p) \<and>
      complex_of_real u * complex_of_real v = complex_of_real q \<and> cmod (complex_of_real u) < 1 \<and> cmod (complex_of_real v) < 1"
    if "\<bar>u\<bar> < 1" "\<bar>v\<bar> < 1" "u + v = - p" "u * v = q" for u v :: real
    using that by (simp only: of_real_add [symmetric] of_real_mult [symmetric] norm_of_real simp_thms)
  ultimately show ?thesis by blast
next
  case False
  define e where "e = sqrt (4 * q - p\<^sup>2)"
  have e: "e * e = 4 * q - p * p" using False by (simp add: e_def power2_eq_square)
  let ?r = "Complex (- p / 2) (e / 2)"
  have "(cmod ?r)\<^sup>2 = q" using e by (simp add: cmod_def power2_eq_square algebra_simps)
  then have "cmod ?r < 1" using assms(1) by (metis abs_less_iff norm_ge_zero one_power2 power2_less_imp_less zero_le_one)
  moreover have "?r * cnj ?r = complex_of_real q"
    using e by (simp add: complex_eq_iff algebra_simps)
  ultimately show ?thesis
    by (intro exI [of _ ?r] exI [of _ "cnj ?r"]) (simp add: complex_eq_iff)
qed

text \<open>A recurrence with a decaying input decays.\<close>

lemma first_order_decay:
  fixes u y :: "nat \<Rightarrow> complex"
  assumes y: "\<And>n. y (Suc n) = r * y n + u n" and u: "\<And>n. cmod (u n) \<le> C * \<rho> ^ n"
    and r: "cmod r \<le> \<rho>" "0 < \<rho>" "0 \<le> C"
  shows "cmod (y n) \<le> (cmod (y 0) + C * real n / \<rho>) * \<rho> ^ n"
proof (induction n)
  case (Suc n)
  have "cmod (y (Suc n)) \<le> cmod r * cmod (y n) + cmod (u n)"
    unfolding y by (metis norm_mult norm_triangle_ineq)
  also have "\<dots> \<le> \<rho> * ((cmod (y 0) + C * real n / \<rho>) * \<rho> ^ n) + C * \<rho> ^ n"
    using Suc r by (intro add_mono mult_mono u) auto
  also have "\<dots> = (cmod (y 0) + C * real (Suc n) / \<rho>) * \<rho> ^ Suc n"
    using r(2) by (simp add: field_simps)
  finally show ?case .
qed simp

lemma second_order_decay:
  fixes y :: "nat \<Rightarrow> real"
  assumes rec: "\<And>n. y (n + 2) = - p * y (n + 1) - q * y n" and "\<bar>q\<bar> < 1" "\<bar>p\<bar> < 1 + q"
  shows "y \<longlonglongrightarrow> 0"
proof -
  from quadratic_poles [OF assms(2,3)] obtain r s :: complex where
    rs: "r + s = complex_of_real (- p)" "r * s = complex_of_real q" "cmod r < 1" "cmod s < 1" by blast
  define \<rho> where "\<rho> = (max (cmod r) (cmod s) + 1) / 2"
  have \<rho>: "cmod r \<le> \<rho>" "cmod s \<le> \<rho>" "0 < \<rho>" "\<rho> < 1"
    using rs(3,4) norm_ge_zero [of r] by (auto simp: \<rho>_def max_def simp del: norm_ge_zero)
  let ?y = "\<lambda>n. complex_of_real (y n)"
  define u where "u n = ?y (Suc n) - r * ?y n" for n
  have "u (Suc n) = s * u n" for n
  proof -
    have "?y (Suc (Suc n)) = (r + s) * ?y (Suc n) - (r * s) * ?y n"
      using rec [of n] by (simp add: rs(1,2))
    then show ?thesis by (simp add: u_def algebra_simps)
  qed
  then have closed: "u n = s ^ n * u 0" for n by (induction n) simp_all
  have "cmod (u n) \<le> cmod (u 0) * \<rho> ^ n" for n
  proof -
    have "cmod (u n) = cmod (u 0) * cmod s ^ n"
      by (subst closed) (simp only: norm_mult norm_power mult.commute)
    also have "\<dots> \<le> cmod (u 0) * \<rho> ^ n" by (intro mult_left_mono power_mono \<rho>(2) norm_ge_zero)
    finally show ?thesis .
  qed
  then have "cmod (?y n) \<le> (cmod (?y 0) + cmod (u 0) * real n / \<rho>) * \<rho> ^ n" for n
    by (intro first_order_decay [of ?y r u] \<rho>(1,3) norm_ge_zero) (simp_all add: u_def)
  moreover have "(cmod (?y 0) + cmod (u 0) * real n / \<rho>) * \<rho> ^ n =
      \<bar>y 0\<bar> * \<rho> ^ n + cmod (u 0) / \<rho> * (real n * \<rho> ^ n)" for n
    by (simp only: distrib_right times_divide_eq_left times_divide_eq_right norm_of_real mult.assoc)
  ultimately have bound: "\<bar>y n\<bar> \<le> \<bar>y 0\<bar> * \<rho> ^ n + cmod (u 0) / \<rho> * (real n * \<rho> ^ n)" for n
    by (simp only: norm_of_real)
  have "(\<lambda>n. \<bar>y 0\<bar> * \<rho> ^ n + cmod (u 0) / \<rho> * (real n * \<rho> ^ n)) \<longlonglongrightarrow> \<bar>y 0\<bar> * 0 + cmod (u 0) / \<rho> * 0"
    using \<rho>(3,4) by (intro tendsto_intros LIMSEQ_power_zero powser_times_n_limit_0) simp_all
  then have "(\<lambda>n. \<bar>y 0\<bar> * \<rho> ^ n + cmod (u 0) / \<rho> * (real n * \<rho> ^ n)) \<longlonglongrightarrow> 0" by simp
  then show ?thesis
  proof (rule tendsto_0_le [OF _ eventuallyI])
    fix n
    show "norm (y n) \<le> norm (\<bar>y 0\<bar> * \<rho> ^ n + cmod (u 0) / \<rho> * (real n * \<rho> ^ n)) * 1"
      using bound [of n] by (simp only: real_norm_def mult_1_right)
  qed
qed

text \<open>
  A stable filter forgets its state: if \<open>v\<close> solves the difference equation for the input, the output
  approaches it.
\<close>

lemma settles:
  assumes "stable B"
    and "\<And>n. v (n + 2) = b0 B * x (n + 2) + b1 B * x (n + 1) + b2 B * x n - a1 B * v (n + 1) - a2 B * v n"
  shows "(\<lambda>n. response B x n - v n) \<longlonglongrightarrow> 0"
proof (rule second_order_decay)
  show "response B x (n + 2) - v (n + 2) =
      - a1 B * (response B x (n + 1) - v (n + 1)) - a2 B * (response B x n - v n)" for n
    unfolding difference_equation assms(2) by (simp add: algebra_simps)
qed (use assms(1) in \<open>simp_all add: stable_def\<close>)

text \<open>The filter passes the signal \<open>x\<close> with gain \<open>g\<close>, whatever its state was.\<close>

definition gain :: "biquad \<Rightarrow> (nat \<Rightarrow> real) \<Rightarrow> real \<Rightarrow> bool" where
  "gain B x g \<longleftrightarrow> (\<lambda>n. response B x n - g * x n) \<longlonglongrightarrow> 0"

definition dc :: "real \<Rightarrow> nat \<Rightarrow> real" where
  "dc c n = c"

definition nyquist :: "real \<Rightarrow> nat \<Rightarrow> real" where
  "nyquist c n = c * (- 1) ^ n"

definition tone :: "real \<Rightarrow> real \<Rightarrow> real \<Rightarrow> nat \<Rightarrow> real" where
  "tone w c phi n = c * cos (w * real n + phi)"

lemma gain_dc: "stable B \<Longrightarrow> b0 B + b1 B + b2 B = g * (1 + a1 B + a2 B) \<Longrightarrow> gain B (dc c) g"
  unfolding gain_def
proof (rule settles)
  fix n
  assume "b0 B + b1 B + b2 B = g * (1 + a1 B + a2 B)"
  then have "(b0 B + b1 B + b2 B) * c = g * (1 + a1 B + a2 B) * c" by simp
  then show "g * dc c (n + 2) = b0 B * dc c (n + 2) + b1 B * dc c (n + 1) + b2 B * dc c n -
      a1 B * (g * dc c (n + 1)) - a2 B * (g * dc c n)"
    by (simp add: dc_def algebra_simps)
qed

lemma gain_nyquist: "stable B \<Longrightarrow> b0 B - b1 B + b2 B = g * (1 - a1 B + a2 B) \<Longrightarrow> gain B (nyquist c) g"
  unfolding gain_def
proof (rule settles)
  fix n
  assume "b0 B - b1 B + b2 B = g * (1 - a1 B + a2 B)"
  then have "(b0 B - b1 B + b2 B) * (c * (- 1) ^ n) = g * (1 - a1 B + a2 B) * (c * (- 1) ^ n)" by simp
  then show "g * nyquist c (n + 2) = b0 B * nyquist c (n + 2) + b1 B * nyquist c (n + 1) + b2 B * nyquist c n -
      a1 B * (g * nyquist c (n + 1)) - a2 B * (g * nyquist c n)"
    by (simp add: nyquist_def algebra_simps)
qed

lemma tone_step: "tone w c phi (n + 2) + tone w c phi n = 2 * cos w * tone w c phi (n + 1)"
proof -
  have "w * real (n + 2) + phi = (w * real (n + 1) + phi) + w" "w * real n + phi = (w * real (n + 1) + phi) - w"
    by (simp_all add: algebra_simps)
  then show ?thesis unfolding tone_def by (simp only: cos_add cos_diff) (simp add: algebra_simps)
qed

lemma gain_tone:
  assumes "stable B" and "b0 B - g = k" "b1 B - g * a1 B = - (2 * cos w * k)" "b2 B - g * a2 B = k"
  shows "gain B (tone w c phi) g"
  unfolding gain_def
proof (rule settles [OF assms(1)])
  fix n
  let ?x = "tone w c phi"
  have "k * (?x (n + 2) + ?x n) = k * (2 * cos w * ?x (n + 1))" by (simp only: tone_step)
  then have "(b0 B - g) * ?x (n + 2) + (b1 B - g * a1 B) * ?x (n + 1) + (b2 B - g * a2 B) * ?x n = 0"
    unfolding assms(2-4) by (simp add: algebra_simps)
  then show "g * ?x (n + 2) = b0 B * ?x (n + 2) + b1 B * ?x (n + 1) + b2 B * ?x n -
      a1 B * (g * ?x (n + 1)) - a2 B * (g * ?x n)"
    by (simp add: algebra_simps)
qed

lemma stableI:
  assumes "a1 B = P / (M + \<beta>)" "a2 B = (M - \<beta>) / (M + \<beta>)" and "0 < M" "0 < \<beta>" "\<bar>P\<bar> < 2 * M"
  shows "stable B"
proof -
  have "1 + a2 B = 2 * M / (M + \<beta>)" using assms(3,4) by (simp add: assms(2) field_simps)
  moreover have "\<bar>a1 B\<bar> < 2 * M / (M + \<beta>)"
    using assms(3-5) by (simp add: assms(1) abs_divide divide_strict_right_mono)
  moreover have "\<bar>a2 B\<bar> < 1" using assms(3,4) by (simp add: assms(2) abs_less_iff divide_less_eq field_simps)
  ultimately show ?thesis by (simp add: stable_def)
qed

subsection \<open>The designs\<close>

lemma frequency_inside:
  assumes "0 < fs" and "0 < f" and "f < fs / 2"
  defines "w \<equiv> 2 * pi * f / fs"
  shows "0 < sin w" "cos w < 1" "- 1 < cos w"
proof -
  have "w < pi" using assms(1,3) by (simp add: w_def field_simps)
  moreover have "0 < w" using assms(1,2) by (simp add: w_def)
  ultimately show "0 < sin w" by (intro sin_gt_zero)
  moreover have "sin w * sin w + cos w * cos w = 1" by (simp flip: power2_eq_square)
  ultimately have "cos w * cos w < 1" by (smt (verit) mult_pos_pos)
  then have "(cos w)\<^sup>2 < 1\<^sup>2" by (simp add: power2_eq_square)
  then have "\<bar>cos w\<bar> < 1" by (simp add: abs_square_less_1)
  then show "cos w < 1" "- 1 < cos w" by linarith+
qed

lemmas design_simps = w0_of_def alpha_of_def shelf_alpha_def setCoefficients_def Let_def

text \<open>The four designs without a gain: \<open>al\<close> is \<open>alpha\<close>, \<open>c\<close> the cosine at the cutoff.\<close>

lemma plain_stable:
  assumes "a1 B = - 2 * c * (1 / (1 + al))" "a2 B = (1 - al) * (1 / (1 + al))" and "0 < al" "\<bar>c\<bar> < 1"
  shows "stable B"
  by (rule stableI [of B "- 2 * c" 1 al]) (use assms in simp_all)

lemma low_pass_gains:
  assumes "0 < fs" "0 < f" "f < fs / 2" "0 < q"
  shows "stable (setLowPass exact fs f q B)"
    and "gain (setLowPass exact fs f q B) (dc x) 1" and "gain (setLowPass exact fs f q B) (nyquist x) 0"
proof -
  define w where "w = 2 * pi * f / fs"
  note w = frequency_inside [OF assms(1-3), folded w_def]
  define al where "al = sin w / (2 * q)"
  have al: "0 < al" using w(1) assms(4) by (simp add: al_def)
  define r where "r = 1 / (1 + al)"
  have r: "r + al * r = 1" using al by (simp add: r_def field_simps)
  let ?B = "setLowPass exact fs f q B"
  have B: "b0 ?B = (1 - cos w) / 2 * r" "b1 ?B = (1 - cos w) * r"
    "b2 ?B = (1 - cos w) / 2 * r" "a1 ?B = - 2 * cos w * r" "a2 ?B = (1 - al) * r"
    by (simp_all add: setLowPass_def design_simps w_def al_def r_def)
  show "stable ?B" using B(4,5) [unfolded r_def] al w by (intro plain_stable [of ?B "cos w" al]) auto
  then show "gain ?B (dc x) 1" "gain ?B (nyquist x) 0"
    using r by (intro gain_dc gain_nyquist; simp add: B algebra_simps)+
qed

lemma high_pass_gains:
  assumes "0 < fs" "0 < f" "f < fs / 2" "0 < q"
  shows "stable (setHighPass exact fs f q B)"
    and "gain (setHighPass exact fs f q B) (dc x) 0" and "gain (setHighPass exact fs f q B) (nyquist x) 1"
proof -
  define w where "w = 2 * pi * f / fs"
  note w = frequency_inside [OF assms(1-3), folded w_def]
  define al where "al = sin w / (2 * q)"
  have al: "0 < al" using w(1) assms(4) by (simp add: al_def)
  define r where "r = 1 / (1 + al)"
  have r: "r + al * r = 1" using al by (simp add: r_def field_simps)
  let ?B = "setHighPass exact fs f q B"
  have B: "b0 ?B = (1 + cos w) / 2 * r" "b1 ?B = - (1 + cos w) * r"
    "b2 ?B = (1 + cos w) / 2 * r" "a1 ?B = - 2 * cos w * r" "a2 ?B = (1 - al) * r"
    by (simp_all add: setHighPass_def design_simps w_def al_def r_def)
  show "stable ?B" using B(4,5) [unfolded r_def] al w by (intro plain_stable [of ?B "cos w" al]) auto
  then show "gain ?B (dc x) 0" "gain ?B (nyquist x) 1"
    using r by (intro gain_dc gain_nyquist; simp add: B field_simps)+
qed

lemma band_pass_gains:
  assumes "0 < fs" "0 < f" "f < fs / 2" "0 < q"
  shows "stable (setBandPass exact fs f q B)"
    and "gain (setBandPass exact fs f q B) (tone (2 * pi * f / fs) x phi) 1"
    and "gain (setBandPass exact fs f q B) (dc x) 0" and "gain (setBandPass exact fs f q B) (nyquist x) 0"
proof -
  define w where "w = 2 * pi * f / fs"
  note w = frequency_inside [OF assms(1-3), folded w_def]
  define al where "al = sin w / (2 * q)"
  have al: "0 < al" using w(1) assms(4) by (simp add: al_def)
  define r where "r = 1 / (1 + al)"
  have r: "r + al * r = 1" using al by (simp add: r_def field_simps)
  let ?B = "setBandPass exact fs f q B"
  have B: "b0 ?B = al * r" "b1 ?B = 0"
    "b2 ?B = - al * r" "a1 ?B = - 2 * cos w * r" "a2 ?B = (1 - al) * r"
    by (simp_all add: setBandPass_def design_simps w_def al_def r_def)
  show st: "stable ?B" using B(4,5) [unfolded r_def] al w by (intro plain_stable [of ?B "cos w" al]) auto
  then show "gain ?B (dc x) 0" "gain ?B (nyquist x) 0"
    using r by (intro gain_dc gain_nyquist; simp add: B algebra_simps)+
  show "gain ?B (tone (2 * pi * f / fs) x phi) 1"
    unfolding w_def [symmetric]
    using r by (intro gain_tone [OF st, of _ "- r"]; simp add: B algebra_simps)
qed

lemma notch_gains:
  assumes "0 < fs" "0 < f" "f < fs / 2" "0 < q"
  shows "stable (setNotch exact fs f q B)"
    and "gain (setNotch exact fs f q B) (tone (2 * pi * f / fs) x phi) 0"
    and "gain (setNotch exact fs f q B) (dc x) 1" and "gain (setNotch exact fs f q B) (nyquist x) 1"
proof -
  define w where "w = 2 * pi * f / fs"
  note w = frequency_inside [OF assms(1-3), folded w_def]
  define al where "al = sin w / (2 * q)"
  have al: "0 < al" using w(1) assms(4) by (simp add: al_def)
  define r where "r = 1 / (1 + al)"
  have r: "r + al * r = 1" using al by (simp add: r_def field_simps)
  let ?B = "setNotch exact fs f q B"
  have B: "b0 ?B = r" "b1 ?B = - 2 * cos w * r"
    "b2 ?B = r" "a1 ?B = - 2 * cos w * r" "a2 ?B = (1 - al) * r"
    by (simp_all add: setNotch_def design_simps w_def al_def r_def)
  show st: "stable ?B" using B(4,5) [unfolded r_def] al w by (intro plain_stable [of ?B "cos w" al]) auto
  then show "gain ?B (dc x) 1" "gain ?B (nyquist x) 1"
    using r by (intro gain_dc gain_nyquist; simp add: B algebra_simps)+
  show "gain ?B (tone (2 * pi * f / fs) x phi) 0"
    unfolding w_def [symmetric]
    using r by (intro gain_tone [OF st, of _ "r"]; simp add: B algebra_simps)
qed

text \<open>The gain of a peak or a shelf, in decibels, is \<open>10 powr (dB / 20)\<close>, the square of the code's \<open>A\<close>.\<close>

lemma gain_amplitude: "(10 powr (dB / 40)) * (10 powr (dB / 40)) = 10 powr (dB / 20)" for dB :: real
  by (simp add: powr_add [symmetric])

lemma peak_gains:
  assumes "0 < fs" "0 < f" "f < fs / 2" "0 < q"
  shows "stable (setPeak exact fs f dB q B)"
    and "gain (setPeak exact fs f dB q B) (tone (2 * pi * f / fs) x phi) (10 powr (dB / 20))"
    and "gain (setPeak exact fs f dB q B) (dc x) 1" and "gain (setPeak exact fs f dB q B) (nyquist x) 1"
proof -
  define w where "w = 2 * pi * f / fs"
  note w = frequency_inside [OF assms(1-3), folded w_def]
  define A :: real where "A = 10 powr (dB / 40)"
  define al where "al = sin w / (2 * q) / A"
  have A: "0 < A" "A * A = 10 powr (dB / 20)" by (simp_all add: A_def gain_amplitude)
  then have al: "0 < al" using w(1) assms(4) by (simp add: al_def)
  define r where "r = 1 / (1 + al)"
  have r: "r + al * r = 1" using al by (simp add: r_def field_simps)
  have full: "sin w / (2 * q) = al * A" using A(1) by (simp add: al_def)
  let ?B = "setPeak exact fs f dB q B"
  have B: "b0 ?B = (1 + al * A * A) * r" "b1 ?B = - 2 * cos w * r" "b2 ?B = (1 - al * A * A) * r"
    "a1 ?B = - 2 * cos w * r" "a2 ?B = (1 - al) * r"
    using full by (simp_all add: setPeak_def design_simps w_def [symmetric] A_def [symmetric] r_def)
      (simp_all add: al_def)
  show st: "stable ?B" using B(4,5) [unfolded r_def] al w by (intro plain_stable [of ?B "cos w" al]) auto
  then show "gain ?B (dc x) 1" "gain ?B (nyquist x) 1"
    using r by (intro gain_dc gain_nyquist; simp add: B algebra_simps)+
  have "b0 ?B - A * A = (1 - A * A) * r" "b2 ?B - A * A * a2 ?B = (1 - A * A) * r"
    using arg_cong [OF r, of "\<lambda>z. A * A * z"] by (simp_all add: B algebra_simps)
  then show "gain ?B (tone (2 * pi * f / fs) x phi) (10 powr (dB / 20))"
    unfolding w_def [symmetric] A(2) [symmetric]
    by (intro gain_tone [OF st, of _ "(1 - A * A) * r"]) (assumption | simp add: B algebra_simps)+
qed

text \<open>The shelves: a slope of at most 1 keeps the square root real.\<close>

lemma shelf_beta_pos:
  assumes "0 < s" "0 < A" "0 < q" "q \<le> (1 :: real)"
  shows "0 < 2 * sqrt A * (s / 2 * sqrt ((A + 1 / A) * (1 / q - 1) + 2))"
proof -
  have "0 \<le> (A + 1 / A) * (1 / q - 1)" using assms by (intro mult_nonneg_nonneg) (simp_all add: field_simps)
  then have "0 < (A + 1 / A) * (1 / q - 1) + 2" by (rule add_nonneg_pos) simp
  then have "0 < sqrt ((A + 1 / A) * (1 / q - 1) + 2)" by (simp only: real_sqrt_gt_0_iff)
  then show ?thesis using assms(1,2) by (intro mult_pos_pos) simp_all
qed

lemma shelf_middle:
  assumes "0 < A" "c < 1" "- 1 < (c :: real)"
  shows "0 < A + 1 + (A - 1) * c" and "\<bar>- 2 * (A - 1 + (A + 1) * c)\<bar> < 2 * (A + 1 + (A - 1) * c)"
    and "0 < A + 1 - (A - 1) * c" and "\<bar>2 * (A - 1 - (A + 1) * c)\<bar> < 2 * (A + 1 - (A - 1) * c)"
proof -
  have "0 < A * (1 + c)" "0 < A * (1 - c)" using assms by simp_all
  then have p: "0 < A + A * c" "0 < A - A * c" by (simp_all add: algebra_simps)
  define X where "X = A * c"
  have e: "(A - 1) * c = X - c" "(A + 1) * c = X + c" by (simp_all add: X_def algebra_simps)
  note p = p [folded X_def]
  show "0 < A + 1 + (A - 1) * c" "0 < A + 1 - (A - 1) * c" unfolding e using p assms(2,3) by linarith+
  show "\<bar>- 2 * (A - 1 + (A + 1) * c)\<bar> < 2 * (A + 1 + (A - 1) * c)" "\<bar>2 * (A - 1 - (A + 1) * c)\<bar> < 2 * (A + 1 - (A - 1) * c)"
    unfolding abs_less_iff e using p assms(2,3) by auto
qed

lemma low_shelf_gains:
  assumes "0 < fs" "0 < f" "f < fs / 2" "0 < q" "q \<le> 1"
  shows "stable (setLowShelf exact fs f dB q B)"
    and "gain (setLowShelf exact fs f dB q B) (dc x) (10 powr (dB / 20))"
    and "gain (setLowShelf exact fs f dB q B) (nyquist x) 1"
proof -
  define w where "w = 2 * pi * f / fs"
  note w = frequency_inside [OF assms(1-3), folded w_def]
  define A :: real where "A = 10 powr (dB / 40)"
  have A: "0 < A" "A * A = 10 powr (dB / 20)" by (simp_all add: A_def gain_amplitude)
  define c where "c = cos w"
  define be where "be = 2 * sqrt A * (sin w / 2 * sqrt ((A + 1 / A) * (1 / q - 1) + 2))"
  define M where "M = A + 1 + (A - 1) * c"
  define r where "r = 1 / (M + be)"
  have be: "0 < be" using shelf_beta_pos [OF w(1) A(1) assms(4,5)] by (simp only: be_def)
  note mid = shelf_middle [OF A(1) w(2,3), folded c_def, folded M_def]
  have "(M + be) * r = 1" using be mid(1) by (simp add: r_def)
  then have r: "M * r + be * r = 1" by (simp only: distrib_right)
  let ?B = "setLowShelf exact fs f dB q B"
  have B: "b0 ?B = A * ((A + 1) - (A - 1) * c + be) * r" "b1 ?B = 2 * A * ((A - 1) - (A + 1) * c) * r"
    "b2 ?B = A * ((A + 1) - (A - 1) * c - be) * r" "a1 ?B = - 2 * ((A - 1) + (A + 1) * c) * r" "a2 ?B = (M - be) * r"
    by (simp_all add: setLowShelf_def design_simps w_def [symmetric] A_def [symmetric] c_def be_def M_def r_def)
  show st: "stable ?B"
    by (rule stableI [of ?B "- 2 * (A - 1 + (A + 1) * c)" M be]) (use B(4,5) mid(1,2) be in \<open>simp_all add: r_def\<close>)
  have "b0 ?B + b1 ?B + b2 ?B = A * A * (4 * (1 - c) * r)" by (simp add: B algebra_simps)
  moreover have "1 + a1 ?B + a2 ?B = 4 * (1 - c) * r"
    using r by (simp add: B M_def algebra_simps)
  ultimately show "gain ?B (dc x) (10 powr (dB / 20))" by (intro gain_dc [OF st]) (simp add: A(2))
  have "b0 ?B - b1 ?B + b2 ?B = 4 * A * (1 + c) * r" by (simp add: B algebra_simps)
  moreover have "1 - a1 ?B + a2 ?B = 4 * A * (1 + c) * r"
    using r by (simp add: B M_def algebra_simps)
  ultimately show "gain ?B (nyquist x) 1" by (intro gain_nyquist [OF st]) simp
qed

lemma high_shelf_gains:
  assumes "0 < fs" "0 < f" "f < fs / 2" "0 < q" "q \<le> 1"
  shows "stable (setHighShelf exact fs f dB q B)"
    and "gain (setHighShelf exact fs f dB q B) (dc x) 1"
    and "gain (setHighShelf exact fs f dB q B) (nyquist x) (10 powr (dB / 20))"
proof -
  define w where "w = 2 * pi * f / fs"
  note w = frequency_inside [OF assms(1-3), folded w_def]
  define A :: real where "A = 10 powr (dB / 40)"
  have A: "0 < A" "A * A = 10 powr (dB / 20)" by (simp_all add: A_def gain_amplitude)
  define c where "c = cos w"
  define be where "be = 2 * sqrt A * (sin w / 2 * sqrt ((A + 1 / A) * (1 / q - 1) + 2))"
  define M where "M = A + 1 - (A - 1) * c"
  define r where "r = 1 / (M + be)"
  have be: "0 < be" using shelf_beta_pos [OF w(1) A(1) assms(4,5)] by (simp only: be_def)
  note mid = shelf_middle [OF A(1) w(2,3), folded c_def, folded M_def]
  have "(M + be) * r = 1" using be mid(3) by (simp add: r_def)
  then have r: "M * r + be * r = 1" by (simp only: distrib_right)
  let ?B = "setHighShelf exact fs f dB q B"
  have B: "b0 ?B = A * ((A + 1) + (A - 1) * c + be) * r" "b1 ?B = - 2 * A * ((A - 1) + (A + 1) * c) * r"
    "b2 ?B = A * ((A + 1) + (A - 1) * c - be) * r" "a1 ?B = 2 * ((A - 1) - (A + 1) * c) * r" "a2 ?B = (M - be) * r"
    by (simp_all add: setHighShelf_def design_simps w_def [symmetric] A_def [symmetric] c_def be_def M_def r_def)
  show st: "stable ?B"
    by (rule stableI [of ?B "2 * (A - 1 - (A + 1) * c)" M be]) (use B(4,5) mid(3,4) be in \<open>simp_all add: r_def\<close>)
  have "b0 ?B + b1 ?B + b2 ?B = 4 * A * (1 - c) * r" by (simp add: B algebra_simps)
  moreover have "1 + a1 ?B + a2 ?B = 4 * A * (1 - c) * r"
    using r by (simp add: B M_def algebra_simps)
  ultimately show "gain ?B (dc x) 1" by (intro gain_dc [OF st]) simp
  have "b0 ?B - b1 ?B + b2 ?B = A * A * (4 * (1 + c) * r)" by (simp add: B algebra_simps)
  moreover have "1 - a1 ?B + a2 ?B = 4 * (1 + c) * r"
    using r by (simp add: B M_def algebra_simps)
  ultimately show "gain ?B (nyquist x) (10 powr (dB / 20))" by (intro gain_nyquist [OF st]) (simp add: A(2))
qed



end
