(* ===== verification/Spectrum.thy ===== *)
theory Spectrum
  imports Dsp_Arith Fft Windows
begin

text \<open>
  The steps that key, chord and onset detection share: the magnitudes of one windowed frame and the
  chroma vector (the code has them once in every file). Every bin between 65 and 2100 Hz is divided
  between the two pitch classes next to its frequency; nothing of it is lost.
\<close>

type_synonym fft_arith = "(real, complex) cplx_arith"

definition frame_mags :: "libm \<Rightarrow> fft_arith \<Rightarrow> window \<Rightarrow> complex fft \<Rightarrow> real list \<Rightarrow> nat \<Rightarrow> real list" where
  "frame_mags L A W F audio start =
     (let inputBuf = apply_window L W (take (fft_size F) (drop start audio));
          fftBuf = fft_forward A F inputBuf
      in map (\<lambda>b. m_cabs L (fftBuf ! b)) [0..<bin_count F])"

definition frame_count :: "nat \<Rightarrow> nat \<Rightarrow> nat \<Rightarrow> nat" where
  "frame_count numSamples fftSize hopSize =
     (if numSamples < fftSize then 0 else (numSamples - fftSize) div hopSize + 1)"

text \<open>\<open>std::fmod\<close> is exact.\<close>

definition c_fmod :: "real \<Rightarrow> real \<Rightarrow> real" where
  "c_fmod x y = x - y * of_int (trunc_int (x / y))"

definition pitch_class :: "libm \<Rightarrow> real \<Rightarrow> real" where
  "pitch_class L freq =
     (let midiNote = fadd L (fmul L 12 (m_log2 L (fdiv L freq 440))) 69;
          pitchClass = c_fmod midiNote 12
      in if pitchClass < 0 then fadd L pitchClass 12 else pitchClass)"

definition add_bin :: "libm \<Rightarrow> real \<Rightarrow> real list \<Rightarrow> nat \<Rightarrow> real list \<Rightarrow> real list" where
  "add_bin L binFreq mag b chroma =
     (let freq = fmul L (rd_f L (real b)) binFreq
      in if freq < 65 \<or> 2100 < freq then chroma
         else let pitchClass = pitch_class L freq;
                  binLow = nat (trunc_int pitchClass);
                  binHigh = (binLow + 1) mod 12;
                  frac = fsub L pitchClass (real binLow);
                  chroma = chroma[binLow := fadd L (chroma ! binLow) (fmul L (mag ! b) (fsub L 1 frac))]
              in chroma[binHigh := fadd L (chroma ! binHigh) (fmul L (mag ! b) frac)])"

definition add_bins :: "libm \<Rightarrow> real \<Rightarrow> real list \<Rightarrow> real list \<Rightarrow> real list" where
  "add_bins L binFreq mag chroma = fold (add_bin L binFreq mag) [0..<length mag] chroma"

subsection \<open>The chroma vector\<close>

lemma pitch_class_range: "0 \<le> pitch_class exact freq \<and> pitch_class exact freq < 12"
proof -
  define x where "x = 12 * log 2 (freq / 440) + 69"
  have "c_fmod x 12 = (if 0 \<le> x then x - 12 * \<lfloor>x / 12\<rfloor> else x - 12 * \<lceil>x / 12\<rceil>)"
    by (simp add: c_fmod_def trunc_int_def)
  moreover have "12 * real_of_int \<lfloor>x / 12\<rfloor> \<le> x" "x < 12 * real_of_int \<lfloor>x / 12\<rfloor> + 12"
    "x \<le> 12 * real_of_int \<lceil>x / 12\<rceil>" "12 * real_of_int \<lceil>x / 12\<rceil> - 12 < x"
    using floor_correct [of "x / 12"] ceiling_correct [of "x / 12"] by linarith+
  ultimately have "- 12 < c_fmod x 12" "c_fmod x 12 < 12" by (auto split: if_splits)
  then show ?thesis by (simp add: pitch_class_def Let_def x_def)
qed

lemma pitch_class_floor:
  "nat (trunc_int (pitch_class exact freq)) < 12"
  using pitch_class_range [of freq] by (auto simp: trunc_int_def nat_less_iff floor_less_iff)

lemma sum_list_update_real: "i < length xs \<Longrightarrow> sum_list (xs[i := y]) = sum_list xs - xs ! i + y" for y :: real
  by (induction xs arbitrary: i) (auto split: nat.splits)

lemma length_add_bin [simp]: "length (add_bin L f mag b chroma) = length chroma"
  by (simp add: add_bin_def Let_def)

lemma length_add_bins [simp]: "length (add_bins L f mag chroma) = length chroma"
proof -
  have "length (fold (add_bin L f mag) bs chroma) = length chroma" for bs
    by (induction bs arbitrary: chroma) simp_all
  then show ?thesis by (simp add: add_bins_def)
qed

definition audible :: "real \<Rightarrow> nat \<Rightarrow> bool" where
  "audible binFreq b \<longleftrightarrow> 65 \<le> real b * binFreq \<and> real b * binFreq \<le> 2100"

lemma add_bin_sum:
  assumes "length chroma = 12"
  shows "sum_list (add_bin exact f mag b chroma) = sum_list chroma + (if audible f b then mag ! b else 0)"
proof (cases "audible f b")
  case True
  define pc where "pc = pitch_class exact (real b * f)"
  define p where "p = nat (trunc_int pc)"
  have p: "p < length chroma" using pitch_class_floor assms by (simp add: p_def pc_def)
  have q: "(p + 1) mod 12 < length chroma" using assms by simp
  let ?c = "chroma[p := chroma ! p + mag ! b * (1 - (pc - real p))]"
  have "add_bin exact f mag b chroma = ?c[(p + 1) mod 12 := ?c ! ((p + 1) mod 12) + mag ! b * (pc - real p)]"
    using True by (simp add: add_bin_def Let_def audible_def p_def pc_def)
  then show ?thesis
    using True p q by (simp only: sum_list_update_real length_list_update) (simp add: algebra_simps)
qed (auto simp: add_bin_def audible_def)

text \<open>What a frame adds to the chroma vector is the magnitude of its audible bins.\<close>

lemma add_bins_sum:
  assumes "length chroma = 12"
  shows "sum_list (add_bins exact f mag chroma) =
    sum_list chroma + (\<Sum>b\<leftarrow>[0..<length mag]. if audible f b then mag ! b else 0)"
proof -
  have "sum_list (fold (add_bin exact f mag) bs chroma) = sum_list chroma + (\<Sum>b\<leftarrow>bs. if audible f b then mag ! b else 0)" for bs
    using assms by (induction bs arbitrary: chroma) (simp_all add: add_bin_sum)
  then show ?thesis by (simp add: add_bins_def)
qed

subsection \<open>The best of a list of candidates\<close>

text \<open>The loops that keep a candidate if its value is larger than the best so far.\<close>

definition best_step :: "('a \<Rightarrow> real) \<Rightarrow> 'a \<Rightarrow> real \<times> 'a \<Rightarrow> real \<times> 'a" where
  "best_step f c best = (if fst best < f c then (f c, c) else best)"

definition best_of :: "('a \<Rightarrow> real) \<Rightarrow> 'a list \<Rightarrow> 'a \<Rightarrow> real \<times> 'a" where
  "best_of f cs c0 = fold (best_step f) cs (- 1, c0)"

lemma best_keeps: "\<forall>c\<in>set cs. f c \<le> v \<Longrightarrow> fold (best_step f) cs (v, b) = (v, b)"
  by (induction cs) (simp_all add: best_step_def)

lemma best_below: "v < m \<Longrightarrow> \<forall>c\<in>set cs. f c < m \<Longrightarrow> fst (fold (best_step f) cs (v, b)) < m"
  by (induction cs arbitrary: v b) (simp_all add: best_step_def)

text \<open>The result is the first candidate with the largest value.\<close>

lemma best_of_first:
  assumes "cs = xs @ c # ys" and "- 1 < f c" and "\<forall>x\<in>set xs. f x < f c" and "\<forall>y\<in>set ys. f y \<le> f c"
  shows "best_of f cs c0 = (f c, c)"
proof -
  have "fst (fold (best_step f) xs (- 1, c0)) < f c" by (rule best_below [OF assms(2,3)])
  then show ?thesis using assms(1,4) by (simp add: best_of_def best_step_def [of f c] best_keeps)
qed

end
