(* ===== verification/Key_Detection.thy ===== *)
theory Key_Detection
  imports Spectrum
begin

text \<open>
  Key detection (\<open>dsp/key_detection.cpp\<close>): the chroma vector of all frames so far is correlated with
  the two key profiles in every rotation. In exact arithmetic a chroma vector that is a profile is
  recognised with full confidence, at any scale and in any key; silence is C major.
\<close>

record key_result =
  kr_key :: string
  kr_scale :: string
  kr_confidence :: real
  kr_chroma :: "real list"

record key_detection =
  kd_fftSize :: nat
  kd_hopSize :: nat
  kd_sampleRate :: int
  kd_fft :: "complex fft"
  kd_window :: window
  kd_chroma :: "real list"
  kd_frameCount :: nat

definition kMajorProfile :: "real list" where
  "kMajorProfile = [6.35, 2.23, 3.48, 2.33, 4.38, 4.09, 2.52, 5.19, 2.39, 3.66, 2.29, 2.88]"

definition kMinorProfile :: "real list" where
  "kMinorProfile = [6.33, 2.68, 3.52, 5.38, 2.60, 3.53, 2.54, 4.75, 3.98, 2.69, 3.34, 3.17]"

definition kKeyNames :: "string list" where
  "kKeyNames = [''C'', ''C#'', ''D'', ''D#'', ''E'', ''F'', ''F#'', ''G'', ''G#'', ''A'', ''A#'', ''B'']"

text \<open>\<open>None\<close>: the size is no power of two, or it is 1 and the Hann window has no numbers.\<close>

definition KeyDetection :: "libm \<Rightarrow> fft_arith \<Rightarrow> nat \<Rightarrow> nat \<Rightarrow> int \<Rightarrow> key_detection option" where
  "KeyDetection L A fftSize hopSize sampleRate =
     (case (make_fft A fftSize, Window L fftSize Hann 6) of
        (Some F, Some W) \<Rightarrow>
          Some \<lparr>kd_fftSize = fftSize, kd_hopSize = hopSize, kd_sampleRate = sampleRate, kd_fft = F,
                kd_window = W, kd_chroma = replicate 12 0, kd_frameCount = 0\<rparr>
      | _ \<Rightarrow> None)"

definition updateChroma :: "libm \<Rightarrow> real list \<Rightarrow> real \<Rightarrow> key_detection \<Rightarrow> key_detection" where
  "updateChroma L mag sampleRate K =
     K\<lparr>kd_chroma := add_bins L (fdiv L sampleRate (rd_f L (real (kd_fftSize K)))) mag (kd_chroma K)\<rparr>"

text \<open>The lambda of \<open>estimateKey\<close>. The loop's accumulators are independent sums.\<close>

definition correlate :: "libm \<Rightarrow> real list \<Rightarrow> nat \<Rightarrow> real list \<Rightarrow> real" where
  "correlate L normChroma tonic profile =
     (let cx = (\<lambda>i. normChroma ! ((tonic + i) mod 12));
          meanX = fdiv L (fsum L (map cx [0..<12])) 12;
          meanY = fdiv L (fsum L (map (\<lambda>i. profile ! i) [0..<12])) 12;
          dx = (\<lambda>i. fsub L (cx i) meanX); dy = (\<lambda>i. fsub L (profile ! i) meanY);
          num = fsum L (map (\<lambda>i. fmul L (dx i) (dy i)) [0..<12]);
          denA = fsum L (map (\<lambda>i. fmul L (dx i) (dx i)) [0..<12]);
          denB = fsum L (map (\<lambda>i. fmul L (dy i) (dy i)) [0..<12]);
          den = rd_f L (sqrt (fmul L denA denB))
      in if rd_f L (1 / 10 ^ 10) < den then fdiv L num den else 0)"

definition normalized :: "libm \<Rightarrow> real list \<Rightarrow> real list" where
  "normalized L chroma =
     (let total = fsum L chroma
      in if rd_f L (1 / 10 ^ 10) < total then map (\<lambda>i. fdiv L (chroma ! i) total) [0..<12] else replicate 12 0)"

text \<open>The loop over the roots, the major profile before the minor one.\<close>

definition key_candidates :: "(nat \<times> bool) list" where
  "key_candidates = concat (map (\<lambda>tonic. [(tonic, True), (tonic, False)]) [0..<12])"

definition profile_of :: "libm \<Rightarrow> bool \<Rightarrow> real list" where
  "profile_of L isMajor = map (rd_f L) (if isMajor then kMajorProfile else kMinorProfile)"

definition estimateKey :: "libm \<Rightarrow> key_detection \<Rightarrow> key_result" where
  "estimateKey L K =
     (if kd_frameCount K = 0
      then \<lparr>kr_key = ''C'', kr_scale = ''major'', kr_confidence = 0, kr_chroma = kd_chroma K\<rparr>
      else let normChroma = normalized L (kd_chroma K);
               (bestCorr, bestKey, bestIsMajor) =
                 best_of (\<lambda>(tonic, isMajor). correlate L normChroma tonic (profile_of L isMajor)) key_candidates (0, True)
           in \<lparr>kr_key = kKeyNames ! bestKey, kr_scale = (if bestIsMajor then ''major'' else ''minor''),
               kr_confidence = max 0 (min 1 bestCorr), kr_chroma = kd_chroma K\<rparr>)"

definition key_frame :: "libm \<Rightarrow> fft_arith \<Rightarrow> real list \<Rightarrow> nat \<Rightarrow> key_detection \<Rightarrow> key_detection" where
  "key_frame L A audio frame K =
     (let mag = frame_mags L A (kd_window K) (kd_fft K) audio (frame * kd_hopSize K);
          K = updateChroma L mag (rd_f L (real_of_int (kd_sampleRate K))) K
      in K\<lparr>kd_frameCount := kd_frameCount K + 1\<rparr>)"

text \<open>\<open>None\<close>: the division by a hop size of 0.\<close>

definition process_key :: "libm \<Rightarrow> fft_arith \<Rightarrow> real list \<Rightarrow> key_detection \<Rightarrow> (key_result \<times> key_detection) option" where
  "process_key L A audio K =
     (if length audio < kd_fftSize K then Some (estimateKey L K, K)
      else if kd_hopSize K = 0 then None
      else let K = fold (key_frame L A audio) [0..<frame_count (length audio) (kd_fftSize K) (kd_hopSize K)] K
           in Some (estimateKey L K, K))"

definition reset_key :: "key_detection \<Rightarrow> key_detection" where
  "reset_key K = K\<lparr>kd_chroma := replicate 12 0, kd_frameCount := 0\<rparr>"

subsection \<open>Correlation\<close>

text \<open>The correlation of two centred vectors, in integers: the profiles are hundredths.\<close>

definition rot :: "nat \<Rightarrow> 'a list \<Rightarrow> nat \<Rightarrow> 'a" where
  "rot d xs i = xs ! ((d + i) mod 12)"

definition centred :: "int list \<Rightarrow> nat \<Rightarrow> int" where
  "centred p i = 12 * p ! i - sum_list p"

definition cross :: "int list \<Rightarrow> int list \<Rightarrow> nat \<Rightarrow> int" where
  "cross p q d = (\<Sum>i\<leftarrow>[0..<12]. centred p ((d + i) mod 12) * centred q i)"

definition hundredths :: "bool \<Rightarrow> int list" where
  "hundredths isMajor =
     (if isMajor then [635, 223, 348, 233, 438, 409, 252, 519, 239, 366, 229, 288]
      else [633, 268, 352, 538, 260, 353, 254, 475, 398, 269, 334, 317])"

lemma hundredths_profile: "i < 12 \<Longrightarrow> profile_of exact m ! i = of_int (hundredths m ! i) / 100"
proof -
  have "map (\<lambda>x. of_int x / 100) (hundredths m) = profile_of exact m"
    by (simp add: profile_of_def hundredths_def kMajorProfile_def kMinorProfile_def)
  moreover assume "i < 12"
  moreover have "length (hundredths m) = 12" by (simp add: hundredths_def)
  ultimately show ?thesis by (metis nth_map)
qed

text \<open>No rotation of a profile matches it or the other profile as well as itself.\<close>

lemma hundredths_apart:
  "\<forall>m m'. \<forall>d \<in> set [0..<12]. (m', d) \<noteq> (m, 0) \<longrightarrow> (let c = cross (hundredths m) (hundredths m') d in
      c \<le> 0 \<or> c * c < cross (hundredths m) (hundredths m) 0 * cross (hundredths m') (hundredths m') 0)"
  by code_simp

lemma hundredths_vary: "\<forall>m. 3 * 10 ^ 6 < cross (hundredths m) (hundredths m) 0 \<and> 0 < sum_list (hundredths m) \<and> sum_list (hundredths m) < 5000"
  by code_simp

lemma sum_rotate:
  fixes f :: "nat \<Rightarrow> 'a :: comm_monoid_add"
  shows "(\<Sum>i\<leftarrow>[0..<12]. f ((d + i) mod 12)) = (\<Sum>i\<leftarrow>[0..<12]. f i)"
proof -
  have "map (\<lambda>i. f ((d + i) mod 12)) [0..<12] = rotate d (map f [0..<12])"
    by (intro nth_equalityI) (simp_all add: nth_rotate)
  then show ?thesis by (simp only: rotate_drop_take sum_list_append) (metis add.commute append_take_drop_id sum_list_append)
qed

lemma sum_list_nth_12: "length xs = 12 \<Longrightarrow> (\<Sum>i\<leftarrow>[0..<12]. xs ! i) = sum_list xs" for xs :: "'a :: comm_monoid_add list"
  using map_nth [of xs] by simp

lemma sum_of_int: "(\<Sum>x\<leftarrow>xs. of_int (f x)) = (of_int (\<Sum>x\<leftarrow>xs. f x) :: real)"
  by (induction xs) simp_all

lemma length_hundredths [simp]: "length (hundredths m) = 12"
  by (simp add: hundredths_def)

lemma length_profile_of [simp]: "length (profile_of L m) = 12"
  by (simp add: profile_of_def kMajorProfile_def kMinorProfile_def)

text \<open>A chroma vector that is \<open>c\<close> times the profile \<open>m\<close> with tonic \<open>k\<close>.\<close>

definition plays_key :: "real \<Rightarrow> nat \<Rightarrow> bool \<Rightarrow> real list \<Rightarrow> bool" where
  "plays_key c k m chroma \<longleftrightarrow> length chroma = 12 \<and> k < 12 \<and>
     (\<forall>i < 12. chroma ! ((k + i) mod 12) = c * profile_of exact m ! i)"

lemma normalized_key:
  assumes "plays_key c k m chroma" and "1 / 10 ^ 10 < c" and "r < 12" "i < 12"
  shows "normalized exact chroma ! ((r + i) mod 12) =
    of_int (hundredths m ! (((12 + r - k) mod 12 + i) mod 12)) / of_int (sum_list (hundredths m))"
proof -
  let ?h = "hundredths m"
  have k: "k < 12" "length chroma = 12" using assms(1) by (simp_all add: plays_key_def)
  have val: "chroma ! ((k + j) mod 12) = c * of_int (?h ! j) / 100" if "j < 12" for j
    using assms(1) that by (simp add: plays_key_def hundredths_profile)
  have "sum_list chroma = (\<Sum>j\<leftarrow>[0..<12]. chroma ! ((k + j) mod 12))"
    using sum_rotate [of "\<lambda>j. chroma ! j"] sum_list_nth_12 [OF k(2)] by simp
  also have "\<dots> = (\<Sum>j\<leftarrow>[0..<12]. c / 100 * of_int (?h ! j))"
    by (intro arg_cong [of _ _ sum_list] map_cong) (simp_all add: val)
  also have "\<dots> = c / 100 * of_int (sum_list ?h)"
    by (simp only: sum_list_const_mult sum_of_int sum_list_nth_12 [OF length_hundredths])
  finally have total: "sum_list chroma = c / 100 * of_int (sum_list ?h)" .
  have s: "4000 < sum_list ?h" by (simp add: hundredths_def)
  then have "1 < of_int (sum_list ?h) / (100 :: real)" by simp
  then have big: "1 / 10 ^ 10 < sum_list chroma"
    unfolding total using assms(2) mult_strict_mono [of "1 / 10 ^ 10" c 1 "of_int (sum_list ?h) / 100"] by simp
  define j where "j = ((12 + r - k) mod 12 + i) mod 12"
  have "(k + j) mod 12 = (k + (12 + r - k) + i) mod 12" unfolding j_def by (simp only: mod_simps add.assoc)
  also have "k + (12 + r - k) + i = (r + i) + 12" using k(1) by simp
  also have "((r + i) + 12) mod 12 = (r + i) mod 12" by (rule mod_add_self2)
  finally have j: "j < 12" "(k + j) mod 12 = (r + i) mod 12" by (simp_all add: j_def)
  have "normalized exact chroma ! ((r + i) mod 12) = chroma ! ((k + j) mod 12) / sum_list chroma"
    using big by (simp add: normalized_def Let_def j(2))
  also have "\<dots> = of_int (?h ! j) / of_int (sum_list ?h)"
    unfolding val [OF j(1)] total using assms(2) by (simp add: field_simps)
  finally show ?thesis by (simp only: j_def)
qed

lemma correlate_key:
  assumes "plays_key c k m chroma" and "1 / 10 ^ 10 < c" and "r < 12"
  shows "correlate exact (normalized exact chroma) r (profile_of exact m') =
    of_int (cross (hundredths m) (hundredths m') ((12 + r - k) mod 12)) /
    sqrt (of_int (cross (hundredths m) (hundredths m) 0) * of_int (cross (hundredths m') (hundredths m') 0))"
proof -
  let ?p = "hundredths m" and ?q = "hundredths m'" and ?d = "(12 + r - k) mod 12"
  define sp where "sp = sum_list ?p"
  define sq where "sq = sum_list ?q"
  have sp: "0 < sp" "sp < 5000" using hundredths_vary by (simp_all add: sp_def)
  have cx: "normalized exact chroma ! ((r + i) mod 12) = of_int (?p ! ((?d + i) mod 12)) / of_int sp" if "i < 12" for i
    unfolding sp_def by (rule normalized_key [OF assms that])
  have prof: "profile_of exact m' ! i = of_int (?q ! i) / 100" if "i < 12" for i
    using that by (rule hundredths_profile)
  have meanX: "(\<Sum>i\<leftarrow>[0..<12]. normalized exact chroma ! ((r + i) mod 12)) = 1"
  proof -
    have "(\<Sum>i\<leftarrow>[0..<12]. normalized exact chroma ! ((r + i) mod 12)) =
        (\<Sum>i\<leftarrow>[0..<12]. 1 / of_int sp * of_int (?p ! ((?d + i) mod 12)))"
      by (intro arg_cong [of _ _ sum_list] map_cong) (simp_all add: cx)
    also have "\<dots> = 1 / of_int sp * of_int (\<Sum>i\<leftarrow>[0..<12]. ?p ! i)"
      by (simp only: sum_list_const_mult sum_of_int sum_rotate [of "\<lambda>i. ?p ! i"])
    finally show ?thesis using sp by (simp only: sum_list_nth_12 [OF length_hundredths] sp_def [symmetric]) simp
  qed
  have meanY: "(\<Sum>i\<leftarrow>[0..<12]. profile_of exact m' ! i) = of_int sq / 100"
  proof -
    have "(\<Sum>i\<leftarrow>[0..<12]. profile_of exact m' ! i) = (\<Sum>i\<leftarrow>[0..<12]. 1 / 100 * of_int (?q ! i))"
      by (intro arg_cong [of _ _ sum_list] map_cong) (simp_all add: prof)
    also have "\<dots> = 1 / 100 * of_int sq"
      by (simp only: sum_list_const_mult sum_of_int sum_list_nth_12 [OF length_hundredths] sq_def)
    finally show ?thesis by simp
  qed
  define u where "u i = (of_int (centred ?p ((?d + i) mod 12)) :: real)" for i
  define v where "v i = (of_int (centred ?q i) :: real)" for i
  have dx: "normalized exact chroma ! ((r + i) mod 12) - 1 / 12 = 1 / (12 * of_int sp) * u i" if "i < 12" for i
    unfolding cx [OF that] u_def centred_def sp_def [symmetric] using sp by (simp add: field_simps)
  have dy: "profile_of exact m' ! i - of_int sq / 100 / 12 = 1 / 1200 * v i" if "i < 12" for i
    unfolding prof [OF that] v_def centred_def sq_def [symmetric] by (simp add: field_simps)
  have sums: "(\<Sum>i\<leftarrow>[0..<12]. u i * v i) = of_int (cross ?p ?q ?d)"
    "(\<Sum>i\<leftarrow>[0..<12]. u i * u i) = of_int (cross ?p ?p 0)"
    "(\<Sum>i\<leftarrow>[0..<12]. v i * v i) = of_int (cross ?q ?q 0)"
  proof -
    show "(\<Sum>i\<leftarrow>[0..<12]. u i * v i) = of_int (cross ?p ?q ?d)"
      by (simp only: u_def v_def cross_def of_int_mult [symmetric] sum_of_int)
    have z: "cross x x 0 = (\<Sum>i\<leftarrow>[0..<12]. centred x i * centred x i)" for x
      unfolding cross_def by (intro arg_cong [of _ _ sum_list] map_cong) simp_all
    show "(\<Sum>i\<leftarrow>[0..<12]. v i * v i) = of_int (cross ?q ?q 0)"
      by (simp only: v_def z of_int_mult [symmetric] sum_of_int)
    show "(\<Sum>i\<leftarrow>[0..<12]. u i * u i) = of_int (cross ?p ?p 0)"
      by (simp only: u_def z of_int_mult [symmetric] sum_of_int sum_rotate [of "\<lambda>i. centred ?p i * centred ?p i"])
  qed
  define a where "a = 1 / (12 * of_int sp :: real)"
  have a: "0 < a" using sp by (simp add: a_def)
  let ?P = "of_int (cross ?p ?p 0) :: real" and ?Q = "of_int (cross ?q ?q 0) :: real"
  have "real_of_int (3 * 10 ^ 6) < ?P" "real_of_int (3 * 10 ^ 6) < ?Q"
    using hundredths_vary [THEN spec, of m] hundredths_vary [THEN spec, of m']
    by (simp_all only: of_int_less_iff)
  then have pos: "3 * 10 ^ 6 < ?P" "3 * 10 ^ 6 < ?Q" by simp_all
  have num: "(\<Sum>i\<leftarrow>[0..<12]. (normalized exact chroma ! ((r + i) mod 12) - 1 / 12) *
      (profile_of exact m' ! i - of_int sq / 100 / 12)) = a / 1200 * of_int (cross ?p ?q ?d)"
  proof -
    have "(normalized exact chroma ! ((r + i) mod 12) - 1 / 12) * (profile_of exact m' ! i - of_int sq / 100 / 12) =
        a / 1200 * (u i * v i)" if "i < 12" for i
      by (simp only: dx [OF that] dy [OF that] a_def)
    then show ?thesis
      unfolding sums(1) [symmetric] sum_list_const_mult [symmetric]
      by (intro arg_cong [of _ _ sum_list] map_cong refl) simp
  qed
  have denA: "(\<Sum>i\<leftarrow>[0..<12]. (normalized exact chroma ! ((r + i) mod 12) - 1 / 12) *
      (normalized exact chroma ! ((r + i) mod 12) - 1 / 12)) = a * a * ?P"
    unfolding sums(2) [symmetric] sum_list_const_mult [symmetric]
    by (intro arg_cong [of _ _ sum_list] map_cong) (simp_all add: dx a_def)
  have denB: "(\<Sum>i\<leftarrow>[0..<12]. (profile_of exact m' ! i - of_int sq / 100 / 12) *
      (profile_of exact m' ! i - of_int sq / 100 / 12)) = 1 / 1200 * (1 / 1200) * ?Q"
  proof -
    have "(profile_of exact m' ! i - of_int sq / 100 / 12) * (profile_of exact m' ! i - of_int sq / 100 / 12) =
        1 / 1200 * (1 / 1200) * (v i * v i)" if "i < 12" for i
      by (simp only: dy [OF that])
    then show ?thesis
      unfolding sums(3) [symmetric] sum_list_const_mult [symmetric]
      by (intro arg_cong [of _ _ sum_list] map_cong refl) simp
  qed
  have "a * a * ?P * (1 / 1200 * (1 / 1200) * ?Q) = (a / 1200) * (a / 1200) * (?P * ?Q)" by simp
  then have den: "sqrt (a * a * ?P * (1 / 1200 * (1 / 1200) * ?Q)) = a / 1200 * sqrt (?P * ?Q)"
    using a by (simp only: real_sqrt_mult [of "a / 1200 * (a / 1200)"] real_sqrt_abs2)
  have "1 / 10 ^ 10 < a / 1200 * sqrt (?P * ?Q)"
  proof -
    have "3 * 10 ^ 6 * (3 * 10 ^ 6) \<le> ?P * ?Q" using pos by (intro mult_mono) simp_all
    then have "(3 * 10 ^ 6 :: real) \<le> sqrt (?P * ?Q)" by (intro real_le_rsqrt) (simp add: power2_eq_square)
    moreover have "1 / 60000 < a" using sp by (simp add: a_def field_simps)
    ultimately have "1 / 60000 * (3 * 10 ^ 6) \<le> a * sqrt (?P * ?Q)" by (intro mult_mono) simp_all
    then show ?thesis by simp
  qed
  then show ?thesis
    using a by (simp only: correlate_def Let_def exact_simps fsum_exact meanX meanY num denA denB den) simp
qed

lemma correlate_key_le:
  assumes "plays_key c k m chroma" and "1 / 10 ^ 10 < c" and "r < 12"
  shows "correlate exact (normalized exact chroma) r (profile_of exact m') = 1 \<and> (r, m') = (k, m) \<or>
    correlate exact (normalized exact chroma) r (profile_of exact m') < 1 \<and> (r, m') \<noteq> (k, m)"
proof -
  let ?d = "(12 + r - k) mod 12"
  have k: "k < 12" using assms(1) by (simp add: plays_key_def)
  define P where "P = cross (hundredths m) (hundredths m) 0"
  define Q where "Q = cross (hundredths m') (hundredths m') 0"
  define X where "X = cross (hundredths m) (hundredths m') ?d"
  have pos: "0 < P" "0 < Q"
    using hundredths_vary [THEN spec, of m] hundredths_vary [THEN spec, of m'] unfolding P_def Q_def by simp_all
  have d: "?d = 0 \<longleftrightarrow> r = k"
  proof -
    consider "r = k" | "r < k" | "k < r" by linarith
    then show ?thesis
    proof cases
      case 3
      then have "12 + r - k = 12 + (r - k)" by simp
      then have "?d = r - k" using assms(3) by (simp only: mod_add_self1) simp
      then show ?thesis using 3 by simp
    qed (use k in simp_all)
  qed
  have corr: "correlate exact (normalized exact chroma) r (profile_of exact m') = of_int X / sqrt (of_int P * of_int Q)"
    unfolding X_def P_def Q_def by (rule correlate_key [OF assms])
  show ?thesis
  proof (cases "(r, m') = (k, m)")
    case True
    then have "X = P" "Q = P" using d by (simp_all add: X_def P_def Q_def)
    then show ?thesis unfolding corr using True pos by simp
  next
    case False
    then have "(m', ?d) \<noteq> (m, 0)" using d by auto
    then have "X \<le> 0 \<or> X * X < P * Q"
      using hundredths_apart [THEN spec, of m, THEN spec, of m', THEN bspec, of ?d] by (simp add: Let_def X_def P_def Q_def)
    moreover have root: "0 < sqrt (real_of_int P * real_of_int Q)" using pos by simp
    moreover have "real_of_int X < sqrt (real_of_int P * real_of_int Q)" if "X * X < P * Q"
    proof (rule real_less_rsqrt)
      have "real_of_int (X * X) < real_of_int (P * Q)" using that by (simp only: of_int_less_iff)
      then show "(real_of_int X)\<^sup>2 < real_of_int P * real_of_int Q" by (simp add: power2_eq_square)
    qed
    ultimately have "real_of_int X < sqrt (real_of_int P * real_of_int Q)"
      by (metis of_int_le_0_iff order_le_less_trans)
    then show ?thesis unfolding corr using root False by (simp add: divide_less_eq)
  qed
qed

subsection \<open>What is recognised\<close>

lemma key_candidates_set: "set key_candidates = {..<12} \<times> UNIV"
  by (force simp: key_candidates_def UNIV_bool)

lemma key_candidates_distinct: "distinct key_candidates"
  by code_simp

text \<open>
  C37. In exact arithmetic a chroma vector that is a multiple of the major or the minor profile in some
  key is recognised as that key and mode, with confidence 1, however loud it is and whatever the
  detector heard before (it only has to have heard a frame).
\<close>

theorem key_recognised:
  assumes "kd_frameCount K \<noteq> 0" and "plays_key c k m (kd_chroma K)" and "1 / 10 ^ 10 < c"
  shows "estimateKey exact K =
    \<lparr>kr_key = kKeyNames ! k, kr_scale = (if m then ''major'' else ''minor''), kr_confidence = 1, kr_chroma = kd_chroma K\<rparr>"
proof -
  let ?f = "\<lambda>(r, m'). correlate exact (normalized exact (kd_chroma K)) r (profile_of exact m')"
  have k: "(k, m) \<in> set key_candidates" using assms(2) by (simp add: key_candidates_set plays_key_def)
  from split_list [OF this] obtain xs ys where cs: "key_candidates = xs @ (k, m) # ys" by blast
  have one: "?f (k, m) = 1" using correlate_key_le [OF assms(2,3), of k m] assms(2) by (simp add: plays_key_def)
  have "?f x < 1" if "x \<in> set xs \<union> set ys" for x
  proof -
    have "distinct (xs @ (k, m) # ys)" "set key_candidates = set (xs @ (k, m) # ys)"
      using key_candidates_distinct cs by simp_all
    then have "x \<noteq> (k, m)" "x \<in> set key_candidates" using that by auto
    then show ?thesis using correlate_key_le [OF assms(2,3), of "fst x" "snd x"]
      by (auto simp: key_candidates_set)
  qed
  then have "best_of ?f key_candidates (0, True) = (?f (k, m), (k, m))"
    by (intro best_of_first [OF cs]) (simp_all only: one, auto intro: less_imp_le)
  then show ?thesis using assms(1) one by (simp add: estimateKey_def Let_def)
qed

theorem key_recognised_witness:
  "\<exists>K. estimateKey exact K =
    \<lparr>kr_key = ''D#'', kr_scale = ''minor'', kr_confidence = 1, kr_chroma = map ((*) 2) (rotate 9 kMinorProfile)\<rparr>"
proof -
  let ?c = "map ((*) 2) (rotate 9 kMinorProfile)"
  let ?K = "undefined\<lparr>kd_chroma := ?c, kd_frameCount := 1\<rparr>"
  have "length kMinorProfile = 12" by (simp add: kMinorProfile_def)
  then have "plays_key 2 3 False ?c"
    by (auto simp: plays_key_def nth_rotate profile_of_def mod_simps)
  then have "plays_key 2 3 False (kd_chroma ?K)" by simp
  from key_recognised [OF _ this] show ?thesis by (intro exI [of _ ?K]) (simp add: kKeyNames_def)
qed

text \<open>Silence is C major with confidence 0, before and after it is heard.\<close>

lemma silence_is_c_major:
  assumes "kd_chroma K = replicate 12 0"
  shows "kr_key (estimateKey exact K) = ''C'' \<and> kr_scale (estimateKey exact K) = ''major'' \<and>
    kr_confidence (estimateKey exact K) = 0"
proof (cases "kd_frameCount K = 0")
  case False
  have n: "normalized exact (kd_chroma K) = replicate 12 0" by (simp add: assms normalized_def sum_list_replicate)
  have z: "replicate 12 0 ! (i mod 12) = (0 :: real)" for i by simp
  have "(\<Sum>i\<leftarrow>xs. 0) = (0 :: real)" for xs :: "nat list" by (induction xs) simp_all
  then have f: "correlate exact (replicate 12 0) r p = 0" for r p
    by (simp only: correlate_def Let_def z) simp
  have "best_of (\<lambda>(r, m). correlate exact (normalized exact (kd_chroma K)) r (profile_of exact m)) key_candidates (0, True) = (0, (0, True))"
    using best_of_first [of key_candidates "[]" "(0, True)" "tl key_candidates"
      "\<lambda>(r, m). correlate exact (normalized exact (kd_chroma K)) r (profile_of exact m)" "(0, True)"]
    by (simp add: n f key_candidates_def upt_rec case_prod_beta)
  then show ?thesis using False by (simp add: estimateKey_def Let_def kKeyNames_def)
qed (simp add: estimateKey_def)

end
