(* ===== verification/Chord_Detection.thy ===== *)
theory Chord_Detection
  imports Spectrum
begin

text \<open>
  Chord detection (\<open>dsp/chord_detection.cpp\<close>): four times a second the chroma vector of one frame is
  compared with eight chord templates on every root. In exact arithmetic a chroma vector that is
  a template is named as that chord, but for the augmented triads, which have three roots each and
  are named by the lowest.
\<close>

record chord_result =
  cr_chord :: string
  cr_confidence :: real
  cr_time :: real

record chord_detector =
  cd_fftSize :: nat
  cd_hopSize :: nat
  cd_sampleRate :: int
  cd_fft :: "complex fft"
  cd_window :: window

definition kNoteNames :: "string list" where
  "kNoteNames = [''C'', ''C#'', ''D'', ''D#'', ''E'', ''F'', ''F#'', ''G'', ''G#'', ''A'', ''A#'', ''B'']"

definition kChordTemplates :: "(string \<times> real list) list" where
  "kChordTemplates =
     [('''', [1, 0, 0, 0, 1, 0, 0, 1, 0, 0, 0, 0]), (''m'', [1, 0, 0, 1, 0, 0, 0, 1, 0, 0, 0, 0]),
      (''dim'', [1, 0, 0, 1, 0, 0, 1, 0, 0, 0, 0, 0]), (''aug'', [1, 0, 0, 0, 1, 0, 0, 0, 1, 0, 0, 0]),
      (''sus4'', [1, 0, 0, 0, 0, 1, 0, 1, 0, 0, 0, 0]), (''7'', [1, 0, 0, 0, 1, 0, 0, 1, 0, 0, 1, 0]),
      (''maj7'', [1, 0, 0, 0, 1, 0, 0, 1, 0, 0, 0, 1]), (''m7'', [1, 0, 0, 1, 0, 0, 0, 1, 0, 0, 1, 0])]"

text \<open>\<open>None\<close>: the size is no power of two, or it is 1 and the Hann window has no numbers.\<close>

definition ChordDetection :: "libm \<Rightarrow> fft_arith \<Rightarrow> nat \<Rightarrow> nat \<Rightarrow> int \<Rightarrow> chord_detector option" where
  "ChordDetection L A fftSize hopSize sampleRate =
     (case (make_fft A fftSize, Window L fftSize Hann 6) of
        (Some F, Some W) \<Rightarrow>
          Some \<lparr>cd_fftSize = fftSize, cd_hopSize = hopSize, cd_sampleRate = sampleRate, cd_fft = F, cd_window = W\<rparr>
      | _ \<Rightarrow> None)"

definition similarity :: "libm \<Rightarrow> real list \<Rightarrow> nat \<times> nat \<Rightarrow> real" where
  "similarity L chroma = (\<lambda>(tonic, t).
     let cx = (\<lambda>i. chroma ! ((tonic + i) mod 12)); p = (\<lambda>i. snd (kChordTemplates ! t) ! i);
         num = fsum L (map (\<lambda>i. fmul L (cx i) (p i)) [0..<12]);
         denA = fsum L (map (\<lambda>i. fmul L (cx i) (cx i)) [0..<12]);
         denB = fsum L (map (\<lambda>i. fmul L (p i) (p i)) [0..<12]);
         den = rd_f L (sqrt (fmul L denA denB))
     in if rd_f L (1 / 10 ^ 10) < den then fdiv L num den else 0)"

definition template_candidates :: "(nat \<times> nat) list" where
  "template_candidates = concat (map (\<lambda>tonic. map (\<lambda>t. (tonic, t)) [0..<8]) [0..<12])"

definition name_chord :: "libm \<Rightarrow> real list \<Rightarrow> real \<Rightarrow> chord_result" where
  "name_chord L chroma time =
     (let (bestCorr, bestRoot, bestType) = best_of (similarity L chroma) template_candidates (0, 0)
      in \<lparr>cr_chord = kNoteNames ! bestRoot @ fst (kChordTemplates ! bestType),
          cr_confidence = max 0 (min 1 bestCorr), cr_time = time\<rparr>)"

text \<open>What one analysed frame adds to the results: nothing if it is silent.\<close>

definition chord_of_mags :: "libm \<Rightarrow> chord_detector \<Rightarrow> nat \<Rightarrow> real list \<Rightarrow> chord_result list" where
  "chord_of_mags L C frame magBuf =
     (let rate = rd_f L (real_of_int (cd_sampleRate C));
          chroma = add_bins L (fdiv L rate (rd_f L (real (cd_fftSize C)))) magBuf (replicate 12 0);
          total = fsum L chroma
      in if total < rd_f L (1 / 10 ^ 4) then []
         else [name_chord L (map (\<lambda>v. fdiv L v total) chroma) (fdiv L (rd_f L (real (frame * cd_hopSize C))) rate)])"

text \<open>
  \<open>max(1, sampleRate_ / hopSize_ / 4)\<close>. The rate is not negative here (\<open>None\<close> otherwise: the code
  would divide its wrapped value).
\<close>

definition analysisInterval :: "chord_detector \<Rightarrow> nat" where
  "analysisInterval C = max 1 (nat (cd_sampleRate C) div cd_hopSize C div 4)"

definition chord_frame :: "libm \<Rightarrow> fft_arith \<Rightarrow> chord_detector \<Rightarrow> real list \<Rightarrow> nat \<Rightarrow> chord_result list" where
  "chord_frame L A C audio frame =
     (let magBuf = frame_mags L A (cd_window C) (cd_fft C) audio (frame * cd_hopSize C)
      in if frame mod analysisInterval C = 0 then chord_of_mags L C frame magBuf else [])"

definition process_chords :: "libm \<Rightarrow> fft_arith \<Rightarrow> real list \<Rightarrow> chord_detector \<Rightarrow> chord_result list option" where
  "process_chords L A audio C =
     (if length audio < cd_fftSize C then Some []
      else if cd_hopSize C = 0 \<or> cd_sampleRate C < 0 then None
      else Some (concat (map (chord_frame L A C audio) [0..<frame_count (length audio) (cd_fftSize C) (cd_hopSize C)])))"

subsection \<open>Templates\<close>

text \<open>The pitch classes of a template.\<close>

definition chord_tones :: "nat list list" where
  "chord_tones = [[0, 4, 7], [0, 3, 7], [0, 3, 6], [0, 4, 8], [0, 5, 7], [0, 4, 7, 10], [0, 4, 7, 11], [0, 3, 7, 10]]"

definition share :: "nat \<Rightarrow> nat \<Rightarrow> nat \<Rightarrow> nat" where
  "share t t' d = length (filter (\<lambda>i. (d + i) mod 12 \<in> set (chord_tones ! t)) (chord_tones ! t'))"

lemma template_tones:
  assumes "t < 8" "i < 12"
  shows "snd (kChordTemplates ! t) ! i = (if i \<in> set (chord_tones ! t) then 1 else 0)"
proof -
  have "\<forall>t \<in> set [0..<8]. \<forall>i \<in> set [0..<12]. snd (kChordTemplates ! t) ! i = (if i \<in> set (chord_tones ! t) then 1 else 0)"
    by (simp add: kChordTemplates_def chord_tones_def upt_rec)
  then show ?thesis using assms by simp
qed

text \<open>
  Two chords with the same pitch classes are the same, but for the augmented triads, type 3, on roots
  that differ by 4 or 8.
\<close>

lemma chords_apart:
  "\<forall>t \<in> set [0..<8]. \<forall>t' \<in> set [0..<8]. \<forall>d \<in> set [0..<12].
    (if t' = t \<and> (d = 0 \<or> t = 3 \<and> d mod 4 = 0) then share t t' d * share t t' d = length (chord_tones ! t) * length (chord_tones ! t')
     else share t t' d * share t t' d < length (chord_tones ! t) * length (chord_tones ! t'))"
  by code_simp

subsection \<open>What is recognised\<close>

text \<open>A chroma vector that is \<open>c\<close> times the template \<open>t\<close> on the root \<open>k\<close>.\<close>

definition plays_chord :: "real \<Rightarrow> nat \<Rightarrow> nat \<Rightarrow> real list \<Rightarrow> bool" where
  "plays_chord c k t chroma \<longleftrightarrow> length chroma = 12 \<and> k < 12 \<and> t < 8 \<and>
     (\<forall>i < 12. chroma ! ((k + i) mod 12) = c * snd (kChordTemplates ! t) ! i)"

lemma chord_tones_ok: "t < 8 \<Longrightarrow> distinct (chord_tones ! t) \<and> set (chord_tones ! t) \<subseteq> {..<12} \<and> 3 \<le> length (chord_tones ! t)"
proof -
  have "\<forall>t \<in> set [0..<8]. distinct (chord_tones ! t) \<and> (\<forall>i \<in> set (chord_tones ! t). i < 12) \<and> 3 \<le> length (chord_tones ! t)"
    by code_simp
  then show "t < 8 \<Longrightarrow> ?thesis" by force
qed

lemma sum_template:
  assumes "t < 8"
  shows "(\<Sum>i\<leftarrow>[0..<12]. f i * snd (kChordTemplates ! t) ! i) = (\<Sum>i\<leftarrow>chord_tones ! t. f i)"
proof -
  have T: "distinct (chord_tones ! t)" "set (chord_tones ! t) \<subseteq> {..<12}" using chord_tones_ok [OF assms] by simp_all
  have "(\<Sum>i\<leftarrow>[0..<12]. f i * snd (kChordTemplates ! t) ! i) = (\<Sum>i\<in>{..<12}. f i * snd (kChordTemplates ! t) ! i)"
    by (simp add: sum_list_distinct_conv_sum_set atLeast0LessThan)
  also have "\<dots> = (\<Sum>i\<in>{..<12}. if i \<in> set (chord_tones ! t) then f i else 0)"
    by (intro sum.cong) (simp_all add: template_tones [OF assms])
  also have "\<dots> = sum f (set (chord_tones ! t))" using T(2) by (simp add: sum.If_cases Int_absorb1)
  also have "\<dots> = (\<Sum>i\<leftarrow>chord_tones ! t. f i)" using T(1) by (simp add: sum_list_distinct_conv_sum_set)
  finally show ?thesis .
qed

lemma sum_indicator: "(\<Sum>x\<leftarrow>xs. if P x then c else 0) = c * real (length (filter P xs))"
  by (induction xs) (simp_all add: algebra_simps)

lemma rotated_entry:
  assumes "plays_chord c k t chroma" and "r < 12" "i < 12"
  shows "chroma ! ((r + i) mod 12) = (if ((12 + r - k) mod 12 + i) mod 12 \<in> set (chord_tones ! t) then c else 0)"
proof -
  have k: "k < 12" "t < 8" using assms(1) by (simp_all add: plays_chord_def)
  define j where "j = ((12 + r - k) mod 12 + i) mod 12"
  have j12: "j < 12" by (simp add: j_def)
  have "(k + j) mod 12 = (k + (12 + r - k) + i) mod 12" unfolding j_def by (simp only: mod_simps add.assoc)
  also have "k + (12 + r - k) + i = (r + i) + 12" using k(1) by simp
  also have "((r + i) + 12) mod 12 = (r + i) mod 12" by (rule mod_add_self2)
  finally have "chroma ! ((r + i) mod 12) = c * snd (kChordTemplates ! t) ! j"
    using assms(1) j12 by (auto simp: plays_chord_def)
  then show ?thesis by (simp add: template_tones [OF k(2) j12] j_def [symmetric])
qed

lemma similarity_template:
  assumes "plays_chord c k t chroma" and "1 / 10 ^ 10 < c" and "r < 12" "t' < 8"
  shows "similarity exact chroma (r, t') = real (share t t' ((12 + r - k) mod 12)) /
    sqrt (real (length (chord_tones ! t)) * real (length (chord_tones ! t')))"
proof -
  let ?d = "(12 + r - k) mod 12" and ?n = "length (chord_tones ! t)" and ?n' = "length (chord_tones ! t')"
  have k: "k < 12" "t < 8" "length chroma = 12" using assms(1) by (simp_all add: plays_chord_def)
  note T' = chord_tones_ok [OF assms(4)]
  have num: "(\<Sum>i\<leftarrow>[0..<12]. chroma ! ((r + i) mod 12) * snd (kChordTemplates ! t') ! i) = c * real (share t t' ?d)"
  proof -
    have "(\<Sum>i\<leftarrow>chord_tones ! t'. chroma ! ((r + i) mod 12)) =
        (\<Sum>i\<leftarrow>chord_tones ! t'. if (?d + i) mod 12 \<in> set (chord_tones ! t) then c else 0)"
      using T' by (intro arg_cong [of _ _ sum_list] map_cong refl rotated_entry [OF assms(1,3)]) auto
    then show ?thesis unfolding sum_template [OF assms(4)] by (simp only: sum_indicator share_def)
  qed
  have denB: "(\<Sum>i\<leftarrow>[0..<12]. snd (kChordTemplates ! t') ! i * snd (kChordTemplates ! t') ! i) = real ?n'"
    unfolding sum_template [OF assms(4)]
  proof -
    have "(\<Sum>i\<leftarrow>chord_tones ! t'. snd (kChordTemplates ! t') ! i) = (\<Sum>i\<leftarrow>chord_tones ! t'. 1)"
      using T' by (intro arg_cong [of _ _ sum_list] map_cong refl) (auto simp: template_tones [OF assms(4)])
    then show "(\<Sum>i\<leftarrow>chord_tones ! t'. snd (kChordTemplates ! t') ! i) = real ?n'" by (simp add: sum_list_triv)
  qed
  have denA: "(\<Sum>i\<leftarrow>[0..<12]. chroma ! ((r + i) mod 12) * chroma ! ((r + i) mod 12)) = c * c * real ?n"
  proof -
    have rotate: "(\<Sum>i\<leftarrow>[0..<12]. f ((e + i) mod 12)) = sum f {..<12}" for f :: "nat \<Rightarrow> real" and e
    proof -
      have "map (\<lambda>i. f ((e + i) mod 12)) [0..<12] = rotate e (map f [0..<12])"
        by (intro nth_equalityI) (simp_all add: nth_rotate)
      then have "(\<Sum>i\<leftarrow>[0..<12]. f ((e + i) mod 12)) = sum_list (map f [0..<12])"
        by (simp only: rotate_drop_take sum_list_append) (metis add.commute append_take_drop_id sum_list_append)
      then show ?thesis by (simp add: sum_list_distinct_conv_sum_set atLeast0LessThan)
    qed
    have "(\<Sum>i\<leftarrow>[0..<12]. chroma ! ((r + i) mod 12) * chroma ! ((r + i) mod 12)) =
        (\<Sum>i\<leftarrow>[0..<12]. chroma ! ((k + i) mod 12) * chroma ! ((k + i) mod 12))"
      unfolding rotate [of "\<lambda>j. chroma ! j * chroma ! j"] ..
    also have "\<dots> = (\<Sum>i\<leftarrow>[0..<12]. (c * c) * snd (kChordTemplates ! t) ! i)"
      using assms(1) by (intro arg_cong [of _ _ sum_list] map_cong refl)
        (auto simp: plays_chord_def template_tones)
    also have "\<dots> = c * c * real ?n" unfolding sum_template [OF k(2)] by (simp add: sum_list_triv)
    finally show ?thesis .
  qed
  have pos: "1 \<le> real ?n * real ?n'"
    using T' chord_tones_ok [OF k(2)] mult_mono [of 1 "real ?n" 1 "real ?n'"] by simp
  have den: "sqrt (c * c * real ?n * real ?n') = c * sqrt (real ?n * real ?n')"
    using assms(2) by (simp add: real_sqrt_mult)
  have "c * 1 \<le> c * sqrt (real ?n * real ?n')" using pos assms(2) by (intro mult_left_mono) simp_all
  then have "1 / 10 ^ 10 < c * sqrt (real ?n * real ?n')" using assms(2) by linarith
  then show ?thesis
    using assms(2) by (simp add: similarity_def Let_def num denA denB den)
qed

text \<open>The root that is named: of the three roots of an augmented triad, the lowest.\<close>

definition named_root :: "nat \<Rightarrow> nat \<Rightarrow> nat" where
  "named_root k t = (if t = 3 then k mod 4 else k)"

lemma template_candidates_set: "set template_candidates = {..<12} \<times> {..<8}"
  by (force simp: template_candidates_def)

lemma same_root:
  assumes "k < 12" "r < (12 :: nat)"
  shows "(12 + r - k) mod 12 = 0 \<longleftrightarrow> r = k" and "((12 + r - k) mod 12) mod 4 = 0 \<longleftrightarrow> r mod 4 = k mod 4"
proof -
  have "\<forall>k \<in> set [0..<12]. \<forall>r \<in> set [0..<12]. ((12 + r - k) mod 12 = 0 \<longleftrightarrow> r = k) \<and>
      (((12 + r - k) mod 12) mod 4 = 0 \<longleftrightarrow> r mod 4 = k mod (4 :: nat))"
    by code_simp
  then show "(12 + r - k) mod 12 = 0 \<longleftrightarrow> r = k" and "((12 + r - k) mod 12) mod 4 = 0 \<longleftrightarrow> r mod 4 = k mod 4"
    using assms by simp_all
qed

lemma similarity_le:
  assumes "plays_chord c k t chroma" and "1 / 10 ^ 10 < c" and "r < 12" "t' < 8"
  shows "if t' = t \<and> (r = k \<or> t = 3 \<and> r mod 4 = k mod 4) then similarity exact chroma (r, t') = 1
    else similarity exact chroma (r, t') < 1"
proof -
  have k: "k < 12" "t < 8" using assms(1) by (simp_all add: plays_chord_def)
  let ?d = "(12 + r - k) mod 12" and ?n = "length (chord_tones ! t)" and ?n' = "length (chord_tones ! t')"
  have apart: "if t' = t \<and> (r = k \<or> t = 3 \<and> r mod 4 = k mod 4) then share t t' ?d * share t t' ?d = ?n * ?n'
      else share t t' ?d * share t t' ?d < ?n * ?n'"
    using chords_apart [THEN bspec, of t, THEN bspec, of t', THEN bspec, of ?d] k assms(4)
    by (simp only: same_root [OF k(1) assms(3)] set_upt atLeastLessThan_iff) simp
  have "0 < ?n" "0 < ?n'" using chord_tones_ok [OF k(2)] chord_tones_ok [OF assms(4)] by linarith+
  then have root: "0 < sqrt (real ?n * real ?n')" by simp
  have "real (share t t' ?d) = sqrt (real ?n * real ?n')" if "share t t' ?d * share t t' ?d = ?n * ?n'"
    unfolding of_nat_mult [symmetric] that [symmetric] by simp
  moreover have "real (share t t' ?d) < sqrt (real ?n * real ?n')" if "share t t' ?d * share t t' ?d < ?n * ?n'"
  proof (rule real_less_rsqrt)
    have "real (share t t' ?d * share t t' ?d) < real (?n * ?n')" using that by (simp only: of_nat_less_iff)
    then show "(real (share t t' ?d))\<^sup>2 < real ?n * real ?n'" by (simp add: power2_eq_square)
  qed
  ultimately show ?thesis
    unfolding similarity_template [OF assms] using apart root by (auto simp: divide_less_eq split: if_splits)
qed

text \<open>The candidates before the one that is chosen are worse.\<close>

lemma chord_split:
  assumes "k < 12" "t < 8"
  shows "\<exists>xs ys. template_candidates = xs @ (named_root k t, t) # ys \<and>
    (\<forall>(r, t') \<in> set xs. \<not> (t' = t \<and> (r = k \<or> t = 3 \<and> r mod 4 = k mod 4)))"
proof -
  have "\<forall>k \<in> set [0..<12]. \<forall>t \<in> set [0..<8]. \<forall>(r, t') \<in> set (takeWhile (\<lambda>x. x \<noteq> (named_root k t, t)) template_candidates).
      \<not> (t' = t \<and> (r = k \<or> t = 3 \<and> r mod 4 = k mod 4))"
    by code_simp
  then have before: "\<forall>(r, t') \<in> set (takeWhile (\<lambda>x. x \<noteq> (named_root k t, t)) template_candidates).
      \<not> (t' = t \<and> (r = k \<or> t = 3 \<and> r mod 4 = k mod 4))"
    using assms by simp
  have "(named_root k t, t) \<in> set template_candidates"
    using assms by (auto simp: template_candidates_set named_root_def)
  from split_list_first [OF this] obtain xs ys where
    cs: "template_candidates = xs @ (named_root k t, t) # ys" "(named_root k t, t) \<notin> set xs" by blast
  have "takeWhile (\<lambda>x. x \<noteq> (named_root k t, t)) template_candidates = xs"
    unfolding cs(1) using cs(2) by (subst takeWhile_append2) auto
  with before cs(1) show ?thesis by (intro exI [of _ xs] exI [of _ ys]) simp
qed

text \<open>
  C38. In exact arithmetic a chroma vector that is a multiple of one of the eight templates on some root is
  named as that chord with confidence 1; the augmented triads on C, E and G sharp are all C aug, and so
  on for the other three.
\<close>

theorem chord_recognised:
  assumes "plays_chord c k t chroma" and "1 / 10 ^ 10 < c"
  shows "name_chord exact chroma time =
    \<lparr>cr_chord = kNoteNames ! named_root k t @ fst (kChordTemplates ! t), cr_confidence = 1, cr_time = time\<rparr>"
proof -
  have k: "k < 12" "t < 8" using assms(1) by (simp_all add: plays_chord_def)
  from chord_split [OF k] obtain xs ys where cs: "template_candidates = xs @ (named_root k t, t) # ys"
    and xs: "\<forall>(r, t') \<in> set xs. \<not> (t' = t \<and> (r = k \<or> t = 3 \<and> r mod 4 = k mod 4))" by blast
  have "set xs \<union> set ys \<subseteq> set template_candidates" unfolding cs by auto
  then have set: "set xs \<union> set ys \<subseteq> {..<12} \<times> {..<8}" by (simp only: template_candidates_set)
  have "named_root k t < 12" using k mod_less_eq_dividend [of k 4] by (auto simp: named_root_def)
  from similarity_le [OF assms this k(2)] have one: "similarity exact chroma (named_root k t, t) = 1"
    by (simp add: named_root_def split: if_splits)
  have "similarity exact chroma x < 1" if "x \<in> set xs" for x
  proof -
    obtain a b where x: "x = (a, b)" by (cases x)
    then have "a < 12" "b < 8" "\<not> (b = t \<and> (a = k \<or> t = 3 \<and> a mod 4 = k mod 4))" using that set xs by auto
    then show ?thesis using similarity_le [OF assms, of a b] x by (simp only: if_False)
  qed
  moreover have "similarity exact chroma x \<le> 1" if "x \<in> set ys" for x
    using similarity_le [OF assms, of "fst x" "snd x"] that set by (cases x) (auto split: if_splits)
  ultimately have "best_of (similarity exact chroma) template_candidates (0, 0) = (1, (named_root k t, t))"
    using best_of_first [OF cs, of "similarity exact chroma"] one by simp
  then show ?thesis by (simp add: name_chord_def)
qed

theorem chord_recognised_witness:
  "cr_chord (name_chord exact (rotate 5 [3, 0, 0, 3, 0, 0, 0, 3, 0, 0, 3, 0]) 0) = ''Gm7'' \<and>
   cr_chord (name_chord exact (rotate 4 [3, 0, 0, 0, 3, 0, 0, 0, 3, 0, 0, 0]) 0) = ''Caug''"
proof -
  have "\<forall>i \<in> set [0..<12]. rotate 5 [3, 0, 0, 3, 0, 0, 0, 3, 0, 0, 3, 0] ! ((7 + i) mod 12) = 3 * snd (kChordTemplates ! 7) ! i"
    "\<forall>i \<in> set [0..<12]. rotate 4 [3, 0, 0, 0, 3, 0, 0, 0, 3, 0, 0, 0] ! ((8 + i) mod 12) = 3 * snd (kChordTemplates ! 3) ! i"
    by (simp_all add: upt_rec rotate_drop_take kChordTemplates_def)
  then have "plays_chord 3 7 7 (rotate 5 [3, 0, 0, 3, 0, 0, 0, 3, 0, 0, 3, 0])"
    and "plays_chord 3 8 3 (rotate 4 [3, 0, 0, 0, 3, 0, 0, 0, 3, 0, 0, 0])"
    by (simp_all add: plays_chord_def)
  then show ?thesis
    using chord_recognised [of 3 7 7 _ 0] chord_recognised [of 3 8 3 _ 0]
    by (simp add: named_root_def kNoteNames_def kChordTemplates_def)
qed

end
