(* ===== verification/Onset_Detection.thy ===== *)
theory Onset_Detection
  imports Spectrum
begin

text \<open>
  Onset detection (\<open>dsp/onset_detection.cpp\<close>): the spectral flux from frame to frame, and the peaks of it
  that stand out. The times of the onsets are reckoned at 44100 Hz, whatever the sample rate is.
\<close>

record onset_result =
  or_times :: "real list"
  or_strengths :: "real list"

record onset_detection =
  od_fftSize :: nat
  od_hopSize :: nat
  od_fft :: "complex fft"
  od_window :: window
  od_df :: "real list"
  od_prevMag :: "real list"

text \<open>
  \<open>None\<close>: the size is no power of two, or it is 1. The three buffers that every frame overwrites before it
  reads them are not part of the state.
\<close>

definition OnsetDetection :: "libm \<Rightarrow> fft_arith \<Rightarrow> nat \<Rightarrow> nat \<Rightarrow> onset_detection option" where
  "OnsetDetection L A fftSize hopSize =
     (case (make_fft A fftSize, Window L fftSize Hann 6) of
        (Some F, Some W) \<Rightarrow>
          Some \<lparr>od_fftSize = fftSize, od_hopSize = hopSize, od_fft = F, od_window = W, od_df = [],
                od_prevMag = replicate (bin_count F) 0\<rparr>
      | _ \<Rightarrow> None)"

definition spectralFlux :: "libm \<Rightarrow> real list \<Rightarrow> onset_detection \<Rightarrow> real" where
  "spectralFlux L mag D =
     (let total = fold (\<lambda>b total. let diff = fsub L (mag ! b) (od_prevMag D ! b)
                                  in if 0 < diff then fadd L total diff else total) [0..<length mag] 0
      in fdiv L total (rd_f L (real (length mag))))"

definition highFrequencyContent :: "libm \<Rightarrow> real list \<Rightarrow> real" where
  "highFrequencyContent L mag =
     fdiv L (fold (\<lambda>b total. fadd L total (fmul L (rd_f L (real b)) (mag ! b))) [0..<length mag] 0) (rd_f L (real (length mag)))"

definition onset_frame :: "libm \<Rightarrow> fft_arith \<Rightarrow> real list \<Rightarrow> nat \<Rightarrow> onset_detection \<Rightarrow> onset_detection" where
  "onset_frame L A audio frame D =
     (let magBuf = frame_mags L A (od_window D) (od_fft D) audio (frame * od_hopSize D);
          flux = spectralFlux L magBuf D;
          D = D\<lparr>od_df := od_df D @ [if 1 \<le> frame then flux else 0]\<rparr>
      in D\<lparr>od_prevMag := magBuf\<rparr>)"

definition process_onsets :: "libm \<Rightarrow> fft_arith \<Rightarrow> real list \<Rightarrow> onset_detection \<Rightarrow> onset_detection option" where
  "process_onsets L A audio D =
     (if length audio < od_fftSize D then Some D
      else if od_hopSize D = 0 then None
      else Some (fold (onset_frame L A audio) [0..<frame_count (length audio) (od_fftSize D) (od_hopSize D)] D))"

definition df_mean :: "libm \<Rightarrow> real list \<Rightarrow> real" where
  "df_mean L df = fdiv L (fsum L df) (rd_f L (real (length df)))"

definition df_stddev :: "libm \<Rightarrow> real list \<Rightarrow> real" where
  "df_stddev L df =
     (let mean = df_mean L df;
          sqSum = fsum L (map (\<lambda>v. let d = fsub L v mean in fmul L d d) df)
      in rd_f L (sqrt (fdiv L sqSum (rd_f L (real (length df))))))"

definition onset_at :: "libm \<Rightarrow> real \<Rightarrow> onset_detection \<Rightarrow> nat \<Rightarrow> bool" where
  "onset_at L threshold D i \<longleftrightarrow>
     (let df = od_df D; thresh = fadd L (df_mean L df) (fmul L threshold (df_stddev L df))
      in thresh < df ! i \<and> df ! (i - 1) < df ! i \<and> df ! (i + 1) < df ! i)"

definition getOnsets :: "libm \<Rightarrow> real \<Rightarrow> onset_detection \<Rightarrow> onset_result" where
  "getOnsets L threshold D =
     (if od_df D = [] then \<lparr>or_times = [], or_strengths = []\<rparr>
      else let peaks = filter (onset_at L threshold D) [1..<length (od_df D) - 1]
           in \<lparr>or_times = map (\<lambda>i. fdiv L (rd_f L (real (i * od_hopSize D))) 44100) peaks,
               or_strengths = map (\<lambda>i. fdiv L (fsub L (od_df D ! i) (df_mean L (od_df D))) (df_stddev L (od_df D))) peaks\<rparr>)"

subsection \<open>The detection function\<close>

lemma flux_nonneg:
  "0 \<le> t \<Longrightarrow> 0 \<le> fold (\<lambda>b total. let diff = fsub exact (mag ! b) (prev ! b) in if 0 < diff then fadd exact total diff else total) bs t"
  by (induction bs arbitrary: t) (simp_all add: Let_def)

lemma spectralFlux_nonneg: "0 \<le> spectralFlux exact mag D"
  unfolding spectralFlux_def Let_def
  using flux_nonneg [of 0 mag "od_prevMag D" "[0..<length mag]", unfolded Let_def] by simp

text \<open>Every frame appends one value to the detection function; none is negative.\<close>

lemma onset_frames:
  "od_hopSize (fold (onset_frame L A audio) fs D) = od_hopSize D \<and>
   length (od_df (fold (onset_frame L A audio) fs D)) = length (od_df D) + length fs"
  by (induction fs arbitrary: D) (simp_all add: onset_frame_def Let_def)

lemma onset_frames_nonneg:
  "\<forall>v \<in> set (od_df D). 0 \<le> v \<Longrightarrow> \<forall>v \<in> set (od_df (fold (onset_frame exact A audio) fs D)). 0 \<le> v"
proof (induction fs arbitrary: D)
  case (Cons f fs)
  have "\<forall>v \<in> set (od_df (onset_frame exact A audio f D)). 0 \<le> v"
    using Cons.prems by (auto simp: onset_frame_def Let_def spectralFlux_nonneg)
  then show ?case by (simp add: Cons.IH)
qed simp

subsection \<open>The peaks\<close>

text \<open>A value above the mean: not all values are equal, so the deviation is positive.\<close>

lemma df_stddev_pos:
  assumes "v \<in> set df" and "v \<noteq> df_mean exact df"
  shows "0 < df_stddev exact df"
proof -
  define m where "m = df_mean exact df"
  have nonneg: "0 \<le> (\<Sum>v\<leftarrow>xs. (v - m) * (v - m))" for xs by (induction xs) simp_all
  from split_list [OF assms(1)] obtain xs ys where df: "df = xs @ v # ys" by blast
  have "v - m < 0 \<or> 0 < v - m" using assms(2) unfolding m_def by linarith
  then have "0 < (v - m) * (v - m)" by (elim disjE) (rule mult_neg_neg mult_pos_pos; assumption)+
  moreover have "(\<Sum>v\<leftarrow>xs @ v # ys. (v - m) * (v - m)) =
      (\<Sum>v\<leftarrow>xs. (v - m) * (v - m)) + ((v - m) * (v - m) + (\<Sum>v\<leftarrow>ys. (v - m) * (v - m)))"
    by simp
  ultimately have "0 < (\<Sum>v\<leftarrow>df. (v - m) * (v - m))"
    using nonneg [of xs] nonneg [of ys] unfolding df by linarith
  then show ?thesis using assms(1) by (cases df) (simp_all add: df_stddev_def Let_def m_def)
qed

text \<open>
  C39. With a non-negative threshold the reported onsets are, in order and without repetition, exactly the inner
  local peaks of the detection function that exceed its mean by more than the threshold times its
  deviation. The deviation is then positive, so no strength divides by zero, and every strength is
  larger than the threshold. The times are the frame positions divided by 44100, the sample rate of
  the audio plays no part.
\<close>

theorem onsets_correct:
  assumes "0 \<le> threshold"
  defines "peak \<equiv> \<lambda>D i. 0 < i \<and> Suc i < length (od_df D) \<and> od_df D ! (i - 1) < od_df D ! i \<and>
    od_df D ! (i + 1) < od_df D ! i \<and>
    df_mean exact (od_df D) + threshold * df_stddev exact (od_df D) < od_df D ! i"
  shows "\<exists>is. set is = {i. peak D i} \<and> sorted_wrt (<) is \<and>
    or_times (getOnsets exact threshold D) = map (\<lambda>i. real (i * od_hopSize D) / 44100) is \<and>
    length (or_strengths (getOnsets exact threshold D)) = length is \<and>
    (\<forall>s \<in> set (or_strengths (getOnsets exact threshold D)). threshold < s) \<and>
    (is \<noteq> [] \<longrightarrow> 0 < df_stddev exact (od_df D))"
proof (intro exI conjI)
  let ?df = "od_df D"
  let ?is = "filter (onset_at exact threshold D) [1..<length ?df - 1]"
  have at: "onset_at exact threshold D i \<and> i \<in> {1..<length ?df - 1} \<longleftrightarrow> peak D i" for i
    by (auto simp: onset_at_def Let_def peak_def)
  then show set: "set ?is = {i. peak D i}" by auto
  show "sorted_wrt (<) ?is" by (intro sorted_wrt_filter sorted_wrt_upt)
  show "or_times (getOnsets exact threshold D) = map (\<lambda>i. real (i * od_hopSize D) / 44100) ?is"
    by (simp add: getOnsets_def Let_def)
  show "length (or_strengths (getOnsets exact threshold D)) = length ?is"
    by (simp add: getOnsets_def Let_def)
  have dev: "0 < df_stddev exact ?df \<and> threshold < (?df ! i - df_mean exact ?df) / df_stddev exact ?df" if "peak D i" for i
  proof -
    have "0 \<le> df_stddev exact ?df"
    proof -
      have "0 \<le> (\<Sum>v\<leftarrow>xs. (v - m) * (v - m))" for xs and m :: real by (induction xs) simp_all
      then show ?thesis by (simp add: df_stddev_def Let_def)
    qed
    then have "0 \<le> threshold * df_stddev exact ?df" using assms(1) by simp
    then have above: "df_mean exact ?df < ?df ! i" using that unfolding peak_def by linarith
    then have "0 < df_stddev exact ?df" using that by (intro df_stddev_pos [of "?df ! i"]) (simp_all add: peak_def)
    then show ?thesis using that by (simp add: peak_def less_divide_eq algebra_simps)
  qed
  show "\<forall>s \<in> set (or_strengths (getOnsets exact threshold D)). threshold < s"
    using dev at by (auto simp: getOnsets_def Let_def)
  show "?is \<noteq> [] \<longrightarrow> 0 < df_stddev exact ?df"
    using dev set by (metis hd_in_set mem_Collect_eq)
qed

theorem onsets_correct_witness:
  "\<exists>D is. od_df D = [0, 1, 0, 0] \<and> set is = {1} \<and>
    or_times (getOnsets exact 0 D) = map (\<lambda>i. real (i * 44100) / 44100) is"
proof -
  let ?D = "undefined\<lparr>od_df := [0, 1, 0, 0], od_hopSize := 44100\<rparr> :: onset_detection"
  have S: "{i. 0 < i \<and> Suc i < length (od_df ?D) \<and> od_df ?D ! (i - 1) < od_df ?D ! i \<and>
      od_df ?D ! (i + 1) < od_df ?D ! i \<and>
      df_mean exact (od_df ?D) + 0 * df_stddev exact (od_df ?D) < od_df ?D ! i} = {1}" (is "{i. ?P i} = _")
  proof (rule set_eqI)
    fix i
    have mean: "df_mean exact [0, 1, 0, 0] = 1 / 4" by (simp add: df_mean_def)
    consider "i = 0" | "i = 1" | "i = 2" | "4 \<le> Suc i" by linarith
    then have "?P i \<longleftrightarrow> i = 1" by cases (simp_all add: mean)
    then show "i \<in> {i. ?P i} \<longleftrightarrow> i \<in> {1}" by simp
  qed
  from onsets_correct [of 0 ?D, OF order_refl, unfolded S] show ?thesis by (intro exI [of _ ?D]) auto
qed

end
