(* ===== verification/Wav_Reader.thy ===== *)
theory Wav_Reader
  imports Dsp_Arith
begin

text \<open>
  The WAV reader of the analysis tool (\<open>readWAV\<close> of \<open>tools/dsp_cli.cpp\<close>), over a file that is a list
  of bytes and a stream with a position and a fail bit. A byte of a variable that was never written
  is \<open>None\<close>; where the result depends on one, the model says so. The host is little-endian.
\<close>

subsection \<open>The stream\<close>

record stream =
  st_bytes :: "u8 list"
  st_pos :: nat
  st_ok :: bool

text \<open>\<open>read\<close> overwrites as much of the buffer as there are bytes; \<open>seekg\<close> may leave the file.\<close>

definition sread :: "nat \<Rightarrow> u8 option list \<Rightarrow> stream \<Rightarrow> u8 option list \<times> stream" where
  "sread n buf s =
     (if st_ok s
      then let got = take n (drop (st_pos s) (st_bytes s))
           in (map Some got @ drop (length got) buf,
               s\<lparr>st_pos := st_pos s + length got, st_ok := (length got = n)\<rparr>)
      else (buf, s))"

definition sskip :: "nat \<Rightarrow> stream \<Rightarrow> stream" where
  "sskip n s = (if st_ok s then s\<lparr>st_pos := st_pos s + n\<rparr> else s)"

definition unwritten :: "nat \<Rightarrow> u8 option list" where
  "unwritten n = replicate n None"

text \<open>The number in a buffer, lowest byte first; \<open>None\<close> if a byte of it was never written.\<close>

fun le_value :: "u8 option list \<Rightarrow> nat option" where
  "le_value [] = Some 0"
| "le_value (b # bs) =
     (case (b, le_value bs) of (Some x, Some n) \<Rightarrow> Some (unat x + 256 * n) | _ \<Rightarrow> None)"

definition ascii :: "string \<Rightarrow> u8 list" where
  "ascii s = map of_char s"

text \<open>\<open>memcmp(buf, tag, 4) == 0\<close>.\<close>

definition is_tag :: "u8 option list \<Rightarrow> string \<Rightarrow> bool option" where
  "is_tag buf tag = (if None \<in> set buf then None else Some (buf = map Some (ascii tag)))"

subsection \<open>The chunks\<close>

record wav_header =
  wh_format :: "u8 option list"
  wh_channels :: "u8 option list"
  wh_rate :: "u8 option list"
  wh_bits :: "u8 option list"
  wh_data :: nat
  wh_found :: bool

definition no_header :: wav_header where
  "no_header = \<lparr>wh_format = [Some 0, Some 0], wh_channels = [Some 0, Some 0], wh_rate = replicate 4 (Some 0),
     wh_bits = [Some 0, Some 0], wh_data = 0, wh_found = False\<rparr>"

definition read_fmt :: "nat \<Rightarrow> wav_header \<Rightarrow> stream \<Rightarrow> wav_header \<times> stream" where
  "read_fmt chunkSize H s =
     (let (formatTag, s) = sread 2 (unwritten 2) s;
          (chans, s) = sread 2 (wh_channels H) s;
          (rate, s) = sread 4 (wh_rate H) s;
          s = sskip 6 s;
          (bits, s) = sread 2 (wh_bits H) s;
          remaining = word_of_nat chunkSize - 16 :: u32
      in (H\<lparr>wh_format := formatTag, wh_channels := chans, wh_rate := rate, wh_bits := bits, wh_found := True\<rparr>,
          if 0 < remaining then sskip (unat remaining) s else s))"

lemma sread_length: "length buf = n \<Longrightarrow> sread n buf s = (b, s') \<Longrightarrow> length b = n"
  by (auto simp: sread_def Let_def split: if_splits)

lemma sread_stream:
  "sread n buf s = (b, s') \<Longrightarrow> st_bytes s' = st_bytes s \<and> st_pos s \<le> st_pos s' \<and>
    (st_ok s' \<longrightarrow> st_ok s \<and> st_pos s' = st_pos s + n \<and> (0 < n \<longrightarrow> st_pos s' \<le> length (st_bytes s)))"
  by (auto simp: sread_def Let_def split: if_splits)

lemma sskip_stream: "st_bytes (sskip n s) = st_bytes s \<and> st_pos s \<le> st_pos (sskip n s)"
  by (simp add: sskip_def)

lemma read_fmt_stream: "st_bytes (snd (read_fmt z H s)) = st_bytes s \<and> st_pos s \<le> st_pos (snd (read_fmt z H s))"
proof -
  obtain b1 s1 where 1: "sread 2 (unwritten 2) s = (b1, s1)" by fastforce
  obtain b2 s2 where 2: "sread 2 (wh_channels H) s1 = (b2, s2)" by fastforce
  obtain b3 s3 where 3: "sread 4 (wh_rate H) s2 = (b3, s3)" by fastforce
  obtain b4 s4 where 4: "sread 2 (wh_bits H) (sskip 6 s3) = (b4, s4)" by fastforce
  have "st_bytes s4 = st_bytes s \<and> st_pos s \<le> st_pos s4"
    using sread_stream [OF 1] sread_stream [OF 2] sread_stream [OF 3] sread_stream [OF 4] sskip_stream [of 6 s3]
    by auto
  then show ?thesis
    using sskip_stream [of "unat (word_of_nat z - 16 :: u32)" s4] by (auto simp: read_fmt_def Let_def 1 2 3 4)
qed

text \<open>\<open>while (file.read(chunkId, 4) && file.read(&chunkSize, 4))\<close>.\<close>

function chunk_loop :: "wav_header \<Rightarrow> stream \<Rightarrow> wav_header \<times> stream" where
  "chunk_loop H s =
     (let (chunkId, s1) = sread 4 (unwritten 4) s; (sizeBuf, s2) = sread 4 (unwritten 4) s1;
          chunkSize = the (le_value sizeBuf)
      in if \<not> (st_ok s1 \<and> st_ok s2) then (H, s2)
         else if \<not> wh_found H \<and> is_tag chunkId ''fmt '' = Some True
         then let (H, s) = read_fmt chunkSize H s2 in chunk_loop H s
         else if is_tag chunkId ''data'' = Some True then (H\<lparr>wh_data := chunkSize\<rparr>, s2)
         else chunk_loop H (sskip chunkSize s2))"
  by pat_completeness auto
termination
proof (relation "measure (\<lambda>(H, s). length (st_bytes s) - st_pos s)", goal_cases)
  case (2 H s x b1 s1 x2 b2 s2 z xa Ha sa)
  have A: "st_bytes s1 = st_bytes s" "st_pos s1 = st_pos s + 4"
    and B: "st_bytes s2 = st_bytes s1" "st_pos s2 = st_pos s1 + 4" "st_pos s2 \<le> length (st_bytes s1)"
    using sread_stream [of 4 "unwritten 4" s b1 s1] sread_stream [of 4 "unwritten 4" s1 b2 s2] 2 by auto
  have sa: "sa = snd (read_fmt z H s2)" using 2 by (metis snd_conv)
  have "st_bytes sa = st_bytes s2" "st_pos s2 \<le> st_pos sa"
    using read_fmt_stream [of z H s2] unfolding sa by simp_all
  then show ?case using A B by simp
next
  case (3 H s x b1 s1 x2 b2 s2 z)
  have A: "st_bytes s1 = st_bytes s" "st_pos s1 = st_pos s + 4"
    and B: "st_bytes s2 = st_bytes s1" "st_pos s2 = st_pos s1 + 4" "st_pos s2 \<le> length (st_bytes s1)"
    using sread_stream [of 4 "unwritten 4" s b1 s1] sread_stream [of 4 "unwritten 4" s1 b2 s2] 3 by auto
  then show ?case using A B sskip_stream [of z s2] by (simp add: diff_less_mono2)
qed simp

declare chunk_loop.simps [simp del]

subsection \<open>The samples\<close>

datatype wav_error = Cannot_open_wav | Not_riff | No_fmt | Not_pcm nat | Not_16_bit nat | No_data

text \<open>
  \<open>Wav_undefined\<close>: the result depends on a variable that was never written, because the file ends
  too early. \<open>Wav_trap\<close>: the division by a channel count of 0. A refused file gives an empty vector.
\<close>

datatype wav = Wav_refused wav_error | Wav_undefined | Wav_trap | Wav "real list" int int

text \<open>\<open>sample / 32768.0f\<close> of the next \<open>int16_t\<close>.\<close>

definition read_sample :: "libm \<Rightarrow> stream \<Rightarrow> real option \<times> stream" where
  "read_sample L s =
     (let (buf, s) = sread 2 (unwritten 2) s
      in (map_option (\<lambda>n. fdiv L (real_of_int (sint (word_of_nat n :: 16 word))) 32768) (le_value buf), s))"

fun sum_channels :: "libm \<Rightarrow> nat \<Rightarrow> real \<Rightarrow> stream \<Rightarrow> real option \<times> stream" where
  "sum_channels L 0 tot s = (Some tot, s)"
| "sum_channels L (Suc n) tot s =
     (case read_sample L s of
        (None, s) \<Rightarrow> (None, s)
      | (Some x, s) \<Rightarrow> sum_channels L n (fadd L tot x) s)"

definition read_frame :: "libm \<Rightarrow> nat \<Rightarrow> stream \<Rightarrow> real option \<times> stream" where
  "read_frame L numChannels s =
     (if numChannels = 1 then read_sample L s
      else let (tot, s) = sum_channels L numChannels 0 s
           in (map_option (\<lambda>t. fdiv L t (real numChannels)) tot, s))"

fun read_frames :: "libm \<Rightarrow> nat \<Rightarrow> nat \<Rightarrow> stream \<Rightarrow> real list option" where
  "read_frames L numChannels 0 s = Some []"
| "read_frames L numChannels (Suc n) s =
     (case read_frame L numChannels s of
        (None, _) \<Rightarrow> None
      | (Some x, s) \<Rightarrow> map_option ((#) x) (read_frames L numChannels n s))"

definition after_chunks :: "libm \<Rightarrow> wav_header \<Rightarrow> stream \<Rightarrow> wav" where
  "after_chunks L H s =
     (if \<not> wh_found H then Wav_refused No_fmt
      else case le_value (wh_format H) of
        None \<Rightarrow> Wav_undefined
      | Some audioFormat \<Rightarrow>
          if audioFormat \<noteq> 1 then Wav_refused (Not_pcm audioFormat)
          else if the (le_value (wh_bits H)) \<noteq> 16 then Wav_refused (Not_16_bit (the (le_value (wh_bits H))))
          else if wh_data H = 0 then Wav_refused No_data
          else let numChannels = the (le_value (wh_channels H));
                   sampleRate = sint (word_of_nat (the (le_value (wh_rate H))) :: u32);
                   totalSamples = wh_data H div (16 div 8)
               in if numChannels = 0 then Wav_trap
                  else case read_frames L numChannels (totalSamples div numChannels) s of
                         None \<Rightarrow> Wav_undefined
                       | Some audio \<Rightarrow> Wav audio sampleRate (int numChannels))"

definition readWAV :: "libm \<Rightarrow> u8 list option \<Rightarrow> wav" where
  "readWAV L file =
     (case file of
        None \<Rightarrow> Wav_refused Cannot_open_wav
      | Some bytes \<Rightarrow>
          let s = \<lparr>st_bytes = bytes, st_pos = 0, st_ok = True\<rparr>;
              (riff, s) = sread 4 (unwritten 4) s;
              (_, s) = sread 4 (unwritten 4) s;
              (wave, s) = sread 4 (unwritten 4) s
          in case is_tag riff ''RIFF'' of
               None \<Rightarrow> Wav_undefined
             | Some False \<Rightarrow> Wav_refused Not_riff
             | Some True \<Rightarrow>
                 (case is_tag wave ''WAVE'' of
                    None \<Rightarrow> Wav_undefined
                  | Some False \<Rightarrow> Wav_refused Not_riff
                  | Some True \<Rightarrow> let (H, s) = chunk_loop no_header s in after_chunks L H s))"

subsection \<open>A file that is read\<close>

text \<open>
  The bytes of a number, and the RIFF files with 16-bit PCM samples: a size field, and chunks, of which the format
  chunk, with perhaps an extension behind its 16 bytes, comes before the data chunk, with others before, between
  and after them. A chunk whose body has odd length is followed by a byte of padding that its size does not count.
\<close>

fun le_bytes :: "nat \<Rightarrow> nat \<Rightarrow> u8 list" where
  "le_bytes 0 n = []"
| "le_bytes (Suc k) n = word_of_nat n # le_bytes k (n div 256)"

definition chunk :: "string \<times> u8 list \<Rightarrow> u8 list" where
  "chunk = (\<lambda>(tag, body). ascii tag @ le_bytes 4 (length body) @ body @ (if odd (length body) then [0] else []))"

definition fmt_body :: "nat \<Rightarrow> nat \<Rightarrow> u8 list" where
  "fmt_body chans rate =
     le_bytes 2 1 @ le_bytes 2 chans @ le_bytes 4 rate @ le_bytes 4 (rate * chans * 2) @ le_bytes 2 (chans * 2) @ le_bytes 2 16"

definition sample_bytes :: "16 word list \<Rightarrow> u8 list" where
  "sample_bytes xs = concat (map (\<lambda>x. le_bytes 2 (unat x)) xs)"

record other_chunks =
  riff_size :: nat
  fmt_ext :: "u8 list"
  before_fmt :: "(string \<times> u8 list) list"
  before_data :: "(string \<times> u8 list) list"
  after_data :: "(string \<times> u8 list) list"

definition wav_file :: "other_chunks \<Rightarrow> nat \<Rightarrow> nat \<Rightarrow> 16 word list \<Rightarrow> u8 list" where
  "wav_file oc chans rate samples =
     ascii ''RIFF'' @ le_bytes 4 (riff_size oc) @ ascii ''WAVE'' @
     concat (map chunk (before_fmt oc)) @ chunk (''fmt '', fmt_body chans rate @ fmt_ext oc) @
     concat (map chunk (before_data oc)) @ chunk (''data'', sample_bytes samples) @ concat (map chunk (after_data oc))"

lemma length_le_bytes [simp]: "length (le_bytes k n) = k"
  by (induction k arbitrary: n) simp_all

lemma le_value_bytes: "le_value (map Some (le_bytes k n)) = Some (n mod 256 ^ k)"
proof (induction k arbitrary: n)
  case (Suc k)
  have "unat (word_of_nat n :: u8) = n mod 256" by (simp add: unat_of_nat)
  with Suc show ?case by (simp add: mod_mult2_eq)
qed simp

text \<open>A stream in front of the bytes \<open>rest\<close>.\<close>

definition ahead :: "u8 list \<Rightarrow> stream \<Rightarrow> bool" where
  "ahead rest s \<longleftrightarrow> st_ok s \<and> st_pos s \<le> length (st_bytes s) \<and> drop (st_pos s) (st_bytes s) = rest"

lemma ahead_room: "ahead (xs @ rest) s \<Longrightarrow> st_pos s + length xs \<le> length (st_bytes s)"
proof -
  assume a: "ahead (xs @ rest) s"
  then have "length (st_bytes s) - st_pos s = length xs + length rest" by (metis ahead_def length_append length_drop)
  then show ?thesis using a unfolding ahead_def by linarith
qed

lemma ahead_read:
  assumes "ahead (xs @ rest) s" and "length xs = n" "length buf = n"
  shows "\<exists>s'. sread n buf s = (map Some xs, s') \<and> ahead rest s'"
proof -
  have "drop (st_pos s + n) (st_bytes s) = rest"
    using assms(1,2) by (simp add: ahead_def add.commute flip: drop_drop)
  moreover have "st_pos s + n \<le> length (st_bytes s)"
    using ahead_room [OF assms(1)] assms(2) by simp
  ultimately show ?thesis
    using assms by (simp add: sread_def ahead_def Let_def)
qed

lemma ahead_skip:
  assumes "ahead (xs @ rest) s" and "length xs = n"
  shows "ahead rest (sskip n s)"
proof -
  have "drop (st_pos s + n) (st_bytes s) = rest"
    using assms by (simp add: ahead_def add.commute flip: drop_drop)
  moreover have "st_pos s + n \<le> length (st_bytes s)"
    using ahead_room [OF assms(1)] assms(2) by simp
  ultimately show ?thesis using assms by (simp add: sskip_def ahead_def)
qed

text \<open>What the samples of the file are worth: the mean of a frame's channels.\<close>

fun frame_values :: "nat \<Rightarrow> nat \<Rightarrow> 16 word list \<Rightarrow> real list" where
  "frame_values chans 0 xs = []"
| "frame_values chans (Suc n) xs =
     (\<Sum>x\<leftarrow>take chans xs. real_of_int (sint x) / 32768) / real chans # frame_values chans n (drop chans xs)"

lemma length_sample_bytes: "length (sample_bytes xs) = 2 * length xs"
  by (induction xs) (simp_all add: sample_bytes_def)

lemma read_sample_ahead:
  assumes "ahead (sample_bytes (x # xs) @ tail) s"
  shows "\<exists>s'. read_sample exact s = (Some (real_of_int (sint x) / 32768), s') \<and> ahead (sample_bytes xs @ tail) s'"
proof -
  have "ahead (le_bytes 2 (unat x) @ (sample_bytes xs @ tail)) s" using assms by (simp add: sample_bytes_def)
  from ahead_read [OF this, of 2 "unwritten 2"] obtain s' where
    s': "sread 2 (unwritten 2) s = (map Some (le_bytes 2 (unat x)), s')" "ahead (sample_bytes xs @ tail) s'"
    by (auto simp: unwritten_def)
  have "unat x < 2 ^ LENGTH(16)" by (rule unsigned_less)
  then have "unat x < 256 ^ 2" by simp
  then have "le_value (map Some (le_bytes 2 (unat x))) = Some (unat x)" by (simp only: le_value_bytes mod_less)
  with s' show ?thesis by (simp add: read_sample_def)
qed

lemma sum_channels_ahead:
  "ahead (sample_bytes (xs @ ys) @ tail) s \<Longrightarrow>
    \<exists>s'. sum_channels exact (length xs) tot s = (Some (tot + (\<Sum>x\<leftarrow>xs. real_of_int (sint x) / 32768)), s') \<and> ahead (sample_bytes ys @ tail) s'"
proof (induction xs arbitrary: tot s)
  case (Cons x xs)
  from read_sample_ahead [of x "xs @ ys" tail s] Cons.prems obtain s' where
    s': "read_sample exact s = (Some (real_of_int (sint x) / 32768), s')" "ahead (sample_bytes (xs @ ys) @ tail) s'" by auto
  from Cons.IH [OF s'(2), of "tot + real_of_int (sint x) / 32768"] s'(1) show ?case by (auto simp: add.assoc)
qed auto

lemma read_frame_ahead:
  assumes "ahead (sample_bytes xs @ tail) s" and "0 < chans" "chans \<le> length xs"
  shows "\<exists>s'. read_frame exact chans s = (Some ((\<Sum>x\<leftarrow>take chans xs. real_of_int (sint x) / 32768) / real chans), s') \<and>
    ahead (sample_bytes (drop chans xs) @ tail) s'"
proof (cases "chans = 1")
  case True
  then obtain x zs where "xs = x # zs" using assms(3) by (cases xs) auto
  then show ?thesis using True assms(1) read_sample_ahead [of x zs tail s] by (simp add: read_frame_def)
next
  case False
  have "ahead (sample_bytes (take chans xs @ drop chans xs) @ tail) s" using assms(1) by simp
  from sum_channels_ahead [OF this, of 0] assms(3) False show ?thesis by (auto simp: read_frame_def)
qed

lemma read_frames_ahead:
  "ahead (sample_bytes xs @ tail) s \<Longrightarrow> 0 < chans \<Longrightarrow> n * chans \<le> length xs \<Longrightarrow>
    read_frames exact chans n s = Some (frame_values chans n xs)"
proof (induction n arbitrary: xs s)
  case (Suc n)
  have "chans \<le> length xs" using Suc.prems(3) by simp
  from read_frame_ahead [OF Suc.prems(1,2) this] obtain s' where
    s': "read_frame exact chans s = (Some ((\<Sum>x\<leftarrow>take chans xs. real_of_int (sint x) / 32768) / real chans), s')"
    "ahead (sample_bytes (drop chans xs) @ tail) s'" by blast
  have "n * chans \<le> length (drop chans xs)" using Suc.prems(3) by simp
  from Suc.IH [OF s'(2) Suc.prems(2) this] s'(1) show ?case by simp
qed simp

subsection \<open>Reading the file back\<close>

lemma length_ascii [simp]: "length (ascii s) = length s"
  by (simp add: ascii_def)

lemma is_tag_bytes: "is_tag (map Some xs) tag = Some (xs = ascii tag)"
  by (auto simp: is_tag_def inj_map_eq_map)

text \<open>The head of a chunk: what the loop reads before it looks at the tag.\<close>

lemma chunk_head:
  assumes "ahead (ascii tag @ le_bytes 4 m @ rest) s" and "length tag = 4" "m < 2 ^ 32"
  shows "\<exists>s1 s2. sread 4 (unwritten 4) s = (map Some (ascii tag), s1) \<and>
    sread 4 (unwritten 4) s1 = (map Some (le_bytes 4 m), s2) \<and> st_ok s1 \<and> st_ok s2 \<and>
    the (le_value (map Some (le_bytes 4 m))) = m \<and> ahead rest s2"
proof -
  from ahead_read [OF assms(1), of 4 "unwritten 4"] assms(2) obtain s1 where
    s1: "sread 4 (unwritten 4) s = (map Some (ascii tag), s1)" "ahead (le_bytes 4 m @ rest) s1"
    by (auto simp: unwritten_def)
  from ahead_read [OF s1(2), of 4 "unwritten 4"] obtain s2 where
    s2: "sread 4 (unwritten 4) s1 = (map Some (le_bytes 4 m), s2)" "ahead rest s2"
    by (auto simp: unwritten_def)
  have "le_value (map Some (le_bytes 4 m)) = Some m" using assms(3) by (simp add: le_value_bytes)
  then show ?thesis using s1 s2 by (auto simp: ahead_def)
qed

lemma chunk_append:
  "even (length body) \<Longrightarrow> chunk (tag, body) @ rest = ascii tag @ le_bytes 4 (length body) @ body @ rest"
  by (simp add: chunk_def)

text \<open>The chunks the loop passes over: of even length, because it does not skip the padding.\<close>

definition skipped :: "bool \<Rightarrow> string \<times> u8 list \<Rightarrow> bool" where
  "skipped found = (\<lambda>(tag, body). length tag = 4 \<and> length body < 2 ^ 32 \<and> even (length body) \<and>
     ascii tag \<noteq> ascii ''data'' \<and> (found \<or> ascii tag \<noteq> ascii ''fmt ''))"

lemma chunk_skipped:
  assumes "ahead (chunk c @ rest) s" and "skipped (wh_found H) c"
  shows "\<exists>s'. chunk_loop H s = chunk_loop H s' \<and> ahead rest s'"
proof -
  obtain tag body where c: "c = (tag, body)" by (cases c)
  with assms have t: "length tag = 4" "length body < 2 ^ 32" and e: "even (length body)" by (simp_all add: skipped_def)
  from chunk_head [OF assms(1) [unfolded c chunk_append [OF e]] t] obtain s1 s2 where
    s: "sread 4 (unwritten 4) s = (map Some (ascii tag), s1)"
    "sread 4 (unwritten 4) s1 = (map Some (le_bytes 4 (length body)), s2)" "st_ok s1" "st_ok s2"
    "the (le_value (map Some (le_bytes 4 (length body)))) = length body" "ahead (body @ rest) s2" by blast
  have "chunk_loop H s = chunk_loop H (sskip (length body) s2)"
    using assms(2) by (subst chunk_loop.simps) (auto simp: s is_tag_bytes skipped_def c Let_def)
  then show ?thesis using ahead_skip [OF s(6)] by auto
qed

lemma chunks_skipped:
  "ahead (concat (map chunk cs) @ rest) s \<Longrightarrow> list_all (skipped (wh_found H)) cs \<Longrightarrow>
    \<exists>s'. chunk_loop H s = chunk_loop H s' \<and> ahead rest s'"
proof (induction cs arbitrary: s)
  case (Cons c cs)
  from chunk_skipped [of c "concat (map chunk cs) @ rest" s H] Cons.prems obtain s' where
    s': "chunk_loop H s = chunk_loop H s'" "ahead (concat (map chunk cs) @ rest) s'" by auto
  from Cons.IH [OF s'(2)] Cons.prems(2) s'(1) show ?case by simp
qed auto

definition header_of :: "nat \<Rightarrow> nat \<Rightarrow> wav_header" where
  "header_of chans rate =
     \<lparr>wh_format = map Some (le_bytes 2 1), wh_channels = map Some (le_bytes 2 chans), wh_rate = map Some (le_bytes 4 rate),
      wh_bits = map Some (le_bytes 2 16), wh_data = 0, wh_found = True\<rparr>"

lemma length_fmt_body: "length (fmt_body chans rate) = 16"
  by (simp add: fmt_body_def)

lemma chunk_fmt:
  assumes "ahead (chunk (''fmt '', fmt_body chans rate @ ext) @ rest) s"
    and "even (length ext)" "length ext + 16 < 2 ^ 32"
  shows "\<exists>s'. chunk_loop no_header s = chunk_loop (header_of chans rate) s' \<and> ahead rest s'"
proof -
  let ?n = "length ext + 16"
  have len: "length (fmt_body chans rate @ ext) = ?n" by (simp add: length_fmt_body)
  then have e: "even (length (fmt_body chans rate @ ext))" using assms(2) by simp
  from chunk_head [OF assms(1) [unfolded chunk_append [OF e] len] _ assms(3)] obtain s1 s2 where
    s: "sread 4 (unwritten 4) s = (map Some (ascii ''fmt ''), s1)"
    "sread 4 (unwritten 4) s1 = (map Some (le_bytes 4 ?n), s2)" "st_ok s1" "st_ok s2"
    "the (le_value (map Some (le_bytes 4 ?n))) = ?n"
    "ahead ((fmt_body chans rate @ ext) @ rest) s2" by auto
  have "ahead (le_bytes 2 1 @ (le_bytes 2 chans @ le_bytes 4 rate @ (le_bytes 4 (rate * chans * 2) @ le_bytes 2 (chans * 2)) @ le_bytes 2 16 @ ext @ rest)) s2"
    using s(6) by (simp add: fmt_body_def)
  from ahead_read [OF this, of 2 "unwritten 2"] obtain s3 where
    s3: "sread 2 (unwritten 2) s2 = (map Some (le_bytes 2 1), s3)"
    "ahead (le_bytes 2 chans @ (le_bytes 4 rate @ (le_bytes 4 (rate * chans * 2) @ le_bytes 2 (chans * 2)) @ le_bytes 2 16 @ ext @ rest)) s3"
    by (auto simp: unwritten_def)
  from ahead_read [OF s3(2), of 2 "[Some 0, Some 0]"] obtain s4 where
    s4: "sread 2 [Some 0, Some 0] s3 = (map Some (le_bytes 2 chans), s4)"
    "ahead (le_bytes 4 rate @ ((le_bytes 4 (rate * chans * 2) @ le_bytes 2 (chans * 2)) @ le_bytes 2 16 @ ext @ rest)) s4" by auto
  from ahead_read [OF s4(2), of 4 "replicate 4 (Some 0)"] obtain s5 where
    s5: "sread 4 (replicate 4 (Some 0)) s4 = (map Some (le_bytes 4 rate), s5)"
    "ahead ((le_bytes 4 (rate * chans * 2) @ le_bytes 2 (chans * 2)) @ (le_bytes 2 16 @ ext @ rest)) s5" by auto
  have "ahead (le_bytes 2 16 @ ext @ rest) (sskip 6 s5)" by (rule ahead_skip [OF s5(2)]) simp
  from ahead_read [OF this, of 2 "[Some 0, Some 0]"] obtain s6 where
    s6: "sread 2 [Some 0, Some 0] (sskip 6 s5) = (map Some (le_bytes 2 16), s6)" "ahead (ext @ rest) s6" by auto
  have rem: "word_of_nat ?n - 16 = (word_of_nat (length ext) :: u32)" by simp
  have "unat (word_of_nat (length ext) :: u32) = length ext" using assms(3) by (simp add: unat_of_nat)
  moreover have "0 < (word_of_nat (length ext) :: u32) \<longleftrightarrow> 0 < unat (word_of_nat (length ext) :: u32)"
    by (simp add: word_less_nat_alt)
  ultimately have skip: "(if 0 < (word_of_nat (length ext) :: u32) then sskip (unat (word_of_nat (length ext) :: u32)) s6 else s6) =
      sskip (length ext) s6"
    using s6(2) by (simp add: sskip_def ahead_def)
  have fmt: "read_fmt ?n no_header s2 = (header_of chans rate, sskip (length ext) s6)"
    by (simp only: read_fmt_def no_header_def wav_header.simps s3(1) s4(1) s5(1) s6(1) Let_def prod.case rem skip)
      (simp add: header_of_def)
  have "wh_found no_header = False" by (simp add: no_header_def)
  then have "chunk_loop no_header s = chunk_loop (header_of chans rate) (sskip (length ext) s6)"
    by (subst chunk_loop.simps) (simp only: s(1) s(2) s(5) Let_def prod.case s(3,4) is_tag_bytes fmt simp_thms if_True if_False)
  then show ?thesis using ahead_skip [OF s6(2) refl] by blast
qed

lemma chunk_data:
  assumes "ahead (ascii ''data'' @ le_bytes 4 m @ rest) s" and "m < 2 ^ 32" and "wh_found H"
  shows "\<exists>s'. chunk_loop H s = (H\<lparr>wh_data := m\<rparr>, s') \<and> ahead rest s'"
proof -
  from chunk_head [OF assms(1) _ assms(2)] obtain s1 s2 where
    s: "sread 4 (unwritten 4) s = (map Some (ascii ''data''), s1)"
    "sread 4 (unwritten 4) s1 = (map Some (le_bytes 4 m), s2)" "st_ok s1" "st_ok s2"
    "the (le_value (map Some (le_bytes 4 m))) = m" "ahead rest s2" by auto
  have "chunk_loop H s = (H\<lparr>wh_data := m\<rparr>, s2)"
    using assms(3) by (subst chunk_loop.simps) (simp add: s is_tag_bytes Let_def)
  then show ?thesis using s(6) by blast
qed

text \<open>A file whose data chunk says it has \<open>m\<close> bytes, and the bytes it has.\<close>

definition wav_prefix :: "other_chunks \<Rightarrow> nat \<Rightarrow> nat \<Rightarrow> nat \<Rightarrow> u8 list" where
  "wav_prefix oc chans rate m =
     ascii ''RIFF'' @ le_bytes 4 (riff_size oc) @ ascii ''WAVE'' @
     concat (map chunk (before_fmt oc)) @ chunk (''fmt '', fmt_body chans rate @ fmt_ext oc) @
     concat (map chunk (before_data oc)) @ ascii ''data'' @ le_bytes 4 m"

text \<open>The other chunks that the reader gets over.\<close>

definition passable :: "other_chunks \<Rightarrow> bool" where
  "passable oc \<longleftrightarrow> list_all (skipped False) (before_fmt oc) \<and> list_all (skipped True) (before_data oc) \<and>
     even (length (fmt_ext oc)) \<and> length (fmt_ext oc) + 16 < 2 ^ 32"

definition no_other_chunks :: other_chunks where
  "no_other_chunks = \<lparr>riff_size = 0, fmt_ext = [], before_fmt = [], before_data = [], after_data = []\<rparr>"

lemma no_other_passable: "passable no_other_chunks"
  by (simp add: passable_def no_other_chunks_def)

lemma wav_file_prefix:
  "wav_file oc chans rate samples =
     wav_prefix oc chans rate (2 * length samples) @ sample_bytes samples @ concat (map chunk (after_data oc))"
  by (simp add: wav_file_def wav_prefix_def chunk_def length_sample_bytes)

lemma readWAV_prefix:
  assumes "chans < 2 ^ 16" "rate < 2 ^ 31" "m < 2 ^ 32" "m \<noteq> 0" "passable oc"
  shows "\<exists>s. ahead body s \<and> readWAV L (Some (wav_prefix oc chans rate m @ body)) =
    (if chans = 0 then Wav_trap
     else case read_frames L chans (m div 2 div chans) s of
            None \<Rightarrow> Wav_undefined | Some audio \<Rightarrow> Wav audio (int rate) (int chans))"
proof -
  have ok: "list_all (skipped False) (before_fmt oc)" "list_all (skipped True) (before_data oc)"
    "even (length (fmt_ext oc))" "length (fmt_ext oc) + 16 < 2 ^ 32" using assms(5) by (simp_all add: passable_def)
  let ?data = "ascii ''data'' @ le_bytes 4 m @ body"
  let ?fmt = "chunk (''fmt '', fmt_body chans rate @ fmt_ext oc)"
  let ?rest = "concat (map chunk (before_fmt oc)) @ (?fmt @ (concat (map chunk (before_data oc)) @ ?data))"
  define s where "s = \<lparr>st_bytes = wav_prefix oc chans rate m @ body, st_pos = 0, st_ok = True\<rparr>"
  have "ahead (ascii ''RIFF'' @ (le_bytes 4 (riff_size oc) @ ascii ''WAVE'' @ ?rest)) s"
    by (simp add: ahead_def s_def wav_prefix_def)
  from ahead_read [OF this, of 4 "unwritten 4"] obtain s1 where
    s1: "sread 4 (unwritten 4) s = (map Some (ascii ''RIFF''), s1)" "ahead (le_bytes 4 (riff_size oc) @ (ascii ''WAVE'' @ ?rest)) s1"
    by (auto simp: unwritten_def)
  from ahead_read [OF s1(2), of 4 "unwritten 4"] obtain s2 where
    s2: "sread 4 (unwritten 4) s1 = (map Some (le_bytes 4 (riff_size oc)), s2)" "ahead (ascii ''WAVE'' @ ?rest) s2"
    by (auto simp: unwritten_def)
  from ahead_read [OF s2(2), of 4 "unwritten 4"] obtain s3 where
    s3: "sread 4 (unwritten 4) s2 = (map Some (ascii ''WAVE''), s3)" "ahead ?rest s3"
    by (auto simp: unwritten_def)
  have "list_all (skipped (wh_found no_header)) (before_fmt oc)" using ok(1) by (simp add: no_header_def)
  from chunks_skipped [OF s3(2) this] obtain s4 where
    s4: "chunk_loop no_header s3 = chunk_loop no_header s4"
    "ahead (?fmt @ (concat (map chunk (before_data oc)) @ ?data)) s4" by blast
  from chunk_fmt [OF s4(2) ok(3,4)] obtain s5 where
    s5: "chunk_loop no_header s4 = chunk_loop (header_of chans rate) s5" "ahead (concat (map chunk (before_data oc)) @ ?data) s5" by blast
  have found: "wh_found (header_of chans rate)" by (simp add: header_of_def)
  with ok(2) have "list_all (skipped (wh_found (header_of chans rate))) (before_data oc)" by simp
  from chunks_skipped [OF s5(2) this] obtain s6 where
    s6: "chunk_loop (header_of chans rate) s5 = chunk_loop (header_of chans rate) s6" "ahead ?data s6" by blast
  from chunk_data [OF s6(2) assms(3) found] obtain s7 where
    s7: "chunk_loop (header_of chans rate) s6 = ((header_of chans rate)\<lparr>wh_data := m\<rparr>, s7)" "ahead body s7" by blast
  define H where "H = (header_of chans rate)\<lparr>wh_data := m\<rparr>"
  have loop: "chunk_loop no_header s3 = (H, s7)" using s4(1) s5(1) s6(1) s7(1) by (simp add: H_def)
  have vals: "le_value (wh_format H) = Some 1" "le_value (wh_bits H) = Some 16" "le_value (wh_channels H) = Some chans"
    "le_value (wh_rate H) = Some rate" "wh_data H = m" "wh_found H"
    using assms(1,2) by (simp_all only: H_def header_of_def wav_header.simps le_value_bytes) simp_all
  have u: "unat (word_of_nat rate :: u32) = rate" using assms(2) by (simp add: unat_of_nat)
  have "sint (word_of_nat rate :: u32) = uint (word_of_nat rate :: u32)" using assms(2) by (intro sint_small) (simp only: u)
  also have "\<dots> = int rate" using u by (metis uint_nat)
  finally have rate: "sint (word_of_nat rate :: u32) = int rate" .
  have "after_chunks L H s7 =
    (if chans = 0 then Wav_trap
     else case read_frames L chans (m div 2 div chans) s7 of
            None \<Rightarrow> Wav_undefined | Some audio \<Rightarrow> Wav audio (int rate) (int chans))"
    using assms(4) by (simp add: after_chunks_def vals rate Let_def)
  moreover have "readWAV L (Some (wav_prefix oc chans rate m @ body)) = after_chunks L H s7"
    by (simp add: readWAV_def Let_def s_def [symmetric] s1(1) s2(1) s3(1) is_tag_bytes loop)
  ultimately show ?thesis using s7(2) by auto
qed

text \<open>
  A 16-bit PCM file is read as it was written: with any number of channels from 1 to 65535 and any rate
  below 2 to the 31, every frame is the mean of its channels, each divided by 32768 (in exact
  arithmetic). Neither the size in the RIFF header nor an extension of the format chunk matters, nor do
  chunks of other kinds, as long as those in front of the samples have even length.
\<close>

theorem wav_read_back:
  assumes "0 < chans" "chans < 2 ^ 16" "rate < 2 ^ 31" "samples \<noteq> []" "2 * length samples < 2 ^ 32" "passable oc"
  shows "readWAV exact (Some (wav_file oc chans rate samples)) =
    Wav (frame_values chans (length samples div chans) samples) (int rate) (int chans)"
proof -
  have "2 * length samples \<noteq> 0" using assms(4) by simp
  from readWAV_prefix [OF assms(2,3,5) this assms(6), of "sample_bytes samples @ concat (map chunk (after_data oc))" exact] obtain s where
    s: "ahead (sample_bytes samples @ concat (map chunk (after_data oc))) s" and
    eq: "readWAV exact (Some (wav_file oc chans rate samples)) =
      (case read_frames exact chans (length samples div chans) s of
         None \<Rightarrow> Wav_undefined | Some audio \<Rightarrow> Wav audio (int rate) (int chans))"
    using assms(1) by (auto simp: wav_file_prefix)
  have "read_frames exact chans (length samples div chans) s = Some (frame_values chans (length samples div chans) samples)"
    by (rule read_frames_ahead [OF s assms(1)]) simp
  then show ?thesis by (simp add: eq)
qed

text \<open>A file with a list of names in front, an extended format chunk, and a chunk of odd length at the end.\<close>

definition rich_chunks :: other_chunks where
  "rich_chunks = \<lparr>riff_size = 80, fmt_ext = [0, 0], before_fmt = [(''LIST'', [1, 2, 3, 4])], before_data = [],
     after_data = [(''id3 '', [7])]\<rparr>"

lemma rich_passable: "passable rich_chunks"
  by (simp add: passable_def rich_chunks_def skipped_def ascii_def of_char_def)

theorem wav_read_back_witness:
  "readWAV exact (Some (wav_file rich_chunks 2 48000 [16384, - 16384, 8192, 8192])) = Wav [0, 1 / 4] 48000 2"
proof -
  have "sint (16384 :: 16 word) = 16384" "sint (- 16384 :: 16 word) = - 16384" "sint (8192 :: 16 word) = 8192"
    by code_simp+
  then have "frame_values 2 (Suc (Suc 0)) [16384, - 16384, 8192, 8192] = [0, 1 / 4]" by simp
  moreover have "length [16384, - 16384, 8192, 8192 :: 16 word] div 2 = Suc (Suc 0)" by simp
  ultimately show ?thesis
    using wav_read_back [of 2 48000 "[16384, - 16384, 8192, 8192]", OF _ _ _ _ _ rich_passable] by simp
qed

text \<open>
  What goes wrong. A channel count of 0 is a division by zero. A file that ends before its samples do is
  read from a variable that was never written. A chunk of odd length is followed by a byte of
  padding in a WAV file, which the reader does not skip: it loses its place and misses the format.
\<close>

lemma wav_zero_channels:
  "rate < 2 ^ 31 \<Longrightarrow> samples \<noteq> [] \<Longrightarrow> 2 * length samples < 2 ^ 32 \<Longrightarrow> passable oc \<Longrightarrow>
    readWAV L (Some (wav_file oc 0 rate samples)) = Wav_trap"
  using readWAV_prefix [of 0 rate "2 * length samples" oc "sample_bytes samples @ concat (map chunk (after_data oc))" L]
  by (simp add: wav_file_prefix)

lemma wav_truncated:
  assumes "rate < 2 ^ 31" "length samples * 2 < m" "m < 2 ^ 32" "even m" "passable oc"
  shows "readWAV L (Some (wav_prefix oc 1 rate m @ sample_bytes samples)) = Wav_undefined"
proof -
  have none: "ahead (sample_bytes xs) s \<Longrightarrow> length xs < n \<Longrightarrow> read_frames L 1 n s = None" for xs s n
  proof (induction xs arbitrary: s n)
    case Nil
    then obtain k where "n = Suc k" by (cases n) auto
    moreover have "\<exists>s'. read_sample L s = (None, s')"
      using Nil(1) by (simp add: read_sample_def sread_def ahead_def sample_bytes_def Let_def unwritten_def numeral_2_eq_2)
    ultimately show ?case by (auto simp: read_frame_def)
  next
    case (Cons x xs)
    then obtain k where n: "n = Suc k" "length xs < k" by (cases n) auto
    have "ahead (le_bytes 2 (unat x) @ sample_bytes xs) s" using Cons.prems(1) by (simp add: sample_bytes_def)
    from ahead_read [OF this, of 2 "unwritten 2"] obtain s' where
      s': "sread 2 (unwritten 2) s = (map Some (le_bytes 2 (unat x)), s')" "ahead (sample_bytes xs) s'"
      by (auto simp: unwritten_def)
    then show ?case using Cons.IH [OF s'(2) n(2)] n(1) by (simp add: read_frame_def read_sample_def le_value_bytes)
  qed
  have "length samples < m div 2" using assms(2,4) by auto
  then show ?thesis
    using readWAV_prefix [of 1 rate m oc "sample_bytes samples" L] assms none by fastforce
qed

lemma wav_padding_not_skipped:
  assumes "length rest < 4000"
  shows "readWAV L (Some (ascii ''RIFF'' @ le_bytes 4 0 @ ascii ''WAVE'' @ chunk (''LIST'', [x]) @
     chunk (''fmt '', fmt_body chans rate) @ rest)) = Wav_refused No_fmt"
proof -
  let ?tag = "[CHR 0x00, CHR ''f'', CHR ''m'', CHR ''t'']"
  let ?behind = "0 # fmt_body chans rate @ rest"
  have pad: "[0] @ chunk (''fmt '', fmt_body chans rate) @ rest = ascii ?tag @ le_bytes 4 4128 @ ?behind"
  proof -
    have four: "le_bytes 4 n = [word_of_nat n, word_of_nat (n div 256), word_of_nat (n div 256 div 256), word_of_nat (n div 256 div 256 div 256)]" for n
    proof -
      have "(4 :: nat) = Suc (Suc (Suc (Suc 0)))" by simp
      then show ?thesis by (simp only: le_bytes.simps)
    qed
    have "(4128 :: u8) = 32" by code_simp
    moreover have "ascii ''fmt '' = [102, 109, 116, 32]" "ascii ?tag = [0, 102, 109, 116]"
      by (simp_all add: ascii_def of_char_def)
    ultimately show ?thesis by (simp add: chunk_def four length_fmt_body)
  qed
  define s where "s = \<lparr>st_bytes = ascii ''RIFF'' @ le_bytes 4 0 @ ascii ''WAVE'' @ chunk (''LIST'', [x]) @
     chunk (''fmt '', fmt_body chans rate) @ rest, st_pos = 0, st_ok = True\<rparr>"
  have "ahead (ascii ''RIFF'' @ (le_bytes 4 0 @ ascii ''WAVE'' @ (ascii ''LIST'' @ le_bytes 4 1 @ [x]) @ (ascii ?tag @ le_bytes 4 4128 @ ?behind))) s"
    by (simp add: ahead_def s_def chunk_def flip: pad)
  from ahead_read [OF this, of 4 "unwritten 4"] obtain s1 where
    s1: "sread 4 (unwritten 4) s = (map Some (ascii ''RIFF''), s1)"
    "ahead (le_bytes 4 0 @ (ascii ''WAVE'' @ (ascii ''LIST'' @ le_bytes 4 1 @ [x]) @ (ascii ?tag @ le_bytes 4 4128 @ ?behind))) s1"
    by (auto simp: unwritten_def)
  from ahead_read [OF s1(2), of 4 "unwritten 4"] obtain s2 where
    s2: "sread 4 (unwritten 4) s1 = (map Some (le_bytes 4 0), s2)"
    "ahead (ascii ''WAVE'' @ ((ascii ''LIST'' @ le_bytes 4 1 @ [x]) @ (ascii ?tag @ le_bytes 4 4128 @ ?behind))) s2"
    by (auto simp: unwritten_def)
  from ahead_read [OF s2(2), of 4 "unwritten 4"] obtain s3 where
    s3: "sread 4 (unwritten 4) s2 = (map Some (ascii ''WAVE''), s3)"
    "ahead ((ascii ''LIST'' @ le_bytes 4 1 @ [x]) @ (ascii ?tag @ le_bytes 4 4128 @ ?behind)) s3"
    by (auto simp: unwritten_def)
  have "ahead (ascii ''LIST'' @ le_bytes 4 1 @ ([x] @ (ascii ?tag @ le_bytes 4 4128 @ ?behind))) s3"
    using s3(2) by simp
  from chunk_head [OF this] obtain t1 t2 where
    t: "sread 4 (unwritten 4) s3 = (map Some (ascii ''LIST''), t1)" "sread 4 (unwritten 4) t1 = (map Some (le_bytes 4 1), t2)"
    "st_ok t1" "st_ok t2" "the (le_value (map Some (le_bytes 4 1))) = 1"
    "ahead ([x] @ (ascii ?tag @ le_bytes 4 4128 @ ?behind)) t2" by auto
  have "ascii ''LIST'' \<noteq> ascii ''data''" "ascii ''LIST'' \<noteq> ascii ''fmt ''" by (simp_all add: ascii_def of_char_def)
  then have "chunk_loop no_header s3 = chunk_loop no_header (sskip 1 t2)"
    by (subst chunk_loop.simps) (simp only: t(1-5) Let_def prod.case is_tag_bytes option.inject if_True if_False simp_thms)
  moreover have "ahead (ascii ?tag @ le_bytes 4 4128 @ ?behind) (sskip 1 t2)" by (rule ahead_skip [OF t(6)]) simp
  ultimately obtain s4 where
    s4: "chunk_loop no_header s3 = chunk_loop no_header s4" "ahead (ascii ?tag @ le_bytes 4 4128 @ ?behind) s4" by blast
  from chunk_head [OF s4(2)] obtain s5 s6 where
    s6: "sread 4 (unwritten 4) s4 = (map Some (ascii ?tag), s5)" "sread 4 (unwritten 4) s5 = (map Some (le_bytes 4 4128), s6)"
    "st_ok s5" "st_ok s6" "the (le_value (map Some (le_bytes 4 4128))) = 4128" "ahead ?behind s6" by auto
  have tags: "ascii ?tag \<noteq> ascii ''data''" "ascii ?tag \<noteq> ascii ''fmt ''" by (simp_all add: ascii_def of_char_def)
  have skip: "chunk_loop no_header s4 = chunk_loop no_header (sskip 4128 s6)"
    using tags by (subst chunk_loop.simps) (simp only: s6 Let_def prod.case is_tag_bytes option.inject if_True if_False simp_thms)
  have "length (drop (st_pos s6) (st_bytes s6)) = length ?behind" using s6(6) by (simp only: ahead_def)
  then have "length (st_bytes s6) - st_pos s6 = 17 + length rest" by (simp add: length_fmt_body)
  then have "length (st_bytes s6) \<le> st_pos (sskip 4128 s6)" using s6(4) assms by (simp add: sskip_def)
  then have "\<exists>b s'. sread 4 (unwritten 4) (sskip 4128 s6) = (b, s') \<and> \<not> st_ok s'"
    using sskip_stream [of 4128 s6] by (simp add: sread_def Let_def)
  then obtain b s7 where "sread 4 (unwritten 4) (sskip 4128 s6) = (b, s7)" "\<not> st_ok s7" by blast
  then have "\<exists>s8. chunk_loop no_header (sskip 4128 s6) = (no_header, s8)"
    by (subst chunk_loop.simps) (simp add: Let_def split: prod.split)
  then obtain s8 where "chunk_loop no_header s3 = (no_header, s8)" using s4(1) skip by auto
  moreover have "after_chunks L no_header s8 = Wav_refused No_fmt" by (simp add: after_chunks_def no_header_def)
  ultimately show ?thesis
    by (simp only: readWAV_def option.case Let_def s_def [symmetric] s1(1) s2(1) s3(1) prod.case is_tag_bytes) simp
qed

end
