(* ===== verification/Dsp_Cli.thy ===== *)
theory Dsp_Cli
  imports Wav_Reader Key_Detection Chord_Detection Onset_Detection
begin

text \<open>
  The analysis tool (\<open>tools/dsp_cli.cpp\<close>): arguments, the estimate of the tempo, the JSON it writes, and
  \<open>main\<close>. What is printed on the error stream is left out. The file system is a pair of parameters: the
  bytes of a file, and whether a path can be opened for writing.
\<close>

subsection \<open>The tempo\<close>

text \<open>\<open>std::round\<close>: halves away from zero.\<close>

definition c_round :: "real \<Rightarrow> int" where
  "c_round x = (if 0 \<le> x then \<lfloor>x + 1 / 2\<rfloor> else - \<lfloor>- x + 1 / 2\<rfloor>)"

definition FLT_MAX :: real where
  "FLT_MAX = (2 - 1 / 2 ^ 23) * 2 ^ 127"

definition autocorr :: "libm \<Rightarrow> real list \<Rightarrow> real \<Rightarrow> nat \<Rightarrow> real" where
  "autocorr L centered variance lag =
     fdiv L (fsum L (map (\<lambda>i. fmul L (centered ! i) (centered ! (i + lag))) [0..<length centered - lag])) variance"

definition clamp_bpm :: "libm \<Rightarrow> real \<Rightarrow> real" where
  "clamp_bpm L bpm =
     (let bpm = (if bpm < 40 then fmul L bpm 2 else bpm);
          bpm = (if 240 < bpm then fdiv L bpm 2 else bpm);
          bpm = (if bpm < 40 then 120 else bpm)
      in if 240 < bpm then 120 else bpm)"

definition estimateBPM :: "libm \<Rightarrow> real list \<Rightarrow> real \<Rightarrow> nat \<Rightarrow> real" where
  "estimateBPM L df sampleRate hopSize =
     (let len = length df in
      if len < 10 then 120
      else let framesPerSec = fdiv L sampleRate (rd_f L (real hopSize));
               minLag = trunc_int (fadd L (fdiv L (fmul L framesPerSec 60) 200) (1 / 2));
               maxLag = trunc_int (fadd L (fdiv L (fmul L framesPerSec 60) 60) (1 / 2));
               minLag = max 4 minLag;
               maxLag = min (int (len div 2)) maxLag
           in if maxLag \<le> minLag then 120
              else let mean = fdiv L (fsum L df) (rd_f L (real len));
                       centered = map (\<lambda>v. fsub L v mean) df;
                       variance = fsum L (map (\<lambda>v. fmul L v v) centered)
                   in if variance < rd_f L (1 / 10 ^ 10) then 120
                      else let (bestCorr, bestLag) =
                                 fold (best_step (autocorr L centered variance)) [nat minLag..<nat maxLag + 1]
                                   (- FLT_MAX, nat minLag);
                               bpm = fdiv L (fmul L framesPerSec 60) (rd_f L (real bestLag));
                               halfLag = bestLag div 2;
                               bpm = (if nat minLag * 2 \<le> bestLag \<and>
                                        fmul L bestCorr (rd_f L 1.1) < autocorr L centered variance halfLag
                                      then fdiv L (fmul L framesPerSec 60) (rd_f L (real halfLag)) else bpm)
                           in fdiv L (rd_f L (real_of_int (c_round (fmul L (clamp_bpm L bpm) 10)))) 10)"

subsection \<open>JSON\<close>

text \<open>\<open>printf\<close> with \<open>%.kf\<close>: the nearest decimal, halves to even.\<close>

definition rint :: "real \<Rightarrow> int" where
  "rint y =
     (let f = \<lfloor>y\<rfloor>; d = y - of_int f
      in if d < 1 / 2 then f else if 1 / 2 < d then f + 1 else if even f then f else f + 1)"

definition fixed :: "nat \<Rightarrow> real \<Rightarrow> string" where
  "fixed k x =
     (let n = nat (rint (\<bar>x\<bar> * 10 ^ k)); frac = nat_digits (n mod 10 ^ k)
      in (if x < 0 then ''-'' else '''') @ nat_digits (n div 10 ^ k) @ ''.'' @
         replicate (k - length frac) (CHR ''0'') @ frac)"

definition json_char :: "char \<Rightarrow> string" where
  "json_char c =
     (if c = CHR 0x22 then [CHR 0x5C, CHR 0x22] else if c = CHR 0x5C then [CHR 0x5C, CHR 0x5C]
      else if c = CHR 0x0A then [CHR 0x5C, CHR ''n''] else if c = CHR 0x0D then [CHR 0x5C, CHR ''r'']
      else if c = CHR 0x09 then [CHR 0x5C, CHR ''t''] else [c])"

definition writeJsonString :: "string \<Rightarrow> string" where
  "writeJsonString s = [CHR 0x22] @ concat (map json_char s) @ [CHR 0x22]"

definition writeJsonArray :: "real list \<Rightarrow> string" where
  "writeJsonArray values =
     ''['' @ concat (map (\<lambda>i. (if 0 < i then '','' else '''') @ fixed 3 (values ! i)) [0..<length values]) @ '']''"

text \<open>A line feed, and a name in quotation marks.\<close>

abbreviation nl :: string where "nl \<equiv> [CHR 0x0A]"
abbreviation quoted :: "string \<Rightarrow> string" where "quoted s \<equiv> [CHR 0x22] @ s @ [CHR 0x22]"

definition json_chord :: "chord_result \<Rightarrow> string" where
  "json_chord c =
     ''    {'' @ quoted ''chord'' @ '': '' @ writeJsonString (cr_chord c) @ '', '' @ quoted ''time_sec'' @ '': '' @
     fixed 3 (cr_time c) @ '', '' @ quoted ''confidence'' @ '': '' @ fixed 3 (cr_confidence c) @ ''}''"

definition writeChordsJson :: "chord_result list \<Rightarrow> string" where
  "writeChordsJson chords =
     ''  '' @ quoted ''chords'' @ '': ['' @ nl @
     concat (map (\<lambda>i. (if 0 < i then '','' @ nl else '''') @ json_chord (chords ! i)) [0..<length chords]) @
     nl @ ''  ],'' @ nl"

subsection \<open>The arguments\<close>

record dsp_args =
  inputPath :: string
  outputPath :: string
  dsp_verbose :: bool

datatype parsed = Args dsp_args | Usage | Help

fun parse_dsp :: "string list \<Rightarrow> dsp_args \<Rightarrow> parsed" where
  "parse_dsp [] a = (if inputPath a \<noteq> [] then Args a else Usage)"
| "parse_dsp (opt # rest) a =
     (if opt = ''--input'' then (case rest of [] \<Rightarrow> Usage | v # vs \<Rightarrow> parse_dsp vs (a\<lparr>inputPath := v\<rparr>))
      else if opt = ''--output'' then (case rest of [] \<Rightarrow> Usage | v # vs \<Rightarrow> parse_dsp vs (a\<lparr>outputPath := v\<rparr>))
      else if opt = ''--verbose'' then parse_dsp rest (a\<lparr>dsp_verbose := True\<rparr>)
      else if opt = ''--help'' then Help
      else Usage)"

declare parse_dsp.simps(2) [simp del]

definition parseArgs :: "string list \<Rightarrow> parsed" where
  "parseArgs argv = parse_dsp argv \<lparr>inputPath = [], outputPath = [], dsp_verbose = False\<rparr>"

subsection \<open>The program\<close>

text \<open>The analysis of a signal and its report. A rate of 0 makes the duration infinite.\<close>

definition report :: "real \<Rightarrow> key_result \<Rightarrow> chord_result list \<Rightarrow> onset_result \<Rightarrow> string \<Rightarrow> string" where
  "report bpm keyResult chords onsets durationSec =
     ''{'' @ nl @
     ''  '' @ quoted ''bpm'' @ '': '' @ fixed 1 bpm @ '','' @ nl @
     ''  '' @ quoted ''key'' @ '': '' @ writeJsonString (kr_key keyResult) @
     '','' @ nl @ ''  '' @ quoted ''scale'' @ '': '' @ writeJsonString (kr_scale keyResult) @
     '','' @ nl @ ''  '' @ quoted ''confidence'' @ '': '' @ fixed 4 (kr_confidence keyResult) @ '','' @ nl @
     writeChordsJson chords @
     ''  '' @ quoted ''onsets'' @ '': '' @ writeJsonArray (or_times onsets) @
     '','' @ nl @ ''  '' @ quoted ''duration_sec'' @ '': '' @ durationSec @ nl @
     ''}'' @ nl"

text \<open>\<open>None\<close>: a detector cannot be built, or divides by zero.\<close>

definition analyse :: "libm \<Rightarrow> fft_arith \<Rightarrow> real list \<Rightarrow> int \<Rightarrow> string option" where
  "analyse L A audio sampleRate =
     (let rate = rd_f L (real_of_int sampleRate);
          durationSec = (if sampleRate = 0 then ''inf'' else fixed 3 (fdiv L (rd_f L (real (length audio))) rate))
      in case Option.bind (OnsetDetection L A 2048 512) (process_onsets L A audio) of
        None \<Rightarrow> None
      | Some D \<Rightarrow>
          (case Option.bind (KeyDetection L A 2048 512 sampleRate) (process_key L A audio) of
             None \<Rightarrow> None
           | Some (keyResult, _) \<Rightarrow>
               (case Option.bind (ChordDetection L A 2048 512 sampleRate) (process_chords L A audio) of
                  None \<Rightarrow> None
                | Some chords \<Rightarrow>
                    Some (report (estimateBPM L (od_df D) rate 512) keyResult chords (getOnsets L (3 / 2) D) durationSec))))"

text \<open>The exit code, and the path (empty for the standard output) and the text that is written.\<close>

datatype dsp_outcome = Dsp_undefined | Dsp_exit int "(string \<times> string) option"

definition too_short :: "libm \<Rightarrow> real list \<Rightarrow> int \<Rightarrow> bool" where
  "too_short L audio sampleRate \<longleftrightarrow>
     sampleRate \<noteq> 0 \<and> fdiv L (rd_f L (real (length audio))) (rd_f L (real_of_int sampleRate)) < 1 / 2"

definition dsp_main :: "libm \<Rightarrow> fft_arith \<Rightarrow> (string \<Rightarrow> u8 list option) \<Rightarrow> (string \<Rightarrow> bool) \<Rightarrow> string list \<Rightarrow> dsp_outcome" where
  "dsp_main L A files writable argv =
     (case parseArgs argv of
        Usage \<Rightarrow> Dsp_exit 1 None
      | Help \<Rightarrow> Dsp_exit 0 None
      | Args a \<Rightarrow>
          (case readWAV L (files (inputPath a)) of
             Wav_refused _ \<Rightarrow> Dsp_exit 1 None
           | Wav_undefined \<Rightarrow> Dsp_undefined
           | Wav_trap \<Rightarrow> Dsp_undefined
           | Wav audio sampleRate _ \<Rightarrow>
               if audio = [] then Dsp_exit 1 None
               else if too_short L audio sampleRate then Dsp_exit 1 None
               else case analyse L A audio sampleRate of
                      None \<Rightarrow> Dsp_undefined
                    | Some text \<Rightarrow>
                        if outputPath a \<noteq> [] \<and> \<not> writable (outputPath a) then Dsp_exit 1 None
                        else Dsp_exit 0 (Some (outputPath a, text))))"

subsection \<open>What it does\<close>

text \<open>The reported tempo lies between 40 and 240 beats per minute, whatever the detection function is.\<close>

lemma clamp_bpm_range: "40 \<le> clamp_bpm exact x \<and> clamp_bpm exact x \<le> 240"
  by (simp add: clamp_bpm_def Let_def)

definition bpm_ok :: "real \<Rightarrow> bool" where
  "bpm_ok v \<longleftrightarrow> 40 \<le> v \<and> v \<le> 240"

lemma bpm_ok_rounded: "bpm_ok (fdiv exact (rd_f exact (real_of_int (c_round (fmul exact (clamp_bpm exact x) 10)))) 10)"
proof -
  have "400 \<le> clamp_bpm exact x * 10" "clamp_bpm exact x * 10 \<le> 2400" using clamp_bpm_range [of x] by linarith+
  then have "400 \<le> c_round (clamp_bpm exact x * 10)" "c_round (clamp_bpm exact x * 10) \<le> 2400"
    by (simp_all add: c_round_def le_floor_iff floor_le_iff)
  then have "real_of_int 400 \<le> real_of_int (c_round (clamp_bpm exact x * 10))"
    "real_of_int (c_round (clamp_bpm exact x * 10)) \<le> real_of_int 2400"
    by (simp_all only: of_int_le_iff)
  then show ?thesis by (simp add: bpm_ok_def)
qed

lemma bpm_ok_if: "bpm_ok a \<Longrightarrow> bpm_ok b \<Longrightarrow> bpm_ok (if c then a else b)"
  by simp

lemma estimateBPM_range: "bpm_ok (estimateBPM exact df rate hop)"
proof -
  have default: "bpm_ok 120" by (simp add: bpm_ok_def)
  show ?thesis
    unfolding estimateBPM_def Let_def case_prod_beta by (intro bpm_ok_if default bpm_ok_rounded)
qed

text \<open>The detectors of the program can always be built, and never fail on a rate that is not negative.\<close>

lemma fft_size_ok: "(2048 :: nat) AND (2048 - 1) = 0"
  by simp

lemma detectors_built:
  "\<exists>F W. make_fft A 2048 = Some F \<and> Window L 2048 Hann 6 = Some W"
  using fft_size_ok by (simp add: make_fft_def Window_def)

lemma analyse_defined: "0 \<le> rate \<Longrightarrow> \<exists>text. analyse L A audio rate = Some text"
  using detectors_built [of A L]
  by (auto simp: analyse_def Let_def OnsetDetection_def KeyDetection_def ChordDetection_def process_onsets_def
      process_key_def process_chords_def)

text \<open>
  Once the file has been read, nothing that the program does is undefined. In particular a file with a
  negative sample rate is always refused as too short before a detector sees it. Reading the file is undefined
  when it ends inside its header, before a format tag is read, or before its samples do, and when the number of channels is 0.
\<close>

lemma dsp_cli_undefined_iff:
  "dsp_main exact A files writable argv = Dsp_undefined \<longleftrightarrow>
    (\<exists>a. parseArgs argv = Args a \<and> readWAV exact (files (inputPath a)) \<in> {Wav_undefined, Wav_trap})"
proof -
  have short: "too_short exact audio rate" if "rate < 0" for audio rate
  proof -
    have "real (length audio) / real_of_int rate \<le> 0" using that by (simp add: divide_nonneg_neg)
    then have "real (length audio) / real_of_int rate < 1 / 2" by linarith
    then show ?thesis using that by (simp add: too_short_def)
  qed
  have total: "(case analyse exact A audio rate of None \<Rightarrow> Dsp_undefined | Some text \<Rightarrow> f text) \<noteq> Dsp_undefined"
    if "\<not> too_short exact audio rate" "\<And>text. f text \<noteq> Dsp_undefined" for audio rate f
    using analyse_defined [of rate exact A audio] short [of rate audio] that by (cases "rate < 0") auto
  show ?thesis
    by (auto simp: dsp_main_def total split: parsed.splits wav.splits)
qed

lemma length_frame_values [simp]: "length (frame_values chans n xs) = n"
  by (induction n arbitrary: xs) simp_all

text \<open>
  C40. For a 16-bit PCM file of at least half a second the tool exits with 0 and writes the report
  on exactly the samples of the file (in exact arithmetic, each frame the mean of its channels). The size in
  the RIFF header does not matter, nor do chunks behind the samples, nor chunks of other kinds and an
  extension of the format chunk in front of them, if these have even length (\<open>passable\<close>; for an odd
  one see \<open>wav_padding_not_skipped\<close>). The rate is below 2 to the 31.
  The report goes to the path of the output option, which has to be writable, or to the standard output.
\<close>

theorem dsp_cli_analyses:
  assumes "parseArgs argv = Args a" and "outputPath a = [] \<or> writable (outputPath a)"
    and "files (inputPath a) = Some (wav_file oc chans rate samples)"
    and "0 < chans" "chans < 2 ^ 16" "rate < 2 ^ 31" "2 * length samples < 2 ^ 32" "passable oc"
    and "chans \<le> length samples" "rate \<le> 2 * (length samples div chans)"
  shows "\<exists>text. analyse exact A (frame_values chans (length samples div chans) samples) (int rate) = Some text \<and>
    dsp_main exact A files writable argv = Dsp_exit 0 (Some (outputPath a, text))"
proof -
  let ?n = "length samples div chans" and ?audio = "frame_values chans (length samples div chans) samples"
  have "samples \<noteq> []" using assms(4,9) by auto
  then have wav: "readWAV exact (files (inputPath a)) = Wav ?audio (int rate) (int chans)"
    using wav_read_back [OF assms(4-6) _ assms(7,8)] by (simp add: assms(3))
  have "0 < ?n" using assms(4,9) by (simp add: div_greater_zero_iff)
  then have "?audio \<noteq> []" by (metis length_frame_values length_0_conv less_irrefl)
  moreover have "\<not> too_short exact ?audio (int rate)"
  proof (cases "rate = 0")
    case False
    have "real rate \<le> 2 * real ?n" using assms(10) by (metis of_nat_le_iff of_nat_mult of_nat_numeral)
    then show ?thesis using False by (simp add: too_short_def not_less le_divide_eq)
  qed (simp add: too_short_def)
  moreover obtain rep where "analyse exact A ?audio (int rate) = Some rep"
    using analyse_defined [of "int rate" exact A ?audio] by auto
  ultimately show ?thesis using assms(1,2) by (auto simp: dsp_main_def wav)
qed

theorem dsp_cli_analyses_witness:
  "\<exists>text. dsp_main exact exact_arith (\<lambda>_. Some (wav_file rich_chunks 1 2 [5, 7])) (\<lambda>_. True)
      [''--input'', ''a.wav'', ''--verbose'', ''--output'', ''a.json''] = Dsp_exit 0 (Some (''a.json'', text))"
proof -
  have "parseArgs [''--input'', ''a.wav'', ''--verbose'', ''--output'', ''a.json''] =
      Args \<lparr>inputPath = ''a.wav'', outputPath = ''a.json'', dsp_verbose = True\<rparr>"
    by (simp add: parseArgs_def parse_dsp.simps(2))
  from dsp_cli_analyses [OF this, of "\<lambda>_. True" "\<lambda>_. Some (wav_file rich_chunks 1 2 [5, 7])" rich_chunks 1 2 "[5, 7]" exact_arith] rich_passable
  show ?thesis by auto
qed

text \<open>A file with sample rate 0 is analysed too, and the report ends in an infinite duration, which is no JSON.\<close>

lemma zero_rate_not_json:
  "analyse exact A audio 0 = Some text \<Longrightarrow> \<exists>before. text = before @ ''inf'' @ nl @ ''}'' @ nl"
  by (auto simp: analyse_def Let_def report_def split: option.splits)

subsection \<open>Strings in JSON\<close>

text \<open>What a reader makes of the escapes.\<close>

fun unescape :: "string \<Rightarrow> string" where
  "unescape [] = []"
| "unescape (c # cs) =
     (if c = CHR 0x5C
      then (case cs of
              [] \<Rightarrow> []
            | d # ds \<Rightarrow>
                (if d = CHR ''n'' then CHR 0x0A else if d = CHR ''r'' then CHR 0x0D else if d = CHR ''t'' then CHR 0x09 else d) #
                unescape ds)
      else c # unescape cs)"

text \<open>Every string comes back, and no quotation mark ends it early.\<close>

lemma unescape_json: "unescape (concat (map json_char s)) = s"
  by (induction s) (auto simp: json_char_def)

end
