(* ===== verification/Spec2Isabelle.thy ===== *)
theory Spec2Isabelle
  imports
    Plugin_Processor Smf_Reader Harmony_Engine Drum_Engine Bass_Engine Rhythm_Engine Piano_Engine
    Humanization_Engine Arrangement_Planner Prompt_Interpreter Input_Validation Style_Detection
    Midi_Event_Arena Instrument_Mapper Reharmonize_Engine Counterpoint_Engine Orchestrate_Workflow
    Mte_Cli Service_Locator Fifo_Liveness Plugin_Scanner Plugin_Editor
    Fft Windows Biquad Key_Detection Chord_Detection Onset_Detection Dsp_Cli
begin

text \<open>
  AI MIDI Composer: the C++ part of the repository, an engine of music theory
  (\<open>src/engine/cpp\<close>) and a JUCE plugin (\<open>src/plugin/src\<close>), modelled definition by definition.

  The parts and how they meet. A prompt is validated and interpreted into a blueprint; the
  blueprint generator completes and checks it; the planners lay out its sections in bars and
  choose the instruments that play; the instrument engines write events for chords, drums, bass
  and the rest; the humaniser moves them; the renderer turns the composition into the bytes of a
  MIDI file. The command line tool chains all of them. In the plugin the message thread and the
  audio thread share a ring of events; the editor shows a piano roll, keeps its state in the
  processor, manages presets and calls an engine through a bridge that is a stub. A second tool
  analyses audio: spectrum, onsets, key and chords.

  Theories and sources (below \<open>src/engine/cpp\<close>, headers in \<open>include/aimidi\<close>):
  \<^item> \<open>Prelude\<close>: names of the integer types, loops that thread an engine state, the interface of
    \<open>std::sort\<close>, the string operations; \<open>F32\<close>: binary32 and binary64 numbers as rationals with
    their rounding; \<open>Mt19937_64\<close>: the random engine of the standard library and the interface
    \<open>random_engine\<close>; \<open>Midi_Types\<close>, \<open>Blueprint_Types\<close>: the structs of \<open>Types.hpp\<close>,
    \<open>IChordEngine.hpp\<close> and \<open>IPromptInterpreter.hpp\<close>.
  \<^item> From the prompt to the plan: \<open>Input_Validation\<close>, \<open>Prompt_Interpreter\<close>, \<open>Style_Detection\<close>,
    \<open>Blueprint_Generator\<close>, \<open>Timeline_Planner\<close>, \<open>Arrangement_Planner\<close>, \<open>GM_Programs\<close>,
    \<open>Instrument_Mapper\<close> (the files of \<open>src/theory\<close> with these names).
  \<^item> The engines: \<open>Scale_Provider\<close> (\<open>scales.cpp\<close>), \<open>Chord_Engine\<close>, \<open>Harmony_Engine\<close>
    (\<open>harmony.cpp\<close>), \<open>Drum_Engine\<close>, \<open>Bass_Engine\<close>, \<open>Rhythm_Engine\<close>, \<open>Piano_Engine\<close>,
    \<open>Guitar_Engine\<close>, \<open>Strings_Engine\<close>, \<open>Humanization_Engine\<close>, \<open>Modulation_Engine\<close>,
    \<open>Reharmonize_Engine\<close>, \<open>Counterpoint_Engine\<close>, \<open>Orchestration_Engine\<close>,
    \<open>Orchestrate_Workflow\<close>.
  \<^item> Output and infrastructure: \<open>Midi_Renderer\<close>, \<open>Smf_Reader\<close> (a reader of the file format written
    from its specification, no code of the repository), \<open>Midi_Event_Arena\<close>, \<open>Service_Locator\<close>
    (with \<open>music_theory_module.cpp\<close>), \<open>Mte_Cli\<close> (\<open>tools/mte_cli.cpp\<close>).
  \<^item> The plugin: \<open>Midi_Fifo\<close> and \<open>Fifo_Liveness\<close> (\<open>engine/MidiFifo.hpp\<close>), \<open>Plugin_Processor\<close> and
    \<open>Plugin_State\<close> (\<open>PluginProcessor.cpp\<close>: the MIDI path, and the state the host saves),
    \<open>Value_Tree\<close> (the data of JUCE), \<open>Preset_Manager\<close>, \<open>Piano_Roll\<close> (state and mouse),
    \<open>Piano_Roll_Midi\<close> (reading, exporting, tooltip), \<open>Piano_Roll_Draw\<close> (painting, as the list of
    drawing calls), \<open>Engine_Bridge\<close>, \<open>Plugin_Scanner\<close>, \<open>Plugin_Editor\<close>.
  \<^item> The analysis: \<open>Dsp_Arith\<close> (the arithmetic as a parameter), \<open>Fft\<close>, \<open>Windows\<close>, \<open>Biquad\<close>,
    \<open>Spectrum\<close> (the steps the detectors share), \<open>Key_Detection\<close>, \<open>Chord_Detection\<close>,
    \<open>Onset_Detection\<close> (\<open>src/dsp\<close>); \<open>Wav_Reader\<close> and \<open>Dsp_Cli\<close> (\<open>tools/dsp_cli.cpp\<close>).

  How the code is read. A struct is a record and an enumeration a datatype with the source's
  names. An unsigned integer is a word of its width and wraps; an \<open>int\<close> is an integer with
  truncating division (its overflow is undefined behaviour in C++ and out of reach of the bars,
  ticks and notes it holds here; the loops of the piano roll, which can reach it, check for it); where the code converts between the two, the conversion is
  written out. Text is a list of characters. A \<open>float\<close> of the composing engines is the rational
  it stands for and every operation rounds as IEEE 754 says; in the analysis it is a real number,
  and the rounding and the functions of the C library are parameters. A failure (a division by
  zero, an index out of range, a null pointer, a loop that does not end) is \<open>None\<close> or a value
  of an error type. State is passed and returned, but for two places: the two threads of the
  ring are an inductive step relation over their atomic accesses, and the service locator
  and the value trees, which other parts hold by reference, are stores of addresses.

  What other code does is a parameter with its documented contract: \<open>std::sort\<close> (any ordered
  permutation), the order of hash maps, and of JUCE the cutting of rectangles, the metrics of
  text, the conversion of trees to XML and to binary state, the order of simultaneous MIDI events, and
  the writing and reading of MIDI files: the note messages of every track come back at their ticks,
  perhaps reordered within a tick, with note-offs perhaps as note-ons without velocity and with
  other events added (\<open>smf_io_ok\<close>). Whether a file can be written is a parameter too. A factory that
  other code binds in the service locator is a program that may give an object or none, throw, not return, or
  ask locators for services. Each contract is shown to hold for a concrete function.

  What is proved. For the ring: order, no data race and progress, for every interleaving, and
  that every sequence of calls is answered as a bounded list would. For the texts: what is accepted, the limits of every number read, and
  that an accepted prompt passes the generator. For each engine: channel, range, length and
  place of every event, for every random engine that keeps its contract. For the renderer: the
  file reads back as the composition. For the tool: the whole song of a prompt, and exactly when
  it fails. For the plugin: invariants over all sequences of events of the editor, the piano roll
  and the presets, round trips of notes and saved state, when painting returns and the one mouse
  gesture that traps. For the
  analysis, in exact arithmetic: the transform is the discrete Fourier transform and has an
  inverse, the filters settle to the gains they promise from any state, a key profile and a chord
  template are recognised, onsets are the peaks they should be, and the tool analyses the samples
  of the file it is given, whatever passable chunks stand around them. Where the code does not do what it
  means to, a lemma states what it does instead.

  Termination. Recursion is structural or has a measure, with two exceptions that can run
  forever in the code and are partial functions here: the loops of the piano roll whose step can be
  zero, and the resolution of services whose factories, foreign ones included, can call each other. For
  both it is proved when they return: from four ticks per quarter on, and when the factories can be ordered. The reader of MIDI files has fuel, the number of bytes: every message takes two
  bytes at least. The known-answer lemma of the random engine is an evaluation in the kernel and
  is the slowest step of the check.

  Interfaces. \<open>std_sort\<close>, \<open>strict_weak_order\<close>, \<open>random_engine\<close>, \<open>scale_provider\<close>,
  \<open>chord_voicer\<close>, \<open>bounded_queue\<close> and \<open>registry\<close> are locales; each is interpreted on the model of
  the code that provides it.

  Not modelled. The layout, fonts and painting of the editor's own widgets; the constant answers of
  the processor to the host; usage texts, warnings and the verbose reports of the tools; the
  profiling macros; the infinities and NaN of the analysis beyond the cases the theories name, and
  any claim about its results under rounding; the services in Go (\<open>src/engine/go\<close>), the protocol files and
  the tests.
\<close>

end
